(* ===== verification/Amongoc_Prelude.thy ===== *)
theory Amongoc_Prelude
  imports Main "HOL-Library.Word" "HOL-Library.Signed_Division"
begin

text \<open>
  The vocabulary shared by the components: machine integers, byte buffers, and the
  result type in which every abort and every out-of-bounds access of the C code is a value.

  \<^item> A block of memory is a list of bytes and a pointer into it is an \<^typ>\<open>int\<close> offset, so that
    the pointer arithmetic of the source (\<open>data + 1\<close>, \<open>valptr[vallen - 1]\<close>) is written as it
    is there. An access outside the block is not a value of the block: it is the fault
    \<open>Out_of_bounds\<close>, the undefined behaviour of the program.
  \<^item> A failed \<^verbatim>\<open>BV_ASSERT\<close> (the library's default is the checked mode) is the fault
    \<open>Assert_fail\<close>, an unconditional call of \<^verbatim>\<open>abort()\<close> is \<open>Abort_called\<close>.
  \<^item> The collections \<open>res_simps\<close> and \<open>i64_simps\<close> carry the component proofs.
\<close>

section \<open>Machine integers\<close>

type_synonym byte = "8 word"
type_synonym bytes = "8 word list"
type_synonym u32 = "32 word"
type_synonym i64 = "64 word"
type_synonym u64 = "64 word"

abbreviation INT32_MAX :: int where "INT32_MAX \<equiv> 2147483647"
abbreviation INT32_MIN :: int where "INT32_MIN \<equiv> - 2147483648"
abbreviation INT64_MAX :: int where "INT64_MAX \<equiv> 9223372036854775807"
abbreviation INT64_MIN :: int where "INT64_MIN \<equiv> - 9223372036854775808"

definition in_i64 :: "int \<Rightarrow> bool" where
  "in_i64 v \<longleftrightarrow> INT64_MIN \<le> v \<and> v \<le> INT64_MAX"

definition in_i32 :: "int \<Rightarrow> bool" where
  "in_i32 v \<longleftrightarrow> INT32_MIN \<le> v \<and> v \<le> INT32_MAX"

named_theorems i64_simps \<open>signed reading of 64-bit words\<close>
named_theorems res_simps \<open>decomposition of computations that may fault\<close>

text \<open>The conversion \<^verbatim>\<open>(int32_t)u\<close> of a 32-bit unsigned value.\<close>

definition to_i32 :: "u32 \<Rightarrow> int" where
  "to_i32 u = sint u"

section \<open>Faults\<close>

datatype fault = Assert_fail | Out_of_bounds | Abort_called

type_synonym 'a res = "fault + 'a"

definition bindR :: "'a res \<Rightarrow> ('a \<Rightarrow> 'b res) \<Rightarrow> 'b res" where
  "bindR m f = (case m of Inl e \<Rightarrow> Inl e | Inr x \<Rightarrow> f x)"

text \<open>\<^verbatim>\<open>BV_ASSERT\<close> in the checked mode, which is the default.\<close>

definition bv_assert :: "bool \<Rightarrow> 'a res \<Rightarrow> 'a res" where
  "bv_assert c k = (if c then k else Inl Assert_fail)"

section \<open>Memory\<close>

definition rd :: "bytes \<Rightarrow> int \<Rightarrow> byte res" where
  "rd m i = (if 0 \<le> i \<and> i < int (length m) then Inr (m ! nat i) else Inl Out_of_bounds)"

text \<open>\<open>rd_n m p n\<close> reads \<open>n\<close> bytes at \<open>p\<close>; reading nothing is always allowed.\<close>

definition rd_n :: "bytes \<Rightarrow> int \<Rightarrow> nat \<Rightarrow> bytes res" where
  "rd_n m p n =
     (if n = 0 then Inr []
      else if 0 \<le> p \<and> p + int n \<le> int (length m) then Inr (take n (drop (nat p) m))
      else Inl Out_of_bounds)"

text \<open>\<open>wr_n m p bs\<close> overwrites the bytes at \<open>p\<close>.\<close>

definition wr_n :: "bytes \<Rightarrow> int \<Rightarrow> bytes \<Rightarrow> bytes res" where
  "wr_n m p bs =
     (if bs = [] then Inr m
      else if 0 \<le> p \<and> p + int (length bs) \<le> int (length m)
      then Inr (take (nat p) m @ bs @ drop (nat p + length bs) m)
      else Inl Out_of_bounds)"

text \<open>
  C strings: \<open>c_strlen m p\<close> is \<^verbatim>\<open>strlen(m + p)\<close>, which runs out of the block when no byte
  after \<open>p\<close> is zero. \<open>cstr bs\<close> is the longest prefix without a zero byte.
\<close>

definition cstr :: "bytes \<Rightarrow> bytes" where
  "cstr bs = takeWhile (\<lambda>b. b \<noteq> 0) bs"

definition c_strlen :: "bytes \<Rightarrow> int \<Rightarrow> int res" where
  "c_strlen m p =
     (if 0 \<le> p \<and> p \<le> int (length m) \<and> 0 \<in> set (drop (nat p) m)
      then Inr (int (length (cstr (drop (nat p) m)))) else Inl Out_of_bounds)"

section \<open>Lemmas on faults\<close>

lemma bindR_simps [simp]:
  "bindR (Inl e) f = Inl e"
  "bindR (Inr x) f = f x"
  by (simp_all add: bindR_def)

lemma bindR_eq_Inr [res_simps]:
  "bindR m f = Inr y \<longleftrightarrow> (\<exists>x. m = Inr x \<and> f x = Inr y)"
  by (cases m) auto

lemma bindR_eq_Inl [res_simps]:
  "bindR m f = Inl e \<longleftrightarrow> m = Inl e \<or> (\<exists>x. m = Inr x \<and> f x = Inl e)"
  by (cases m) auto

lemma bindR_assoc: "bindR (bindR m f) g = bindR m (\<lambda>x. bindR (f x) g)"
  by (cases m) simp_all

lemma bindR_cong [fundef_cong]:
  "m = m' \<Longrightarrow> (\<And>x. m' = Inr x \<Longrightarrow> f x = f' x) \<Longrightarrow> bindR m f = bindR m' f'"
  by (cases m') auto

lemma bv_assert_simps [simp]:
  "bv_assert True k = k"
  "bv_assert False k = Inl Assert_fail"
  by (simp_all add: bv_assert_def)

lemma bv_assert_true [simp]: "c \<Longrightarrow> bv_assert c k = k"
  by (simp add: bv_assert_def)

lemma bv_assert_eq_Inr [res_simps]:
  "bv_assert c k = Inr y \<longleftrightarrow> c \<and> k = Inr y"
  by (simp add: bv_assert_def)

lemma bv_assert_eq_Inl [res_simps]:
  "bv_assert c k = Inl e \<longleftrightarrow> (\<not> c \<and> e = Assert_fail) \<or> (c \<and> k = Inl e)"
  by (auto simp: bv_assert_def)

lemma bv_assert_cong [fundef_cong]:
  "c = c' \<Longrightarrow> (c' \<Longrightarrow> k = k') \<Longrightarrow> bv_assert c k = bv_assert c' k'"
  by (auto simp: bv_assert_def)

section \<open>Lemmas on memory\<close>

lemma rd_in [simp]: "0 \<le> i \<Longrightarrow> i < int (length m) \<Longrightarrow> rd m i = Inr (m ! nat i)"
  by (simp add: rd_def)

lemma rd_eq_Inr [res_simps]:
  "rd m i = Inr b \<longleftrightarrow> 0 \<le> i \<and> i < int (length m) \<and> b = m ! nat i"
  by (auto simp: rd_def)

lemma rd_eq_Inl [res_simps]:
  "rd m i = Inl e \<longleftrightarrow> (i < 0 \<or> int (length m) \<le> i) \<and> e = Out_of_bounds"
  by (auto simp: rd_def)

lemma rd_n_length: "rd_n m p n = Inr bs \<Longrightarrow> length bs = n"
  by (auto simp: rd_n_def split: if_splits)

lemma wr_n_length: "wr_n m p bs = Inr m' \<Longrightarrow> length m' = length m"
  by (auto simp: wr_n_def split: if_splits)

lemma rd_n_in:
  "0 \<le> p \<Longrightarrow> p + int n \<le> int (length m) \<Longrightarrow> rd_n m p n = Inr (take n (drop (nat p) m))"
  by (simp add: rd_n_def)

lemma wr_n_in:
  "0 \<le> p \<Longrightarrow> p + int (length bs) \<le> int (length m) \<Longrightarrow>
   wr_n m p bs = Inr (take (nat p) m @ bs @ drop (nat p + length bs) m)"
  by (cases "bs = []") (simp_all add: wr_n_def)

lemma rd_n_append_at:
  "p = int (length pre) \<Longrightarrow> n = length bs \<Longrightarrow> rd_n (pre @ bs @ post) p n = Inr bs"
  by (simp add: rd_n_def)

lemma wr_n_append_at:
  "p = int (length pre) \<Longrightarrow> length old = length bs \<Longrightarrow>
   wr_n (pre @ old @ post) p bs = Inr (pre @ bs @ post)"
  by (cases "bs = []") (simp_all add: wr_n_def)

lemma drop_nat_shift: "0 \<le> p \<Longrightarrow> 0 \<le> k \<Longrightarrow> drop (nat (p + k)) m = drop (nat k) (drop (nat p) m)"
  by (simp add: nat_add_distrib add.commute)

lemma nth_drop_nat:
  "0 \<le> p \<Longrightarrow> 0 \<le> k \<Longrightarrow> p + k < int (length m) \<Longrightarrow> drop (nat p) m ! nat k = m ! nat (p + k)"
  by (simp add: nat_add_distrib)

section \<open>Lemmas on C strings\<close>

lemma cstr_simps [simp]: "cstr [] = []" "cstr (b # bs) = (if b = 0 then [] else b # cstr bs)"
  by (simp_all add: cstr_def)

lemma zero_notin_cstr [simp]: "0 \<notin> set (cstr bs)"
  by (induction bs) auto

lemma cstr_id_iff: "cstr bs = bs \<longleftrightarrow> 0 \<notin> set bs"
  by (induction bs) auto

lemma cstr_append:
  "cstr (bs @ cs) = (if 0 \<in> set bs then cstr bs else bs @ cstr cs)"
  by (induction bs) auto

lemma length_cstr_le: "length (cstr bs) \<le> length bs"
  by (simp add: cstr_def length_takeWhile_le)

lemma length_cstr_less: "0 \<in> set bs \<Longrightarrow> length (cstr bs) < length bs"
  by (induction bs) auto

lemma nth_length_cstr: "0 \<in> set bs \<Longrightarrow> bs ! length (cstr bs) = 0"
  by (induction bs) auto

lemma cstr_split: "0 \<in> set bs \<Longrightarrow> bs = cstr bs @ 0 # drop (Suc (length (cstr bs))) bs"
  by (induction bs) auto

lemma cstr_take: "cstr (take n bs) = take n (cstr bs)"
  by (induction bs arbitrary: n) (auto simp: take_Cons split: nat.splits)

lemma cstr_take_eq: "0 \<in> set (take n xs) \<Longrightarrow> cstr (take n xs) = cstr xs"
  using cstr_append [of "take n xs" "drop n xs"] by simp

lemma cstr_take_split:
  assumes "0 \<in> set (take n xs)"
  shows "\<exists>rest. xs = cstr (take n xs) @ 0 # rest"
  using cstr_split [of xs] set_take_subset [of n xs] assms by (auto simp: cstr_take_eq)

lemma c_strlen_at:
  "p = int (length pre) \<Longrightarrow> 0 \<notin> set k \<Longrightarrow> c_strlen (pre @ k @ 0 # post) p = Inr (int (length k))"
  by (simp add: c_strlen_def cstr_append)

section \<open>Signed reading of words\<close>

lemma sint_i64_range: "INT64_MIN \<le> sint (x :: i64)" "sint (x :: i64) \<le> INT64_MAX"
  using sint_ge [of x] sint_lt [of x] by simp_all

lemma in_i64_sint [simp]: "in_i64 (sint (x :: i64))"
  using sint_i64_range [of x] by (simp add: in_i64_def)

lemma sint_i32_range: "INT32_MIN \<le> sint (x :: u32)" "sint (x :: u32) \<le> INT32_MAX"
  using sint_ge [of x] sint_lt [of x] by simp_all

lemma in_i32_to_i32 [simp]: "in_i32 (to_i32 x)"
  using sint_i32_range [of x] by (simp add: in_i32_def to_i32_def)

lemma sint_of_in_i64 [i64_simps]: "in_i64 v \<Longrightarrow> sint (word_of_int v :: i64) = v"
  by (simp add: in_i64_def sint_sbintrunc' signed_take_bit_int_eq_self)

lemma sint_of_nat_i64 [i64_simps]: "in_i64 (int n) \<Longrightarrow> sint (word_of_nat n :: i64) = int n"
  using sint_of_in_i64 [of "int n"] by simp

lemma sint_of_in_i32: "in_i32 v \<Longrightarrow> sint (word_of_int v :: u32) = v"
  by (simp add: in_i32_def sint_sbintrunc' signed_take_bit_int_eq_self)

end
