(* ===== verification/Mlib_Integer.thy ===== *)
theory Mlib_Integer
  imports Amongoc_Prelude
begin

unbundle bit_operations_syntax

text \<open>
  The checked integer arithmetic of \<^verbatim>\<open>include/mlib/integer.h\<close>: the three overflow predicates,
  the type \<^verbatim>\<open>mlib_integer\<close> (a 64-bit value and a mask of error flags that every operation
  passes on), the operations on it, and the \<^verbatim>\<open>mlibMath\<close> macros that clients compose.

  An \<^verbatim>\<open>int64_t\<close> is a 64-bit word read with \<^const>\<open>sint\<close>, and \<^verbatim>\<open><\<close> on it is the signed
  \<^const>\<open>word_sless\<close>; the C division truncates towards zero, which is \<open>sdiv\<close> on \<^typ>\<open>int\<close>.
  The source location that \<^verbatim>\<open>mlib_math_fail_info\<close> also records is left out: nothing reads it.

  The locale \<open>checked_op\<close> is the contract of a checked operation (exact unless flagged, the flag
  raised exactly outside the range); it is interpreted on addition, multiplication and
  subtraction. Subtraction satisfies it on every pair of operands whose difference is not
  \<open>2 ^ 63\<close>: there the code raises no flag and wraps around.
\<close>

section \<open>Overflow predicates\<close>

definition i64_max :: i64 where "i64_max = 9223372036854775807"
definition i64_min :: i64 where "i64_min = 9223372036854775808"

definition i64_div :: "i64 \<Rightarrow> i64 \<Rightarrow> i64" where
  "i64_div a b = word_of_int (sint a sdiv sint b)"

definition mlib_i64_mul_would_overflow :: "i64 \<Rightarrow> i64 \<Rightarrow> bool" where
  "mlib_i64_mul_would_overflow left right =
     (if right = - 1 then left = i64_min
      else if right = 0 then False
      else if 0 <s left then
        (if 0 <s right then
           (let max_fac = i64_div i64_max right in max_fac <s left)
         else
           (let min_fac = i64_div i64_min left in right <s min_fac))
      else
        (if 0 <s right then
           (let min_fac = i64_div i64_min right in left <s min_fac)
         else if left = 0 then False
         else (let max_fac = i64_div i64_max left in right <s max_fac)))"

definition mlib_i64_add_would_overflow :: "i64 \<Rightarrow> i64 \<Rightarrow> bool" where
  "mlib_i64_add_would_overflow left right =
     (if right <s 0 then (let legroom = i64_min - right in left <s legroom)
      else if 0 <s right then (let headroom = i64_max - right in headroom <s left)
      else False)"

definition mlib_i64_sub_would_overflow :: "i64 \<Rightarrow> i64 \<Rightarrow> bool" where
  "mlib_i64_sub_would_overflow left right =
     (if 0 <s right then mlib_i64_add_would_overflow left (- right)
      else if right <s 0 then
        (if 0 <s left then mlib_i64_add_would_overflow (- left) right else False)
      else False)"

section \<open>Checked integers\<close>

abbreviation mlib_integer_okay :: u32 where "mlib_integer_okay \<equiv> 0"

definition mlib_integer_add_overflow :: u32 where "mlib_integer_add_overflow = 1"
definition mlib_integer_sub_overflow :: u32 where "mlib_integer_sub_overflow = 2"
definition mlib_integer_mul_overflow :: u32 where "mlib_integer_mul_overflow = 4"
definition mlib_integer_div_overflow :: u32 where "mlib_integer_div_overflow = 8"
definition mlib_integer_bounds :: u32 where "mlib_integer_bounds = 16"
definition mlib_integer_zerodiv :: u32 where "mlib_integer_zerodiv = 32"
definition mlib_integer_allbits :: u32 where "mlib_integer_allbits = 63"

record mlib_integer =
  mi_i64 :: i64
  mi_flags :: u32

definition mlib_math_clear_flags :: "mlib_integer \<Rightarrow> u32 \<Rightarrow> mlib_integer" where
  "mlib_math_clear_flags v flags = v\<lparr>mi_flags := mi_flags v AND NOT flags\<rparr>"

definition mlib_math_set_flags :: "mlib_integer \<Rightarrow> u32 \<Rightarrow> mlib_integer" where
  "mlib_math_set_flags v flags = v\<lparr>mi_flags := flags OR mi_flags v\<rparr>"

definition mlib_math_from_i64 :: "i64 \<Rightarrow> mlib_integer" where
  "mlib_math_from_i64 val = \<lparr>mi_i64 = val, mi_flags = mlib_integer_okay\<rparr>"

definition mlib_math_from_u64 :: "u64 \<Rightarrow> mlib_integer" where
  "mlib_math_from_u64 val =
     (let v = mlib_math_from_i64 val in
      if i64_max < val then mlib_math_set_flags v mlib_integer_bounds else v)"

definition mlib_math_add :: "mlib_integer \<Rightarrow> mlib_integer \<Rightarrow> bool \<Rightarrow> mlib_integer" where
  "mlib_math_add l0 r saturate =
     (let l = mlib_math_set_flags l0 (mi_flags r) in
      if mlib_i64_add_would_overflow (mi_i64 l) (mi_i64 r) then
        (let l = mlib_math_set_flags l mlib_integer_add_overflow in
         if saturate then
           (if 0 <s mi_i64 l then l\<lparr>mi_i64 := i64_max\<rparr> else l\<lparr>mi_i64 := i64_min\<rparr>)
         else l\<lparr>mi_i64 := mi_i64 l + mi_i64 r\<rparr>)
      else l\<lparr>mi_i64 := mi_i64 l + mi_i64 r\<rparr>)"

definition mlib_math_sub :: "mlib_integer \<Rightarrow> mlib_integer \<Rightarrow> mlib_integer" where
  "mlib_math_sub l0 r =
     (let l = mlib_math_set_flags l0 (mi_flags r);
          l = (if mlib_i64_sub_would_overflow (mi_i64 l) (mi_i64 r)
               then mlib_math_set_flags l mlib_integer_sub_overflow else l)
      in l\<lparr>mi_i64 := mi_i64 l - mi_i64 r\<rparr>)"

definition mlib_math_mul :: "mlib_integer \<Rightarrow> mlib_integer \<Rightarrow> bool \<Rightarrow> mlib_integer" where
  "mlib_math_mul l0 r saturate =
     (let l = mlib_math_set_flags l0 (mi_flags r) in
      if mlib_i64_mul_would_overflow (mi_i64 l) (mi_i64 r) then
        (let l = mlib_math_set_flags l mlib_integer_mul_overflow in
         if saturate then
           (if (mi_i64 l <s 0) \<noteq> (mi_i64 r <s 0)
            then l\<lparr>mi_i64 := i64_min\<rparr> else l\<lparr>mi_i64 := i64_max\<rparr>)
         else l\<lparr>mi_i64 := mi_i64 l * mi_i64 r\<rparr>)
      else l\<lparr>mi_i64 := mi_i64 l * mi_i64 r\<rparr>)"

definition mlib_math_check_bounds ::
  "mlib_integer \<Rightarrow> mlib_integer \<Rightarrow> mlib_integer \<Rightarrow> mlib_integer" where
  "mlib_math_check_bounds mn mx v0 =
     (let v = mlib_math_set_flags v0 (mi_flags mn);
          v = mlib_math_set_flags v (mi_flags mx)
      in if mi_i64 v <s mi_i64 mn
         then (mlib_math_set_flags v mlib_integer_bounds)\<lparr>mi_i64 := mi_i64 mn\<rparr>
         else if mi_i64 mx <s mi_i64 v
         then (mlib_math_set_flags v mlib_integer_bounds)\<lparr>mi_i64 := mi_i64 mx\<rparr>
         else v)"

definition mlib_math_div :: "mlib_integer \<Rightarrow> mlib_integer \<Rightarrow> mlib_integer" where
  "mlib_math_div num0 den =
     (let num = mlib_math_set_flags num0 (mi_flags den) in
      if mi_i64 den = 0
      then (mlib_math_set_flags num mlib_integer_zerodiv)\<lparr>mi_i64 := i64_max\<rparr>
      else if mi_i64 num = i64_min \<and> mi_i64 den = - 1
      then (mlib_math_set_flags num mlib_integer_div_overflow)\<lparr>mi_i64 := 0\<rparr>
      else num\<lparr>mi_i64 := i64_div (mi_i64 num) (mi_i64 den)\<rparr>)"

text \<open>The loop \<^verbatim>\<open>while (ret < maxlen.i64 && string[ret])\<close>, reading the block \<open>m\<close> at \<open>p\<close>.\<close>

fun strnlen_loop :: "bytes \<Rightarrow> int \<Rightarrow> nat \<Rightarrow> int res" where
  "strnlen_loop m p 0 = Inr 0"
| "strnlen_loop m p (Suc n) =
     bindR (rd m p) (\<lambda>c.
       if c = 0 then Inr 0 else bindR (strnlen_loop m (p + 1) n) (\<lambda>k. Inr (k + 1)))"

definition mlib_math_strnlen :: "bytes \<Rightarrow> int \<Rightarrow> mlib_integer \<Rightarrow> mlib_integer res" where
  "mlib_math_strnlen m p maxlen =
     (if mi_flags maxlen \<noteq> 0 then Inr \<lparr>mi_i64 = 0, mi_flags = mi_flags maxlen\<rparr>
      else if mi_i64 maxlen <s 0 then Inr \<lparr>mi_i64 = 0, mi_flags = mlib_integer_bounds\<rparr>
      else bindR (strnlen_loop m p (nat (sint (mi_i64 maxlen)))) (\<lambda>ret.
        Inr \<lparr>mi_i64 = word_of_int ret, mi_flags = mlib_integer_okay\<rparr>))"

definition mlib_math_assert_not_flags :: "u32 \<Rightarrow> mlib_integer \<Rightarrow> mlib_integer res" where
  "mlib_math_assert_not_flags flags v =
     (if flags AND mi_flags v \<noteq> 0 then Inl Abort_called else Inr v)"

section \<open>The \<open>mlibMath\<close> expressions\<close>

text \<open>Subexpressions \<open>I(x)\<close> and \<open>U(x)\<close>, on the mathematical value of a C expression.\<close>

definition math_I :: "int \<Rightarrow> mlib_integer" where
  "math_I x = mlib_math_from_i64 (word_of_int x)"

definition math_U :: "int \<Rightarrow> mlib_integer" where
  "math_U x = mlib_math_from_u64 (word_of_int x)"

definition math_neg :: "mlib_integer \<Rightarrow> mlib_integer" where
  "math_neg n = mlib_math_sub (math_I 0) n"

definition checkMin :: "mlib_integer \<Rightarrow> mlib_integer \<Rightarrow> mlib_integer" where
  "checkMin mn v = mlib_math_check_bounds mn (math_I INT64_MAX) v"

definition checkMax :: "mlib_integer \<Rightarrow> mlib_integer \<Rightarrow> mlib_integer" where
  "checkMax mx v = mlib_math_check_bounds (math_I INT64_MIN) mx v"

definition checkInt32 :: "mlib_integer \<Rightarrow> mlib_integer" where
  "checkInt32 v = mlib_math_check_bounds (math_I INT32_MIN) (math_I INT32_MAX) v"

definition checkNonNegativeInt32 :: "mlib_integer \<Rightarrow> mlib_integer" where
  "checkNonNegativeInt32 v = mlib_math_check_bounds (math_I 0) (math_I INT32_MAX) v"

definition checkPositiveInt32 :: "mlib_integer \<Rightarrow> mlib_integer" where
  "checkPositiveInt32 v = mlib_math_check_bounds (math_I 1) (math_I INT32_MAX) v"

definition checkInt16 :: "mlib_integer \<Rightarrow> mlib_integer" where
  "checkInt16 v = mlib_math_check_bounds (math_I (- 32768)) (math_I 32767) v"

definition checkNonNegativeInt16 :: "mlib_integer \<Rightarrow> mlib_integer" where
  "checkNonNegativeInt16 v = mlib_math_check_bounds (math_I 0) (math_I INT64_MAX) v"

definition checkPositiveInt16 :: "mlib_integer \<Rightarrow> mlib_integer" where
  "checkPositiveInt16 v = mlib_math_check_bounds (math_I 1) (math_I INT64_MAX) v"

definition checkInt8 :: "mlib_integer \<Rightarrow> mlib_integer" where
  "checkInt8 v = mlib_math_check_bounds (math_I (- 128)) (math_I 127) v"

definition checkNonNegativeInt8 :: "mlib_integer \<Rightarrow> mlib_integer" where
  "checkNonNegativeInt8 v = mlib_math_check_bounds (math_I 0) (math_I 127) v"

definition checkPositiveInt8 :: "mlib_integer \<Rightarrow> mlib_integer" where
  "checkPositiveInt8 v = mlib_math_check_bounds (math_I 1) (math_I 127) v"

definition checkNonNegative :: "mlib_integer \<Rightarrow> mlib_integer" where
  "checkNonNegative v = mlib_math_check_bounds (math_I 0) (math_I INT64_MAX) v"

definition checkNonPositive :: "mlib_integer \<Rightarrow> mlib_integer" where
  "checkNonPositive v = mlib_math_check_bounds (math_I INT64_MIN) (math_I 0) v"

definition checkPositive :: "mlib_integer \<Rightarrow> mlib_integer" where
  "checkPositive v = mlib_math_check_bounds (math_I 1) (math_I INT64_MAX) v"

definition math_strnlen32 :: "bytes \<Rightarrow> int \<Rightarrow> mlib_integer \<Rightarrow> mlib_integer res" where
  "math_strnlen32 m p maxlen = bindR (mlib_math_strnlen m p maxlen) (\<lambda>v. Inr (checkInt32 v))"

section \<open>Casts, \<open>mlib_math_try\<close> and \<open>mlib_math_catch\<close>\<close>

record mlib_math_fail_info =
  fi_i64 :: i64
  fi_flags :: u32

definition mlib_math_try :: mlib_math_fail_info where
  "mlib_math_try = \<lparr>fi_i64 = 0, fi_flags = mlib_integer_okay\<rparr>"

definition mlib_math_catch :: "mlib_math_fail_info \<Rightarrow> bool" where
  "mlib_math_catch info \<longleftrightarrow> fi_flags info \<noteq> 0"

definition mlibMathFillFailureInfo ::
  "mlib_math_fail_info \<Rightarrow> mlib_integer \<Rightarrow> mlib_math_fail_info \<times> mlib_integer" where
  "mlibMathFillFailureInfo info v =
     ((if mi_flags v \<noteq> 0 then info\<lparr>fi_i64 := mi_i64 v, fi_flags := mi_flags v\<rparr> else info), v)"

definition castInt64 ::
  "mlib_math_fail_info \<Rightarrow> mlib_integer \<Rightarrow> mlib_math_fail_info \<times> int" where
  "castInt64 info v = (case mlibMathFillFailureInfo info v of (info', w) \<Rightarrow> (info', sint (mi_i64 w)))"

definition castUInt64 ::
  "mlib_math_fail_info \<Rightarrow> mlib_integer \<Rightarrow> mlib_math_fail_info \<times> int" where
  "castUInt64 info v =
     (case mlibMathFillFailureInfo info (checkNonNegative v) of (info', w) \<Rightarrow>
        (info', uint (mi_i64 w)))"

definition castInt32 ::
  "mlib_math_fail_info \<Rightarrow> mlib_integer \<Rightarrow> mlib_math_fail_info \<times> int" where
  "castInt32 info v =
     (case mlibMathFillFailureInfo info (checkInt32 v) of (info', w) \<Rightarrow>
        (info', sint (ucast (mi_i64 w) :: u32)))"

definition castUInt32 ::
  "mlib_math_fail_info \<Rightarrow> mlib_integer \<Rightarrow> mlib_math_fail_info \<times> int" where
  "castUInt32 info v =
     (case mlibMathFillFailureInfo info (checkNonNegativeInt32 v) of (info', w) \<Rightarrow>
        (info', uint (ucast (mi_i64 w) :: u32)))"

definition castPositiveInt32 ::
  "mlib_math_fail_info \<Rightarrow> mlib_integer \<Rightarrow> mlib_math_fail_info \<times> int" where
  "castPositiveInt32 info v = castInt32 info (checkPositiveInt32 v)"

definition castPositiveUInt32 ::
  "mlib_math_fail_info \<Rightarrow> mlib_integer \<Rightarrow> mlib_math_fail_info \<times> int" where
  "castPositiveUInt32 info v = castUInt32 info (checkPositive v)"

definition castNonNegativeInt32 ::
  "mlib_math_fail_info \<Rightarrow> mlib_integer \<Rightarrow> mlib_math_fail_info \<times> int" where
  "castNonNegativeInt32 info v = castInt32 info (checkNonNegative v)"


section \<open>Signed readings\<close>

lemma sint_i64_consts [simp, i64_simps]:
  "sint i64_max = INT64_MAX" "sint i64_min = INT64_MIN"
  by (simp_all add: i64_max_def i64_min_def)

lemma i64_eq_iff: "a = b \<longleftrightarrow> sint a = sint b" for a b :: i64
  by (auto intro: signed_word_eqI)

lemma sint_i64_sub_exact:
  "in_i64 (sint a - sint b) \<Longrightarrow> sint (a - b) = sint a - sint b" for a b :: i64
  by (simp add: in_i64_def sint_word_ariths signed_take_bit_int_eq_self)

lemma sint_i64_add_exact:
  "in_i64 (sint a + sint b) \<Longrightarrow> sint (a + b) = sint a + sint b" for a b :: i64
  by (simp add: in_i64_def sint_word_ariths signed_take_bit_int_eq_self)

lemma sint_i64_mul_exact:
  "in_i64 (sint a * sint b) \<Longrightarrow> sint (a * b) = sint a * sint b" for a b :: i64
  by (simp add: in_i64_def sint_word_ariths signed_take_bit_int_eq_self)

lemma sint_i64_neg_exact:
  "sint a \<noteq> INT64_MIN \<Longrightarrow> sint (- a) = - sint a" for a :: i64
  using sint_i64_range [of a]
  by (simp add: sint_word_ariths signed_take_bit_int_eq_self)

section \<open>The overflow predicates decide overflow\<close>

lemma div_less_iff_int: "0 < q \<Longrightarrow> m div q < n \<longleftrightarrow> m < n * q" for m n q :: int
  using pos_imp_zdiv_neg_iff [of q "m + (- n) * q"] div_mult_self1 [of q m "- n"] by simp

lemma sdiv_i64_range:
  assumes "in_i64 a" "b \<noteq> 0" "\<not> (a = INT64_MIN \<and> b = - 1)"
  shows "in_i64 (a sdiv b)"
proof (cases "a = INT64_MIN")
  case True
  show ?thesis
  proof (cases "b = 1")
    case False
    with True assms have "2 \<le> \<bar>b\<bar>" by auto
    then have "\<bar>a\<bar> div \<bar>b\<bar> \<le> \<bar>a\<bar> div 2" by (intro zdiv_mono2) auto
    moreover have "0 \<le> \<bar>a\<bar> div \<bar>b\<bar>" by (simp add: pos_imp_zdiv_nonneg_iff assms)
    ultimately show ?thesis
      using True assms by (auto simp: in_i64_def signed_divide_int_def sgn_if)
  qed (use True in \<open>simp add: in_i64_def signed_divide_int_def\<close>)
next
  case False
  then have "\<bar>a\<bar> \<le> INT64_MAX" using assms by (auto simp: in_i64_def)
  then show ?thesis using sdiv_int_range [of a b] by (auto simp: in_i64_def)
qed

lemma sint_i64_div [i64_simps]:
  "b \<noteq> 0 \<Longrightarrow> \<not> (sint a = INT64_MIN \<and> sint b = - 1) \<Longrightarrow>
   sint (i64_div a b) = sint a sdiv sint b"
  unfolding i64_div_def by (intro sint_of_in_i64 sdiv_i64_range) (auto simp: i64_eq_iff)

lemma less_sdiv_max:
  "0 < b \<Longrightarrow> (INT64_MAX sdiv b < a) \<longleftrightarrow> INT64_MAX < a * b"
  "b < 0 \<Longrightarrow> (a < INT64_MAX sdiv b) \<longleftrightarrow> INT64_MAX < a * b"
  using div_less_iff_int [of b INT64_MAX a] div_less_iff_int [of "- b" INT64_MAX "- a"]
  by (auto simp: signed_divide_int_def)

lemma less_sdiv_min:
  "0 < b \<Longrightarrow> (a < INT64_MIN sdiv b) \<longleftrightarrow> a * b < INT64_MIN"
  using div_less_iff_int [of b "- INT64_MIN" "- a"] by (auto simp: signed_divide_int_def)

lemma mul_i64_sign_bounds:
  "0 \<le> L \<and> 0 \<le> R \<or> L \<le> 0 \<and> R \<le> 0 \<Longrightarrow> INT64_MIN \<le> L * R"
  "0 \<le> L \<and> R \<le> 0 \<or> L \<le> 0 \<and> 0 \<le> R \<Longrightarrow> L * R \<le> INT64_MAX"
  using zero_le_mult_iff [of L R] mult_le_0_iff [of L R] by linarith+

lemma mul_overflow_cases_int:
  assumes "in_i64 L" "in_i64 R"
  shows
    "R = - 1 \<Longrightarrow> \<not> in_i64 (L * R) \<longleftrightarrow> L = INT64_MIN"
    "R = 0 \<or> L = 0 \<Longrightarrow> in_i64 (L * R)"
    "0 < L \<Longrightarrow> 0 < R \<Longrightarrow> \<not> in_i64 (L * R) \<longleftrightarrow> INT64_MAX sdiv R < L"
    "0 < L \<Longrightarrow> R < 0 \<Longrightarrow> \<not> in_i64 (L * R) \<longleftrightarrow> R < INT64_MIN sdiv L"
    "L \<le> 0 \<Longrightarrow> 0 < R \<Longrightarrow> \<not> in_i64 (L * R) \<longleftrightarrow> L < INT64_MIN sdiv R"
    "L < 0 \<Longrightarrow> R < 0 \<Longrightarrow> \<not> in_i64 (L * R) \<longleftrightarrow> R < INT64_MAX sdiv L"
proof -
  note bnd = mul_i64_sign_bounds [of L R]
  show "R = - 1 \<Longrightarrow> \<not> in_i64 (L * R) \<longleftrightarrow> L = INT64_MIN" "R = 0 \<or> L = 0 \<Longrightarrow> in_i64 (L * R)"
    using assms by (auto simp: in_i64_def)
  show "0 < L \<Longrightarrow> 0 < R \<Longrightarrow> \<not> in_i64 (L * R) \<longleftrightarrow> INT64_MAX sdiv R < L"
    using bnd less_sdiv_max(1) [of R L] unfolding in_i64_def by linarith
  show "0 < L \<Longrightarrow> R < 0 \<Longrightarrow> \<not> in_i64 (L * R) \<longleftrightarrow> R < INT64_MIN sdiv L"
    using bnd less_sdiv_min [of L R] unfolding in_i64_def mult.commute [of R L] by linarith
  show "L \<le> 0 \<Longrightarrow> 0 < R \<Longrightarrow> \<not> in_i64 (L * R) \<longleftrightarrow> L < INT64_MIN sdiv R"
    using bnd less_sdiv_min [of R L] unfolding in_i64_def by linarith
  show "L < 0 \<Longrightarrow> R < 0 \<Longrightarrow> \<not> in_i64 (L * R) \<longleftrightarrow> R < INT64_MAX sdiv L"
    using bnd less_sdiv_max(2) [of L R] unfolding in_i64_def mult.commute [of R L] by linarith
qed

lemma mul_would_overflow_iff:
  "mlib_i64_mul_would_overflow left right \<longleftrightarrow> \<not> in_i64 (sint left * sint right)"
proof -
  note int_cases = mul_overflow_cases_int [of "sint left" "sint right", OF in_i64_sint in_i64_sint]
  have words: "right = - 1 \<longleftrightarrow> sint right = - 1" "right = 0 \<longleftrightarrow> sint right = 0"
      "left = 0 \<longleftrightarrow> sint left = 0" "left = i64_min \<longleftrightarrow> sint left = INT64_MIN"
    by (simp_all add: i64_eq_iff)
  have div_left: "sint left \<noteq> 0 \<Longrightarrow> sint (i64_div i64_max left) = INT64_MAX sdiv sint left"
      "0 < sint left \<Longrightarrow> sint (i64_div i64_min left) = INT64_MIN sdiv sint left"
    and div_right: "sint right \<noteq> 0 \<Longrightarrow> sint (i64_div i64_max right) = INT64_MAX sdiv sint right"
      "0 < sint right \<Longrightarrow> sint (i64_div i64_min right) = INT64_MIN sdiv sint right"
    by (simp_all add: sint_i64_div i64_eq_iff)
  show ?thesis
  proof (cases "sint right = - 1")
    case False
    then show ?thesis
      using int_cases(2-) unfolding mlib_i64_mul_would_overflow_def Let_def word_sless_alt words
      by (cases "sint left" "0 :: int" rule: linorder_cases;
          cases "sint right" "0 :: int" rule: linorder_cases)
        (simp_all add: div_left div_right del: minus_sdiv_eq)
  qed (use int_cases(1) in \<open>simp add: mlib_i64_mul_would_overflow_def words\<close>)
qed

lemma add_would_overflow_iff:
  "mlib_i64_add_would_overflow left right \<longleftrightarrow> \<not> in_i64 (sint left + sint right)"
  using sint_i64_range [of left] sint_i64_range [of right]
    sint_i64_sub_exact [of i64_min right] sint_i64_sub_exact [of i64_max right]
  by (auto simp: mlib_i64_add_would_overflow_def in_i64_def word_sless_alt)

text \<open>
  Subtraction: the predicate is exact except at the one difference \<open>2 ^ 63\<close>, which it
  does not report (\<open>left = 1, right = - INT64_MAX\<close>, or \<open>left = 0, right = INT64_MIN\<close>).
\<close>

lemma sub_would_overflow_iff:
  "mlib_i64_sub_would_overflow left right \<longleftrightarrow>
     \<not> in_i64 (sint left - sint right) \<and> sint left - sint right \<noteq> 2 ^ 63"
  using sint_i64_range [of left] sint_i64_range [of right]
    sint_i64_neg_exact [of left] sint_i64_neg_exact [of right]
  by (auto simp: mlib_i64_sub_would_overflow_def add_would_overflow_iff in_i64_def word_sless_alt)

section \<open>The contract of a checked operation\<close>

text \<open>
  What a checked integer stands for: its value when no error flag is set, nothing otherwise.
\<close>

definition mi_val :: "mlib_integer \<Rightarrow> int option" where
  "mi_val m = (if mi_flags m = 0 then Some (sint (mi_i64 m)) else None)"

text \<open>The abstract operation: exact, and undefined as soon as a result leaves the range.\<close>

definition checked :: "(int \<Rightarrow> int \<Rightarrow> int) \<Rightarrow> int option \<Rightarrow> int option \<Rightarrow> int option" where
  "checked f a b =
     Option.bind a (\<lambda>x. Option.bind b (\<lambda>y. if in_i64 (f x y) then Some (f x y) else None))"

lemma checked_simps [simp]:
  "checked f None b = None"
  "checked f a None = None"
  "checked f (Some x) (Some y) = (if in_i64 (f x y) then Some (f x y) else None)"
  by (cases a; simp add: checked_def)+

locale checked_op =
  fixes cop :: "mlib_integer \<Rightarrow> mlib_integer \<Rightarrow> mlib_integer"
    and exact :: "int \<Rightarrow> int \<Rightarrow> int"
    and ovf :: u32
    and valid :: "int \<Rightarrow> int \<Rightarrow> bool"
  assumes wraps:
      "mi_i64 (cop a b) = word_of_int (exact (sint (mi_i64 a)) (sint (mi_i64 b)))"
    and flags: "valid (sint (mi_i64 a)) (sint (mi_i64 b)) \<Longrightarrow>
      mi_flags (cop a b) =
        mi_flags a OR mi_flags b OR
        (if in_i64 (exact (sint (mi_i64 a)) (sint (mi_i64 b))) then 0 else ovf)"
    and ovf_nz: "ovf \<noteq> 0"
begin

lemma flags_inherited:
  assumes "valid (sint (mi_i64 a)) (sint (mi_i64 b))"
  shows "mi_flags a AND mi_flags (cop a b) = mi_flags a"
    and "mi_flags b AND mi_flags (cop a b) = mi_flags b"
  by (simp_all add: flags [OF assms] bit_eq_iff bit_simps) blast+

lemma refines_checked:
  assumes "valid (sint (mi_i64 a)) (sint (mi_i64 b))"
  shows "mi_val (cop a b) = checked exact (mi_val a) (mi_val b)"
  using ovf_nz by (simp add: mi_val_def flags [OF assms] wraps or_eq_0_iff sint_of_in_i64)

end

lemma set_flags_sel [simp]:
  "mi_i64 (mlib_math_set_flags v f) = mi_i64 v"
  "mi_flags (mlib_math_set_flags v f) = f OR mi_flags v"
  by (simp_all add: mlib_math_set_flags_def)

lemma i64_word_of_int_sint:
  "word_of_int (sint a + sint b) = a + b" "word_of_int (sint a - sint b) = a - b"
  "word_of_int (sint a * sint b) = a * b" for a b :: i64
  by simp_all

interpretation add_op: checked_op "\<lambda>a b. mlib_math_add a b False" "(+)"
  mlib_integer_add_overflow "\<lambda>_ _. True"
  by unfold_locales
    (simp_all add: mlib_math_add_def Let_def add_would_overflow_iff mlib_integer_add_overflow_def
      or.left_commute or.commute)

interpretation mul_op: checked_op "\<lambda>a b. mlib_math_mul a b False" "(*)"
  mlib_integer_mul_overflow "\<lambda>_ _. True"
  by unfold_locales
    (simp_all add: mlib_math_mul_def Let_def mul_would_overflow_iff mlib_integer_mul_overflow_def
      or.left_commute or.commute)

interpretation sub_op: checked_op mlib_math_sub "(-)"
  mlib_integer_sub_overflow "\<lambda>x y. x - y \<noteq> 2 ^ 63"
  by unfold_locales
    (simp_all add: mlib_math_sub_def Let_def sub_would_overflow_iff mlib_integer_sub_overflow_def
      or.left_commute or.commute)

section \<open>The value of an \<open>mlibMath\<close> expression\<close>

named_theorems mi_val_simps \<open>the value of a checked expression\<close>

lemma mi_val_I [mi_val_simps]: "in_i64 x \<Longrightarrow> mi_val (math_I x) = Some x"
  by (simp add: mi_val_def math_I_def mlib_math_from_i64_def sint_of_in_i64)

lemma math_I_sel:
  "in_i64 x \<Longrightarrow> sint (mi_i64 (math_I x)) = x" "mi_flags (math_I x) = 0"
  by (simp_all add: math_I_def mlib_math_from_i64_def sint_of_in_i64)

lemma mi_val_U [mi_val_simps]:
  assumes "0 \<le> x" "x < 2 ^ 64"
  shows "mi_val (math_U x) = (if x \<le> INT64_MAX then Some x else None)"
proof -
  have "uint (word_of_int x :: u64) = x"
    using assms by (simp add: unsigned_of_int take_bit_int_eq_self)
  then have "(i64_max < word_of_int x) \<longleftrightarrow> INT64_MAX < x"
    by (simp add: word_less_alt i64_max_def)
  then show ?thesis
    using assms
    by (simp add: mi_val_def math_U_def mlib_math_from_u64_def Let_def mlib_math_from_i64_def
        mlib_integer_bounds_def sint_of_in_i64 in_i64_def or_eq_0_iff)
qed

lemma mi_val_add [mi_val_simps]:
  "mi_val (mlib_math_add a b False) = checked (+) (mi_val a) (mi_val b)"
  by (rule add_op.refines_checked) simp

lemma mi_val_mul [mi_val_simps]:
  "mi_val (mlib_math_mul a b False) = checked (*) (mi_val a) (mi_val b)"
  by (rule mul_op.refines_checked) simp

lemma mi_val_sub [mi_val_simps]:
  "mi_val a = Some x \<Longrightarrow> mi_val b = Some y \<Longrightarrow> x - y \<noteq> 2 ^ 63 \<Longrightarrow>
   mi_val (mlib_math_sub a b) = (if in_i64 (x - y) then Some (x - y) else None)"
  using sub_op.refines_checked [of a b] by (auto simp: mi_val_def split: if_splits)

lemma mi_val_check_bounds:
  assumes "in_i64 lo" "in_i64 hi" "lo \<le> hi"
  shows "mi_val (mlib_math_check_bounds (math_I lo) (math_I hi) v) =
    (case mi_val v of None \<Rightarrow> None | Some x \<Rightarrow> if lo \<le> x \<and> x \<le> hi then Some x else None)"
  using assms
  by (simp add: mi_val_def mlib_math_check_bounds_def Let_def word_sless_alt math_I_sel
      mlib_integer_bounds_def or_eq_0_iff)

lemma check_bounds_clamps:
  assumes "in_i64 lo" "in_i64 hi" "lo \<le> hi"
  shows "sint (mi_i64 (mlib_math_check_bounds (math_I lo) (math_I hi) v)) =
    max lo (min hi (sint (mi_i64 v)))"
  using assms by (auto simp: mlib_math_check_bounds_def Let_def word_sless_alt math_I_sel)

section \<open>The value of a cast\<close>

text \<open>
  \<open>cast_spec lo hi c\<close>: the cast \<open>c\<close> returns the exact value of its operand and leaves the
  \<open>mlib_math_try\<close> scope alone when that value exists and is in \<open>lo .. hi\<close>, and otherwise makes
  the enclosing \<open>mlib_math_catch\<close> run.
\<close>

definition cast_spec ::
  "int \<Rightarrow> int \<Rightarrow> (mlib_math_fail_info \<Rightarrow> mlib_integer \<Rightarrow> mlib_math_fail_info \<times> int) \<Rightarrow> bool" where
  "cast_spec lo hi c \<longleftrightarrow>
     (\<forall>info v x. mi_val v = Some x \<and> lo \<le> x \<and> x \<le> hi \<longrightarrow> c info v = (info, x)) \<and>
     (\<forall>info v. \<not> (\<exists>x. mi_val v = Some x \<and> lo \<le> x \<and> x \<le> hi) \<longrightarrow> mlib_math_catch (fst (c info v)))"

lemma fill_info_sel:
  "fst (mlibMathFillFailureInfo info v) =
     (if mi_flags v \<noteq> 0 then info\<lparr>fi_i64 := mi_i64 v, fi_flags := mi_flags v\<rparr> else info)"
  "snd (mlibMathFillFailureInfo info v) = v"
  by (simp_all add: mlibMathFillFailureInfo_def)

lemma fill_info_value:
  "mi_val w = Some x \<Longrightarrow> mlibMathFillFailureInfo info w = (info, w) \<and> sint (mi_i64 w) = x"
  "mi_val w = None \<Longrightarrow> mlib_math_catch (fst (mlibMathFillFailureInfo info w))"
  by (auto simp: mi_val_def mlibMathFillFailureInfo_def mlib_math_catch_def split: if_splits)

lemma cast_specI:
  assumes val: "\<And>v. mi_val (chk v) =
      (case mi_val v of None \<Rightarrow> None | Some x \<Rightarrow> if lo \<le> x \<and> x \<le> hi then Some x else None)"
    and conv: "\<And>w. lo \<le> sint w \<Longrightarrow> sint w \<le> hi \<Longrightarrow> conv w = sint w"
    and def: "\<And>info v. c info v =
      (case mlibMathFillFailureInfo info (chk v) of (info', w) \<Rightarrow> (info', conv (mi_i64 w)))"
  shows "cast_spec lo hi c"
  unfolding cast_spec_def
proof (intro conjI allI impI)
  fix info v x
  assume "mi_val v = Some x \<and> lo \<le> x \<and> x \<le> hi"
  then show "c info v = (info, x)"
    using fill_info_value(1) [of "chk v" x info] by (auto simp: def val conv)
next
  fix info v
  assume "\<not> (\<exists>x. mi_val v = Some x \<and> lo \<le> x \<and> x \<le> hi)"
  then have "mi_val (chk v) = None" by (auto simp: val split: option.splits)
  then show "mlib_math_catch (fst (c info v))"
    using fill_info_value(2) [of "chk v" info] by (simp add: def case_prod_beta)
qed

lemma ucast_i64_i32:
  "INT32_MIN \<le> sint w \<Longrightarrow> sint w \<le> INT32_MAX \<Longrightarrow> sint (ucast (w :: i64) :: u32) = sint w"
proof -
  assume rng: "INT32_MIN \<le> sint w" "sint w \<le> INT32_MAX"
  have "(ucast w :: u32) = word_of_int (sint w)"
    by (rule bit_word_eqI) (simp add: bit_simps)
  also have "sint (\<dots> :: u32) = sint w"
    using rng by (intro sint_of_in_i32) (simp add: in_i32_def)
  finally show ?thesis .
qed

lemma castInt32_spec: "cast_spec INT32_MIN INT32_MAX castInt32"
  by (rule cast_specI [of checkInt32 _ _ "\<lambda>w. sint (ucast w :: u32)"])
    (simp_all add: checkInt32_def mi_val_check_bounds in_i64_def ucast_i64_i32 castInt32_def)

lemma castInt64_spec: "cast_spec INT64_MIN INT64_MAX castInt64"
  by (rule cast_specI [of "\<lambda>v. v" _ _ sint])
    (auto simp: castInt64_def mi_val_def sint_i64_range)

lemma cast_ok:
  "cast_spec lo hi c \<Longrightarrow> mi_val v = Some x \<Longrightarrow> lo \<le> x \<Longrightarrow> x \<le> hi \<Longrightarrow> c info v = (info, x)"
  by (simp add: cast_spec_def)

lemma cast_fails:
  "cast_spec lo hi c \<Longrightarrow> \<not> (\<exists>x. mi_val v = Some x \<and> lo \<le> x \<and> x \<le> hi) \<Longrightarrow>
   mlib_math_catch (fst (c info v))"
  by (simp add: cast_spec_def)

lemma cast_spec_checked:
  assumes "cast_spec lo hi c"
    and "\<And>v. mi_val (chk v) =
      (case mi_val v of None \<Rightarrow> None | Some x \<Rightarrow> if lo' \<le> x \<and> x \<le> hi' then Some x else None)"
  shows "cast_spec (max lo lo') (min hi hi') (\<lambda>info v. c info (chk v))"
  unfolding cast_spec_def
  by (auto intro!: cast_ok [OF assms(1)] cast_fails [OF assms(1)] simp: assms(2)
      split: option.splits if_splits)

lemma castNonNegativeInt32_spec: "cast_spec 0 INT32_MAX castNonNegativeInt32"
  using cast_spec_checked [OF castInt32_spec, of checkNonNegative 0 INT64_MAX]
  by (simp add: castNonNegativeInt32_def [abs_def] checkNonNegative_def mi_val_check_bounds in_i64_def)

lemma castPositiveInt32_spec: "cast_spec 1 INT32_MAX castPositiveInt32"
  using cast_spec_checked [OF castInt32_spec, of checkPositiveInt32 1 INT32_MAX]
  by (simp add: castPositiveInt32_def [abs_def] checkPositiveInt32_def mi_val_check_bounds in_i64_def)

lemma ucast_i64_u32:
  "0 \<le> sint w \<Longrightarrow> sint w \<le> INT32_MAX \<Longrightarrow> uint (ucast (w :: i64) :: u32) = sint w"
  using ucast_i64_i32 [of w] by (simp add: uint_sint take_bit_int_eq_self)

lemma castUInt32_spec: "cast_spec 0 INT32_MAX castUInt32"
  by (rule cast_specI [of checkNonNegativeInt32 _ _ "\<lambda>w. uint (ucast w :: u32)"])
    (simp_all add: checkNonNegativeInt32_def mi_val_check_bounds in_i64_def ucast_i64_u32
      castUInt32_def)

lemma castPositiveUInt32_spec: "cast_spec 1 INT32_MAX castPositiveUInt32"
  using cast_spec_checked [OF castUInt32_spec, of checkPositive 1 INT64_MAX]
  by (simp add: castPositiveUInt32_def [abs_def] checkPositive_def mi_val_check_bounds in_i64_def)

lemma castUInt64_spec: "cast_spec 0 INT64_MAX castUInt64"
  by (rule cast_specI [of checkNonNegative _ _ uint])
    (simp_all add: checkNonNegative_def mi_val_check_bounds in_i64_def castUInt64_def
      uint_sint take_bit_int_eq_self)

lemma cast_caught_stays:
  assumes "cast_spec lo hi c" "mlib_math_catch info"
  shows "mlib_math_catch (fst (c info v))"
  using assms cast_ok [OF assms(1), of v _ info] cast_fails [OF assms(1), of v info]
  by (metis fst_conv)

lemma not_caught_try [simp]: "\<not> mlib_math_catch mlib_math_try"
  by (simp add: mlib_math_catch_def mlib_math_try_def)

lemma cast_try_iff:
  assumes "cast_spec lo hi c"
  shows "\<not> mlib_math_catch (fst (c mlib_math_try v)) \<longleftrightarrow>
    (\<exists>x. mi_val v = Some x \<and> lo \<le> x \<and> x \<le> hi \<and> snd (c mlib_math_try v) = x)"
proof (cases "\<exists>x. mi_val v = Some x \<and> lo \<le> x \<and> x \<le> hi")
  case True
  then obtain x where "mi_val v = Some x" "lo \<le> x" "x \<le> hi" by blast
  then show ?thesis using cast_ok [OF assms, of v x mlib_math_try] by simp
next
  case False
  then show ?thesis using cast_fails [OF assms False, of mlib_math_try] by blast
qed

lemmas cast_specs = castInt32_spec castInt64_spec castNonNegativeInt32_spec
  castPositiveInt32_spec castUInt32_spec castPositiveUInt32_spec castUInt64_spec

section \<open>Bounded string length\<close>

lemma strnlen_loop_eq:
  "0 \<le> p \<Longrightarrow> p + int n \<le> int (length m) \<or> 0 \<in> set (take n (drop (nat p) m)) \<Longrightarrow>
   strnlen_loop m p n = Inr (int (length (cstr (take n (drop (nat p) m)))))"
proof (induction n arbitrary: p)
  case (Suc n)
  from Suc.prems have p: "nat p < length m"
    by (cases "nat p < length m") auto
  then have split: "drop (nat p) m = m ! nat p # drop (nat (p + 1)) m"
    using Suc.prems(1) Cons_nth_drop_Suc [OF p] by (simp add: nat_add_distrib)
  show ?case
  proof (cases "m ! nat p = 0")
    case False
    with Suc.prems split have "p + 1 + int n \<le> int (length m) \<or>
        0 \<in> set (take n (drop (nat (p + 1)) m))"
      by auto
    with Suc.IH [of "p + 1"] Suc.prems(1) p False split show ?thesis by simp
  qed (use p Suc.prems(1) split in simp)
qed simp

lemma mlib_math_strnlen_eq:
  assumes "mi_val maxlen = Some n" "0 \<le> n" "0 \<le> p"
    and "p + n \<le> int (length m) \<or> 0 \<in> set (take (nat n) (drop (nat p) m))"
  shows "\<exists>v. mlib_math_strnlen m p maxlen = Inr v \<and>
    mi_val v = Some (int (length (cstr (take (nat n) (drop (nat p) m)))))"
proof -
  have sel: "mi_flags maxlen = 0" "sint (mi_i64 maxlen) = n"
    using assms(1) by (simp_all add: mi_val_def split: if_splits)
  have "int (length (cstr (take (nat n) (drop (nat p) m)))) \<le> n"
    using length_cstr_le [of "take (nat n) (drop (nat p) m)"] assms(2) by auto
  moreover have "n \<le> INT64_MAX" using sint_i64_range(2) [of "mi_i64 maxlen"] sel by simp
  ultimately have "in_i64 (int (length (cstr (take (nat n) (drop (nat p) m)))))"
    by (simp add: in_i64_def)
  then show ?thesis
    using assms(2-) sel
    by (simp add: mlib_math_strnlen_def word_sless_alt strnlen_loop_eq mi_val_def sint_of_nat_i64)
qed

section \<open>Properties\<close>

text \<open>
  The overflow predicates for multiplication and addition answer exactly whether the
  mathematical result leaves the range of \<open>int64_t\<close>, for every pair of operands.
\<close>

theorem overflow_predicates_exact:
  "(mlib_i64_mul_would_overflow l r \<longleftrightarrow> \<not> in_i64 (sint l * sint r)) \<and>
   (mlib_i64_add_would_overflow l r \<longleftrightarrow> \<not> in_i64 (sint l + sint r))"
  by (simp add: mul_would_overflow_iff add_would_overflow_iff)

text \<open>
  C19: checked subtraction is exact subtraction, undefined outside the range, except where the
  difference is \<open>2 ^ 63\<close>: there no flag is raised and the value is \<open>INT64_MIN\<close>.
\<close>

theorem checked_sub_characterised:
  "mi_val (mlib_math_sub a b) =
     (if sint (mi_i64 a) - sint (mi_i64 b) = 2 ^ 63
      then (if mi_val a \<noteq> None \<and> mi_val b \<noteq> None then Some INT64_MIN else None)
      else checked (-) (mi_val a) (mi_val b))"
proof (cases "sint (mi_i64 a) - sint (mi_i64 b) = 2 ^ 63")
  case True
  have "mi_i64 (mlib_math_sub a b) = word_of_int (2 ^ 63)"
    using sub_op.wraps [of a b] True by simp
  then have "sint (mi_i64 (mlib_math_sub a b)) = INT64_MIN" by simp
  moreover have "mi_flags (mlib_math_sub a b) = mi_flags a OR mi_flags b"
    using True by (simp add: mlib_math_sub_def sub_would_overflow_iff or.commute)
  ultimately show ?thesis using True by (simp add: mi_val_def or_eq_0_iff)
qed (simp add: sub_op.refines_checked)

text \<open>
  Addition and multiplication of checked integers refine exact arithmetic with an explicit
  undefined value: the result is flagged iff an operand was flagged or the result is out of range.
\<close>

theorem checked_add_mul_refine:
  "mi_val (mlib_math_add a b False) = checked (+) (mi_val a) (mi_val b) \<and>
   mi_val (mlib_math_mul a b False) = checked (*) (mi_val a) (mi_val b)"
  by (simp add: mi_val_add mi_val_mul)

text \<open>
  The saturating forms clamp the mathematical result to the range of \<open>int64_t\<close>.
\<close>

theorem saturating_ops_clamp:
  "sint (mi_i64 (mlib_math_add a b True)) =
     max INT64_MIN (min INT64_MAX (sint (mi_i64 a) + sint (mi_i64 b))) \<and>
   sint (mi_i64 (mlib_math_mul a b True)) =
     max INT64_MIN (min INT64_MAX (sint (mi_i64 a) * sint (mi_i64 b)))"
  using mul_i64_sign_bounds [of "sint (mi_i64 a)" "sint (mi_i64 b)"]
    sint_i64_range [of "mi_i64 a"] sint_i64_range [of "mi_i64 b"]
    sint_i64_add_exact [of "mi_i64 a" "mi_i64 b"] sint_i64_mul_exact [of "mi_i64 a" "mi_i64 b"]
  by (auto simp: mlib_math_add_def mlib_math_mul_def Let_def add_would_overflow_iff
      mul_would_overflow_iff word_sless_alt in_i64_def)

text \<open>
  A narrowing cast inside a \<open>mlib_math_try\<close> scope either returns the exact mathematical value
  of its operand, which then fits the target, or makes the \<open>mlib_math_catch\<close> clause run.
\<close>

theorem narrowing_casts_exact_or_caught:
  "(\<not> mlib_math_catch (fst (castInt32 mlib_math_try v)) \<longleftrightarrow>
      (\<exists>x. mi_val v = Some x \<and> in_i32 x \<and> snd (castInt32 mlib_math_try v) = x)) \<and>
   (\<not> mlib_math_catch (fst (castNonNegativeInt32 mlib_math_try v)) \<longleftrightarrow>
      (\<exists>x. mi_val v = Some x \<and> 0 \<le> x \<and> x \<le> INT32_MAX \<and>
           snd (castNonNegativeInt32 mlib_math_try v) = x)) \<and>
   (\<not> mlib_math_catch (fst (castPositiveInt32 mlib_math_try v)) \<longleftrightarrow>
      (\<exists>x. mi_val v = Some x \<and> 0 < x \<and> x \<le> INT32_MAX \<and>
           snd (castPositiveInt32 mlib_math_try v) = x))"
  using cast_try_iff [OF castInt32_spec, of v] cast_try_iff [OF castNonNegativeInt32_spec, of v]
    cast_try_iff [OF castPositiveInt32_spec, of v]
  by (auto simp: in_i32_def)

text \<open>
  Checked division is total: a zero divisor and the one overflowing quotient are flagged, and
  in every other case the flags are inherited and the quotient truncates towards zero.
\<close>

theorem checked_div_total:
  "mlib_math_div a b =
     (if mi_i64 b = 0 then
        \<lparr>mi_i64 = i64_max, mi_flags = mlib_integer_zerodiv OR (mi_flags b OR mi_flags a)\<rparr>
      else if sint (mi_i64 a) = INT64_MIN \<and> sint (mi_i64 b) = - 1 then
        \<lparr>mi_i64 = 0, mi_flags = mlib_integer_div_overflow OR (mi_flags b OR mi_flags a)\<rparr>
      else \<lparr>mi_i64 = word_of_int (sint (mi_i64 a) sdiv sint (mi_i64 b)),
             mi_flags = mi_flags b OR mi_flags a\<rparr>) \<and>
   (mi_i64 b \<noteq> 0 \<longrightarrow> \<not> (sint (mi_i64 a) = INT64_MIN \<and> sint (mi_i64 b) = - 1) \<longrightarrow>
    sint (mi_i64 (mlib_math_div a b)) = sint (mi_i64 a) sdiv sint (mi_i64 b))"
  using sint_i64_div [of "mi_i64 b" "mi_i64 a"]
  by (auto simp: mlib_math_div_def mlib_math_set_flags_def i64_div_def i64_eq_iff)

theorem checked_div_total_witness:
  "sint (mi_i64 (mlib_math_div (math_I (- 7)) (math_I 2))) = - 3"
  using checked_div_total [of "math_I (- 7)" "math_I 2"]
  by (simp add: math_I_def mlib_math_from_i64_def)

end
