(* ===== verification/Bson_Mem.thy ===== *)
theory Bson_Mem
  imports Mlib_Integer
begin

text \<open>
  The byte-level primitives of \<^verbatim>\<open>include/bson/detail/mem.h\<close>: little-endian encoding and decoding
  of 32- and 64-bit integers, and the \<^verbatim>\<open>memcpy\<close>, \<^verbatim>\<open>memmove\<close> and \<^verbatim>\<open>memset\<close> wrappers.

  Every wrapper has two branches, one for compile-time evaluation and big-endian targets and
  one that calls the C library. Both are definitions here (the second with the suffix
  \<open>_fast\<close> or as \<open>memmove_lib\<close>), and they are shown to agree. Encoders return the new memory
  and the pointer past the written bytes, as the source does.

  The locale \<open>byte_codec\<close> is the contract of a fixed-width codec; it is interpreted on the
  32-bit and the 64-bit codec.
\<close>

section \<open>Little-endian integers\<close>

unbundle bit_operations_syntax

definition u32le :: "u32 \<Rightarrow> bytes" where
  "u32le u =
     [ucast (drop_bit 0 u AND 255), ucast (drop_bit 8 u AND 255),
      ucast (drop_bit 16 u AND 255), ucast (drop_bit 24 u AND 255)]"

text \<open>The object representation of a \<^verbatim>\<open>uint32_t\<close> on a little-endian target.\<close>

definition u32_object :: "u32 \<Rightarrow> bytes" where
  "u32_object u = map (\<lambda>i. word_of_nat (unat u div 256 ^ i)) [0, 1, 2, 3]"

definition bson_write_u32le :: "bytes \<Rightarrow> int \<Rightarrow> u32 \<Rightarrow> (bytes \<times> int) res" where
  "bson_write_u32le m p u = bindR (wr_n m p (u32le u)) (\<lambda>m'. Inr (m', p + 4))"

definition bson_write_u32le_fast :: "bytes \<Rightarrow> int \<Rightarrow> u32 \<Rightarrow> (bytes \<times> int) res" where
  "bson_write_u32le_fast m p u = bindR (wr_n m p (u32_object u)) (\<lambda>m'. Inr (m', p + 4))"

definition bson_write_u64le :: "bytes \<Rightarrow> int \<Rightarrow> u64 \<Rightarrow> (bytes \<times> int) res" where
  "bson_write_u64le m p u =
     bindR (bson_write_u32le m p (ucast u)) (\<lambda>(m', p').
       bson_write_u32le m' p' (ucast (drop_bit 32 u)))"

fun u32_of_bytes :: "bytes \<Rightarrow> u32" where
  "u32_of_bytes [b0, b1, b2, b3] =
     (let u = 0 OR ucast b3; u = push_bit 8 u;
          u = u OR ucast b2; u = push_bit 8 u;
          u = u OR ucast b1; u = push_bit 8 u
      in u OR ucast b0)"
| "u32_of_bytes _ = 0"

definition bson_read_u32le :: "bytes \<Rightarrow> int \<Rightarrow> u32 res" where
  "bson_read_u32le m p = bindR (rd_n m p 4) (\<lambda>bs. Inr (u32_of_bytes bs))"

definition bson_read_u32le_fast :: "bytes \<Rightarrow> int \<Rightarrow> u32 res" where
  "bson_read_u32le_fast m p =
     bindR (rd_n m p 4) (\<lambda>bs. Inr (word_of_nat (\<Sum>i < 4. unat (bs ! i) * 256 ^ i)))"

definition u64_of_words :: "u32 \<Rightarrow> u32 \<Rightarrow> u64" where
  "u64_of_words lo hi = push_bit 32 (ucast hi) OR ucast lo"

definition bson_read_u64le :: "bytes \<Rightarrow> int \<Rightarrow> u64 res" where
  "bson_read_u64le m p =
     bindR (bson_read_u32le m p) (\<lambda>lo.
     bindR (bson_read_u32le m (p + 4)) (\<lambda>hi. Inr (u64_of_words lo hi)))"

section \<open>Copying\<close>

text \<open>\<open>src\<close> is \<open>None\<close> for a null pointer, else the block the source pointer refers to.\<close>

definition bson_memcpy :: "bytes \<Rightarrow> int \<Rightarrow> bytes option \<Rightarrow> nat \<Rightarrow> (bytes \<times> int) res" where
  "bson_memcpy m dst src len =
     (case src of
        Some s \<Rightarrow>
          if len \<noteq> 0 then
            bindR (rd_n s 0 len) (\<lambda>bs. bindR (wr_n m dst bs) (\<lambda>m'. Inr (m', dst + int len)))
          else Inr (m, dst + int len)
      | None \<Rightarrow> Inr (m, dst + int len))"

text \<open>The two loops of \<^verbatim>\<open>_bson_memmove\<close>, counting down and counting up.\<close>

fun memmove_down :: "bytes \<Rightarrow> int \<Rightarrow> int \<Rightarrow> nat \<Rightarrow> bytes res" where
  "memmove_down m dst src 0 = Inr m"
| "memmove_down m dst src (Suc n) =
     bindR (rd m (src + int n)) (\<lambda>b.
     bindR (wr_n m (dst + int n) [b]) (\<lambda>m'. memmove_down m' dst src n))"

fun memmove_up :: "bytes \<Rightarrow> int \<Rightarrow> int \<Rightarrow> nat \<Rightarrow> bytes res" where
  "memmove_up m dst src 0 = Inr m"
| "memmove_up m dst src (Suc n) =
     bindR (rd m src) (\<lambda>b.
     bindR (wr_n m dst [b]) (\<lambda>m'. memmove_up m' (dst + 1) (src + 1) n))"

definition bson_memmove :: "bytes \<Rightarrow> int \<Rightarrow> int \<Rightarrow> nat \<Rightarrow> (bytes \<times> int) res" where
  "bson_memmove m dst src len =
     bindR (if src < dst then memmove_down m dst src len else memmove_up m dst src len)
       (\<lambda>m'. Inr (m', dst + int len))"

text \<open>The library's \<^verbatim>\<open>memmove\<close>: as if through a temporary copy.\<close>

definition memmove_lib :: "bytes \<Rightarrow> int \<Rightarrow> int \<Rightarrow> nat \<Rightarrow> (bytes \<times> int) res" where
  "memmove_lib m dst src len =
     bindR (rd_n m src len) (\<lambda>bs. bindR (wr_n m dst bs) (\<lambda>m'. Inr (m', dst + int len)))"

definition bson_memset :: "bytes \<Rightarrow> int \<Rightarrow> byte \<Rightarrow> nat \<Rightarrow> (bytes \<times> int) res" where
  "bson_memset m dst v len = bindR (wr_n m dst (replicate len v)) (\<lambda>m'. Inr (m', dst + int len))"

section \<open>Document sizes\<close>

text \<open>A document pointer is \<open>None\<close> when it is null.\<close>

definition bson_byte_size :: "bytes \<Rightarrow> int option \<Rightarrow> u32 res" where
  "bson_byte_size m p = (case p of None \<Rightarrow> Inr 0 | Some q \<Rightarrow> bson_read_u32le m q)"

definition bson_byte_ssize :: "bytes \<Rightarrow> int option \<Rightarrow> int res" where
  "bson_byte_ssize m p = bindR (bson_byte_size m p) (\<lambda>u. Inr (to_i32 u))"

section \<open>The codec contract\<close>

locale byte_codec =
  fixes width :: nat
    and enc :: "'w \<Rightarrow> bytes"
    and dec :: "bytes \<Rightarrow> 'w"
    and wr :: "bytes \<Rightarrow> int \<Rightarrow> 'w \<Rightarrow> (bytes \<times> int) res"
    and rdc :: "bytes \<Rightarrow> int \<Rightarrow> 'w res"
  assumes enc_length: "length (enc u) = width"
    and dec_enc: "dec (enc u) = u"
    and enc_dec: "length bs = width \<Longrightarrow> enc (dec bs) = bs"
    and wr_eq: "wr m p u = bindR (wr_n m p (enc u)) (\<lambda>m'. Inr (m', p + int width))"
    and rdc_eq: "rdc m p = bindR (rd_n m p width) (\<lambda>bs. Inr (dec bs))"
begin

lemma read_after_write:
  assumes "0 \<le> p" "p + int width \<le> int (length m)"
  shows "\<exists>m'. wr m p u = Inr (m', p + int width) \<and> length m' = length m \<and> rdc m' p = Inr u"
proof -
  let ?m = "take (nat p) m @ enc u @ drop (nat p + width) m"
  have "wr_n m p (enc u) = Inr ?m"
    using assms wr_n_in [of p "enc u" m] by (simp add: enc_length)
  moreover have "rd_n ?m p width = Inr (enc u)"
    using assms by (intro rd_n_append_at) (simp_all add: enc_length)
  moreover have "length ?m = length m" using assms by (simp add: enc_length)
  ultimately show ?thesis by (simp add: wr_eq rdc_eq dec_enc del: length_append)
qed

lemma write_disjoint:
  assumes "wr m p u = Inr (m', q)" "0 \<le> p" "i < nat p \<or> nat p + width \<le> i" "i < length m"
  shows "m' ! i = m ! i"
  using assms
  by (auto simp: wr_eq res_simps wr_n_def nth_append enc_length split: if_splits)

lemma enc_inj: "enc u = enc v \<longleftrightarrow> u = v"
  using dec_enc by metis

lemma rdc_at: "p = int (length pre) \<Longrightarrow> rdc (pre @ enc u @ post) p = Inr u"
  by (simp add: rdc_eq rd_n_append_at enc_length dec_enc)

lemma wr_at:
  "p = int (length pre) \<Longrightarrow> length old = width \<Longrightarrow>
   wr (pre @ old @ post) p u = Inr (pre @ enc u @ post, p + int width)"
  by (simp add: wr_eq wr_n_append_at enc_length)

end

section \<open>The codecs satisfy the contract\<close>

lemma length_u32le [simp]: "length (u32le u) = 4"
  by (simp add: u32le_def)

lemma u32le_not_Nil [simp]: "u32le u \<noteq> []"
  by (simp add: u32le_def)

lemma ucast_and_255: "(ucast (x AND 255) :: byte) = ucast x" for x :: u32
proof -
  have "x AND 255 = take_bit 8 x"
    by (simp add: take_bit_eq_mask mask_eq_exp_minus_1)
  then show ?thesis by (auto intro!: bit_word_eqI simp: bit_simps)
qed

lemma u32le_eq:
  "u32le u = [ucast u, ucast (drop_bit 8 u), ucast (drop_bit 16 u), ucast (drop_bit 24 u)]"
  by (simp add: u32le_def ucast_and_255)

lemma u32_of_bytes_u32le [simp]: "u32_of_bytes (u32le u) = u"
proof (rule bit_word_eqI)
  fix n assume "n < LENGTH(32)"
  then consider "n < 8" | "8 \<le> n" "n < 16" | "16 \<le> n" "n < 24" | "24 \<le> n" "n < 32"
    by fastforce
  then show "bit (u32_of_bytes (u32le u)) n = bit u n"
    by cases (auto simp: u32le_eq bit_simps less_diff_conv2)
qed

lemma length_4_conv: "length bs = 4 \<longleftrightarrow> (\<exists>a b c d. bs = [a, b, c, d])"
  by (auto simp: numeral_eq_Suc length_Suc_conv)

lemma u32le_u32_of_bytes: "length bs = 4 \<Longrightarrow> u32le (u32_of_bytes bs) = bs"
  by (auto simp: length_4_conv u32le_eq intro!: bit_word_eqI)
     (auto simp: bit_simps dest: bit_imp_le_length)

interpretation u32_codec: byte_codec 4 u32le u32_of_bytes bson_write_u32le bson_read_u32le
  by unfold_locales
    (simp_all add: u32le_u32_of_bytes bson_write_u32le_def bson_read_u32le_def)


lemma wr_n_wr_n:
  assumes "a \<noteq> []" "b \<noteq> []"
  shows "bindR (wr_n m p a) (\<lambda>m'. wr_n m' (p + int (length a)) b) = wr_n m p (a @ b)"
proof (cases "0 \<le> p \<and> p + int (length a) \<le> int (length m)")
  case True
  define pre where "pre = take (nat p) m"
  define post where "post = drop (nat p + length a) m"
  have len: "length pre = nat p" "length pre + length a + length post = length m"
    using True by (auto simp: pre_def post_def)
  have "wr_n m p a = Inr (pre @ a @ post)"
    using True assms by (simp add: wr_n_def pre_def post_def)
  then show ?thesis
    using True assms len
    by (auto simp: wr_n_def pre_def post_def nat_add_distrib add.commute add.left_commute)
qed (use assms in \<open>auto simp: wr_n_def\<close>)

lemma rd_n_rd_n:
  assumes "0 < k" "0 < n"
  shows "bindR (rd_n m p k) (\<lambda>a. bindR (rd_n m (p + int k) n) (\<lambda>b. Inr (f (a @ b)))) =
    bindR (rd_n m p (k + n)) (\<lambda>bs. Inr (f bs))"
  using assms by (auto simp: rd_n_def take_add add.commute nat_add_distrib)

definition u64le :: "u64 \<Rightarrow> bytes" where
  "u64le u = u32le (ucast u) @ u32le (ucast (drop_bit 32 u))"

definition u64_of_bytes :: "bytes \<Rightarrow> u64" where
  "u64_of_bytes bs = u64_of_words (u32_of_bytes (take 4 bs)) (u32_of_bytes (drop 4 bs))"

lemma length_u64le [simp]: "length (u64le u) = 8"
  by (simp add: u64le_def)

lemma u64_of_words_split: "u64_of_words (ucast u) (ucast (drop_bit 32 u)) = u"
proof (rule bit_word_eqI)
  fix n assume "n < LENGTH(64)"
  then consider "n < 32" | "32 \<le> n" "n < 64" by fastforce
  then show "bit (u64_of_words (ucast u) (ucast (drop_bit 32 u))) n = bit u n"
    by cases (auto simp: u64_of_words_def bit_simps less_diff_conv2)
qed

lemma u64_of_words_join:
  "ucast (u64_of_words lo hi) = lo" "ucast (drop_bit 32 (u64_of_words lo hi)) = hi"
  by (auto simp: u64_of_words_def bit_simps intro!: bit_word_eqI)
     (auto dest: bit_imp_le_length)

interpretation u64_codec: byte_codec 8 u64le u64_of_bytes bson_write_u64le bson_read_u64le
proof unfold_locales
  show "u64_of_bytes (u64le u) = u" for u
    by (simp add: u64_of_bytes_def u64le_def u64_of_words_split)
  show "u64le (u64_of_bytes bs) = bs" if "length bs = 8" for bs
    using that by (simp add: u64_of_bytes_def u64le_def u64_of_words_join u32le_u32_of_bytes)
  show "bson_write_u64le m p u = bindR (wr_n m p (u64le u)) (\<lambda>m'. Inr (m', p + int 8))" for m p u
    unfolding u64le_def
    by (subst wr_n_wr_n [symmetric])
      (simp_all add: bson_write_u64le_def bson_write_u32le_def bindR_assoc add.assoc)
  show "bson_read_u64le m p = bindR (rd_n m p 8) (\<lambda>bs. Inr (u64_of_bytes bs))" for m p
  proof -
    have "bson_read_u64le m p =
        bindR (rd_n m p 4) (\<lambda>a. bindR (rd_n m (p + int 4) 4) (\<lambda>b. Inr (u64_of_bytes (a @ b))))"
      unfolding bson_read_u64le_def bson_read_u32le_def bindR_assoc bindR_simps
      by (intro bindR_cong refl) (simp_all add: u64_of_bytes_def rd_n_length)
    then show ?thesis using rd_n_rd_n [of 4 4 m p u64_of_bytes] by simp
  qed
qed simp

section \<open>The two branches agree\<close>

lemma u32_object_eq: "u32_object u = u32le u"
proof -
  have "(word_of_nat (unat u div 256 ^ i) :: byte) = ucast (drop_bit (8 * i) u)" for i
  proof -
    have "(256 :: nat) ^ i = 2 ^ (8 * i)" by (simp add: power_mult)
    then have "unat u div 256 ^ i = unat (drop_bit (8 * i) u)"
      by (simp add: unat_drop_bit_eq drop_bit_eq_div [where 'a = nat])
    then show ?thesis by simp
  qed
  from this [of 0] this [of 1] this [of 2] this [of 3] show ?thesis
    by (simp add: u32_object_def u32le_eq)
qed

lemma write_fast_eq: "bson_write_u32le_fast m p u = bson_write_u32le m p u"
  by (simp add: bson_write_u32le_fast_def bson_write_u32le_def u32_object_eq)

lemma u32_of_bytes_value:
  assumes "length bs = 4"
  shows "word_of_nat (\<Sum>i < 4. unat (bs ! i) * 256 ^ i) = u32_of_bytes bs"
proof -
  obtain u where bs: "bs = u32le u" using u32le_u32_of_bytes [OF assms] by metis
  let ?x = "unat u"
  have "?x < 2 ^ LENGTH(32)" by (rule unsigned_less)
  then have "?x div 16777216 < 256" by simp
  moreover have "?x = ?x mod 256 + (?x div 256 mod 256 +
      (?x div 256 div 256 mod 256 + (?x div 256 div 256 div 256) * 256) * 256) * 256"
    by simp
  ultimately have "(\<Sum>i < 4. unat (bs ! i) * 256 ^ i) = ?x"
    by (simp add: bs u32_object_eq [symmetric] u32_object_def numeral_eq_Suc [of num.One]
        unat_of_nat div_mult2_eq [symmetric] algebra_simps lessThan_nat_numeral unsigned_ucast_eq take_bit_eq_mod)
  then show ?thesis by (simp add: bs)
qed

section \<open>Moving bytes\<close>

lemma wr_n_one: "i < length m \<Longrightarrow> wr_n m (int i) [b] = Inr (m[i := b])"
  by (simp add: wr_n_def upd_conv_take_nth_drop)

definition moved :: "bytes \<Rightarrow> nat \<Rightarrow> nat \<Rightarrow> nat \<Rightarrow> bytes" where
  "moved m dst src n = take dst m @ take n (drop src m) @ drop (dst + n) m"

lemma memmove_down_eq:
  "src \<le> dst \<Longrightarrow> dst + n \<le> length m \<Longrightarrow>
   memmove_down m (int dst) (int src) n = Inr (moved m dst src n)"
proof (induction n arbitrary: m)
  case (Suc n)
  let ?m = "m[dst + n := m ! (src + n)]"
  have step: "memmove_down m (int dst) (int src) (Suc n) = memmove_down ?m (int dst) (int src) n"
    using Suc.prems wr_n_one [of "dst + n" m "m ! (src + n)"] by (simp add: nat_add_distrib)
  have "moved ?m dst src n = moved m dst src (Suc n)"
    using Suc.prems
    by (intro nth_equalityI) (auto simp: moved_def nth_append nth_list_update less_Suc_eq)
  then show ?case using Suc.IH [of ?m] Suc.prems step by simp
qed (simp add: moved_def)

lemma memmove_up_eq:
  "dst \<le> src \<Longrightarrow> src + n \<le> length m \<Longrightarrow>
   memmove_up m (int dst) (int src) n = Inr (moved m dst src n)"
proof (induction n arbitrary: m dst src)
  case (Suc n)
  let ?m = "m[dst := m ! src]"
  have step: "memmove_up m (int dst) (int src) (Suc n) =
      memmove_up ?m (int (Suc dst)) (int (Suc src)) n"
    using Suc.prems wr_n_one [of dst m "m ! src"] by (simp add: add.commute)
  have "moved ?m (Suc dst) (Suc src) n = moved m dst src (Suc n)"
    using Suc.prems
    by (intro nth_equalityI) (auto simp: moved_def nth_append nth_list_update less_Suc_eq nth_Cons' Suc_diff_Suc)
  then show ?case using Suc.IH [of "Suc dst" "Suc src" ?m] Suc.prems step by simp
qed (simp add: moved_def)

lemma bson_memmove_eq:
  assumes "0 \<le> dst" "0 \<le> src" "dst + int len \<le> int (length m)" "src + int len \<le> int (length m)"
  shows "bson_memmove m dst src len = Inr (moved m (nat dst) (nat src) len, dst + int len)"
  using assms memmove_down_eq [of "nat src" "nat dst" len m]
    memmove_up_eq [of "nat dst" "nat src" len m]
  by (auto simp: bson_memmove_def)

lemma memmove_lib_eq:
  assumes "0 \<le> dst" "0 \<le> src" "dst + int len \<le> int (length m)" "src + int len \<le> int (length m)"
  shows "memmove_lib m dst src len = Inr (moved m (nat dst) (nat src) len, dst + int len)"
  using assms by (simp add: memmove_lib_def rd_n_in wr_n_in moved_def)

section \<open>Properties\<close>

text \<open>
  A 32- or 64-bit integer written at a place inside the block is read back unchanged, and
  the write returns the pointer past it and touches no other byte.
\<close>

theorem le_codec_roundtrip:
  assumes "0 \<le> p" "p + 8 \<le> int (length m)"
  shows "\<exists>m' m''. bson_write_u32le m p u = Inr (m', p + 4) \<and> bson_read_u32le m' p = Inr u \<and>
      bson_write_u64le m p w = Inr (m'', p + 8) \<and> bson_read_u64le m'' p = Inr w \<and>
      (\<forall>i. i < length m \<and> (i < nat p \<or> nat p + 8 \<le> i) \<longrightarrow> m' ! i = m ! i \<and> m'' ! i = m ! i)"
proof -
  from assms obtain m' where m': "bson_write_u32le m p u = Inr (m', p + 4)"
      "bson_read_u32le m' p = Inr u"
    using u32_codec.read_after_write [of p m u] by auto
  from assms obtain m'' where m'': "bson_write_u64le m p w = Inr (m'', p + 8)"
      "bson_read_u64le m'' p = Inr w"
    using u64_codec.read_after_write [of p m w] by auto
  have "m' ! i = m ! i \<and> m'' ! i = m ! i"
    if "i < length m" "i < nat p \<or> nat p + 8 \<le> i" for i
    using that assms(1) u32_codec.write_disjoint [OF m'(1)] u64_codec.write_disjoint [OF m''(1)]
    by auto
  with m' m'' show ?thesis by blast
qed

theorem le_codec_roundtrip_witness:
  "\<exists>m' m''. bson_write_u32le [9, 9, 9, 9, 9, 9, 9, 9, 7] 0 305419896 = Inr (m', 4) \<and>
      bson_read_u32le m' 0 = Inr 305419896 \<and>
      bson_write_u64le [9, 9, 9, 9, 9, 9, 9, 9, 7] 0 81985529216486895 = Inr (m'', 8) \<and>
      bson_read_u64le m'' 0 = Inr 81985529216486895 \<and> m' ! 8 = 7 \<and> m'' ! 8 = 7"
proof -
  let ?m = "[9, 9, 9, 9, 9, 9, 9, 9, 7] :: bytes"
  obtain m' m'' where h: "bson_write_u32le ?m 0 305419896 = Inr (m', 0 + 4)"
      "bson_read_u32le m' 0 = Inr 305419896"
      "bson_write_u64le ?m 0 81985529216486895 = Inr (m'', 0 + 8)"
      "bson_read_u64le m'' 0 = Inr 81985529216486895"
      "\<forall>i. i < length ?m \<and> (i < nat 0 \<or> nat 0 + 8 \<le> i) \<longrightarrow> m' ! i = ?m ! i \<and> m'' ! i = ?m ! i"
    using le_codec_roundtrip [of 0 ?m 305419896 81985529216486895] by auto
  from h(5) [rule_format, of 8] have "m' ! 8 = 7 \<and> m'' ! 8 = 7" by simp
  with h show ?thesis by simp
qed

text \<open>
  The branch for compile-time evaluation and big-endian targets and the \<open>memcpy\<close> branch for
  little-endian targets write and read the same bytes, and fail on the same accesses.
\<close>

theorem le_branches_agree:
  "bson_write_u32le_fast m p u = bson_write_u32le m p u \<and>
   bson_read_u32le_fast m p = bson_read_u32le m p"
proof -
  have "bson_read_u32le_fast m p = bson_read_u32le m p"
    unfolding bson_read_u32le_fast_def bson_read_u32le_def
    by (intro bindR_cong refl) (simp only: u32_of_bytes_value rd_n_length)
  then show ?thesis by (simp add: write_fast_eq)
qed

text \<open>
  The byte loops of \<open>_bson_memmove\<close> are \<open>memmove\<close>: for any two regions inside the block,
  overlapping or not, the destination receives the source's bytes as they were before the call
  and every other byte is kept.
\<close>

theorem memmove_loops_correct:
  assumes "0 \<le> dst" "0 \<le> src" "dst + int len \<le> int (length m)" "src + int len \<le> int (length m)"
  shows "bson_memmove m dst src len = memmove_lib m dst src len \<and>
    bson_memmove m dst src len =
      Inr (take (nat dst) m @ take len (drop (nat src) m) @ drop (nat dst + len) m, dst + int len)"
  using assms by (simp add: bson_memmove_eq memmove_lib_eq moved_def)

theorem memmove_loops_correct_witness:
  "bson_memmove [1, 2, 3, 4, 5, 6] 2 0 4 = Inr ([1, 2, 1, 2, 3, 4], 6) \<and>
   bson_memmove [1, 2, 3, 4, 5, 6] 0 2 4 = Inr ([3, 4, 5, 6, 5, 6], 4)"
  using memmove_loops_correct [of 2 0 4 "[1, 2, 3, 4, 5, 6]"]
    memmove_loops_correct [of 0 2 4 "[1, 2, 3, 4, 5, 6]"]
  by auto

end
