(* ===== verification/Bson_Types.thy ===== *)
theory Bson_Types
  imports Bson_Mem
begin

text \<open>
  The element types and dynamic values of \<^verbatim>\<open>include/bson/types.h\<close> and
  \<^verbatim>\<open>include/bson/value_ref.h\<close>.

  The type tag of an element is whatever octet the document holds (the source casts it to
  \<^verbatim>\<open>bson_type\<close> unchecked), so it stays a byte here and the enumerators are constants.
  A \<^verbatim>\<open>bson_value_ref\<close> is a tagged union; each constructor of the datatype is one tag with the
  union member that goes with it. A string view is the bytes it refers to, \<open>None\<close> for a null
  pointer; a document or array view likewise. A \<^verbatim>\<open>double\<close> is its 64-bit pattern.
\<close>

section \<open>Type tags\<close>

definition bson_type_eod :: byte where "bson_type_eod = 0"
definition bson_type_double :: byte where "bson_type_double = 1"
definition bson_type_utf8 :: byte where "bson_type_utf8 = 2"
definition bson_type_document :: byte where "bson_type_document = 3"
definition bson_type_array :: byte where "bson_type_array = 4"
definition bson_type_binary :: byte where "bson_type_binary = 5"
definition bson_type_undefined :: byte where "bson_type_undefined = 6"
definition bson_type_oid :: byte where "bson_type_oid = 7"
definition bson_type_bool :: byte where "bson_type_bool = 8"
definition bson_type_datetime :: byte where "bson_type_datetime = 9"
definition bson_type_null :: byte where "bson_type_null = 10"
definition bson_type_regex :: byte where "bson_type_regex = 11"
definition bson_type_dbpointer :: byte where "bson_type_dbpointer = 12"
definition bson_type_code :: byte where "bson_type_code = 13"
definition bson_type_symbol :: byte where "bson_type_symbol = 14"
definition bson_type_codewscope :: byte where "bson_type_codewscope = 15"
definition bson_type_int32 :: byte where "bson_type_int32 = 16"
definition bson_type_timestamp :: byte where "bson_type_timestamp = 17"
definition bson_type_int64 :: byte where "bson_type_int64 = 18"
definition bson_type_decimal128 :: byte where "bson_type_decimal128 = 19"
definition bson_type_maxkey :: byte where "bson_type_maxkey = 127"
definition bson_type_minkey :: byte where "bson_type_minkey = 255"

lemmas bson_type_defs =
  bson_type_eod_def bson_type_double_def bson_type_utf8_def bson_type_document_def
  bson_type_array_def bson_type_binary_def bson_type_undefined_def bson_type_oid_def
  bson_type_bool_def bson_type_datetime_def bson_type_null_def bson_type_regex_def
  bson_type_dbpointer_def bson_type_code_def bson_type_symbol_def bson_type_codewscope_def
  bson_type_int32_def bson_type_timestamp_def bson_type_int64_def bson_type_decimal128_def
  bson_type_maxkey_def bson_type_minkey_def

section \<open>Error conditions\<close>

datatype bson_view_errc =
    bson_view_errc_okay
  | bson_view_errc_short_read
  | bson_view_errc_invalid_header
  | bson_view_errc_invalid_terminator

datatype bson_iter_errc =
    bson_iter_errc_okay
  | bson_iter_errc_short_read
  | bson_iter_errc_invalid_type
  | bson_iter_errc_invalid_length
  | bson_iter_errc_invalid_document

text \<open>The numeric values of the enumerators, which the iterator stores negated.\<close>

primrec iter_errc_code :: "bson_iter_errc \<Rightarrow> int" where
  "iter_errc_code bson_iter_errc_okay = 0"
| "iter_errc_code bson_iter_errc_short_read = 1"
| "iter_errc_code bson_iter_errc_invalid_type = 2"
| "iter_errc_code bson_iter_errc_invalid_length = 3"
| "iter_errc_code bson_iter_errc_invalid_document = 4"

text \<open>\<^verbatim>\<open>(enum bson_iter_errc) n\<close>: \<open>None\<close> for a number that is no enumerator.\<close>

definition iter_errc_of :: "int \<Rightarrow> bson_iter_errc option" where
  "iter_errc_of n =
     (if n = 0 then Some bson_iter_errc_okay
      else if n = 1 then Some bson_iter_errc_short_read
      else if n = 2 then Some bson_iter_errc_invalid_type
      else if n = 3 then Some bson_iter_errc_invalid_length
      else if n = 4 then Some bson_iter_errc_invalid_document
      else None)"

lemma iter_errc_of_code [simp]: "iter_errc_of (iter_errc_code e) = Some e"
  by (cases e) (simp_all add: iter_errc_of_def)

section \<open>Dynamic values\<close>

type_synonym str_view = "bytes option"
type_synonym doc_view = "bytes option"

datatype bson_value_ref =
    V_eod
  | V_double u64
  | V_utf8 str_view
  | V_document doc_view
  | V_array doc_view
  | V_binary byte bytes
  | V_undefined
  | V_oid bytes
  | V_bool bool
  | V_datetime i64
  | V_null
  | V_regex str_view str_view
  | V_dbpointer str_view bytes
  | V_code str_view
  | V_symbol str_view
  | V_codewscope
  | V_int32 u32
  | V_timestamp u32 u32
  | V_int64 i64
  | V_decimal128 bytes
  | V_maxkey
  | V_minkey

primrec value_type :: "bson_value_ref \<Rightarrow> byte" where
  "value_type V_eod = bson_type_eod"
| "value_type (V_double d) = bson_type_double"
| "value_type (V_utf8 s) = bson_type_utf8"
| "value_type (V_document d) = bson_type_document"
| "value_type (V_array d) = bson_type_array"
| "value_type (V_binary t bs) = bson_type_binary"
| "value_type V_undefined = bson_type_undefined"
| "value_type (V_oid bs) = bson_type_oid"
| "value_type (V_bool b) = bson_type_bool"
| "value_type (V_datetime t) = bson_type_datetime"
| "value_type V_null = bson_type_null"
| "value_type (V_regex r opts) = bson_type_regex"
| "value_type (V_dbpointer c oid) = bson_type_dbpointer"
| "value_type (V_code s) = bson_type_code"
| "value_type (V_symbol s) = bson_type_symbol"
| "value_type V_codewscope = bson_type_codewscope"
| "value_type (V_int32 n) = bson_type_int32"
| "value_type (V_timestamp i t) = bson_type_timestamp"
| "value_type (V_int64 n) = bson_type_int64"
| "value_type (V_decimal128 bs) = bson_type_decimal128"
| "value_type V_maxkey = bson_type_maxkey"
| "value_type V_minkey = bson_type_minkey"

text \<open>The number of bytes a string view refers to.\<close>

definition sv_len :: "str_view \<Rightarrow> nat" where
  "sv_len s = (case s of None \<Rightarrow> 0 | Some bs \<Rightarrow> length bs)"

text \<open>\<^verbatim>\<open>mlib_str_view_chopnulls\<close>: the longest prefix without an embedded null.\<close>

definition mlib_str_view_chopnulls :: "str_view \<Rightarrow> str_view" where
  "mlib_str_view_chopnulls s = map_option cstr s"

section \<open>Conversions\<close>

text \<open>
  \<^verbatim>\<open>fpclassify(d) != FP_ZERO\<close> on the bit pattern: some bit besides the sign is set.
\<close>

definition double_nonzero :: "u64 \<Rightarrow> bool" where
  "double_nonzero d \<longleftrightarrow> take_bit 63 d \<noteq> 0"

text \<open>
  \<^verbatim>\<open>(int64_t)d\<close> on the bit pattern of an IEEE 754 binary64 value: truncation towards zero,
  \<open>None\<close> where the C conversion is undefined (not finite, or outside the range).
\<close>

definition double_to_i64 :: "u64 \<Rightarrow> int option" where
  "double_to_i64 d =
     (let e = uint (take_bit 11 (drop_bit 52 d));
          f = uint (take_bit 52 d);
          m = (if e = 0 then f else 2 ^ 52 + f);
          ex = (if e = 0 then 1 else e) - 1075;
          a = (if 0 \<le> ex then m * 2 ^ nat ex else m div 2 ^ nat (- ex));
          v = (if bit d 63 then - a else a)
      in if e = 2047 \<or> \<not> in_i64 v then None else Some v)"

primrec bson_value_as_bool :: "bson_value_ref \<Rightarrow> bool res" where
  "bson_value_as_bool V_eod = Inr False"
| "bson_value_as_bool (V_double d) = Inr (double_nonzero d)"
| "bson_value_as_bool (V_utf8 s) = Inr (sv_len s \<noteq> 0)"
| "bson_value_as_bool (V_document v) =
     (case v of None \<Rightarrow> Inl Out_of_bounds
      | Some bs \<Rightarrow> bindR (bson_read_u32le bs 0) (\<lambda>n. Inr (5 < n)))"
| "bson_value_as_bool (V_array v) =
     (case v of None \<Rightarrow> Inl Out_of_bounds
      | Some bs \<Rightarrow> bindR (bson_read_u32le bs 0) (\<lambda>n. Inr (5 < n)))"
| "bson_value_as_bool (V_binary t bs) = Inr (length bs \<noteq> 0)"
| "bson_value_as_bool V_undefined = Inr False"
| "bson_value_as_bool (V_oid bs) = Inr True"
| "bson_value_as_bool (V_bool b) = Inr b"
| "bson_value_as_bool (V_datetime t) = Inr True"
| "bson_value_as_bool V_null = Inr False"
| "bson_value_as_bool (V_regex r opts) = Inr True"
| "bson_value_as_bool (V_dbpointer c oid) = Inr True"
| "bson_value_as_bool (V_code s) = Inr True"
| "bson_value_as_bool (V_symbol s) = Inr True"
| "bson_value_as_bool V_codewscope = Inr True"
| "bson_value_as_bool (V_int32 n) = Inr (n \<noteq> 0)"
| "bson_value_as_bool (V_timestamp i t) = Inr True"
| "bson_value_as_bool (V_int64 n) = Inr (n \<noteq> 0)"
| "bson_value_as_bool (V_decimal128 bs) = Inr True"
| "bson_value_as_bool V_maxkey = Inr False"
| "bson_value_as_bool V_minkey = Inr False"

text \<open>
  The pair is the returned value and what is stored through \<open>okay\<close>; \<open>None\<close> where the
  conversion of a \<^verbatim>\<open>double\<close> is undefined.
\<close>

definition bson_value_as_int64 :: "bson_value_ref \<Rightarrow> (int \<times> bool) option" where
  "bson_value_as_int64 v =
     (case v of
        V_double d \<Rightarrow> map_option (\<lambda>n. (n, True)) (double_to_i64 d)
      | V_bool b \<Rightarrow> Some (if b then 1 else 0, True)
      | V_int32 n \<Rightarrow> Some (sint n, True)
      | V_int64 n \<Rightarrow> Some (sint n, True)
      | _ \<Rightarrow> Some (0, False))"

definition bson_value_as_int32 :: "bson_value_ref \<Rightarrow> (int \<times> bool) option" where
  "bson_value_as_int32 v =
     map_option (\<lambda>(n, okay). (sint (word_of_int n :: u32), okay)) (bson_value_as_int64 v)"

definition get_document_or_array :: "bson_value_ref \<Rightarrow> doc_view \<Rightarrow> doc_view" where
  "get_document_or_array v dflt =
     (case v of V_document d \<Rightarrow> d | V_array d \<Rightarrow> d | _ \<Rightarrow> dflt)"

section \<open>Equality\<close>

text \<open>\<^verbatim>\<open>mlib_str_view::operator==\<close> and the byte-wise comparison of views and binaries.\<close>

definition str_view_eq :: "str_view \<Rightarrow> str_view \<Rightarrow> bool" where
  "str_view_eq a b =
     (case (a, b) of (Some x, Some y) \<Rightarrow> x = y | (None, None) \<Rightarrow> True | _ \<Rightarrow> False)"

definition view_bytes :: "doc_view \<Rightarrow> bytes" where
  "view_bytes v = (case v of None \<Rightarrow> [] | Some bs \<Rightarrow> bs)"

text \<open>
  \<^verbatim>\<open>double\<close> equality, of which only reflexivity on non-NaN values is used; \<open>double_eq\<close> is
  equality of IEEE values: not-a-number differs from itself, the two zeros are equal.
\<close>

definition double_is_nan :: "u64 \<Rightarrow> bool" where
  "double_is_nan d \<longleftrightarrow> take_bit 11 (drop_bit 52 d) = 2047 \<and> take_bit 52 d \<noteq> 0"

definition double_eq :: "u64 \<Rightarrow> u64 \<Rightarrow> bool" where
  "double_eq a b \<longleftrightarrow>
     \<not> double_is_nan a \<and> \<not> double_is_nan b \<and>
     (a = b \<or> \<not> double_nonzero a \<and> \<not> double_nonzero b)"

text \<open>
  \<^verbatim>\<open>bson_value_ref::operator==\<close>: visit both sides and compare when the C++ types agree.
  Visiting a code-with-scope value aborts.
\<close>

definition bson_value_eq :: "bson_value_ref \<Rightarrow> bson_value_ref \<Rightarrow> bool res" where
  "bson_value_eq a b =
     (if a = V_codewscope \<or> b = V_codewscope then Inl Abort_called
      else Inr
        (case a of
           V_double x \<Rightarrow> (case b of V_double y \<Rightarrow> double_eq x y | _ \<Rightarrow> False)
         | V_utf8 x \<Rightarrow> (case b of V_utf8 y \<Rightarrow> str_view_eq x y | _ \<Rightarrow> False)
         | V_document x \<Rightarrow> (case b of V_document y \<Rightarrow> view_bytes x = view_bytes y | _ \<Rightarrow> False)
         | V_array x \<Rightarrow> (case b of V_array y \<Rightarrow> view_bytes x = view_bytes y | _ \<Rightarrow> False)
         | V_regex r opt \<Rightarrow>
             (case b of V_regex r' opt' \<Rightarrow> str_view_eq r r' \<and> str_view_eq opt opt' | _ \<Rightarrow> False)
         | V_dbpointer c oid \<Rightarrow>
             (case b of V_dbpointer c' oid' \<Rightarrow> str_view_eq c c' \<and> oid = oid' | _ \<Rightarrow> False)
         | V_code x \<Rightarrow> (case b of V_code y \<Rightarrow> str_view_eq x y | _ \<Rightarrow> False)
         | V_symbol x \<Rightarrow> (case b of V_symbol y \<Rightarrow> str_view_eq x y | _ \<Rightarrow> False)
         | _ \<Rightarrow> a = b))"

section \<open>Lemmas\<close>

lemma str_view_eq_iff [simp]: "str_view_eq a b \<longleftrightarrow> a = b"
  by (auto simp: str_view_eq_def split: option.splits)

lemma sv_len_simps [simp]: "sv_len None = 0" "sv_len (Some bs) = length bs"
  by (simp_all add: sv_len_def)

lemma chopnulls_simps [simp]:
  "mlib_str_view_chopnulls None = None"
  "mlib_str_view_chopnulls (Some bs) = Some (cstr bs)"
  by (simp_all add: mlib_str_view_chopnulls_def)

lemma value_type_distinct:
  "value_type v = value_type w \<Longrightarrow> (v = V_eod \<longleftrightarrow> w = V_eod) \<and> (v = V_null \<longleftrightarrow> w = V_null)"
  by (cases v; cases w; simp add: bson_type_defs)

end
