(* ===== verification/Bson_View.thy ===== *)
theory Bson_View
  imports Bson_Types
begin

text \<open>
  Document views (\<^verbatim>\<open>include/bson/view.h\<close>): the validation of untrusted data as a document. A view
  is a nullable pointer into the block \<open>m\<close>. The predicate \<open>doc_at\<close> is what a non-null view
  promises, and the header \<open>doc_len\<close> is the size it declares.
\<close>

section \<open>Views\<close>

text \<open>\<^verbatim>\<open>bson_view_from_data\<close>: the view and what is stored through \<open>error\<close>.\<close>

definition bson_view_from_data ::
  "bytes \<Rightarrow> int \<Rightarrow> int \<Rightarrow> (int option \<times> bson_view_errc) res" where
  "bson_view_from_data m data data_len =
     (if data_len < 5 then Inr (None, bson_view_errc_short_read)
      else
        bindR (bson_read_u32le m data) (\<lambda>u.
          let len = to_i32 u in
          if len < 5 then Inr (None, bson_view_errc_invalid_header)
          else if uint (word_of_int len :: u32) > data_len
          then Inr (None, bson_view_errc_short_read)
          else bindR (rd m (data + len - 1)) (\<lambda>b.
            if b \<noteq> 0 then Inr (None, bson_view_errc_invalid_terminator)
            else Inr (Some data, bson_view_errc_okay))))"

definition bson_view_from_ptr :: "bytes \<Rightarrow> int option \<Rightarrow> int option res" where
  "bson_view_from_ptr m p =
     (case p of None \<Rightarrow> Inr None
      | Some q \<Rightarrow>
          bindR (bson_read_u32le m q) (\<lambda>u.
            let len = to_i32 u in
            bv_assert (0 \<le> len)
              (bindR (bson_view_from_data m q (uint (word_of_int len :: u32)))
                (\<lambda>(v, err). Inr v))))"

text \<open>\<^verbatim>\<open>bson_view::empty\<close>.\<close>

definition bson_view_empty :: "bytes \<Rightarrow> int option \<Rightarrow> bool res" where
  "bson_view_empty m v =
     (case v of None \<Rightarrow> Inr True
      | Some p \<Rightarrow> bindR (bson_byte_size m (Some p)) (\<lambda>n. Inr (n = 5)))"

text \<open>\<^verbatim>\<open>bson_view::from_data\<close>: the throwing form; \<open>Inl\<close> is the exception's reason.\<close>

definition bson_view_from_data_throwing ::
  "bytes \<Rightarrow> int \<Rightarrow> int \<Rightarrow> (bson_view_errc + int option) res" where
  "bson_view_from_data_throwing m data data_len =
     bindR (bson_view_from_data m data data_len) (\<lambda>(v, err).
       Inr (if err = bson_view_errc_okay then Inr v else Inl err))"

text \<open>\<^verbatim>\<open>bson_view::bytes\<close> and the comparison of two views.\<close>

definition bson_view_bytes :: "bytes \<Rightarrow> int option \<Rightarrow> bytes res" where
  "bson_view_bytes m v =
     bindR (bson_byte_size m v) (\<lambda>n.
       case v of None \<Rightarrow> Inr [] | Some p \<Rightarrow> rd_n m p (unat n))"

definition bson_view_eq :: "bytes \<Rightarrow> int option \<Rightarrow> bytes \<Rightarrow> int option \<Rightarrow> bool res" where
  "bson_view_eq m v m' v' =
     bindR (bson_view_bytes m v) (\<lambda>a. bindR (bson_view_bytes m' v') (\<lambda>b. Inr (a = b)))"

section \<open>What a view promises\<close>

definition doc_len :: "bytes \<Rightarrow> int \<Rightarrow> int" where
  "doc_len m p = to_i32 (u32_of_bytes (take 4 (drop (nat p) m)))"

definition doc_at :: "bytes \<Rightarrow> int \<Rightarrow> bool" where
  "doc_at m p \<longleftrightarrow>
     0 \<le> p \<and> 5 \<le> doc_len m p \<and> p + doc_len m p \<le> int (length m) \<and>
     m ! nat (p + doc_len m p - 1) = 0"

lemma bson_read_u32le_in:
  "0 \<le> p \<Longrightarrow> p + 4 \<le> int (length m) \<Longrightarrow>
   bson_read_u32le m p = Inr (u32_of_bytes (take 4 (drop (nat p) m)))"
  by (simp add: bson_read_u32le_def rd_n_in)

lemma doc_len_range: "INT32_MIN \<le> doc_len m p" "doc_len m p \<le> INT32_MAX"
  using sint_i32_range by (simp_all add: doc_len_def to_i32_def)

lemma uint_word_of_nonneg_i32:
  "0 \<le> n \<Longrightarrow> n \<le> INT32_MAX \<Longrightarrow> uint (word_of_int n :: u32) = n"
  by (simp add: unsigned_of_int take_bit_int_eq_self)

lemma doc_at_read: "doc_at m p \<Longrightarrow> \<exists>u. bson_read_u32le m p = Inr u \<and> to_i32 u = doc_len m p"
  by (auto simp: doc_at_def bson_read_u32le_in doc_len_def)

lemma view_from_data_cases:
  assumes "0 \<le> data" "data + data_len \<le> int (length m)"
  shows "bson_view_from_data m data data_len =
    (if data_len < 5 then Inr (None, bson_view_errc_short_read)
     else if doc_len m data < 5 then Inr (None, bson_view_errc_invalid_header)
     else if doc_len m data > data_len then Inr (None, bson_view_errc_short_read)
     else if m ! nat (data + doc_len m data - 1) \<noteq> 0
     then Inr (None, bson_view_errc_invalid_terminator)
     else Inr (Some data, bson_view_errc_okay))"
  using assms doc_len_range [of m data] uint_word_of_nonneg_i32 [of "doc_len m data"]
  by (auto simp: bson_view_from_data_def bson_read_u32le_in Let_def simp flip: doc_len_def)

section \<open>Properties\<close>

text \<open>
  C8: validating any buffer of untrusted bytes reads nothing outside it and never aborts, and a
  view results exactly when the buffer begins with a document: a declared length of at least
  five that fits the buffer and a zero byte at its end.
\<close>

theorem view_validation_exact:
  assumes "0 \<le> data" "0 \<le> data_len" "data + data_len \<le> int (length m)"
  shows "\<exists>v err. bson_view_from_data m data data_len = Inr (v, err) \<and>
    (v \<noteq> None \<longleftrightarrow> err = bson_view_errc_okay) \<and>
    (err = bson_view_errc_okay \<longleftrightarrow>
       5 \<le> data_len \<and> doc_at m data \<and> doc_len m data \<le> data_len) \<and>
    (v \<noteq> None \<longrightarrow> v = Some data)"
  using assms by (auto simp: view_from_data_cases [OF assms(1,3)] doc_at_def)

theorem view_validation_exact_witness:
  "\<exists>v err. bson_view_from_data [9, 5, 0, 0, 0, 0] 1 5 = Inr (v, err) \<and> err = bson_view_errc_okay"
proof -
  have "doc_len [9, 5, 0, 0, 0, 0] 1 = 5" by (simp add: doc_len_def to_i32_def)
  moreover from this have "doc_at [9, 5, 0, 0, 0, 0] 1" by (simp add: doc_at_def)
  ultimately show ?thesis
    using view_validation_exact [of 1 5 "[9, 5, 0, 0, 0, 0]"] by auto
qed

end
