(* ===== verification/Bson_Valsize.thy ===== *)
theory Bson_Valsize
  imports Bson_View
begin

text \<open>
  The size of an element's value (\<^verbatim>\<open>include/bson/detail/iter.h\<close>): two lookup tables, a length
  prefix for the variable-sized types, and a scan for regular expressions. The result is the
  size, or a negated \<^verbatim>\<open>bson_iter_errc\<close>.
\<close>

section \<open>Definitions\<close>

definition bson_value_re_len :: "bytes \<Rightarrow> int \<Rightarrow> int \<Rightarrow> int res" where
  "bson_value_re_len m valptr maxlen =
     bv_assert (maxlen > 0)
     (bindR (math_strnlen32 m valptr (math_I maxlen)) (\<lambda>s1.
        let (info, rx_len) = castNonNegativeInt32 mlib_math_try s1;
            rx_len = rx_len + 1;
            opt_begin_ptr = valptr + rx_len;
            (info, opt_bytes_avail) =
              castNonNegativeInt32 info (mlib_math_sub (math_I maxlen) (math_I rx_len))
        in bindR (math_strnlen32 m opt_begin_ptr (math_I opt_bytes_avail)) (\<lambda>s2.
             let (info, opt_len) = castNonNegativeInt32 info s2;
                 (info, trailing_bytes_remain) =
                   castNonNegativeInt32 info (mlib_math_sub (math_I opt_bytes_avail) (math_I opt_len))
             in if mlib_math_catch info then Inr (- iter_errc_code bson_iter_errc_invalid_length)
                else if trailing_bytes_remain < 2
                then Inr (- iter_errc_code bson_iter_errc_short_read)
                else
                  let opt_len = opt_len + 1;
                      (info, ret) =
                        castNonNegativeInt32 info (mlib_math_add (math_I rx_len) (math_I opt_len) False)
                  in if mlib_math_catch info
                     then Inr (- iter_errc_code bson_iter_errc_invalid_length)
                     else Inr ret)))"

definition const_sizes :: "int list" where
  "const_sizes =
     [0, 8, 4, 0, 0, 4 + 1, 0, 12, 1, 8, 0, INT32_MAX, 12, 4, 4, 4 + 4, 4, 8, 8, 16] @
     replicate 107 INT32_MAX @ [0] @ replicate 127 INT32_MAX @ [0]"

definition varsize_pick :: "bool list" where
  "varsize_pick =
     [False, False, True, True, True, True, False, False, False, False, False, False,
      True, True, True, True, False, False, False, False] @ replicate 236 False"

text \<open>The part of \<^verbatim>\<open>_bson_valsize\<close> after \<open>full_len\<close> is known.\<close>

definition bson_valsize_check :: "bytes \<Rightarrow> byte \<Rightarrow> int \<Rightarrow> int \<Rightarrow> int \<Rightarrow> int \<Rightarrow> int res" where
  "bson_valsize_check m tag valptr val_maxlen const_size full_len =
     bv_assert (full_len \<ge> 0)
     (if full_len < val_maxlen then bv_assert (full_len < INT32_MAX) (Inr full_len)
      else if tag = bson_type_regex then bson_value_re_len m valptr val_maxlen
      else if const_size = INT32_MAX then Inr (- iter_errc_code bson_iter_errc_invalid_type)
      else Inr (- iter_errc_code bson_iter_errc_invalid_length))"

definition bson_valsize :: "bytes \<Rightarrow> byte \<Rightarrow> int \<Rightarrow> int \<Rightarrow> int res" where
  "bson_valsize m tag valptr val_maxlen =
     bv_assert (val_maxlen > 0)
     (let tag_idx = unat tag in
      bv_assert (tag_idx < 256)
      (let const_size = const_sizes ! tag_idx;
           has_varsize_prefix = varsize_pick ! tag_idx
       in if has_varsize_prefix then
            (if \<not> val_maxlen > 4 then Inr (- iter_errc_code bson_iter_errc_invalid_length)
             else bindR (bson_read_u32le m valptr) (\<lambda>u.
               let varlen = to_i32 u in
               bv_assert (varlen \<ge> 0)
                 (bson_valsize_check m tag valptr val_maxlen const_size (const_size + varlen))))
          else bson_valsize_check m tag valptr val_maxlen const_size const_size))"

section \<open>The tables\<close>

lemma length_const_sizes: "length const_sizes = 256"
  by (simp add: const_sizes_def)

lemma length_varsize_pick: "length varsize_pick = 256"
  by (simp add: varsize_pick_def)

lemma unat_byte_less: "unat (b :: byte) < 256"
  using unsigned_less [of b] by simp

lemma const_sizes_range:
  "0 \<le> const_sizes ! unat (t :: byte)" "const_sizes ! unat (t :: byte) \<le> INT32_MAX"
proof -
  have "const_sizes ! unat t \<in> set const_sizes"
    by (rule nth_mem) (simp add: length_const_sizes unat_byte_less)
  moreover have "\<forall>x \<in> set const_sizes. 0 \<le> x \<and> x \<le> INT32_MAX"
    by (auto simp: const_sizes_def)
  ultimately show "0 \<le> const_sizes ! unat t" "const_sizes ! unat t \<le> INT32_MAX"
    by blast+
qed

text \<open>Where there is a length prefix, the table's entry is small.\<close>

lemma varsize_const_size:
  "varsize_pick ! unat (t :: byte) \<Longrightarrow> const_sizes ! unat t \<le> 12"
proof -
  have "\<forall>i < 20. varsize_pick ! i \<longrightarrow> const_sizes ! i \<le> 12"
    by (simp add: varsize_pick_def const_sizes_def nth_append numeral_eq_Suc less_Suc_eq)
  moreover have "\<not> varsize_pick ! i" if "20 \<le> i" "i < 256" for i
    using that by (simp add: varsize_pick_def nth_append)
  ultimately show "varsize_pick ! unat t \<Longrightarrow> const_sizes ! unat t \<le> 12"
    using unat_byte_less [of t] by (meson leI)
qed

lemma not_varsize_regex: "\<not> varsize_pick ! unat bson_type_regex"
  by (simp add: varsize_pick_def bson_type_defs)

lemma const_size_regex: "const_sizes ! unat bson_type_regex = INT32_MAX"
  by (simp add: const_sizes_def bson_type_defs)

section \<open>Regular expressions\<close>

lemma math_strnlen32_eq:
  assumes "0 \<le> n" "n \<le> INT32_MAX" "0 \<le> p"
    and "p + n \<le> int (length m) \<or> 0 \<in> set (take (nat n) (drop (nat p) m))"
  shows "\<exists>v. math_strnlen32 m p (math_I n) = Inr v \<and>
    mi_val v = Some (int (length (cstr (take (nat n) (drop (nat p) m)))))"
proof -
  let ?k = "length (cstr (take (nat n) (drop (nat p) m)))"
  obtain v where v: "mlib_math_strnlen m p (math_I n) = Inr v" "mi_val v = Some (int ?k)"
    using assms mlib_math_strnlen_eq [of "math_I n" n p m] by (auto simp: mi_val_I in_i64_def)
  have "?k \<le> nat n" using length_cstr_le [of "take (nat n) (drop (nat p) m)"] by simp
  then have "mi_val (checkInt32 v) = Some (int ?k)"
    using v(2) assms by (simp add: checkInt32_def mi_val_check_bounds in_i64_def)
  with v(1) show ?thesis by (simp add: math_strnlen32_def)
qed

lemma castNonNegativeInt32_sub:
  "0 \<le> b \<Longrightarrow> b \<le> a \<Longrightarrow> a \<le> INT32_MAX \<Longrightarrow>
   castNonNegativeInt32 info (mlib_math_sub (math_I a) (math_I b)) = (info, a - b)"
  by (rule cast_ok [OF castNonNegativeInt32_spec])
    (simp_all add: mi_val_I mi_val_sub [of _ a _ b] in_i64_def)

lemma castNonNegativeInt32_add:
  "0 \<le> a \<Longrightarrow> 0 \<le> b \<Longrightarrow> a + b \<le> INT32_MAX \<Longrightarrow>
   castNonNegativeInt32 info (mlib_math_add (math_I a) (math_I b) False) = (info, a + b)"
  by (rule cast_ok [OF castNonNegativeInt32_spec]) (simp_all add: mi_val_simps in_i64_def)

lemma re_len_eq:
  fixes m :: bytes
  defines "n1 maxlen p \<equiv> int (length (cstr (take (nat maxlen) (drop (nat p) m))))"
  assumes "0 < maxlen" "maxlen \<le> INT32_MAX" "0 \<le> p"
    and "0 \<in> set (take (nat maxlen) (drop (nat p) m))"
    and "avail = maxlen - n1 maxlen p - 1" "q = p + n1 maxlen p + 1"
    and "q + avail \<le> int (length m) \<or> 0 \<in> set (take (nat avail) (drop (nat q) m))"
  shows "bson_value_re_len m p maxlen =
    Inr (if avail - n1 avail q < 2 then - 1 else n1 maxlen p + n1 avail q + 2)"
proof -
  have k1: "0 \<le> n1 maxlen p" "n1 maxlen p < maxlen"
    using length_cstr_less [OF assms(5)] assms(2) by (auto simp: n1_def)
  obtain v where v: "math_strnlen32 m p (math_I maxlen) = Inr v" "mi_val v = Some (n1 maxlen p)"
    using math_strnlen32_eq [of maxlen p m] assms by (auto simp: n1_def)
  have c1: "castNonNegativeInt32 mlib_math_try v = (mlib_math_try, n1 maxlen p)"
    using k1 v(2) assms(3) by (intro cast_ok [OF castNonNegativeInt32_spec]) auto
  have avail: "0 \<le> avail" "avail \<le> INT32_MAX" using assms k1 by auto
  obtain w where w: "math_strnlen32 m q (math_I avail) = Inr w" "mi_val w = Some (n1 avail q)"
    using math_strnlen32_eq [of avail q m] avail assms k1 by (auto simp: n1_def)
  have k2: "0 \<le> n1 avail q" "n1 avail q \<le> avail"
    using length_cstr_le [of "take (nat avail) (drop (nat q) m)"] avail by (auto simp: n1_def)
  have c2: "castNonNegativeInt32 mlib_math_try w = (mlib_math_try, n1 avail q)"
    using k2 w(2) avail by (intro cast_ok [OF castNonNegativeInt32_spec]) auto
  have s1: "castNonNegativeInt32 mlib_math_try
      (mlib_math_sub (math_I maxlen) (math_I (n1 maxlen p + 1))) = (mlib_math_try, avail)"
    using castNonNegativeInt32_sub [of "n1 maxlen p + 1" maxlen] k1 assms by simp
  have s2: "castNonNegativeInt32 mlib_math_try
      (mlib_math_sub (math_I avail) (math_I (n1 avail q))) = (mlib_math_try, avail - n1 avail q)"
    using castNonNegativeInt32_sub [of "n1 avail q" avail] k2 avail by simp
  have a: "castNonNegativeInt32 mlib_math_try (mlib_math_add (math_I (n1 maxlen p + 1))
      (math_I (n1 avail q + 1)) False) = (mlib_math_try, n1 maxlen p + n1 avail q + 2)"
    if "\<not> avail - n1 avail q < 2"
    using castNonNegativeInt32_add [of "n1 maxlen p + 1" "n1 avail q + 1"] that k1 k2 assms(3,6)
    by simp
  have ptr: "p + (n1 maxlen p + 1) = q" using assms by simp
  show ?thesis
    unfolding bson_value_re_len_def
    using v(1) w(1) assms(2) a by (simp add: c1 c2 s1 s2 ptr)
qed

text \<open>The value of a regular expression: two strings with their terminators, then more bytes.\<close>

lemma re_len_two_strings:
  assumes p: "0 \<le> p" "drop (nat p) m = a @ 0 # b @ 0 # rest" and ab: "0 \<notin> set a" "0 \<notin> set b"
    and n: "int (length a + length b) + 3 \<le> n" "n \<le> INT32_MAX"
  shows "bson_value_re_len m p n = Inr (int (length a + length b) + 2)"
proof -
  let ?q = "p + int (length a) + 1" and ?avail = "n - int (length a) - 1"
  have dq: "drop (nat ?q) m = b @ 0 # rest"
    using p(1) drop_nat_shift [of p "int (length a) + 1" m]
    by (simp add: p(2) nat_add_distrib add.assoc)
  have t1: "take (nat n) (drop (nat p) m) = a @ 0 # take (nat n - length a - 1) (b @ 0 # rest)"
    using n by (simp add: p(2) take_Cons' )
  have t2: "take (nat ?avail) (drop (nat ?q) m) = b @ 0 # take (nat ?avail - length b - 1) rest"
    using n by (simp add: dq take_Cons')
  have c1: "cstr (take (nat n) (drop (nat p) m)) = a"
    using ab by (simp add: t1 cstr_append)
  have c2: "cstr (take (nat ?avail) (drop (nat ?q) m)) = b"
    using ab by (simp add: t2 cstr_append)
  have "0 \<in> set (take (nat n) (drop (nat p) m))" "0 \<in> set (take (nat ?avail) (drop (nat ?q) m))"
    by (simp_all add: t1 t2)
  then show ?thesis
    using re_len_eq [of n p m ?avail ?q] p(1) n by (simp add: c1 c2)
qed

section \<open>Windows\<close>

text \<open>A window: \<open>n\<close> bytes of the block at \<open>p\<close>, the last of them zero.\<close>

definition window :: "bytes \<Rightarrow> int \<Rightarrow> int \<Rightarrow> bool" where
  "window m p n \<longleftrightarrow>
     0 \<le> p \<and> 0 < n \<and> n \<le> INT32_MAX \<and> p + n \<le> int (length m) \<and> m ! nat (p + n - 1) = 0"

lemma window_zero: "window m p n \<Longrightarrow> 0 \<in> set (take (nat n) (drop (nat p) m))"
proof -
  assume w: "window m p n"
  then have "take (nat n) (drop (nat p) m) ! nat (n - 1) = 0"
    using nth_drop_nat [of p "n - 1" m] by (simp add: window_def add_diff_eq)
  moreover have "nat (n - 1) < length (take (nat n) (drop (nat p) m))"
    using w by (auto simp: window_def)
  ultimately show ?thesis by (metis nth_mem)
qed

lemma window_shift:
  "window m p n \<Longrightarrow> 0 \<le> k \<Longrightarrow> k < n \<Longrightarrow> window m (p + k) (n - k)"
  by (auto simp: window_def)

lemma re_len_window:
  assumes "window m p n"
  shows "bson_value_re_len m p n = Inr (- 1) \<or>
    (\<exists>a b rest. drop (nat p) m = a @ 0 # b @ 0 # rest \<and> 0 \<notin> set a \<and> 0 \<notin> set b \<and>
       int (length a + length b) + 3 \<le> n)"
proof -
  have w: "0 \<le> p" "0 < n" "n \<le> INT32_MAX" "p + n \<le> int (length m)"
    using assms by (auto simp: window_def)
  let ?W = "take (nat n) (drop (nat p) m)"
  define a where "a = cstr ?W"
  let ?q = "p + int (length a) + 1" and ?avail = "n - int (length a) - 1"
  define b where "b = cstr (take (nat ?avail) (drop (nat ?q) m))"
  have z: "0 \<in> set ?W" by (rule window_zero [OF assms])
  have la: "int (length a) < n" using length_cstr_less [OF z] w by (auto simp: a_def)
  have eq: "bson_value_re_len m p n =
      Inr (if ?avail - int (length b) < 2 then - 1 else int (length a) + int (length b) + 2)"
    using re_len_eq [of n p m ?avail ?q] w z la by (simp add: a_def [symmetric] b_def [symmetric])
  show ?thesis
  proof (cases "?avail - int (length b) < 2")
    case False
    let ?V = "take (nat ?avail) (drop (nat ?q) m)"
    obtain r where r: "drop (nat p) m = a @ 0 # r"
      using cstr_take_split [OF z] by (auto simp: a_def)
    then have r2: "drop (nat ?q) m = r"
      using w(1) drop_nat_shift [of p "int (length a) + 1" m]
      by (simp add: nat_add_distrib add.assoc)
    have "length b < length ?V"
      using False w la by (auto simp: b_def)
    then have zV: "0 \<in> set ?V"
      using cstr_id_iff [of ?V] by (auto simp: b_def)
    obtain s where "r = b @ 0 # s"
      using cstr_take_split [OF zV] by (auto simp: b_def r2)
    with r have "drop (nat p) m = a @ 0 # b @ 0 # s" by simp
    moreover have "0 \<notin> set a" "0 \<notin> set b" by (simp_all add: a_def b_def)
    moreover have "int (length a + length b) + 3 \<le> n" using False by simp
    ultimately show ?thesis by blast
  qed (simp add: eq)
qed

section \<open>The size of a value inside a window\<close>

text \<open>
  The only input on which the size computation aborts: a length prefix that is present and
  negative. \<^const>\<open>doc_len\<close> reads any length prefix, also that of a string.
\<close>

definition neg_prefix :: "bytes \<Rightarrow> byte \<Rightarrow> int \<Rightarrow> int \<Rightarrow> bool" where
  "neg_prefix m t p n \<longleftrightarrow> varsize_pick ! unat t \<and> 4 < n \<and> doc_len m p < 0"

lemma valsize_eq_const:
  assumes "\<not> varsize_pick ! unat t" "0 < n"
  shows "bson_valsize m t p n =
    bson_valsize_check m t p n (const_sizes ! unat t) (const_sizes ! unat t)"
  using assms by (simp add: bson_valsize_def unat_byte_less Let_def)

lemma valsize_eq_var:
  assumes "varsize_pick ! unat t" "0 \<le> p" "p + 4 \<le> int (length m)" "4 < n"
  shows "bson_valsize m t p n =
    (if doc_len m p < 0 then Inl Assert_fail
     else bson_valsize_check m t p n (const_sizes ! unat t) (const_sizes ! unat t + doc_len m p))"
  using assms
  by (auto simp: bson_valsize_def unat_byte_less bson_read_u32le_in Let_def bv_assert_def
      simp flip: doc_len_def)

lemma valsize_eq_short:
  assumes "varsize_pick ! unat t" "0 < n" "n \<le> 4"
  shows "bson_valsize m t p n = Inr (- 3)"
  using assms by (simp add: bson_valsize_def unat_byte_less)

lemma valsize_check_ok:
  "0 \<le> full \<Longrightarrow> full < n \<Longrightarrow> n \<le> INT32_MAX \<Longrightarrow> bson_valsize_check m t p n c full = Inr full"
  by (simp add: bson_valsize_check_def)

lemma valsize_check_overrun:
  "0 \<le> full \<Longrightarrow> n \<le> full \<Longrightarrow> t \<noteq> bson_type_regex \<Longrightarrow>
   bson_valsize_check m t p n c full = Inr (if c = INT32_MAX then - 2 else - 3)"
  by (simp add: bson_valsize_check_def)

lemma valsize_regex:
  "0 < n \<Longrightarrow> n \<le> INT32_MAX \<Longrightarrow> bson_valsize m bson_type_regex p n = bson_value_re_len m p n"
  by (simp add: valsize_eq_const not_varsize_regex const_size_regex bson_valsize_check_def)

lemma window_bounds:
  assumes "window m p n"
  shows "0 \<le> p" "0 < n" "n \<le> INT32_MAX" "p + n \<le> int (length m)" "4 < n \<Longrightarrow> p + 4 \<le> int (length m)"
  using assms by (auto simp: window_def)

lemma re_len_window_cases:
  assumes "window m p n"
  shows "\<exists>v. bson_value_re_len m p n = Inr v \<and> (v = - 1 \<or> 0 \<le> v \<and> v < n)"
  using re_len_window [OF assms]
proof
  assume "\<exists>a b rest. drop (nat p) m = a @ 0 # b @ 0 # rest \<and> 0 \<notin> set a \<and> 0 \<notin> set b \<and>
    int (length a + length b) + 3 \<le> n"
  then show ?thesis
    using re_len_two_strings [of p m _ _ _ n] window_bounds [OF assms] by fastforce
qed simp

lemma valsize_window:
  assumes "window m p n"
  shows "if neg_prefix m t p n then bson_valsize m t p n = Inl Assert_fail
    else \<exists>v. bson_valsize m t p n = Inr v \<and> (v = - 1 \<or> v = - 2 \<or> v = - 3 \<or> 0 \<le> v \<and> v < n)"
proof -
  note w = window_bounds [OF assms]
  let ?c = "const_sizes ! unat t"
  have chk: "\<exists>v. bson_valsize_check m t p n c full = Inr v \<and>
      (v = - 1 \<or> v = - 2 \<or> v = - 3 \<or> 0 \<le> v \<and> v < n)" if "0 \<le> full" for c full
  proof (cases "full < n")
    case False
    then show ?thesis
      using that re_len_window_cases [OF assms]
      by (cases "t = bson_type_regex") (auto simp: bson_valsize_check_def)
  qed (use that w in \<open>simp add: valsize_check_ok\<close>)
  consider "varsize_pick ! unat t" "4 < n" | "varsize_pick ! unat t" "n \<le> 4" | "\<not> varsize_pick ! unat t"
    by linarith
  then show ?thesis
    using w const_sizes_range [of t] chk
    by cases (auto simp: neg_prefix_def valsize_eq_var valsize_eq_short valsize_eq_const)
qed

lemma valsize_stable:
  assumes "window m p n" "bson_valsize m t p n = Inr v" "0 \<le> v" "n \<le> n'" "n' \<le> INT32_MAX"
  shows "bson_valsize m t p n' = Inr v"
proof (cases "t = bson_type_regex")
  case True
  then have "bson_value_re_len m p n = Inr v"
    using assms window_bounds [OF assms(1)] by (simp add: valsize_regex)
  with re_len_window [OF assms(1)] assms(3) obtain a b rest
    where r: "drop (nat p) m = a @ 0 # b @ 0 # rest" "0 \<notin> set a" "0 \<notin> set b"
      "int (length a + length b) + 3 \<le> n"
    by auto
  with assms window_bounds [OF assms(1)]
  have "bson_value_re_len m p n = bson_value_re_len m p n'"
    by (simp add: re_len_two_strings [OF _ r(1-3)])
  with True assms window_bounds [OF assms(1)] \<open>bson_value_re_len m p n = Inr v\<close>
  show ?thesis by (simp add: valsize_regex)
next
  case False
  note w = window_bounds [OF assms(1)]
  have chk: "bson_valsize_check m t p n' c full = Inr v"
    if "bson_valsize_check m t p n c full = Inr v" for c full
    using that False assms(3-) by (auto simp: bson_valsize_check_def res_simps split: if_splits)
  show ?thesis
  proof (cases "varsize_pick ! unat t")
    case True
    with assms(2,3) w valsize_eq_short [of t n m p] have "4 < n" by (cases "n \<le> 4") auto
    with True assms(2) w chk assms(4) show ?thesis
      by (auto simp: valsize_eq_var split: if_splits)
  qed (use assms w chk in \<open>simp add: valsize_eq_const\<close>)
qed

end
