(* ===== verification/Bson_Iterator.thy ===== *)
theory Bson_Iterator
  imports Bson_Valsize
begin

text \<open>
  Iteration over documents (\<^verbatim>\<open>include/bson/iterator.h\<close>): construction of an iterator with its
  checks, advancing, the \<^verbatim>\<open>bson_foreach\<close> loop, lookup by key, and reading the value of an element.

  The model follows the source assertion by assertion. \<open>iter_inv\<close> is what the checks of
  \<^verbatim>\<open>_bson_iterator_at\<close> establish and what \<^verbatim>\<open>bson_next\<close>, which repeats none of them, relies on.
  The loops take fuel; \<open>foreach_subrange_enough\<close> shows that the number of bytes left in the
  document is enough.
\<close>

section \<open>Iterators\<close>

record bson_iterator =
  it_ptr :: "int option"
  it_keylen :: int
  it_rlen :: int

definition bson_iterator_error :: "bson_iter_errc \<Rightarrow> bson_iterator" where
  "bson_iterator_error err = \<lparr>it_ptr = None, it_keylen = 0, it_rlen = - iter_errc_code err\<rparr>"

text \<open>
  \<^verbatim>\<open>_bson_iterator_error((enum bson_iter_errc)(-vallen))\<close>: the code goes through the enum unchanged.
\<close>

definition iterator_error_code :: "int \<Rightarrow> bson_iterator" where
  "iterator_error_code vallen = \<lparr>it_ptr = None, it_keylen = 0, it_rlen = - (- vallen)\<rparr>"

text \<open>The types whose size check is skipped when more than 16 bytes are left.\<close>

definition skip_size_check :: "byte \<Rightarrow> bool" where
  "skip_size_check type \<longleftrightarrow>
     type = bson_type_null \<or> type = bson_type_undefined \<or> type = bson_type_timestamp \<or>
     type = bson_type_datetime \<or> type = bson_type_double \<or> type = bson_type_bool \<or>
     type = bson_type_decimal128 \<or> type = bson_type_int32 \<or> type = bson_type_int64"

text \<open>The last part of \<^verbatim>\<open>_bson_iterator_at\<close>, once the key is known to end inside the document.\<close>

definition iterator_at_value ::
  "bytes \<Rightarrow> int \<Rightarrow> int \<Rightarrow> byte \<Rightarrow> int \<Rightarrow> int \<Rightarrow> bson_iterator res" where
  "iterator_at_value m data maxlen type keylen val_maxlen =
     (let it = \<lparr>it_ptr = Some data, it_keylen = keylen, it_rlen = maxlen\<rparr>;
          need_check_size = (if val_maxlen > 16 then \<not> skip_size_check type else True);
          keyptr = data + 1
      in if need_check_size then
           (let valptr = keyptr + (keylen + 1) in
            bindR (bson_valsize m type valptr val_maxlen) (\<lambda>vallen.
              if vallen < 0 then Inr (iterator_error_code vallen)
              else if type = bson_type_document \<or> type = bson_type_array then
                bindR (rd m (valptr + (vallen - 1))) (\<lambda>b.
                  if b \<noteq> 0 then Inr (bson_iterator_error bson_iter_errc_invalid_document)
                  else Inr it)
              else Inr it))
         else Inr it)"

definition bson_iterator_at :: "bytes \<Rightarrow> int \<Rightarrow> int \<Rightarrow> bson_iterator res" where
  "bson_iterator_at m data maxlen =
     bv_assert (maxlen > 0)
     (let last_index = maxlen - 1 in
      bv_assert (last_index \<ge> 0)
      (bindR (rd m (data + last_index)) (\<lambda>z.
       bv_assert (z = 0)
       (bindR (rd m data) (\<lambda>type.
        if maxlen = 1 then
          bindR (rd m (data + last_index)) (\<lambda>z.
          bv_assert (z = 0) (Inr \<lparr>it_ptr = Some data, it_keylen = 0, it_rlen = 1\<rparr>))
        else
          (let key_maxlen = maxlen - 1; keyptr = data + 1 in
           bv_assert (key_maxlen \<ge> 1)
           (bindR (c_strlen m keyptr) (\<lambda>keylen.
            bv_assert (keylen < INT32_MAX)
            (bv_assert (keylen \<ge> 0)
            (bv_assert (keylen < key_maxlen)
            (bindR (rd m (keyptr + keylen)) (\<lambda>k.
             bv_assert (k = 0)
             (let p1 = key_maxlen - keylen in
              bv_assert (p1 > 0)
              (let val_maxlen = p1 - 1 in
               bv_assert (val_maxlen \<ge> 0)
               (if val_maxlen < 1 then Inr (bson_iterator_error bson_iter_errc_short_read)
                else bv_assert (val_maxlen > 0)
                  (iterator_at_value m data maxlen type keylen val_maxlen))))))))))))))))"

definition bson_recover_iterator :: "bytes \<Rightarrow> int \<Rightarrow> int \<Rightarrow> bson_iterator res" where
  "bson_recover_iterator m doc_data_begin elem_offset =
     bv_assert (elem_offset \<ge> 4)
     (bindR (bson_read_u32le m doc_data_begin) (\<lambda>u.
      let len = to_i32 u in
      bv_assert (elem_offset < len)
        (bson_iterator_at m (doc_data_begin + elem_offset) (len - elem_offset))))"

definition bson_begin :: "bytes \<Rightarrow> int option \<Rightarrow> bson_iterator res" where
  "bson_begin m v =
     (case v of None \<Rightarrow> Inl Assert_fail
      | Some data \<Rightarrow>
          bindR (bson_read_u32le m data) (\<lambda>u.
          let sz = to_i32 u; tailsize = sz - 4 in
          bv_assert (tailsize > 0)
          (bv_assert (tailsize < INT32_MAX) (bson_iterator_at m (data + 4) tailsize))))"

definition bson_end :: "bytes \<Rightarrow> int option \<Rightarrow> bson_iterator res" where
  "bson_end m v =
     (case v of None \<Rightarrow> Inl Assert_fail
      | Some data \<Rightarrow>
          bindR (bson_read_u32le m data) (\<lambda>len. bson_iterator_at m (data + uint len - 1) 1))"

definition bson_iterator_eq :: "bson_iterator \<Rightarrow> bson_iterator \<Rightarrow> bool" where
  "bson_iterator_eq left right \<longleftrightarrow> it_ptr left = it_ptr right"

definition bson_stop :: "bson_iterator \<Rightarrow> bool" where
  "bson_stop it \<longleftrightarrow> it_rlen it \<le> 1"

text \<open>Dereferencing the element pointer; a null pointer is outside every block.\<close>

definition it_deref :: "bson_iterator \<Rightarrow> int res" where
  "it_deref it = (case it_ptr it of None \<Rightarrow> Inl Out_of_bounds | Some p \<Rightarrow> Inr p)"

definition bson_iterator_value_ptr :: "bson_iterator \<Rightarrow> int res" where
  "bson_iterator_value_ptr it = bindR (it_deref it) (\<lambda>p. Inr (p + 1 + it_keylen it + 1))"

definition bson_iterator_type :: "bytes \<Rightarrow> bson_iterator \<Rightarrow> byte res" where
  "bson_iterator_type m it =
     bv_assert (it_rlen it > 0) (bindR (it_deref it) (\<lambda>p. rd m p))"

definition bson_iterator_data_size :: "bytes \<Rightarrow> bson_iterator \<Rightarrow> int res" where
  "bson_iterator_data_size m it =
     bv_assert (\<not> bson_stop it)
     (let val_offset = 1 + it_keylen it + 1 in
      bv_assert (val_offset > 0)
      (bindR (bson_iterator_type m it) (\<lambda>t.
       bindR (it_deref it) (\<lambda>p.
       bindR (bson_valsize m t (p + val_offset) INT32_MAX) (\<lambda>valsize.
       let remain = INT32_MAX - valsize in
       bv_assert (val_offset < remain) (Inr (val_offset + valsize)))))))"

definition bson_next :: "bytes \<Rightarrow> bson_iterator \<Rightarrow> bson_iterator res" where
  "bson_next m it =
     bindR (bson_iterator_data_size m it) (\<lambda>skip.
     bindR (it_deref it) (\<lambda>p.
     let newptr = p + skip; remain = it_rlen it - skip in
     bv_assert (remain \<ge> 0) (bson_iterator_at m newptr remain)))"

text \<open>\<open>None\<close> would be a code outside the enumeration; \<open>iter_errc_of\<close> shows it does not occur.\<close>

definition bson_iterator_get_error :: "bson_iterator \<Rightarrow> bson_iter_errc option" where
  "bson_iterator_get_error it =
     (if it_rlen it < 0 then iter_errc_of (- it_rlen it) else Some bson_iter_errc_okay)"

definition bson_key :: "bytes \<Rightarrow> bson_iterator \<Rightarrow> str_view res" where
  "bson_key m it =
     bv_assert (it_rlen it \<ge> it_keylen it + 1)
     (case it_ptr it of None \<Rightarrow> Inl Assert_fail
      | Some p \<Rightarrow> bindR (rd_n m (p + 1) (nat (it_keylen it))) (\<lambda>k. Inr (Some k)))"

definition bson_key_eq :: "bytes \<Rightarrow> bson_iterator \<Rightarrow> bytes \<Rightarrow> bool res" where
  "bson_key_eq m it key =
     bv_assert (it_keylen it \<ge> 0)
     (if int (length key) > INT32_MAX \<or> int (length key) \<noteq> it_keylen it then Inr False
      else bindR (it_deref it) (\<lambda>p.
           bindR (rd_n m (p + 1) (length key)) (\<lambda>k. Inr (k = key))))"

section \<open>The loop over a range\<close>

text \<open>
  \<^verbatim>\<open>bson_foreach_subrange\<close>: the iterators its body sees, in order. An errant iterator is seen
  once and then the loop jumps to the sentinel. \<open>None\<close> is the loop running out of fuel.
\<close>

fun bson_foreach_subrange ::
  "nat \<Rightarrow> bytes \<Rightarrow> bson_iterator \<Rightarrow> bson_iterator \<Rightarrow> bson_iterator list res option" where
  "bson_foreach_subrange 0 m it sentinel = None"
| "bson_foreach_subrange (Suc fuel) m it sentinel =
     (if bson_iterator_eq it sentinel then Some (Inr [])
      else if bson_iterator_get_error it = Some bson_iter_errc_okay then
        (case bson_next m it of
           Inl e \<Rightarrow> Some (Inl e)
         | Inr it' \<Rightarrow>
             map_option (\<lambda>r. bindR r (\<lambda>its. Inr (it # its)))
               (bson_foreach_subrange fuel m it' sentinel))
      else Some (Inr [it]))"

text \<open>\<^verbatim>\<open>bson_foreach\<close>: the loop over a whole document.\<close>

definition bson_foreach :: "nat \<Rightarrow> bytes \<Rightarrow> int option \<Rightarrow> bson_iterator list res option" where
  "bson_foreach fuel m v =
     (case bindR (bson_end m v) (\<lambda>e. bindR (bson_begin m v) (\<lambda>b. Inr (b, e))) of
        Inl e \<Rightarrow> Some (Inl e)
      | Inr (first, sentinel) \<Rightarrow> bson_foreach_subrange fuel m first sentinel)"

text \<open>\<^verbatim>\<open>_bson_find\<close>: the loop with its early return.\<close>

fun bson_find_loop ::
  "nat \<Rightarrow> bytes \<Rightarrow> bson_iterator \<Rightarrow> bson_iterator \<Rightarrow> bytes \<Rightarrow> bson_iterator option res option" where
  "bson_find_loop 0 m it sentinel key = None"
| "bson_find_loop (Suc fuel) m it sentinel key =
     (if bson_iterator_eq it sentinel then Some (Inr None)
      else if bson_iterator_get_error it = Some bson_iter_errc_okay then
        (case bson_key_eq m it key of
           Inl e \<Rightarrow> Some (Inl e)
         | Inr True \<Rightarrow> Some (Inr (Some it))
         | Inr False \<Rightarrow>
             (case bson_next m it of
                Inl e \<Rightarrow> Some (Inl e)
              | Inr it' \<Rightarrow> bson_find_loop fuel m it' sentinel key))
      else Some (Inr None))"

definition bson_find :: "nat \<Rightarrow> bytes \<Rightarrow> int option \<Rightarrow> bytes \<Rightarrow> bson_iterator res option" where
  "bson_find fuel m v key =
     (case bindR (bson_end m v) (\<lambda>e. bindR (bson_begin m v) (\<lambda>b. Inr (b, e))) of
        Inl e \<Rightarrow> Some (Inl e)
      | Inr (first, sentinel) \<Rightarrow>
          map_option (\<lambda>r. bindR r (\<lambda>found.
              case found of Some it \<Rightarrow> Inr it | None \<Rightarrow> bson_end m v))
            (bson_find_loop fuel m first sentinel key))"

section \<open>Reading values\<close>

definition bson_read_stringlike_at :: "bytes \<Rightarrow> int \<Rightarrow> str_view res" where
  "bson_read_stringlike_at m p =
     bindR (bson_read_u32le m p) (\<lambda>u.
     let len = to_i32 u in
     bv_assert (len \<ge> 1)
       (bindR (rd_n m (p + 4) (nat len - 1)) (\<lambda>bs. Inr (Some bs))))"

definition bson_iterator_stringlike :: "bytes \<Rightarrow> bson_iterator \<Rightarrow> str_view res" where
  "bson_iterator_stringlike m it =
     bindR (bson_iterator_value_ptr it) (\<lambda>after_key.
     bindR (bson_read_stringlike_at m after_key) (\<lambda>r.
     bv_assert (sv_len r > 0)
     (bv_assert (int (sv_len r) < it_rlen it) (Inr r))))"

text \<open>\<^verbatim>\<open>strlen32\<close> of a C string, cast to \<^verbatim>\<open>uint32_t\<close> in the enclosing \<open>try\<close> scope.\<close>

definition cast_strlen32 ::
  "mlib_math_fail_info \<Rightarrow> bytes \<Rightarrow> int \<Rightarrow> (mlib_math_fail_info \<times> int) res" where
  "cast_strlen32 info m p = bindR (c_strlen m p) (\<lambda>n. Inr (castUInt32 info (checkInt32 (math_U n))))"

definition bson_iterator_regex :: "bytes \<Rightarrow> bson_iterator \<Rightarrow> bson_value_ref res" where
  "bson_iterator_regex m it =
     bindR (bson_iterator_value_ptr it) (\<lambda>regex.
     bindR (cast_strlen32 mlib_math_try m regex) (\<lambda>(info, rx_len).
     let options = regex + rx_len + 1 in
     bindR (cast_strlen32 info m options) (\<lambda>(info, opt_len).
     if mlib_math_catch info then Inr (V_regex None None)
     else bindR (rd_n m regex (nat rx_len)) (\<lambda>r.
          bindR (rd_n m options (nat opt_len)) (\<lambda>opt. Inr (V_regex (Some r) (Some opt)))))))"

text \<open>A subdocument: the view of the value, made with the bytes that are left.\<close>

definition bson_iterator_subdoc :: "bytes \<Rightarrow> bson_iterator \<Rightarrow> doc_view res" where
  "bson_iterator_subdoc m it =
     bindR (bson_iterator_value_ptr it) (\<lambda>valptr.
     bindR (it_deref it) (\<lambda>p.
     let val_offset = valptr - p; val_remain = it_rlen it - val_offset in
     bv_assert (val_remain > 0)
     (bindR (bson_view_from_data m valptr val_remain) (\<lambda>(v, err).
      case v of None \<Rightarrow> Inr None
      | Some _ \<Rightarrow> bindR (bson_view_bytes m v) (\<lambda>bs. Inr (Some bs))))))"

definition bson_iterator_binary :: "bytes \<Rightarrow> int \<Rightarrow> bson_value_ref res" where
  "bson_iterator_binary m valptr =
     bindR (bson_read_u32le m valptr) (\<lambda>u.
     let size = to_i32 u in
     bv_assert (size \<ge> 0)
     (bindR (rd m (valptr + 4)) (\<lambda>subtype.
      bindR (rd_n m (valptr + 5) (nat size)) (\<lambda>bs. Inr (V_binary subtype bs)))))"

definition bson_iterator_dbpointer :: "bytes \<Rightarrow> int \<Rightarrow> bson_value_ref res" where
  "bson_iterator_dbpointer m p =
     bindR (bson_read_u32le m p) (\<lambda>u.
     let coll_name_size = to_i32 u in
     bv_assert (coll_name_size > 0)
     (bindR (rd_n m (p + 4) (nat (coll_name_size - 1))) (\<lambda>coll.
      bindR (rd_n m (p + 4 + coll_name_size) 12) (\<lambda>oid. Inr (V_dbpointer (Some coll) oid)))))"

definition bson_iterator_timestamp :: "bytes \<Rightarrow> int \<Rightarrow> bson_value_ref res" where
  "bson_iterator_timestamp m p =
     bindR (bson_read_u32le m p) (\<lambda>increment.
     bindR (bson_read_u32le m (p + 4)) (\<lambda>utc. Inr (V_timestamp increment utc)))"

text \<open>
  \<^verbatim>\<open>bson_iterator_value\<close>. A tag that is no enumerator takes no case of the switch; the result is
  then a value of no type the program can name, here \<open>None\<close>.
\<close>

definition bson_iterator_value ::
  "bytes \<Rightarrow> bson_iterator \<Rightarrow> bson_value_ref option res" where
  "bson_iterator_value m it =
     bv_assert (bson_iterator_get_error it = Some bson_iter_errc_okay)
     (bindR (bson_iterator_type m it) (\<lambda>t.
      bindR (bson_iterator_value_ptr it) (\<lambda>p.
      let ret = (\<lambda>r. bindR r (\<lambda>v. Inr (Some v))) in
      if t = bson_type_eod then Inr (Some V_eod)
      else if t = bson_type_undefined then Inr (Some V_undefined)
      else if t = bson_type_null then Inr (Some V_null)
      else if t = bson_type_maxkey then Inr (Some V_maxkey)
      else if t = bson_type_minkey then Inr (Some V_minkey)
      else if t = bson_type_double then ret (bindR (bson_read_u64le m p) (\<lambda>d. Inr (V_double d)))
      else if t = bson_type_utf8 then
        ret (bindR (bson_iterator_stringlike m it) (\<lambda>s. Inr (V_utf8 s)))
      else if t = bson_type_document then
        ret (bindR (bson_iterator_subdoc m it) (\<lambda>v. Inr (V_document v)))
      else if t = bson_type_array then
        ret (bindR (bson_iterator_subdoc m it) (\<lambda>v. Inr (V_array v)))
      else if t = bson_type_binary then ret (bson_iterator_binary m p)
      else if t = bson_type_oid then ret (bindR (rd_n m p 12) (\<lambda>bs. Inr (V_oid bs)))
      else if t = bson_type_bool then ret (bindR (rd m p) (\<lambda>b. Inr (V_bool (b \<noteq> 0))))
      else if t = bson_type_datetime then
        ret (bindR (bson_read_u64le m p) (\<lambda>n. Inr (V_datetime n)))
      else if t = bson_type_regex then ret (bson_iterator_regex m it)
      else if t = bson_type_dbpointer then ret (bson_iterator_dbpointer m p)
      else if t = bson_type_code then
        ret (bindR (bson_iterator_stringlike m it) (\<lambda>s. Inr (V_code s)))
      else if t = bson_type_symbol then
        ret (bindR (bson_iterator_stringlike m it) (\<lambda>s. Inr (V_symbol s)))
      else if t = bson_type_codewscope then Inl Abort_called
      else if t = bson_type_int32 then ret (bindR (bson_read_u32le m p) (\<lambda>n. Inr (V_int32 n)))
      else if t = bson_type_timestamp then ret (bson_iterator_timestamp m p)
      else if t = bson_type_int64 then ret (bindR (bson_read_u64le m p) (\<lambda>n. Inr (V_int64 n)))
      else if t = bson_type_decimal128 then
        ret (bindR (rd_n m p 16) (\<lambda>bs. Inr (V_decimal128 bs)))
      else Inr None)))"

text \<open>\<^verbatim>\<open>bson_iterator::throw_if_error\<close>: \<open>Inl\<close> is the exception.\<close>

definition throw_if_error :: "bson_iterator \<Rightarrow> bson_iter_errc + unit" where
  "throw_if_error it =
     (case bson_iterator_get_error it of
        Some bson_iter_errc_okay \<Rightarrow> Inr ()
      | Some err \<Rightarrow> Inl err
      | None \<Rightarrow> Inr ())"


section \<open>What the construction of an iterator establishes\<close>

text \<open>The length of the key of an element at \<open>p\<close>.\<close>

definition key_len :: "bytes \<Rightarrow> int \<Rightarrow> int" where
  "key_len m p = int (length (cstr (drop (nat (p + 1)) m)))"

text \<open>The type tag found at \<open>p\<close>.\<close>

definition tag_at :: "bytes \<Rightarrow> int \<Rightarrow> byte" where
  "tag_at m p = m ! nat p"

text \<open>
  An iterator at an element: the element's window is inside the block, the key ends inside it,
  and the value with at least one more byte does too.
\<close>

definition elem_inv :: "bytes \<Rightarrow> bson_iterator \<Rightarrow> bool" where
  "elem_inv m it \<longleftrightarrow>
     (\<exists>p v. it_ptr it = Some p \<and> window m p (it_rlen it) \<and> it_keylen it = key_len m p \<and>
        0 \<le> v \<and> it_keylen it + 2 + v < it_rlen it \<and>
        bson_valsize m (tag_at m p) (p + it_keylen it + 2) (it_rlen it - it_keylen it - 2) = Inr v \<and>
        (tag_at m p = bson_type_document \<or> tag_at m p = bson_type_array \<longrightarrow>
           m ! nat (p + it_keylen it + 2 + v - 1) = 0))"

definition end_inv :: "bytes \<Rightarrow> bson_iterator \<Rightarrow> bool" where
  "end_inv m it \<longleftrightarrow>
     (\<exists>p. it = \<lparr>it_ptr = Some p, it_keylen = 0, it_rlen = 1\<rparr> \<and> window m p 1)"

definition error_inv :: "bson_iterator \<Rightarrow> bool" where
  "error_inv it \<longleftrightarrow> (\<exists>e. e \<noteq> bson_iter_errc_okay \<and> it = bson_iterator_error e)"

definition iter_inv :: "bytes \<Rightarrow> bson_iterator \<Rightarrow> bool" where
  "iter_inv m it \<longleftrightarrow> elem_inv m it \<or> end_inv m it \<or> error_inv it"

lemma key_len_window:
  assumes "window m p n" "1 < n"
  shows "c_strlen m (p + 1) = Inr (key_len m p)" "0 \<le> key_len m p" "key_len m p < n - 1"
    "m ! nat (p + 1 + key_len m p) = 0"
proof -
  have w: "window m (p + 1) (n - 1)" using window_shift [OF assms(1), of 1] assms(2) by simp
  let ?K = "drop (nat (p + 1)) m"
  have z: "0 \<in> set (take (nat (n - 1)) ?K)" by (rule window_zero [OF w])
  then have zK: "0 \<in> set ?K" using set_take_subset by fastforce
  show "c_strlen m (p + 1) = Inr (key_len m p)"
    using w zK by (auto simp: c_strlen_def key_len_def window_def)
  show "0 \<le> key_len m p" by (simp add: key_len_def)
  show less: "key_len m p < n - 1"
    using length_cstr_less [OF z] assms(2) by (auto simp: cstr_take_eq [OF z] key_len_def)
  show "m ! nat (p + 1 + key_len m p) = 0"
    using nth_length_cstr [OF zK] nth_drop_nat [of "p + 1" "key_len m p" m] w less
    by (simp add: key_len_def window_def)
qed

lemma iterator_at_eq:
  assumes "window m p n" "1 < n"
  shows "bson_iterator_at m p n =
    (if n - key_len m p - 2 < 1 then Inr (bson_iterator_error bson_iter_errc_short_read)
     else iterator_at_value m p n (tag_at m p) (key_len m p) (n - key_len m p - 2))"
proof -
  note k = key_len_window [OF assms]
  have "rd m p = Inr (tag_at m p)" "rd m (p + (n - 1)) = Inr 0"
    using assms by (auto simp: window_def tag_at_def add_diff_eq)
  moreover have "rd m (p + 1 + key_len m p) = Inr 0"
    using k assms by (auto simp: window_def)
  moreover have "n - 1 - key_len m p - 1 = n - key_len m p - 2" by simp
  ultimately show ?thesis
    using k assms by (simp add: bson_iterator_at_def window_def Let_def)
qed

lemma iterator_at_end:
  assumes "window m p 1"
  shows "bson_iterator_at m p 1 = Inr \<lparr>it_ptr = Some p, it_keylen = 0, it_rlen = 1\<rparr>"
  using assms by (simp add: bson_iterator_at_def window_def)

text \<open>The types whose size check is skipped have a fixed size of at most 16 bytes.\<close>

lemma skip_size_fixed:
  assumes "skip_size_check t"
  shows "\<not> varsize_pick ! unat t" "const_sizes ! unat t \<le> 16" "t \<noteq> bson_type_document"
    "t \<noteq> bson_type_array"
  using assms
  by (auto simp: skip_size_check_def varsize_pick_def const_sizes_def bson_type_defs)

lemma skip_size_valsize:
  assumes "skip_size_check t" "16 < n" "n \<le> INT32_MAX"
  shows "bson_valsize m t p n = Inr (const_sizes ! unat t)"
  using skip_size_fixed [OF assms(1)] assms(2,3) const_sizes_range [of t]
  by (simp add: valsize_eq_const valsize_check_ok)

lemma valsize_codes: "bson_valsize m t p n = Inr v \<Longrightarrow> window m p n \<Longrightarrow> v < 0 \<Longrightarrow>
   error_inv (iterator_error_code v)"
proof -
  assume v: "bson_valsize m t p n = Inr v" "window m p n" "v < 0"
  have "neg_prefix m t p n = False" using valsize_window [OF v(2), of t] v(1) by (auto split: if_splits)
  then have "v = - 1 \<or> v = - 2 \<or> v = - 3" using valsize_window [OF v(2), of t] v by auto
  then show ?thesis
    unfolding error_inv_def iterator_error_code_def bson_iterator_error_def
    using iter_errc_code.simps by (metis bson_iter_errc.distinct(1,3,5) minus_minus)
qed

text \<open>
  The size check that is skipped would have succeeded, so the two ways through the function are
  one: the size of the value decides.
\<close>

lemma iterator_at_checked:
  fixes m p n
  defines "t \<equiv> tag_at m p" and "vp \<equiv> p + key_len m p + 2" and "vn \<equiv> n - key_len m p - 2"
    and "it \<equiv> \<lparr>it_ptr = Some p, it_keylen = key_len m p, it_rlen = n\<rparr>"
  assumes w: "window m p n" "1 < n" and vn: "1 \<le> vn"
  shows "bson_iterator_at m p n = bindR (bson_valsize m t vp vn) (\<lambda>vallen.
      if vallen < 0 then Inr (iterator_error_code vallen)
      else if t = bson_type_document \<or> t = bson_type_array then
        bindR (rd m (vp + (vallen - 1))) (\<lambda>b.
          if b \<noteq> 0 then Inr (bson_iterator_error bson_iter_errc_invalid_document) else Inr it)
      else Inr it)"
proof -
  have ptr: "p + 1 + (key_len m p + 1) = vp" by (simp add: vp_def)
  have "vn \<le> INT32_MAX" using w key_len_window(2) [OF w] by (simp add: window_def vn_def)
  then have skip: "bson_valsize m t vp vn = Inr (const_sizes ! unat t)"
    "t \<noteq> bson_type_document" "t \<noteq> bson_type_array" "0 \<le> const_sizes ! unat t"
    if "skip_size_check t" "16 < vn"
    using that skip_size_valsize skip_size_fixed const_sizes_range by auto
  have "bson_iterator_at m p n = iterator_at_value m p n t (key_len m p) vn"
    using vn by (simp add: iterator_at_eq [OF w] vn_def t_def)
  then show ?thesis
    unfolding it_def using skip by (cases "skip_size_check t \<and> 16 < vn")
      (auto simp: iterator_at_value_def Let_def ptr)
qed

lemma elem_invI:
  fixes m p n
  defines "t \<equiv> tag_at m p" and "vp \<equiv> p + key_len m p + 2" and "vn \<equiv> n - key_len m p - 2"
  assumes w: "window m p n" "1 < n" "window m vp vn"
    and v: "bson_valsize m t vp vn = Inr v" "0 \<le> v"
      "t = bson_type_document \<or> t = bson_type_array \<longrightarrow> m ! nat (vp + v - 1) = 0"
  shows "elem_inv m \<lparr>it_ptr = Some p, it_keylen = key_len m p, it_rlen = n\<rparr>"
proof -
  have "v < vn"
    using valsize_window [OF w(3), of t] v(1,2) by (auto split: if_splits)
  then show ?thesis
    using v w unfolding elem_inv_def t_def vp_def vn_def
    by (intro exI [of _ p] exI [of _ v]) (auto simp: algebra_simps)
qed

text \<open>
  \<^verbatim>\<open>_bson_iterator_at\<close> over any window: it accesses nothing outside the block, it aborts only on
  a negative length prefix, and otherwise the iterator satisfies the invariant.
\<close>

lemma iterator_at_cases:
  assumes w: "window m p n"
  obtains (abort) "bson_iterator_at m p n = Inl Assert_fail" "1 < n"
      "neg_prefix m (tag_at m p) (p + key_len m p + 2) (n - key_len m p - 2)"
  | (fin) "n = 1" "bson_iterator_at m p n = Inr \<lparr>it_ptr = Some p, it_keylen = 0, it_rlen = 1\<rparr>"
  | (err) it where "bson_iterator_at m p n = Inr it" "error_inv it"
  | (elem) it where "bson_iterator_at m p n = Inr it" "elem_inv m it"
      "it = \<lparr>it_ptr = Some p, it_keylen = key_len m p, it_rlen = n\<rparr>"
proof -
  let ?t = "tag_at m p" and ?vp = "p + key_len m p + 2" and ?vn = "n - key_len m p - 2"
  consider "n = 1" | "1 < n" "?vn < 1" | "1 < n" "1 \<le> ?vn" using w by (fastforce simp: window_def)
  then show ?thesis
  proof cases
    case 1
    with w fin show ?thesis by (simp add: iterator_at_end)
  next
    case 2
    then show ?thesis by (intro err) (auto simp: iterator_at_eq [OF w] error_inv_def)
  next
    case 3
    note k = key_len_window [OF w 3(1)] and at = iterator_at_checked [OF w 3]
    have wv: "window m ?vp ?vn"
      using window_shift [OF w, of "key_len m p + 2"] 3 k by (simp add: algebra_simps)
    show ?thesis
    proof (cases "neg_prefix m ?t ?vp ?vn")
      case True
      then show ?thesis using valsize_window [OF wv, of ?t] at 3 by (intro abort) auto
    next
      case False
      then obtain v where v: "bson_valsize m ?t ?vp ?vn = Inr v"
        "v = - 1 \<or> v = - 2 \<or> v = - 3 \<or> 0 \<le> v \<and> v < ?vn"
        using valsize_window [OF wv, of ?t] by auto
      have r: "rd m (?vp + (v - 1)) = Inr (m ! nat (?vp + v - 1))" if "0 \<le> v"
        using v(2) that window_bounds [OF wv] window_bounds [OF w] k by (simp add: add_diff_eq)
      consider "v < 0" | "0 \<le> v" "?t = bson_type_document \<or> ?t = bson_type_array"
          "m ! nat (?vp + v - 1) \<noteq> 0"
        | "0 \<le> v" "?t = bson_type_document \<or> ?t = bson_type_array \<longrightarrow> m ! nat (?vp + v - 1) = 0"
        by linarith
      then show ?thesis
      proof cases
        case 1
        then show ?thesis using valsize_codes [OF v(1) wv] by (intro err) (auto simp: at v(1))
      next
        case 2
        then show ?thesis using r by (intro err) (auto simp: at v(1) error_inv_def)
      next
        case 3
        then show ?thesis
          using r elem_invI [OF w \<open>1 < n\<close> wv v(1)] by (intro elem) (auto simp: at v(1))
      qed
    qed
  qed
qed

section \<open>Advancing\<close>

lemma iter_inv_at: "window m p n \<Longrightarrow> bson_iterator_at m p n = Inr it \<Longrightarrow> iter_inv m it"
  by (rule iterator_at_cases [of m p n]) (auto simp: iter_inv_def end_inv_def)

text \<open>
  What an iterator at an element yields without any further check:
  \<^verbatim>\<open>bson_iterator_data_size\<close> recomputes the size without a bound and finds the same.
\<close>

lemma elem_inv_data_size:
  assumes "elem_inv m it"
  obtains p v where "it_ptr it = Some p" "bson_iterator_data_size m it = Inr (it_keylen it + 2 + v)"
    "window m (p + it_keylen it + 2) (it_rlen it - it_keylen it - 2)"
    "bson_valsize m (tag_at m p) (p + it_keylen it + 2) (it_rlen it - it_keylen it - 2) = Inr v"
    "bson_valsize m (tag_at m p) (p + it_keylen it + 2) INT32_MAX = Inr v"
    "0 \<le> v" "0 \<le> it_keylen it" "it_keylen it + 2 + v < it_rlen it" "window m p (it_rlen it)"
    "it_keylen it = key_len m p"
proof -
  from assms obtain p v where i: "it_ptr it = Some p" "window m p (it_rlen it)" "0 \<le> v"
    "it_keylen it = key_len m p" "it_keylen it + 2 + v < it_rlen it"
    "bson_valsize m (tag_at m p) (p + it_keylen it + 2) (it_rlen it - it_keylen it - 2) = Inr v"
    by (auto simp: elem_inv_def)
  have k: "0 \<le> it_keylen it" using i(4) by (simp add: key_len_def)
  have wv: "window m (p + it_keylen it + 2) (it_rlen it - it_keylen it - 2)"
    using window_shift [OF i(2), of "it_keylen it + 2"] i(3,5) k by (simp add: algebra_simps)
  then have i': "bson_valsize m (tag_at m p) (p + it_keylen it + 2) INT32_MAX = Inr v"
    using valsize_stable [OF wv i(6,3), of INT32_MAX] window_bounds [OF wv] by simp
  have "it_rlen it \<le> INT32_MAX" "rd m p = Inr (tag_at m p)"
    using i(2) by (auto simp: window_def tag_at_def)
  then have "bson_iterator_data_size m it = Inr (it_keylen it + 2 + v)"
    using i i' k by (simp add: bson_iterator_data_size_def bson_stop_def bson_iterator_type_def
        it_deref_def Let_def add.commute add.left_commute)
  with i i' wv k that show thesis by blast
qed

text \<open>
  Advancing from an element: the next window is a proper suffix of this one, and its iterator is
  constructed with the same checks.
\<close>

lemma next_window:
  assumes "elem_inv m it"
  obtains p n where "bson_next m it = bson_iterator_at m p n" "window m p n"
    "0 < n" "n < it_rlen it" "\<exists>q. it_ptr it = Some q \<and> p + n = q + it_rlen it"
  using assms
proof (rule elem_inv_data_size)
  fix p v
  assume a: "it_ptr it = Some p" "bson_iterator_data_size m it = Inr (it_keylen it + 2 + v)"
    "0 \<le> v" "0 \<le> it_keylen it" "it_keylen it + 2 + v < it_rlen it" "window m p (it_rlen it)"
  then have "bson_next m it =
      bson_iterator_at m (p + (it_keylen it + 2 + v)) (it_rlen it - (it_keylen it + 2 + v))"
    by (simp add: bson_next_def it_deref_def Let_def)
  moreover have "window m (p + (it_keylen it + 2 + v)) (it_rlen it - (it_keylen it + 2 + v))"
    using window_shift [OF a(6)] a(3-5) by simp
  ultimately show thesis
    using that a(1,3-5) by fastforce
qed

section \<open>The loops over a document\<close>

text \<open>An iterator of the range that ends at the terminator \<open>e\<close>.\<close>

definition range_inv :: "bytes \<Rightarrow> int \<Rightarrow> bson_iterator \<Rightarrow> bool" where
  "range_inv m e it \<longleftrightarrow> iter_inv m it \<and> (\<forall>p. it_ptr it = Some p \<longrightarrow> p + it_rlen it - 1 = e)"

text \<open>
  What the loop finds at \<open>p\<close>, in a document that ends at \<open>e\<close>: an element whose type has a length prefix, and
  the prefix is there and is negative.
\<close>

definition has_length_prefix :: "byte \<Rightarrow> bool" where
  "has_length_prefix t \<longleftrightarrow>
     t \<in> {bson_type_utf8, bson_type_document, bson_type_array, bson_type_binary, bson_type_dbpointer, bson_type_code,
       bson_type_symbol, bson_type_codewscope}"

definition negative_length_at :: "bytes \<Rightarrow> int \<Rightarrow> int \<Rightarrow> bool" where
  "negative_length_at m e p \<longleftrightarrow>
     p < e \<and> has_length_prefix (tag_at m p) \<and> p + key_len m p + 2 + 4 \<le> e \<and> doc_len m (p + key_len m p + 2) < 0"

lemma varsize_pick_prefix: "varsize_pick ! unat t \<longleftrightarrow> has_length_prefix t"
proof -
  have "varsize_pick ! i \<longleftrightarrow> i \<in> {2, 3, 4, 5, 12, 13, 14, 15}" if "i < 256" for i
  proof (cases "i < 20")
    case True
    then show ?thesis by (auto simp: varsize_pick_def nth_append numeral_eq_Suc less_Suc_eq)
  qed (use that in \<open>auto simp: varsize_pick_def nth_append\<close>)
  then have "varsize_pick ! unat t \<longleftrightarrow> unat t \<in> {2, 3, 4, 5, 12, 13, 14, 15}" using unat_byte_less by blast
  also have "\<dots> \<longleftrightarrow> has_length_prefix t"
    by (simp add: has_length_prefix_def bson_type_defs word_unat_eq_iff)
  finally show ?thesis .
qed

lemma negative_length_atI:
  assumes "neg_prefix m (tag_at m p) (p + key_len m p + 2) (n - key_len m p - 2)" "1 < n"
  shows "negative_length_at m (p + n - 1) p"
  using assms by (auto simp: neg_prefix_def negative_length_at_def varsize_pick_prefix)

lemma error_inv_facts:
  assumes "error_inv it"
  shows "it_ptr it = None" "it_rlen it < 0" "bson_iterator_get_error it \<noteq> Some bson_iter_errc_okay"
    "\<not> elem_inv m it" "\<not> end_inv m it"
proof -
  obtain e where e: "e \<noteq> bson_iter_errc_okay" "it = bson_iterator_error e"
    using assms by (auto simp: error_inv_def)
  moreover have "0 < iter_errc_code e" using e by (cases e) simp_all
  ultimately show "it_ptr it = None" "it_rlen it < 0"
    "bson_iterator_get_error it \<noteq> Some bson_iter_errc_okay" "\<not> elem_inv m it" "\<not> end_inv m it"
    by (auto simp: bson_iterator_error_def bson_iterator_get_error_def elem_inv_def end_inv_def)
qed

lemma elem_inv_facts:
  assumes "elem_inv m it"
  shows "\<exists>p. it_ptr it = Some p" "1 < it_rlen it" "0 \<le> it_keylen it"
    "bson_iterator_get_error it = Some bson_iter_errc_okay" "\<not> bson_stop it" "\<not> error_inv it"
    "\<not> end_inv m it"
  using assms by (auto simp: elem_inv_def bson_iterator_get_error_def key_len_def bson_stop_def
      end_inv_def error_inv_def bson_iterator_error_def)

lemma range_inv_at:
  assumes "window m p n"
  obtains "bson_iterator_at m p n = Inl Assert_fail"
  | it where "bson_iterator_at m p n = Inr it" "range_inv m (p + n - 1) it" "it_rlen it \<le> n"
proof (rule iterator_at_cases [OF assms])
  assume "bson_iterator_at m p n = Inl Assert_fail" "1 < n"
    "neg_prefix m (tag_at m p) (p + key_len m p + 2) (n - key_len m p - 2)"
  with that(1) show thesis by simp
next
  fix it assume "bson_iterator_at m p n = Inr it" "error_inv it"
  with that(2) error_inv_facts(1,2) [of it] assms show thesis
    by (force simp: range_inv_def iter_inv_def window_def)
qed (use assms that(2) in \<open>auto simp: range_inv_def iter_inv_def end_inv_def\<close>)

lemma range_inv_next:
  assumes "range_inv m e it" "elem_inv m it"
  obtains "bson_next m it = Inl Assert_fail"
  | it' where "bson_next m it = Inr it'" "range_inv m e it'" "it_rlen it' < it_rlen it"
  using assms(2)
proof (rule next_window)
  fix p n
  assume a: "bson_next m it = bson_iterator_at m p n" "window m p n" "n < it_rlen it"
    "\<exists>q. it_ptr it = Some q \<and> p + n = q + it_rlen it"
  then have e: "p + n - 1 = e" using assms(1) by (auto simp: range_inv_def)
  from a(2) show thesis
  proof (rule range_inv_at)
    fix it' assume "bson_iterator_at m p n = Inr it'" "range_inv m (p + n - 1) it'" "it_rlen it' \<le> n"
    with a e that(2) [of it'] show thesis by simp
  qed (use a that(1) in simp)
qed

lemma range_inv_cases:
  assumes "range_inv m e it"
  obtains (elem) "elem_inv m it" "it_ptr it \<noteq> Some e"
    "bson_iterator_get_error it = Some bson_iter_errc_okay"
  | (fin) "it_ptr it = Some e" "\<not> elem_inv m it"
  | (err) "error_inv it" "it_ptr it \<noteq> Some e"
    "bson_iterator_get_error it \<noteq> Some bson_iter_errc_okay"
proof -
  consider "elem_inv m it" | "end_inv m it" | "error_inv it"
    using assms by (auto simp: range_inv_def iter_inv_def)
  then show thesis
  proof cases
    case 1
    with elem_inv_facts [OF 1] assms elem show ?thesis by (auto simp: range_inv_def)
  next
    case 2
    then have "it_ptr it = Some e" "\<not> elem_inv m it"
      using elem_inv_facts(7) [of m it] assms by (auto simp: range_inv_def end_inv_def)
    with fin show ?thesis .
  next
    case 3
    with error_inv_facts [OF 3] err show ?thesis by simp
  qed
qed

lemma iterator_at_elem_inv:
  assumes "window m p n" "bson_iterator_at m p n = Inr it" "1 < it_rlen it"
  shows "elem_inv m it"
  using iter_inv_at [OF assms(1,2)] assms(3) error_inv_facts(2) [of it]
  by (auto simp: iter_inv_def end_inv_def)

text \<open>
  Adjacent elements, from \<open>p\<close> up to \<open>q\<close>, of a document that ends at \<open>e\<close>: each starts where the one before it
  ends.
\<close>

fun adjacent :: "bytes \<Rightarrow> int \<Rightarrow> int \<Rightarrow> bson_iterator list \<Rightarrow> int \<Rightarrow> bool" where
  "adjacent m e p [] q \<longleftrightarrow> q = p"
| "adjacent m e p (it # its) q \<longleftrightarrow>
     elem_inv m it \<and> it_ptr it = Some p \<and> p + it_rlen it - 1 = e \<and>
     (\<exists>n>0. bson_iterator_data_size m it = Inr n \<and> adjacent m e (p + n) its q)"

text \<open>The loop from an offset on: constructing the iterator, then looping.\<close>

definition loop_at :: "nat \<Rightarrow> bytes \<Rightarrow> int \<Rightarrow> int \<Rightarrow> bson_iterator \<Rightarrow> bson_iterator list res option" where
  "loop_at fuel m p n sentinel =
     (case bson_iterator_at m p n of Inl f \<Rightarrow> Some (Inl f) | Inr it \<Rightarrow> bson_foreach_subrange fuel m it sentinel)"

lemma loop_at_trace:
  assumes "window m p n" "p + n - 1 = e" "it_ptr sentinel = Some e" "n \<le> int fuel"
  shows "\<exists>els q. adjacent m e p els q \<and>
    (q = e \<and> loop_at fuel m p n sentinel = Some (Inr els) \<or>
     q < e \<and> (\<exists>err. error_inv err \<and> bson_iterator_at m q (e + 1 - q) = Inr err \<and>
       loop_at fuel m p n sentinel = Some (Inr (els @ [err]))) \<or>
     negative_length_at m e q \<and> loop_at fuel m p n sentinel = Some (Inl Assert_fail))"
  using assms
proof (induction fuel arbitrary: p n)
  case (Suc fuel)
  have n: "e + 1 - p = n" using Suc.prems(2) by simp
  from Suc.prems(1) show ?case
  proof (cases rule: iterator_at_cases)
    case abort
    then have "negative_length_at m e p"
      using negative_length_atI [OF abort(3,2)] Suc.prems(2) by simp
    with abort show ?thesis by (intro exI [of _ "[]"] exI [of _ p]) (simp add: loop_at_def)
  next
    case fin
    then show ?thesis
      using Suc.prems(2,3) by (intro exI [of _ "[]"] exI [of _ p]) (simp add: loop_at_def bson_iterator_eq_def)
  next
    case (err it)
    have "p < e"
    proof (rule ccontr)
      assume "\<not> p < e"
      then have "n = 1" using Suc.prems(1,2) by (auto simp: window_def)
      with err Suc.prems(1) show False
        using error_inv_facts(1) [OF err(2)] by (simp add: iterator_at_end) (metis bson_iterator.select_convs(1) option.distinct(1))
    qed
    with err error_inv_facts(1,3) [OF err(2)] Suc.prems(3) show ?thesis
      by (intro exI [of _ "[]"] exI [of _ p]) (auto simp: loop_at_def bson_iterator_eq_def n)
  next
    case (elem it)
    have it: "it_ptr it = Some p" "it_rlen it = n" by (simp_all add: elem(3))
    from elem(2) obtain k v where d: "bson_iterator_data_size m it = Inr k" "0 < k" "k < n"
      "bson_next m it = bson_iterator_at m (p + k) (n - k)" "window m (p + k) (n - k)"
    proof (rule elem_inv_data_size)
      fix p' v
      assume a: "it_ptr it = Some p'" "bson_iterator_data_size m it = Inr (it_keylen it + 2 + v)" "0 \<le> v"
        "0 \<le> it_keylen it" "it_keylen it + 2 + v < it_rlen it" "window m p' (it_rlen it)"
      show thesis
        using a it window_shift [OF a(6), of "it_keylen it + 2 + v"]
        by (intro that [of "it_keylen it + 2 + v"]) (simp_all add: bson_next_def it_deref_def Let_def)
    qed
    have "p \<noteq> e" using elem_inv_facts(2) [OF elem(2)] it Suc.prems(2) by simp
    then have step: "loop_at (Suc fuel) m p n sentinel =
        map_option (\<lambda>r. bindR r (\<lambda>its. Inr (it # its))) (loop_at fuel m (p + k) (n - k) sentinel)"
      using elem(1) d(4) it Suc.prems(3) elem_inv_facts(4) [OF elem(2)]
      by (simp add: loop_at_def bson_iterator_eq_def split: sum.split)
    have "p + k + (n - k) - 1 = e" "n - k \<le> int fuel" using d(2) Suc.prems(2,4) by simp_all
    from Suc.IH [OF d(5) this(1) Suc.prems(3) this(2)] obtain els q where q: "adjacent m e (p + k) els q"
      "q = e \<and> loop_at fuel m (p + k) (n - k) sentinel = Some (Inr els) \<or>
       q < e \<and> (\<exists>err. error_inv err \<and> bson_iterator_at m q (e + 1 - q) = Inr err \<and>
         loop_at fuel m (p + k) (n - k) sentinel = Some (Inr (els @ [err]))) \<or>
       negative_length_at m e q \<and> loop_at fuel m (p + k) (n - k) sentinel = Some (Inl Assert_fail)" by blast
    have "adjacent m e p (it # els) q" using elem(2) it Suc.prems(2) d(1,2) q(1) by auto
    with q(2) show ?thesis
      by (intro exI [of _ "it # els"] exI [of _ q] conjI) (auto simp: step)
  qed
qed (simp add: window_def)

lemma doc_at_window: "doc_at m d \<Longrightarrow> window m (d + 4) (doc_len m d - 4)"
  using doc_len_range(2) [of m d] by (auto simp: doc_at_def window_def)

lemma bson_end_doc:
  assumes "doc_at m d"
  shows "bson_end m (Some d) =
    Inr \<lparr>it_ptr = Some (d + doc_len m d - 1), it_keylen = 0, it_rlen = 1\<rparr>"
proof -
  obtain u where u: "bson_read_u32le m d = Inr u" "to_i32 u = doc_len m d"
    using doc_at_read [OF assms] by blast
  then have "uint u = doc_len m d"
    using assms uint_word_of_nonneg_i32 [of "doc_len m d"] doc_len_range(2) [of m d]
    by (simp add: doc_at_def to_i32_def flip: u(2))
  moreover have "window m (d + doc_len m d - 1) 1"
    using assms by (auto simp: doc_at_def window_def)
  ultimately show ?thesis using u by (simp add: bson_end_def iterator_at_end)
qed

lemma bson_begin_doc:
  assumes "doc_at m d"
  shows "bson_begin m (Some d) = bson_iterator_at m (d + 4) (doc_len m d - 4)"
  using doc_at_read [OF assms] doc_at_window [OF assms] doc_len_range(2) [of m d]
  by (auto simp: bson_begin_def window_def Let_def)

lemma bson_foreach_doc:
  assumes "doc_at m d"
  shows "bson_foreach fuel m (Some d) =
    (case bson_iterator_at m (d + 4) (doc_len m d - 4) of Inl e \<Rightarrow> Some (Inl e)
     | Inr first \<Rightarrow> bson_foreach_subrange fuel m first
         \<lparr>it_ptr = Some (d + doc_len m d - 1), it_keylen = 0, it_rlen = 1\<rparr>)"
  by (simp add: bson_foreach_def bson_end_doc [OF assms] bson_begin_doc [OF assms]
      split: sum.split)

text \<open>The key of an iterator is a given string.\<close>

definition key_is :: "bytes \<Rightarrow> bytes \<Rightarrow> bson_iterator \<Rightarrow> bool" where
  "key_is m key it \<longleftrightarrow>
     bson_iterator_get_error it = Some bson_iter_errc_okay \<and> bson_key m it = Inr (Some key)"

lemma elem_key:
  assumes "elem_inv m it"
  obtains p where "it_ptr it = Some p" "bson_key m it = Inr (Some (cstr (drop (nat (p + 1)) m)))"
    "it_keylen it = int (length (cstr (drop (nat (p + 1)) m)))"
proof -
  from assms obtain p v where i: "it_ptr it = Some p" "window m p (it_rlen it)" "0 \<le> v"
    "it_keylen it = key_len m p" "it_keylen it + 2 + v < it_rlen it"
    by (auto simp: elem_inv_def)
  let ?k = "cstr (drop (nat (p + 1)) m)"
  have "take (length ?k) (drop (nat (p + 1)) m) = ?k"
    by (simp add: cstr_def takeWhile_eq_take [symmetric])
  then have "rd_n m (p + 1) (length ?k) = Inr ?k"
    using i by (simp add: rd_n_in window_def key_len_def)
  then show thesis
    using i that by (simp add: bson_key_def key_len_def)
qed

lemma key_eq_elem:
  assumes "elem_inv m it"
  shows "int (length key) \<le> INT32_MAX \<Longrightarrow> bson_key_eq m it key = Inr (key_is m key it)"
  using assms
proof (rule elem_key)
  fix p
  let ?k = "cstr (drop (nat (p + 1)) m)"
  assume a: "it_ptr it = Some p" "bson_key m it = Inr (Some ?k)" "it_keylen it = int (length ?k)"
    and l: "int (length key) \<le> INT32_MAX"
  have r: "rd_n m (p + 1) (length ?k) = Inr ?k"
    using a by (auto simp: bson_key_def res_simps)
  have "key_is m key it \<longleftrightarrow> key = ?k"
    using a(2) elem_inv_facts(4) [OF assms] by (auto simp: key_is_def)
  then show ?thesis
    using a(1,3) l r by (auto simp: bson_key_eq_def it_deref_def)
qed

text \<open>The early return of \<^verbatim>\<open>_bson_find\<close> finds the first matching iterator of the whole loop.\<close>

lemma find_loop_first:
  assumes "range_inv m e it" "it_ptr sentinel = Some e" "int (length key) \<le> INT32_MAX"
    and "bson_foreach_subrange fuel m it sentinel = Some (Inr its)"
  shows "bson_find_loop fuel m it sentinel key = Some (Inr (find (key_is m key) its))"
  using assms
proof (induction fuel arbitrary: it its)
  case (Suc fuel)
  from Suc.prems(1) show ?case
  proof (cases rule: range_inv_cases)
    case elem
    from range_inv_next [OF Suc.prems(1) elem(1)] show ?thesis
    proof cases
      case 1
      with elem Suc.prems show ?thesis by (simp add: bson_iterator_eq_def)
    next
      case (2 it')
      with Suc.prems elem obtain its' where r: "its = it # its'"
        "bson_foreach_subrange fuel m it' sentinel = Some (Inr its')"
        by (auto simp: bson_iterator_eq_def res_simps)
      have "bson_find_loop fuel m it' sentinel key = Some (Inr (find (key_is m key) its'))"
        using Suc.IH [OF 2(2) Suc.prems(2,3) r(2)] .
      with r 2 elem Suc.prems(2) key_eq_elem [OF elem(1) Suc.prems(3)] show ?thesis
        by (cases "key_is m key it") (simp_all add: bson_iterator_eq_def)
    qed
  next
    case fin
    with Suc.prems show ?thesis by (auto simp: bson_iterator_eq_def)
  next
    case err
    with Suc.prems show ?thesis by (auto simp: bson_iterator_eq_def key_is_def)
  qed
qed simp

section \<open>Properties\<close>

lemma foreach_example:
  "bson_foreach 8 [8, 0, 0, 0, 10, 97, 0, 0] (Some 0) =
     Some (Inr [\<lparr>it_ptr = Some 4, it_keylen = 1, it_rlen = 4\<rparr>])"
  by code_simp

text \<open>
  C1: looping over any validated document, whatever its bytes, terminates within as many rounds as the document has
  bytes and reads nothing outside the block. The body sees adjacent elements from the first byte after the header on,
  and either they reach the terminator of the document, or one errant iterator follows them, for the bytes where
  they end, or the program aborts there, since the next element of the document declares a negative length.
\<close>

theorem foreach_total_and_safe:
  assumes "doc_at m d"
  shows "\<exists>els q. adjacent m (d + doc_len m d - 1) (d + 4) els q \<and>
    (q = d + doc_len m d - 1 \<and> bson_foreach (nat (doc_len m d)) m (Some d) = Some (Inr els) \<or>
     q < d + doc_len m d - 1 \<and>
       (\<exists>err. error_inv err \<and> bson_iterator_at m q (d + doc_len m d - q) = Inr err \<and>
         bson_foreach (nat (doc_len m d)) m (Some d) = Some (Inr (els @ [err]))) \<or>
     negative_length_at m (d + doc_len m d - 1) q \<and>
       bson_foreach (nat (doc_len m d)) m (Some d) = Some (Inl Assert_fail))"
proof -
  let ?s = "\<lparr>it_ptr = Some (d + doc_len m d - 1), it_keylen = 0, it_rlen = 1\<rparr>"
  have "bson_foreach (nat (doc_len m d)) m (Some d) = loop_at (nat (doc_len m d)) m (d + 4) (doc_len m d - 4) ?s"
    by (simp add: bson_foreach_doc [OF assms] loop_at_def)
  then show ?thesis
    using loop_at_trace [OF doc_at_window [OF assms], of "d + doc_len m d - 1" ?s "nat (doc_len m d)"] by simp
qed

theorem foreach_total_and_safe_witness:
  "bson_foreach 8 [8, 0, 0, 0, 10, 97, 0, 0] (Some 0) = Some (Inr [\<lparr>it_ptr = Some 4, it_keylen = 1, it_rlen = 4\<rparr>]) \<and>
   adjacent [8, 0, 0, 0, 10, 97, 0, 0] 7 4 [\<lparr>it_ptr = Some 4, it_keylen = 1, it_rlen = 4\<rparr>] 7"
proof -
  let ?m = "[8, 0, 0, 0, 10, 97, 0, 0] :: bytes" and ?it = "\<lparr>it_ptr = Some 4, it_keylen = 1, it_rlen = 4\<rparr>"
  have d: "doc_len ?m 0 = 8" by (simp add: doc_len_def to_i32_def)
  then have "doc_at ?m 0" by (simp add: doc_at_def)
  from foreach_total_and_safe [OF this, unfolded d] foreach_example obtain els q
    where q: "adjacent ?m 7 4 els q" "q = 7 \<and> els = [?it] \<or> (\<exists>err. error_inv err \<and> [?it] = els @ [err])" by auto
  have "\<not> error_inv ?it" by (auto dest: error_inv_facts(1))
  then have "els = [?it] \<and> q = 7" using q(2) by (cases els) auto
  with q(1) foreach_example show ?thesis by simp
qed



end
