(* ===== verification/Bson_Elements.thy ===== *)
theory Bson_Elements
  imports Bson_Iterator
begin

text \<open>
  The abstract document: a list of elements, each a type tag, a key and the bytes of its value,
  with its encoding as bytes. \<open>standard_value\<close> says when the bytes are a value of the tag, in the
  sense of the BSON standard; that the size tables of \<^verbatim>\<open>detail/iter.h\<close> agree with it, for all types but
  two, is shown here. The lemmas show that the iteration of
  \<^verbatim>\<open>iterator.h\<close> over the encoding visits exactly the elements, in order.
\<close>

section \<open>Encoded elements\<close>

type_synonym elem = "byte \<times> bytes \<times> bytes"

definition elem_bytes :: "elem \<Rightarrow> bytes" where
  "elem_bytes = (\<lambda>(t, k, v). t # k @ 0 # v)"

definition elems_bytes :: "elem list \<Rightarrow> bytes" where
  "elems_bytes es = concat (map elem_bytes es)"

definition doc_bytes :: "elem list \<Rightarrow> bytes" where
  "doc_bytes es = u32le (word_of_nat (length (elems_bytes es) + 5)) @ elems_bytes es @ [0]"

definition regex_bytes :: "bytes \<Rightarrow> bool" where
  "regex_bytes v \<longleftrightarrow>
     0 \<in> set v \<and>
     (let r = drop (Suc (length (cstr v))) v in 0 \<in> set r \<and> Suc (length (cstr r)) = length r)"

section \<open>Values in the sense of the BSON standard\<close>

text \<open>
  The standard (bsonspec.org), independent of the tables of \<^verbatim>\<open>detail/iter.h\<close>: a string is its
  length with the terminator, its characters and a null; a document is its own length, its elements and a
  null; binary data is a length, a subtype and as many bytes.
\<close>

definition standard_string :: "bytes \<Rightarrow> bool" where
  "standard_string v \<longleftrightarrow> 5 \<le> length v \<and> doc_len v 0 = int (length v) - 4 \<and> last v = 0"

definition standard_document :: "bytes \<Rightarrow> bool" where
  "standard_document v \<longleftrightarrow> 5 \<le> length v \<and> doc_len v 0 = int (length v) \<and> last v = 0"

definition standard_binary :: "bytes \<Rightarrow> bool" where
  "standard_binary v \<longleftrightarrow> 5 \<le> length v \<and> doc_len v 0 = int (length v) - 5"

text \<open>A database pointer is a string and twelve bytes, code with scope a length, a string and a document.\<close>

definition standard_dbpointer :: "bytes \<Rightarrow> bool" where
  "standard_dbpointer v \<longleftrightarrow> 12 < length v \<and> standard_string (take (length v - 12) v)"

definition standard_codewscope :: "bytes \<Rightarrow> bool" where
  "standard_codewscope v \<longleftrightarrow>
     doc_len v 0 = int (length v) \<and>
     (let s = drop 4 v; n = nat (doc_len s 0) + 4
      in n < length s \<and> standard_string (take n s) \<and> standard_document (drop n s))"

definition standard_sizes :: "(byte \<times> nat) list" where
  "standard_sizes =
     [(bson_type_double, 8), (bson_type_undefined, 0), (bson_type_oid, 12), (bson_type_bool, 1),
      (bson_type_datetime, 8), (bson_type_null, 0), (bson_type_int32, 4), (bson_type_timestamp, 8),
      (bson_type_int64, 8), (bson_type_decimal128, 16), (bson_type_maxkey, 0), (bson_type_minkey, 0)]"

definition standard_value :: "byte \<Rightarrow> bytes \<Rightarrow> bool" where
  "standard_value t v \<longleftrightarrow>
     (if t = bson_type_utf8 \<or> t = bson_type_code \<or> t = bson_type_symbol then standard_string v
      else if t = bson_type_document \<or> t = bson_type_array then standard_document v
      else if t = bson_type_binary then standard_binary v
      else if t = bson_type_regex then regex_bytes v
      else if t = bson_type_dbpointer then standard_dbpointer v
      else if t = bson_type_codewscope then standard_codewscope v
      else map_of standard_sizes t = Some (length v))"

text \<open>
  The values that the code sizes correctly: those of the standard, of every type but two. It also takes the tag
  zero inside a document for an element without a value.
\<close>

definition val_ok :: "byte \<Rightarrow> bytes \<Rightarrow> bool" where
  "val_ok t v \<longleftrightarrow>
     standard_value t v \<and> t \<noteq> bson_type_dbpointer \<and> t \<noteq> bson_type_codewscope \<or> t = bson_type_eod \<and> v = []"

definition elem_ok :: "elem \<Rightarrow> bool" where
  "elem_ok = (\<lambda>(t, k, v). 0 \<notin> set k \<and> val_ok t v)"

text \<open>The table's answers for the types of values.\<close>

lemma varsize_pick_simps:
  "varsize_pick ! unat bson_type_utf8" "varsize_pick ! unat bson_type_document"
  "varsize_pick ! unat bson_type_array" "varsize_pick ! unat bson_type_binary"
  "varsize_pick ! unat bson_type_code" "varsize_pick ! unat bson_type_symbol"
  "\<not> varsize_pick ! unat bson_type_eod" "\<not> varsize_pick ! unat bson_type_double"
  "\<not> varsize_pick ! unat bson_type_undefined" "\<not> varsize_pick ! unat bson_type_oid"
  "\<not> varsize_pick ! unat bson_type_bool" "\<not> varsize_pick ! unat bson_type_datetime"
  "\<not> varsize_pick ! unat bson_type_null" "\<not> varsize_pick ! unat bson_type_int32"
  "\<not> varsize_pick ! unat bson_type_timestamp" "\<not> varsize_pick ! unat bson_type_int64"
  "\<not> varsize_pick ! unat bson_type_decimal128" "\<not> varsize_pick ! unat bson_type_maxkey"
  "\<not> varsize_pick ! unat bson_type_minkey"
  "varsize_pick ! unat bson_type_dbpointer" "varsize_pick ! unat bson_type_codewscope"
  by (simp_all add: varsize_pick_def bson_type_defs)

lemma const_sizes_simps:
  "const_sizes ! unat bson_type_utf8 = 4" "const_sizes ! unat bson_type_document = 0"
  "const_sizes ! unat bson_type_array = 0" "const_sizes ! unat bson_type_binary = 5"
  "const_sizes ! unat bson_type_code = 4" "const_sizes ! unat bson_type_symbol = 4"
  "const_sizes ! unat bson_type_eod = 0" "const_sizes ! unat bson_type_double = 8"
  "const_sizes ! unat bson_type_undefined = 0" "const_sizes ! unat bson_type_oid = 12"
  "const_sizes ! unat bson_type_bool = 1" "const_sizes ! unat bson_type_datetime = 8"
  "const_sizes ! unat bson_type_null = 0" "const_sizes ! unat bson_type_int32 = 4"
  "const_sizes ! unat bson_type_timestamp = 8" "const_sizes ! unat bson_type_int64 = 8"
  "const_sizes ! unat bson_type_decimal128 = 16" "const_sizes ! unat bson_type_maxkey = 0"
  "const_sizes ! unat bson_type_minkey = 0"
  "const_sizes ! unat bson_type_dbpointer = 12" "const_sizes ! unat bson_type_codewscope = 8"
  by (simp_all add: const_sizes_def bson_type_defs nth_append)

lemmas size_tables = varsize_pick_simps const_sizes_simps not_varsize_regex const_size_regex

lemma bson_type_distinct:
  "distinct [bson_type_eod, bson_type_double, bson_type_utf8, bson_type_document, bson_type_array,
     bson_type_binary, bson_type_undefined, bson_type_oid, bson_type_bool, bson_type_datetime,
     bson_type_null, bson_type_regex, bson_type_dbpointer, bson_type_code, bson_type_symbol,
     bson_type_codewscope, bson_type_int32, bson_type_timestamp, bson_type_int64,
     bson_type_decimal128, bson_type_maxkey, bson_type_minkey]"
  by (simp add: bson_type_defs)

lemmas bson_type_neqs =
  bson_type_distinct [simplified] bson_type_distinct [THEN distinct_rev [THEN iffD2], simplified]

text \<open>The tables agree with the standard.\<close>

lemma val_ok_tables:
  assumes "val_ok t v"
  shows "varsize_pick ! unat t \<Longrightarrow>
      4 \<le> length v \<and> 0 \<le> doc_len v 0 \<and> const_sizes ! unat t + doc_len v 0 = int (length v)"
    and "t = bson_type_regex \<Longrightarrow> regex_bytes v"
    and "\<not> varsize_pick ! unat t \<Longrightarrow> t \<noteq> bson_type_regex \<Longrightarrow> const_sizes ! unat t = int (length v)"
    and "t = bson_type_document \<or> t = bson_type_array \<Longrightarrow> last v = 0 \<and> 4 \<le> length v"
  using assms
  by (auto simp: val_ok_def standard_value_def standard_string_def standard_document_def standard_binary_def
      standard_sizes_def size_tables bson_type_neqs split: if_splits)

lemma length_elem_bytes [simp]: "length (elem_bytes (t, k, v)) = length k + length v + 2"
  by (simp add: elem_bytes_def)

lemma elems_bytes_simps [simp]:
  "elems_bytes [] = []"
  "elems_bytes (e # es) = elem_bytes e @ elems_bytes es"
  "elems_bytes (es @ fs) = elems_bytes es @ elems_bytes fs"
  by (simp_all add: elems_bytes_def)

lemma length_doc_bytes [simp]: "length (doc_bytes es) = length (elems_bytes es) + 5"
  by (simp add: doc_bytes_def)

lemma regex_bytesE:
  assumes "regex_bytes v"
  obtains a b where "v = a @ 0 # b @ [0]" "0 \<notin> set a" "0 \<notin> set b"
proof -
  define r where "r = drop (Suc (length (cstr v))) v"
  have z: "0 \<in> set v" "0 \<in> set r" "Suc (length (cstr r)) = length r"
    using assms by (simp_all add: regex_bytes_def r_def Let_def)
  have "r = cstr r @ [0]" using cstr_split [OF z(2)] z(3) by simp
  then have "v = cstr v @ 0 # cstr r @ [0]" using cstr_split [OF z(1)] by (simp add: r_def)
  with that show thesis by (metis zero_notin_cstr)
qed

lemma regex_bytesI:
  "0 \<notin> set a \<Longrightarrow> 0 \<notin> set b \<Longrightarrow> regex_bytes (a @ 0 # b @ [0])"
  by (simp add: regex_bytes_def cstr_append Let_def)

section \<open>The iterator at an encoded element\<close>

text \<open>The value of an element is followed by something, and its size is found.\<close>

lemma valsize_at:
  assumes "val_ok t v" and m: "m = pre @ v @ post" "p = int (length pre)"
    and n: "int (length v) < n" "n \<le> INT32_MAX"
  shows "bson_valsize m t p n = Inr (int (length v))"
proof (cases "varsize_pick ! unat t")
  case True
  then have v: "4 \<le> length v" "0 \<le> doc_len v 0" "const_sizes ! unat t + doc_len v 0 = int (length v)"
    using val_ok_tables(1) [OF assms(1)] by simp_all
  have "doc_len m p = doc_len v 0" using v(1) by (simp add: doc_len_def m)
  moreover have "p + 4 \<le> int (length m)" "4 < n" using v(1) m n by simp_all
  ultimately show ?thesis
    using True v m n by (simp add: valsize_eq_var valsize_check_ok)
next
  case False
  show ?thesis
  proof (cases "t = bson_type_regex")
    case True
    then obtain a b where r: "v = a @ 0 # b @ [0]" "0 \<notin> set a" "0 \<notin> set b"
      using val_ok_tables(2) [OF assms(1)] by (auto elim: regex_bytesE)
    have "bson_value_re_len m p n = Inr (int (length a + length b) + 2)"
      using re_len_two_strings [of p m a b post n] r m n by simp
    with True n r show ?thesis by (simp add: valsize_regex)
  next
    case nr: False
    with False have "const_sizes ! unat t = int (length v)" using val_ok_tables(3) [OF assms(1)] by simp
    with False n show ?thesis by (simp add: valsize_eq_const valsize_check_ok)
  qed
qed

lemma key_len_at:
  "m = pre @ elem_bytes (t, k, v) @ post \<Longrightarrow> p = int (length pre) \<Longrightarrow> 0 \<notin> set k \<Longrightarrow>
   key_len m p = int (length k) \<and> tag_at m p = t \<and> cstr (drop (nat (p + 1)) m) = k"
  by (simp add: key_len_def tag_at_def elem_bytes_def nat_add_distrib cstr_append nth_append)

definition elem_iter :: "int \<Rightarrow> int \<Rightarrow> elem \<Rightarrow> bson_iterator" where
  "elem_iter p n = (\<lambda>(t, k, v). \<lparr>it_ptr = Some p, it_keylen = int (length k), it_rlen = n\<rparr>)"

lemma iterator_at_elem:
  assumes m: "m = pre @ elem_bytes e @ post" "p = int (length pre)" and e: "elem_ok e"
    and w: "window m p n" "int (length (elem_bytes e)) < n"
  shows "bson_iterator_at m p n = Inr (elem_iter p n e)"
    and "elem_inv m (elem_iter p n e)"
proof -
  obtain t k v where [simp]: "e = (t, k, v)" by (cases e)
  have ok: "0 \<notin> set k" "val_ok t v" using e by (simp_all add: elem_ok_def)
  have kl: "key_len m p = int (length k)" "tag_at m p = t"
    using key_len_at [of m pre t k v post p] m ok by simp_all
  let ?vp = "p + key_len m p + 2" and ?vn = "n - key_len m p - 2"
  have vn: "1 < n" "1 \<le> ?vn" using w kl by simp_all
  have wv: "window m ?vp ?vn"
    using window_shift [OF w(1), of "key_len m p + 2"] vn kl by (simp add: algebra_simps)
  have vs: "bson_valsize m t ?vp ?vn = Inr (int (length v))"
    using valsize_at [of t v m "pre @ t # k @ [0]" post ?vp ?vn] ok m w kl
    by (simp add: elem_bytes_def window_def)
  have last: "m ! nat (?vp + int (length v) - 1) = 0" "v \<noteq> []"
    if "t = bson_type_document \<or> t = bson_type_array"
  proof -
    have lv: "last v = 0" "4 \<le> length v"
      using val_ok_tables(4) [OF ok(2) that] by simp_all
    then show "v \<noteq> []" by auto
    then have "nat (?vp + int (length v) - 1) = length pre + length k + 2 + (length v - 1)"
      using kl m(2) lv(2) by simp
    then show "m ! nat (?vp + int (length v) - 1) = 0"
      using lv \<open>v \<noteq> []\<close> by (simp add: m(1) elem_bytes_def nth_append last_conv_nth)
  qed
  then have r: "rd m (?vp + (int (length v) - 1)) = Inr 0"
    if "t = bson_type_document \<or> t = bson_type_array"
    using that wv w kl vn by (simp add: window_def add_diff_eq)
  show "bson_iterator_at m p n = Inr (elem_iter p n e)"
    using iterator_at_checked [OF w(1) vn] vs r by (auto simp: kl elem_iter_def)
  show "elem_inv m (elem_iter p n e)"
    using elem_invI [OF w(1) vn(1) wv] vs last by (auto simp: kl elem_iter_def)
qed

lemma next_at_elem:
  assumes m: "m = pre @ elem_bytes e @ post" "p = int (length pre)" and e: "elem_ok e"
    and w: "window m p n" "int (length (elem_bytes e)) < n"
  shows "bson_iterator_data_size m (elem_iter p n e) = Inr (int (length (elem_bytes e)))"
    and "bson_next m (elem_iter p n e) =
      bson_iterator_at m (p + int (length (elem_bytes e))) (n - int (length (elem_bytes e)))"
proof -
  obtain t k v where [simp]: "e = (t, k, v)" by (cases e)
  have ok: "0 \<notin> set k" "val_ok t v" using e by (simp_all add: elem_ok_def)
  have kl: "tag_at m p = t" using key_len_at [of m pre t k v post p] m ok by simp
  have "bson_valsize m t (p + int (length k) + 2) INT32_MAX = Inr (int (length v))"
    using valsize_at [of t v m "pre @ t # k @ [0]" post "p + int (length k) + 2" INT32_MAX] ok m w
    by (simp add: elem_bytes_def window_def)
  then show sz: "bson_iterator_data_size m (elem_iter p n e) = Inr (int (length (elem_bytes e)))"
    using iterator_at_elem(2) [OF assms]
    by (rule_tac elem_inv_data_size) (auto simp: elem_iter_def kl)
  show "bson_next m (elem_iter p n e) =
      bson_iterator_at m (p + int (length (elem_bytes e))) (n - int (length (elem_bytes e)))"
    using sz w by (simp add: bson_next_def it_deref_def elem_iter_def Let_def)
qed

text \<open>The iterators of a list of elements that starts at \<open>p\<close>, \<open>n\<close> bytes before the end.\<close>

fun elem_iters :: "int \<Rightarrow> int \<Rightarrow> elem list \<Rightarrow> bson_iterator list" where
  "elem_iters p n [] = []"
| "elem_iters p n (e # es) =
     elem_iter p n e #
     elem_iters (p + int (length (elem_bytes e))) (n - int (length (elem_bytes e))) es"

lemma foreach_elems:
  assumes "m = pre @ elems_bytes es @ 0 # post" "p = int (length pre)"
    and "n = int (length (elems_bytes es)) + 1" "n \<le> INT32_MAX" "\<forall>e \<in> set es. elem_ok e"
    and "it_ptr sentinel = Some (p + n - 1)" "length es < fuel"
  shows "\<exists>it. bson_iterator_at m p n = Inr it \<and>
    bson_foreach_subrange fuel m it sentinel = Some (Inr (elem_iters p n es))"
  using assms
proof (induction es arbitrary: pre p n fuel)
  case Nil
  then have "window m p 1" by (auto simp: window_def nth_append)
  with Nil show ?case
    by (cases fuel) (auto simp: iterator_at_end bson_iterator_eq_def)
next
  case (Cons e es)
  let ?l = "int (length (elem_bytes e))"
  have w: "window m p n"
    using Cons.prems(1-4) by (auto simp: window_def nth_append)
  have l: "?l < n" using Cons.prems(3) by simp
  have m: "m = pre @ elem_bytes e @ (elems_bytes es @ 0 # post)" using Cons.prems(1) by simp
  have e: "elem_ok e" using Cons.prems(5) by simp
  obtain f where f: "fuel = Suc f" "length es < f" using Cons.prems(7) by (cases fuel) auto
  obtain it where it: "bson_iterator_at m (p + ?l) (n - ?l) = Inr it"
    "bson_foreach_subrange f m it sentinel = Some (Inr (elem_iters (p + ?l) (n - ?l) es))"
    using Cons.IH [of "pre @ elem_bytes e" "p + ?l" "n - ?l" f] Cons.prems f by auto
  have "bson_iterator_get_error (elem_iter p n e) = Some bson_iter_errc_okay"
    using elem_inv_facts(4) [OF iterator_at_elem(2) [OF m Cons.prems(2) e w l]] .
  moreover have "\<not> bson_iterator_eq (elem_iter p n e) sentinel"
    using Cons.prems(3,6) by (cases e) (simp add: bson_iterator_eq_def elem_iter_def)
  ultimately show ?case
    using iterator_at_elem(1) [OF m Cons.prems(2) e w l] it
      next_at_elem(2) [OF m Cons.prems(2) e w l] by (simp add: f(1))
qed

lemma doc_bytes_doc_at:
  assumes "m = pre @ doc_bytes es @ post" "d = int (length pre)"
    and "int (length (doc_bytes es)) \<le> INT32_MAX"
  shows "doc_at m d" "doc_len m d = int (length (doc_bytes es))"
proof -
  let ?n = "length (elems_bytes es) + 5"
  have "to_i32 (word_of_nat ?n) = int ?n"
    using sint_of_in_i32 [of "int ?n"] assms(3) by (simp add: to_i32_def in_i32_def)
  then show l: "doc_len m d = int (length (doc_bytes es))"
    using assms(1,2) by (simp add: doc_len_def doc_bytes_def)
  have "m ! (length pre + (length (elems_bytes es) + 4)) = 0"
    by (simp add: assms(1) doc_bytes_def nth_append)
  moreover have "nat (d + doc_len m d - 1) = length pre + (length (elems_bytes es) + 4)"
    using l assms(2) by simp
  ultimately show "doc_at m d"
    using l assms(1,2) by (simp add: doc_at_def)
qed

lemma foreach_doc_bytes:
  assumes "m = pre @ doc_bytes es @ post" "d = int (length pre)"
    and "int (length (doc_bytes es)) \<le> INT32_MAX" "\<forall>e \<in> set es. elem_ok e" "length es < fuel"
  shows "bson_foreach fuel m (Some d) =
    Some (Inr (elem_iters (d + 4) (int (length (elems_bytes es)) + 1) es))"
proof -
  note d = doc_bytes_doc_at [OF assms(1-3)]
  define h where "h = u32le (word_of_nat (length (elems_bytes es) + 5))"
  let ?n = "int (length (elems_bytes es)) + 1"
  let ?s = "\<lparr>it_ptr = Some (d + doc_len m d - 1), it_keylen = 0, it_rlen = 1\<rparr>"
  have n: "doc_len m d - 4 = ?n" using d(2) by simp
  have mm: "m = (pre @ h) @ elems_bytes es @ 0 # post" "d + 4 = int (length (pre @ h))"
    by (simp_all add: assms(1,2) doc_bytes_def h_def)
  have s: "it_ptr ?s = Some (d + 4 + ?n - 1)" and b: "?n \<le> INT32_MAX"
    using d(2) assms(3) by simp_all
  obtain it where "bson_iterator_at m (d + 4) ?n = Inr it"
    "bson_foreach_subrange fuel m it ?s = Some (Inr (elem_iters (d + 4) ?n es))"
    using foreach_elems [OF mm refl b assms(4) s assms(5)] by blast
  then show ?thesis by (simp add: bson_foreach_doc [OF d(1)] n)
qed

section \<open>Reading elements back\<close>

text \<open>What a client reads of an element through the accessors: its type, key and value bytes.\<close>

definition read_elem :: "bytes \<Rightarrow> bson_iterator \<Rightarrow> elem res" where
  "read_elem m it =
     bindR (bson_iterator_type m it) (\<lambda>t.
     bindR (bson_key m it) (\<lambda>k.
     bindR (bson_iterator_value_ptr it) (\<lambda>vp.
     bindR (bson_iterator_data_size m it) (\<lambda>sz.
     bindR (rd_n m vp (nat (sz - it_keylen it - 2))) (\<lambda>v. Inr (t, view_bytes k, v))))))"

lemma accessors_at_elem:
  assumes m: "m = pre @ elem_bytes (t, k, v) @ post" "p = int (length pre)" and e: "elem_ok (t, k, v)"
    and w: "window m p n" "int (length (elem_bytes (t, k, v))) < n"
  shows "bson_iterator_type m (elem_iter p n (t, k, v)) = Inr t"
    and "bson_key m (elem_iter p n (t, k, v)) = Inr (Some k)"
    and "bson_iterator_value_ptr (elem_iter p n (t, k, v)) = Inr (p + int (length k) + 2)"
    and "rd_n m (p + int (length k) + 2) (length v) = Inr v"
proof -
  have "rd m p = Inr t" using m by (simp add: elem_bytes_def nth_append)
  then show "bson_iterator_type m (elem_iter p n (t, k, v)) = Inr t"
    using w by (simp add: bson_iterator_type_def it_deref_def elem_iter_def)
  have "rd_n m (p + 1) (length k) = Inr k"
    using rd_n_append_at [of "p + 1" "pre @ [t]" "length k" k "0 # v @ post"] m
    by (simp add: elem_bytes_def)
  then show "bson_key m (elem_iter p n (t, k, v)) = Inr (Some k)"
    using w by (simp add: bson_key_def elem_iter_def)
  show "bson_iterator_value_ptr (elem_iter p n (t, k, v)) = Inr (p + int (length k) + 2)"
    by (simp add: bson_iterator_value_ptr_def it_deref_def elem_iter_def)
  show "rd_n m (p + int (length k) + 2) (length v) = Inr v"
    using rd_n_append_at [of "p + int (length k) + 2" "pre @ t # k @ [0]" "length v" v post] m
    by (simp add: elem_bytes_def)
qed

lemma read_elem_at:
  assumes "m = pre @ elem_bytes e @ post" "p = int (length pre)" "elem_ok e"
    and "window m p n" "int (length (elem_bytes e)) < n"
  shows "read_elem m (elem_iter p n e) = Inr e"
proof -
  obtain t k v where e: "e = (t, k, v)" by (cases e)
  have "it_keylen (elem_iter p n e) = int (length k)" by (simp add: e elem_iter_def)
  then show ?thesis
    using accessors_at_elem [OF assms [unfolded e]] next_at_elem(1) [OF assms]
    by (simp add: read_elem_def e view_bytes_def)
qed

lemma read_elems:
  assumes "m = pre @ elems_bytes es @ 0 # post" "p = int (length pre)"
    and "n = int (length (elems_bytes es)) + 1" "n \<le> INT32_MAX" "\<forall>e \<in> set es. elem_ok e"
  shows "map (read_elem m) (elem_iters p n es) = map Inr es"
  using assms
proof (induction es arbitrary: pre p n)
  case (Cons e es)
  let ?l = "int (length (elem_bytes e))"
  have "window m p n" using Cons.prems(1-4) by (auto simp: window_def nth_append)
  then have "read_elem m (elem_iter p n e) = Inr e"
    using read_elem_at [of m pre e "elems_bytes es @ 0 # post" p n] Cons.prems by simp
  moreover have "map (read_elem m) (elem_iters (p + ?l) (n - ?l) es) = map Inr es"
    using Cons.IH [of "pre @ elem_bytes e" "p + ?l" "n - ?l"] Cons.prems by simp
  ultimately show ?case by simp
qed simp

section \<open>Properties\<close>

text \<open>The two types whose size the tables get wrong.\<close>

lemma doc_len_append: "4 \<le> length v \<Longrightarrow> p = int (length pre) \<Longrightarrow> doc_len (pre @ v @ post) p = doc_len v 0"
  by (simp add: doc_len_def)

lemma dbpointer_doc_len: "standard_dbpointer v \<Longrightarrow> doc_len v 0 = int (length v) - 16 \<and> 17 \<le> length v"
  by (auto simp: standard_dbpointer_def standard_string_def doc_len_def min_def split: if_splits)

lemma codewscope_doc_len: "standard_codewscope v \<Longrightarrow> doc_len v 0 = int (length v) \<and> 14 \<le> length v"
  by (auto simp: standard_codewscope_def standard_string_def standard_document_def Let_def)

lemma missized:
  assumes "t = bson_type_dbpointer \<and> standard_dbpointer v \<or> t = bson_type_codewscope \<and> standard_codewscope v"
    and "m = pre @ v @ post" "p = int (length pre)" "int (length v) + d < n" "n \<le> INT32_MAX"
    and "d = (if t = bson_type_dbpointer then - 4 else 8)"
  shows "bson_valsize m t p n = Inr (int (length v) + d)"
proof -
  have l: "14 \<le> length v" "const_sizes ! unat t + doc_len v 0 = int (length v) + d" "varsize_pick ! unat t"
    "0 \<le> doc_len v 0"
    using assms(1,6) dbpointer_doc_len [of v] codewscope_doc_len [of v] by (auto simp: size_tables bson_type_neqs)
  have "doc_len m p = doc_len v 0" using assms(2,3) l(1) by (simp add: doc_len_append)
  then show ?thesis
    using l assms(2-6) by (simp add: valsize_eq_var valsize_check_ok split: if_splits)
qed



end
