(* ===== verification/Bson_Values.thy ===== *)
theory Bson_Values
  imports Bson_Elements
begin

text \<open>
  Values of elements: the BSON encoding of each type, and what \<^verbatim>\<open>bson_iterator_value\<close> reads
  from it.
\<close>

section \<open>The encoding of values\<close>

definition string_bytes :: "bytes \<Rightarrow> bytes" where
  "string_bytes s = u32le (word_of_nat (length s + 1)) @ s @ [0]"

fun value_bytes :: "bson_value_ref \<Rightarrow> bytes" where
  "value_bytes (V_double d) = u64le d"
| "value_bytes (V_utf8 (Some s)) = string_bytes s"
| "value_bytes (V_document (Some d)) = d"
| "value_bytes (V_array (Some d)) = d"
| "value_bytes (V_binary t bs) = u32le (word_of_nat (length bs)) @ t # bs"
| "value_bytes (V_oid bs) = bs"
| "value_bytes (V_bool b) = [if b then 1 else 0]"
| "value_bytes (V_datetime t) = u64le t"
| "value_bytes (V_regex (Some r) (Some opt)) = r @ 0 # opt @ [0]"
| "value_bytes (V_code (Some s)) = string_bytes s"
| "value_bytes (V_symbol (Some s)) = string_bytes s"
| "value_bytes (V_int32 n) = u32le n"
| "value_bytes (V_timestamp i t) = u32le i @ u32le t"
| "value_bytes (V_int64 n) = u64le n"
| "value_bytes (V_decimal128 bs) = bs"
| "value_bytes (V_dbpointer (Some c) oid) = string_bytes c @ oid"
| "value_bytes (V_utf8 None) = string_bytes []"
| "value_bytes (V_code None) = string_bytes []"
| "value_bytes (V_symbol None) = string_bytes []"
| "value_bytes (V_document None) = doc_bytes []"
| "value_bytes (V_array None) = doc_bytes []"
| "value_bytes (V_dbpointer None oid) = string_bytes [] @ oid"
| "value_bytes _ = []"

definition string_ok :: "bytes \<Rightarrow> bool" where
  "string_ok s \<longleftrightarrow> s \<noteq> [] \<and> int (length s) < INT32_MAX"

definition subdoc_ok :: "bytes \<Rightarrow> bool" where
  "subdoc_ok d \<longleftrightarrow> doc_at d 0 \<and> doc_len d 0 = int (length d)"

text \<open>
  The values the reader supports: not the database pointer, whose size the table of sizes gets
  wrong, not code with scope, and no empty string, on which the reader aborts.
\<close>

fun value_ok :: "bson_value_ref \<Rightarrow> bool" where
  "value_ok (V_utf8 s) = (case s of None \<Rightarrow> False | Some b \<Rightarrow> string_ok b)"
| "value_ok (V_code s) = (case s of None \<Rightarrow> False | Some b \<Rightarrow> string_ok b)"
| "value_ok (V_symbol s) = (case s of None \<Rightarrow> False | Some b \<Rightarrow> string_ok b)"
| "value_ok (V_document d) = (case d of None \<Rightarrow> False | Some b \<Rightarrow> subdoc_ok b)"
| "value_ok (V_array d) = (case d of None \<Rightarrow> False | Some b \<Rightarrow> subdoc_ok b)"
| "value_ok (V_binary t bs) = (int (length bs) \<le> INT32_MAX)"
| "value_ok (V_oid bs) = (length bs = 12)"
| "value_ok (V_regex r opt) =
     (case (r, opt) of (Some a, Some b) \<Rightarrow> 0 \<notin> set a \<and> 0 \<notin> set b | _ \<Rightarrow> False)"
| "value_ok (V_decimal128 bs) = (length bs = 16)"
| "value_ok (V_dbpointer c oid) = False"
| "value_ok V_codewscope = False"
| "value_ok _ = True"

text \<open>
  All values that have an encoding: what is missing above are empty strings, null views, which stand for the empty
  string and the empty document, and database pointers.
\<close>

definition empty_string :: "bson_value_ref \<Rightarrow> bool" where
  "empty_string v \<longleftrightarrow> v \<in> {V_utf8 (Some []), V_code (Some []), V_symbol (Some [])}"

definition null_view :: "bson_value_ref \<Rightarrow> bool" where
  "null_view v \<longleftrightarrow> v \<in> {V_utf8 None, V_code None, V_symbol None, V_document None, V_array None}"

definition dbpointer_ok :: "bson_value_ref \<Rightarrow> bool" where
  "dbpointer_ok v =
     (case v of V_dbpointer (Some c) oid \<Rightarrow> length oid = 12 \<and> int (length c) + 17 \<le> INT32_MAX | _ \<Rightarrow> False)"

lemma to_i32_of_nat: "int n \<le> INT32_MAX \<Longrightarrow> to_i32 (word_of_nat n) = int n"
  using sint_of_in_i32 [of "int n"] by (simp add: to_i32_def in_i32_def)

lemma doc_len_u32le: "doc_len (u32le u @ rest) 0 = to_i32 u"
  by (simp add: doc_len_def)

lemma string_bytes_ok:
  assumes "int (length s) < INT32_MAX"
  shows "doc_len (string_bytes s) 0 = int (length s) + 1" "length (string_bytes s) = length s + 5"
  using to_i32_of_nat [of "length s + 1"] assms by (simp_all add: string_bytes_def doc_len_u32le)

lemma standard_subdoc: "subdoc_ok d \<Longrightarrow> standard_document d"
proof -
  assume s: "subdoc_ok d"
  then have "d \<noteq> []" by (auto simp: subdoc_ok_def doc_at_def)
  then show ?thesis
    using s by (auto simp: standard_document_def subdoc_ok_def doc_at_def last_conv_nth nat_diff_distrib)
qed

lemma standard_string_bytes: "int (length s) < INT32_MAX \<Longrightarrow> standard_string (string_bytes s)"
  using string_bytes_ok [of s] by (simp add: standard_string_def) (simp add: string_bytes_def)

lemma val_ok_value:
  assumes "value_ok v"
  shows "val_ok (value_type v) (value_bytes v)"
proof (cases v)
  case (V_binary t bs)
  then show ?thesis
    using assms by (simp add: val_ok_def standard_value_def standard_binary_def doc_len_u32le to_i32_of_nat
        bson_type_neqs)
next
  case (V_regex r opt)
  then show ?thesis
    using assms by (auto simp: val_ok_def standard_value_def bson_type_neqs regex_bytesI split: option.splits)
qed (use assms in \<open>auto simp: standard_subdoc standard_string_bytes string_ok_def val_ok_def
      standard_value_def standard_sizes_def bson_type_neqs split: option.splits\<close>)

lemma rd_append_at: "p = int (length pre) \<Longrightarrow> rd (pre @ b # post) p = Inr b"
  by (simp add: rd_def)

section \<open>Reading an encoded value\<close>

lemma read_u32_at: "p = int (length pre) \<Longrightarrow> bson_read_u32le (pre @ u32le u @ post) p = Inr u"
  by (rule u32_codec.rdc_at)

lemma read_u64_at: "p = int (length pre) \<Longrightarrow> bson_read_u64le (pre @ u64le u @ post) p = Inr u"
  by (rule u64_codec.rdc_at)

lemma stringlike_at:
  assumes "m = pre @ string_bytes s @ post" "p = int (length pre)" "int (length s) < INT32_MAX"
  shows "bson_read_stringlike_at m p = Inr (Some s)"
proof -
  have "bson_read_u32le m p = Inr (word_of_nat (length s + 1))"
    using assms(1,2) read_u32_at [of p pre "word_of_nat (length s + 1)" "s @ 0 # post"]
    by (simp add: string_bytes_def)
  moreover have "to_i32 (word_of_nat (length s + 1)) = int (length s) + 1"
    using to_i32_of_nat [of "length s + 1"] assms(3) by simp
  moreover have "rd_n m (p + 4) (length s) = Inr s"
    using assms(1,2) rd_n_append_at [of "p + 4" "pre @ u32le (word_of_nat (length s + 1))" "length s" s
        "0 # post"] by (simp add: string_bytes_def)
  ultimately show ?thesis
    by (simp add: bson_read_stringlike_at_def Let_def nat_add_distrib)
qed

text \<open>An element that lies at \<open>p\<close>, with \<open>n\<close> bytes left in its document.\<close>

definition placed :: "bytes \<Rightarrow> int \<Rightarrow> int \<Rightarrow> elem \<Rightarrow> bool" where
  "placed m p n e \<longleftrightarrow>
     (\<exists>pre post. m = pre @ elem_bytes e @ post \<and> p = int (length pre)) \<and>
     window m p n \<and> int (length (elem_bytes e)) < n"

lemma placed_value:
  assumes "placed m p n (t, k, val)"
  obtains pre post where "m = pre @ val @ post" "p + int (length k) + 2 = int (length pre)"
    "drop (nat (p + int (length k) + 2)) m = val @ post"
proof -
  obtain pre post where m: "m = pre @ elem_bytes (t, k, val) @ post" "p = int (length pre)"
    using assms by (auto simp: placed_def)
  show thesis
    by (rule that [of "pre @ t # k @ [0]" post]) (simp_all add: m elem_bytes_def nat_add_distrib)
qed

lemma placed_rd_n:
  "placed m p n (t, k, val) \<Longrightarrow> rd_n m (p + int (length k) + 2) (length val) = Inr val"
  by (erule placed_value) (simp add: rd_n_append_at)

lemma placed_accessors:
  assumes "placed m p n (t, k, val)"
  shows "bson_iterator_value_ptr (elem_iter p n (t, k, val)) = Inr (p + int (length k) + 2)"
    "bson_iterator_type m (elem_iter p n (t, k, val)) = Inr t"
    "bson_iterator_get_error (elem_iter p n (t, k, val)) = Some bson_iter_errc_okay"
  using assms
  by (auto simp: placed_def bson_iterator_value_ptr_def bson_iterator_type_def elem_bytes_def
      bson_iterator_get_error_def it_deref_def elem_iter_def nth_append)

lemma placed_stringlike:
  assumes "placed m p n (t, k, string_bytes s)" "string_ok s"
  shows "bson_iterator_stringlike m (elem_iter p n (t, k, string_bytes s)) = Inr (Some s)"
proof -
  have "bson_read_stringlike_at m (p + int (length k) + 2) = Inr (Some s)"
    using assms by (elim placed_value) (auto intro: stringlike_at simp: string_ok_def)
  moreover have "int (length s) < it_rlen (elem_iter p n (t, k, string_bytes s))"
    using assms(1) by (simp add: placed_def elem_iter_def string_bytes_def)
  ultimately show ?thesis
    using assms by (simp add: bson_iterator_stringlike_def placed_accessors string_ok_def)
qed

lemma unat_of_to_i32: "to_i32 u = int n \<Longrightarrow> unat u = n"
proof -
  assume "to_i32 u = int n"
  moreover have "word_of_int (sint u) = u" by simp
  ultimately have "uint u = int n"
    using uint_word_of_nonneg_i32 [of "sint u"] sint_i32_range [of u] by (simp add: to_i32_def)
  then show "unat u = n" by (simp add: unat_eq_nat_uint)
qed

lemma placed_subdoc:
  assumes a: "placed m p n (t, k, val)" and "subdoc_ok val"
  shows "bson_iterator_subdoc m (elem_iter p n (t, k, val)) = Inr (Some val)"
proof -
  let ?q = "p + int (length k) + 2"
  have s: "doc_at val 0" "doc_len val 0 = int (length val)" "5 \<le> length val"
    using assms by (auto simp: subdoc_ok_def doc_at_def)
  obtain pre post where m: "m = pre @ val @ post" "?q = int (length pre)" "drop (nat ?q) m = val @ post"
    using a by (elim placed_value)
  have dl: "doc_len m ?q = int (length val)"
    using s by (simp add: doc_len_def m(3))
  have "nat (?q + int (length val) - 1) = length pre + (length val - 1)" using s(3) m(2) by simp
  then have "m ! nat (?q + int (length val) - 1) = val ! (length val - 1)"
    using s(3) by (simp only: m(1) nth_append_length_plus) (auto simp: nth_append)
  also have "\<dots> = 0" using s by (simp add: doc_at_def nat_diff_distrib)
  finally have v: "bson_view_from_data m ?q (n - (int (length k) + 2)) =
      Inr (Some ?q, bson_view_errc_okay)"
    using view_from_data_cases [of ?q "n - (int (length k) + 2)" m] dl s(3) a m(2)
    by (simp add: window_def placed_def)
  obtain u where u: "bson_read_u32le m ?q = Inr u" "to_i32 u = int (length val)"
    using bson_read_u32le_in [of ?q m] dl s(3) m by (auto simp: doc_len_def)
  then have "bson_view_bytes m (Some ?q) = Inr val"
    using placed_rd_n [OF a] by (simp add: bson_view_bytes_def bson_byte_size_def unat_of_to_i32)
  moreover have "it_deref (elem_iter p n (t, k, val)) = Inr p" "it_rlen (elem_iter p n (t, k, val)) = n"
    by (simp_all add: it_deref_def elem_iter_def)
  moreover have "n - (?q - p) = n - (int (length k) + 2)" "int (length k) + 2 < n"
    using a by (simp_all add: placed_def)
  ultimately show ?thesis
    using v by (simp add: bson_iterator_subdoc_def placed_accessors [OF a] Let_def)
qed

lemma strlen32_at:
  assumes "m = pre @ s @ 0 # post" "p = int (length pre)" "0 \<notin> set s" "int (length s) \<le> INT32_MAX"
  shows "cast_strlen32 mlib_math_try m p = Inr (mlib_math_try, int (length s))"
proof -
  have "c_strlen m p = Inr (int (length s))"
    using assms(1-3) by (simp add: c_strlen_at)
  moreover have "castUInt32 mlib_math_try (checkInt32 (math_U (int (length s)))) =
      (mlib_math_try, int (length s))"
    using assms(4) by (intro cast_ok [OF castUInt32_spec])
      (simp_all add: checkInt32_def mi_val_simps mi_val_check_bounds in_i64_def)
  ultimately show ?thesis by (simp add: cast_strlen32_def)
qed

lemma regex_read:
  assumes q: "bson_iterator_value_ptr it = Inr q"
    and m: "m = pre @ (r @ 0 # opt @ [0]) @ post" "q = int (length pre)"
    and z: "0 \<notin> set r" "0 \<notin> set opt"
    and l: "int (length r) \<le> INT32_MAX" "int (length opt) \<le> INT32_MAX"
  shows "bson_iterator_regex m it = Inr (V_regex (Some r) (Some opt))"
proof -
  let ?o = "q + int (length r) + 1"
  have "cast_strlen32 mlib_math_try m q = Inr (mlib_math_try, int (length r))"
    "cast_strlen32 mlib_math_try m ?o = Inr (mlib_math_try, int (length opt))"
    using strlen32_at [of m pre r "opt @ 0 # post" q] strlen32_at [of m "pre @ r @ [0]" opt post ?o]
      m z l by simp_all
  moreover have "rd_n m q (length r) = Inr r" "rd_n m ?o (length opt) = Inr opt"
    using rd_n_append_at [of q pre "length r" r "0 # opt @ 0 # post"]
      rd_n_append_at [of ?o "pre @ r @ [0]" "length opt" opt "0 # post"] m by simp_all
  moreover have "\<not> mlib_math_catch mlib_math_try"
    by (simp add: mlib_math_catch_def mlib_math_try_def)
  ultimately show ?thesis
    using q by (simp add: bson_iterator_regex_def)
qed

lemma placed_regex:
  assumes a: "placed m p n (t, k, r @ 0 # opt @ [0])" and z: "0 \<notin> set r" "0 \<notin> set opt"
  shows "bson_iterator_regex m (elem_iter p n (t, k, r @ 0 # opt @ [0])) =
    Inr (V_regex (Some r) (Some opt))"
  using a
proof (rule placed_value)
  fix pre post
  assume "m = pre @ (r @ 0 # opt @ [0]) @ post" "p + int (length k) + 2 = int (length pre)"
  then show ?thesis
    using regex_read [OF placed_accessors(1) [OF a]] z a by (auto simp: placed_def window_def)
qed

lemma placed_binary:
  assumes a: "placed m p n (t, k, u32le (word_of_nat (length bs)) @ b # bs)"
    and l: "int (length bs) \<le> INT32_MAX"
  shows "bson_iterator_binary m (p + int (length k) + 2) = Inr (V_binary b bs)"
proof -
  let ?q = "p + int (length k) + 2" and ?h = "u32le (word_of_nat (length bs))"
  obtain pre post where m: "m = pre @ (?h @ b # bs) @ post" "?q = int (length pre)"
    using a by (elim placed_value)
  have "bson_read_u32le m ?q = Inr (word_of_nat (length bs))"
    using read_u32_at [OF m(2)] m(1) by simp
  moreover have "rd m (?q + 4) = Inr b"
    using rd_append_at [of "?q + 4" "pre @ ?h" b "bs @ post"] m by simp
  moreover have "rd_n m (?q + 5) (length bs) = Inr bs"
    using rd_n_append_at [of "?q + 5" "pre @ ?h @ [b]" "length bs" bs post] m by simp
  ultimately show ?thesis
    using l by (simp add: bson_iterator_binary_def to_i32_of_nat Let_def)
qed

lemma placed_timestamp:
  assumes a: "placed m p n (t, k, u32le i @ u32le s)"
  shows "bson_iterator_timestamp m (p + int (length k) + 2) = Inr (V_timestamp i s)"
proof -
  let ?q = "p + int (length k) + 2"
  obtain pre post where m: "m = pre @ (u32le i @ u32le s) @ post" "?q = int (length pre)"
    using a by (elim placed_value)
  then have "bson_read_u32le m ?q = Inr i" "bson_read_u32le m (?q + 4) = Inr s"
    using read_u32_at [of ?q pre i "u32le s @ post"] read_u32_at [of "?q + 4" "pre @ u32le i" s post]
    by simp_all
  then show ?thesis by (simp add: bson_iterator_timestamp_def)
qed

lemma placed_u32: "placed m p n (t, k, u32le u) \<Longrightarrow> bson_read_u32le m (p + int (length k) + 2) = Inr u"
  by (erule placed_value) (simp add: read_u32_at)

lemma placed_u64: "placed m p n (t, k, u64le u) \<Longrightarrow> bson_read_u64le m (p + int (length k) + 2) = Inr u"
  by (erule placed_value) (simp add: read_u64_at)

lemma placed_byte: "placed m p n (t, k, [b]) \<Longrightarrow> rd m (p + int (length k) + 2) = Inr b"
  by (erule placed_value) (simp add: rd_append_at)

lemma iterator_value_at:
  assumes "placed m p n (value_type v, k, value_bytes v)" "value_ok v"
  shows "bson_iterator_value m (elem_iter p n (value_type v, k, value_bytes v)) = Inr (Some v)"
proof -
  note acc = placed_accessors [OF assms(1)] and bytes = placed_rd_n [OF assms(1)]
  show ?thesis
    using assms acc bytes
    by (cases v)
      (auto simp: bson_iterator_value_def bson_type_neqs Let_def placed_u32 placed_u64
        placed_timestamp placed_binary placed_regex placed_stringlike placed_subdoc
        dest: placed_byte split: option.splits)
qed

section \<open>Reading the value of any element\<close>

text \<open>
  What an iterator at an element of untrusted data says of the element's value: where it is, how
  long it is, and which bytes are inside the document.
\<close>

lemma elem_value:
  assumes "elem_inv m it" "bson_iterator_type m it = Inr t"
  obtains p v n where "bson_iterator_value_ptr it = Inr p" "window m p n"
    "bson_valsize m t p n = Inr v" "0 \<le> v" "v < n"
    "it_deref it = Inr (p - it_keylen it - 2)" "it_rlen it = n + it_keylen it + 2"
proof -
  from assms(1) obtain q v where i: "it_ptr it = Some q" "0 \<le> v"
    "bson_iterator_data_size m it = Inr (it_keylen it + 2 + v)" "it_keylen it + 2 + v < it_rlen it"
    "window m q (it_rlen it)"
    "window m (q + it_keylen it + 2) (it_rlen it - it_keylen it - 2)"
    "bson_valsize m (tag_at m q) (q + it_keylen it + 2) (it_rlen it - it_keylen it - 2) = Inr v"
    by (rule elem_inv_data_size)
  have "t = tag_at m q"
    using assms(2) i(1,5) by (simp add: bson_iterator_type_def it_deref_def tag_at_def window_def)
  with i that [of "q + it_keylen it + 2" "it_rlen it - it_keylen it - 2" v] show thesis
    by (simp add: bson_iterator_value_ptr_def it_deref_def)
qed

lemma valsize_const_value:
  assumes "window m p n" "bson_valsize m t p n = Inr v" "0 \<le> v" "t \<noteq> bson_type_regex"
    and "\<not> varsize_pick ! unat t"
  shows "v = const_sizes ! unat t"
  using assms window_bounds [OF assms(1)]
  by (auto simp: valsize_eq_const bson_valsize_check_def res_simps split: if_splits)

lemma valsize_var_value:
  assumes "window m p n" "bson_valsize m t p n = Inr v" "0 \<le> v" "t \<noteq> bson_type_regex"
    and "varsize_pick ! unat t"
  shows "v = const_sizes ! unat t + doc_len m p" "0 \<le> doc_len m p" "4 < n"
proof -
  have n: "4 < n"
    using assms window_bounds [OF assms(1)] valsize_eq_short [OF assms(5), of n m p] by (cases "n \<le> 4") auto
  then show "4 < n" "v = const_sizes ! unat t + doc_len m p" "0 \<le> doc_len m p"
    using assms window_bounds [OF assms(1)]
    by (auto simp: valsize_eq_var bson_valsize_check_def res_simps split: if_splits)
qed

text \<open>A computation does not read outside the block.\<close>

definition safe :: "'a res \<Rightarrow> bool" where
  "safe r \<longleftrightarrow> r \<noteq> Inl Out_of_bounds"

lemma safe_simps [simp]: "safe (Inr x)" "safe (Inl Assert_fail)" "safe (Inl Abort_called)"
  by (simp_all add: safe_def)

lemma safe_bindR: "safe r \<Longrightarrow> (\<And>x. r = Inr x \<Longrightarrow> safe (f x)) \<Longrightarrow> safe (bindR r f)"
  by (cases r) (auto simp: safe_def)

lemma safe_assert: "(c \<Longrightarrow> safe r) \<Longrightarrow> safe (bv_assert c r)"
  by (cases c) simp_all

lemma safe_if: "(c \<Longrightarrow> safe r) \<Longrightarrow> (\<not> c \<Longrightarrow> safe s) \<Longrightarrow> safe (if c then r else s)"
  by simp

lemma safe_rd_n: "0 \<le> p \<Longrightarrow> p + int n \<le> int (length m) \<Longrightarrow> safe (rd_n m p n)"
  by (simp add: rd_n_in)

lemma safe_read_u32: "0 \<le> p \<Longrightarrow> p + 4 \<le> int (length m) \<Longrightarrow> safe (bson_read_u32le m p)"
  by (simp add: bson_read_u32le_in)

lemma safe_read_u64:
  assumes "0 \<le> p" "p + 8 \<le> int (length m)"
  shows "safe (bson_read_u64le m p)"
  unfolding bson_read_u64le_def using assms by (intro safe_bindR safe_read_u32) simp_all

lemmas safe_intros = safe_bindR safe_assert safe_rd_n safe_read_u32 safe_read_u64

lemma read_u32_doc_len:
  "bson_read_u32le m p = Inr u \<Longrightarrow> 0 \<le> p \<Longrightarrow> p + 4 \<le> int (length m) \<Longrightarrow> to_i32 u = doc_len m p"
  by (simp add: bson_read_u32le_in doc_len_def)

lemma safe_stringlike:
  assumes "bson_iterator_value_ptr it = Inr p" "0 \<le> p" "p + 4 + doc_len m p \<le> int (length m)"
    "0 \<le> doc_len m p"
  shows "safe (bson_iterator_stringlike m it)"
  unfolding bson_iterator_stringlike_def bson_read_stringlike_at_def Let_def
  using assms by (auto intro!: safe_intros dest!: read_u32_doc_len)

lemma safe_binary:
  assumes "0 \<le> p" "p + 5 + doc_len m p \<le> int (length m)" "0 \<le> doc_len m p"
  shows "safe (bson_iterator_binary m p)"
  unfolding bson_iterator_binary_def Let_def
  using assms by (auto intro!: safe_intros dest!: read_u32_doc_len)

lemma safe_subdoc:
  assumes "bson_iterator_value_ptr it = Inr p" "window m p n"
    "it_deref it = Inr (p - it_keylen it - 2)" "it_rlen it = n + it_keylen it + 2"
  shows "safe (bson_iterator_subdoc m it)"
proof -
  note w = window_bounds [OF assms(2)]
  have b: "safe (bson_view_bytes m (Some p))" if "doc_len m p \<ge> 5" "doc_len m p \<le> n"
  proof -
    have "bson_byte_size m (Some p) = Inr u \<Longrightarrow> int (unat u) = doc_len m p" for u
      using that w read_u32_doc_len [of m p u] unat_of_to_i32 [of u "nat (doc_len m p)"]
      by (simp add: bson_byte_size_def)
    then show ?thesis
      unfolding bson_view_bytes_def using that w
      by (auto intro!: safe_intros simp: bson_byte_size_def)
  qed
  have "it_rlen it - (p - (p - it_keylen it - 2)) = n" using assms(4) by simp
  then show ?thesis
    using assms(1,3) w b view_from_data_cases [of p n m]
    by (simp add: bson_iterator_subdoc_def Let_def safe_bindR)
qed

lemma safe_regex:
  assumes "bson_iterator_value_ptr it = Inr p" "window m p n"
    "bson_valsize m bson_type_regex p n = Inr v" "0 \<le> v"
  shows "safe (bson_iterator_regex m it)"
proof -
  note w = window_bounds [OF assms(2)]
  have "bson_value_re_len m p n = Inr v" using assms(3) w by (simp add: valsize_regex)
  with re_len_window [OF assms(2)] assms(4) obtain a b rest
    where r: "drop (nat p) m = a @ 0 # b @ 0 # rest" "0 \<notin> set a" "0 \<notin> set b"
      "int (length a + length b) + 3 \<le> n"
    by auto
  have m: "m = take (nat p) m @ (a @ 0 # b @ [0]) @ rest"
    using append_take_drop_id [of "nat p" m] r(1) by simp
  have "p = int (length (take (nat p) m))" using w by simp
  moreover have "int (length a) \<le> INT32_MAX" "int (length b) \<le> INT32_MAX" using r(4) w by simp_all
  ultimately have "bson_iterator_regex m it = Inr (V_regex (Some a) (Some b))"
    using regex_read [OF assms(1) m _ r(2,3)] by blast
  then show ?thesis by simp
qed

text \<open>Every reader stays inside the document, except that of database pointers.\<close>

lemma value_read_safe_aux:
  assumes "elem_inv m it" "bson_iterator_type m it = Inr t" "t \<noteq> bson_type_dbpointer"
  shows "safe (bson_iterator_value m it)"
  using assms(1,2)
proof (rule elem_value)
  fix p v n
  assume i: "bson_iterator_value_ptr it = Inr p" "window m p n" "bson_valsize m t p n = Inr v"
    "0 \<le> v" "v < n" "it_deref it = Inr (p - it_keylen it - 2)" "it_rlen it = n + it_keylen it + 2"
  note w = window_bounds [OF i(2)]
  have c: "0 \<le> p" "p + const_sizes ! unat t < int (length m)"
    if "t \<noteq> bson_type_regex" "\<not> varsize_pick ! unat t"
    using valsize_const_value [OF i(2-4) that] i(5) w by simp_all
  have d: "p + const_sizes ! unat t + doc_len m p \<le> int (length m)" "0 \<le> doc_len m p"
    if "t \<noteq> bson_type_regex" "varsize_pick ! unat t"
    using valsize_var_value [OF i(2-4) that] i(5) w by simp_all
  have s: "safe (bson_iterator_stringlike m it)"
    if "t = bson_type_utf8 \<or> t = bson_type_code \<or> t = bson_type_symbol"
    using safe_stringlike [OF i(1) w(1), of m] d that by (auto simp: size_tables bson_type_neqs)
  have b: "safe (bson_iterator_binary m p)" if "t = bson_type_binary"
    using safe_binary [OF w(1), of m] d that by (simp add: size_tables bson_type_neqs)
  have ts: "safe (bson_iterator_timestamp m p)" if "t = bson_type_timestamp"
    unfolding bson_iterator_timestamp_def
    using c that by (intro safe_intros) (simp_all add: size_tables bson_type_neqs)
  have k: "safe (bson_read_u64le m p)"
    if "t = bson_type_double \<or> t = bson_type_datetime \<or> t = bson_type_int64"
    using c that by (auto intro!: safe_intros simp: size_tables bson_type_neqs)
  have f: "safe (rd_n m p 12)" if "t = bson_type_oid"
    using c that by (auto intro!: safe_intros simp: size_tables bson_type_neqs)
  have f': "safe (rd_n m p 16)" if "t = bson_type_decimal128"
    using c that by (auto intro!: safe_intros simp: size_tables bson_type_neqs)
  have g: "safe (bson_read_u32le m p)" if "t = bson_type_int32"
    using c that by (auto intro!: safe_intros simp: size_tables bson_type_neqs)
  have h: "safe (rd m p)" using w by simp
  note sub = safe_subdoc [OF i(1,2,6,7)]
  have rx: "safe (bson_iterator_regex m it)" if "t = bson_type_regex"
    using safe_regex [OF i(1,2) _ i(4)] i(3) that by simp
  show ?thesis
    unfolding bson_iterator_value_def Let_def assms(2) i(1) bindR_simps
    by (intro safe_assert safe_if)
      (simp_all add: s b ts k f f' g h sub rx assms(3) safe_bindR)
qed

section \<open>Properties\<close>

lemma empty_string_reads:
  assumes "placed m p n (value_type v, k, value_bytes v)" "empty_string v"
  shows "bson_iterator_value m (elem_iter p n (value_type v, k, value_bytes v)) = Inl Assert_fail"
proof -
  have s: "bson_iterator_stringlike m (elem_iter p n (t, k, string_bytes [])) = Inl Assert_fail"
    if "placed m p n (t, k, string_bytes [])" for t
  proof -
    have "bson_read_stringlike_at m (p + int (length k) + 2) = Inr (Some [])"
      using that by (elim placed_value) (auto intro: stringlike_at)
    then show ?thesis by (simp add: bson_iterator_stringlike_def placed_accessors [OF that])
  qed
  show ?thesis
    using assms placed_accessors [OF assms(1)] s
    by (auto simp: empty_string_def bson_iterator_value_def bson_type_neqs Let_def)
qed

lemma dbpointer_standard:
  assumes "dbpointer_ok v"
  shows "value_type v = bson_type_dbpointer" "standard_dbpointer (value_bytes v)"
proof -
  obtain c oid where v: "v = V_dbpointer (Some c) oid" "length oid = 12" "int (length c) + 17 \<le> INT32_MAX"
    using assms by (auto simp: dbpointer_ok_def split: bson_value_ref.splits option.splits)
  then show "value_type v = bson_type_dbpointer" "standard_dbpointer (value_bytes v)"
    using standard_string_bytes [of c] string_bytes_ok(2) [of c] by (simp_all add: standard_dbpointer_def)
qed

lemma dbpointer_reads:
  assumes "placed m p n (value_type v, k, value_bytes v)" "dbpointer_ok v"
  shows "bson_iterator_value m (elem_iter p n (value_type v, k, value_bytes v)) = Inr (Some v)"
proof -
  obtain c oid where v: "v = V_dbpointer (Some c) oid" "length oid = 12" "int (length c) + 17 \<le> INT32_MAX"
    using assms(2) by (auto simp: dbpointer_ok_def split: bson_value_ref.splits option.splits)
  let ?q = "p + int (length k) + 2" and ?h = "u32le (word_of_nat (length c + 1))"
  obtain pre post where m: "m = pre @ (string_bytes c @ oid) @ post" "?q = int (length pre)"
    using assms(1) v by (elim placed_value) auto
  have "bson_read_u32le m ?q = Inr (word_of_nat (length c + 1))"
    using read_u32_at [OF m(2), of "word_of_nat (length c + 1)"] m(1) by (simp add: string_bytes_def)
  moreover have "to_i32 (word_of_nat (length c + 1)) = int (length c) + 1"
    using to_i32_of_nat [of "length c + 1"] v(3) by simp
  moreover have "rd_n m (?q + 4) (length c) = Inr c"
    using rd_n_append_at [of "?q + 4" "pre @ ?h" "length c" c "0 # oid @ post"] m by (simp add: string_bytes_def)
  moreover have "rd_n m (?q + 4 + (int (length c) + 1)) 12 = Inr oid"
    using rd_n_append_at [of "?q + 4 + (int (length c) + 1)" "pre @ ?h @ c @ [0]" 12 oid post] m v(2)
    by (simp add: string_bytes_def)
  ultimately have "bson_iterator_dbpointer m ?q = Inr v"
    by (simp add: bson_iterator_dbpointer_def Let_def v(1))
  then show ?thesis
    using placed_accessors [OF assms(1)] dbpointer_standard(1) [OF assms(2)]
    by (simp add: bson_iterator_value_def bson_type_neqs Let_def)
qed

lemma iterator_at_standard:
  assumes "m = pre @ elem_bytes (t, k, v) @ rest" "0 \<notin> set k" "window m (int (length pre)) n"
    and "int (length k + length v) + 2 < n" "val_ok t v \<or> t = bson_type_dbpointer \<and> standard_dbpointer v"
  shows "bson_iterator_at m (int (length pre)) n = Inr (elem_iter (int (length pre)) n (t, k, v))"
  using assms(5)
proof
  assume "val_ok t v"
  then show ?thesis
    using iterator_at_elem(1) [OF assms(1) refl _ assms(3)] assms(2,4) by (simp add: elem_ok_def)
next
  assume t: "t = bson_type_dbpointer \<and> standard_dbpointer v"
  let ?p = "int (length pre)"
  have kl: "key_len m ?p = int (length k)" "tag_at m ?p = t"
    using key_len_at [OF assms(1) refl assms(2)] by simp_all
  have "bson_valsize m t (?p + int (length k) + 2) (n - int (length k) - 2) = Inr (int (length v) - 4)"
    using missized [of t v m "pre @ t # k @ [0]" rest "?p + int (length k) + 2" "- 4" "n - int (length k) - 2"]
      t assms(1,3,4) by (simp add: elem_bytes_def window_def)
  then show ?thesis
    using iterator_at_checked [OF assms(3)] assms(4) t dbpointer_doc_len [of v]
    by (simp add: kl elem_iter_def bson_type_neqs)
qed



text \<open>
  C5: reading the value of any element of untrusted data that an iterator accepted touches
  nothing outside the block, for every type tag but that of a database pointer.
\<close>

theorem value_read_safe:
  assumes "elem_inv m it" "bson_iterator_type m it = Inr t" "t \<noteq> bson_type_dbpointer"
  shows "bson_iterator_value m it \<noteq> Inl Out_of_bounds"
  using value_read_safe_aux [OF assms] by (simp add: safe_def)

lemma elem_inv_example: "elem_inv [16, 97, 0, 7, 0, 0, 0, 0] (elem_iter 0 8 (16, [97], [7, 0, 0, 0]))"
proof -
  have "elem_ok (16, [97], [7, 0, 0, 0])"
    by (simp add: elem_ok_def val_ok_def standard_value_def standard_sizes_def bson_type_defs)
  then show ?thesis
    using iterator_at_elem(2) [of "[16, 97, 0, 7, 0, 0, 0, 0]" "[]" "(16, [97], [7, 0, 0, 0])" "[0]" 0 8]
    by (simp add: elem_bytes_def window_def)
qed

theorem value_read_safe_witness:
  "bson_iterator_value [16, 97, 0, 7, 0, 0, 0, 0] (elem_iter 0 8 (16, [97], [7, 0, 0, 0]))
     \<noteq> Inl Out_of_bounds"
  by (rule value_read_safe [OF elem_inv_example, of 16])
    (simp_all add: bson_iterator_type_def it_deref_def elem_iter_def bson_type_defs)

text \<open>
  The exception is real. The size table counts twelve bytes for a database pointer besides
  its name where the encoding has sixteen, so that an iterator accepts an element whose object
  identifier lies partly after the document, and reading it leaves the block.
\<close>

theorem dbpointer_read_overruns:
  "\<exists>m it. doc_at m 0 \<and> doc_len m 0 = int (length m) \<and>
     bson_begin m (Some 0) = Inr it \<and> elem_inv m it \<and>
     bson_iterator_value m it = Inl Out_of_bounds"
proof -
  let ?m = "[21, 0, 0, 0, 12, 0, 1, 0, 0, 0, 0, 0, 0, 0, 0, 0, 0, 0, 0, 0, 0] :: bytes"
  let ?it = "\<lparr>it_ptr = Some 4, it_keylen = 0, it_rlen = 17\<rparr>"
  have d: "doc_at ?m 0" "doc_len ?m 0 = 21"
    by (simp_all add: doc_at_def doc_len_def to_i32_def)
  have b: "bson_begin ?m (Some 0) = Inr ?it" by code_simp
  have "window ?m 4 17" using doc_at_window [OF d(1)] d(2) by simp
  then have "elem_inv ?m ?it"
    using b bson_begin_doc [OF d(1)] d(2)
    by (intro iterator_at_elem_inv [of ?m 4 17]) simp_all
  moreover have "bson_iterator_value ?m ?it = Inl Out_of_bounds" by code_simp
  ultimately show ?thesis using d b by (intro exI [of _ ?m] exI [of _ ?it]) simp
qed

end
