(* ===== verification/Mlib_Alloc.thy ===== *)
theory Mlib_Alloc
  imports Amongoc_Prelude
begin

text \<open>
  Allocators (\<^verbatim>\<open>include/mlib/alloc.h\<close>, \<^verbatim>\<open>src/mlib/alloc.cpp\<close>). An allocator is its
  \<^verbatim>\<open>reallocate\<close> function: the previous block (\<open>None\<close> is the null pointer), the requested size, the
  alignment and the previous size give a fault, no block (the null pointer), or a block with
  what is stored through \<^verbatim>\<open>out_new_size\<close>. The client-visible promises of the documentation of
  \<^verbatim>\<open>mlib_allocator_impl\<close> are the locale \<open>allocator\<close>, which the default allocator of the library
  satisfies.
\<close>

section \<open>Allocators\<close>

type_synonym reallocate_fn = "bytes option \<Rightarrow> nat \<Rightarrow> nat \<Rightarrow> nat \<Rightarrow> (bytes \<times> nat) option res"

definition mlib_reallocate ::
  "reallocate_fn \<Rightarrow> bytes option \<Rightarrow> nat \<Rightarrow> nat \<Rightarrow> nat \<Rightarrow> (bytes \<times> nat) option res" where
  "mlib_reallocate alloc prev_ptr new_size alignment prev_size =
     alloc prev_ptr new_size alignment prev_size"

abbreviation max_align :: nat where "max_align \<equiv> 16"

definition mlib_allocate :: "reallocate_fn \<Rightarrow> nat \<Rightarrow> (bytes \<times> nat) option res" where
  "mlib_allocate alloc sz = mlib_reallocate alloc None sz max_align 0"

definition mlib_deallocate :: "reallocate_fn \<Rightarrow> bytes option \<Rightarrow> nat \<Rightarrow> unit res" where
  "mlib_deallocate alloc p sz =
     (if p = None then Inr ()
      else bindR (mlib_reallocate alloc p 0 0 sz) (\<lambda>_. Inr ()))"

text \<open>
  The C heap: \<open>avail n\<close> says whether a request of \<open>n\<close> bytes can be served and \<open>junk\<close> is what
  fresh memory holds. \<^verbatim>\<open>realloc\<close> keeps the common prefix; \<^verbatim>\<open>posix_memalign\<close> gives fresh memory.
\<close>

definition c_malloc :: "(nat \<Rightarrow> bool) \<Rightarrow> (nat \<Rightarrow> byte) \<Rightarrow> nat \<Rightarrow> bytes option" where
  "c_malloc avail junk n = (if avail n then Some (map junk [0..<n]) else None)"

definition c_realloc :: "(nat \<Rightarrow> bool) \<Rightarrow> (nat \<Rightarrow> byte) \<Rightarrow> bytes option \<Rightarrow> nat \<Rightarrow> bytes option" where
  "c_realloc avail junk p n =
     (case p of None \<Rightarrow> c_malloc avail junk n
      | Some old \<Rightarrow> map_option (\<lambda>b. take n old @ drop (length old) b) (c_malloc avail junk n))"

definition default_reallocate :: "(nat \<Rightarrow> bool) \<Rightarrow> (nat \<Rightarrow> byte) \<Rightarrow> reallocate_fn" where
  "default_reallocate avail junk ptr req_size alignment prev_size =
     (if req_size = 0 then Inr None
      else if alignment \<le> max_align then
        Inr (map_option (\<lambda>p. (p, req_size)) (c_realloc avail junk ptr req_size))
      else
        (case ptr of
           Some old \<Rightarrow>
             (case c_malloc avail junk req_size of
                None \<Rightarrow> Inr None
              | Some new_ptr \<Rightarrow>
                  bindR (rd_n old 0 (min req_size prev_size)) (\<lambda>bs.
                  bindR (wr_n new_ptr 0 bs) (\<lambda>new_ptr. Inr (Some (new_ptr, req_size)))))
         | None \<Rightarrow> Inr (map_option (\<lambda>p. (p, req_size)) (c_malloc avail junk req_size))))"

definition terminating_reallocate :: reallocate_fn where
  "terminating_reallocate prev_ptr req_size align prev_size =
     (if req_size = 0 \<and> prev_ptr = None then Inr None else Inl Abort_called)"

section \<open>The contract\<close>

locale allocator =
  fixes realloc :: reallocate_fn
  assumes got_size: "0 < n \<Longrightarrow> realloc p n a k = Inr (Some (b, got)) \<Longrightarrow> length b = got \<and> n \<le> got"
    and keeps: "0 < n \<Longrightarrow> realloc (Some old) n a (length old) = Inr (Some (b, got)) \<Longrightarrow>
      take (min n (length old)) b = take (min n (length old)) old"
    and in_bounds: "realloc (Some old) n a (length old) \<noteq> Inl Out_of_bounds"
      "realloc None n a 0 \<noteq> Inl Out_of_bounds"
begin

lemma grown:
  assumes "length old \<le> n" "0 < n" "mlib_reallocate realloc (Some old) n a (length old) = Inr (Some (b, got))"
  shows "\<exists>new. b = old @ new \<and> length b = got \<and> n \<le> got"
proof -
  have "take (length old) b = old"
    using keeps [of n old a b got] assms by (simp add: mlib_reallocate_def min_def split: if_splits)
  then have "b = old @ drop (length old) b" by (metis append_take_drop_id)
  with got_size [of n] assms show ?thesis by (metis mlib_reallocate_def)
qed

lemma fresh:
  "0 < n \<Longrightarrow> mlib_reallocate realloc None n a 0 = Inr (Some (b, got)) \<Longrightarrow> length b = got \<and> n \<le> got"
  using got_size by (simp add: mlib_reallocate_def)

end

text \<open>An allocator that grants exactly what is asked for, or fails, and never aborts.\<close>

locale exact_allocator = allocator +
  assumes exact: "realloc p n a k = Inr (Some (b, got)) \<Longrightarrow> got = n"
    and no_abort: "realloc (Some old) n a (length old) \<noteq> Inl e" "realloc None n a 0 \<noteq> Inl e"

lemma c_malloc_length: "c_malloc avail junk n = Some b \<Longrightarrow> length b = n"
  by (auto simp: c_malloc_def split: if_splits)

lemma c_realloc_facts:
  assumes "c_realloc avail junk p n = Some b"
  shows "length b = n" "p = Some old \<Longrightarrow> take (min n (length old)) b = take (min n (length old)) old"
  using assms
  by (auto simp: c_realloc_def dest: c_malloc_length split: option.splits)

interpretation default_alloc: allocator "default_reallocate avail junk" for avail junk
proof
  fix n p a k b got
  assume "0 < n" "default_reallocate avail junk p n a k = Inr (Some (b, got))"
  then show "length b = got \<and> n \<le> got"
    by (auto simp: default_reallocate_def res_simps dest: c_realloc_facts(1) c_malloc_length wr_n_length
        split: if_splits option.splits)
next
  fix n old a b got
  assume *: "0 < n" "default_reallocate avail junk (Some old) n a (length old) = Inr (Some (b, got))"
  show "take (min n (length old)) b = take (min n (length old)) old"
  proof (cases "a \<le> max_align")
    case True
    with * have "c_realloc avail junk (Some old) n = Some b" by (auto simp: default_reallocate_def)
    then show ?thesis by (rule c_realloc_facts(2) [OF _ refl])
  next
    case False
    with * obtain new where "c_malloc avail junk n = Some new"
      "bindR (rd_n old 0 (min n (length old))) (wr_n new 0) = Inr b"
      by (auto simp: default_reallocate_def res_simps split: option.splits)
    then show ?thesis
      by (auto simp: rd_n_in wr_n_in dest!: c_malloc_length)
  qed
qed (auto simp: default_reallocate_def res_simps rd_n_in wr_n_in dest: c_malloc_length
    split: option.splits)

interpretation default_alloc: exact_allocator "default_reallocate avail junk" for avail junk
  by unfold_locales
    (auto simp: default_reallocate_def res_simps rd_n_in wr_n_in dest: c_malloc_length
      split: if_splits option.splits)

text \<open>An allocator that ends the program when it is told a wrong size of the block that it gets back.\<close>

definition strict_reallocate :: "(nat \<Rightarrow> bool) \<Rightarrow> (nat \<Rightarrow> byte) \<Rightarrow> reallocate_fn" where
  "strict_reallocate avail junk p n a k =
     (if (case p of None \<Rightarrow> False | Some old \<Rightarrow> k \<noteq> length old) then Inl Abort_called
      else default_reallocate avail junk p n a k)"

interpretation strict_alloc: exact_allocator "strict_reallocate avail junk" for avail junk
proof
  fix n p a k b got
  assume "0 < n" "strict_reallocate avail junk p n a k = Inr (Some (b, got))"
  then show "length b = got \<and> n \<le> got"
    using default_alloc.got_size [of n avail junk p a k b got] by (simp add: strict_reallocate_def split: if_splits)
qed (use default_alloc.keeps default_alloc.in_bounds default_alloc.exact default_alloc.no_abort in
    \<open>auto simp: strict_reallocate_def split: if_splits\<close>)

lemma strict_none: "0 < n \<Longrightarrow>
  mlib_reallocate (strict_reallocate avail junk) p n a (case p of None \<Rightarrow> k | Some old \<Rightarrow> length old) = Inr None \<longleftrightarrow> \<not> avail n"
  by (auto simp: mlib_reallocate_def strict_reallocate_def default_reallocate_def c_realloc_def c_malloc_def res_simps
      rd_n_in wr_n_in split: option.splits if_splits)

lemma strict_free: "k = length old \<Longrightarrow> mlib_reallocate (strict_reallocate avail junk) (Some old) 0 a k = Inr None"
  by (simp add: mlib_reallocate_def strict_reallocate_def default_reallocate_def)

section \<open>Properties\<close>

text \<open>
  The default allocator, on any C heap, either reports failure without a fault or returns a
  block of the requested size whose common prefix with the previous block is unchanged.
\<close>

theorem default_reallocate_contract:
  assumes "0 < n"
  shows "default_reallocate avail junk (Some old) n a (length old) = Inr None \<or>
    (\<exists>b. default_reallocate avail junk (Some old) n a (length old) = Inr (Some (b, n)) \<and> length b = n \<and>
       take (min n (length old)) b = take (min n (length old)) old)"
proof (cases "default_reallocate avail junk (Some old) n a (length old)")
  case (Inl e)
  with default_alloc.no_abort(1) show ?thesis by blast
next
  case (Inr r)
  moreover have "got = n" if "r = Some (b, got)" for b got
    using Inr that default_alloc.exact by blast
  ultimately show ?thesis
    using default_alloc.got_size [OF assms, of avail junk "Some old" a "length old"]
      default_alloc.keeps [OF assms, of avail junk old a]
    by (cases r) auto
qed

theorem default_reallocate_contract_witness:
  "\<exists>b. default_reallocate (\<lambda>_. True) (\<lambda>_. 0) (Some [1, 2]) 3 1 2 = Inr (Some (b, 3)) \<and> take 2 b = [1, 2]"
proof -
  have "default_reallocate (\<lambda>_. True) (\<lambda>_. 0) (Some [1, 2]) 3 1 2 \<noteq> Inr None"
    by (simp add: default_reallocate_def c_realloc_def c_malloc_def)
  then show ?thesis
    using default_reallocate_contract [of 3 "\<lambda>_. True" "\<lambda>_. 0" "[1, 2]" 1] by (auto simp: numeral_2_eq_2)
qed

end
