(* ===== verification/Bson_Doc.thy ===== *)
theory Bson_Doc
  imports Bson_Values Mlib_Alloc
begin

text \<open>
  Owned documents (\<^verbatim>\<open>include/bson/doc.h\<close>). The buffer of a document starts with a four-byte cookie
  that holds its capacity; the document data follow. A new document refers to a statically
  allocated empty document that must never be written: \<open>dc_static\<close> says that the document data
  pointer is the address of this constant, and writing through it is the fault of a write
  outside every block. All pointers into a document are offsets in \<open>dc_buf\<close>.
\<close>

section \<open>Documents\<close>

record bson_doc =
  dc_buf :: bytes
  dc_static :: bool

definition global_empty_doc :: bytes where
  "global_empty_doc = [5, 0, 0, 0, 5, 0, 0, 0, 0]"

text \<open>The address of the document data in the buffer.\<close>

abbreviation doc_data_ptr :: int where "doc_data_ptr \<equiv> 4"

definition bson_doc_capacity :: "bson_doc \<Rightarrow> u32 res" where
  "bson_doc_capacity d = bson_read_u32le (dc_buf d) (doc_data_ptr - 4)"

definition bson_realloc :: "reallocate_fn \<Rightarrow> bson_doc \<Rightarrow> nat \<Rightarrow> (bson_doc \<times> bool) res" where
  "bson_realloc alloc doc new_size =
     (let cookie_size = 4 in
      if int new_size > INT32_MAX - cookie_size then Inr (doc, False)
      else
        bindR (if dc_static doc then Inr (None, 0)
               else bindR (bson_doc_capacity doc) (\<lambda>c.
                 Inr (Some (dc_buf doc), unat (c + 4)))) (\<lambda>(prev_buf, prev_alloc_size).
        let want_size = new_size + 4 in
        bindR (mlib_reallocate alloc prev_buf want_size 1 prev_alloc_size) (\<lambda>r.
        case r of None \<Rightarrow> Inr (doc, False)
        | Some (new_buf, got_size) \<Rightarrow>
            bv_assert (got_size \<ge> want_size)
            (bv_assert (int got_size \<le> INT32_MAX)
            (bindR (bson_write_u32le new_buf 0 (word_of_nat (got_size - 4))) (\<lambda>(new_buf, _).
             bindR (if prev_buf = None then wr_n new_buf doc_data_ptr (drop 4 global_empty_doc)
                    else Inr new_buf) (\<lambda>new_buf.
             Inr (\<lparr>dc_buf = new_buf, dc_static = False\<rparr>, True))))))))"

definition bson_doc_reserve :: "reallocate_fn \<Rightarrow> bson_doc \<Rightarrow> nat \<Rightarrow> (bson_doc \<times> int) res" where
  "bson_doc_reserve alloc d req_size =
     bindR (bson_doc_capacity d) (\<lambda>c.
     if unat c \<ge> req_size then Inr (d, to_i32 c)
     else bindR (bson_realloc alloc d req_size) (\<lambda>(d, ok).
          if \<not> ok then Inr (d, - 1)
          else bindR (bson_doc_capacity d) (\<lambda>c. Inr (d, to_i32 c))))"

text \<open>Storing to the data of a document.\<close>

definition doc_write :: "bson_doc \<Rightarrow> int \<Rightarrow> bytes \<Rightarrow> bson_doc res" where
  "doc_write d p bs =
     (if bs = [] then Inr d
      else if dc_static d then Inl Out_of_bounds
      else bindR (wr_n (dc_buf d) p bs) (\<lambda>b. Inr (d\<lparr>dc_buf := b\<rparr>)))"

definition empty_doc :: bson_doc where
  "empty_doc = \<lparr>dc_buf = global_empty_doc, dc_static = True\<rparr>"

text \<open>
  \<^verbatim>\<open>_bson_new\<close>. The reservation reports failure as \<open>-1\<close>, and the code tests for zero.
\<close>

definition bson_new :: "reallocate_fn \<Rightarrow> nat \<Rightarrow> bson_doc res" where
  "bson_new alloc reserve =
     (if reserve > 5 then
        bindR (bson_doc_reserve alloc empty_doc reserve) (\<lambda>(d, r).
        if r = 0 then Inr d
        else bindR (bson_doc_capacity d) (\<lambda>c.
             bindR (doc_write d doc_data_ptr (replicate (unat c) 0)) (\<lambda>d.
             doc_write d doc_data_ptr [5])))
      else Inr empty_doc)"

definition bson_copy_view_with_allocator :: "reallocate_fn \<Rightarrow> doc_view \<Rightarrow> bson_doc res" where
  "bson_copy_view_with_allocator alloc other =
     bindR (bson_new alloc (length (view_bytes other))) (\<lambda>ret.
     if dc_static ret then Inr ret
     else doc_write ret doc_data_ptr (view_bytes other))"

definition bson_delete :: "reallocate_fn \<Rightarrow> bson_doc option \<Rightarrow> unit res" where
  "bson_delete alloc d =
     (case d of None \<Rightarrow> Inr ()
      | Some d \<Rightarrow>
          if dc_static d then Inr ()
          else bindR (bson_doc_capacity d) (\<lambda>c.
               bindR (mlib_reallocate alloc (Some (dc_buf d)) 0 1 (unat (c + 4))) (\<lambda>_. Inr ())))"

section \<open>The representation invariant\<close>

definition doc_inv :: "bson_doc \<Rightarrow> bool" where
  "doc_inv d \<longleftrightarrow>
     (dc_static d \<longrightarrow> dc_buf d = global_empty_doc) \<and>
     int (length (dc_buf d)) \<le> INT32_MAX \<and>
     take 4 (dc_buf d) = u32le (word_of_nat (length (dc_buf d) - 4)) \<and>
     doc_at (dc_buf d) doc_data_ptr"

text \<open>The bytes of the document: what \<^verbatim>\<open>bson_data\<close> and \<^verbatim>\<open>bson_size\<close> delimit.\<close>

definition doc_data :: "bson_doc \<Rightarrow> bytes" where
  "doc_data d = take (nat (doc_len (dc_buf d) doc_data_ptr)) (drop 4 (dc_buf d))"

lemma doc_inv_bounds:
  assumes "doc_inv d"
  shows "9 \<le> length (dc_buf d)" "5 \<le> doc_len (dc_buf d) doc_data_ptr"
    "doc_len (dc_buf d) doc_data_ptr \<le> int (length (dc_buf d)) - 4"
    "int (length (dc_buf d)) \<le> INT32_MAX"
  using assms by (auto simp: doc_inv_def doc_at_def)

lemma length_doc_data:
  "doc_inv d \<Longrightarrow> int (length (doc_data d)) = doc_len (dc_buf d) doc_data_ptr"
  using doc_inv_bounds [of d] by (simp add: doc_data_def)

lemma doc_capacity_inv:
  assumes "doc_inv d"
  shows "bson_doc_capacity d = Inr (word_of_nat (length (dc_buf d) - 4))"
  using assms doc_inv_bounds [OF assms]
  by (simp add: bson_doc_capacity_def bson_read_u32le_in doc_inv_def)

lemma unat_of_nat_u32: "int n \<le> INT32_MAX \<Longrightarrow> unat (word_of_nat n :: u32) = n"
  by (rule unat_of_to_i32) (rule to_i32_of_nat)

lemma doc_capacityE:
  assumes "doc_inv d"
  obtains c where "bson_doc_capacity d = Inr c" "unat c = length (dc_buf d) - 4"
    "to_i32 c = int (length (dc_buf d)) - 4"
proof (rule that [OF doc_capacity_inv [OF assms]])
  have "int (length (dc_buf d) - 4) \<le> INT32_MAX" using doc_inv_bounds(4) [OF assms] by simp
  from unat_of_nat_u32 [OF this] to_i32_of_nat [OF this] doc_inv_bounds(1) [OF assms]
  show "unat (word_of_nat (length (dc_buf d) - 4) :: u32) = length (dc_buf d) - 4"
    "to_i32 (word_of_nat (length (dc_buf d) - 4)) = int (length (dc_buf d)) - 4"
    by (simp_all only: of_nat_diff)
qed

lemma doc_inv_empty: "doc_inv empty_doc" "doc_data empty_doc = [5, 0, 0, 0, 0]"
  by (simp_all add: doc_inv_def empty_doc_def global_empty_doc_def u32le_def doc_at_def doc_len_def
      to_i32_def doc_data_def)

text \<open>A buffer with a cookie in front of document data.\<close>

lemma doc_inv_layout:
  assumes "subdoc_ok data" "int (length data + length rest) + 4 \<le> INT32_MAX"
    and "d = \<lparr>dc_buf = u32le (word_of_nat (length data + length rest)) @ data @ rest, dc_static = False\<rparr>"
  shows "doc_inv d" "doc_data d = data"
proof -
  have s: "doc_len data 0 = int (length data)" "5 \<le> length data" "data ! (length data - 1) = 0"
    using assms(1) by (auto simp: subdoc_ok_def doc_at_def nat_diff_distrib)
  then have l: "doc_len (dc_buf d) doc_data_ptr = int (length data)"
    by (simp add: assms(3) doc_len_def)
  have "dc_buf d ! nat (4 + int (length data) - 1) = data ! (length data - 1)"
    using s(2) by (auto simp: assms(3) nth_append nat_diff_distrib nat_add_distrib)
  then show "doc_inv d"
    using assms(2,3) l s by (simp add: doc_inv_def doc_at_def)
  show "doc_data d = data" by (simp add: doc_data_def l) (simp add: assms(3))
qed

lemma doc_inv_split:
  assumes "doc_inv d"
  obtains rest where
    "dc_buf d = u32le (word_of_nat (length (doc_data d) + length rest)) @ doc_data d @ rest"
    "subdoc_ok (doc_data d)" "int (length (doc_data d) + length rest) + 4 \<le> INT32_MAX"
proof -
  note b = doc_inv_bounds [OF assms] and l = length_doc_data [OF assms]
  define rest where "rest = drop (nat (doc_len (dc_buf d) doc_data_ptr)) (drop 4 (dc_buf d))"
  have dr: "drop 4 (dc_buf d) = doc_data d @ rest"
    by (simp only: rest_def doc_data_def append_take_drop_id)
  then have buf: "dc_buf d = take 4 (dc_buf d) @ doc_data d @ rest"
    using append_take_drop_id [of 4 "dc_buf d"] by simp
  have len: "length (dc_buf d) - 4 = length (doc_data d) + length rest"
    using arg_cong [OF dr, of length] by simp
  have dl: "doc_len (doc_data d) 0 = doc_len (dc_buf d) doc_data_ptr"
    using b by (simp add: doc_len_def doc_data_def min_def)
  have "doc_data d ! (length (doc_data d) - 1) = dc_buf d ! nat (4 + doc_len (dc_buf d) 4 - 1)"
    using b l by (simp add: doc_data_def nat_diff_distrib nat_add_distrib)
  moreover have "nat (doc_len (doc_data d) 0 - 1) = length (doc_data d) - 1"
    using l dl by simp
  ultimately have "subdoc_ok (doc_data d)"
    using assms b l dl by (simp add: subdoc_ok_def doc_at_def doc_inv_def)
  with that [of rest] buf len b assms show thesis by (simp add: doc_inv_def)
qed

section \<open>Reallocation\<close>

context allocator
begin

text \<open>The previous buffer, as the allocator is told of it.\<close>

lemma realloc_prev:
  assumes "doc_inv d"
  shows "bindR (if dc_static d then Inr (None, 0) else bindR (bson_doc_capacity d)
      (\<lambda>c. Inr (Some (dc_buf d), unat (c + 4)))) f =
    f (if dc_static d then (None, 0) else (Some (dc_buf d), length (dc_buf d)))"
proof -
  note b = doc_inv_bounds [OF assms]
  have "word_of_nat (length (dc_buf d) - 4) + 4 = (word_of_nat (length (dc_buf d)) :: u32)"
    using b(1) by (simp add: of_nat_diff)
  then show ?thesis using b(4) by (simp add: doc_capacity_inv [OF assms] unat_of_nat_u32)
qed

text \<open>The buffer after a successful request: the cookie, the document, more room.\<close>

lemma realloc_layout:
  assumes inv: "doc_inv d" and n: "length (dc_buf d) \<le> n + 4" "int n \<le> INT32_MAX - 4"
    and r: "mlib_reallocate realloc (if dc_static d then None else Some (dc_buf d)) (n + 4) 1
      (if dc_static d then 0 else length (dc_buf d)) = Inr (Some (nb, got))"
  obtains rest where "length (doc_data d) + length rest = got - 4" "n + 4 \<le> got"
    "bson_realloc realloc d n =
      (if int got \<le> INT32_MAX
       then Inr (\<lparr>dc_buf = u32le (word_of_nat (got - 4)) @ doc_data d @ rest, dc_static = False\<rparr>, True)
       else Inl Assert_fail)"
proof (cases "dc_static d")
  case True
  let ?c = "u32le (word_of_nat (got - 4))"
  have g: "length nb = got" "n + 4 \<le> got" "9 \<le> got"
    using r True fresh [of "n + 4" 1 nb got] doc_inv_bounds(1) [OF inv] n by auto
  have "doc_data d = drop 4 global_empty_doc"
    using True inv doc_inv_empty by (simp add: doc_inv_def doc_data_def empty_doc_def)
      (simp add: global_empty_doc_def)
  moreover have "bson_write_u32le nb 0 (word_of_nat (got - 4)) = Inr (?c @ drop 4 nb, 4)"
    using g by (simp add: bson_write_u32le_def wr_n_in)
  moreover have "wr_n (?c @ drop 4 nb) 4 (drop 4 global_empty_doc) =
      Inr (?c @ drop 4 global_empty_doc @ drop 9 nb)"
    using g by (simp add: wr_n_in global_empty_doc_def)
  ultimately show thesis
    using that [of "drop 9 nb"] True r g n
    by (auto simp: bson_realloc_def realloc_prev [OF inv] Let_def bv_assert_def global_empty_doc_def)
next
  case False
  let ?c = "u32le (word_of_nat (got - 4))"
  from inv obtain rest where s:
    "dc_buf d = u32le (word_of_nat (length (doc_data d) + length rest)) @ doc_data d @ rest"
    by (rule doc_inv_split)
  obtain new where nb: "nb = dc_buf d @ new" "length nb = got" "n + 4 \<le> got"
    using r False grown [OF n(1), of 1 nb got] by auto
  have "bson_write_u32le nb 0 (word_of_nat (got - 4)) = Inr (?c @ doc_data d @ rest @ new, 4)"
    using nb s by (simp add: bson_write_u32le_def wr_n_in)
  then have "bson_realloc realloc d n =
      (if int got \<le> INT32_MAX
       then Inr (\<lparr>dc_buf = ?c @ doc_data d @ rest @ new, dc_static = False\<rparr>, True)
       else Inl Assert_fail)"
    unfolding bson_realloc_def Let_def realloc_prev [OF inv]
    using False r nb(3) n(2) by (simp add: bv_assert_def)
  moreover have "length (doc_data d) + length (rest @ new) = got - 4"
    using nb(1,2) arg_cong [OF s, of length] by simp
  ultimately show thesis
    using that [of "rest @ new"] nb(3) by blast
qed

text \<open>Growing the buffer keeps the document and the invariant, and reads nothing else.\<close>

lemma realloc_grows:
  assumes "doc_inv d" "length (dc_buf d) \<le> n + 4"
  shows "case bson_realloc realloc d n of
      Inl e \<Rightarrow> e \<noteq> Out_of_bounds
    | Inr (d', ok) \<Rightarrow>
        if ok then doc_inv d' \<and> \<not> dc_static d' \<and> doc_data d' = doc_data d \<and> n + 4 \<le> length (dc_buf d')
        else d' = d"
proof (cases "int n > INT32_MAX - 4")
  case False
  let ?r = "mlib_reallocate realloc (if dc_static d then None else Some (dc_buf d)) (n + 4) 1
    (if dc_static d then 0 else length (dc_buf d))"
  have r: "?r \<noteq> Inl Out_of_bounds" using in_bounds by (simp add: mlib_reallocate_def)
  consider e where "?r = Inl e" | "?r = Inr None" | nb got where "?r = Inr (Some (nb, got))"
    by (metis option.exhaust prod.exhaust sum.exhaust)
  then show ?thesis
  proof cases
    case (3 nb got)
    from assms(1) have s: "subdoc_ok (doc_data d)" by (rule doc_inv_split)
    from False have "int n \<le> INT32_MAX - 4" by simp
    with assms obtain rest where l: "length (doc_data d) + length rest = got - 4" "n + 4 \<le> got"
      "bson_realloc realloc d n =
        (if int got \<le> INT32_MAX
         then Inr (\<lparr>dc_buf = u32le (word_of_nat (got - 4)) @ doc_data d @ rest, dc_static = False\<rparr>, True)
         else Inl Assert_fail)"
      using 3 by (rule realloc_layout)
    show ?thesis
    proof (cases "int got \<le> INT32_MAX")
      case True
      then have "int (length (doc_data d) + length rest) + 4 \<le> INT32_MAX" using l(1,2) by simp
      from doc_inv_layout [OF s this refl] True l show ?thesis by simp
    qed (simp add: l)
  qed (unfold bson_realloc_def Let_def realloc_prev [OF assms(1)],
      use False r in \<open>auto split: if_splits\<close>)
qed (simp add: bson_realloc_def)

text \<open>\<^verbatim>\<open>bson_doc_reserve\<close>: a negative result leaves the document as it was.\<close>

lemma reserve_spec:
  assumes "doc_inv d"
  shows "case bson_doc_reserve realloc d n of
      Inl e \<Rightarrow> e \<noteq> Out_of_bounds
    | Inr (d', r) \<Rightarrow>
        if r < 0 then d' = d
        else doc_inv d' \<and> doc_data d' = doc_data d \<and> r = int (length (dc_buf d')) - 4 \<and> int n \<le> r \<and>
          (dc_static d' \<longrightarrow> d' = d)"
proof -
  obtain c where c: "bson_doc_capacity d = Inr c" "unat c = length (dc_buf d) - 4"
    "to_i32 c = int (length (dc_buf d)) - 4"
    using assms by (rule doc_capacityE)
  show ?thesis
  proof (cases "n \<le> length (dc_buf d) - 4")
    case True
    then show ?thesis
      using c assms doc_inv_bounds(1) [OF assms] by (auto simp: bson_doc_reserve_def)
  next
    case False
    then have "length (dc_buf d) \<le> n + 4" by simp
    note g = realloc_grows [OF assms this]
    show ?thesis
    proof (cases "bson_realloc realloc d n")
      case (Inl e)
      with g False c show ?thesis by (simp add: bson_doc_reserve_def)
    next
      case (Inr q)
      then obtain d' ok where q: "bson_realloc realloc d n = Inr (d', ok)" by (cases q) auto
      show ?thesis
      proof (cases ok)
        case True
        with g q have d': "doc_inv d'" "\<not> dc_static d'" "doc_data d' = doc_data d" "n + 4 \<le> length (dc_buf d')"
          by simp_all
        from d'(1) obtain c' where c': "bson_doc_capacity d' = Inr c'"
          "to_i32 c' = int (length (dc_buf d')) - 4"
          by (rule doc_capacityE)
        show ?thesis using c c' d' q True False by (simp add: bson_doc_reserve_def)
      qed (use g q c False in \<open>simp add: bson_doc_reserve_def\<close>)
    qed
  qed
qed

end

section \<open>New documents\<close>

lemma doc_write_layout:
  assumes "d = \<lparr>dc_buf = pre @ old @ post, dc_static = False\<rparr>" "p = int (length pre)"
    and "length old = length bs"
  shows "doc_write d p bs = Inr \<lparr>dc_buf = pre @ bs @ post, dc_static = False\<rparr>"
  using assms wr_n_append_at [of p pre old bs post] by (auto simp: doc_write_def)

context allocator
begin

lemma new_spec:
  assumes "5 < n" "bson_doc_reserve realloc empty_doc n = Inr (d, r)" "0 \<le> r"
  obtains d' where "bson_new realloc n = Inr d'" "doc_inv d'" "\<not> dc_static d'"
    "doc_data d' = [5, 0, 0, 0, 0]" "n + 4 \<le> length (dc_buf d')"
proof -
  have d: "doc_inv d" "doc_data d = [5, 0, 0, 0, 0]" "r = int (length (dc_buf d)) - 4" "int n \<le> r"
    "\<not> dc_static d"
    using reserve_spec [OF doc_inv_empty(1), of n] assms doc_inv_empty(2)
    by (auto simp: empty_doc_def global_empty_doc_def)
  from d(1) obtain rest where s: "dc_buf d = u32le (word_of_nat (5 + length rest)) @ [5, 0, 0, 0, 0] @ rest"
    "subdoc_ok [5, 0, 0, 0, 0]" "int (5 + length rest) + 4 \<le> INT32_MAX"
    by (rule doc_inv_split) (auto simp: d(2))
  let ?c = "u32le (word_of_nat (5 + length rest))"
  let ?z = "replicate (length rest) 0"
  from d(1) obtain c where cap: "bson_doc_capacity d = Inr c" "unat c = 5 + length rest"
    by (rule doc_capacityE) (simp add: s(1))
  have e: "d = \<lparr>dc_buf = ?c @ ([5, 0, 0, 0, 0] @ rest) @ [], dc_static = False\<rparr>"
    using s(1) d(5) by (cases d) simp
  have w: "doc_write d 4 (replicate (5 + length rest) 0) =
      Inr \<lparr>dc_buf = ?c @ replicate (5 + length rest) 0, dc_static = False\<rparr>"
    using doc_write_layout [OF e, of 4 "replicate (5 + length rest) 0"] by simp
  have z: "replicate (5 + length rest) 0 = [0] @ ([0, 0, 0, 0] @ ?z :: bytes)"
    by (simp add: numeral_eq_Suc)
  have "doc_write \<lparr>dc_buf = ?c @ replicate (5 + length rest) 0, dc_static = False\<rparr> 4 [5] =
      Inr \<lparr>dc_buf = ?c @ [5, 0, 0, 0, 0] @ ?z, dc_static = False\<rparr>"
    unfolding z using doc_write_layout [OF refl, of 4 ?c "[0]" "[5]" "[0, 0, 0, 0] @ ?z"] by simp
  then have "bson_new realloc n = Inr \<lparr>dc_buf = ?c @ [5, 0, 0, 0, 0] @ ?z, dc_static = False\<rparr>"
    using assms d(3,4) cap w by (simp add: bson_new_def)
  moreover have "n + 4 \<le> 9 + length rest" using d(3,4) s(1) by simp
  ultimately show thesis
    using that doc_inv_layout [OF s(2), of ?z] s(3) by simp
qed

lemma copy_spec:
  assumes "subdoc_ok data" "5 < length data"
    and "bson_doc_reserve realloc empty_doc (length data) = Inr (d, r)" "0 \<le> r"
  obtains d' where "bson_copy_view_with_allocator realloc (Some data) = Inr d'" "doc_inv d'"
    "doc_data d' = data"
proof -
  obtain d1 where d1: "bson_new realloc (length data) = Inr d1" "doc_inv d1" "\<not> dc_static d1"
    "doc_data d1 = [5, 0, 0, 0, 0]" "length data + 4 \<le> length (dc_buf d1)"
    using assms(2-4) by (rule new_spec)
  from d1(2) obtain rest where s: "dc_buf d1 = u32le (word_of_nat (5 + length rest)) @ [5, 0, 0, 0, 0] @ rest"
    "int (5 + length rest) + 4 \<le> INT32_MAX"
    by (rule doc_inv_split) (auto simp: d1(4))
  let ?c = "u32le (word_of_nat (5 + length rest))" and ?o = "[5, 0, 0, 0, 0] @ rest"
  let ?r = "drop (length data) ?o"
  have l: "length data \<le> length ?o" using d1(5) s(1) by simp
  have "d1 = \<lparr>dc_buf = ?c @ take (length data) ?o @ ?r, dc_static = False\<rparr>"
    using s(1) d1(3) by (cases d1) simp
  then have "doc_write d1 4 data = Inr \<lparr>dc_buf = ?c @ data @ ?r, dc_static = False\<rparr>"
    by (rule doc_write_layout) (use l in simp_all)
  then have "bson_copy_view_with_allocator realloc (Some data) =
      Inr \<lparr>dc_buf = ?c @ data @ ?r, dc_static = False\<rparr>"
    using d1 by (simp add: bson_copy_view_with_allocator_def view_bytes_def)
  moreover have "5 + length rest = length data + length ?r" using l by simp
  ultimately show thesis
    using that doc_inv_layout [OF assms(1) _ refl, of ?r] s(2) by (simp only:)
qed

end

context exact_allocator
begin

text \<open>Reallocation returns, and it fails only beyond the size limit or if the allocator does.\<close>

lemma realloc_returns:
  assumes "doc_inv d" "length (dc_buf d) \<le> n + 4"
  shows "\<exists>d' ok. bson_realloc realloc d n = Inr (d', ok) \<and>
    (\<not> ok \<longrightarrow> INT32_MAX - 4 < int n \<or>
      realloc (if dc_static d then None else Some (dc_buf d)) (n + 4) 1
        (if dc_static d then 0 else length (dc_buf d)) = Inr None)"
proof (cases "int n > INT32_MAX - 4")
  case False
  let ?r = "mlib_reallocate realloc (if dc_static d then None else Some (dc_buf d)) (n + 4) 1
    (if dc_static d then 0 else length (dc_buf d))"
  have "?r \<noteq> Inl e'" for e' using no_abort by (simp add: mlib_reallocate_def)
  then consider "?r = Inr None" | nb got where "?r = Inr (Some (nb, got))"
    by (metis option.exhaust prod.exhaust sum.exhaust)
  then show ?thesis
  proof cases
    case 1
    then show ?thesis
      unfolding bson_realloc_def Let_def realloc_prev [OF assms(1)]
      using False by (auto simp: mlib_reallocate_def split: if_splits)
  next
    case (2 nb got)
    then have got: "got = n + 4" using exact by (metis mlib_reallocate_def)
    from False have n: "int n \<le> INT32_MAX - 4" by simp
    from assms n 2 show ?thesis
      by (rule realloc_layout) (use got n in auto)
  qed
qed (auto simp: bson_realloc_def)

lemma reserve_total:
  assumes "doc_inv d"
  obtains d' r where "bson_doc_reserve realloc d n = Inr (d', r)" "doc_inv d'"
    "doc_data d' = doc_data d" "r < 0 \<Longrightarrow> d' = d"
    "0 \<le> r \<Longrightarrow> int n \<le> r \<and> r = int (length (dc_buf d')) - 4"
    "r < 0 \<Longrightarrow> INT32_MAX - 4 < int n \<or>
      realloc (if dc_static d then None else Some (dc_buf d)) (n + 4) 1
        (if dc_static d then 0 else length (dc_buf d)) = Inr None"
proof -
  obtain c where c: "bson_doc_capacity d = Inr c" "unat c = length (dc_buf d) - 4"
    "to_i32 c = int (length (dc_buf d)) - 4"
    using assms by (rule doc_capacityE)
  have "\<exists>d' r. bson_doc_reserve realloc d n = Inr (d', r) \<and> (r < 0 \<longrightarrow> INT32_MAX - 4 < int n \<or>
      realloc (if dc_static d then None else Some (dc_buf d)) (n + 4) 1
        (if dc_static d then 0 else length (dc_buf d)) = Inr None)"
  proof (cases "n \<le> length (dc_buf d) - 4")
    case True
    with c doc_inv_bounds(1) [OF assms] show ?thesis by (simp add: bson_doc_reserve_def)
  next
    case False
    then have le: "length (dc_buf d) \<le> n + 4" by simp
    from realloc_returns [OF assms le] obtain d' ok where r: "bson_realloc realloc d n = Inr (d', ok)"
      "\<not> ok \<Longrightarrow> INT32_MAX - 4 < int n \<or>
        realloc (if dc_static d then None else Some (dc_buf d)) (n + 4) 1
          (if dc_static d then 0 else length (dc_buf d)) = Inr None" by blast
    show ?thesis
    proof (cases ok)
      case True
      with realloc_grows [OF assms le] r(1) have "doc_inv d'" by simp
      then show ?thesis
        by (rule doc_capacityE)
          (use True r(1) c False doc_inv_bounds(1) [OF \<open>doc_inv d'\<close>] in \<open>simp add: bson_doc_reserve_def\<close>)
    qed (use r c False in \<open>simp add: bson_doc_reserve_def\<close>)
  qed
  then obtain d' r where e: "bson_doc_reserve realloc d n = Inr (d', r)"
    "r < 0 \<Longrightarrow> INT32_MAX - 4 < int n \<or>
      realloc (if dc_static d then None else Some (dc_buf d)) (n + 4) 1
        (if dc_static d then 0 else length (dc_buf d)) = Inr None" by blast
  with reserve_spec [OF assms, of n] have f: "r < 0 \<Longrightarrow> d' = d"
    "\<not> r < 0 \<Longrightarrow> doc_inv d' \<and> doc_data d' = doc_data d \<and> r = int (length (dc_buf d')) - 4 \<and> int n \<le> r"
    by simp_all
  show thesis
    by (rule that [OF e(1)]) (use f e(2) assms in \<open>cases "r < 0"; simp\<close>)+
qed

end

section \<open>Properties\<close>

text \<open>
  Growing a document through any allocator that keeps its contract never touches memory
  outside the buffers; it either fails and leaves the document as it was, or yields a document
  with the same bytes, a correct capacity cookie and at least the requested capacity. Stated for
  the default allocator on any C heap, where the only abort is that of an allocation beyond the
  limit of 32 bits, which cannot occur.
\<close>

theorem reserve_preserves_document:
  assumes "doc_inv d"
  shows "\<exists>d' r. bson_doc_reserve (default_reallocate avail junk) d n = Inr (d', r) \<and>
    doc_inv d' \<and> doc_data d' = doc_data d \<and>
    (if r < 0 then d' = d else int n \<le> r \<and> r = int (length (dc_buf d')) - 4)"
proof -
  obtain d' r where "bson_doc_reserve (default_reallocate avail junk) d n = Inr (d', r)" "doc_inv d'"
    "doc_data d' = doc_data d" "r < 0 \<Longrightarrow> d' = d"
    "0 \<le> r \<Longrightarrow> int n \<le> r \<and> r = int (length (dc_buf d')) - 4"
    using default_alloc.reserve_total [OF assms] by blast
  then show ?thesis by (intro exI [of _ d'] exI [of _ r]) simp
qed

theorem reserve_preserves_document_witness:
  "\<exists>d' r. bson_doc_reserve (default_reallocate (\<lambda>_. True) (\<lambda>_. 7)) empty_doc 20 = Inr (d', r) \<and>
     doc_data d' = [5, 0, 0, 0, 0]"
  using reserve_preserves_document [OF doc_inv_empty(1), of "\<lambda>_. True" "\<lambda>_. 7" 20]
  by (auto simp: doc_inv_empty(2))

context exact_allocator
begin

lemma copy_total:
  assumes "subdoc_ok data" "int (length data) \<le> INT32_MAX - 4" "realloc None (length data + 4) 1 0 \<noteq> Inr None"
  shows "\<exists>d. bson_copy_view_with_allocator realloc (Some data) = Inr d \<and> doc_inv d \<and> doc_data d = data"
proof (cases "5 < length data")
  case True
  obtain d r where r: "bson_doc_reserve realloc empty_doc (length data) = Inr (d, r)"
    "r < 0 \<Longrightarrow> INT32_MAX - 4 < int (length data) \<or> realloc None (length data + 4) 1 0 = Inr None"
    by (rule reserve_total [OF doc_inv_empty(1), of "length data"]) (simp add: empty_doc_def)
  with assms(2,3) have "0 \<le> r" by fastforce
  from assms(1) True r(1) this show ?thesis
    by (rule copy_spec) blast
next
  case False
  with assms(1) have d: "length data = 5" "doc_len data 0 = 5" "data ! 4 = 0"
    by (auto simp: subdoc_ok_def doc_at_def)
  have "unat (u32_of_bytes (take 4 data)) = unat (5 :: u32)"
    using unat_of_to_i32 [of "u32_of_bytes (take 4 data)" 5] d(2) by (simp add: doc_len_def)
  then have "u32_of_bytes (take 4 data) = 5" by (simp only: word_unat_eq_iff)
  then have "take 4 data = u32le 5"
    using u32le_u32_of_bytes [of "take 4 data"] d(1) by simp
  moreover have "data = take 4 data @ [data ! 4]"
    using d(1) take_Suc_conv_app_nth [of 4 data] by simp
  ultimately have "data = [5, 0, 0, 0, 0]" using d(3) by (simp add: u32le_def)
  then show ?thesis
    using doc_inv_empty by (auto simp: bson_copy_view_with_allocator_def bson_new_def view_bytes_def
        empty_doc_def)
qed

end

lemma default_copy:
  assumes "subdoc_ok data" "int (length data) \<le> INT32_MAX - 4" "avail (length data + 4)"
  shows "\<exists>d. bson_copy_view_with_allocator (default_reallocate avail junk) (Some data) = Inr d \<and>
    doc_inv d \<and> doc_data d = data"
  using assms
  by (intro default_alloc.copy_total) (simp_all add: default_reallocate_def c_realloc_def c_malloc_def)

text \<open>
  Copying a valid document whose memory is granted yields an owned document with exactly the
  same bytes.
\<close>

theorem copy_preserves_bytes:
  assumes "subdoc_ok data" "int (length data) \<le> INT32_MAX - 4" "avail (length data + 4)"
  shows "\<exists>d. bson_copy_view_with_allocator (default_reallocate avail junk) (Some data) = Inr d \<and>
    doc_inv d \<and> doc_data d = data"
  using assms by (rule default_copy)

theorem copy_preserves_bytes_witness:
  "\<exists>d. bson_copy_view_with_allocator (default_reallocate (\<lambda>_. True) (\<lambda>_. 7))
         (Some [8, 0, 0, 0, 10, 97, 0, 0]) = Inr d \<and> doc_data d = [8, 0, 0, 0, 10, 97, 0, 0]"
proof -
  have "subdoc_ok [8, 0, 0, 0, 10, 97, 0, 0]"
    by (simp add: subdoc_ok_def doc_at_def doc_len_def to_i32_def)
  then show ?thesis
    using copy_preserves_bytes [of "[8, 0, 0, 0, 10, 97, 0, 0]" "\<lambda>_. True" "\<lambda>_. 7"] by auto
qed

text \<open>
  Creating a document with a reservation that the allocator refuses writes to the statically
  allocated empty document: the failure is reported as \<open>-1\<close> and tested as zero.
\<close>

theorem new_alloc_failure_writes_static:
  assumes "5 < n" "int n \<le> INT32_MAX - 4" "\<not> avail (n + 4)"
  shows "bson_new (default_reallocate avail junk) n = Inl Out_of_bounds"
proof -
  obtain c where c: "bson_doc_capacity empty_doc = Inr c" "unat c = 5"
    by (rule doc_capacityE [OF doc_inv_empty(1)]) (simp add: empty_doc_def global_empty_doc_def)
  have "bson_realloc (default_reallocate avail junk) empty_doc n = Inr (empty_doc, False)"
    using assms by (simp add: bson_realloc_def empty_doc_def mlib_reallocate_def default_reallocate_def
        c_realloc_def c_malloc_def Let_def)
  then have "bson_doc_reserve (default_reallocate avail junk) empty_doc n = Inr (empty_doc, - 1)"
    using c assms(1) by (simp add: bson_doc_reserve_def)
  with c assms(1) show ?thesis
    by (simp add: bson_new_def doc_write_def) (simp add: empty_doc_def)
qed

theorem new_alloc_failure_writes_static_witness:
  "bson_new (default_reallocate (\<lambda>_. False) (\<lambda>_. 0)) 64 = Inl Out_of_bounds"
  using new_alloc_failure_writes_static [of 64 "\<lambda>_. False" "\<lambda>_. 0"] by simp

end
