(* ===== verification/Bson_Mut.thy ===== *)
theory Bson_Mut
  imports Bson_Doc
begin

text \<open>
  Mutation of documents (\<^verbatim>\<open>include/bson/mut.h\<close>). A mutator is a chain of \<^verbatim>\<open>bson_mut\<close> objects: the
  mutator of a subdocument refers to the mutator of its parent, up to the root, whose
  \<^verbatim>\<open>_offset_within_parent_data\<close> is zero and which refers to the owned document. The chain is a list,
  the innermost mutator first; every operation takes the chain and the document and returns both
  updated. Iterators are those of \<open>Bson_Iterator\<close> over the buffer of the document.
\<close>

section \<open>Mutators\<close>

record bson_mut =
  mu_data :: int
  mu_offset :: int

type_synonym mut_chain = "bson_mut list"

definition bson_mutate :: mut_chain where
  "bson_mutate = [\<lparr>mu_data = doc_data_ptr, mu_offset = 0\<rparr>]"

text \<open>
  \<^verbatim>\<open>bson_data\<close>, \<^verbatim>\<open>bson_ssize\<close> and \<^verbatim>\<open>bson_size\<close> of a mutator, through \<^verbatim>\<open>_bson_view_from_ptr\<close>. The null
  pointer that an invalid header gives has no offset in the buffer.
\<close>

definition data_of :: "bson_doc \<Rightarrow> int \<Rightarrow> int res" where
  "data_of doc p =
     bindR (bson_view_from_ptr (dc_buf doc) (Some p)) (\<lambda>v.
     case v of None \<Rightarrow> Inl Out_of_bounds | Some q \<Rightarrow> Inr q)"

definition ssize_of :: "bson_doc \<Rightarrow> int \<Rightarrow> int res" where
  "ssize_of doc p =
     bindR (bson_view_from_ptr (dc_buf doc) (Some p)) (\<lambda>v. bson_byte_ssize (dc_buf doc) v)"

definition size_of :: "bson_doc \<Rightarrow> int \<Rightarrow> int res" where
  "size_of doc p =
     bindR (bson_view_from_ptr (dc_buf doc) (Some p)) (\<lambda>v.
     bindR (bson_byte_size (dc_buf doc) v) (\<lambda>u. Inr (uint u)))"

definition mut_end :: "mut_chain \<Rightarrow> bson_doc \<Rightarrow> bson_iterator res" where
  "mut_end chain doc =
     (case chain of [] \<Rightarrow> Inl Assert_fail | d # _ \<Rightarrow>
        bindR (bson_view_from_ptr (dc_buf doc) (Some (mu_data d))) (\<lambda>v. bson_end (dc_buf doc) v))"

fun bson_mut_capacity :: "mut_chain \<Rightarrow> bson_doc \<Rightarrow> int res" where
  "bson_mut_capacity [] doc = Inl Out_of_bounds"
| "bson_mut_capacity (d # parents) doc =
     (if mu_offset d > 0 then
        (case parents of [] \<Rightarrow> Inl Out_of_bounds
         | parent # _ \<Rightarrow>
             let bytes_before = math_neg (math_I (mu_offset d)) in
             bindR (ssize_of doc (mu_data parent)) (\<lambda>ps.
             let bytes_until_parent_end = mlib_math_sub (math_I ps) bytes_before in
             bindR (ssize_of doc (mu_data d)) (\<lambda>ds.
             let bytes_after = mlib_math_sub bytes_until_parent_end (math_I ds);
                 bytes_other = mlib_math_add bytes_before bytes_after False
             in bindR (bson_mut_capacity parents doc) (\<lambda>pc.
                let bytes_remaining =
                      checkNonNegativeInt32 (mlib_math_sub (math_I pc) bytes_other)
                in bindR (mlib_math_assert_not_flags mlib_integer_allbits bytes_remaining) (\<lambda>r.
                   Inr (uint (ucast (mi_i64 r) :: u32)))))))
      else bindR (bson_doc_capacity doc) (\<lambda>c. Inr (uint c)))"

definition bson_mut_data_at :: "bson_mut \<Rightarrow> bson_doc \<Rightarrow> bson_iterator \<Rightarrow> int res" where
  "bson_mut_data_at d doc pos =
     bindR (it_deref pos) (\<lambda>p.
     bindR (data_of doc (mu_data d)) (\<lambda>q.
     let off = p - q in Inr (mu_data d + off)))"

section \<open>Splicing\<close>

text \<open>
  The part of \<^verbatim>\<open>_bson_splice_region\<close> that the root mutator runs: growing the buffer if needed,
  moving the tail, and filling the gap. \<open>None\<close> is the returned null pointer.
\<close>

definition splice_move ::
  "bson_doc \<Rightarrow> int \<Rightarrow> nat \<Rightarrow> nat \<Rightarrow> bytes option \<Rightarrow> mlib_math_fail_info \<Rightarrow>
   (bson_doc \<times> int option) res" where
  "splice_move doc position n_delete n_insert insert_from info =
     bindR (size_of doc doc_data_ptr) (\<lambda>sz.
     let doc_begin = doc_data_ptr;
         doc_end = doc_begin + sz;
         move_dest = position + int n_insert;
         move_from = position + int n_delete;
         (info, data_remain) = castNonNegativeInt32 info (math_I (doc_end - move_from))
     in if mlib_math_catch info then Inr (doc, None)
        else if dc_static doc then Inl Out_of_bounds
        else
          bindR (bson_memmove (dc_buf doc) move_dest move_from (nat data_remain)) (\<lambda>(m, _).
          bindR (case insert_from of
                   Some src \<Rightarrow> bindR (rd_n src 0 n_insert) (\<lambda>bs. wr_n m position bs)
                 | None \<Rightarrow> bindR (bson_memset m position 88 n_insert) (\<lambda>(m, _). Inr m)) (\<lambda>m.
          Inr (doc\<lparr>dc_buf := m\<rparr>, Some position))))"

definition splice_root ::
  "reallocate_fn \<Rightarrow> bson_mut \<Rightarrow> bson_doc \<Rightarrow> int \<Rightarrow> int \<Rightarrow> int \<Rightarrow> nat \<Rightarrow> nat \<Rightarrow> bytes option \<Rightarrow>
   mlib_math_fail_info \<Rightarrow> (bson_mut \<times> bson_doc \<times> int option) res" where
  "splice_root alloc mut doc position pos_offset new_doc_size n_delete n_insert insert_from info =
     bindR (data_of doc doc_data_ptr) (\<lambda>db.
     bindR (ssize_of doc doc_data_ptr) (\<lambda>ds.
     let doc_data_end = db + ds;
         (info, avail_to_delete) = castNonNegativeInt32 info (math_I (doc_data_end - position))
     in if mlib_math_catch info then Inr (mut, doc, None)
        else if int n_delete > avail_to_delete then Inr (mut, doc, None)
        else
          bindR (bson_mut_capacity [mut] doc) (\<lambda>cap.
          if new_doc_size > cap then
            (let (info, new_capacity) =
               castNonNegativeInt32 info (mlib_math_add (math_I new_doc_size) (math_I 512) False)
             in if mlib_math_catch info then Inr (mut, doc, None)
                else
                  bindR (bson_doc_reserve alloc doc (nat new_capacity)) (\<lambda>(doc, r).
                  if r < 0 then Inr (mut, doc, None)
                  else bindR (splice_move doc (doc_data_ptr + pos_offset) n_delete n_insert insert_from info)
                         (\<lambda>(doc, out). Inr (mut\<lparr>mu_data := doc_data_ptr\<rparr>, doc, out))))
          else bindR (splice_move doc position n_delete n_insert insert_from info)
                 (\<lambda>(doc, out). Inr (mut, doc, out)))))"

fun bson_splice_region ::
  "reallocate_fn \<Rightarrow> mut_chain \<Rightarrow> bson_doc \<Rightarrow> int \<Rightarrow> nat \<Rightarrow> nat \<Rightarrow> bytes option \<Rightarrow>
   (mut_chain \<times> bson_doc \<times> int option) res" where
  "bson_splice_region alloc [] doc position n_delete n_insert insert_from = Inl Out_of_bounds"
| "bson_splice_region alloc (mut # parents) doc position n_delete n_insert insert_from =
     bindR (data_of doc (mu_data mut)) (\<lambda>db.
     let pos_offset = position - db in
     bv_assert (pos_offset \<ge> 4)
     (bindR (ssize_of doc (mu_data mut)) (\<lambda>sz.
      bv_assert (pos_offset < sz)
      (let (info, size_diff) =
             castInt32 mlib_math_try (mlib_math_sub (math_U (int n_insert)) (math_U (int n_delete)));
           (info, new_doc_size) =
             castNonNegativeInt32 info (mlib_math_add (math_I sz) (math_I size_diff) False)
       in if mlib_math_catch info then Inr (mut # parents, doc, None)
          else
            bindR
              (if mu_offset mut > 0 then
                 (case parents of [] \<Rightarrow> Inl Out_of_bounds
                  | parent # _ \<Rightarrow>
                      bindR (data_of doc (mu_data parent)) (\<lambda>pb.
                      let my_doc_offset = db - pb in
                      bindR (bson_splice_region alloc parents doc position n_delete n_insert insert_from)
                        (\<lambda>(parents', doc', out).
                          case out of None \<Rightarrow> Inr (mut # parents', doc', None)
                          | Some position' \<Rightarrow>
                              Inr (mut\<lparr>mu_data := mu_data (hd parents') + my_doc_offset\<rparr> # parents',
                                   doc', Some position'))))
               else
                 bindR (splice_root alloc mut doc position pos_offset new_doc_size n_delete n_insert
                          insert_from info)
                   (\<lambda>(mut', doc', out). Inr (mut' # parents, doc', out)))
              (\<lambda>(chain', doc', out).
                case out of None \<Rightarrow> Inr (chain', doc', None)
                | Some position' \<Rightarrow>
                    bindR (doc_write doc' (mu_data (hd chain')) (u32le (word_of_int new_doc_size)))
                      (\<lambda>doc'. Inr (chain', doc', Some position')))))))"

section \<open>Inserting elements\<close>

text \<open>
  \<^verbatim>\<open>_bson_prep_element_region\<close>: the iterator it stores through \<open>pos\<close> and the address of the value's
  region.
\<close>

definition bson_prep_element_region ::
  "reallocate_fn \<Rightarrow> mut_chain \<Rightarrow> bson_doc \<Rightarrow> bson_iterator \<Rightarrow> byte \<Rightarrow> str_view \<Rightarrow> nat \<Rightarrow>
   (mut_chain \<times> bson_doc \<times> bson_iterator \<times> int option) res" where
  "bson_prep_element_region alloc chain doc pos type key datasize =
     (let key = mlib_str_view_chopnulls key;
          (info, elem_size) = castNonNegativeInt32 mlib_math_try
             (mlib_math_add (math_U (int (sv_len key)))
                (mlib_math_add (math_I 2) (math_U (int datasize)) False) False)
      in if mlib_math_catch info then
           bindR (mut_end chain doc) (\<lambda>e. Inr (chain, doc, e, None))
         else
           bindR (it_deref pos) (\<lambda>p.
           let pos_offset = p - mu_data (hd chain) in
           bindR (bson_mut_data_at (hd chain) doc pos) (\<lambda>at.
           bindR (bson_splice_region alloc chain doc at 0 (nat elem_size) None) (\<lambda>(chain, doc, out).
           case out of
             None \<Rightarrow> bindR (mut_end chain doc) (\<lambda>e. Inr (chain, doc, e, None))
           | Some outptr \<Rightarrow>
               bindR (doc_write doc outptr [type]) (\<lambda>doc.
               bindR (doc_write doc (outptr + 1) (view_bytes key)) (\<lambda>doc.
               bindR (doc_write doc (outptr + 1 + int (sv_len key)) [0]) (\<lambda>doc.
               bindR (ssize_of doc (mu_data (hd chain))) (\<lambda>sz.
               Inr (chain, doc,
                    \<lparr>it_ptr = Some (mu_data (hd chain) + pos_offset), it_keylen = int (sv_len key),
                     it_rlen = sz - pos_offset\<rparr>,
                    Some (outptr + 1 + int (sv_len key) + 1))))))))))"

text \<open>The writes that follow a successful preparation, one after the other.\<close>

fun write_chunks :: "bson_doc \<Rightarrow> int \<Rightarrow> bytes list \<Rightarrow> bson_doc res" where
  "write_chunks doc p [] = Inr doc"
| "write_chunks doc p (bs # rest) =
     bindR (doc_write doc p bs) (\<lambda>doc. write_chunks doc (p + int (length bs)) rest)"

definition insert_chunks ::
  "reallocate_fn \<Rightarrow> mut_chain \<Rightarrow> bson_doc \<Rightarrow> bson_iterator \<Rightarrow> byte \<Rightarrow> str_view \<Rightarrow> nat \<Rightarrow>
   bytes list \<Rightarrow> (mut_chain \<times> bson_doc \<times> bson_iterator) res" where
  "insert_chunks alloc chain doc pos type key datasize chunks =
     bindR (bson_prep_element_region alloc chain doc pos type key datasize)
       (\<lambda>(chain, doc, pos, out).
         case out of None \<Rightarrow> Inr (chain, doc, pos)
         | Some p \<Rightarrow> bindR (write_chunks doc p chunks) (\<lambda>doc. Inr (chain, doc, pos)))"

definition bson_insert_stringlike ::
  "reallocate_fn \<Rightarrow> mut_chain \<Rightarrow> bson_doc \<Rightarrow> bson_iterator \<Rightarrow> str_view \<Rightarrow> byte \<Rightarrow> str_view \<Rightarrow>
   (mut_chain \<times> bson_doc \<times> bson_iterator) res" where
  "bson_insert_stringlike alloc chain doc pos key realtype string =
     (let (info, string_size) = castPositiveInt32 mlib_math_try
            (mlib_math_add (math_U (int (sv_len string))) (math_I 1) False);
          (info, elem_size) = castPositiveInt32 info
            (mlib_math_add (math_I string_size) (math_I 4) False)
      in if mlib_math_catch info then bindR (mut_end chain doc) (\<lambda>e. Inr (chain, doc, e))
         else insert_chunks alloc chain doc pos realtype key (nat elem_size)
                [u32le (word_of_int string_size), view_bytes string, [0]])"

definition bson_insert_code_with_scope ::
  "reallocate_fn \<Rightarrow> mut_chain \<Rightarrow> bson_doc \<Rightarrow> bson_iterator \<Rightarrow> str_view \<Rightarrow> str_view \<Rightarrow> doc_view \<Rightarrow>
   (mut_chain \<times> bson_doc \<times> bson_iterator) res" where
  "bson_insert_code_with_scope alloc chain doc pos key code scope =
     (let (info, code_size) = castPositiveInt32 mlib_math_try
            (mlib_math_add (math_I 1) (math_U (int (sv_len code))) False);
          (info, elem_size) = castPositiveInt32 info
            (mlib_math_add (math_I code_size)
               (mlib_math_add (math_I (int (length (view_bytes scope)))) (math_I 4) False) False)
      in if mlib_math_catch info then bindR (mut_end chain doc) (\<lambda>e. Inr (chain, doc, e))
         else insert_chunks alloc chain doc pos bson_type_codewscope key (nat elem_size)
                [u32le (word_of_int elem_size), u32le (word_of_int code_size), view_bytes code,
                 view_bytes scope])"

text \<open>The bytes of the document that stands for a null view.\<close>

definition empty_doc_bytes :: bytes where
  "empty_doc_bytes = [5, 0, 0, 0, 0]"

definition insert_subdoc_value ::
  "reallocate_fn \<Rightarrow> mut_chain \<Rightarrow> bson_doc \<Rightarrow> bson_iterator \<Rightarrow> str_view \<Rightarrow> byte \<Rightarrow> doc_view \<Rightarrow>
   (mut_chain \<times> bson_doc \<times> bson_iterator) res" where
  "insert_subdoc_value alloc chain doc pos key type v =
     (let bs = (case v of None \<Rightarrow> empty_doc_bytes | Some bs \<Rightarrow> bs)
      in insert_chunks alloc chain doc pos type key (length bs) [bs])"

definition insert_binary ::
  "reallocate_fn \<Rightarrow> mut_chain \<Rightarrow> bson_doc \<Rightarrow> bson_iterator \<Rightarrow> str_view \<Rightarrow> byte \<Rightarrow> bytes \<Rightarrow>
   (mut_chain \<times> bson_doc \<times> bson_iterator) res" where
  "insert_binary alloc chain doc pos key subtype bs =
     (let (info, bin_size) = castNonNegativeInt32 mlib_math_try (math_I (int (length bs)));
          (info, elem_size) = castPositiveInt32 info
            (mlib_math_add (math_I bin_size) (math_I 5) False)
      in if mlib_math_catch info then bindR (mut_end chain doc) (\<lambda>e. Inr (chain, doc, e))
         else insert_chunks alloc chain doc pos bson_type_binary key (nat elem_size)
                [u32le (word_of_int bin_size), [subtype], take (nat bin_size) bs])"

text \<open>
  A regular expression: the size is computed from the trimmed strings and counts five more
  bytes, and the strings are written as they were given.
\<close>

definition insert_regex ::
  "reallocate_fn \<Rightarrow> mut_chain \<Rightarrow> bson_doc \<Rightarrow> bson_iterator \<Rightarrow> str_view \<Rightarrow> str_view \<Rightarrow> str_view \<Rightarrow>
   (mut_chain \<times> bson_doc \<times> bson_iterator) res" where
  "insert_regex alloc chain doc pos key regex options =
     (let trimmed_rx = mlib_str_view_chopnulls regex;
          trimmed_opt = mlib_str_view_chopnulls options;
          (info, sz) = castNonNegativeInt32 mlib_math_try
            (checkMin (math_I 2)
               (mlib_math_add (math_U (int (sv_len trimmed_rx)))
                  (mlib_math_add (math_U (int (sv_len trimmed_opt))) (math_I 5) False) False))
      in if mlib_math_catch info then bindR (mut_end chain doc) (\<lambda>e. Inr (chain, doc, e))
         else insert_chunks alloc chain doc pos bson_type_regex key (nat sz)
                [view_bytes regex, [0], view_bytes options, [0]])"

definition insert_dbpointer ::
  "reallocate_fn \<Rightarrow> mut_chain \<Rightarrow> bson_doc \<Rightarrow> bson_iterator \<Rightarrow> str_view \<Rightarrow> str_view \<Rightarrow> bytes \<Rightarrow>
   (mut_chain \<times> bson_doc \<times> bson_iterator) res" where
  "insert_dbpointer alloc chain doc pos key coll oid =
     bindR (mlib_math_strnlen (view_bytes coll) 0 (math_U (int (sv_len coll)))) (\<lambda>n.
     let (info, collname_string_size) = castPositiveInt32 mlib_math_try
           (mlib_math_add n (math_I 1) False);
         (info, el_size) = castNonNegativeInt32 info
           (mlib_math_add (math_I collname_string_size) (math_I (12 + 4)) False)
     in if mlib_math_catch info then bindR (mut_end chain doc) (\<lambda>e. Inr (chain, doc, e))
        else insert_chunks alloc chain doc pos bson_type_dbpointer key (nat el_size)
               [u32le (word_of_int collname_string_size),
                take (nat collname_string_size - 1) (view_bytes coll), [0], oid])"

fun bson_insert_value ::
  "reallocate_fn \<Rightarrow> mut_chain \<Rightarrow> bson_doc \<Rightarrow> bson_iterator \<Rightarrow> str_view \<Rightarrow> bson_value_ref \<Rightarrow>
   (mut_chain \<times> bson_doc \<times> bson_iterator) res" where
  "bson_insert_value alloc chain doc pos key V_eod = Inr (chain, doc, pos)"
| "bson_insert_value alloc chain doc pos key (V_double d) =
     insert_chunks alloc chain doc pos bson_type_double key 8 [u64le d]"
| "bson_insert_value alloc chain doc pos key (V_utf8 s) =
     bson_insert_stringlike alloc chain doc pos key bson_type_utf8 s"
| "bson_insert_value alloc chain doc pos key (V_document v) =
     insert_subdoc_value alloc chain doc pos key bson_type_document v"
| "bson_insert_value alloc chain doc pos key (V_array v) =
     insert_subdoc_value alloc chain doc pos key bson_type_array v"
| "bson_insert_value alloc chain doc pos key (V_binary t bs) =
     insert_binary alloc chain doc pos key t bs"
| "bson_insert_value alloc chain doc pos key V_undefined =
     insert_chunks alloc chain doc pos bson_type_undefined key 0 []"
| "bson_insert_value alloc chain doc pos key (V_oid bs) =
     insert_chunks alloc chain doc pos bson_type_oid key 12 [bs]"
| "bson_insert_value alloc chain doc pos key (V_bool b) =
     insert_chunks alloc chain doc pos bson_type_bool key 1 [[if b then 1 else 0]]"
| "bson_insert_value alloc chain doc pos key (V_datetime t) =
     insert_chunks alloc chain doc pos bson_type_datetime key 8 [u64le t]"
| "bson_insert_value alloc chain doc pos key V_null =
     insert_chunks alloc chain doc pos bson_type_null key 0 []"
| "bson_insert_value alloc chain doc pos key (V_regex r opt) =
     insert_regex alloc chain doc pos key r opt"
| "bson_insert_value alloc chain doc pos key (V_dbpointer c oid) =
     insert_dbpointer alloc chain doc pos key c oid"
| "bson_insert_value alloc chain doc pos key (V_code s) =
     bson_insert_stringlike alloc chain doc pos key bson_type_code s"
| "bson_insert_value alloc chain doc pos key (V_symbol s) =
     bson_insert_stringlike alloc chain doc pos key bson_type_symbol s"
| "bson_insert_value alloc chain doc pos key V_codewscope = Inl Abort_called"
| "bson_insert_value alloc chain doc pos key (V_int32 n) =
     insert_chunks alloc chain doc pos bson_type_int32 key 4 [u32le n]"
| "bson_insert_value alloc chain doc pos key (V_timestamp i t) =
     insert_chunks alloc chain doc pos bson_type_timestamp key 8 [u32le i, u32le t]"
| "bson_insert_value alloc chain doc pos key (V_int64 n) =
     insert_chunks alloc chain doc pos bson_type_int64 key 8 [u64le n]"
| "bson_insert_value alloc chain doc pos key (V_decimal128 bs) =
     insert_chunks alloc chain doc pos bson_type_decimal128 key 16 [bs]"
| "bson_insert_value alloc chain doc pos key V_maxkey =
     insert_chunks alloc chain doc pos bson_type_maxkey key 0 []"
| "bson_insert_value alloc chain doc pos key V_minkey =
     insert_chunks alloc chain doc pos bson_type_minkey key 0 []"

text \<open>\<^verbatim>\<open>mutator::_emplace\<close>: \<open>Inl\<close> in the result is \<^verbatim>\<open>std::bad_alloc\<close>.\<close>

definition mutator_emplace ::
  "reallocate_fn \<Rightarrow> mut_chain \<Rightarrow> bson_doc \<Rightarrow> bson_iterator \<Rightarrow> str_view \<Rightarrow> bson_value_ref \<Rightarrow>
   (mut_chain \<times> bson_doc \<times> (unit + bson_iterator)) res" where
  "mutator_emplace alloc chain doc pos key v =
     bindR (bson_insert_value alloc chain doc pos key v) (\<lambda>(chain, doc, ret).
     bindR (mut_end chain doc) (\<lambda>e.
     Inr (chain, doc, if bson_iterator_eq ret e then Inl () else Inr ret)))"

section \<open>Keys\<close>

definition bson_set_key ::
  "reallocate_fn \<Rightarrow> mut_chain \<Rightarrow> bson_doc \<Rightarrow> bson_iterator \<Rightarrow> str_view \<Rightarrow>
   (mut_chain \<times> bson_doc \<times> bson_iterator) res" where
  "bson_set_key alloc chain doc pos newkey =
     bv_assert (\<not> bson_stop pos)
     (let newkey = mlib_str_view_chopnulls newkey in
      bindR (bson_key (dc_buf doc) pos) (\<lambda>curkey.
      let size_diff = int (sv_len newkey) - int (sv_len curkey);
          (info, new_rlen) = castPositiveInt32 mlib_math_try
            (mlib_math_add (math_I (it_rlen pos)) (math_I size_diff) False)
      in if mlib_math_catch info then bindR (mut_end chain doc) (\<lambda>e. Inr (chain, doc, e))
         else
           bindR (it_deref pos) (\<lambda>p.
           bindR (data_of doc (mu_data (hd chain))) (\<lambda>db.
           let iter_off = p - db in
           bv_assert (iter_off > 0)
           (bindR (bson_mut_data_at (hd chain) doc pos) (\<lambda>at.
            bindR (bson_splice_region alloc chain doc (at + 1) (sv_len curkey) (sv_len newkey) newkey)
              (\<lambda>(chain, doc, out).
                case out of None \<Rightarrow> bindR (mut_end chain doc) (\<lambda>e. Inr (chain, doc, e))
                | Some _ \<Rightarrow>
                    bindR (data_of doc (mu_data (hd chain))) (\<lambda>db.
                    Inr (chain, doc, \<lparr>it_ptr = Some (db + iter_off),
                      it_keylen = int (sv_len newkey), it_rlen = new_rlen\<rparr>)))))))))"

text \<open>\<^verbatim>\<open>_bson_write_uint\<close>: the characters it stores before the terminator.\<close>

function bson_write_uint :: "nat \<Rightarrow> bytes" where
  "bson_write_uint v =
     (if v = 0 then [48]
      else if v \<ge> 10 then
        (if v < 100 then [48 + word_of_nat (v div 10)] else bson_write_uint (v div 10)) @
        [48 + word_of_nat (v mod 10)]
      else [48 + word_of_nat v])"
  by pat_completeness auto
termination by (relation "measure id") auto

declare bson_write_uint.simps [simp del]

text \<open>\<^verbatim>\<open>bson_u32_string_create\<close>: the array of eleven characters; more would overrun it.\<close>

definition bson_u32_string_create :: "u32 \<Rightarrow> bytes res" where
  "bson_u32_string_create val = wr_n (replicate 11 0) 0 (bson_write_uint (unat val) @ [0])"

fun relabel_loop ::
  "nat \<Rightarrow> reallocate_fn \<Rightarrow> mut_chain \<Rightarrow> bson_doc \<Rightarrow> bson_iterator \<Rightarrow> u32 \<Rightarrow>
   (mut_chain \<times> bson_doc) res option" where
  "relabel_loop 0 alloc chain doc pos idx = None"
| "relabel_loop (Suc fuel) alloc chain doc pos idx =
     (if bson_stop pos then Some (Inr (chain, doc))
      else
        (case bindR (bson_u32_string_create idx) (\<lambda>buf.
              bindR (bson_set_key alloc chain doc pos (Some (cstr buf))) (\<lambda>(chain, doc, pos).
              bindR (bson_next (dc_buf doc) pos) (\<lambda>pos. Inr (chain, doc, pos)))) of
           Inl e \<Rightarrow> Some (Inl e)
         | Inr (chain, doc, pos) \<Rightarrow> relabel_loop fuel alloc chain doc pos idx))"

definition bson_relabel_array_elements_at ::
  "nat \<Rightarrow> reallocate_fn \<Rightarrow> mut_chain \<Rightarrow> bson_doc \<Rightarrow> bson_iterator \<Rightarrow> u32 \<Rightarrow>
   (mut_chain \<times> bson_doc \<times> bson_iterator) res option" where
  "bson_relabel_array_elements_at fuel alloc chain doc pos idx =
     (case bindR (it_deref pos) (\<lambda>p. bindR (data_of doc (mu_data (hd chain))) (\<lambda>db. Inr (p - db))) of
        Inl e \<Rightarrow> Some (Inl e)
      | Inr it_offset \<Rightarrow>
          map_option (\<lambda>r. bindR r (\<lambda>(chain, doc).
              bindR (data_of doc (mu_data (hd chain))) (\<lambda>db.
              bindR (bson_recover_iterator (dc_buf doc) db it_offset) (\<lambda>it. Inr (chain, doc, it)))))
            (relabel_loop fuel alloc chain doc pos idx))"

definition bson_relabel_array_elements ::
  "nat \<Rightarrow> reallocate_fn \<Rightarrow> mut_chain \<Rightarrow> bson_doc \<Rightarrow> (mut_chain \<times> bson_doc) res option" where
  "bson_relabel_array_elements fuel alloc chain doc =
     (case bindR (data_of doc (mu_data (hd chain))) (\<lambda>db. bson_begin (dc_buf doc) (Some db)) of
        Inl e \<Rightarrow> Some (Inl e)
      | Inr pos \<Rightarrow>
          map_option (\<lambda>r. bindR r (\<lambda>(chain, doc, _). Inr (chain, doc)))
            (bson_relabel_array_elements_at fuel alloc chain doc pos 0))"

section \<open>Ranges\<close>

text \<open>The inserted range lies in another block \<open>src\<close>.\<close>

definition bson_splice_disjoint_ranges ::
  "reallocate_fn \<Rightarrow> mut_chain \<Rightarrow> bson_doc \<Rightarrow> bson_iterator \<Rightarrow> bson_iterator \<Rightarrow>
   bytes \<Rightarrow> bson_iterator \<Rightarrow> bson_iterator \<Rightarrow> (mut_chain \<times> bson_doc \<times> bson_iterator) res" where
  "bson_splice_disjoint_ranges alloc chain doc pos delete_end src from_begin from_end =
     bindR (it_deref from_begin) (\<lambda>copy_begin.
     bindR (it_deref from_end) (\<lambda>copy_end.
     let copy_size = copy_end - copy_begin in
     bv_assert (copy_size \<ge> 0)
     (bindR (it_deref delete_end) (\<lambda>de.
      bindR (it_deref pos) (\<lambda>p.
      let delete_size = de - p in
      bv_assert (delete_size \<ge> 0)
      (let (info, size_diff) = castInt32 mlib_math_try
             (mlib_math_sub (math_I copy_size) (math_I delete_size));
           (info, new_rlen) = castPositiveInt32 info
             (mlib_math_add (math_I (it_rlen pos)) (math_I size_diff) False)
       in if mlib_math_catch info then bindR (mut_end chain doc) (\<lambda>e. Inr (chain, doc, e))
          else
            bindR (bson_mut_data_at (hd chain) doc pos) (\<lambda>at.
            bindR (rd_n src copy_begin (nat copy_size)) (\<lambda>bs.
            bindR (bson_splice_region alloc chain doc at (nat delete_size) (nat copy_size) (Some bs))
              (\<lambda>(chain, doc, out).
                case out of None \<Rightarrow> bindR (mut_end chain doc) (\<lambda>e. Inr (chain, doc, e))
                | Some new_posptr \<Rightarrow>
                    Inr (chain, doc, \<lparr>it_ptr = Some new_posptr,
                      it_keylen = (if copy_size \<noteq> 0 then it_keylen from_begin else it_keylen delete_end),
                      it_rlen = new_rlen\<rparr>))))))))))"

definition bson_insert_disjoint_range ::
  "reallocate_fn \<Rightarrow> mut_chain \<Rightarrow> bson_doc \<Rightarrow> bson_iterator \<Rightarrow> bytes \<Rightarrow> bson_iterator \<Rightarrow>
   bson_iterator \<Rightarrow> (mut_chain \<times> bson_doc \<times> bson_iterator) res" where
  "bson_insert_disjoint_range alloc chain doc pos src from_begin from_end =
     bson_splice_disjoint_ranges alloc chain doc pos pos src from_begin from_end"

definition bson_erase_range ::
  "reallocate_fn \<Rightarrow> mut_chain \<Rightarrow> bson_doc \<Rightarrow> bson_iterator \<Rightarrow> bson_iterator \<Rightarrow>
   (mut_chain \<times> bson_doc \<times> bson_iterator) res" where
  "bson_erase_range alloc chain doc first stop =
     bson_splice_disjoint_ranges alloc chain doc first stop (dc_buf doc) stop stop"

definition bson_erase_one ::
  "reallocate_fn \<Rightarrow> mut_chain \<Rightarrow> bson_doc \<Rightarrow> bson_iterator \<Rightarrow>
   (mut_chain \<times> bson_doc \<times> bson_iterator) res" where
  "bson_erase_one alloc chain doc pos =
     bindR (bson_next (dc_buf doc) pos) (\<lambda>nxt. bson_erase_range alloc chain doc pos nxt)"

section \<open>Subdocuments\<close>

text \<open>\<^verbatim>\<open>bson_mut_child\<close>: \<open>[]\<close> is the null mutator.\<close>

definition bson_mut_child :: "mut_chain \<Rightarrow> bson_doc \<Rightarrow> bson_iterator \<Rightarrow> mut_chain res" where
  "bson_mut_child parents doc subdoc_iter =
     bindR (bson_iterator_type (dc_buf doc) subdoc_iter) (\<lambda>t.
     if t \<noteq> bson_type_document \<and> t \<noteq> bson_type_array then Inr []
     else
       bindR (it_deref subdoc_iter) (\<lambda>p.
       bindR (data_of doc (mu_data (hd parents))) (\<lambda>db.
       let elem_offset = p - db in
       Inr (\<lparr>mu_data = mu_data (hd parents) + elem_offset + it_keylen subdoc_iter + 2,
             mu_offset = uint (word_of_int elem_offset :: u32)\<rparr> # parents))))"

definition bson_mut_parent_iterator :: "mut_chain \<Rightarrow> bson_doc \<Rightarrow> bson_iterator res" where
  "bson_mut_parent_iterator chain doc =
     (case chain of
        d # par # _ \<Rightarrow>
          bv_assert (mu_offset d > 0)
          (let ptr = mu_data par + mu_offset d;
               off = ptr - mu_data par
           in bindR (mlib_math_assert_not_flags mlib_integer_allbits
                       (mlib_math_sub (math_I (mu_data d - ptr)) (math_I 2))) (\<lambda>k.
              bindR (size_of doc (mu_data par)) (\<lambda>sz.
              Inr \<lparr>it_ptr = Some ptr, it_keylen = sint (ucast (mi_i64 k) :: u32),
                   it_rlen = sint (word_of_int (sz - off) :: u32)\<rparr>)))
      | d # [] \<Rightarrow> bv_assert (mu_offset d > 0) (Inl Out_of_bounds)
      | [] \<Rightarrow> Inl Assert_fail)"

text \<open>\<^verbatim>\<open>mutator::insert_subdoc\<close> and \<^verbatim>\<open>insert_array\<close>.\<close>

definition mutator_insert_subdoc ::
  "reallocate_fn \<Rightarrow> mut_chain \<Rightarrow> bson_doc \<Rightarrow> bson_iterator \<Rightarrow> str_view \<Rightarrow> bool \<Rightarrow>
   (mut_chain \<times> bson_doc \<times> bson_iterator) res" where
  "mutator_insert_subdoc alloc chain doc pos key as_array =
     bindR (bson_insert_value alloc chain doc pos key
              (if as_array then V_array None else V_document None)) (\<lambda>(chain, doc, it).
     bindR (bson_mut_child chain doc it) (\<lambda>child. Inr (child, doc, it)))"

end
