(* ===== verification/Bson_Mut_Correct.thy ===== *)
theory Bson_Mut_Correct
  imports Bson_Mut
begin

text \<open>
  Correctness of the mutation of documents: \<^verbatim>\<open>_bson_splice_region\<close> implements the replacement of a
  part of a document's bytes, and insertion and deletion implement the operations on the
  abstract document of \<open>Bson_Elements\<close>.
\<close>

declare bson_splice_region.simps [simp del]

section \<open>Sizes and addresses of documents\<close>

lemma view_from_ptr_doc: "doc_at m p \<Longrightarrow> bson_view_from_ptr m (Some p) = Inr (Some p)"
proof -
  assume d: "doc_at m p"
  then obtain u where u: "bson_read_u32le m p = Inr u" "to_i32 u = doc_len m p"
    using doc_at_read by blast
  with d doc_len_range [of m p] view_from_data_cases [of p "doc_len m p" m] show ?thesis
    by (auto simp: bson_view_from_ptr_def Let_def uint_word_of_nonneg_i32 doc_at_def)
qed

lemma sizes_of_doc:
  assumes "doc_at (dc_buf doc) p"
  shows "data_of doc p = Inr p" "ssize_of doc p = Inr (doc_len (dc_buf doc) p)"
    "size_of doc p = Inr (doc_len (dc_buf doc) p)"
proof -
  obtain u where u: "bson_read_u32le (dc_buf doc) p = Inr u" "to_i32 u = doc_len (dc_buf doc) p"
    using doc_at_read [OF assms] by blast
  moreover from u(2) assms have "int (unat u) = doc_len (dc_buf doc) p"
    using unat_of_to_i32 [of u "nat (doc_len (dc_buf doc) p)"] by (simp add: doc_at_def)
  ultimately show "data_of doc p = Inr p" "ssize_of doc p = Inr (doc_len (dc_buf doc) p)"
    "size_of doc p = Inr (doc_len (dc_buf doc) p)"
    using view_from_ptr_doc [OF assms]
    by (simp_all add: data_of_def ssize_of_def size_of_def bson_byte_ssize_def bson_byte_size_def)
qed

lemma uint_eq_unat: "uint (c :: u32) = int (unat c)"
  by (subst unat_eq_nat_uint) simp

section \<open>Arithmetic that stays in range\<close>

lemma no_catch [simp]: "\<not> mlib_math_catch mlib_math_try"
  by (simp add: mlib_math_catch_def mlib_math_try_def)

lemma cast_diff:
  assumes "int a \<le> INT32_MAX" "int b \<le> INT32_MAX"
  shows "castInt32 info (mlib_math_sub (math_U (int a)) (math_U (int b))) = (info, int a - int b)"
  using assms
  by (intro cast_ok [OF castInt32_spec])
    (simp_all add: mi_val_U mi_val_sub [of _ "int a" _ "int b"] in_i64_def)

lemma cast_nonneg: "0 \<le> a \<Longrightarrow> a \<le> INT32_MAX \<Longrightarrow> castNonNegativeInt32 info (math_I a) = (info, a)"
  by (rule cast_ok [OF castNonNegativeInt32_spec]) (simp_all add: mi_val_I in_i64_def)

lemma cast_sum:
  assumes "0 \<le> a" "a \<le> INT32_MAX" "- INT32_MAX \<le> b" "b \<le> INT32_MAX" "0 \<le> a + b" "a + b \<le> INT32_MAX"
  shows "castNonNegativeInt32 info (mlib_math_add (math_I a) (math_I b) False) = (info, a + b)"
  using assms
  by (intro cast_ok [OF castNonNegativeInt32_spec]) (simp_all add: mi_val_simps in_i64_def)

lemma cast_positive_sum:
  assumes "0 \<le> a" "a \<le> INT32_MAX" "- INT32_MAX \<le> b" "b \<le> INT32_MAX" "0 < a + b" "a + b \<le> INT32_MAX"
  shows "castPositiveInt32 info (mlib_math_add (math_I a) (math_I b) False) = (info, a + b)"
  using assms
  by (intro cast_ok [OF castPositiveInt32_spec]) (simp_all add: mi_val_simps in_i64_def)

lemma cast_diff_I:
  assumes "0 \<le> a" "a \<le> INT32_MAX" "0 \<le> b" "b \<le> INT32_MAX"
  shows "castInt32 info (mlib_math_sub (math_I a) (math_I b)) = (info, a - b)"
  using assms
  by (intro cast_ok [OF castInt32_spec]) (simp_all add: mi_val_I mi_val_sub [of _ a _ b] in_i64_def)

lemma subdoc_ok_iff:
  "subdoc_ok d \<longleftrightarrow> 5 \<le> length d \<and> doc_len d 0 = int (length d) \<and> last d = 0"
proof (cases "d = []")
  case True
  then show ?thesis by (simp add: subdoc_ok_def doc_at_def doc_len_def)
next
  case False
  have "nat (int (length d) - 1) = length d - 1" by simp
  with False show ?thesis
    by (auto simp: subdoc_ok_def doc_at_def last_conv_nth)
qed

section \<open>Moving the tail and filling the gap\<close>

lemma move_and_fill:
  assumes b: "buf = A @ del @ post @ R" and len: "length ins \<le> length del + length R"
  obtains R' where "length R' + length ins = length del + length R"
    "bindR (bson_memmove buf (int (length A + length ins)) (int (length A + length del)) (length post))
       (\<lambda>(m, _). wr_n m (int (length A)) ins) = Inr (A @ ins @ post @ R')"
proof -
  let ?Y = "take (length ins) (del @ post @ R)"
  let ?R' = "drop (length A + length ins + length post) buf"
  have "bson_memmove buf (int (length A + length ins)) (int (length A + length del)) (length post) =
      Inr (moved buf (length A + length ins) (length A + length del) (length post),
        int (length A + length ins) + int (length post))"
    using b len by (subst bson_memmove_eq) (simp_all add: nat_add_distrib)
  moreover have "moved buf (length A + length ins) (length A + length del) (length post) =
      A @ ?Y @ post @ ?R'"
    unfolding moved_def by (simp add: b)
  moreover have "wr_n (A @ ?Y @ post @ ?R') (int (length A)) ins = Inr (A @ ins @ post @ ?R')"
    using b len by (intro wr_n_append_at) auto
  moreover have "length ?R' + length ins = length del + length R" using b len by simp
  ultimately show thesis using that [of ?R'] by simp
qed

text \<open>The bytes that fill the gap: those given, or a marker.\<close>

definition fill_bytes :: "nat \<Rightarrow> bytes option \<Rightarrow> bytes" where
  "fill_bytes n from = (case from of None \<Rightarrow> replicate n 88 | Some bs \<Rightarrow> take n bs)"

lemma splice_move_eq:
  assumes buf: "dc_buf doc = A @ del @ post @ R" "\<not> dc_static doc" "doc_at (dc_buf doc) doc_data_ptr"
      "4 \<le> length A"
    and size: "doc_data_ptr + doc_len (dc_buf doc) doc_data_ptr = int (length A + length del + length post)"
    and ins: "\<forall>bs. from = Some bs \<longrightarrow> n \<le> length bs" "n \<le> length del + length R"
  obtains R' where "length R' + n = length del + length R"
    "splice_move doc (int (length A)) (length del) n from info =
       (if mlib_math_catch info then Inr (doc, None)
        else Inr (doc\<lparr>dc_buf := A @ fill_bytes n from @ post @ R'\<rparr>, Some (int (length A))))"
proof -
  have l: "length (fill_bytes n from) = n"
    using ins(1) by (auto simp: fill_bytes_def split: option.splits)
  have rem: "castNonNegativeInt32 info
      (math_I (doc_data_ptr + doc_len (dc_buf doc) doc_data_ptr - (int (length A) + int (length del)))) =
      (info, int (length post))"
    using size doc_len_range(2) [of "dc_buf doc" doc_data_ptr] buf(4)
      cast_nonneg [of "int (length post)" info] by simp
  have "length (fill_bytes n from) \<le> length del + length R" using ins(2) l by simp
  with buf(1) obtain R' where R': "length R' + length (fill_bytes n from) = length del + length R"
    "bindR (bson_memmove (dc_buf doc) (int (length A + length (fill_bytes n from)))
        (int (length A + length del)) (length post))
       (\<lambda>(m, _). wr_n m (int (length A)) (fill_bytes n from)) = Inr (A @ fill_bytes n from @ post @ R')"
    by (rule move_and_fill)
  from R'(2) obtain m q where m: "bson_memmove (dc_buf doc) (int (length A) + int n)
      (int (length A) + int (length del)) (length post) = Inr (m, q)"
    "wr_n m (int (length A)) (fill_bytes n from) = Inr (A @ fill_bytes n from @ post @ R')"
    by (auto simp: res_simps l)
  have "(case from of Some src \<Rightarrow> bindR (rd_n src 0 n) (\<lambda>bs. wr_n m (int (length A)) bs)
      | None \<Rightarrow> bindR (bson_memset m (int (length A)) 88 n) (\<lambda>(m, _). Inr m)) =
      wr_n m (int (length A)) (fill_bytes n from)"
    using ins(1) m(2)
    by (auto simp: fill_bytes_def bson_memset_def rd_n_in split: option.splits)
  with m rem buf(2) R'(1) l show thesis
    by (intro that [of R']) (simp_all add: splice_move_def sizes_of_doc [OF buf(3)] Let_def)
qed

section \<open>Splicing a document that owns its memory\<close>

abbreviation root_mut :: bson_mut where
  "root_mut \<equiv> \<lparr>mu_data = doc_data_ptr, mu_offset = 0\<rparr>"

text \<open>
  The buffer between the splice and the update of the header: the cookie \<open>c\<close>, the old header
  \<open>H\<close>, and the new bytes.
\<close>

definition spliced :: "bson_doc \<Rightarrow> bytes \<Rightarrow> bytes \<Rightarrow> bool" where
  "spliced doc H body \<longleftrightarrow>
     \<not> dc_static doc \<and>
     (\<exists>R. dc_buf doc = u32le (word_of_nat (length (H @ body) + length R)) @ H @ body @ R \<and>
        int (length (H @ body) + length R) + 4 \<le> INT32_MAX)"

lemma splice_move_doc:
  assumes inv: "doc_inv doc" "\<not> dc_static doc"
    and data: "doc_data doc = H @ P @ del @ post" "length H = 4"
    and room: "length (H @ P) + n + length post + 4 \<le> length (dc_buf doc)"
    and src: "\<forall>bs. from = Some bs \<longrightarrow> n \<le> length bs"
  obtains doc' where "spliced doc' H (P @ fill_bytes n from @ post)"
    "splice_move doc (8 + int (length P)) (length del) n from mlib_math_try =
       Inr (doc', Some (8 + int (length P)))"
proof -
  from inv(1) obtain rest where s:
    "dc_buf doc = u32le (word_of_nat (length (doc_data doc) + length rest)) @ doc_data doc @ rest"
    "int (length (doc_data doc) + length rest) + 4 \<le> INT32_MAX"
    by (rule doc_inv_split)
  let ?c = "u32le (word_of_nat (length (doc_data doc) + length rest))"
  let ?A = "?c @ H @ P"
  have at: "doc_at (dc_buf doc) doc_data_ptr" using inv(1) by (simp add: doc_inv_def)
  have len: "doc_len (dc_buf doc) doc_data_ptr = int (length (doc_data doc))"
    using length_doc_data [OF inv(1)] by simp
  have buf: "dc_buf doc = ?A @ del @ post @ rest" using s(1) by (simp add: data(1))
  have "n \<le> length del + length rest" using room buf by (simp add: data)
  moreover have "doc_data_ptr + doc_len (dc_buf doc) doc_data_ptr = int (length ?A + length del + length post)"
    using len data by simp
  ultimately obtain R' where R': "length R' + n = length del + length rest"
    "splice_move doc (int (length ?A)) (length del) n from mlib_math_try =
      Inr (doc\<lparr>dc_buf := ?A @ fill_bytes n from @ post @ R'\<rparr>, Some (int (length ?A)))"
    using splice_move_eq [OF buf inv(2) at, of "from" n mlib_math_try] src by auto
  have l: "length (fill_bytes n from) = n"
    using src by (auto simp: fill_bytes_def split: option.splits)
  have "length (doc_data doc) + length rest =
      length (H @ P @ fill_bytes n from @ post) + length R'"
    using R'(1) l by (simp add: data)
  then have "spliced (doc\<lparr>dc_buf := ?A @ fill_bytes n from @ post @ R'\<rparr>) H (P @ fill_bytes n from @ post)"
    using inv(2) s(2) unfolding spliced_def by (intro conjI exI [of _ R']) simp_all
  moreover have "int (length ?A) = 8 + int (length P)" using data(2) by simp
  ultimately show thesis using that R'(2) by simp
qed

text \<open>The allocator may refuse some request, or a request of a given size.\<close>

definition refuses :: "reallocate_fn \<Rightarrow> bool" where
  "refuses alloc \<longleftrightarrow> (\<exists>p n a k. 0 < n \<and> alloc p n a k = Inr None)"

definition refused :: "reallocate_fn \<Rightarrow> nat \<Rightarrow> bool" where
  "refused alloc n \<longleftrightarrow> (\<exists>p a k. alloc p n a k = Inr None)"

lemma refusedI: "alloc p m a k = Inr None \<Longrightarrow> m = n + 516 \<Longrightarrow> refused alloc (n + 516)"
  by (auto simp: refused_def)

lemma refused_refuses: "refused alloc (n + 516) \<Longrightarrow> refuses alloc"
  unfolding refuses_def refused_def by (metis add_gr_0 zero_less_numeral)

context exact_allocator
begin

text \<open>
  The root's part of the splice: nothing happens when the allocator fails, and otherwise the
  bytes are replaced.
\<close>

lemma splice_root_spec:
  assumes inv: "doc_inv doc" and data: "doc_data doc = H @ P @ del @ post" "length H = 4" "post \<noteq> []"
    and new: "new = length (H @ P) + n + length post" "int new + 512 \<le> INT32_MAX - 4"
    and src: "\<forall>bs. from = Some bs \<longrightarrow> n \<le> length bs" and static: "dc_static doc \<longrightarrow> 0 < n"
  shows "splice_root realloc root_mut doc (8 + int (length P)) (4 + int (length P)) (int new)
      (length del) n from mlib_math_try = Inr (root_mut, doc, None) \<and> refused realloc (new + 516) \<and>
      int (length (dc_buf doc)) - 4 < int new \<or>
    (\<exists>doc'. spliced doc' H (P @ fill_bytes n from @ post) \<and>
      splice_root realloc root_mut doc (8 + int (length P)) (4 + int (length P)) (int new)
        (length del) n from mlib_math_try = Inr (root_mut, doc', Some (8 + int (length P))))"
proof -
  have at: "doc_at (dc_buf doc) doc_data_ptr" using inv by (simp add: doc_inv_def)
  have len: "doc_len (dc_buf doc) doc_data_ptr = int (length (doc_data doc))"
    using length_doc_data [OF inv] by simp
  obtain c where c: "bson_doc_capacity doc = Inr c" "unat c = length (dc_buf doc) - 4"
    using inv by (rule doc_capacityE)
  have cap: "bson_mut_capacity [root_mut] doc = Inr (int (length (dc_buf doc)) - 4)"
    using c doc_inv_bounds(1) [OF inv] uint_eq_unat [of c] by simp
  have avail: "castNonNegativeInt32 mlib_math_try (math_I (doc_data_ptr +
      doc_len (dc_buf doc) doc_data_ptr - (8 + int (length P)))) =
      (mlib_math_try, int (length del + length post))"
  proof -
    have "doc_data_ptr + doc_len (dc_buf doc) doc_data_ptr - (8 + int (length P)) =
        int (length del + length post)"
      using len data by simp
    moreover have "int (length del + length post) \<le> INT32_MAX"
      using len data doc_len_range(2) [of "dc_buf doc" doc_data_ptr] by simp
    ultimately show ?thesis by (simp only: cast_nonneg of_nat_0_le_iff)
  qed
  have newcap: "castNonNegativeInt32 mlib_math_try (mlib_math_add (math_I (int new)) (math_I 512) False) =
      (mlib_math_try, int new + 512)"
    using new(2) by (intro cast_sum) simp_all
  have head: "splice_root realloc root_mut doc (8 + int (length P)) (4 + int (length P)) (int new)
      (length del) n from mlib_math_try =
    (if int new > int (length (dc_buf doc)) - 4
     then bindR (bson_doc_reserve realloc doc (new + 512)) (\<lambda>(doc, r).
       if r < 0 then Inr (root_mut, doc, None)
       else bindR (splice_move doc (8 + int (length P)) (length del) n from mlib_math_try)
         (\<lambda>(doc, out). Inr (root_mut, doc, out)))
     else bindR (splice_move doc (8 + int (length P)) (length del) n from mlib_math_try)
       (\<lambda>(doc, out). Inr (root_mut, doc, out)))"
    unfolding splice_root_def sizes_of_doc [OF at] bindR_simps Let_def avail
    by (simp add: cap newcap nat_add_distrib del: bson_mut_capacity.simps cong: if_cong)
  have big: "new > 5" if "dc_static doc"
    using static that data(2,3) new(1) by (cases post) auto
  show ?thesis
  proof (cases "int new > int (length (dc_buf doc)) - 4")
    case False
    then have "\<not> dc_static doc" using big inv by (auto simp: doc_inv_def global_empty_doc_def)
    with False new(1) obtain doc' where "spliced doc' H (P @ fill_bytes n from @ post)"
      "splice_move doc (8 + int (length P)) (length del) n from mlib_math_try =
         Inr (doc', Some (8 + int (length P)))"
      using splice_move_doc [OF inv _ data(1,2) _ src] doc_inv_bounds(1) [OF inv] by auto
    with False show ?thesis by (simp add: head)
  next
    case True
    obtain d' r where d': "bson_doc_reserve realloc doc (new + 512) = Inr (d', r)" "doc_inv d'"
      "doc_data d' = doc_data doc" "r < 0 \<Longrightarrow> d' = doc"
      "0 \<le> r \<Longrightarrow> int (new + 512) \<le> r \<and> r = int (length (dc_buf d')) - 4"
      "r < 0 \<Longrightarrow> INT32_MAX - 4 < int (new + 512) \<or>
        realloc (if dc_static doc then None else Some (dc_buf doc)) (new + 512 + 4) 1
          (if dc_static doc then 0 else length (dc_buf doc)) = Inr None"
      by (rule reserve_total [OF inv, of "new + 512"]) (rule that)
    have eq: "splice_root realloc root_mut doc (8 + int (length P)) (4 + int (length P)) (int new)
        (length del) n from mlib_math_try =
      (if r < 0 then Inr (root_mut, d', None)
       else bindR (splice_move d' (8 + int (length P)) (length del) n from mlib_math_try)
         (\<lambda>(doc, out). Inr (root_mut, doc, out)))"
      using True d'(1) by (simp add: head)
    show ?thesis
    proof (cases "r < 0")
      case False
      then have "9 < length (dc_buf d')" using d'(5) by simp
      then have "\<not> dc_static d'" using d'(2) by (auto simp: doc_inv_def global_empty_doc_def)
      with False d' data new(1) obtain doc' where "spliced doc' H (P @ fill_bytes n from @ post)"
        "splice_move d' (8 + int (length P)) (length del) n from mlib_math_try =
           Inr (doc', Some (8 + int (length P)))"
        using splice_move_doc [OF d'(2), of H P del post n "from"] src by auto
      with False eq show ?thesis by simp
    next
      case True
      have "\<not> INT32_MAX - 4 < int (new + 512)" using new(2) by simp
      with d'(6) True have "refused realloc (new + 516)" by (auto intro: refusedI)
      with True eq d'(4) \<open>int new > int (length (dc_buf doc)) - 4\<close> show ?thesis by simp
    qed
  qed
qed

text \<open>
  The whole operation on a root mutator: the replacement of \<open>del\<close> by the inserted bytes, with the
  header updated, or no change when the allocator fails.
\<close>

lemma splice_region_root:
  assumes inv: "doc_inv doc" and data: "doc_data doc = H @ P @ del @ post" "length H = 4" "post \<noteq> []"
    and new: "new = length (H @ P) + n + length post" "int new + 512 \<le> INT32_MAX - 4"
    and n: "int n \<le> INT32_MAX"
    and src: "\<forall>bs. from = Some bs \<longrightarrow> n \<le> length bs" and static: "dc_static doc \<longrightarrow> 0 < n"
  shows "bson_splice_region realloc [root_mut] doc (8 + int (length P)) (length del) n from =
      Inr ([root_mut], doc, None) \<and> refused realloc (new + 516) \<and> int (length (dc_buf doc)) - 4 < int new \<or>
    (\<exists>doc'. bson_splice_region realloc [root_mut] doc (8 + int (length P)) (length del) n from =
        Inr ([root_mut], doc', Some (8 + int (length P))) \<and>
      doc_inv doc' \<and> \<not> dc_static doc' \<and>
      doc_data doc' = u32le (word_of_nat new) @ P @ fill_bytes n from @ post)"
proof -
  let ?r = "splice_root realloc root_mut doc (8 + int (length P)) (4 + int (length P)) (int new)
    (length del) n from mlib_math_try"
  have at: "doc_at (dc_buf doc) doc_data_ptr" using inv by (simp add: doc_inv_def)
  have len: "doc_len (dc_buf doc) doc_data_ptr = int (length (doc_data doc))"
    using length_doc_data [OF inv] by simp
  have b: "int (length (doc_data doc)) \<le> INT32_MAX" using len doc_len_range(2) [of "dc_buf doc" 4] by simp
  have d: "castInt32 mlib_math_try (mlib_math_sub (math_U (int n)) (math_U (int (length del)))) =
      (mlib_math_try, int n - int (length del))"
    using n b data by (intro cast_diff) simp_all
  have s: "castNonNegativeInt32 mlib_math_try (mlib_math_add (math_I (int (length (doc_data doc))))
      (math_I (int n - int (length del))) False) = (mlib_math_try, int new)"
    using cast_sum [of "int (length (doc_data doc))" "int n - int (length del)"] n b data new by simp
  have pre: "4 + int (length P) < int (length (doc_data doc))"
    using data by (cases post) simp_all
  have eq: "bson_splice_region realloc [root_mut] doc (8 + int (length P)) (length del) n from =
      bindR ?r (\<lambda>(mut', doc', out). case out of None \<Rightarrow> Inr ([mut'], doc', None)
        | Some position' \<Rightarrow> bindR (doc_write doc' (mu_data mut') (u32le (word_of_int (int new))))
            (\<lambda>doc'. Inr ([mut'], doc', Some position')))"
    by (simp add: bson_splice_region.simps sizes_of_doc [OF at] len d s pre bindR_assoc case_prod_beta
        Let_def)
      (rule bindR_cong, auto split: option.splits)
  from splice_root_spec [OF inv data new src static]
  show ?thesis
  proof
    assume "?r = Inr (root_mut, doc, None) \<and> refused realloc (new + 516) \<and> int (length (dc_buf doc)) - 4 < int new"
    then show ?thesis by (simp add: eq)
  next
    assume "\<exists>doc'. spliced doc' H (P @ fill_bytes n from @ post) \<and>
      ?r = Inr (root_mut, doc', Some (8 + int (length P)))"
    then obtain doc' R where r: "?r = Inr (root_mut, doc', Some (8 + int (length P)))"
      and d': "\<not> dc_static doc'" "dc_buf doc' = u32le (word_of_nat (length (H @ P @ fill_bytes n from @ post)
        + length R)) @ H @ (P @ fill_bytes n from @ post) @ R"
        "int (length (H @ P @ fill_bytes n from @ post) + length R) + 4 \<le> INT32_MAX"
      by (auto simp: spliced_def)
    define body where "body = P @ fill_bytes n from @ post"
    have lb: "length body + 4 = new"
      using src new(1) data(2) by (auto simp: body_def fill_bytes_def split: option.splits)
    have "dc_buf doc' = u32le (word_of_nat (length (u32le (word_of_nat new) @ body) + length R)) @ H @ body @ R"
      using d'(2) data(2) by (simp add: body_def)
    then have w: "doc_write doc' 4 (u32le (word_of_nat new)) = Inr \<lparr>dc_buf =
        u32le (word_of_nat (length (u32le (word_of_nat new) @ body) + length R)) @ u32le (word_of_nat new) @ body @ R,
        dc_static = False\<rparr>"
      using doc_write_layout [of doc' _ H "body @ R" 4 "u32le (word_of_nat new)"] d'(1) data(2)
      by (cases doc') simp
    from inv have ok: "subdoc_ok (doc_data doc)" by (rule doc_inv_split)
    have "subdoc_ok (u32le (word_of_nat new) @ body)"
      using ok data(2,3) lb new(2) by (auto simp: subdoc_ok_iff data(1) doc_len_u32le to_i32_of_nat body_def Suc_le_eq)
    note l = doc_inv_layout [OF this _ refl, of R]
    have "int (length (u32le (word_of_nat new) @ body) + length R) + 4 \<le> INT32_MAX"
      using d'(3) data(2) by (simp add: body_def)
    with l w r eq show ?thesis by (simp add: body_def)
  qed
qed

end

section \<open>Writing an element\<close>

lemma doc_write_at:
  assumes "\<not> dc_static d" "dc_buf d = pre @ old @ post" "p = int (length pre)" "length old = length bs"
  shows "doc_write d p bs = Inr (d\<lparr>dc_buf := pre @ bs @ post\<rparr>)"
  using doc_write_layout [of d pre old post p bs] assms by (cases d) auto

text \<open>Overwriting the body of a document, not its header or its terminator, keeps the invariant.\<close>

lemma doc_write_inv:
  assumes "doc_inv d" "\<not> dc_static d" "doc_data d = H @ P @ old @ post" "length H = 4" "post \<noteq> []"
    and "length old = length bs"
  obtains d' where "doc_write d (8 + int (length P)) bs = Inr d'" "doc_inv d'" "\<not> dc_static d'"
    "doc_data d' = H @ P @ bs @ post" "length (dc_buf d') = length (dc_buf d)"
proof -
  from assms(1) obtain rest where s:
    "dc_buf d = u32le (word_of_nat (length (doc_data d) + length rest)) @ doc_data d @ rest"
    "subdoc_ok (doc_data d)" "int (length (doc_data d) + length rest) + 4 \<le> INT32_MAX"
    by (rule doc_inv_split)
  let ?c = "u32le (word_of_nat (length (doc_data d) + length rest))"
  have w: "doc_write d (8 + int (length P)) bs =
      Inr (d\<lparr>dc_buf := (?c @ H @ P) @ bs @ post @ rest\<rparr>)"
    using doc_write_at [of d "?c @ H @ P" old "post @ rest" "8 + int (length P)" bs] assms s(1) by simp
  define nd where "nd = H @ P @ bs @ post"
  have len: "length nd = length (doc_data d)" using assms by (simp add: nd_def)
  have "take 4 (doc_data d) = H" "take 4 nd = H" using assms by (simp_all add: nd_def)
  then have "doc_len nd 0 = doc_len (doc_data d) 0" by (simp add: doc_len_def)
  with s(2) len assms(3,5) have ok: "subdoc_ok nd" by (simp add: subdoc_ok_iff nd_def)
  let ?d = "\<lparr>dc_buf = u32le (word_of_nat (length nd + length rest)) @ nd @ rest, dc_static = False\<rparr>"
  have "d\<lparr>dc_buf := x\<rparr> = \<lparr>dc_buf = x, dc_static = False\<rparr>" for x using assms(2) by (cases d) simp
  then have w': "doc_write d (8 + int (length P)) bs = Inr ?d" unfolding w len by (simp add: nd_def)
  have "int (length nd + length rest) + 4 \<le> INT32_MAX" using s(3) len by simp
  note l = doc_inv_layout [OF ok this refl]
  have "length (dc_buf ?d) = length (dc_buf d)" using s(1) len by simp
  with that [OF w' l(1) _ trans [OF l(2) nd_def]] show thesis by simp
qed

lemma write_chunks_inv:
  assumes "doc_inv d" "\<not> dc_static d" "doc_data d = H @ P @ old @ post" "length H = 4" "post \<noteq> []"
    and "length old = length (concat chunks)" "p = 8 + int (length P)"
  obtains d' where "write_chunks d p chunks = Inr d'" "doc_inv d'" "\<not> dc_static d'"
    "doc_data d' = H @ P @ concat chunks @ post"
proof -
  have "\<exists>d'. write_chunks d p chunks = Inr d' \<and> doc_inv d' \<and> \<not> dc_static d' \<and>
      doc_data d' = H @ P @ concat chunks @ post"
    using assms
  proof (induction chunks arbitrary: d P old p)
    case (Cons bs chunks)
    let ?o = "take (length bs) old" and ?r = "drop (length bs) old"
    have l: "length ?o = length bs" "length ?r = length (concat chunks)" using Cons.prems(6) by simp_all
    have "doc_data d = H @ P @ ?o @ ?r @ post" "?r @ post \<noteq> []"
      using Cons.prems(3,5) by simp_all
    then obtain d1 where d1: "doc_write d (8 + int (length P)) bs = Inr d1" "doc_inv d1" "\<not> dc_static d1"
      "doc_data d1 = H @ P @ bs @ ?r @ post"
      by (rule doc_write_inv [OF Cons.prems(1,2) _ Cons.prems(4) _ l(1)])
    with Cons.IH [of d1 "P @ bs" ?r "p + int (length bs)"] Cons.prems(4,5,7) l(2) show ?case
      by auto
  qed simp
  with that show thesis by blast
qed

text \<open>The tag, the key and its terminator.\<close>

lemma write_key_inv:
  assumes "doc_inv d" "\<not> dc_static d" "doc_data d = H @ P @ replicate (length k + j + 2) 88 @ post"
    and "length H = 4" "post \<noteq> []"
  obtains d1 d2 d3 where "doc_write d (8 + int (length P)) [t] = Inr d1"
    "doc_write d1 (8 + int (length P) + 1) k = Inr d2"
    "doc_write d2 (8 + int (length P) + 1 + int (length k)) [0] = Inr d3"
    "doc_inv d3" "\<not> dc_static d3" "doc_data d3 = H @ (P @ t # k @ [0]) @ replicate j 88 @ post"
proof -
  have "doc_data d = H @ P @ [88] @ (replicate (length k) 88 @ [88] @ replicate j 88 @ post)"
    by (simp add: assms(3) replicate_add replicate_app_Cons_same)
  then obtain d1 where d1: "doc_write d (8 + int (length P)) [t] = Inr d1" "doc_inv d1" "\<not> dc_static d1"
    "doc_data d1 = H @ P @ [t] @ (replicate (length k) 88 @ [88] @ replicate j 88 @ post)"
    by (rule doc_write_inv [OF assms(1,2) _ assms(4), where bs = "[t]"]) simp_all
  then have "doc_data d1 = H @ (P @ [t]) @ replicate (length k) 88 @ ([88] @ replicate j 88 @ post)"
    by simp
  then obtain d2 where d2: "doc_write d1 (8 + int (length (P @ [t]))) k = Inr d2" "doc_inv d2"
    "\<not> dc_static d2" "doc_data d2 = H @ (P @ [t]) @ k @ ([88] @ replicate j 88 @ post)"
    by (rule doc_write_inv [OF d1(2,3) _ assms(4), where bs = k]) simp_all
  then have "doc_data d2 = H @ (P @ [t] @ k) @ [88] @ (replicate j 88 @ post)" by simp
  then obtain d3 where d3: "doc_write d2 (8 + int (length (P @ [t] @ k))) [0] = Inr d3" "doc_inv d3"
    "\<not> dc_static d3" "doc_data d3 = H @ (P @ [t] @ k) @ [0] @ (replicate j 88 @ post)"
    by (rule doc_write_inv [OF d2(2,3) _ assms(4), where bs = "[0]"]) (simp_all add: assms(5))
  from d1(1) d2(1) d3 that [of d1 d2 d3] show thesis by (simp add: algebra_simps)
qed

section \<open>Inserting into the abstract document\<close>

lemma cast_elem_size:
  assumes "int (a + b) + 2 \<le> INT32_MAX"
  shows "castNonNegativeInt32 info (mlib_math_add (math_U (int a))
    (mlib_math_add (math_I 2) (math_U (int b)) False) False) = (info, int (a + b) + 2)"
  using assms
  by (intro cast_ok [OF castNonNegativeInt32_spec]) (simp_all add: mi_val_simps in_i64_def)

lemma length_u32le_header: "length (take 4 (doc_bytes es)) = 4"
  by (simp add: doc_bytes_def)

lemma mut_end_root: "doc_inv doc \<Longrightarrow> mut_end [root_mut] doc =
    Inr \<lparr>it_ptr = Some (4 + doc_len (dc_buf doc) 4 - 1), it_keylen = 0, it_rlen = 1\<rparr>"
  by (simp add: mut_end_def doc_inv_def view_from_ptr_doc bson_end_doc)

text \<open>Insertion as one splice followed by the writes.\<close>

lemma insert_chunks_head:
  assumes k: "k = view_bytes (mlib_str_view_chopnulls key)" and size: "int (length k + n) + 2 \<le> INT32_MAX"
    and at: "bson_mut_data_at root_mut doc pos = Inr q" "it_deref pos = Inr q"
  shows "insert_chunks alloc [root_mut] doc pos t key n chunks =
    bindR (bson_splice_region alloc [root_mut] doc q 0 (length k + n + 2) None) (\<lambda>(chain, doc, out).
      case out of None \<Rightarrow> bindR (mut_end chain doc) (\<lambda>e. Inr (chain, doc, e))
      | Some p \<Rightarrow>
          bindR (doc_write doc p [t]) (\<lambda>doc.
          bindR (doc_write doc (p + 1) k) (\<lambda>doc.
          bindR (doc_write doc (p + 1 + int (length k)) [0]) (\<lambda>doc.
          bindR (ssize_of doc (mu_data (hd chain))) (\<lambda>sz.
          bindR (write_chunks doc (p + 1 + int (length k) + 1) chunks) (\<lambda>doc.
          Inr (chain, doc, \<lparr>it_ptr = Some (mu_data (hd chain) + (q - 4)), it_keylen = int (length k),
            it_rlen = sz - (q - 4)\<rparr>)))))))"
proof -
  have sv: "sv_len (mlib_str_view_chopnulls key) = length k"
    by (cases key) (simp_all add: k view_bytes_def)
  have es: "castNonNegativeInt32 mlib_math_try (mlib_math_add (math_U (int (length k)))
      (mlib_math_add (math_I 2) (math_U (int n)) False) False) = (mlib_math_try, int (length k + n) + 2)"
    using size by (rule cast_elem_size)
  have nn: "nat (int (length k + n) + 2) = length k + n + 2" by simp
  show ?thesis
    unfolding insert_chunks_def bson_prep_element_region_def Let_def sv es k [symmetric] prod.case nn
    by (simp add: at bindR_assoc)
      (rule bindR_cong, auto simp: bindR_assoc split: option.splits)
qed

context exact_allocator
begin

lemma insert_chunks_spec:
  assumes inv: "doc_inv doc" and data: "doc_data doc = doc_bytes (es @ fs)"
    and pos: "it_ptr pos = Some (8 + int (length (elems_bytes es)))"
    and k: "k = view_bytes (mlib_str_view_chopnulls key)"
    and v: "v = concat chunks @ replicate j 88" "n = length v"
    and size: "int (length (doc_data doc) + length k + length v) + 2 + 512 \<le> INT32_MAX - 4"
  shows "insert_chunks realloc [root_mut] doc pos t key n chunks =
      bindR (mut_end [root_mut] doc) (\<lambda>e. Inr ([root_mut], doc, e)) \<and>
      refused realloc (length (doc_bytes (es @ (t, k, v) # fs)) + 516) \<and>
      length (dc_buf doc) < length (doc_bytes (es @ (t, k, v) # fs)) + 4 \<or>
    (\<exists>doc'. doc_inv doc' \<and> \<not> dc_static doc' \<and> doc_data doc' = doc_bytes (es @ (t, k, v) # fs) \<and>
      insert_chunks realloc [root_mut] doc pos t key n chunks =
        Inr ([root_mut], doc', elem_iter (8 + int (length (elems_bytes es)))
          (int (length (elems_bytes ((t, k, v) # fs))) + 1) (t, k, v)))"
proof -
  define P post where "P = elems_bytes es" and "post = elems_bytes fs @ [0]"
  define H where "H = u32le (word_of_nat (length (elems_bytes (es @ fs)) + 5))"
  have d: "doc_data doc = H @ P @ [] @ post" "length H = 4" "post \<noteq> []"
    by (simp_all add: data doc_bytes_def H_def P_def post_def)
  let ?n = "length k + length v + 2"
  let ?new = "length (H @ P) + ?n + length post"
  have at: "bson_mut_data_at root_mut doc pos = Inr (8 + int (length P))" "it_deref pos = Inr (8 + int (length P))"
    using pos inv sizes_of_doc(1) [of doc 4]
    by (simp_all add: bson_mut_data_at_def it_deref_def doc_inv_def P_def)
  have "int (length k + n) + 2 \<le> INT32_MAX" using size v by simp
  note head = insert_chunks_head [OF k this at, of realloc t chunks, unfolded v(2)]
  have new: "int ?new + 512 \<le> INT32_MAX - 4" using size arg_cong [OF d(1), of length] d(2) by simp
  then have n: "int ?n \<le> INT32_MAX" by simp
  have src: "\<forall>bs. (None :: bytes option) = Some bs \<longrightarrow> ?n \<le> length bs"
    and st: "dc_static doc \<longrightarrow> 0 < ?n" by simp_all
  from splice_region_root [OF inv d refl new n src st] show ?thesis
  proof (elim disjE exE conjE)
    assume "bson_splice_region realloc [root_mut] doc (8 + int (length P)) (length []) ?n None =
      Inr ([root_mut], doc, None)" "refused realloc (?new + 516)" "int (length (dc_buf doc)) - 4 < int ?new"
    moreover have "?new = length (doc_bytes (es @ (t, k, v) # fs))"
      by (simp add: d(2) P_def post_def elem_bytes_def)
    ultimately have "refused realloc (length (doc_bytes (es @ (t, k, v) # fs)) + 516)"
      "length (dc_buf doc) < length (doc_bytes (es @ (t, k, v) # fs)) + 4" by (simp_all only: of_nat_less_iff flip: of_nat_add)
    with \<open>bson_splice_region _ _ _ _ _ _ _ = Inr ([root_mut], doc, None)\<close> show ?thesis
      by (intro disjI1) (simp add: head v(2))
  next
    fix d1
    assume s: "bson_splice_region realloc [root_mut] doc (8 + int (length P)) (length []) ?n None =
        Inr ([root_mut], d1, Some (8 + int (length P)))" "doc_inv d1" "\<not> dc_static d1"
      "doc_data d1 = u32le (word_of_nat ?new) @ P @ fill_bytes ?n None @ post"
    let ?H = "u32le (word_of_nat ?new)"
    have "doc_data d1 = ?H @ P @ replicate (length k + length v + 2) 88 @ post"
      using s(4) by (simp add: fill_bytes_def)
    then obtain d2 d3 d4 where w: "doc_write d1 (8 + int (length P)) [t] = Inr d2"
      "doc_write d2 (8 + int (length P) + 1) k = Inr d3"
      "doc_write d3 (8 + int (length P) + 1 + int (length k)) [0] = Inr d4"
      "doc_inv d4" "\<not> dc_static d4" "doc_data d4 = ?H @ (P @ t # k @ [0]) @ replicate (length v) 88 @ post"
      by (rule write_key_inv [OF s(2,3) _ _ d(3)]) simp_all
    have w6: "doc_data d4 = ?H @ (P @ t # k @ [0]) @ replicate (length (concat chunks)) 88 @
        (replicate j 88 @ post)"
      using w(6) by (simp add: v(1) replicate_add)
    have l: "length (replicate (length (concat chunks)) 88) = length (concat chunks)" "replicate j 88 @ post \<noteq> []"
      using d(3) by simp_all
    from write_chunks_inv [OF w(4,5) w6 _ l(2,1), of "8 + int (length P) + 1 + int (length k) + 1"]
    obtain d5 where c: "write_chunks d4 (8 + int (length P) + 1 + int (length k) + 1) chunks = Inr d5"
      "doc_inv d5" "\<not> dc_static d5" "doc_data d5 = ?H @ (P @ t # k @ [0]) @ v @ post"
      using v(1) by auto
    have "doc_data d5 = doc_bytes (es @ (t, k, v) # fs)"
      by (simp add: c(4) doc_bytes_def P_def post_def elem_bytes_def d(2) add.commute add.left_commute)
    moreover have "ssize_of d4 4 = Inr (int ?new)"
      using sizes_of_doc(2) [of d4 4] length_doc_data [OF w(4)] w(4,6) d(2) by (simp add: doc_inv_def)
    ultimately show ?thesis
      using s(1) w c v(2)
      by (intro disjI2 exI [of _ d5]) (simp add: head elem_iter_def P_def [symmetric] post_def d(2))
  qed
qed

end

lemma refused_default: "refused (default_reallocate avail junk) n \<Longrightarrow> 0 < n \<Longrightarrow> \<not> avail n"
  by (auto simp: refused_def default_reallocate_def c_realloc_def c_malloc_def res_simps
      split: if_splits option.splits)

lemma refuses_default: "refuses (default_reallocate avail junk) \<Longrightarrow> \<exists>n. \<not> avail n"
  by (auto simp: refuses_def default_reallocate_def c_realloc_def c_malloc_def res_simps
      split: if_splits option.splits)

text \<open>The writes of each kind of value are the encoding of the value.\<close>

definition insertable :: "bson_value_ref \<Rightarrow> bool" where
  "insertable v \<longleftrightarrow>
     (value_ok v \<and> v \<noteq> V_eod \<or> empty_string v \<or> null_view v \<or>
      dbpointer_ok v \<and> (\<forall>c oid. v = V_dbpointer (Some c) oid \<longrightarrow> 0 \<notin> set c)) \<and>
     (\<forall>r opt. v \<noteq> V_regex r opt)"

lemma insert_stringlike_chunks:
  assumes "int (length s) + 5 \<le> INT32_MAX"
  shows "\<exists>chunks. concat chunks = string_bytes s \<and>
    bson_insert_stringlike alloc chain doc pos key t (Some s) =
      insert_chunks alloc chain doc pos t key (length (string_bytes s)) chunks"
proof -
  have a: "castPositiveInt32 mlib_math_try (mlib_math_add (math_U (int (length s))) (math_I 1) False) =
      (mlib_math_try, int (length s) + 1)"
    using assms by (intro cast_ok [OF castPositiveInt32_spec]) (simp_all add: mi_val_simps in_i64_def)
  have b: "castPositiveInt32 mlib_math_try (mlib_math_add (math_I (int (length s) + 1)) (math_I 4) False) =
      (mlib_math_try, int (length s) + 5)"
    using cast_positive_sum [of "int (length s) + 1" 4] assms by simp
  have c: "nat (int (length s) + 5) = length (string_bytes s)" by (simp add: string_bytes_def)
  have w: "word_of_int (int (length s) + 1) = (word_of_nat (length s + 1) :: u32)" by simp
  show ?thesis
    unfolding bson_insert_stringlike_def Let_def sv_len_simps a b prod.case c w view_bytes_def
    by (intro exI [of _ "[u32le (word_of_nat (length s + 1)), s, [0]]"])
      (simp add: string_bytes_def)
qed

lemma insert_binary_chunks:
  assumes "int (length bs) + 5 \<le> INT32_MAX"
  shows "\<exists>chunks. concat chunks = value_bytes (V_binary b bs) \<and>
    insert_binary alloc chain doc pos key b bs =
      insert_chunks alloc chain doc pos bson_type_binary key (length (value_bytes (V_binary b bs))) chunks"
proof -
  have a: "castNonNegativeInt32 mlib_math_try (math_I (int (length bs))) = (mlib_math_try, int (length bs))"
    using assms by (intro cast_nonneg) simp_all
  have b: "castPositiveInt32 mlib_math_try (mlib_math_add (math_I (int (length bs))) (math_I 5) False) =
      (mlib_math_try, int (length bs) + 5)"
    using cast_positive_sum [of "int (length bs)" 5] assms by simp
  have c: "nat (int (length bs) + 5) = length (value_bytes (V_binary b bs))" by simp
  show ?thesis
    unfolding insert_binary_def Let_def a b prod.case c
    by (intro exI [of _ "[u32le (word_of_nat (length bs)), [b], bs]"]) simp
qed

lemma insert_dbpointer_chunks:
  assumes "0 \<notin> set c" "length oid = 12" "int (length c) + 17 \<le> INT32_MAX"
  shows "\<exists>chunks. concat chunks = value_bytes (V_dbpointer (Some c) oid) \<and>
    insert_dbpointer alloc chain doc pos key (Some c) oid =
      insert_chunks alloc chain doc pos bson_type_dbpointer key (length (value_bytes (V_dbpointer (Some c) oid))) chunks"
proof -
  obtain w where w: "mlib_math_strnlen c 0 (math_U (int (length c))) = Inr w" "mi_val w = Some (int (length c))"
    using mlib_math_strnlen_eq [of "math_U (int (length c))" "int (length c)" 0 c] assms
    by (auto simp: mi_val_simps in_i64_def cstr_id_iff [THEN iffD2])
  have a: "castPositiveInt32 mlib_math_try (mlib_math_add w (math_I 1) False) = (mlib_math_try, int (length c) + 1)"
    using assms w(2) by (intro cast_ok [OF castPositiveInt32_spec]) (simp_all add: mi_val_simps in_i64_def)
  have b: "castNonNegativeInt32 mlib_math_try (mlib_math_add (math_I (int (length c) + 1)) (math_I (12 + 4)) False) =
      (mlib_math_try, int (length c) + 17)"
    using assms by (intro cast_ok [OF castNonNegativeInt32_spec]) (simp_all add: mi_val_simps in_i64_def)
  have n: "nat (int (length c) + 17) = length (value_bytes (V_dbpointer (Some c) oid))"
    using assms(2) by (simp add: string_bytes_def)
  have t: "take (nat (int (length c) + 1) - 1) c = c" by (simp add: nat_add_distrib)
  have u: "word_of_int (int (length c) + 1) = (word_of_nat (length c + 1) :: u32)" by simp
  show ?thesis
    unfolding insert_dbpointer_def Let_def view_bytes_def option.case sv_len_simps w(1) bindR_simps a b prod.case n t u
    by (intro exI [of _ "[u32le (word_of_nat (length c + 1)), c, [0], oid]"]) (simp add: string_bytes_def)
qed

lemma insert_value_chunks:
  assumes "insertable v" "int (length (value_bytes v)) \<le> INT32_MAX"
  shows "\<exists>chunks. concat chunks = value_bytes v \<and>
    bson_insert_value alloc chain doc pos key v =
      insert_chunks alloc chain doc pos (value_type v) key (length (value_bytes v)) chunks"
proof -
  have one: "\<exists>chunks. concat chunks = bs \<and> X [bs] = X chunks" for X :: "bytes list \<Rightarrow> 'a" and bs
    by (intro exI [of _ "[bs]"]) simp
  have nil: "\<exists>chunks :: bytes list. (\<forall>xs \<in> set chunks. xs = []) \<and> X [] = X chunks" for X :: "bytes list \<Rightarrow> 'a"
    by (intro exI [of _ "[]"]) simp
  have none: "bson_insert_stringlike alloc chain doc pos key t None = bson_insert_stringlike alloc chain doc pos key t (Some [])"
    for t
  proof -
    have "view_bytes None = view_bytes (Some [])" by (simp add: view_bytes_def)
    then show ?thesis unfolding bson_insert_stringlike_def sv_len_simps by (simp only: list.size)
  qed
  have str: "\<exists>chunks. concat chunks = string_bytes (view_bytes s) \<and>
      bson_insert_stringlike alloc chain doc pos key t s =
        insert_chunks alloc chain doc pos t key (length (string_bytes (view_bytes s))) chunks"
    if "int (length (string_bytes (view_bytes s))) \<le> INT32_MAX" for s t
    using that insert_stringlike_chunks [of "view_bytes s" alloc chain doc pos key t]
    by (cases s) (simp_all add: none view_bytes_def string_bytes_def)
  have eb: "doc_bytes [] = empty_doc_bytes" by (simp add: doc_bytes_def empty_doc_bytes_def u32le_def)
  show ?thesis
  proof (cases v)
    case (V_utf8 s)
    with assms show ?thesis using str [of s bson_type_utf8] by (cases s) (simp_all add: view_bytes_def)
  next
    case (V_code s)
    with assms show ?thesis using str [of s bson_type_code] by (cases s) (simp_all add: view_bytes_def)
  next
    case (V_symbol s)
    with assms show ?thesis using str [of s bson_type_symbol] by (cases s) (simp_all add: view_bytes_def)
  next
    case (V_dbpointer c oid)
    then obtain c' where "c = Some c'" "length oid = 12" "int (length c') + 17 \<le> INT32_MAX" "0 \<notin> set c'"
      using assms(1) by (cases c) (auto simp: insertable_def empty_string_def null_view_def dbpointer_ok_def)
    then show ?thesis using insert_dbpointer_chunks [of c' oid] V_dbpointer by simp
  next
    case (V_binary b bs)
    with assms show ?thesis using insert_binary_chunks [of bs] by simp
  next
    case (V_timestamp i t)
    then show ?thesis by (intro exI [of _ "[u32le i, u32le t]"]) simp
  qed (use assms in \<open>auto simp: insertable_def empty_string_def null_view_def dbpointer_ok_def
      insert_subdoc_value_def Let_def one nil eb split: option.splits\<close>)
qed

lemma insert_regex_chunks:
  assumes "0 \<notin> set r" "0 \<notin> set opt" "int (length r + length opt) + 5 \<le> INT32_MAX"
  shows "bson_insert_value alloc chain doc pos key (V_regex (Some r) (Some opt)) =
    insert_chunks alloc chain doc pos bson_type_regex key (length (r @ 0 # opt @ [0] @ replicate 3 88))
      [r, [0], opt, [0]]"
proof -
  have c: "cstr r = r" "cstr opt = opt" using assms by (simp_all add: cstr_id_iff)
  have "mi_val (mlib_math_add (math_U (int (length r)))
      (mlib_math_add (math_U (int (length opt))) (math_I 5) False) False) =
      Some (int (length r + length opt) + 5)"
    using assms(3) by (simp add: mi_val_simps in_i64_def)
  then have s: "castNonNegativeInt32 mlib_math_try (checkMin (math_I 2) (mlib_math_add (math_U (int (length r)))
      (mlib_math_add (math_U (int (length opt))) (math_I 5) False) False)) =
      (mlib_math_try, int (length r + length opt) + 5)"
    using assms(3)
    by (intro cast_ok [OF castNonNegativeInt32_spec])
      (simp_all add: checkMin_def mi_val_check_bounds mi_val_I in_i64_def)
  have n: "nat (int (length r + length opt) + 5) = length (r @ 0 # opt @ [0] @ replicate 3 88)"
    by simp
  show ?thesis
    unfolding bson_insert_value.simps insert_regex_def Let_def chopnulls_simps sv_len_simps c s prod.case n
      view_bytes_def by simp
qed

section \<open>The buffer of a document\<close>

text \<open>An element of an owned document, where the iterators find it.\<close>

lemma placed_in_doc:
  assumes inv: "doc_inv doc" and data: "doc_data doc = doc_bytes (es @ e # fs)"
  shows "placed (dc_buf doc) (8 + int (length (elems_bytes es)))
    (int (length (elems_bytes (e # fs))) + 1) e"
proof -
  from inv obtain rest where s:
    "dc_buf doc = u32le (word_of_nat (length (doc_data doc) + length rest)) @ doc_data doc @ rest"
    "int (length (doc_data doc) + length rest) + 4 \<le> INT32_MAX"
    by (rule doc_inv_split)
  define pre where "pre = u32le (word_of_nat (length (doc_data doc) + length rest)) @
    u32le (word_of_nat (length (elems_bytes (es @ e # fs)) + 5)) @ elems_bytes es"
  have buf: "dc_buf doc = pre @ elem_bytes e @ (elems_bytes fs @ [0]) @ rest"
    unfolding s(1) pre_def by (simp add: data doc_bytes_def)
  have p: "8 + int (length (elems_bytes es)) = int (length pre)" by (simp add: pre_def)
  have "nat (int (length pre) + (int (length (elems_bytes (e # fs))) + 1) - 1) =
      length (pre @ elem_bytes e @ elems_bytes fs)" by simp
  then have "dc_buf doc ! nat (int (length pre) + (int (length (elems_bytes (e # fs))) + 1) - 1) = 0"
    by (simp only: buf) (simp add: nth_append)
  then have "window (dc_buf doc) (int (length pre)) (int (length (elems_bytes (e # fs))) + 1)"
    using s(2) by (simp add: window_def buf data)
  with buf show ?thesis unfolding p placed_def by auto
qed

section \<open>Removing elements\<close>

context exact_allocator
begin

text \<open>Removing a part never needs memory.\<close>

lemma splice_region_remove:
  assumes inv: "doc_inv doc" and data: "doc_data doc = H @ P @ del @ post" "length H = 4" "post \<noteq> []"
    and size: "int (length (doc_data doc)) + 512 \<le> INT32_MAX - 4" and static: "\<not> dc_static doc"
  obtains doc' where "bson_splice_region realloc [root_mut] doc (8 + int (length P)) (length del) 0 (Some []) =
      Inr ([root_mut], doc', Some (8 + int (length P)))" "doc_inv doc'"
    "doc_data doc' = u32le (word_of_nat (length (H @ P) + length post)) @ P @ post"
proof -
  have new: "int (length (H @ P) + 0 + length post) + 512 \<le> INT32_MAX - 4"
    using size by (simp add: data)
  have src: "\<forall>bs. Some [] = Some bs \<longrightarrow> 0 \<le> length (bs :: bytes)" "dc_static doc \<longrightarrow> 0 < (0 :: nat)"
    using static by simp_all
  have "\<not> int (length (dc_buf doc)) - 4 < int (length (H @ P) + 0 + length post)"
    using doc_inv_bounds(3) [OF inv] length_doc_data [OF inv] by (simp add: data)
  with splice_region_root [OF inv data refl new _ src] that show thesis
    by (auto simp: fill_bytes_def)
qed

end

lemma next_in_doc:
  assumes inv: "doc_inv doc" and data: "doc_data doc = doc_bytes (es @ e # fs)"
    and ok: "elem_ok e" "\<forall>f \<in> set fs. elem_ok f"
    and p: "p = 8 + int (length (elems_bytes es))" "n = int (length (elems_bytes fs)) + 1"
  obtains nxt where "bson_next (dc_buf doc) (elem_iter p (int (length (elem_bytes e)) + n) e) = Inr nxt"
    "it_ptr nxt = Some (p + int (length (elem_bytes e)))" "it_rlen nxt = n"
    "fs = [] \<Longrightarrow> it_keylen nxt = 0" "fs \<noteq> [] \<Longrightarrow> nxt = elem_iter (p + int (length (elem_bytes e))) n (hd fs)"
proof -
  have pl: "placed (dc_buf doc) p (int (length (elem_bytes e)) + n) e"
    using placed_in_doc [OF inv data] p by (simp add: add.assoc)
  then obtain pre post where m: "dc_buf doc = pre @ elem_bytes e @ post" "p = int (length pre)"
    "window (dc_buf doc) p (int (length (elem_bytes e)) + n)"
    by (auto simp: placed_def)
  let ?q = "p + int (length (elem_bytes e))"
  have nx: "bson_next (dc_buf doc) (elem_iter p (int (length (elem_bytes e)) + n) e) =
      bson_iterator_at (dc_buf doc) ?q n"
    using next_at_elem(2) [OF m(1,2) ok(1) m(3)] p(2) by simp
  show thesis
  proof (cases fs)
    case Nil
    then have "n = 1" using p(2) by simp
    moreover have "window (dc_buf doc) ?q 1"
      using window_shift [OF m(3), of "int (length (elem_bytes e))"] \<open>n = 1\<close> by simp
    ultimately show ?thesis
      using that [of "\<lparr>it_ptr = Some ?q, it_keylen = 0, it_rlen = 1\<rparr>"] nx Nil
      by (simp add: iterator_at_end)
  next
    case (Cons f fs')
    have "placed (dc_buf doc) (8 + int (length (elems_bytes (es @ [e]))))
        (int (length (elems_bytes (f # fs'))) + 1) f"
      using placed_in_doc [OF inv, of "es @ [e]" f fs'] data Cons by simp
    then have pf: "placed (dc_buf doc) ?q n f" using p Cons by (simp add: add.assoc)
    then have "bson_iterator_at (dc_buf doc) ?q n = Inr (elem_iter ?q n f)"
      using ok(2) Cons iterator_at_elem(1) unfolding placed_def by (metis list.set_intros(1))
    with that nx Cons show ?thesis by (cases f) (simp add: elem_iter_def)
  qed
qed

section \<open>Properties\<close>

text \<open>
  What insertion writes for a value: its encoding, but behind a regular expression three bytes too many, which keep
  their filler.
\<close>

definition written_bytes :: "bson_value_ref \<Rightarrow> bytes" where
  "written_bytes v =
     (case v of V_regex r opt \<Rightarrow> value_bytes v @ [88, 88, 88] | _ \<Rightarrow> value_bytes v)"

definition regex_ok :: "bson_value_ref \<Rightarrow> bool" where
  "regex_ok v \<longleftrightarrow> (\<exists>r opt. v = V_regex (Some r) (Some opt) \<and> 0 \<notin> set r \<and> 0 \<notin> set opt)"

lemma insert_value_writes:
  assumes "insertable v \<or> regex_ok v" "int (length (written_bytes v)) \<le> INT32_MAX"
  shows "\<exists>chunks j. written_bytes v = concat chunks @ replicate j 88 \<and>
    bson_insert_value alloc chain doc pos key v =
      insert_chunks alloc chain doc pos (value_type v) key (length (written_bytes v)) chunks"
  using assms(1)
proof
  assume i: "insertable v"
  then have w: "written_bytes v = value_bytes v"
    by (auto simp: written_bytes_def insertable_def split: bson_value_ref.splits)
  with insert_value_chunks [OF i, of alloc chain doc pos key] assms(2) show ?thesis
    by (metis append_Nil2 replicate_0)
next
  assume "regex_ok v"
  then obtain r opt where v: "v = V_regex (Some r) (Some opt)" "0 \<notin> set r" "0 \<notin> set opt" by (auto simp: regex_ok_def)
  then have "bson_insert_value alloc chain doc pos key v =
      insert_chunks alloc chain doc pos bson_type_regex key (length (r @ 0 # opt @ [0] @ replicate 3 88))
        [r, [0], opt, [0]]"
    using assms(2) by (simp only: v(1), intro insert_regex_chunks) (simp_all add: written_bytes_def)
  moreover have "written_bytes v = concat [r, [0], opt, [0]] @ replicate 3 88"
    by (simp add: v(1) written_bytes_def numeral_3_eq_3)
  ultimately show ?thesis
    by (intro exI [of _ "[r, [0], opt, [0]]"] exI [of _ "3"]) (simp add: v(1))
qed

lemma key_at_elem:
  assumes "placed m p n (t, k, v)"
  shows "bson_key m (elem_iter p n (t, k, v)) = Inr (Some k)"
proof -
  obtain pre post where m: "m = pre @ elem_bytes (t, k, v) @ post" "p = int (length pre)"
    "int (length (elem_bytes (t, k, v))) < n" using assms by (auto simp: placed_def)
  have "rd_n m (p + 1) (length k) = Inr k"
    using rd_n_append_at [of "p + 1" "pre @ [t]" "length k" k "0 # v @ post"] m
    by (simp add: elem_bytes_def)
  then show ?thesis using m(3) by (simp add: bson_key_def elem_iter_def)
qed

lemma written_value_reads:
  assumes "placed m p n (value_type v, k, written_bytes v)" "value_ok v \<or> dbpointer_ok v"
  shows "bson_iterator_value m (elem_iter p n (value_type v, k, written_bytes v)) = Inr (Some v)"
proof (cases "\<exists>r opt. v = V_regex r opt")
  case True
  with assms(2) obtain r opt where v: "v = V_regex (Some r) (Some opt)" "0 \<notin> set r" "0 \<notin> set opt"
    by (auto simp: dbpointer_ok_def split: option.splits)
  from assms(1) show ?thesis
  proof (rule placed_value)
    fix pre post
    assume "m = pre @ written_bytes v @ post" "p + int (length k) + 2 = int (length pre)"
    then have "bson_iterator_regex m (elem_iter p n (value_type v, k, written_bytes v)) = Inr v"
      using regex_read [OF placed_accessors(1) [OF assms(1)], of m pre r opt "[88, 88, 88] @ post"] v assms(1)
      by (auto simp: written_bytes_def placed_def window_def)
    then show ?thesis
      using placed_accessors [OF assms(1)] by (simp add: v(1) bson_iterator_value_def bson_type_neqs Let_def)
  qed
next
  case False
  then have "written_bytes v = value_bytes v" by (auto simp: written_bytes_def split: bson_value_ref.splits)
  with assms iterator_value_at dbpointer_reads show ?thesis by auto
qed


lemma insertable_int32: "insertable (V_int32 n)"
  by (simp add: insertable_def)

lemma doc_data_empty: "doc_data empty_doc = doc_bytes ([] @ [])"
  by (simp add: doc_inv_empty(2) doc_bytes_def u32le_def)




text \<open>
  The exception among the values. Inserting a regular expression reserves three bytes more than
  it writes, so that the value is followed by three filler bytes that belong to no element: the
  value's bytes are not the encoding of a regular expression.
\<close>

theorem regex_insert_leaves_filler:
  assumes "doc_inv doc" "doc_data doc = doc_bytes (es @ fs)"
    and "it_ptr pos = Some (8 + int (length (elems_bytes es)))" "0 \<notin> set r" "0 \<notin> set opt"
    and "k = view_bytes (mlib_str_view_chopnulls key)" "\<forall>n. avail n"
    and "int (length (doc_data doc) + length k + (length r + length opt + 5)) + 2 + 512 \<le> INT32_MAX - 4"
  shows "\<exists>doc' it. bson_insert_value (default_reallocate avail junk) bson_mutate doc pos key
      (V_regex (Some r) (Some opt)) = Inr (bson_mutate, doc', it) \<and>
    doc_data doc' = doc_bytes (es @ (bson_type_regex, k, r @ 0 # opt @ [0, 88, 88, 88]) # fs) \<and>
    \<not> val_ok bson_type_regex (r @ 0 # opt @ [0, 88, 88, 88])"
proof -
  let ?v = "r @ 0 # opt @ [0] @ replicate 3 88"
  have v: "?v = concat [r, [0], opt, [0]] @ replicate 3 88" by simp
  have sz: "int (length (doc_data doc) + length k + length ?v) + 2 + 512 \<le> INT32_MAX - 4"
    using assms(8) by simp
  have e: "bson_insert_value (default_reallocate avail junk) [root_mut] doc pos key (V_regex (Some r) (Some opt)) =
      insert_chunks (default_reallocate avail junk) [root_mut] doc pos bson_type_regex key (length ?v)
        [r, [0], opt, [0]]"
    using assms(4,5,8) by (intro insert_regex_chunks) simp_all
  have nr: "0 < n \<Longrightarrow> \<not> refused (default_reallocate avail junk) n" for n using refused_default assms(7) by blast
  have r3: "replicate 3 (88 :: byte) = [88, 88, 88]" by (simp add: numeral_3_eq_3)
  have "\<not> regex_bytes (r @ 0 # opt @ [0, 88, 88, 88])"
    using assms(4,5) by (simp add: regex_bytes_def cstr_append Let_def)
  then have "\<not> val_ok bson_type_regex (r @ 0 # opt @ [0, 88, 88, 88])"
    by (simp add: val_ok_def standard_value_def bson_type_neqs)
  with default_alloc.insert_chunks_spec [OF assms(1,2,3,6) v refl sz, of avail junk bson_type_regex] e nr
  show ?thesis by (auto simp: bson_mutate_def r3)
qed

theorem regex_insert_leaves_filler_witness:
  "\<exists>doc' it. bson_insert_value (default_reallocate (\<lambda>_. True) (\<lambda>_. 7)) bson_mutate empty_doc
       \<lparr>it_ptr = Some 8, it_keylen = 0, it_rlen = 1\<rparr> (Some [114]) (V_regex (Some [97]) (Some [])) =
     Inr (bson_mutate, doc', it) \<and>
     doc_data doc' = doc_bytes [(11, [114], [97, 0, 0, 88, 88, 88])]"
  using regex_insert_leaves_filler [OF doc_inv_empty(1) doc_data_empty, of
      "\<lparr>it_ptr = Some 8, it_keylen = 0, it_rlen = 1\<rparr>" "[97]" "[]" "[114]" "Some [114]"
      "\<lambda>_. True" "\<lambda>_. 7"]
  by (auto simp: view_bytes_def doc_inv_empty(2) bson_type_defs)

section \<open>Array indices\<close>

definition is_digit :: "byte \<Rightarrow> bool" where
  "is_digit b \<longleftrightarrow> 48 \<le> unat b \<and> unat b \<le> 57"

definition decimal_value :: "bytes \<Rightarrow> nat" where
  "decimal_value bs = foldl (\<lambda>a b. 10 * a + (unat b - 48)) 0 bs"

lemma unat_digit: "d < 10 \<Longrightarrow> unat (48 + word_of_nat d :: byte) = 48 + d"
proof -
  assume "d < 10"
  then have "unat (word_of_nat (48 + d) :: byte) = 48 + d" by (subst unat_of_nat) simp
  then show ?thesis by simp
qed

lemma is_digit_word: "d < 10 \<Longrightarrow> is_digit (48 + word_of_nat d)"
  by (simp add: is_digit_def unat_digit)

lemma bson_write_uint_digits:
  "list_all is_digit (bson_write_uint v) \<and> decimal_value (bson_write_uint v) = v"
proof (induction v rule: bson_write_uint.induct)
  case (1 v)
  have dec: "decimal_value (bs @ [48 + word_of_nat (v mod 10)]) = 10 * decimal_value bs + v mod 10" for bs
    by (simp add: decimal_value_def unat_digit)
  consider "v < 10" | "10 \<le> v" "v < 100" | "100 \<le> v" by linarith
  then show ?case
  proof cases
    case 1
    then show ?thesis
      by (subst (1 2) bson_write_uint.simps) (auto simp: is_digit_def decimal_value_def unat_digit)
  next
    case 2
    then have "v div 10 < 10" by simp
    with 2 show ?thesis
      by (subst (1 2) bson_write_uint.simps)
        (auto simp: is_digit_def dec [of "[48 + word_of_nat (v div 10)]", simplified] decimal_value_def
          unat_digit)
  next
    case 3
    with 1 show ?thesis
      by (subst (1 2) bson_write_uint.simps) (auto simp: is_digit_word dec unat_digit)
  qed
qed

lemma bson_write_uint_length: "v < 10 ^ Suc n \<Longrightarrow> length (bson_write_uint v) \<le> Suc n"
proof (induction n arbitrary: v)
  case 0
  then show ?case by (subst bson_write_uint.simps) simp
next
  case (Suc n)
  have "v div 10 < 10 ^ Suc n" using Suc.prems by (simp add: less_mult_imp_div_less)
  with Suc.IH [of "v div 10"] show ?case by (subst bson_write_uint.simps) simp
qed

text \<open>
  The decimal key of every array index fits the eleven characters of \<^verbatim>\<open>bson_u32_string\<close>, holds
  digits only and spells the index.
\<close>

theorem u32_string_spells_index:
  "\<exists>buf. bson_u32_string_create i = Inr buf \<and> length buf = 11 \<and> list_all is_digit (cstr buf) \<and>
     decimal_value (cstr buf) = unat i"
proof -
  let ?s = "bson_write_uint (unat i)"
  have "unat i < 4294967296" using unsigned_less [of i] by simp
  then have l: "length ?s \<le> 10" using bson_write_uint_length [of "unat i" 9] by simp
  have w: "bson_u32_string_create i = Inr (?s @ 0 # replicate (10 - length ?s) 0)"
    using l by (simp add: bson_u32_string_create_def wr_n_in Suc_diff_le flip: replicate_Suc)
  have "0 \<notin> set ?s"
    using bson_write_uint_digits [of "unat i"] by (auto simp: list_all_iff is_digit_def)
  then have "cstr (?s @ 0 # replicate (10 - length ?s) 0) = ?s" by (simp add: cstr_append)
  with w l bson_write_uint_digits [of "unat i"] show ?thesis by simp
qed

end
