(* ===== verification/Amongoc_Status.thy ===== *)
theory Amongoc_Status
  imports Amongoc_Prelude
begin

text \<open>
  Status codes (\<^verbatim>\<open>include/amongoc/status.h\<close>, \<^verbatim>\<open>src/amongoc/status.cpp\<close>). A status is the address of a
  category and a code. The addresses of the nine categories of the library are the constructors of
  \<open>category\<close>, and \<open>Custom\<close> stands for a category that a user supplies. The functions of a category
  are a \<open>vtable\<close>; a null function pointer is \<open>None\<close>.

  Texts that come from the C library, Asio and OpenSSL, and the enumerators of
  \<^verbatim>\<open>asio::error::misc_errors\<close>, are parameters, collected in the record \<open>platform\<close>. Message texts are
  lists of characters; \<open>None\<close> is a null pointer.
\<close>

section \<open>Categories\<close>

datatype category =
    Generic | System | Netdb | Addrinfo | Io | Server | Client | Tls | Unknown
  | Custom nat

record amongoc_status =
  st_category :: category
  st_code :: int

record vtable =
  vt_name :: string
  vt_message :: "int \<Rightarrow> nat \<Rightarrow> string option"
  vt_is_error :: "(int \<Rightarrow> bool) option"
  vt_is_cancellation :: "(int \<Rightarrow> bool) option"
  vt_is_timeout :: "(int \<Rightarrow> bool) option"

text \<open>The values of \<^verbatim>\<open>errno\<close> on Linux.\<close>

definition ENOENT :: int where "ENOENT = 2"
definition EINVAL :: int where "EINVAL = 22"
definition EISCONN :: int where "EISCONN = 106"
definition ETIMEDOUT :: int where "ETIMEDOUT = 110"
definition ECANCELED :: int where "ECANCELED = 125"
definition EPROTONOSUPPORT :: int where "EPROTONOSUPPORT = 93"

datatype misc_error = already_open | eof | not_found | fd_set_failure

record platform =
  pf_strerror :: "int \<Rightarrow> string"
  pf_netdb_name :: string
  pf_netdb_message :: "int \<Rightarrow> string"
  pf_addrinfo_name :: string
  pf_addrinfo_message :: "int \<Rightarrow> string"
  pf_ERR_error_string :: "int \<Rightarrow> string option"
  pf_ERR_GET_REASON :: "int \<Rightarrow> int"
  pf_misc_error :: "int \<Rightarrow> misc_error option"
  pf_custom :: "nat \<Rightarrow> vtable"

section \<open>Error codes of the server\<close>

text \<open>The enumerators of \<^verbatim>\<open>amongoc_server_errc\<close> with their values.\<close>

definition server_errc_1 :: "(int \<times> string) list" where
  "server_errc_1 =
   [
    (1, ''InternalError''), (2, ''BadValue''), (4, ''NoSuchKey''), (5, ''GraphContainsCycle''),
    (6, ''HostUnreachable''), (7, ''HostNotFound''), (8, ''UnknownError''), (9, ''FailedToParse''),
    (10, ''CannotMutateObject''), (11, ''UserNotFound''), (12, ''UnsupportedFormat''),
    (13, ''Unauthorized''), (14, ''TypeMismatch''), (15, ''Overflow''), (16, ''InvalidLength''),
    (17, ''ProtocolError''), (18, ''AuthenticationFailed''), (19, ''CannotReuseObject''),
    (20, ''IllegalOperation''), (21, ''EmptyArrayOperation''), (22, ''InvalidBSON''),
    (23, ''AlreadyInitialized''), (24, ''LockTimeout''), (25, ''RemoteValidationError''),
    (26, ''NamespaceNotFound''), (27, ''IndexNotFound''), (28, ''PathNotViable''),
    (29, ''NonExistentPath''), (30, ''InvalidPath''), (31, ''RoleNotFound''),
    (32, ''RolesNotRelated''), (33, ''PrivilegeNotFound''), (34, ''CannotBackfillArray''),
    (35, ''UserModificationFailed''), (36, ''RemoteChangeDetected''), (37, ''FileRenameFailed''),
    (38, ''FileNotOpen''), (39, ''FileStreamFailed''), (40, ''ConflictingUpdateOperators''),
    (41, ''FileAlreadyOpen''), (42, ''LogWriteFailed''), (43, ''CursorNotFound''),
    (45, ''UserDataInconsistent''), (46, ''LockBusy''), (47, ''NoMatchingDocument''),
    (48, ''NamespaceExists''), (49, ''InvalidRoleModification''), (50, ''MaxTimeMSExpired''),
    (51, ''ManualInterventionRequired''), (52, ''DollarPrefixedFieldName''),
    (53, ''InvalidIdField''), (54, ''NotSingleValueField''), (55, ''InvalidDBRef''),
    (56, ''EmptyFieldName''), (57, ''DottedFieldName''), (58, ''RoleModificationFailed''),
    (59, ''CommandNotFound''), (61, ''ShardKeyNotFound''), (62, ''OplogOperationUnsupported''),
    (63, ''StaleShardVersion''), (64, ''WriteConcernFailed''), (65, ''MultipleErrorsOccurred''),
    (66, ''ImmutableField''), (67, ''CannotCreateIndex''), (68, ''IndexAlreadyExists''),
    (69, ''AuthSchemaIncompatible''), (70, ''ShardNotFound''), (71, ''ReplicaSetNotFound''),
    (72, ''InvalidOptions''), (73, ''InvalidNamespace''), (74, ''NodeNotFound''),
    (75, ''WriteConcernLegacyOK''), (76, ''NoReplicationEnabled''), (77, ''OperationIncomplete''),
    (78, ''CommandResultSchemaViolation''), (79, ''UnknownReplWriteConcern''),
    (80, ''RoleDataInconsistent''), (81, ''NoMatchParseContext''), (82, ''NoProgressMade''),
    (83, ''RemoteResultsUnavailable''), (85, ''IndexOptionsConflict''),
    (86, ''IndexKeySpecsConflict''), (87, ''CannotSplit''), (89, ''NetworkTimeout''),
    (90, ''CallbackCanceled''), (91, ''ShutdownInProgress''), (92, ''SecondaryAheadOfPrimary''),
    (93, ''InvalidReplicaSetConfig''), (94, ''NotYetInitialized''), (95, ''NotSecondary''),
    (96, ''OperationFailed''), (97, ''NoProjectionFound''), (98, ''DBPathInUse''),
    (100, ''UnsatisfiableWriteConcern''), (101, ''OutdatedClient''),
    (102, ''IncompatibleAuditMetadata''), (103, ''NewReplicaSetConfigurationIncompatible''),
    (104, ''NodeNotElectable''), (105, ''IncompatibleShardingMetadata''),
    (106, ''DistributedClockSkewed''), (107, ''LockFailed''),
    (108, ''InconsistentReplicaSetNames''), (109, ''ConfigurationInProgress''),
    (110, ''CannotInitializeNodeWithData''), (111, ''NotExactValueField''),
    (112, ''WriteConflict''), (113, ''InitialSyncFailure''),
    (114, ''InitialSyncOplogSourceMissing''), (115, ''CommandNotSupported''),
    (116, ''DocTooLargeForCapped''), (117, ''ConflictingOperationInProgress''),
    (118, ''NamespaceNotSharded''), (119, ''InvalidSyncSource''), (120, ''OplogStartMissing''),
    (121, ''DocumentValidationFailure''), (123, ''NotAReplicaSet''),
    (124, ''IncompatibleElectionProtocol''), (125, ''CommandFailed''),
    (126, ''RPCProtocolNegotiationFailed''), (127, ''UnrecoverableRollbackError''),
    (128, ''LockNotFound''), (129, ''LockStateChangeFailed''), (130, ''SymbolNotFound''),
    (133, ''FailedToSatisfyReadPreference''), (134, ''ReadConcernMajorityNotAvailableYet''),
    (135, ''StaleTerm''), (136, ''CappedPositionLost''),
    (137, ''IncompatibleShardingConfigVersion''), (138, ''RemoteOplogStale''),
    (139, ''JSInterpreterFailure''), (140, ''InvalidSSLConfiguration''),
    (141, ''SSLHandshakeFailed''), (142, ''JSUncatchableError''), (143, ''CursorInUse''),
    (144, ''IncompatibleCatalogManager''), (145, ''PooledConnectionsDropped''),
    (146, ''ExceededMemoryLimit''), (147, ''ZLibError''), (148, ''ReadConcernMajorityNotEnabled''),
    (149, ''NoConfigPrimary''), (150, ''StaleEpoch''), (151, ''OperationCannotBeBatched''),
    (152, ''OplogOutOfOrder''), (153, ''ChunkTooBig''), (154, ''InconsistentShardIdentity''),
    (155, ''CannotApplyOplogWhilePrimary''), (157, ''CanRepairToDowngrade''),
    (158, ''MustUpgrade''), (159, ''DurationOverflow''), (160, ''MaxStalenessOutOfRange'')]"

definition server_errc_2 :: "(int \<times> string) list" where
  "server_errc_2 =
   [
    (161, ''IncompatibleCollationVersion''), (162, ''CollectionIsEmpty''),
    (163, ''ZoneStillInUse''), (164, ''InitialSyncActive''), (165, ''ViewDepthLimitExceeded''),
    (166, ''CommandNotSupportedOnView''), (167, ''OptionNotSupportedOnView''),
    (168, ''InvalidPipelineOperator''), (169, ''CommandOnShardedViewNotSupportedOnMongod''),
    (170, ''TooManyMatchingDocuments''), (171, ''CannotIndexParallelArrays''),
    (172, ''TransportSessionClosed''), (173, ''TransportSessionNotFound''),
    (174, ''TransportSessionUnknown''), (175, ''QueryPlanKilled''), (176, ''FileOpenFailed''),
    (177, ''ZoneNotFound''), (178, ''RangeOverlapConflict''), (179, ''WindowsPdhError''),
    (180, ''BadPerfCounterPath''), (181, ''AmbiguousIndexKeyPattern''),
    (182, ''InvalidViewDefinition''), (183, ''ClientMetadataMissingField''),
    (184, ''ClientMetadataAppNameTooLarge''), (185, ''ClientMetadataDocumentTooLarge''),
    (186, ''ClientMetadataCannotBeMutated''), (187, ''LinearizableReadConcernError''),
    (188, ''IncompatibleServerVersion''), (189, ''PrimarySteppedDown''),
    (190, ''MasterSlaveConnectionFailure''), (192, ''FailPointEnabled''),
    (193, ''NoShardingEnabled''), (194, ''BalancerInterrupted''),
    (195, ''ViewPipelineMaxSizeExceeded''), (197, ''InvalidIndexSpecificationOption''),
    (199, ''ReplicaSetMonitorRemoved''), (200, ''ChunkRangeCleanupPending''),
    (201, ''CannotBuildIndexKeys''), (202, ''NetworkInterfaceExceededTimeLimit''),
    (203, ''ShardingStateNotInitialized''), (204, ''TimeProofMismatch''),
    (205, ''ClusterTimeFailsRateLimiter''), (206, ''NoSuchSession''), (207, ''InvalidUUID''),
    (208, ''TooManyLocks''), (209, ''StaleClusterTime''), (210, ''CannotVerifyAndSignLogicalTime''),
    (211, ''KeyNotFound''), (212, ''IncompatibleRollbackAlgorithm''), (213, ''DuplicateSession''),
    (214, ''AuthenticationRestrictionUnmet''), (215, ''DatabaseDropPending''),
    (216, ''ElectionInProgress''), (217, ''IncompleteTransactionHistory''),
    (218, ''UpdateOperationFailed''), (219, ''FTDCPathNotSet''), (220, ''FTDCPathAlreadySet''),
    (221, ''IndexModified''), (222, ''CloseChangeStream''), (223, ''IllegalOpMsgFlag''),
    (224, ''QueryFeatureNotAllowed''), (225, ''TransactionTooOld''), (226, ''AtomicityFailure''),
    (227, ''CannotImplicitlyCreateCollection''), (228, ''SessionTransferIncomplete''),
    (229, ''MustDowngrade''), (230, ''DNSHostNotFound''), (231, ''DNSProtocolError''),
    (232, ''MaxSubPipelineDepthExceeded''), (233, ''TooManyDocumentSequences''),
    (234, ''RetryChangeStream''), (235, ''InternalErrorNotSupported''),
    (236, ''ForTestingErrorExtraInfo''), (237, ''CursorKilled''), (238, ''NotImplemented''),
    (239, ''SnapshotTooOld''), (240, ''DNSRecordTypeMismatch''), (241, ''ConversionFailure''),
    (242, ''CannotCreateCollection''), (243, ''IncompatibleWithUpgradedServer''),
    (245, ''BrokenPromise''), (246, ''SnapshotUnavailable''),
    (247, ''ProducerConsumerQueueBatchTooLarge''), (248, ''ProducerConsumerQueueEndClosed''),
    (249, ''StaleDbVersion''), (250, ''StaleChunkHistory''), (251, ''NoSuchTransaction''),
    (252, ''ReentrancyNotAllowed''), (253, ''FreeMonHttpInFlight''),
    (254, ''FreeMonHttpTemporaryFailure''), (255, ''FreeMonHttpPermanentFailure''),
    (256, ''TransactionCommitted''), (257, ''TransactionTooLarge''),
    (258, ''UnknownFeatureCompatibilityVersion''), (259, ''KeyedExecutorRetry''),
    (260, ''InvalidResumeToken''), (261, ''TooManyLogicalSessions''), (262, ''ExceededTimeLimit''),
    (263, ''OperationNotSupportedInTransaction''), (264, ''TooManyFilesOpen''),
    (265, ''OrphanedRangeCleanUpFailed''), (266, ''FailPointSetFailed''),
    (267, ''PreparedTransactionInProgress''), (268, ''CannotBackup''),
    (269, ''DataModifiedByRepair''), (270, ''RepairedReplicaSetNode''),
    (271, ''JSInterpreterFailureWithStack''), (272, ''MigrationConflict''),
    (273, ''ProducerConsumerQueueProducerQueueDepthExceeded''),
    (274, ''ProducerConsumerQueueConsumed''), (275, ''ExchangePassthrough''),
    (276, ''IndexBuildAborted''), (277, ''AlarmAlreadyFulfilled''),
    (278, ''UnsatisfiableCommitQuorum''), (279, ''ClientDisconnect''),
    (280, ''ChangeStreamFatalError''), (281, ''TransactionCoordinatorSteppingDown''),
    (282, ''TransactionCoordinatorReachedAbortDecision''), (283, ''WouldChangeOwningShard''),
    (284, ''ForTestingErrorExtraInfoWithExtraInfoInNamespace''),
    (285, ''IndexBuildAlreadyInProgress''), (286, ''ChangeStreamHistoryLost''),
    (287, ''TransactionCoordinatorDeadlineTaskCanceled''), (288, ''ChecksumMismatch''),
    (289, ''WaitForMajorityServiceEarlierOpTimeAvailable''),
    (290, ''TransactionExceededLifetimeLimitSeconds''), (291, ''NoQueryExecutionPlans''),
    (292, ''QueryExceededMemoryLimitNoDiskUseAllowed''), (293, ''InvalidSeedList''),
    (294, ''InvalidTopologyType''), (295, ''InvalidHeartBeatFrequency''),
    (296, ''TopologySetNameRequired''), (297, ''HierarchicalAcquisitionLevelViolation''),
    (298, ''InvalidServerType''), (299, ''OCSPCertificateStatusRevoked''),
    (300, ''RangeDeletionAbandonedBecauseCollectionWithUUIDDoesNotExist''),
    (301, ''DataCorruptionDetected''), (302, ''OCSPCertificateStatusUnknown''),
    (303, ''SplitHorizonChange''), (304, ''ShardInvalidatedForTargeting''),
    (307, ''RangeDeletionAbandonedBecauseTaskDocumentDoesNotExist''),
    (308, ''CurrentConfigNotCommittedYet''), (309, ''ExhaustCommandFinished''),
    (310, ''PeriodicJobIsStopped''), (311, ''TransactionCoordinatorCanceled''),
    (312, ''OperationIsKilledAndDelisted''), (313, ''ResumableRangeDeleterDisabled''),
    (314, ''ObjectIsBusy''), (315, ''TooStaleToSyncFromSource''),
    (316, ''QueryTrialRunCompleted'')]"

definition server_errc_3 :: "(int \<times> string) list" where
  "server_errc_3 =
   [
    (317, ''ConnectionPoolExpired''), (318, ''ForTestingOptionalErrorExtraInfo''),
    (319, ''MovePrimaryInProgress''), (320, ''TenantMigrationConflict''),
    (321, ''TenantMigrationCommitted''), (322, ''APIVersionError''), (323, ''APIStrictError''),
    (324, ''APIDeprecationError''), (325, ''TenantMigrationAborted''),
    (326, ''OplogQueryMinTsMissing''), (327, ''NoSuchTenantMigration''),
    (328, ''TenantMigrationAccessBlockerShuttingDown''), (329, ''TenantMigrationInProgress''),
    (330, ''SkipCommandExecution''), (331, ''FailedToRunWithReplyBuilder''),
    (332, ''CannotDowngrade''), (333, ''ServiceExecutorInShutdown''),
    (334, ''MechanismUnavailable''), (335, ''TenantMigrationForgotten''),
    (9001, ''SocketException''), (10003, ''CannotGrowDocumentInCappedNamespace''),
    (10107, ''NotWritablePrimary''), (10334, ''BSONObjectTooLarge''), (11000, ''DuplicateKey''),
    (11600, ''InterruptedAtShutdown''), (11601, ''Interrupted''),
    (11602, ''InterruptedDueToReplStateChange''),
    (12586, ''BackgroundOperationInProgressForDatabase''),
    (12587, ''BackgroundOperationInProgressForNamespace''),
    (13113, ''MergeStageNoMatchingDocument''), (13297, ''DatabaseDifferCase''),
    (13388, ''StaleConfig''), (13435, ''NotPrimaryNoSecondaryOk''),
    (13436, ''NotPrimaryOrSecondary''), (14031, ''OutOfDiskSpace''),
    (46841, ''ClientMarkedKilled'')]"

definition server_errc :: "(int \<times> string) list" where
  "server_errc = server_errc_1 @ server_errc_2 @ server_errc_3"

text \<open>The cases of the switch in \<^verbatim>\<open>server_category_cls::_message_cstr\<close>.\<close>

definition server_message_cases_1 :: "(int \<times> string) list" where
  "server_message_cases_1 =
   [
    (1, ''InternalError''), (2, ''BadValue''), (4, ''NoSuchKey''), (5, ''GraphContainsCycle''),
    (6, ''HostUnreachable''), (7, ''HostNotFound''), (8, ''UnknownError''), (9, ''FailedToParse''),
    (10, ''CannotMutateObject''), (11, ''UserNotFound''), (12, ''UnsupportedFormat''),
    (13, ''Unauthorized''), (14, ''TypeMismatch''), (15, ''Overflow''), (16, ''InvalidLength''),
    (17, ''ProtocolError''), (18, ''AuthenticationFailed''), (19, ''CannotReuseObject''),
    (20, ''IllegalOperation''), (21, ''EmptyArrayOperation''), (22, ''InvalidBSON''),
    (23, ''AlreadyInitialized''), (24, ''LockTimeout''), (25, ''RemoteValidationError''),
    (26, ''NamespaceNotFound''), (27, ''IndexNotFound''), (28, ''PathNotViable''),
    (29, ''NonExistentPath''), (30, ''InvalidPath''), (31, ''RoleNotFound''),
    (32, ''RolesNotRelated''), (33, ''PrivilegeNotFound''), (34, ''CannotBackfillArray''),
    (35, ''UserModificationFailed''), (36, ''RemoteChangeDetected''), (37, ''FileRenameFailed''),
    (38, ''FileNotOpen''), (39, ''FileStreamFailed''), (40, ''ConflictingUpdateOperators''),
    (41, ''FileAlreadyOpen''), (42, ''LogWriteFailed''), (43, ''CursorNotFound''),
    (45, ''UserDataInconsistent''), (46, ''LockBusy''), (47, ''NoMatchingDocument''),
    (48, ''NamespaceExists''), (49, ''InvalidRoleModification''), (50, ''MaxTimeMSExpired''),
    (51, ''ManualInterventionRequired''), (52, ''DollarPrefixedFieldName''),
    (53, ''InvalidIdField''), (54, ''NotSingleValueField''), (55, ''InvalidDBRef''),
    (56, ''EmptyFieldName''), (57, ''DottedFieldName''), (58, ''RoleModificationFailed''),
    (59, ''CommandNotFound''), (61, ''ShardKeyNotFound''), (62, ''OplogOperationUnsupported''),
    (63, ''StaleShardVersion''), (64, ''WriteConcernFailed''), (65, ''MultipleErrorsOccurred''),
    (66, ''ImmutableField''), (67, ''CannotCreateIndex''), (68, ''IndexAlreadyExists''),
    (69, ''AuthSchemaIncompatible''), (70, ''ShardNotFound''), (71, ''ReplicaSetNotFound''),
    (72, ''InvalidOptions''), (73, ''InvalidNamespace''), (74, ''NodeNotFound''),
    (75, ''WriteConcernLegacyOK''), (76, ''NoReplicationEnabled''), (77, ''OperationIncomplete''),
    (78, ''CommandResultSchemaViolation'')]"

definition server_message_cases_2 :: "(int \<times> string) list" where
  "server_message_cases_2 =
   [
    (79, ''UnknownReplWriteConcern''), (80, ''RoleDataInconsistent''),
    (81, ''NoMatchParseContext''), (82, ''NoProgressMade''), (83, ''RemoteResultsUnavailable''),
    (85, ''IndexOptionsConflict''), (86, ''IndexKeySpecsConflict''), (87, ''CannotSplit''),
    (89, ''NetworkTimeout''), (90, ''CallbackCanceled''), (91, ''ShutdownInProgress''),
    (92, ''SecondaryAheadOfPrimary''), (93, ''InvalidReplicaSetConfig''),
    (94, ''NotYetInitialized''), (95, ''NotSecondary''), (96, ''OperationFailed''),
    (97, ''NoProjectionFound''), (98, ''DBPathInUse''), (100, ''UnsatisfiableWriteConcern''),
    (101, ''OutdatedClient''), (102, ''IncompatibleAuditMetadata''),
    (103, ''NewReplicaSetConfigurationIncompatible''), (104, ''NodeNotElectable''),
    (105, ''IncompatibleShardingMetadata''), (106, ''DistributedClockSkewed''),
    (107, ''LockFailed''), (108, ''InconsistentReplicaSetNames''),
    (109, ''ConfigurationInProgress''), (110, ''CannotInitializeNodeWithData''),
    (111, ''NotExactValueField''), (112, ''WriteConflict''), (113, ''InitialSyncFailure''),
    (114, ''InitialSyncOplogSourceMissing''), (115, ''CommandNotSupported''),
    (116, ''DocTooLargeForCapped''), (117, ''ConflictingOperationInProgress''),
    (118, ''NamespaceNotSharded''), (119, ''InvalidSyncSource''), (120, ''OplogStartMissing''),
    (121, ''DocumentValidationFailure''), (123, ''NotAReplicaSet''),
    (124, ''IncompatibleElectionProtocol''), (125, ''CommandFailed''),
    (126, ''RPCProtocolNegotiationFailed''), (127, ''UnrecoverableRollbackError''),
    (128, ''LockNotFound''), (129, ''LockStateChangeFailed''), (130, ''SymbolNotFound''),
    (133, ''FailedToSatisfyReadPreference''), (134, ''ReadConcernMajorityNotAvailableYet''),
    (135, ''StaleTerm''), (136, ''CappedPositionLost''),
    (137, ''IncompatibleShardingConfigVersion''), (138, ''RemoteOplogStale''),
    (139, ''JSInterpreterFailure''), (140, ''InvalidSSLConfiguration''),
    (141, ''SSLHandshakeFailed''), (142, ''JSUncatchableError''), (143, ''CursorInUse''),
    (144, ''IncompatibleCatalogManager''), (145, ''PooledConnectionsDropped''),
    (146, ''ExceededMemoryLimit''), (147, ''ZLibError''), (148, ''ReadConcernMajorityNotEnabled''),
    (149, ''NoConfigPrimary''), (150, ''StaleEpoch''), (151, ''OperationCannotBeBatched''),
    (152, ''OplogOutOfOrder''), (153, ''ChunkTooBig''), (154, ''InconsistentShardIdentity''),
    (155, ''CannotApplyOplogWhilePrimary''), (157, ''CanRepairToDowngrade''),
    (158, ''MustUpgrade''), (159, ''DurationOverflow''), (160, ''MaxStalenessOutOfRange'')]"

definition server_message_cases_3 :: "(int \<times> string) list" where
  "server_message_cases_3 =
   [
    (161, ''IncompatibleCollationVersion''), (162, ''CollectionIsEmpty''),
    (163, ''ZoneStillInUse''), (164, ''InitialSyncActive''), (165, ''ViewDepthLimitExceeded''),
    (166, ''CommandNotSupportedOnView''), (167, ''OptionNotSupportedOnView''),
    (168, ''InvalidPipelineOperator''), (169, ''CommandOnShardedViewNotSupportedOnMongod''),
    (170, ''TooManyMatchingDocuments''), (171, ''CannotIndexParallelArrays''),
    (172, ''TransportSessionClosed''), (173, ''TransportSessionNotFound''),
    (174, ''TransportSessionUnknown''), (175, ''QueryPlanKilled''), (176, ''FileOpenFailed''),
    (177, ''ZoneNotFound''), (178, ''RangeOverlapConflict''), (179, ''WindowsPdhError''),
    (180, ''BadPerfCounterPath''), (181, ''AmbiguousIndexKeyPattern''),
    (182, ''InvalidViewDefinition''), (183, ''ClientMetadataMissingField''),
    (184, ''ClientMetadataAppNameTooLarge''), (185, ''ClientMetadataDocumentTooLarge''),
    (186, ''ClientMetadataCannotBeMutated''), (187, ''LinearizableReadConcernError''),
    (188, ''IncompatibleServerVersion''), (189, ''PrimarySteppedDown''),
    (190, ''MasterSlaveConnectionFailure''), (192, ''FailPointEnabled''),
    (193, ''NoShardingEnabled''), (194, ''BalancerInterrupted''),
    (195, ''ViewPipelineMaxSizeExceeded''), (197, ''InvalidIndexSpecificationOption''),
    (199, ''ReplicaSetMonitorRemoved''), (200, ''ChunkRangeCleanupPending''),
    (201, ''CannotBuildIndexKeys''), (202, ''NetworkInterfaceExceededTimeLimit''),
    (203, ''ShardingStateNotInitialized''), (204, ''TimeProofMismatch''),
    (205, ''ClusterTimeFailsRateLimiter''), (206, ''NoSuchSession''), (207, ''InvalidUUID''),
    (208, ''TooManyLocks''), (209, ''StaleClusterTime''), (210, ''CannotVerifyAndSignLogicalTime''),
    (211, ''KeyNotFound''), (212, ''IncompatibleRollbackAlgorithm''), (213, ''DuplicateSession''),
    (214, ''AuthenticationRestrictionUnmet''), (215, ''DatabaseDropPending''),
    (216, ''ElectionInProgress''), (217, ''IncompleteTransactionHistory''),
    (218, ''UpdateOperationFailed''), (219, ''FTDCPathNotSet''), (220, ''FTDCPathAlreadySet''),
    (221, ''IndexModified''), (222, ''CloseChangeStream''), (223, ''IllegalOpMsgFlag''),
    (224, ''QueryFeatureNotAllowed''), (225, ''TransactionTooOld''), (226, ''AtomicityFailure''),
    (227, ''CannotImplicitlyCreateCollection''), (228, ''SessionTransferIncomplete''),
    (229, ''MustDowngrade''), (230, ''DNSHostNotFound''), (231, ''DNSProtocolError''),
    (232, ''MaxSubPipelineDepthExceeded''), (233, ''TooManyDocumentSequences''),
    (234, ''RetryChangeStream''), (235, ''InternalErrorNotSupported''),
    (236, ''ForTestingErrorExtraInfo''), (237, ''CursorKilled''), (238, ''NotImplemented'')]"

definition server_message_cases_4 :: "(int \<times> string) list" where
  "server_message_cases_4 =
   [
    (239, ''SnapshotTooOld''), (240, ''DNSRecordTypeMismatch''), (241, ''ConversionFailure''),
    (242, ''CannotCreateCollection''), (243, ''IncompatibleWithUpgradedServer''),
    (245, ''BrokenPromise''), (246, ''SnapshotUnavailable''),
    (247, ''ProducerConsumerQueueBatchTooLarge''), (248, ''ProducerConsumerQueueEndClosed''),
    (249, ''StaleDbVersion''), (250, ''StaleChunkHistory''), (251, ''NoSuchTransaction''),
    (252, ''ReentrancyNotAllowed''), (253, ''FreeMonHttpInFlight''),
    (254, ''FreeMonHttpTemporaryFailure''), (255, ''FreeMonHttpPermanentFailure''),
    (256, ''TransactionCommitted''), (257, ''TransactionTooLarge''),
    (258, ''UnknownFeatureCompatibilityVersion''), (259, ''KeyedExecutorRetry''),
    (260, ''InvalidResumeToken''), (261, ''TooManyLogicalSessions''), (262, ''ExceededTimeLimit''),
    (263, ''OperationNotSupportedInTransaction''), (264, ''TooManyFilesOpen''),
    (265, ''OrphanedRangeCleanUpFailed''), (266, ''FailPointSetFailed''),
    (267, ''PreparedTransactionInProgress''), (268, ''CannotBackup''),
    (269, ''DataModifiedByRepair''), (270, ''RepairedReplicaSetNode''),
    (271, ''JSInterpreterFailureWithStack''), (272, ''MigrationConflict''),
    (273, ''ProducerConsumerQueueProducerQueueDepthExceeded''),
    (274, ''ProducerConsumerQueueConsumed''), (275, ''ExchangePassthrough''),
    (276, ''IndexBuildAborted''), (277, ''AlarmAlreadyFulfilled''),
    (278, ''UnsatisfiableCommitQuorum''), (279, ''ClientDisconnect''),
    (280, ''ChangeStreamFatalError''), (281, ''TransactionCoordinatorSteppingDown''),
    (282, ''TransactionCoordinatorReachedAbortDecision''), (283, ''WouldChangeOwningShard''),
    (284, ''ForTestingErrorExtraInfoWithExtraInfoInNamespace''),
    (285, ''IndexBuildAlreadyInProgress''), (286, ''ChangeStreamHistoryLost''),
    (287, ''TransactionCoordinatorDeadlineTaskCanceled''), (288, ''ChecksumMismatch''),
    (289, ''WaitForMajorityServiceEarlierOpTimeAvailable''),
    (290, ''TransactionExceededLifetimeLimitSeconds''), (291, ''NoQueryExecutionPlans''),
    (292, ''QueryExceededMemoryLimitNoDiskUseAllowed''), (293, ''InvalidSeedList''),
    (294, ''InvalidTopologyType''), (295, ''InvalidHeartBeatFrequency''),
    (296, ''TopologySetNameRequired''), (297, ''HierarchicalAcquisitionLevelViolation''),
    (298, ''InvalidServerType''), (299, ''OCSPCertificateStatusRevoked''),
    (300, ''RangeDeletionAbandonedBecauseCollectionWithUUIDDoesNotExist''),
    (301, ''DataCorruptionDetected''), (302, ''OCSPCertificateStatusUnknown''),
    (303, ''SplitHorizonChange''), (304, ''ShardInvalidatedForTargeting''),
    (307, ''RangeDeletionAbandonedBecauseTaskDocumentDoesNotExist''),
    (308, ''CurrentConfigNotCommittedYet''), (309, ''ExhaustCommandFinished''),
    (310, ''PeriodicJobIsStopped''), (311, ''TransactionCoordinatorCanceled''),
    (312, ''OperationIsKilledAndDelisted''), (313, ''ResumableRangeDeleterDisabled''),
    (314, ''ObjectIsBusy''), (315, ''TooStaleToSyncFromSource''),
    (316, ''QueryTrialRunCompleted'')]"

definition server_message_cases_5 :: "(int \<times> string) list" where
  "server_message_cases_5 =
   [
    (317, ''ConnectionPoolExpired''), (318, ''ForTestingOptionalErrorExtraInfo''),
    (319, ''MovePrimaryInProgress''), (320, ''TenantMigrationConflict''),
    (321, ''TenantMigrationCommitted''), (322, ''APIVersionError''), (323, ''APIStrictError''),
    (324, ''APIDeprecationError''), (325, ''TenantMigrationAborted''),
    (326, ''OplogQueryMinTsMissing''), (327, ''NoSuchTenantMigration''),
    (328, ''TenantMigrationAccessBlockerShuttingDown''), (329, ''TenantMigrationInProgress''),
    (330, ''SkipCommandExecution''), (331, ''FailedToRunWithReplyBuilder''),
    (332, ''CannotDowngrade''), (333, ''ServiceExecutorInShutdown''),
    (334, ''MechanismUnavailable''), (335, ''TenantMigrationForgotten''),
    (9001, ''SocketException''), (10003, ''CannotGrowDocumentInCappedNamespace''),
    (10107, ''NotWritablePrimary''), (10334, ''BSONObjectTooLarge''), (11000, ''DuplicateKey''),
    (11600, ''InterruptedAtShutdown''), (11601, ''Interrupted''),
    (11602, ''InterruptedDueToReplStateChange''),
    (12586, ''BackgroundOperationInProgressForDatabase''),
    (12587, ''BackgroundOperationInProgressForNamespace''),
    (13113, ''MergeStageNoMatchingDocument''), (13297, ''DatabaseDifferCase''),
    (13388, ''StaleConfig''), (13435, ''NotPrimaryNoSecondaryOk''),
    (13436, ''NotPrimaryOrSecondary''), (14031, ''OutOfDiskSpace''),
    (46841, ''ClientMarkedKilled'')]"

definition server_message_cstr :: "int \<Rightarrow> string option" where
  "server_message_cstr ec =
     (case map_of (server_message_cases_1 @ server_message_cases_2 @ server_message_cases_3 @
         server_message_cases_4 @ server_message_cases_5) ec of
        Some s \<Rightarrow> Some s
      | None \<Rightarrow> if ec = 40571 then Some ''OP_MSG requests require a $db argument'' else None)"

section \<open>Texts\<close>

text \<open>The conversion \<^verbatim>\<open>%d\<close>, and \<^verbatim>\<open>snprintf\<close> into a buffer that is returned.\<close>

fun dec_of_nat :: "nat \<Rightarrow> string" where
  "dec_of_nat n =
     (if n < 10 then [char_of (48 + n)] else dec_of_nat (n div 10) @ [char_of (48 + n mod 10)])"

declare dec_of_nat.simps [simp del]

definition dec_of_int :: "int \<Rightarrow> string" where
  "dec_of_int i = (if i < 0 then CHR ''-'' # dec_of_nat (nat (- i)) else dec_of_nat (nat i))"

definition snprintf_buf :: "nat \<Rightarrow> string \<Rightarrow> string option" where
  "snprintf_buf buflen s = (if buflen = 0 then None else Some (take (buflen - 1) s))"

definition unknown_message :: "int \<Rightarrow> string" where
  "unknown_message ec = ''amongoc.unknown:'' @ dec_of_int ec"

definition io_message_noalloc :: "int \<Rightarrow> nat \<Rightarrow> string option" where
  "io_message_noalloc ec buflen =
     (if ec = 1 then Some ''connection closed''
      else if ec = 2 then Some ''short read''
      else snprintf_buf buflen (''amongoc.io:'' @ dec_of_int ec))"

definition server_message_noalloc :: "int \<Rightarrow> nat \<Rightarrow> string option" where
  "server_message_noalloc ec buflen =
     (case server_message_cstr ec of
        Some s \<Rightarrow> Some s
      | None \<Rightarrow> snprintf_buf buflen (''amongoc.server:'' @ dec_of_int ec))"

definition client_message_noalloc :: "int \<Rightarrow> nat \<Rightarrow> string option" where
  "client_message_noalloc ec buflen =
     (if ec = 0 then Some ''no error''
      else if ec = 1 then
        Some (''invalid document for an '' @ [CHR 0xE2, CHR 0x80, CHR 0x98] @ ''update'' @
              [CHR 0xE2, CHR 0x80, CHR 0x99] @ '' operation'')
      else snprintf_buf buflen (''amongoc.client:'' @ dec_of_int ec))"

definition tls_message :: "platform \<Rightarrow> int \<Rightarrow> string" where
  "tls_message pf ec =
     (case pf_ERR_error_string pf ec of
        Some msg \<Rightarrow> msg | None \<Rightarrow> ''amongoc.tls:'' @ dec_of_int ec)"

text \<open>
  \<^verbatim>\<open>std::error_category::message\<close> of the C++ category of the library; the categories with a buffer of
  their own use one of 128 bytes.
\<close>

definition io_message :: "int \<Rightarrow> string" where
  "io_message ec = the (io_message_noalloc ec 128)"

definition server_message :: "int \<Rightarrow> string" where
  "server_message ec = the (server_message_noalloc ec 128)"

definition client_message :: "int \<Rightarrow> string" where
  "client_message ec = the (client_message_noalloc ec 128)"

text \<open>
  \<^verbatim>\<open>get_msg\<close>. It is called with a \<^verbatim>\<open>std::error_category const&\<close>, which has no
  \<^verbatim>\<open>message_noalloc\<close>, so the overload that copies the message into the buffer is chosen for every
  category. \<^verbatim>\<open>"%*s"\<close> with the length of the message as width prints the message.
\<close>

definition get_msg :: "string \<Rightarrow> nat \<Rightarrow> string option" where
  "get_msg msg buflen = snprintf_buf buflen msg"

definition is_timeout_errno :: "int \<Rightarrow> bool" where "is_timeout_errno e \<longleftrightarrow> e = ETIMEDOUT"
definition is_cancellation_errno :: "int \<Rightarrow> bool" where "is_cancellation_errno e \<longleftrightarrow> e = ECANCELED"

definition plain_vtable :: "string \<Rightarrow> (int \<Rightarrow> string) \<Rightarrow> vtable" where
  "plain_vtable name message =
     \<lparr>vt_name = name, vt_message = (\<lambda>c buflen. get_msg (message c) buflen),
      vt_is_error = None, vt_is_cancellation = None, vt_is_timeout = None\<rparr>"

definition errno_vtable :: "platform \<Rightarrow> string \<Rightarrow> vtable" where
  "errno_vtable pf name =
     \<lparr>vt_name = name, vt_message = (\<lambda>c buflen. Some (pf_strerror pf c)),
      vt_is_error = None, vt_is_cancellation = Some is_cancellation_errno,
      vt_is_timeout = Some is_timeout_errno\<rparr>"

fun vtable_of :: "platform \<Rightarrow> category \<Rightarrow> vtable" where
  "vtable_of pf Generic = errno_vtable pf ''generic''"
| "vtable_of pf System = errno_vtable pf ''system''"
| "vtable_of pf Netdb = plain_vtable (pf_netdb_name pf) (pf_netdb_message pf)"
| "vtable_of pf Addrinfo = plain_vtable (pf_addrinfo_name pf) (pf_addrinfo_message pf)"
| "vtable_of pf Io = plain_vtable ''amongoc.io'' io_message"
| "vtable_of pf Server = plain_vtable ''amongoc.server'' server_message"
| "vtable_of pf Client = plain_vtable ''amongoc.client'' client_message"
| "vtable_of pf Tls = plain_vtable ''amongoc.tls'' (tls_message pf)"
| "vtable_of pf Unknown = plain_vtable ''amongoc.unknown'' unknown_message"
| "vtable_of pf (Custom n) = pf_custom pf n"

section \<open>Operations\<close>

definition amongoc_is_error :: "platform \<Rightarrow> amongoc_status \<Rightarrow> bool" where
  "amongoc_is_error pf st =
     (case vt_is_error (vtable_of pf (st_category st)) of
        Some f \<Rightarrow> f (st_code st) | None \<Rightarrow> st_code st \<noteq> 0)"

definition amongoc_is_cancellation :: "platform \<Rightarrow> amongoc_status \<Rightarrow> bool" where
  "amongoc_is_cancellation pf st =
     (case vt_is_cancellation (vtable_of pf (st_category st)) of
        Some f \<Rightarrow> f (st_code st) | None \<Rightarrow> False)"

definition amongoc_is_timeout :: "platform \<Rightarrow> amongoc_status \<Rightarrow> bool" where
  "amongoc_is_timeout pf st =
     (case vt_is_timeout (vtable_of pf (st_category st)) of
        Some f \<Rightarrow> f (st_code st) | None \<Rightarrow> False)"

definition amongoc_message :: "platform \<Rightarrow> amongoc_status \<Rightarrow> nat \<Rightarrow> string" where
  "amongoc_message pf st buflen =
     (case vt_message (vtable_of pf (st_category st)) (st_code st) buflen of
        Some s \<Rightarrow> s | None \<Rightarrow> ''Message text unavailable'')"

text \<open>\<^verbatim>\<open>amongoc_declmsg\<close> and \<^verbatim>\<open>status::message\<close> use a buffer of 128 bytes.\<close>

definition status_message :: "platform \<Rightarrow> amongoc_status \<Rightarrow> string" where
  "status_message pf st = amongoc_message pf st 128"

definition amongoc_okay :: amongoc_status where
  "amongoc_okay = \<lparr>st_category = Generic, st_code = 0\<rparr>"

text \<open>\<^verbatim>\<open>amongoc_if_error\<close>: the block runs with the message, or the other branch is taken.\<close>

definition amongoc_if_error :: "platform \<Rightarrow> amongoc_status \<Rightarrow> string option" where
  "amongoc_if_error pf st = (if amongoc_is_error pf st then Some (amongoc_message pf st 128) else None)"

text \<open>\<^verbatim>\<open>throw_for_error\<close>: the exception carries the status and its message.\<close>

definition throw_for_error :: "platform \<Rightarrow> amongoc_status \<Rightarrow> (amongoc_status \<times> string) + unit" where
  "throw_for_error pf st =
     (if amongoc_is_error pf st then Inl (st, status_message pf st) else Inr ())"

definition amongoc_tls_errc_okay :: int where "amongoc_tls_errc_okay = 0"

definition amongoc_status_tls_reason :: "platform \<Rightarrow> amongoc_status \<Rightarrow> int" where
  "amongoc_status_tls_reason pf st =
     (if st_category st \<noteq> Tls then amongoc_tls_errc_okay else pf_ERR_GET_REASON pf (st_code st))"

section \<open>Conversion to and from standard error codes\<close>

text \<open>
  The C++ categories: those the getters of the library return, the category of miscellaneous Asio
  errors, and any other.
\<close>

datatype cxx_category = Cxx category | Asio_misc | Other nat

record error_code =
  ec_category :: cxx_category
  ec_value :: int

definition library_categories :: "category list" where
  "library_categories = [Generic, System, Netdb, Addrinfo, Io, Server, Client, Tls, Unknown]"

definition status_from_misc :: "platform \<Rightarrow> int \<Rightarrow> amongoc_status option" where
  "status_from_misc pf v =
     (case pf_misc_error pf v of
        Some already_open \<Rightarrow> Some \<lparr>st_category = Generic, st_code = EISCONN\<rparr>
      | Some eof \<Rightarrow> Some \<lparr>st_category = Io, st_code = 1\<rparr>
      | Some not_found \<Rightarrow> Some \<lparr>st_category = Generic, st_code = ENOENT\<rparr>
      | Some fd_set_failure \<Rightarrow> Some \<lparr>st_category = Generic, st_code = EINVAL\<rparr>
      | None \<Rightarrow> None)"

definition status_from :: "platform \<Rightarrow> error_code \<Rightarrow> amongoc_status" where
  "status_from pf ec =
     (case (if ec_category ec = Asio_misc then status_from_misc pf (ec_value ec) else None) of
        Some st \<Rightarrow> st
      | None \<Rightarrow>
          (case find (\<lambda>c. ec_category ec = Cxx c) library_categories of
             Some c \<Rightarrow> \<lparr>st_category = c, st_code = ec_value ec\<rparr>
           | None \<Rightarrow> \<lparr>st_category = Unknown, st_code = ec_value ec\<rparr>))"

definition as_error_code :: "amongoc_status \<Rightarrow> error_code" where
  "as_error_code st =
     (case find (\<lambda>c. st_category st = c) library_categories of
        Some c \<Rightarrow> \<lparr>ec_category = Cxx c, ec_value = st_code st\<rparr>
      | None \<Rightarrow> \<lparr>ec_category = Cxx Unknown, ec_value = st_code st\<rparr>)"

section \<open>Lemmas\<close>

lemma find_library_category:
  "find (\<lambda>c. d = c) library_categories = (case d of Custom _ \<Rightarrow> None | _ \<Rightarrow> Some d)"
  by (cases d) (simp_all add: library_categories_def)

text \<open>The switch has the enumerators as its cases, in their order.\<close>

lemma server_cases_are_errc:
  "server_message_cases_1 @ server_message_cases_2 @ server_message_cases_3 @
     server_message_cases_4 @ server_message_cases_5 = server_errc"
  unfolding server_message_cases_1_def server_message_cases_2_def server_message_cases_3_def
    server_message_cases_4_def server_message_cases_5_def server_errc_def
    server_errc_1_def server_errc_2_def server_errc_3_def
  by (simp only: append_Cons append_Nil)

lemma server_errc_increasing: "sorted_wrt (<) (map fst server_errc)"
proof -
  have "successively (<) (map fst server_errc)"
    by (simp add: server_errc_def server_errc_1_def server_errc_2_def server_errc_3_def)
  then show ?thesis by (simp add: successively_conv_sorted_wrt)
qed

lemma strict_sorted_imp_distinct_int: "sorted_wrt (<) xs \<Longrightarrow> distinct (xs :: int list)"
  by (induction xs) auto

lemma server_errc_short: "\<forall>x \<in> set server_errc. length (snd x) < 60"
proof -
  have "list_all (\<lambda>x. length (snd x) < 60) server_errc" by code_simp
  then show ?thesis by (simp add: list_all_iff)
qed

lemma length_dec_of_nat: "0 < k \<Longrightarrow> n < 10 ^ k \<Longrightarrow> length (dec_of_nat n) \<le> k"
proof (induction n arbitrary: k rule: dec_of_nat.induct)
  case (1 n)
  show ?case
  proof (cases "n < 10")
    case False
    then have k: "1 < k" using 1(2,3) by (cases "k = 1") auto
    then obtain j where j: "k = Suc j" "0 < j" by (cases k) auto
    then have "length (dec_of_nat (n div 10)) \<le> j"
      using 1(3) by (intro 1(1) [OF False]) (auto simp: div_less_iff_less_mult mult.commute)
    then show ?thesis using False j by (simp add: dec_of_nat.simps [of n])
  qed (use 1(2) in \<open>simp add: dec_of_nat.simps [of n]\<close>)
qed

lemma length_dec_of_int: "in_i32 i \<Longrightarrow> length (dec_of_int i) \<le> 11"
proof (cases "i < 0")
  case True
  moreover assume "in_i32 i"
  ultimately have "length (dec_of_nat (nat (- i))) \<le> 10"
    by (intro length_dec_of_nat) (simp_all add: in_i32_def)
  with True show ?thesis by (simp add: dec_of_int_def)
next
  case False
  moreover assume "in_i32 i"
  ultimately have "length (dec_of_nat (nat i)) \<le> 10"
    by (intro length_dec_of_nat) (simp_all add: in_i32_def)
  with False show ?thesis by (simp add: dec_of_int_def)
qed

lemma in_i32_message: "in_i32 c \<Longrightarrow> length s \<le> 16 \<Longrightarrow> take 127 (s @ dec_of_int c) = s @ dec_of_int c"
  using length_dec_of_int [of c] by simp

section \<open>Properties\<close>

text \<open>
  Converting a status to a standard error code and back is the identity for the nine
  categories of the library, and turns any other category into the unknown one, keeping the code;
  conversely every error code of a category of the library survives the trip through a status.
\<close>

theorem status_error_code_roundtrip:
  "status_from pf (as_error_code st) =
     (case st_category st of Custom _ \<Rightarrow> st\<lparr>st_category := Unknown\<rparr> | _ \<Rightarrow> st) \<and>
   as_error_code (status_from pf \<lparr>ec_category = Cxx c, ec_value = v\<rparr>) =
     (case c of Custom _ \<Rightarrow> \<lparr>ec_category = Cxx Unknown, ec_value = v\<rparr> | _ \<Rightarrow> \<lparr>ec_category = Cxx c, ec_value = v\<rparr>)"
  by (cases st; cases "st_category st"; cases c)
    (simp_all add: status_from_def as_error_code_def library_categories_def)

text \<open>
  The message of a status of the server category is never cut off by the buffers it passes
  through. It is the name of the enumerator with the code, and every enumerator has a code of its
  own; one more code has a text, and any other code is printed in decimal.
\<close>

theorem server_status_message:
  assumes "in_i32 c"
  shows "status_message pf \<lparr>st_category = Server, st_code = c\<rparr> =
    (case map_of server_errc c of
       Some name \<Rightarrow> name
     | None \<Rightarrow> if c = 40571 then ''OP_MSG requests require a $db argument''
               else ''amongoc.server:'' @ dec_of_int c) \<and>
    distinct (map fst server_errc)"
proof -
  have "length name \<le> 127" if "map_of server_errc c = Some name" for name
    using map_of_SomeD [OF that] server_errc_short by auto
  moreover have "distinct (map fst server_errc)"
    using server_errc_increasing by (rule strict_sorted_imp_distinct_int)
  ultimately show ?thesis
    using in_i32_message [OF assms, of "''amongoc.server:''"]
    by (simp add: status_message_def amongoc_message_def plain_vtable_def get_msg_def snprintf_buf_def
        server_message_def server_message_noalloc_def server_message_cstr_def server_cases_are_errc
        split: option.split)
qed

lemma server_errc_59: "map_of server_errc 59 = Some ''CommandNotFound''"
  by (simp add: server_errc_def server_errc_1_def)

theorem server_status_message_witness:
  "\<forall>pf. status_message pf \<lparr>st_category = Server, st_code = 59\<rparr> = ''CommandNotFound''"
  using server_status_message [of 59] server_errc_59 by (simp add: in_i32_def)

end
