(* ===== verification/Wire_Buffer.thy ===== *)
theory Wire_Buffer
  imports Bson_Doc Amongoc_Status
begin

text \<open>
  The byte-range layer under the wire protocol: \<^verbatim>\<open>src/mlib/bytes.hpp\<close>,
  \<^verbatim>\<open>src/amongoc/wire/integer.hpp\<close> and the fixed-size dynamic buffer of
  \<^verbatim>\<open>src/amongoc/wire/buffer.hpp\<close>.

  C++ code has a second way to fail: it throws. A computation is a value of \<open>'a eres\<close>, which is a
  fault (undefined behaviour, a failed assertion, \<^verbatim>\<open>std::terminate\<close>), an exception, or a value.
\<close>

unbundle bit_operations_syntax

section \<open>Exceptions\<close>

text \<open>
  The exceptions of the wire layer: \<^verbatim>\<open>std::system_error\<close> with \<^verbatim>\<open>std::errc::protocol_error\<close>,
  with an error code from the stream, with a code of the server category (then a message and the body of the
  reply are carried too); \<^verbatim>\<open>std::bad_alloc\<close>;
  \<^verbatim>\<open>bson::iterator_error\<close>, thrown when an errant iterator is dereferenced; and \<^verbatim>\<open>amongoc::exception\<close>, which
  carries a status.
\<close>

datatype cpp_exn =
    Protocol_error string
  | Stream_error int
  | Server_error int bytes bytes
  | Bad_alloc
  | Iterator_error bson_iter_errc
  | Status_error amongoc_status

type_synonym 'a eres = "(cpp_exn + 'a) res"

definition okE :: "'a \<Rightarrow> 'a eres" where "okE x = Inr (Inr x)"

definition throwE :: "cpp_exn \<Rightarrow> 'a eres" where "throwE e = Inr (Inl e)"

definition bindE :: "'a eres \<Rightarrow> ('a \<Rightarrow> 'b eres) \<Rightarrow> 'b eres" where
  "bindE m f = bindR m (\<lambda>r. case r of Inl e \<Rightarrow> Inr (Inl e) | Inr x \<Rightarrow> f x)"

text \<open>Code that cannot throw.\<close>

definition liftE :: "'a res \<Rightarrow> 'a eres" where
  "liftE m = bindR m okE"

named_theorems exn_simps \<open>decomposition of computations that may throw\<close>

lemma bindE_simps [simp]:
  "bindE (Inl e) f = Inl e" "bindE (throwE x) f = throwE x" "bindE (okE y) f = f y"
  by (simp_all add: bindE_def throwE_def okE_def)

lemma eres_cases [case_names fault throw ok]:
  assumes "\<And>e. m = Inl e \<Longrightarrow> P" "\<And>x. m = throwE x \<Longrightarrow> P" "\<And>y. m = okE y \<Longrightarrow> P"
  shows P
  using assms by (metis okE_def throwE_def sum.exhaust)

lemma eres_distinct [simp]:
  "throwE x \<noteq> okE y" "okE y \<noteq> throwE x" "throwE x \<noteq> Inl e" "Inl e \<noteq> throwE x"
  "okE y \<noteq> Inl e" "Inl e \<noteq> okE y" "okE y = okE z \<longleftrightarrow> y = z" "throwE x = throwE x' \<longleftrightarrow> x = x'"
  by (auto simp: okE_def throwE_def)

lemma bindE_eq_ok [exn_simps]: "bindE m f = okE y \<longleftrightarrow> (\<exists>x. m = okE x \<and> f x = okE y)"
  by (cases m rule: eres_cases) auto

lemma bindE_eq_fault [exn_simps]: "bindE m f = Inl e \<longleftrightarrow> m = Inl e \<or> (\<exists>x. m = okE x \<and> f x = Inl e)"
  by (cases m rule: eres_cases) auto

lemma bindE_cong [fundef_cong]:
  "m = m' \<Longrightarrow> (\<And>x. m' = okE x \<Longrightarrow> f x = f' x) \<Longrightarrow> bindE m f = bindE m' f'"
  by (cases m' rule: eres_cases) auto

lemma liftE_simps [simp]: "liftE (Inl e) = Inl e" "liftE (Inr x) = okE x"
  by (simp_all add: liftE_def)

lemma liftE_eq [exn_simps]: "liftE m = okE x \<longleftrightarrow> m = Inr x" "liftE m = Inl e \<longleftrightarrow> m = Inl e"
  by (cases m; simp)+

section \<open>Integers in byte ranges\<close>

text \<open>
  The loop of \<^verbatim>\<open>mlib::read_int_le\<close>; the first argument is what is left of \<^verbatim>\<open>sizeof u\<close>. The range
  is the list of its bytes.
\<close>

fun read_int_loop :: "nat \<Rightarrow> nat \<Rightarrow> 'w::len word \<Rightarrow> bytes \<Rightarrow> nat \<times> 'w word \<times> bytes" where
  "read_int_loop 0 n u it = (n, u, it)"
| "read_int_loop (Suc k) n u [] = (n, u, [])"
| "read_int_loop (Suc k) n u (b # it) =
     read_int_loop k (Suc n) (u OR push_bit (8 * n) (ucast b)) it"

definition read_int_le :: "bytes \<Rightarrow> ('w::len word \<times> bytes) eres" where
  "read_int_le rng =
     (let (n, u, it) = read_int_loop (LENGTH('w) div 8) 0 0 rng in
      if n < LENGTH('w) div 8 then throwE (Protocol_error ''short read'')
      else okE (u, it))"

text \<open>
  The loop of \<^verbatim>\<open>write_int_le\<close> over the output range \<open>[out, stop)\<close> of the memory \<open>m\<close>.
\<close>

fun write_int_loop ::
  "nat \<Rightarrow> nat \<Rightarrow> 'w::len word \<Rightarrow> bytes \<Rightarrow> int \<Rightarrow> int \<Rightarrow> (bytes \<times> nat \<times> int) res" where
  "write_int_loop 0 n uv m out stop = Inr (m, n, out)"
| "write_int_loop (Suc k) n uv m out stop =
     (if out = stop then Inr (m, n, out)
      else bindR (wr_n m out [ucast (drop_bit (8 * n) uv AND 255)])
             (\<lambda>m. write_int_loop k (Suc n) uv m (out + 1) stop))"

definition write_int_le_range ::
  "'w::len word \<Rightarrow> bytes \<Rightarrow> int \<Rightarrow> int \<Rightarrow> (bytes \<times> int) eres" where
  "write_int_le_range value m out stop =
     bindE (liftE (write_int_loop (LENGTH('w) div 8) 0 value m out stop)) (\<lambda>(m, n, out).
       if n < LENGTH('w) div 8 then throwE (Protocol_error ''short read'')
       else okE (m, out))"

section \<open>Dynamic buffers\<close>

text \<open>
  \<^verbatim>\<open>generic_dynamic_buffer_v1\<close>: an array that is not owned or grown, the offset of the input
  area and that of the output area. The input area lies between the two offsets, in the arithmetic
  of \<^verbatim>\<open>std::size_t\<close>.
\<close>

record dynamic_buffer =
  db_buffer :: bytes
  db_input_offset :: nat
  db_output_offset :: nat

definition generic_dynamic_buffer :: "bytes \<Rightarrow> nat \<Rightarrow> dynamic_buffer" where
  "generic_dynamic_buffer buf ready_size =
     \<lparr>db_buffer = buf, db_input_offset = 0, db_output_offset = ready_size\<rparr>"

definition db_size :: "dynamic_buffer \<Rightarrow> nat" where
  "db_size b = nat ((int (db_output_offset b) - int (db_input_offset b)) mod 2 ^ 64)"

definition db_max_size :: "dynamic_buffer \<Rightarrow> nat" where
  "db_max_size b = length (db_buffer b)"

definition db_capacity :: "dynamic_buffer \<Rightarrow> nat" where
  "db_capacity b = db_size b"

text \<open>The bytes of the input area, read through \<^verbatim>\<open>bytes_of_buffers(data())\<close>.\<close>

definition db_data :: "dynamic_buffer \<Rightarrow> bytes res" where
  "db_data b = rd_n (db_buffer b) (int (db_input_offset b)) (db_size b)"

text \<open>The output area: its first address and its end.\<close>

definition db_prepare :: "dynamic_buffer \<Rightarrow> nat \<Rightarrow> int \<times> int" where
  "db_prepare b n = (int (db_output_offset b), int (db_output_offset b + n))"

definition db_commit :: "dynamic_buffer \<Rightarrow> nat \<Rightarrow> dynamic_buffer" where
  "db_commit b n = b\<lparr>db_output_offset := (db_output_offset b + n) mod 2 ^ 64\<rparr>"

definition db_consume :: "dynamic_buffer \<Rightarrow> nat \<Rightarrow> dynamic_buffer" where
  "db_consume b n = b\<lparr>db_input_offset := (db_input_offset b + n) mod 2 ^ 64\<rparr>"

definition write_int_le :: "dynamic_buffer \<Rightarrow> 'w::len word \<Rightarrow> dynamic_buffer eres" where
  "write_int_le dbuf value =
     (let (out, stop) = db_prepare dbuf (LENGTH('w) div 8) in
      bindE (write_int_le_range value (db_buffer dbuf) out stop) (\<lambda>(m, _).
      okE (db_commit (dbuf\<lparr>db_buffer := m\<rparr>) (LENGTH('w) div 8))))"

definition read_int_le_dbuf :: "dynamic_buffer \<Rightarrow> ('w::len word \<times> dynamic_buffer) eres" where
  "read_int_le_dbuf dbuf =
     bindE (liftE (db_data dbuf)) (\<lambda>bs.
     bindE (read_int_le bs) (\<lambda>(v, _).
     okE (v, db_consume dbuf (LENGTH('w) div 8))))"

section \<open>What the integer codecs do\<close>

text \<open>On 32-bit integers the loops compute the encoding of the byte-level layer.\<close>

lemma four_Suc: "(4 :: nat) = Suc (Suc (Suc (Suc 0)))" by simp

lemma read_int_loop_count: "fst (read_int_loop k n u bs) = n + min k (length bs)"
  by (induction k n u bs rule: read_int_loop.induct) auto

lemma read_int_le_32:
  "(read_int_le bs :: (u32 \<times> bytes) eres) =
     (if length bs < 4 then throwE (Protocol_error ''short read'')
      else okE (u32_of_bytes (take 4 bs), drop 4 bs))"
proof (cases "length bs < 4")
  case True
  then show ?thesis
    using read_int_loop_count [of 4 0 "0 :: u32" bs] by (auto simp: read_int_le_def split: prod.splits)
next
  case False
  then have "length (take 4 bs) = 4" by simp
  then obtain a b c d where t: "take 4 bs = [a, b, c, d]"
    unfolding length_4_conv by blast
  have bs: "bs = a # b # c # d # drop 4 bs"
    using append_take_drop_id [of 4 bs] unfolding t by simp
  have l: "read_int_loop 4 0 0 (a # b # c # d # xs) =
      (4, u32_of_bytes [a, b, c, d], xs)" for xs
    by (simp add: four_Suc push_bit_or ac_simps)
  have "read_int_loop 4 0 0 bs = (4, u32_of_bytes (take 4 bs), drop 4 bs)"
    by (subst bs) (simp only: l t)
  with False show ?thesis
    by (simp add: read_int_le_def)
qed

lemma write_int_loop_32:
  assumes "length old = 4"
  shows "write_int_loop 4 0 (u :: u32) (pre @ old @ post) (int (length pre)) (int (length pre) + 4) =
    Inr (pre @ u32le u @ post, 4, int (length pre) + 4)"
proof -
  have w: "wr_n (p @ x # q) (int (length p)) [b] = Inr (p @ b # q)" for p q x b
    using wr_n_append_at [of "int (length p)" p "[x]" "[b]" q] by simp
  from assms obtain a b c d where old: "old = [a, b, c, d]" by (auto simp: length_4_conv)
  have s: "wr_n (p @ y # z) (int (length pre) + n) [v] = Inr (p @ v # z)"
    if "int (length pre) + n = int (length p)" for n p y z v
    using w [of p y z v] that by simp
  show ?thesis
    unfolding old u32le_def
    using s [of 0 pre] s [of 1 "pre @ [_]"] s [of 2 "pre @ [_, _]"] s [of 3 "pre @ [_, _, _]"]
    by (simp add: four_Suc ac_simps)
qed

lemma size_t_mod: "n < 2 ^ 64 \<Longrightarrow> n mod 2 ^ 64 = (n :: nat)" by simp

text \<open>Writing at the output offset, and reading from the input area, of a buffer that fits.\<close>

lemma write_int_le_32:
  assumes "db_buffer b = pre @ old @ post" "length old = 4" "db_output_offset b = length pre"
    and "length pre + 4 < 2 ^ 64"
  shows "write_int_le b (u :: u32) =
    okE (b\<lparr>db_buffer := pre @ u32le u @ post, db_output_offset := length pre + 4\<rparr>)"
  using assms write_int_loop_32 [OF assms(2), of u pre post]
  by (simp add: write_int_le_def write_int_le_range_def db_prepare_def db_commit_def size_t_mod)

lemma read_int_le_dbuf_32:
  assumes "db_buffer b = pre @ u32le u @ post" "db_input_offset b = length pre"
    and "db_output_offset b \<le> length (db_buffer b)" "length pre + 4 \<le> db_output_offset b"
    and "length (db_buffer b) < 2 ^ 64"
  shows "read_int_le_dbuf b = okE (u, b\<lparr>db_input_offset := length pre + 4\<rparr>)"
proof -
  define k where "k = db_output_offset b - length pre - 4"
  have o: "db_output_offset b = length pre + 4 + k" using assms(4) by (simp add: k_def)
  have "db_size b = 4 + k"
    using assms o by (simp add: db_size_def nat_mod_distrib flip: of_nat_add of_nat_diff)
  moreover have "k \<le> length post" using assms(1,3) o by simp
  ultimately have "db_data b = Inr (u32le u @ take k post)"
    using assms(1,2) by (simp add: db_data_def rd_n_def)
  with assms show ?thesis
    by (simp add: read_int_le_dbuf_def read_int_le_32 db_consume_def)
qed

end
