(* ===== verification/Wire_Message.thy ===== *)
theory Wire_Message
  imports Wire_Buffer
begin

text \<open>
  The messages of the wire protocol (\<^verbatim>\<open>src/amongoc/wire/message.hpp\<close>, \<^verbatim>\<open>message.cpp\<close>): sections
  of an \<^verbatim>\<open>OP_MSG\<close>, the buffers they are sent from, and the reader of sections from untrusted bytes.

  A buffer sequence is the list of the contents of its buffers. The readable part of the dynamic
  buffer a message is parsed from is the list of its bytes; consuming \<open>n\<close> bytes drops them.
\<close>

section \<open>Sections\<close>

text \<open>The kind byte and the buffers of a \<^verbatim>\<open>body_section\<close> that holds a view.\<close>

definition body_kind_byte :: byte where "body_kind_byte = 0"

definition body_section_buffers :: "bytes \<Rightarrow> bytes list" where
  "body_section_buffers body = [body]"

text \<open>The dynamically typed section; its only alternative holds an owned document.\<close>

datatype any_section = Body_section bson_doc

fun any_section_kind :: "any_section \<Rightarrow> byte" where
  "any_section_kind (Body_section d) = body_kind_byte"

text \<open>\<^verbatim>\<open>asio::buffer(body.data(), body.byte_size())\<close> of an owned document.\<close>

definition doc_buffer :: "bson_doc \<Rightarrow> bytes res" where
  "doc_buffer d =
     bindR (bson_byte_size (dc_buf d) (Some doc_data_ptr)) (\<lambda>n. rd_n (dc_buf d) doc_data_ptr (unat n))"

fun any_section_buffers :: "any_section \<Rightarrow> bytes list res" where
  "any_section_buffers (Body_section d) =
     bindR (doc_buffer d) (\<lambda>cb. Inr [[any_section_kind (Body_section d)], cb])"

section \<open>OP_MSG\<close>

definition op_msg_opcode :: u32 where "op_msg_opcode = 2013"

definition op_msg_flag_bits :: bytes where "op_msg_flag_bits = [0, 0, 0, 0]"

text \<open>
  The general form of \<^verbatim>\<open>op_msg_message::_buffers\<close>; a section is its kind byte and its buffers.
\<close>

definition op_msg_buffers :: "(byte \<times> bytes list) list \<Rightarrow> bytes list" where
  "op_msg_buffers sections =
     fold (\<lambda>(kind, more) bufs. (bufs @ [[kind]]) @ more) sections [op_msg_flag_bits]"

text \<open>
  The form for a fixed number of body sections: an array of \<^verbatim>\<open>1 + 2 * N\<close> buffers, filled by two
  fold expressions.
\<close>

definition op_msg_buffers_array :: "bytes list \<Rightarrow> bytes list" where
  "op_msg_buffers_array bodies =
     (let N = length bodies;
          buffers = (replicate (1 + N * 2) [])[0 := op_msg_flag_bits];
          buffers = fold (\<lambda>i bs. bs[1 + i * 2 := [body_kind_byte]]) [0..<N] buffers
      in fold (\<lambda>i bs. bs[2 + i * 2 := bodies ! i]) [0..<N] buffers)"

section \<open>Messages of any content\<close>

datatype message_content = Op_msg "any_section list"

record any_message =
  am_req_id :: u32
  am_resp_to :: u32
  am_content :: message_content

definition any_message_opcode :: "any_message \<Rightarrow> u32" where
  "any_message_opcode msg = (case am_content msg of Op_msg _ \<Rightarrow> op_msg_opcode)"

text \<open>The buffers of an \<^verbatim>\<open>op_msg_message\<close> of dynamically typed sections.\<close>

fun section_buffers_all :: "any_section list \<Rightarrow> (byte \<times> bytes list) list res" where
  "section_buffers_all [] = Inr []"
| "section_buffers_all (sec # secs) =
     bindR (any_section_buffers sec) (\<lambda>more.
     bindR (section_buffers_all secs) (\<lambda>rest. Inr ((any_section_kind sec, more) # rest)))"

definition any_message_buffers :: "any_message \<Rightarrow> bytes list res" where
  "any_message_buffers msg =
     (case am_content msg of Op_msg secs \<Rightarrow>
        bindR (section_buffers_all secs) (\<lambda>ss. Inr (op_msg_buffers ss)))"

text \<open>\<^verbatim>\<open>expect_one_body_section_op_msg\<close> is \<open>noexcept\<close>: throwing terminates the program.\<close>

definition expect_one_body_section_op_msg :: "any_message \<Rightarrow> bson_doc res" where
  "expect_one_body_section_op_msg msg =
     (case am_content msg of Op_msg secs \<Rightarrow>
        (if length secs \<noteq> 1 then Inl Abort_called
         else case hd secs of Body_section body \<Rightarrow> Inr body))"

section \<open>Reading sections\<close>

text \<open>
  \<^verbatim>\<open>bson::document::resize_and_overwrite\<close> with an operation that stores \<open>content\<close> at the start of
  the document data.
\<close>

definition resize_and_overwrite :: "reallocate_fn \<Rightarrow> bson_doc \<Rightarrow> nat \<Rightarrow> bytes \<Rightarrow> bson_doc eres" where
  "resize_and_overwrite alloc d len content =
     bv_assert (len \<ge> 5)
       (bindE (liftE (bson_doc_reserve alloc d len)) (\<lambda>(d, r).
        if r < 0 then throwE Bad_alloc
        else liftE (doc_write d doc_data_ptr content)))"

definition any_section_read :: "reallocate_fn \<Rightarrow> bytes \<Rightarrow> (any_section \<times> bytes) eres" where
  "any_section_read alloc dbuf =
     (if length dbuf < 1 then throwE (Protocol_error ''short read'')
      else
        let kind = hd dbuf; data = drop 1 dbuf in
        if kind = 0 then
          if length data < 5 then throwE (Protocol_error ''short read'')
          else
            bindE (read_int_le data) (\<lambda>(bson_len :: u32, _).
            if length data < unat bson_len then throwE (Protocol_error ''short read'')
            else
              bindE (liftE (bson_new alloc 5)) (\<lambda>ret.
              bindE (resize_and_overwrite alloc ret (unat bson_len) (take (unat bson_len) data)) (\<lambda>ret.
              okE (Body_section ret, drop (unat bson_len) data))))
        else throwE (Protocol_error ''unknown section kind''))"

section \<open>The encoding of sections\<close>

lemma op_msg_buffers_concat:
  "op_msg_buffers ss = op_msg_flag_bits # concat (map (\<lambda>(k, more). [k] # more) ss)"
proof -
  have "fold (\<lambda>(kind, more) bufs. (bufs @ [[kind]]) @ more) ss bs =
      bs @ concat (map (\<lambda>(k, more). [k] # more) ss)" for bs
    by (induction ss arbitrary: bs) auto
  then show ?thesis by (simp add: op_msg_buffers_def)
qed

text \<open>Filling every second place of an array.\<close>

lemma length_fold_update [simp]: "length (fold (\<lambda>i bs. bs[g i := v i]) js bs) = length bs"
  by (induction js arbitrary: bs) simp_all

lemma fold_update_other: "j \<notin> g ` set js \<Longrightarrow> fold (\<lambda>i bs. bs[g i := v i]) js bs ! j = bs ! j"
  by (induction js arbitrary: bs) (auto simp: nth_list_update)

lemma fold_update_at:
  "inj g \<Longrightarrow> distinct js \<Longrightarrow> i \<in> set js \<Longrightarrow> g i < length bs \<Longrightarrow>
   fold (\<lambda>i bs. bs[g i := v i]) js bs ! g i = v i"
proof (induction js arbitrary: bs)
  case (Cons j js)
  show ?case
  proof (cases "i \<in> set js")
    case False
    with Cons.prems have "i = j" "g j \<notin> g ` set js" by (auto dest: injD)
    then show ?thesis using Cons.prems fold_update_other [of "g j" g js v "bs[g j := v j]"] by simp
  qed (use Cons in simp)
qed simp

lemma concat_pairs_nth:
  "length (concat (map (\<lambda>x. [f x, g x]) xs)) = 2 * length xs"
  "i < length xs \<Longrightarrow> concat (map (\<lambda>x. [f x, g x]) xs) ! (2 * i) = f (xs ! i)"
  "i < length xs \<Longrightarrow> concat (map (\<lambda>x. [f x, g x]) xs) ! (1 + 2 * i) = g (xs ! i)"
  by (induction xs arbitrary: i; case_tac i; simp)+

text \<open>The encoding of a body section: its kind byte and the document.\<close>

definition body_bytes :: "bytes \<Rightarrow> bytes" where
  "body_bytes body = body_kind_byte # body"

lemma op_msg_buffers_bodies:
  "concat (op_msg_buffers (map (\<lambda>b. (body_kind_byte, body_section_buffers b)) bodies)) =
     op_msg_flag_bits @ concat (map body_bytes bodies)"
proof -
  have "concat (concat (map (\<lambda>b. [[body_kind_byte], b]) bodies)) = concat (map body_bytes bodies)"
    by (induction bodies) (simp_all add: body_bytes_def)
  then show ?thesis by (simp add: op_msg_buffers_concat body_section_buffers_def comp_def)
qed

section \<open>Reading a section\<close>

lemma reserve_empty:
  "bson_doc_reserve (default_reallocate avail junk) empty_doc n =
     (if n \<le> 5 then Inr (empty_doc, 5)
      else if int n \<le> INT32_MAX - 4 \<and> avail (n + 4)
      then Inr (\<lparr>dc_buf = u32le (word_of_nat n) @ [5, 0, 0, 0, 0] @ map junk [9..<n + 4], dc_static = False\<rparr>, int n)
      else Inr (empty_doc, - 1))"
proof -
  let ?al = "default_reallocate avail junk"
  have c5: "bson_doc_capacity empty_doc = Inr 5"
    using doc_capacity_inv [OF doc_inv_empty(1)] by (simp add: empty_doc_def global_empty_doc_def)
  show ?thesis
  proof (cases "5 < n \<and> int n \<le> INT32_MAX - 4 \<and> avail (n + 4)")
    case True
    let ?d = "\<lparr>dc_buf = u32le (word_of_nat n) @ [5, 0, 0, 0, 0] @ map junk [9..<n + 4], dc_static = False\<rparr>"
    have s: "map junk [0..<n + 4] = map junk [0..<4] @ map junk [4..<9] @ map junk [9..<n + 4]"
      using True upt_add_eq_append [of 0 4 n] upt_add_eq_append [of 4 9 "n - 5"]
      by (simp add: add.commute [of n])
    have w: "bson_write_u32le (map junk [0..<n + 4]) 0 (word_of_nat n) =
        Inr (u32le (word_of_nat n) @ map junk [4..<9] @ map junk [9..<n + 4], 4)"
      unfolding s bson_write_u32le_def
      using wr_n_append_at [of 0 "[]" "map junk [0..<4]" "u32le (word_of_nat n)"] by simp
    have v: "wr_n (u32le (word_of_nat n) @ map junk [4..<9] @ map junk [9..<n + 4]) 4 [5, 0, 0, 0, 0] =
        Inr (dc_buf ?d)"
      using wr_n_append_at [of 4 "u32le (word_of_nat n)" "map junk [4..<9]" "[5, 0, 0, 0, 0]"] by simp
    have "bson_realloc ?al empty_doc n = Inr (?d, True)"
      using True w v
      by (simp add: bson_realloc_def empty_doc_def mlib_reallocate_def default_reallocate_def
          c_realloc_def c_malloc_def global_empty_doc_def del: upt_Suc)
    moreover have "bson_doc_capacity ?d = Inr (word_of_nat n)"
      by (simp add: bson_doc_capacity_def bson_read_u32le_in)
    ultimately show ?thesis
      using True c5 to_i32_of_nat [of n] by (simp add: bson_doc_reserve_def)
  next
    case False
    then show ?thesis
      using c5 by (auto simp: bson_doc_reserve_def bson_realloc_def to_i32_def mlib_reallocate_def
          default_reallocate_def c_realloc_def c_malloc_def empty_doc_def)
  qed
qed

text \<open>Storing a document in the new buffer.\<close>

lemma overwrite_new:
  assumes "5 < length content" "int (length content) \<le> INT32_MAX - 4" "avail (length content + 4)"
  shows "resize_and_overwrite (default_reallocate avail junk) empty_doc (length content) content =
    okE \<lparr>dc_buf = u32le (word_of_nat (length content)) @ content, dc_static = False\<rparr>"
proof -
  let ?n = "length content"
  let ?old = "[5, 0, 0, 0, 0] @ map junk [9..<?n + 4]"
  have "doc_write \<lparr>dc_buf = u32le (word_of_nat ?n) @ ?old @ [], dc_static = False\<rparr> 4 content =
      Inr \<lparr>dc_buf = u32le (word_of_nat ?n) @ content @ [], dc_static = False\<rparr>"
    by (rule doc_write_layout [OF refl]) (use assms in simp_all)
  with assms show ?thesis
    by (simp add: resize_and_overwrite_def reserve_empty)
qed

definition declared_len :: "bytes \<Rightarrow> nat" where
  "declared_len data = unat (u32_of_bytes (take 4 data))"

lemma section_read_body:
  "any_section_read (default_reallocate avail junk) (0 # data) =
     (let n = declared_len data in
      if length data < 5 \<or> length data < n then throwE (Protocol_error ''short read'')
      else if n < 5 then Inl Assert_fail
      else if n = 5 then Inl Out_of_bounds
      else if INT32_MAX - 4 < int n \<or> \<not> avail (n + 4) then throwE Bad_alloc
      else okE (Body_section \<lparr>dc_buf = u32le (word_of_nat n) @ take n data, dc_static = False\<rparr>, drop n data))"
proof -
  let ?n = "declared_len data"
  have st: "dc_static empty_doc" by (simp add: empty_doc_def)
  have r: "resize_and_overwrite (default_reallocate avail junk) empty_doc ?n (take ?n data) =
      (if ?n < 5 then Inl Assert_fail else if ?n = 5 then Inl Out_of_bounds
       else if INT32_MAX - 4 < int ?n \<or> \<not> avail (?n + 4) then throwE Bad_alloc
       else okE \<lparr>dc_buf = u32le (word_of_nat ?n) @ take ?n data, dc_static = False\<rparr>)"
    if "?n \<le> length data"
    using that st overwrite_new [of "take ?n data" avail junk]
    by (auto simp: resize_and_overwrite_def reserve_empty bv_assert_def doc_write_def)
  have "bson_new (default_reallocate avail junk) 5 = Inr empty_doc" by (simp add: bson_new_def)
  then show ?thesis
    using r by (simp add: any_section_read_def read_int_le_32 flip: declared_len_def) (simp add: Let_def)
qed

lemma section_read_other:
  "any_section_read alloc [] = throwE (Protocol_error ''short read'')"
  "k \<noteq> 0 \<Longrightarrow> any_section_read alloc (k # data) = throwE (Protocol_error ''unknown section kind'')"
  by (simp_all add: any_section_read_def)

lemma section_read_shorter:
  assumes "any_section_read alloc bs = okE (sec, rest)"
  shows "length rest < length bs"
proof -
  from assms have "bs \<noteq> []" by (auto simp: section_read_other)
  moreover from assms have "\<exists>n. rest = drop n (drop 1 bs)"
    by (auto simp: any_section_read_def exn_simps Let_def split: if_splits prod.splits)
  ultimately show ?thesis by (cases bs) auto
qed

text \<open>The array form of the buffers, place by place.\<close>

lemma array_form_eq:
  "op_msg_buffers_array bodies =
     op_msg_buffers (map (\<lambda>b. (body_kind_byte, body_section_buffers b)) bodies)"
proof -
  let ?N = "length bodies"
  let ?b0 = "(replicate (1 + ?N * 2) [])[0 := op_msg_flag_bits]"
  let ?b1 = "fold (\<lambda>i bs. bs[1 + i * 2 := [body_kind_byte]]) [0..<?N] ?b0"
  let ?b2 = "fold (\<lambda>i bs. bs[2 + i * 2 := bodies ! i]) [0..<?N] ?b1"
  let ?r = "concat (map (\<lambda>b. [[body_kind_byte], b]) bodies)"
  have "?b2 = op_msg_flag_bits # ?r"
  proof (rule nth_equalityI)
    show "length ?b2 = length (op_msg_flag_bits # ?r)" by (simp add: concat_pairs_nth(1))
    fix j assume "j < length ?b2"
    then have j: "j < 1 + ?N * 2" by simp
    have inj: "inj (\<lambda>i::nat. c + i * 2)" for c by (simp add: inj_def)
    consider "j = 0" | i where "j = 1 + i * 2" "i < ?N" | i where "j = 2 + i * 2" "i < ?N"
    proof (cases "j = 0")
      case False
      with j show thesis using that(2) [of "(j - 1) div 2"] that(3) [of "(j - 2) div 2"]
        by (cases "even j") (auto elim!: evenE oddE)
    qed (use that in blast)
    then show "?b2 ! j = (op_msg_flag_bits # ?r) ! j"
    proof cases
      case 1
      have "?b1 ! 0 = op_msg_flag_bits" by (subst fold_update_other) auto
      with 1 show ?thesis by (subst fold_update_other) auto
    next
      case (2 i)
      have b1: "?b1 ! j = [body_kind_byte]"
        unfolding 2(1) by (rule fold_update_at [OF inj]) (use 2 in auto)
      have "j \<notin> (\<lambda>i. 2 + i * 2) ` set [0..<?N]" using 2(1) by (auto; presburger)
      then have "?b2 ! j = ?b1 ! j" by (rule fold_update_other)
      with 2 b1 show ?thesis
        using concat_pairs_nth(2) [of i bodies "\<lambda>_. [body_kind_byte]" "\<lambda>b. b"] by (simp add: mult.commute)
    next
      case (3 i)
      have "?b2 ! j = bodies ! i"
        unfolding 3(1) by (rule fold_update_at [OF inj]) (use 3 in auto)
      with 3 show ?thesis
        using concat_pairs_nth(3) [of i bodies "\<lambda>_. [body_kind_byte]" "\<lambda>b. b"] by (simp add: mult.commute)
    qed
  qed
  then show ?thesis
    by (simp only: op_msg_buffers_array_def Let_def op_msg_buffers_concat)
      (simp add: body_section_buffers_def comp_def)
qed

section \<open>Properties\<close>

text \<open>
  The two forms of the buffers of an OP_MSG agree: the array of a fixed number of body sections
  holds what the general loop appends.
\<close>

theorem op_msg_array_form_agrees:
  "op_msg_buffers_array bodies =
     op_msg_buffers (map (\<lambda>b. (body_kind_byte, body_section_buffers b)) bodies)"
  by (rule array_form_eq)

text \<open>
  Reading a section from untrusted bytes is exactly this. It throws on a missing kind byte, an
  unknown kind, a length prefix that exceeds the bytes at hand, or a refused allocation; it gives a
  document of exactly the declared bytes; and it faults, for a prefix below 5 by a failed assertion
  and for a prefix of 5, an empty document, by writing to the static empty document.
\<close>

theorem section_read_exact:
  "any_section_read (default_reallocate avail junk) dbuf =
     (case dbuf of
        [] \<Rightarrow> throwE (Protocol_error ''short read'')
      | kind # data \<Rightarrow>
          if kind \<noteq> 0 then throwE (Protocol_error ''unknown section kind'')
          else let n = declared_len data in
            if length data < 5 \<or> length data < n then throwE (Protocol_error ''short read'')
            else if n < 5 then Inl Assert_fail
            else if n = 5 then Inl Out_of_bounds
            else if \<not> (int n \<le> INT32_MAX - 4 \<and> avail (n + 4)) then throwE Bad_alloc
            else okE (Body_section
                   \<lparr>dc_buf = u32le (word_of_nat n) @ take n data, dc_static = False\<rparr>, drop n data))"
  by (auto simp: section_read_other section_read_body Let_def split: list.split)

text \<open>
  A message that was received cannot be sent again: the general loop of the buffers puts the
  kind byte of a dynamically typed section in front of buffers that already begin with it, so the
  reader of sections takes it for the first byte of the document's length.
\<close>

theorem any_message_duplicates_kind:
  assumes "doc_inv d"
  shows "\<exists>bufs. any_message_buffers \<lparr>am_req_id = r, am_resp_to = t, am_content = Op_msg [Body_section d]\<rparr> =
      Inr bufs \<and>
    concat bufs = op_msg_flag_bits @ [body_kind_byte] @ body_bytes (doc_data d)"
proof -
  from assms obtain rest where s:
    "dc_buf d = u32le (word_of_nat (length (doc_data d) + length rest)) @ doc_data d @ rest"
    "subdoc_ok (doc_data d)" by (rule doc_inv_split)
  note b = doc_inv_bounds [OF assms]
  have "to_i32 (u32_of_bytes (take 4 (drop 4 (dc_buf d)))) = int (length (doc_data d))"
    using length_doc_data [OF assms] by (simp add: doc_len_def)
  then have "unat (u32_of_bytes (take 4 (drop 4 (dc_buf d)))) = length (doc_data d)"
    by (rule unat_of_to_i32)
  then have "doc_buffer d = Inr (doc_data d)"
    using b(1) rd_n_append_at [of 4 "take 4 (dc_buf d)" "length (doc_data d)" "doc_data d" rest] s(1)
    by (simp add: doc_buffer_def bson_byte_size_def bson_read_u32le_in)
  then show ?thesis
    by (simp add: any_message_buffers_def op_msg_buffers_concat body_bytes_def)
qed

theorem any_message_duplicates_kind_witness:
  "\<exists>bufs. any_message_buffers \<lparr>am_req_id = 1, am_resp_to = 2, am_content = Op_msg [Body_section empty_doc]\<rparr> =
      Inr bufs \<and> concat bufs = [0, 0, 0, 0, 0, 0, 5, 0, 0, 0, 0]"
  using any_message_duplicates_kind [OF doc_inv_empty(1), of 1 2]
  by (simp add: doc_inv_empty(2) op_msg_flag_bits_def body_kind_byte_def body_bytes_def)

end
