(* ===== verification/Bson_Lookup.thy ===== *)
theory Bson_Lookup
  imports Bson_Values
begin

text \<open>
  Documents as association lists: the encoding of a list of keys and values, and that
  \<^verbatim>\<open>bson_find\<close> followed by \<^verbatim>\<open>bson_iterator_value\<close> is lookup in this list.
\<close>

section \<open>Keys and values\<close>

type_synonym kv = "bytes \<times> bson_value_ref"

definition kv_elem :: "kv \<Rightarrow> elem" where
  "kv_elem = (\<lambda>(k, v). (value_type v, k, value_bytes v))"

definition kv_ok :: "kv \<Rightarrow> bool" where
  "kv_ok = (\<lambda>(k, v). 0 \<notin> set k \<and> value_ok v)"

definition kv_doc :: "kv list \<Rightarrow> bytes" where
  "kv_doc kvs = doc_bytes (map kv_elem kvs)"

lemma kv_elem_ok: "kv_ok kv \<Longrightarrow> elem_ok (kv_elem kv)"
  by (auto simp: kv_ok_def kv_elem_def elem_ok_def val_ok_value split: prod.splits)

section \<open>The loop over the keys\<close>

text \<open>Each element of a run that ends in the terminator lies in its place.\<close>

lemma placed_in_run:
  assumes "m = pre @ elems_bytes (e # es) @ 0 # post" "p = int (length pre)"
    and "n = int (length (elems_bytes (e # es))) + 1" "n \<le> INT32_MAX"
  shows "placed m p n e"
proof -
  have "m = pre @ elem_bytes e @ (elems_bytes es @ 0 # post)" using assms(1) by simp
  moreover have "window m p n" using assms
    by (auto simp: window_def nth_append nat_add_distrib simp flip: of_nat_add)
  ultimately show ?thesis using assms(2,3) by (auto simp: placed_def)
qed

lemma key_is_elem_iter:
  assumes "placed m p n e" "elem_ok e"
  shows "key_is m key (elem_iter p n e) \<longleftrightarrow> key = fst (snd e)"
proof -
  obtain t k v where e: "e = (t, k, v)" by (cases e)
  from assms(1) obtain pre post where m: "m = pre @ elem_bytes e @ post" "p = int (length pre)"
    "window m p n" "int (length (elem_bytes e)) < n"
    by (auto simp: placed_def)
  have "elem_inv m (elem_iter p n e)" using iterator_at_elem(2) [OF m(1,2) assms(2) m(3,4)] .
  moreover have "bson_key m (elem_iter p n e) = Inr (Some k)"
    using accessors_at_elem(2) [of m pre t k v post p n] m assms(2) by (simp add: e)
  ultimately show ?thesis
    using elem_inv_facts(4) by (auto simp: key_is_def e)
qed

lemma find_elem_iters:
  assumes "m = pre @ elems_bytes (map kv_elem kvs) @ 0 # post" "p = int (length pre)"
    and "n = int (length (elems_bytes (map kv_elem kvs))) + 1" "n \<le> INT32_MAX"
    and "\<forall>kv \<in> set kvs. kv_ok kv"
  shows "case map_of kvs key of
      None \<Rightarrow> find (key_is m key) (elem_iters p n (map kv_elem kvs)) = None
    | Some v \<Rightarrow> \<exists>q l. find (key_is m key) (elem_iters p n (map kv_elem kvs)) =
          Some (elem_iter q l (value_type v, key, value_bytes v)) \<and>
        placed m q l (value_type v, key, value_bytes v) \<and> value_ok v \<and> q + l = p + n"
  using assms
proof (induction kvs arbitrary: pre p n)
  case (Cons kv kvs)
  obtain k v where kv: "kv = (k, v)" by (cases kv)
  let ?e = "kv_elem kv"
  have pl: "placed m p n ?e"
    using placed_in_run [of m pre ?e "map kv_elem kvs" post p n] Cons.prems by simp
  have ok: "kv_ok kv" "elem_ok ?e" using Cons.prems(5) kv_elem_ok by auto
  have key: "key_is m key (elem_iter p n ?e) \<longleftrightarrow> key = k"
    using key_is_elem_iter [OF pl ok(2), of key] by (simp add: kv kv_elem_def)
  show ?case
  proof (cases "key = k")
    case True
    then have "find (key_is m key) (elem_iters p n (map kv_elem (kv # kvs))) =
        Some (elem_iter p n (value_type v, key, value_bytes v))"
      using key by (simp add: kv kv_elem_def)
    with True show ?thesis
      using pl ok(1) by (auto simp: kv kv_elem_def kv_ok_def)
  next
    case False
    have "case map_of kvs key of
        None \<Rightarrow> find (key_is m key) (elem_iters (p + int (length (elem_bytes ?e)))
          (n - int (length (elem_bytes ?e))) (map kv_elem kvs)) = None
      | Some v \<Rightarrow> \<exists>q l. find (key_is m key) (elem_iters (p + int (length (elem_bytes ?e)))
            (n - int (length (elem_bytes ?e))) (map kv_elem kvs)) =
            Some (elem_iter q l (value_type v, key, value_bytes v)) \<and>
          placed m q l (value_type v, key, value_bytes v) \<and> value_ok v \<and>
          q + l = (p + int (length (elem_bytes ?e))) + (n - int (length (elem_bytes ?e)))"
      by (rule Cons.IH [of "pre @ elem_bytes ?e"]) (use Cons.prems in auto)
    moreover have f: "find (key_is m key) (elem_iters p n (map kv_elem (kv # kvs))) =
        find (key_is m key) (elem_iters (p + int (length (elem_bytes ?e)))
          (n - int (length (elem_bytes ?e))) (map kv_elem kvs))"
      using False key by simp
    moreover have mo: "map_of (kv # kvs) key = map_of kvs key" using False by (simp add: kv)
    ultimately show ?thesis unfolding mo f by (simp split: option.splits)
  qed
qed simp

section \<open>Lookup\<close>

lemma kv_doc_doc_at:
  assumes "m = pre @ kv_doc kvs @ post" "d = int (length pre)" "int (length (kv_doc kvs)) \<le> INT32_MAX"
  shows "doc_at m d" "doc_len m d = int (length (kv_doc kvs))"
  using doc_bytes_doc_at [of m pre "map kv_elem kvs" post d] assms by (simp_all add: kv_doc_def)

text \<open>The last bytes of a document bound the number of its elements.\<close>

lemma length_elems_le: "length es \<le> length (elems_bytes es)"
  by (induction es) (auto simp: elem_bytes_def split: prod.splits)

lemma find_kv_doc:
  assumes m: "m = pre @ kv_doc kvs @ post" "d = int (length pre)"
    and len: "int (length (kv_doc kvs)) \<le> INT32_MAX" "int (length key) \<le> INT32_MAX"
    and ok: "\<forall>kv \<in> set kvs. kv_ok kv" and fuel: "length kvs < fuel"
  shows "case map_of kvs key of
      None \<Rightarrow> bson_find fuel m (Some d) key = Some (bson_end m (Some d))
    | Some v \<Rightarrow> \<exists>it. bson_find fuel m (Some d) key = Some (Inr it) \<and>
        bson_end m (Some d) \<noteq> Inr it \<and> (\<exists>p. it_ptr it = Some p \<and> p < d + doc_len m d - 1) \<and>
        bson_iterator_value m it = Inr (Some v)"
proof -
  let ?es = "map kv_elem kvs"
  let ?n = "int (length (elems_bytes ?es)) + 1"
  let ?h = "u32le (word_of_nat (length (elems_bytes ?es) + 5))"
  note da = kv_doc_doc_at [OF m len(1)]
  have dl: "doc_len m d = ?n + 4" using da(2) by (simp add: kv_doc_def)
  have eok: "\<forall>e \<in> set ?es. elem_ok e" using ok kv_elem_ok by auto
  have m': "m = (pre @ ?h) @ elems_bytes ?es @ 0 # post" by (simp add: m(1) kv_doc_def doc_bytes_def)
  have each: "bson_foreach fuel m (Some d) = Some (Inr (elem_iters (d + 4) ?n ?es))"
    using foreach_doc_bytes [of m pre ?es post d fuel] m len(1) eok fuel by (simp add: kv_doc_def)
  have find: "bson_find fuel m (Some d) key =
      Some (case find (key_is m key) (elem_iters (d + 4) ?n ?es) of
        Some it \<Rightarrow> Inr it | None \<Rightarrow> bson_end m (Some d))"
    using doc_at_window [OF da(1)]
  proof (rule range_inv_at)
    fix it
    assume "bson_iterator_at m (d + 4) (doc_len m d - 4) = Inr it"
      "range_inv m (d + 4 + (doc_len m d - 4) - 1) it"
    with each da(1) len(2) show ?thesis
      using find_loop_first [of m "d + doc_len m d - 1" it _ key fuel]
      by (simp add: bson_foreach_doc bson_find_def bson_end_doc bson_begin_doc split: option.split)
  qed (use each da(1) in \<open>simp add: bson_foreach_doc\<close>)
  have "case map_of kvs key of
      None \<Rightarrow> find (key_is m key) (elem_iters (d + 4) ?n ?es) = None
    | Some v \<Rightarrow> \<exists>q l. find (key_is m key) (elem_iters (d + 4) ?n ?es) =
          Some (elem_iter q l (value_type v, key, value_bytes v)) \<and>
        placed m q l (value_type v, key, value_bytes v) \<and> value_ok v \<and> q + l = (d + 4) + ?n"
    by (rule find_elem_iters [OF m']) (use m(2) len(1) ok in \<open>simp_all add: kv_doc_def\<close>)
  then show ?thesis
  proof (cases "map_of kvs key")
    case (Some v)
    with \<open>case map_of kvs key of None \<Rightarrow> _ | Some v \<Rightarrow> _\<close> obtain q l where f:
      "find (key_is m key) (elem_iters (d + 4) ?n ?es) =
        Some (elem_iter q l (value_type v, key, value_bytes v))"
      "placed m q l (value_type v, key, value_bytes v)" "value_ok v" "q + l = (d + 4) + ?n"
      by auto
    let ?it = "elem_iter q l (value_type v, key, value_bytes v)"
    have "1 < l" using f(2) by (auto simp: placed_def)
    then have "it_ptr ?it = Some q" "q < d + doc_len m d - 1"
      using f(4) dl by (simp_all add: elem_iter_def)
    moreover from this have "bson_end m (Some d) \<noteq> Inr ?it"
      using bson_end_doc [OF da(1)] by (auto simp: elem_iter_def)
    ultimately show ?thesis
      using Some find f(1) iterator_value_at [OF f(2,3)] by auto
  qed (use find in simp)
qed

section \<open>Properties\<close>

text \<open>
  Looking up a key in an encoded document and reading the value found there is lookup in the
  association list the document encodes: the value of the first entry with the key, for every type
  the reader supports, and the end iterator if the key is absent. As many rounds as the document
  has bytes are enough.
\<close>

theorem find_value_is_map_of:
  assumes "m = pre @ kv_doc kvs @ post" "int (length (kv_doc kvs)) \<le> INT32_MAX"
    and "int (length key) \<le> INT32_MAX" "\<forall>kv \<in> set kvs. kv_ok kv" "length (kv_doc kvs) \<le> fuel"
  shows "case map_of kvs key of
      None \<Rightarrow> bson_find fuel m (Some (int (length pre))) key = Some (bson_end m (Some (int (length pre))))
    | Some v \<Rightarrow> \<exists>it. bson_find fuel m (Some (int (length pre))) key = Some (Inr it) \<and>
        bson_end m (Some (int (length pre))) \<noteq> Inr it \<and> bson_iterator_value m it = Inr (Some v)"
proof -
  have "length kvs < fuel"
    using assms(5) length_elems_le [of "map kv_elem kvs"] by (simp add: kv_doc_def)
  from find_kv_doc [OF assms(1) refl assms(2-4) this] show ?thesis
    by (auto split: option.splits)
qed

theorem find_value_is_map_of_witness:
  "\<exists>it. bson_find 30 (kv_doc [([97], V_null), ([98], V_int32 7)]) (Some 0) [98] = Some (Inr it) \<and>
     bson_iterator_value (kv_doc [([97], V_null), ([98], V_int32 7)]) it = Inr (Some (V_int32 7))"
  using find_value_is_map_of [of "kv_doc [([97], V_null), ([98], V_int32 7)]" "[]"
      "[([97], V_null), ([98], V_int32 7)]" "[]" "[98]" 30]
  by (auto simp: kv_doc_def kv_elem_def kv_ok_def doc_bytes_def elem_bytes_def)

end
