(* ===== verification/Wire_Proto.thy ===== *)
theory Wire_Proto
  imports Wire_Message Bson_Lookup
begin

text \<open>
  Sending and receiving messages (\<^verbatim>\<open>src/amongoc/wire/proto.hpp\<close>), server errors
  (\<^verbatim>\<open>wire/error.hpp\<close>, \<^verbatim>\<open>error.cpp\<close>).

  The coroutines run their awaited operations in sequence, so a coroutine is a function that passes
  the state of the stream. The stream is third-party code: \<^verbatim>\<open>asio::async_read\<close> and
  \<^verbatim>\<open>asio::async_write\<close> are the parameters \<open>aread\<close> and \<open>awrite\<close>. A read gives an error code or the
  bytes that were transferred, a write an error code or their number.
\<close>

section \<open>Coroutines\<close>

type_synonym 's aread = "'s \<Rightarrow> nat \<Rightarrow> (int + bytes) \<times> 's"
type_synonym 's awrite = "'s \<Rightarrow> bytes \<Rightarrow> (int + nat) \<times> 's"

definition bindS :: "'a eres \<times> 's \<Rightarrow> ('a \<Rightarrow> 's \<Rightarrow> 'b eres \<times> 's) \<Rightarrow> 'b eres \<times> 's" where
  "bindS m f =
     (case m of
        (Inl e, s) \<Rightarrow> (Inl e, s)
      | (Inr (Inl x), s) \<Rightarrow> (throwE x, s)
      | (Inr (Inr y), s) \<Rightarrow> f y s)"

text \<open>\<^verbatim>\<open>*co_await\<close>: dereferencing the result of a stream operation throws its error code.\<close>

definition awaitS :: "(int + 'a) \<times> 's \<Rightarrow> 'a eres \<times> 's" where
  "awaitS m = (case m of (Inl ec, s) \<Rightarrow> (throwE (Stream_error ec), s) | (Inr y, s) \<Rightarrow> (okE y, s))"

lemma bindS_simps [simp]:
  "bindS (Inl e, s) f = (Inl e, s)" "bindS (throwE x, s) f = (throwE x, s)" "bindS (okE y, s) f = f y s"
  by (simp_all add: bindS_def throwE_def okE_def)

lemma awaitS_simps [simp]:
  "awaitS (Inl ec, s) = (throwE (Stream_error ec), s)" "awaitS (Inr y, s) = (okE y, s)"
  by (simp_all add: awaitS_def)

section \<open>Sending\<close>

text \<open>
  \<^verbatim>\<open>send_message\<close>; \<open>MsgHeader_chars\<close> is the array on the stack before it is filled.
\<close>

definition send_message ::
  "'s awrite \<Rightarrow> bytes \<Rightarrow> 's \<Rightarrow> u32 \<Rightarrow> u32 \<Rightarrow> bytes list \<Rightarrow> unit eres \<times> 's" where
  "send_message awrite MsgHeader_chars strm req_id opcode content_buffers =
     (let content_size = sum_list (map length content_buffers);
          MsgHeader_dbuf = generic_dynamic_buffer MsgHeader_chars 0;
          total_size = length MsgHeader_chars + content_size
      in bindS
           (bindE (write_int_le MsgHeader_dbuf (word_of_nat total_size :: u32)) (\<lambda>b.
            bindE (write_int_le b req_id) (\<lambda>b.
            bindE (write_int_le b (0 :: u32)) (\<lambda>b.
            write_int_le b opcode))), strm)
           (\<lambda>b strm.
             let all_buffers = db_buffer b # content_buffers in
             bindS (awaitS (awrite strm (concat all_buffers))) (\<lambda>_ strm. (okE (), strm))))"

section \<open>Receiving\<close>

text \<open>The loop over the sections of a message; it consumes at least one byte in each round.\<close>

function read_sections :: "reallocate_fn \<Rightarrow> nat \<Rightarrow> bytes \<Rightarrow> any_section list eres" where
  "read_sections alloc tail_size dbuf =
     (if length dbuf > tail_size then
        bindE (any_section_read alloc dbuf) (\<lambda>(sec, dbuf).
        bindE (read_sections alloc tail_size dbuf) (\<lambda>sections. okE (sec # sections)))
      else okE [])"
  by pat_completeness auto
termination
  by (relation "measure (\<lambda>(alloc, tail_size, dbuf). length dbuf)") (auto dest: section_read_shorter)

declare read_sections.simps [simp del]

unbundle bit_operations_syntax

definition recv_message :: "'s aread \<Rightarrow> reallocate_fn \<Rightarrow> 's \<Rightarrow> any_message eres \<times> 's" where
  "recv_message aread alloc strm =
     bindS (awaitS (aread strm 16)) (\<lambda>transferred strm.
     let MsgHeader_chars = take 16 transferred; nread = length MsgHeader_chars in
     if nread < 16 then (throwE (Protocol_error ''short read''), strm)
     else
       let MsgHeader_dbuf = db_commit (generic_dynamic_buffer MsgHeader_chars 0) nread in
       bindS (bindE (read_int_le_dbuf MsgHeader_dbuf) (\<lambda>(messageLength :: u32, b).
              bindE (read_int_le_dbuf b) (\<lambda>(requestID :: u32, b).
              bindE (read_int_le_dbuf b) (\<lambda>(responseTo :: u32, b).
              bindE (read_int_le_dbuf b) (\<lambda>(opCode :: u32, b).
              okE (messageLength, requestID, responseTo, opCode))))), strm)
         (\<lambda>(messageLength, requestID, responseTo, opCode) strm.
       if unat messageLength < 16 then
         (throwE (Protocol_error ''invalid MsgHeader.messageLength''), strm)
       else if opCode = 2013 then
         let remaining = unat messageLength - 16 in
         bindS (awaitS (aread strm remaining)) (\<lambda>content strm.
         if length content < remaining then (throwE (Protocol_error ''short read''), strm)
         else
           bindS (read_int_le content, strm) (\<lambda>(flagBits :: u32, content) strm.
           let has_checksum = flagBits AND 1 \<noteq> 0;
               tail_size = (if has_checksum then 4 else 0)
           in bindS (read_sections alloc tail_size content, strm) (\<lambda>sections strm.
              (okE \<lparr>am_req_id = requestID, am_resp_to = responseTo, am_content = Op_msg sections\<rparr>,
               strm))))
       else (throwE (Protocol_error ''unknown MsgHeader.opCode''), strm)))"

section \<open>Server errors\<close>

definition ascii :: "string \<Rightarrow> bytes" where
  "ascii s = map of_char s"

text \<open>
  \<^verbatim>\<open>document::find\<close> converts the document to a view; the conversion validates and throws, in a
  function that is \<open>noexcept\<close>. The lookup has as many rounds as the buffer has bytes, which is
  enough on a validated document.
\<close>

definition document_view :: "bson_doc \<Rightarrow> int option res" where
  "document_view d =
     bindR (bson_byte_size (dc_buf d) (Some doc_data_ptr)) (\<lambda>n.
     bindR (bson_view_from_data_throwing (dc_buf d) doc_data_ptr (uint n)) (\<lambda>r.
     case r of Inl _ \<Rightarrow> Inl Abort_called | Inr v \<Rightarrow> Inr v))"

definition document_find :: "bson_doc \<Rightarrow> bytes \<Rightarrow> bson_iterator res" where
  "document_find d key =
     bindR (document_view d) (\<lambda>v.
     case bson_find (length (dc_buf d)) (dc_buf d) v key of
       Some r \<Rightarrow> r | None \<Rightarrow> Inl Abort_called)"

text \<open>
  \<^verbatim>\<open>it->value()\<close>; \<^verbatim>\<open>operator->\<close> is \<open>noexcept\<close> and throws on an errant iterator. A tag without
  enumerator leaves the value unspecified.
\<close>

definition arrow_value :: "bson_doc \<Rightarrow> bson_iterator \<Rightarrow> bson_value_ref res" where
  "arrow_value d it =
     (case throw_if_error it of
        Inl _ \<Rightarrow> Inl Abort_called
      | Inr _ \<Rightarrow> bindR (bson_iterator_value (dc_buf d) it) (\<lambda>v.
          case v of None \<Rightarrow> Inl Out_of_bounds | Some v \<Rightarrow> Inr v))"

text \<open>
  The constructor of \<^verbatim>\<open>server_error\<close> reads the member \<open>utf8\<close> of the value of \<^verbatim>\<open>errmsg\<close> whatever
  its type is; the value of a missing element has no initialised member.
\<close>

definition value_utf8_member :: "bson_value_ref \<Rightarrow> bytes res" where
  "value_utf8_member v =
     (case v of V_utf8 s \<Rightarrow> Inr (case s of None \<Rightarrow> [] | Some bs \<Rightarrow> bs) | _ \<Rightarrow> Inl Out_of_bounds)"

definition server_error :: "bson_doc \<Rightarrow> cpp_exn res" where
  "server_error msg =
     bindR (document_find msg (ascii ''code'')) (\<lambda>it.
     bindR (arrow_value msg it) (\<lambda>v.
     case bson_value_as_int32 v of
       None \<Rightarrow> Inl Out_of_bounds
     | Some (code, _) \<Rightarrow>
         bindR (document_find msg (ascii ''errmsg'')) (\<lambda>it.
         bindR (arrow_value msg it) (\<lambda>v.
         bindR (value_utf8_member v) (\<lambda>errmsg. Inr (Server_error code errmsg (doc_data msg)))))))"

fun throw_if_section_error :: "any_section \<Rightarrow> unit eres" where
  "throw_if_section_error (Body_section body) =
     bindE (liftE (document_find body (ascii ''ok''))) (\<lambda>ok.
     bindE (liftE (bson_end (dc_buf body) (Some doc_data_ptr))) (\<lambda>e.
     if bson_iterator_eq ok e then okE ()
     else
       bindE (liftE (arrow_value body ok)) (\<lambda>v.
       bindE (liftE (bson_value_as_bool v)) (\<lambda>b.
       if b then okE ()
       else bindE (liftE (server_error body)) throwE))))"

fun throw_if_sections_error :: "any_section list \<Rightarrow> unit eres" where
  "throw_if_sections_error [] = okE ()"
| "throw_if_sections_error (sec # secs) =
     bindE (throw_if_section_error sec) (\<lambda>_. throw_if_sections_error secs)"

definition throw_if_message_error :: "any_message \<Rightarrow> unit eres" where
  "throw_if_message_error msg = (case am_content msg of Op_msg secs \<Rightarrow> throw_if_sections_error secs)"

section \<open>The header\<close>

definition header_bytes :: "u32 \<Rightarrow> u32 \<Rightarrow> u32 \<Rightarrow> u32 \<Rightarrow> bytes" where
  "header_bytes len req resp opc = u32le len @ u32le req @ u32le resp @ u32le opc"

lemma length_header_bytes [simp]: "length (header_bytes a b c d) = 16"
  by (simp add: header_bytes_def)

lemma split16:
  assumes "length xs = 16"
  obtains a b c d where "xs = a @ b @ c @ d" "length a = 4" "length b = 4" "length c = 4" "length d = 4"
proof (rule that)
  show "xs = take 4 xs @ take 4 (drop 4 xs) @ take 4 (drop 8 xs) @ drop 12 xs"
    using append_take_drop_id [of 4 xs] append_take_drop_id [of 4 "drop 4 xs"]
      append_take_drop_id [of 4 "drop 8 xs"] by (simp flip: append_assoc)
qed (use assms in simp_all)

lemma write_header:
  assumes "length chars = 16"
  shows "bindE (write_int_le (generic_dynamic_buffer chars 0) (len :: u32)) (\<lambda>b.
      bindE (write_int_le b (req :: u32)) (\<lambda>b.
      bindE (write_int_le b (resp :: u32)) (\<lambda>b. write_int_le b (opc :: u32)))) =
    okE \<lparr>db_buffer = header_bytes len req resp opc, db_input_offset = 0, db_output_offset = 16\<rparr>"
proof -
  obtain a b c d where s: "chars = a @ b @ c @ d" "length a = 4" "length b = 4" "length c = 4" "length d = 4"
    using assms by (rule split16)
  have 1: "write_int_le (generic_dynamic_buffer chars 0) len =
      okE \<lparr>db_buffer = u32le len @ b @ c @ d, db_input_offset = 0, db_output_offset = 4\<rparr>"
    using write_int_le_32 [of "generic_dynamic_buffer chars 0" "[]" a "b @ c @ d" len] s
    by (simp add: generic_dynamic_buffer_def)
  have 2: "write_int_le \<lparr>db_buffer = u32le len @ b @ c @ d, db_input_offset = 0, db_output_offset = 4\<rparr> req =
      okE \<lparr>db_buffer = u32le len @ u32le req @ c @ d, db_input_offset = 0, db_output_offset = 8\<rparr>"
    using write_int_le_32 [of "\<lparr>db_buffer = u32le len @ b @ c @ d, db_input_offset = 0, db_output_offset = 4\<rparr>"
        "u32le len" b "c @ d" req] s by simp
  have 3: "write_int_le \<lparr>db_buffer = u32le len @ u32le req @ c @ d, db_input_offset = 0, db_output_offset = 8\<rparr> resp =
      okE \<lparr>db_buffer = u32le len @ u32le req @ u32le resp @ d, db_input_offset = 0, db_output_offset = 12\<rparr>"
    using write_int_le_32 [of "\<lparr>db_buffer = u32le len @ u32le req @ c @ d, db_input_offset = 0, db_output_offset = 8\<rparr>"
        "u32le len @ u32le req" c d resp] s by simp
  have 4: "write_int_le \<lparr>db_buffer = u32le len @ u32le req @ u32le resp @ d, db_input_offset = 0, db_output_offset = 12\<rparr> opc =
      okE \<lparr>db_buffer = header_bytes len req resp opc, db_input_offset = 0, db_output_offset = 16\<rparr>"
    using write_int_le_32 [of "\<lparr>db_buffer = u32le len @ u32le req @ u32le resp @ d, db_input_offset = 0, db_output_offset = 12\<rparr>"
        "u32le len @ u32le req @ u32le resp" d "[]" opc] s by (simp add: header_bytes_def)
  show ?thesis by (simp only: 1 2 3 4 bindE_simps)
qed

lemma read_header:
  "bindE (read_int_le_dbuf (db_commit (generic_dynamic_buffer (header_bytes len req resp opc) 0) 16)) (\<lambda>(l :: u32, b).
   bindE (read_int_le_dbuf b) (\<lambda>(q :: u32, b).
   bindE (read_int_le_dbuf b) (\<lambda>(r :: u32, b).
   bindE (read_int_le_dbuf b) (\<lambda>(c :: u32, b). okE (l, q, r, c))))) = okE (len, req, resp, opc)"
proof -
  let ?b = "\<lambda>i. \<lparr>db_buffer = header_bytes len req resp opc, db_input_offset = i, db_output_offset = 16\<rparr>"
  have 0: "db_commit (generic_dynamic_buffer (header_bytes len req resp opc) 0) 16 = ?b 0"
    by (simp add: db_commit_def generic_dynamic_buffer_def)
  have 1: "read_int_le_dbuf (?b 0) = okE (len, ?b 4)"
    using read_int_le_dbuf_32 [of "?b 0" "[]" len "u32le req @ u32le resp @ u32le opc"]
    by (simp add: header_bytes_def)
  have 2: "read_int_le_dbuf (?b 4) = okE (req, ?b 8)"
    using read_int_le_dbuf_32 [of "?b 4" "u32le len" req "u32le resp @ u32le opc"]
    by (simp add: header_bytes_def)
  have 3: "read_int_le_dbuf (?b 8) = okE (resp, ?b 12)"
    using read_int_le_dbuf_32 [of "?b 8" "u32le len @ u32le req" resp "u32le opc"]
    by (simp add: header_bytes_def)
  have 4: "read_int_le_dbuf (?b 12) = okE (opc, ?b 16)"
    using read_int_le_dbuf_32 [of "?b 12" "u32le len @ u32le req @ u32le resp" opc "[]"]
    by (simp add: header_bytes_def)
  show ?thesis by (simp only: 0 1 2 3 4 bindE_simps prod.case)
qed

text \<open>Any sixteen bytes are a header.\<close>

lemma header_of_bytes: "length bs = 16 \<Longrightarrow> \<exists>len req resp opc. bs = header_bytes len req resp opc"
  by (erule split16) (metis header_bytes_def u32le_u32_of_bytes)

section \<open>The sections of a message\<close>

text \<open>What the section of a received document was parsed from.\<close>

fun section_bytes :: "any_section \<Rightarrow> bytes" where
  "section_bytes (Body_section d) = body_kind_byte # drop 4 (dc_buf d)"

text \<open>A body section that declares a document of at most five bytes.\<close>

definition tiny_section :: "bytes \<Rightarrow> bool" where
  "tiny_section content \<longleftrightarrow>
     (\<exists>pre data. content = pre @ body_kind_byte # data \<and> 5 \<le> length data \<and> declared_len data \<le> 5)"

lemma section_read_ok:
  assumes "any_section_read (default_reallocate avail junk) bs = okE (sec, rest)"
  shows "bs = section_bytes sec @ rest"
proof (cases bs)
  case (Cons k data)
  with assms have k: "k = 0" by (cases "k = 0") (simp_all add: section_read_other)
  with assms Cons show ?thesis
    by (auto simp: section_read_body Let_def body_kind_byte_def split: if_splits)
qed (use assms in \<open>simp add: section_read_other\<close>)

lemma section_read_fault:
  assumes "any_section_read (default_reallocate avail junk) bs = Inl e"
  shows "tiny_section bs"
proof (cases bs)
  case (Cons k data)
  with assms have k: "k = 0" by (cases "k = 0") (simp_all add: section_read_other)
  with assms Cons have "5 \<le> length data" "declared_len data \<le> 5"
    by (auto simp: section_read_body Let_def split: if_splits)
  then show ?thesis using Cons k by (auto simp: tiny_section_def body_kind_byte_def intro: exI [of _ "[]"])
qed (use assms in \<open>simp add: section_read_other\<close>)

lemma tiny_section_append: "tiny_section bs \<Longrightarrow> tiny_section (xs @ bs)"
  unfolding tiny_section_def by (metis append_assoc)

lemma read_sections_cases:
  fixes avail :: "nat \<Rightarrow> bool" and junk :: "nat \<Rightarrow> byte" and tail :: nat and bs :: bytes
  shows "case read_sections (default_reallocate avail junk) tail bs of
     Inl e \<Rightarrow> tiny_section bs
   | Inr (Inl x) \<Rightarrow> True
   | Inr (Inr secs) \<Rightarrow> \<exists>rest. bs = concat (map section_bytes secs) @ rest \<and> length rest \<le> tail"
proof (induction "default_reallocate avail junk" tail bs rule: read_sections.induct)
  case (1 tail dbuf)
  let ?al = "default_reallocate avail junk"
  show ?case
  proof (cases "tail < length dbuf")
    case True
    show ?thesis
    proof (cases "any_section_read ?al dbuf" rule: eres_cases)
      case (fault e)
      then show ?thesis using True section_read_fault [OF fault] by (simp add: read_sections.simps)
    next
      case (throw x)
      then show ?thesis using True by (simp add: read_sections.simps [of _ _ dbuf]) (simp add: throwE_def)
    next
      case (ok y)
      obtain sec rest where y: "y = (sec, rest)" by (cases y)
      note b = section_read_ok [OF ok [unfolded y]]
      note IH = 1 [OF True ok [unfolded y] refl]
      have u: "read_sections ?al tail dbuf =
          bindE (read_sections ?al tail rest) (\<lambda>sections. okE (sec # sections))"
        using True ok y by (simp add: read_sections.simps [of _ _ dbuf])
      show ?thesis
        unfolding u using IH b tiny_section_append [of rest "section_bytes sec"]
        by (cases "read_sections ?al tail rest" rule: eres_cases) (simp_all, simp_all add: okE_def throwE_def)
    qed
  qed (simp add: read_sections.simps okE_def)
qed

text \<open>The bytes of documents that can be received are read back.\<close>

definition sendable :: "(nat \<Rightarrow> bool) \<Rightarrow> bytes \<Rightarrow> bool" where
  "sendable avail body \<longleftrightarrow>
     subdoc_ok body \<and> 5 < length body \<and> int (length body) \<le> INT32_MAX - 4 \<and> avail (length body + 4)"

definition received_doc :: "bytes \<Rightarrow> bson_doc" where
  "received_doc body = \<lparr>dc_buf = u32le (word_of_nat (length body)) @ body, dc_static = False\<rparr>"

lemma received_doc_inv:
  assumes "sendable avail body"
  shows "doc_inv (received_doc body)" "doc_data (received_doc body) = body"
  using doc_inv_layout [of body "[]" "received_doc body"] assms
  by (simp_all add: sendable_def received_doc_def)

lemma declared_len_subdoc: "subdoc_ok body \<Longrightarrow> declared_len (body @ rest) = length body"
proof -
  assume s: "subdoc_ok body"
  then have "5 \<le> length body" by (auto simp: subdoc_ok_def doc_at_def)
  then have t: "take 4 (body @ rest) = take 4 body" by simp
  moreover have "to_i32 (u32_of_bytes (take 4 body)) = int (length body)"
    using s by (simp add: subdoc_ok_def doc_len_def)
  ultimately show ?thesis unfolding declared_len_def t by (simp only: unat_of_to_i32)
qed

text \<open>
  The first body that cannot be read decides: an empty document is written into the statically allocated one, a
  refused block is an exception.
\<close>

definition unreadable :: "(nat \<Rightarrow> bool) \<Rightarrow> bytes \<Rightarrow> bool" where
  "unreadable avail body \<longleftrightarrow> length body = 5 \<or> \<not> avail (length body + 4)"

lemma read_sections_bodies:
  "\<forall>body \<in> set bodies. subdoc_ok body \<and> int (length body) \<le> INT32_MAX - 4 \<Longrightarrow>
   read_sections (default_reallocate avail junk) 0 (concat (map body_bytes bodies)) =
     (case find (unreadable avail) bodies of
        None \<Rightarrow> okE (map (\<lambda>body. Body_section (received_doc body)) bodies)
      | Some body \<Rightarrow> if length body = 5 then Inl Out_of_bounds else throwE Bad_alloc)"
proof (induction bodies)
  case (Cons body bodies)
  let ?rest = "concat (map body_bytes bodies)"
  have b: "subdoc_ok body" "int (length body) \<le> INT32_MAX - 4" "5 \<le> length body"
    using Cons.prems by (auto simp: subdoc_ok_def doc_at_def)
  have "any_section_read (default_reallocate avail junk) (0 # body @ ?rest) =
      (if length body = 5 then Inl Out_of_bounds else if \<not> avail (length body + 4) then throwE Bad_alloc
       else okE (Body_section (received_doc body), ?rest))"
    using b by (simp add: section_read_body declared_len_subdoc received_doc_def)
  moreover have "concat (map body_bytes (body # bodies)) = 0 # body @ ?rest"
    by (simp add: body_bytes_def body_kind_byte_def)
  ultimately show ?case
    using Cons by (auto simp: read_sections.simps [of _ _ "0 # body @ ?rest"] unreadable_def split: option.splits)
qed (simp add: read_sections.simps)

section \<open>Lookup in an owned document\<close>

lemma document_view_doc:
  assumes "doc_at (dc_buf d) 4"
  shows "document_view d = Inr (Some 4)"
proof -
  let ?m = "dc_buf d"
  obtain u where u: "bson_read_u32le ?m 4 = Inr u" "to_i32 u = doc_len ?m 4"
    using doc_at_read [OF assms] by blast
  have "uint u = doc_len ?m 4"
    using u(2) assms uint_word_of_nonneg_i32 [of "doc_len ?m 4"] doc_len_range(2) [of ?m 4]
    by (simp add: doc_at_def to_i32_def flip: u(2))
  with u assms show ?thesis
    using uint_word_of_nonneg_i32 [of "doc_len ?m 4"] doc_len_range(2) [of ?m 4]
    by (auto simp: document_view_def bson_byte_size_def bson_view_from_data_throwing_def
        bson_view_from_data_def doc_at_def)
qed

lemma document_find_kv:
  assumes inv: "doc_inv d" and data: "doc_data d = kv_doc kvs"
    and ok: "\<forall>kv \<in> set kvs. kv_ok kv" "int (length key) \<le> INT32_MAX"
  shows "case map_of kvs key of
      None \<Rightarrow> document_find d key = bson_end (dc_buf d) (Some doc_data_ptr)
    | Some v \<Rightarrow> \<exists>it e. document_find d key = Inr it \<and> bson_end (dc_buf d) (Some doc_data_ptr) = Inr e \<and>
        \<not> bson_iterator_eq it e \<and> arrow_value d it = Inr v"
proof -
  from inv obtain rest where s:
    "dc_buf d = u32le (word_of_nat (length (doc_data d) + length rest)) @ doc_data d @ rest"
    "int (length (doc_data d) + length rest) + 4 \<le> INT32_MAX" by (rule doc_inv_split)
  let ?m = "dc_buf d" and ?h = "u32le (word_of_nat (length (doc_data d) + length rest))"
  have m: "?m = ?h @ kv_doc kvs @ rest" using s(1) data by simp
  have len: "int (length (kv_doc kvs)) \<le> INT32_MAX" using s(2) data by simp
  note da = kv_doc_doc_at [OF m, of 4, simplified, OF len [simplified]]
  have fuel: "length kvs < length ?m"
    using length_elems_le [of "map kv_elem kvs"] by (simp add: m kv_doc_def)
  note view = document_view_doc [OF da(1)]
  have "case map_of kvs key of
      None \<Rightarrow> bson_find (length ?m) ?m (Some 4) key = Some (bson_end ?m (Some 4))
    | Some v \<Rightarrow> \<exists>it. bson_find (length ?m) ?m (Some 4) key = Some (Inr it) \<and>
        bson_end ?m (Some 4) \<noteq> Inr it \<and> (\<exists>p. it_ptr it = Some p \<and> p < 4 + doc_len ?m 4 - 1) \<and>
        bson_iterator_value ?m it = Inr (Some v)"
    by (rule find_kv_doc [OF m _ len ok(2,1) fuel]) simp
  moreover have "throw_if_error it = Inr ()" if "it_ptr it = Some p" "bson_iterator_value ?m it = Inr (Some v)" for it p v
    using that by (auto simp: throw_if_error_def bson_iterator_value_def res_simps)
  ultimately show ?thesis
    using view bson_end_doc [OF da(1)]
    by (auto simp: document_find_def arrow_value_def bson_iterator_eq_def split: option.splits)
qed

lemma arrow_value_end:
  assumes "doc_at (dc_buf d) p"
  shows "arrow_value d \<lparr>it_ptr = Some (p + doc_len (dc_buf d) p - 1), it_keylen = 0, it_rlen = 1\<rparr> = Inr V_eod"
  using assms
  by (auto simp: arrow_value_def throw_if_error_def bson_iterator_get_error_def bson_iterator_value_def
      bson_iterator_type_def bson_iterator_value_ptr_def it_deref_def doc_at_def bson_type_defs)

text \<open>The exception a reply with these fields asks for.\<close>

definition reply_error :: "kv list \<Rightarrow> cpp_exn res" where
  "reply_error kvs =
      (case bson_value_as_int32 (case map_of kvs (ascii ''code'') of None \<Rightarrow> V_eod | Some c \<Rightarrow> c) of
         None \<Rightarrow> Inl Out_of_bounds
       | Some (code, _) \<Rightarrow>
           (case map_of kvs (ascii ''errmsg'') of
              Some (V_utf8 (Some s)) \<Rightarrow> Inr (Server_error code s (kv_doc kvs))
            | _ \<Rightarrow> Inl Out_of_bounds))"

section \<open>Streams that deliver\<close>

text \<open>
  The documented behaviour of a connected pair of stream operations that meets no error: writing
  transfers every byte, reading transfers the number of bytes asked for, in order.
\<close>

definition stream_fifo :: "'s aread \<Rightarrow> 's awrite \<Rightarrow> ('s \<Rightarrow> bytes) \<Rightarrow> bool" where
  "stream_fifo aread awrite pending \<longleftrightarrow>
     (\<forall>s bs. \<exists>s'. awrite s bs = (Inr (length bs), s') \<and> pending s' = pending s @ bs) \<and>
     (\<forall>s n. n \<le> length (pending s) \<longrightarrow>
        (\<exists>s'. aread s n = (Inr (take n (pending s)), s') \<and> pending s' = drop n (pending s)))"

lemma send_message_bytes:
  assumes "length chars = 16" "awrite s bs = (Inr k, s')"
    and "bs = header_bytes (word_of_nat (16 + sum_list (map length bufs))) req 0 opc @ concat bufs"
  shows "send_message awrite chars s req opc bufs = (okE (), s')"
  using assms by (simp add: send_message_def write_header)

lemma recv_message_bytes:
  assumes "aread s 16 = (Inr (header_bytes (word_of_nat (20 + length content)) req resp 2013), s1)"
    and "aread s1 (4 + length content) = (Inr (op_msg_flag_bits @ content), s2)"
    and "int (20 + length content) \<le> INT32_MAX"
  shows "recv_message aread alloc s =
    (bindE (read_sections alloc 0 content) (\<lambda>secs.
      okE \<lparr>am_req_id = req, am_resp_to = resp, am_content = Op_msg secs\<rparr>), s2)"
proof -
  have u: "unat (word_of_nat (20 + length content) :: u32) = 20 + length content"
    by (rule unat_of_nat_u32) (use assms(3) in simp)
  have "(read_int_le (op_msg_flag_bits @ content) :: (u32 \<times> bytes) eres) = okE (0, content)"
    by (simp add: read_int_le_32 op_msg_flag_bits_def)
  moreover have "length (op_msg_flag_bits @ content) = 4 + length content"
    by (simp add: op_msg_flag_bits_def)
  ultimately show ?thesis
    using assms u unfolding recv_message_def
    by (cases "read_sections alloc 0 content" rule: eres_cases) (simp_all add: read_header Let_def)
qed

text \<open>The check for a server error reads the fields of the document.\<close>

lemma section_check_fields:
  assumes "doc_inv d" "doc_data d = kv_doc kvs" "\<forall>kv \<in> set kvs. kv_ok kv"
  shows "throw_if_section_error (Body_section d) =
    (case map_of kvs (ascii ''ok'') of
       None \<Rightarrow> okE ()
     | Some v \<Rightarrow>
         bindE (liftE (bson_value_as_bool v)) (\<lambda>b.
         if b then okE ()
         else bindE (liftE (reply_error kvs)) throwE))"
proof -
  have l: "int (length (ascii s)) \<le> INT32_MAX" if "length s \<le> 10" for s
    using that by (simp add: ascii_def)
  note find = document_find_kv [OF assms l]
  have da: "doc_at (dc_buf d) 4" using assms(1) by (simp add: doc_inv_def)
  then have e: "bson_end (dc_buf d) (Some 4) =
      Inr \<lparr>it_ptr = Some (4 + doc_len (dc_buf d) 4 - 1), it_keylen = 0, it_rlen = 1\<rparr>"
    by (rule bson_end_doc)
  have stop: "arrow_value d \<lparr>it_ptr = Some (4 + doc_len (dc_buf d) 4 - 1), it_keylen = 0, it_rlen = 1\<rparr> = Inr V_eod"
    using arrow_value_end [OF da] .
  have get: "bindR (document_find d (ascii s)) (arrow_value d) =
      Inr (case map_of kvs (ascii s) of None \<Rightarrow> V_eod | Some v \<Rightarrow> v)" if "length s \<le> 10" for s
    using find [OF that] e stop by (auto split: option.splits)
  have ok: "\<forall>v. (k, v) \<in> set kvs \<longrightarrow> value_ok v" for k
    using assms(3) by (auto simp: kv_ok_def)
  have err: "server_error d = reply_error kvs"
    using get [of "''code''"] get [of "''errmsg''"] ok [of "ascii ''errmsg''"]
    by (auto simp: server_error_def reply_error_def value_utf8_member_def res_simps assms(2) bindR_assoc [symmetric]
        dest!: map_of_SomeD split: option.splits prod.splits bson_value_ref.splits)
  show ?thesis
    unfolding throw_if_section_error.simps err
    using find [of "''ok''"] e
    by (auto simp: bson_iterator_eq_def split: option.splits)
qed

section \<open>Properties\<close>

lemma body_length: "body \<in> set bodies \<Longrightarrow> length body < length (concat (map body_bytes bodies))"
  by (induction bodies) (auto simp: body_bytes_def)


text \<open>A stream that is the list of the bytes it holds, for concrete runs.\<close>

definition list_read :: "bytes aread" where
  "list_read s n = (if n \<le> length s then (Inr (take n s), drop n s) else (Inl 2, []))"

definition list_write :: "bytes awrite" where
  "list_write s bs = (Inr (length bs), s @ bs)"

lemma list_stream_fifo: "stream_fifo list_read list_write (\<lambda>s. s)"
  by (simp add: stream_fifo_def list_read_def list_write_def)


text \<open>
  C22: whatever bytes a peer sends, receiving a message returns or throws, unless the content holds
  a body section that declares a document of at most five bytes. If it returns, the sections are
  consecutive pieces of the content and leave at most a checksum of four bytes.
\<close>

theorem recv_untrusted:
  "case fst (recv_message aread (default_reallocate avail junk) s) of
     Inl e \<Rightarrow> \<exists>s1 n content s2. aread s1 n = (Inr content, s2) \<and> tiny_section content
   | Inr (Inl x) \<Rightarrow> True
   | Inr (Inr msg) \<Rightarrow>
       \<exists>secs s1 n content s2 rest. am_content msg = Op_msg secs \<and> aread s1 n = (Inr content, s2) \<and>
         drop 4 content = concat (map section_bytes secs) @ rest \<and> length rest \<le> 4"
proof -
  let ?al = "default_reallocate avail junk"
  let ?P = "\<lambda>r. case r of
     Inl e \<Rightarrow> \<exists>s1 n content s2. aread s1 n = (Inr content, s2) \<and> tiny_section content
   | Inr (Inl x) \<Rightarrow> True
   | Inr (Inr msg) \<Rightarrow>
       \<exists>secs s1 n content s2 rest. am_content msg = Op_msg secs \<and> aread s1 n = (Inr content, s2) \<and>
         drop 4 content = concat (map section_bytes secs) @ rest \<and> length rest \<le> 4"
  have throw: "?P (throwE x)" for x by (simp add: throwE_def)
  have content: "?P (fst (bindS (read_int_le content, s2) (\<lambda>(flagBits :: u32, content) strm.
      bindS (read_sections ?al (if flagBits AND 1 \<noteq> 0 then 4 else 0) content, strm) (\<lambda>sections strm.
      (okE \<lparr>am_req_id = req, am_resp_to = resp, am_content = Op_msg sections\<rparr>, strm)))))"
    if a: "aread s1 n = (Inr content, s2)" for s1 n content s2 req resp
  proof (cases "length content < 4")
    case False
    define k where "k = (if u32_of_bytes (take 4 content) AND 1 \<noteq> 0 then 4 else 0 :: nat)"
    let ?msg = "\<lambda>secs. \<lparr>am_req_id = req, am_resp_to = resp, am_content = Op_msg secs\<rparr>"
    have "fst (bindS (read_int_le content, s2) (\<lambda>(flagBits :: u32, content) strm.
        bindS (read_sections ?al (if flagBits AND 1 \<noteq> 0 then 4 else 0) content, strm) (\<lambda>sections strm.
        (okE (?msg sections), strm)))) =
      bindE (read_sections ?al k (drop 4 content)) (\<lambda>secs. okE (?msg secs))"
      using False by (cases "read_sections ?al k (drop 4 content)" rule: eres_cases)
        (simp_all add: read_int_le_32 k_def)
    moreover have "?P (bindE (read_sections ?al k (drop 4 content)) (\<lambda>secs. okE (?msg secs)))"
    proof (cases "read_sections ?al k (drop 4 content)" rule: eres_cases)
      case (fault e)
      then have "tiny_section (take 4 content @ drop 4 content)"
        by (intro tiny_section_append) (use read_sections_cases [where avail = avail and junk = junk and tail = k and bs = "drop 4 content"] in simp)
      with a fault show ?thesis by auto
    next
      case (ok secs)
      then obtain rest where "drop 4 content = concat (map section_bytes secs) @ rest" "length rest \<le> k"
        using read_sections_cases [where avail = avail and junk = junk and tail = k and bs = "drop 4 content"] by (auto simp: okE_def)
      moreover have "k \<le> 4" by (simp add: k_def)
      ultimately have "am_content (?msg secs) = Op_msg secs" "aread s1 n = (Inr content, s2)"
        "drop 4 content = concat (map section_bytes secs) @ rest" "length rest \<le> 4"
        using a by simp_all
      then have "?P (okE (?msg secs))" unfolding okE_def sum.case by blast
      with ok show ?thesis by simp
    qed (simp add: throw)
    ultimately show ?thesis by simp
  qed (simp add: read_int_le_32 throw)
  show ?thesis
  proof (cases "aread s 16")
    case (Pair r s1)
    show ?thesis
    proof (cases r)
      case (Inr hdr)
      show ?thesis
      proof (cases "16 \<le> length hdr")
        case True
        then obtain len req resp opc where h: "take 16 hdr = header_bytes len req resp opc"
          using header_of_bytes [of "take 16 hdr"] by auto
        obtain r2 s2 where r2: "aread s1 (unat len - 16) = (r2, s2)" by fastforce
        show ?thesis
          using Pair Inr True h content [of s1 "unat len - 16" _ s2] r2
          by (cases r2) (simp_all add: recv_message_def Let_def read_header throw)
      qed (simp add: recv_message_def Pair Inr Let_def throw)
    qed (simp add: recv_message_def Pair throw)
  qed
qed

text \<open>
  Checking a reply for a server error depends on the fields of the document alone. No field
  \<^verbatim>\<open>ok\<close>, or one that reads as true, is no error; otherwise a server error with the number in
  \<^verbatim>\<open>code\<close> (zero if there is none) and the text in \<^verbatim>\<open>errmsg\<close> is thrown, and a reply whose \<^verbatim>\<open>errmsg\<close>
  is missing or no string is undefined behaviour.
\<close>

theorem reply_check_exact:
  assumes "doc_inv d" "doc_data d = kv_doc kvs" "\<forall>kv \<in> set kvs. kv_ok kv"
  shows "throw_if_section_error (Body_section d) =
    (case map_of kvs (ascii ''ok'') of
       None \<Rightarrow> okE ()
     | Some v \<Rightarrow>
         bindE (liftE (bson_value_as_bool v)) (\<lambda>b.
         if b then okE ()
         else bindE (liftE (reply_error kvs)) throwE))"
  using assms by (rule section_check_fields)

theorem reply_check_exact_witness:
  "throw_if_section_error (Body_section (received_doc
     (kv_doc [(ascii ''ok'', V_int32 0), (ascii ''code'', V_int32 59), (ascii ''errmsg'', V_utf8 (Some [110]))])))
   = throwE (Server_error 59 [110]
       (kv_doc [(ascii ''ok'', V_int32 0), (ascii ''code'', V_int32 59), (ascii ''errmsg'', V_utf8 (Some [110]))]))"
proof -
  let ?kvs = "[(ascii ''ok'', V_int32 0), (ascii ''code'', V_int32 59), (ascii ''errmsg'', V_utf8 (Some [110]))]"
  let ?d = "received_doc (kv_doc ?kvs)"
  have len: "length (kv_doc ?kvs) = 37"
    by (simp add: kv_doc_def kv_elem_def doc_bytes_def elem_bytes_def ascii_def string_bytes_def)
  have "sendable (\<lambda>_. True) (kv_doc ?kvs)"
    using kv_doc_doc_at [of "kv_doc ?kvs" "[]" ?kvs "[]" 0] len by (simp add: sendable_def subdoc_ok_def)
  note d = received_doc_inv [OF this]
  have "\<forall>kv \<in> set ?kvs. kv_ok kv" by (simp add: kv_ok_def ascii_def string_ok_def)
  from reply_check_exact [OF d this] show ?thesis
    by (simp add: ascii_def reply_error_def bson_value_as_int32_def bson_value_as_int64_def)
qed

end
