(* ===== verification/Wire_Client.thy ===== *)
theory Wire_Client
  imports Wire_Proto
begin

text \<open>
  Wire clients (\<^verbatim>\<open>src/amongoc/wire/client.hpp\<close>): the client over a stream, which numbers its
  requests, and the adaptors that retry a request and that check the reply for a server error.

  A client is a \<^emph>\<open>request\<close> function from its state and a message to an outcome and a new state. The
  message is its opcode and its buffers. The adaptors take
  any request function (\<^verbatim>\<open>client_interface\<close>).
\<close>

section \<open>The client over a stream\<close>

type_synonym wire_message = "u32 \<times> bytes list"

text \<open>
  The state: the request identifier and the stream. The plaintext and the TLS stream are two
  instances of the stream operations.
\<close>

record 's client =
  cl_stream :: 's
  cl_request_id :: int

definition new_client :: "'s \<Rightarrow> 's client" where
  "new_client strm = \<lparr>cl_stream = strm, cl_request_id = 0\<rparr>"

text \<open>
  \<^verbatim>\<open>client::_request\<close>. Incrementing the largest identifier is an overflow of a signed integer,
  whose behaviour is undefined.
\<close>

definition client_request ::
  "'s aread \<Rightarrow> 's awrite \<Rightarrow> reallocate_fn \<Rightarrow> bytes \<Rightarrow> 's client \<Rightarrow> wire_message \<Rightarrow>
   any_message eres \<times> 's client" where
  "client_request aread awrite alloc chars self msg =
     (if cl_request_id self = INT32_MAX then (Inl Out_of_bounds, self)
      else
        let request_id = cl_request_id self;
            self = self\<lparr>cl_request_id := request_id + 1\<rparr>;
            (r, strm) =
              bindS (send_message awrite chars (cl_stream self) (word_of_int request_id) (fst msg) (snd msg))
                (\<lambda>_ strm. recv_message aread alloc strm)
        in (r, self\<lparr>cl_stream := strm\<rparr>))"

section \<open>Adaptors\<close>

text \<open>Which exceptions are a \<^verbatim>\<open>std::system_error\<close>.\<close>

fun is_system_error :: "cpp_exn \<Rightarrow> bool" where
  "is_system_error Bad_alloc = False"
| "is_system_error (Iterator_error e) = False"
| "is_system_error (Status_error st) = False"
| "is_system_error _ = True"

text \<open>
  What the body of a message is after the message was moved from: a view is as before, an owned document has been
  released and is a null pointer, whose size is zero.
\<close>

datatype message_body = View_body bytes | Owned_body "bson_doc option"

fun moved_body :: "message_body \<Rightarrow> message_body" where
  "moved_body (View_body v) = View_body v"
| "moved_body (Owned_body d) = Owned_body None"

fun body_buffer :: "message_body \<Rightarrow> bytes res" where
  "body_buffer (View_body v) = Inr v"
| "body_buffer (Owned_body (Some d)) = doc_buffer d"
| "body_buffer (Owned_body None) = Inr []"

text \<open>
  \<^verbatim>\<open>retrying_client::_request\<close>: the loop counts down the tries that remain. Every attempt moves the message
  into the request, so that the next one sends what \<open>after_move\<close> leaves of it.
\<close>

function retry_loop ::
  "('c \<Rightarrow> 'm \<Rightarrow> 'a eres \<times> 'c) \<Rightarrow> ('m \<Rightarrow> 'm) \<Rightarrow> 'm \<Rightarrow> int \<Rightarrow> 'c \<Rightarrow> 'a eres \<times> 'c" where
  "retry_loop request after_move msg tries_remaining cl =
     (case request cl msg of
        (Inr (Inl err), cl) \<Rightarrow>
          if is_system_error err then
            let tries_remaining = tries_remaining - 1 in
            if tries_remaining < 1 then (throwE err, cl)
            else retry_loop request after_move (after_move msg) tries_remaining cl
          else (throwE err, cl)
      | r \<Rightarrow> r)"
  by pat_completeness auto
termination by (relation "measure (\<lambda>(request, after_move, msg, tries, cl). nat tries)") auto

declare retry_loop.simps [simp del]

definition retrying_request ::
  "('c \<Rightarrow> 'm \<Rightarrow> 'a eres \<times> 'c) \<Rightarrow> ('m \<Rightarrow> 'm) \<Rightarrow> int \<Rightarrow> 'c \<Rightarrow> 'm \<Rightarrow> 'a eres \<times> 'c" where
  "retrying_request request after_move n_tries cl msg = retry_loop request after_move msg n_tries cl"

definition checking_request ::
  "('c \<Rightarrow> 'm \<Rightarrow> any_message eres \<times> 'c) \<Rightarrow> 'c \<Rightarrow> 'm \<Rightarrow> any_message eres \<times> 'c" where
  "checking_request request cl msg =
     bindS (request cl msg) (\<lambda>resp cl.
     bindS (throw_if_message_error resp, cl) (\<lambda>_ cl. (okE resp, cl)))"

text \<open>\<^verbatim>\<open>simple_request\<close>: one body section out, one body section back.\<close>

definition simple_request ::
  "('c \<Rightarrow> wire_message \<Rightarrow> any_message eres \<times> 'c) \<Rightarrow> 'c \<Rightarrow> bytes \<Rightarrow> bson_doc eres \<times> 'c" where
  "simple_request request cl body =
     bindS (request cl (op_msg_opcode, op_msg_buffers_array [body])) (\<lambda>r cl.
     (liftE (expect_one_body_section_op_msg r), cl))"

text \<open>The identifiers of the requests of a client are consecutive.\<close>

lemma client_request_id:
  "cl_request_id c \<noteq> INT32_MAX \<Longrightarrow>
   cl_request_id (snd (client_request aread awrite alloc chars c msg)) = cl_request_id c + 1"
  by (simp add: client_request_def Let_def split: prod.splits)

section \<open>Failing attempts\<close>

text \<open>
  An attempt fails when it throws a system error.
  \<open>fails request after_move msg k cl cl'\<close>: the first \<open>k\<close> attempts from \<open>cl\<close>, each with the message that the one
  before has left, fail with a system error and lead to \<open>cl'\<close>.
\<close>

definition system_failure :: "'a eres \<Rightarrow> bool" where
  "system_failure r \<longleftrightarrow> (\<exists>err. r = throwE err \<and> is_system_error err)"

inductive fails :: "('c \<Rightarrow> 'm \<Rightarrow> 'a eres \<times> 'c) \<Rightarrow> ('m \<Rightarrow> 'm) \<Rightarrow> 'm \<Rightarrow> nat \<Rightarrow> 'c \<Rightarrow> 'c \<Rightarrow> bool"
  for request after_move where
  none: "fails request after_move msg 0 cl cl"
| again: "request cl msg = (throwE err, cl') \<Longrightarrow> is_system_error err \<Longrightarrow> fails request after_move (after_move msg) k cl' cl'' \<Longrightarrow>
    fails request after_move msg (Suc k) cl cl''"

inductive_cases fails_0E: "fails request after_move msg 0 cl cl'"
inductive_cases fails_SucE: "fails request after_move msg (Suc k) cl cl'"

lemma retry_step:
  assumes "request cl msg = (throwE err, cl')" "is_system_error err"
  shows "retry_loop request after_move msg n cl =
    (if n \<le> 1 then (throwE err, cl') else retry_loop request after_move (after_move msg) (n - 1) cl')"
  using assms by (simp add: retry_loop.simps [of request after_move msg n cl] throwE_def)

lemma retry_stop:
  assumes "request cl msg = (r, cl')" "\<not> system_failure r"
  shows "retry_loop request after_move msg n cl = (r, cl')"
  using assms by (cases r rule: eres_cases)
    (simp_all add: system_failure_def, simp_all add: retry_loop.simps [of request after_move msg n cl] throwE_def okE_def)

lemma retry_fails:
  assumes "fails request after_move msg k cl cl'" "int k < max 1 n"
  shows "retry_loop request after_move msg n cl = retry_loop request after_move ((after_move ^^ k) msg) (n - int k) cl'"
  using assms
proof (induction arbitrary: n rule: fails.induct)
  case (again cl msg err cl' k cl'')
  have "retry_loop request after_move msg n cl = retry_loop request after_move (after_move msg) (n - 1) cl'"
    using retry_step [of request cl msg err cl' after_move n] again.hyps(1,2) again.prems
    by (auto simp: max_def split: if_splits)
  also have "\<dots> = retry_loop request after_move ((after_move ^^ k) (after_move msg)) (n - 1 - int k) cl''"
    using again.prems by (intro again.IH) simp
  finally show ?case by (simp add: algebra_simps funpow_swap1)
qed simp

lemma fails_last:
  assumes "fails request after_move msg (Suc k) cl cl'"
  shows "\<exists>c err. fails request after_move msg k cl c \<and> request c ((after_move ^^ k) msg) = (throwE err, cl') \<and> is_system_error err"
  using assms
proof (induction k arbitrary: cl msg)
  case 0
  then show ?case by (auto elim!: fails_SucE fails_0E intro: fails.none)
next
  case (Suc k)
  from Suc.prems obtain err c where e: "request cl msg = (throwE err, c)" "is_system_error err"
    "fails request after_move (after_move msg) (Suc k) c cl'" by (rule fails_SucE)
  from Suc.IH [OF e(3)] obtain c' err' where "fails request after_move (after_move msg) k c c'"
    "request c' ((after_move ^^ k) (after_move msg)) = (throwE err', cl')" "is_system_error err'" by blast
  with fails.again [of request cl msg err c after_move k c'] e(1,2) show ?case by (auto simp: funpow_swap1)
qed

text \<open>Each attempt either ends the loop or is one more failure.\<close>

lemma fails_or_stops:
  "(\<exists>cl'. fails request after_move msg n cl cl') \<or>
   (\<exists>k cl' r cl''. k < n \<and> fails request after_move msg k cl cl' \<and> request cl' ((after_move ^^ k) msg) = (r, cl'') \<and>
      \<not> system_failure r)"
proof (induction n arbitrary: cl msg)
  case (Suc n)
  obtain r cl1 where r: "request cl msg = (r, cl1)" by fastforce
  show ?case
  proof (cases "system_failure r")
    case True
    then obtain err where e: "request cl msg = (throwE err, cl1)" "is_system_error err"
      using r by (auto simp: system_failure_def)
    from Suc [of "after_move msg" cl1] show ?thesis
    proof (elim disjE exE conjE)
      fix cl' assume "fails request after_move (after_move msg) n cl1 cl'"
      with fails.again [of request cl msg err cl1 after_move n cl'] e show ?thesis by blast
    next
      fix k cl' r cl''
      assume "k < n" "fails request after_move (after_move msg) k cl1 cl'" "request cl' ((after_move ^^ k) (after_move msg)) = (r, cl'')"
        "\<not> system_failure r"
      with fails.again [of request cl msg err cl1 after_move k cl'] e have "Suc k < Suc n \<and> fails request after_move msg (Suc k) cl cl' \<and>
          request cl' ((after_move ^^ Suc k) msg) = (r, cl'') \<and> \<not> system_failure r" by (auto simp: funpow_swap1)
      then show ?thesis by blast
    qed
  next
    case False
    with r have "0 < Suc n \<and> fails request after_move msg 0 cl cl \<and> request cl ((after_move ^^ 0) msg) = (r, cl1) \<and>
        \<not> system_failure r"
      using fails.none by auto
    then show ?thesis by blast
  qed
qed (auto intro: fails.none)

lemma moved_view: "(map moved_body ^^ k) [View_body v] = [View_body v]"
  by (induction k) simp_all

lemma moved_owned: "(map moved_body ^^ Suc k) [Owned_body d] = [Owned_body None]"
  by (induction k) simp_all

section \<open>Properties\<close>

text \<open>
  C23: a retrying client makes at most \<open>max 1 n\<close> attempts, and its outcome is decided by them: the outcome of the first
  attempt that does not fail with a system error, if there is one among \<open>max 1 n\<close> attempts, and otherwise the error of
  the last of them. Attempt \<open>k\<close> sends the message after it has been moved from \<open>k\<close> times. A message with a view as its
  body is then sent unchanged; one that owns its document is sent without any body from the second attempt on.
\<close>

theorem retrying_decides:
  "((\<exists>k cl' r cl''. int k < max 1 n \<and> fails request after_move msg k cl cl' \<and>
      request cl' ((after_move ^^ k) msg) = (r, cl'') \<and> \<not> system_failure r \<and>
      retrying_request request after_move n cl msg = (r, cl'')) \<or>
   (\<exists>cl' err cl''. fails request after_move msg (nat (max 1 n) - 1) cl cl' \<and>
      request cl' ((after_move ^^ (nat (max 1 n) - 1)) msg) = (throwE err, cl'') \<and>
      is_system_error err \<and> retrying_request request after_move n cl msg = (throwE err, cl''))) \<and>
   (map moved_body ^^ k) [View_body v] = [View_body v] \<and>
   map body_buffer ((map moved_body ^^ Suc k) [Owned_body d]) = [Inr []]"
proof (intro conjI)
  define N where "N = nat (max 1 n)"
  have N: "int N = max 1 n" "0 < N" by (auto simp: N_def)
  let ?sent = "\<lambda>k. (after_move ^^ k) msg"
  from fails_or_stops [of request after_move msg N cl]
  show "(\<exists>k cl' r cl''. int k < max 1 n \<and> fails request after_move msg k cl cl' \<and> request cl' (?sent k) = (r, cl'') \<and>
      \<not> system_failure r \<and> retrying_request request after_move n cl msg = (r, cl'')) \<or>
    (\<exists>cl' err cl''. fails request after_move msg (nat (max 1 n) - 1) cl cl' \<and>
      request cl' (?sent (nat (max 1 n) - 1)) = (throwE err, cl'') \<and>
      is_system_error err \<and> retrying_request request after_move n cl msg = (throwE err, cl''))"
  proof (elim disjE exE conjE)
    fix k cl' r cl''
    assume k: "k < N" "fails request after_move msg k cl cl'" "request cl' (?sent k) = (r, cl'')" "\<not> system_failure r"
    have "retrying_request request after_move n cl msg = (r, cl'')"
      using retry_fails [OF k(2), of n] retry_stop [of request cl' "?sent k" r cl''] k(1,3,4) N(1)
      by (simp add: retrying_request_def)
    moreover have "int k < max 1 n" using k(1) N(1) by linarith
    ultimately show ?thesis using k by blast
  next
    fix cl' assume "fails request after_move msg N cl cl'"
    then obtain c c' err where m: "fails request after_move msg (N - 1) cl c" "request c (?sent (N - 1)) = (throwE err, c')"
      "is_system_error err"
      using fails_last [of request after_move msg "N - 1" cl cl'] N(2) by auto
    have "retrying_request request after_move n cl msg = retry_loop request after_move (?sent (N - 1)) (n - int (N - 1)) c"
      using retry_fails [OF m(1), of n] N by (simp add: retrying_request_def)
    also have "\<dots> = (throwE err, c')"
      using retry_step [of request c "?sent (N - 1)" err c' after_move] m(2,3) N by (auto simp: of_nat_diff max_def split: if_splits)
    finally show ?thesis using m by (auto simp: N_def)
  qed
  show "(map moved_body ^^ k) [View_body v] = [View_body v]" by (rule moved_view)
  show "map body_buffer ((map moved_body ^^ Suc k) [Owned_body d]) = [Inr []]" unfolding moved_owned by simp
qed

end
