(* ===== verification/Amongoc_Pool.thy ===== *)
theory Amongoc_Pool
  imports Wire_Client "HOL-Library.Multiset"
begin

text \<open>
  Pools: the object pool of \<^verbatim>\<open>src/amongoc/pool.hpp\<close> and the connection pool of
  \<^verbatim>\<open>src/amongoc/connection_pool.hpp\<close> and \<^verbatim>\<open>connection_pool.cpp\<close>, with the clients that hold
  connections.

  Both keep a forward list from which the front is spliced to a client and to whose front a client
  gives back. That contract is the locale \<open>free_list\<close>, with the lemma that no item is ever in two
  places; it is interpreted on both pools.
\<close>

section \<open>The contract\<close>

locale free_list =
  fixes inv :: "'p \<Rightarrow> bool"
    and items :: "'p \<Rightarrow> 'x list"
    and checkout :: "'p \<Rightarrow> ('x \<times> 'p) option"
    and give_back :: "'x \<Rightarrow> 'p \<Rightarrow> 'p"
  assumes checkout_none: "inv p \<Longrightarrow> checkout p = None \<longleftrightarrow> items p = []"
    and checkout_some: "inv p \<Longrightarrow> checkout p = Some (x, p') \<Longrightarrow> items p = x # items p' \<and> inv p'"
    and give_back_items: "inv p \<Longrightarrow> items (give_back x p) = x # items p \<or> items (give_back x p) = items p"
    and give_back_inv: "inv p \<Longrightarrow> inv (give_back x p)"
begin

lemma checkout_mset:
  "inv p \<Longrightarrow> checkout p = Some (x, p') \<Longrightarrow> mset (x # held) + mset (items p') = mset held + mset (items p)"
  using checkout_some by simp

lemma checkout_distinct:
  "inv p \<Longrightarrow> checkout p = Some (x, p') \<Longrightarrow> distinct (held @ items p) \<Longrightarrow> distinct ((x # held) @ items p')"
  using checkout_some [of p x p'] by auto

lemma give_back_distinct:
  "inv p \<Longrightarrow> distinct ((x # held) @ items p) \<Longrightarrow> distinct (held @ items (give_back x p))"
  using give_back_items [of p x] by auto

lemma give_back_subset: "inv p \<Longrightarrow> set (items (give_back x p)) \<subseteq> insert x (set (items p))"
  using give_back_items [of p x] by auto

end

section \<open>The object pool\<close>

record 'x object_pool =
  op_objects :: "'x list"
  op_count :: nat
  op_max_size :: nat

definition new_object_pool :: "nat \<Rightarrow> 'x object_pool" where
  "new_object_pool max_size = \<lparr>op_objects = [], op_count = 0, op_max_size = max_size\<rparr>"

definition default_object_pool :: "'x object_pool" where
  "default_object_pool = new_object_pool 1024"

text \<open>
  Splicing the front object off the list; the count is a \<^verbatim>\<open>std::size_t\<close>. \<open>None\<close>: there is none.
\<close>

definition pool_take :: "'x object_pool \<Rightarrow> ('x \<times> 'x object_pool) option" where
  "pool_take p =
     (case op_objects p of
        [] \<Rightarrow> None
      | x # xs \<Rightarrow> Some (x, p\<lparr>op_objects := xs, op_count := nat ((int (op_count p) - 1) mod 2 ^ 64)\<rparr>))"

text \<open>\<^verbatim>\<open>object_pool::checkout\<close>; the factory may throw, then the pool is unchanged.\<close>

definition pool_checkout :: "'x eres \<Rightarrow> 'x object_pool \<Rightarrow> 'x eres \<times> 'x object_pool" where
  "pool_checkout factory p =
     (case pool_take p of None \<Rightarrow> (factory, p) | Some (x, p) \<Rightarrow> (okE x, p))"

definition pool_return :: "'x \<Rightarrow> 'x object_pool \<Rightarrow> 'x object_pool" where
  "pool_return one p =
     (if op_count p < op_max_size p
      then p\<lparr>op_objects := one # op_objects p, op_count := (op_count p + 1) mod 2 ^ 64\<rparr>
      else p)"

text \<open>A ticket holds at most one object: none after it was moved from or discarded.\<close>

type_synonym 'x ticket = "'x option"

definition ticket_discard :: "'x ticket \<Rightarrow> 'x ticket" where
  "ticket_discard t = None"

definition ticket_destroy :: "'x ticket \<Rightarrow> 'x object_pool \<Rightarrow> 'x object_pool" where
  "ticket_destroy t p = (case t of None \<Rightarrow> p | Some one \<Rightarrow> pool_return one p)"

definition object_pool_inv :: "'x object_pool \<Rightarrow> bool" where
  "object_pool_inv p \<longleftrightarrow>
     op_count p = length (op_objects p) \<and> op_count p \<le> op_max_size p \<and> op_max_size p < 2 ^ 64"

interpretation op: free_list object_pool_inv op_objects pool_take pool_return
proof
  fix p :: "'x object_pool" and x p'
  assume i: "object_pool_inv p"
  show "pool_take p = None \<longleftrightarrow> op_objects p = []"
    by (simp add: pool_take_def split: list.split)
  show "op_objects (pool_return x p) = x # op_objects p \<or> op_objects (pool_return x p) = op_objects p"
    by (simp add: pool_return_def)
  show "object_pool_inv (pool_return x p)"
    using i by (simp add: pool_return_def object_pool_inv_def)
  show "op_objects p = x # op_objects p' \<and> object_pool_inv p'" if "pool_take p = Some (x, p')"
  proof (cases "op_objects p")
    case (Cons y ys)
    have "length ys < 2 ^ 64" using i Cons by (simp add: object_pool_inv_def)
    then have "nat (int (length ys) mod 2 ^ 64) = length ys" by simp
    with i that Cons show ?thesis by (auto simp: pool_take_def object_pool_inv_def)
  qed (use that in \<open>simp add: pool_take_def\<close>)
qed

section \<open>Connections\<close>

text \<open>
  A connection: its serial number, the generation of the pool at its creation, whether a request on
  it has failed, and its wire client. The identifier of the code is the serial number in 32 bits.
\<close>

record 'c member_impl =
  mi_serial :: nat
  mi_generation :: nat
  mi_perished :: bool
  mi_client :: 'c

definition mi_id :: "'c member_impl \<Rightarrow> u32" where
  "mi_id m = word_of_nat (mi_serial m)"

record 'c pool_impl =
  cp_conn_ids :: nat
  cp_generation :: nat
  cp_idle :: "'c member_impl list"

definition new_connection_pool :: "'c pool_impl" where
  "new_connection_pool = \<lparr>cp_conn_ids = 1, cp_generation = 1, cp_idle = []\<rparr>"

text \<open>The part of \<^verbatim>\<open>pool_impl::checkout\<close> under the lock.\<close>

definition checkout_idle :: "'c pool_impl \<Rightarrow> ('c member_impl \<times> 'c pool_impl) option" where
  "checkout_idle self =
     (case cp_idle self of [] \<Rightarrow> None | m # ms \<Rightarrow> Some (m, self\<lparr>cp_idle := ms\<rparr>))"

text \<open>The construction of a member for a new connection.\<close>

definition emplace_member :: "'c \<Rightarrow> 'c pool_impl \<Rightarrow> 'c member_impl \<times> 'c pool_impl" where
  "emplace_member client self =
     (\<lparr>mi_serial = cp_conn_ids self, mi_generation = cp_generation self, mi_perished = False, mi_client = client\<rparr>,
      self\<lparr>cp_conn_ids := cp_conn_ids self + 1\<rparr>)"

text \<open>
  \<^verbatim>\<open>pool_impl::checkout\<close>, with the coroutine that connects (resolution, connection, TLS, handshake)
  as a parameter; it runs without the lock.
\<close>

definition pool_impl_checkout :: "'c eres \<Rightarrow> 'c pool_impl \<Rightarrow> 'c member_impl eres \<times> 'c pool_impl" where
  "pool_impl_checkout connect self =
     (case checkout_idle self of
        Some (m, self) \<Rightarrow> (okE m, self)
      | None \<Rightarrow>
          bindS (connect, self) (\<lambda>client self.
          let (m, self) = emplace_member client self in (okE m, self)))"

definition pool_impl_return :: "'c member_impl \<Rightarrow> 'c pool_impl \<Rightarrow> 'c pool_impl" where
  "pool_impl_return mem self = self\<lparr>cp_idle := mem # cp_idle self\<rparr>"

definition member_perish :: "'c member_impl \<Rightarrow> 'c member_impl" where
  "member_perish m = m\<lparr>mi_perished := True\<rparr>"

text \<open>\<^verbatim>\<open>member::~member\<close>; \<open>None\<close> is a member that was moved from.\<close>

definition member_destroy :: "'c member_impl option \<Rightarrow> 'c pool_impl \<Rightarrow> 'c pool_impl" where
  "member_destroy m pool =
     (case m of
        None \<Rightarrow> pool
      | Some m \<Rightarrow> if mi_perished m then pool else pool_impl_return m pool)"

text \<open>\<^verbatim>\<open>member::_request\<close>: a request that throws marks the connection.\<close>

definition member_request ::
  "('c \<Rightarrow> 'm \<Rightarrow> 'a eres \<times> 'c) \<Rightarrow> 'c member_impl \<Rightarrow> 'm \<Rightarrow> 'a eres \<times> 'c member_impl" where
  "member_request request self msg =
     (case request (mi_client self) msg of
        (Inr (Inl x), c) \<Rightarrow> (throwE x, member_perish (self\<lparr>mi_client := c\<rparr>))
      | (r, c) \<Rightarrow> (r, self\<lparr>mi_client := c\<rparr>))"

section \<open>Pool clients\<close>

text \<open>
  \<^verbatim>\<open>pool_client::_request\<close>, run without interruption: the state is the connection the client holds
  and the pool. Whatever throws, the guard resets the held connection.
\<close>

definition pool_client_request ::
  "('c \<Rightarrow> 'm \<Rightarrow> 'a eres \<times> 'c) \<Rightarrow> 'c eres \<Rightarrow> 'c member_impl option \<times> 'c pool_impl \<Rightarrow> 'm \<Rightarrow>
   'a eres \<times> 'c member_impl option \<times> 'c pool_impl" where
  "pool_client_request request connect self msg =
     (let (pool_member, pool) = self;
          (got, pool) =
            (case pool_member of Some m \<Rightarrow> (okE m, pool) | None \<Rightarrow> pool_impl_checkout connect pool)
      in case got of
           Inl e \<Rightarrow> (Inl e, None, pool)
         | Inr (Inl x) \<Rightarrow> (throwE x, None, pool)
         | Inr (Inr m) \<Rightarrow>
             (case member_request request m msg of
                (Inr (Inl x), m) \<Rightarrow> (throwE x, None, member_destroy (Some m) pool)
              | (r, m) \<Rightarrow> (r, Some m, pool)))"

section \<open>Many clients\<close>

text \<open>
  Clients of one pool interleave at the points where a coroutine awaits: while connecting and while
  a request is on its way. A client is ready (perhaps holding a connection), connecting, or busy.
\<close>

datatype 'c client_phase =
    Ready "'c member_impl option"
  | Connecting
  | Busy "'c member_impl"

text \<open>
  The state of the system: the pool, the phase of each client, and the serial numbers of the
  connections on which a request has failed.
\<close>

record 'c system =
  sy_pool :: "'c pool_impl"
  sy_clients :: "(nat \<times> 'c client_phase) list"
  sy_failed :: "nat set"

definition set_phase :: "nat \<Rightarrow> 'c client_phase \<Rightarrow> 'c system \<Rightarrow> 'c system" where
  "set_phase i ph s = s\<lparr>sy_clients := (i, ph) # filter (\<lambda>(j, _). j \<noteq> i) (sy_clients s)\<rparr>"

inductive pool_step :: "'c system \<Rightarrow> 'c system \<Rightarrow> bool" where
  new_client: "i \<notin> fst ` set (sy_clients s) \<Longrightarrow> pool_step s (set_phase i (Ready None) s)"
| use_held: "(i, Ready (Some m)) \<in> set (sy_clients s) \<Longrightarrow> pool_step s (set_phase i (Busy m) s)"
| use_idle: "(i, Ready None) \<in> set (sy_clients s) \<Longrightarrow> checkout_idle (sy_pool s) = Some (m, p) \<Longrightarrow>
    pool_step s (set_phase i (Busy m) (s\<lparr>sy_pool := p\<rparr>))"
| connect: "(i, Ready None) \<in> set (sy_clients s) \<Longrightarrow> checkout_idle (sy_pool s) = None \<Longrightarrow>
    pool_step s (set_phase i Connecting s)"
| connected: "(i, Connecting) \<in> set (sy_clients s) \<Longrightarrow> emplace_member c (sy_pool s) = (m, p) \<Longrightarrow>
    pool_step s (set_phase i (Busy m) (s\<lparr>sy_pool := p\<rparr>))"
| connect_failed: "(i, Connecting) \<in> set (sy_clients s) \<Longrightarrow> pool_step s (set_phase i (Ready None) s)"
| replied: "(i, Busy m) \<in> set (sy_clients s) \<Longrightarrow> m' = m\<lparr>mi_client := c\<rparr> \<Longrightarrow>
    pool_step s (set_phase i (Ready (Some m')) s)"
| failed: "(i, Busy m) \<in> set (sy_clients s) \<Longrightarrow> m' = member_perish (m\<lparr>mi_client := c\<rparr>) \<Longrightarrow>
    pool_step s (set_phase i (Ready None)
      (s\<lparr>sy_pool := member_destroy (Some m') (sy_pool s), sy_failed := insert (mi_serial m) (sy_failed s)\<rparr>))"
| destroy: "(i, Ready m) \<in> set (sy_clients s) \<Longrightarrow>
    pool_step s (s\<lparr>sy_pool := member_destroy m (sy_pool s),
      sy_clients := filter (\<lambda>(j, _). j \<noteq> i) (sy_clients s)\<rparr>)"

definition init_system :: "'c system" where
  "init_system = \<lparr>sy_pool = new_connection_pool, sy_clients = [], sy_failed = {}\<rparr>"

inductive reachable :: "'c system \<Rightarrow> bool" where
  init: "reachable init_system"
| step: "reachable s \<Longrightarrow> pool_step s s' \<Longrightarrow> reachable s'"

interpretation cp: free_list "\<lambda>_. True" cp_idle checkout_idle pool_impl_return
  by unfold_locales (auto simp: checkout_idle_def pool_impl_return_def split: list.splits)

section \<open>Where the connections are\<close>

fun phase_conns :: "'c client_phase \<Rightarrow> 'c member_impl list" where
  "phase_conns (Ready m) = (case m of None \<Rightarrow> [] | Some m \<Rightarrow> [m])"
| "phase_conns Connecting = []"
| "phase_conns (Busy m) = [m]"

definition held :: "(nat \<times> 'c client_phase) list \<Rightarrow> 'c member_impl list" where
  "held cl = concat (map (\<lambda>(_, ph). phase_conns ph) cl)"

definition all_conns :: "'c system \<Rightarrow> 'c member_impl list" where
  "all_conns s = held (sy_clients s) @ cp_idle (sy_pool s)"

text \<open>The identity of a connection, and what is to hold of a list of them.\<close>

definition conn_key :: "'c member_impl \<Rightarrow> nat \<times> bool" where
  "conn_key m = (mi_serial m, mi_perished m)"

definition keys_ok :: "(nat \<times> bool) multiset \<Rightarrow> nat \<Rightarrow> nat set \<Rightarrow> bool" where
  "keys_ok K n F \<longleftrightarrow>
     (\<forall>x. count (image_mset fst K) x \<le> 1) \<and>
     (\<forall>k \<in> set_mset K. \<not> snd k \<and> fst k < n \<and> fst k \<notin> F) \<and> (\<forall>f \<in> F. f < n)"

definition sys_keys :: "'c system \<Rightarrow> (nat \<times> bool) multiset" where
  "sys_keys s = image_mset conn_key (mset (all_conns s))"

definition sys_inv :: "'c system \<Rightarrow> bool" where
  "sys_inv s \<longleftrightarrow>
     distinct (map fst (sy_clients s)) \<and> keys_ok (sys_keys s) (cp_conn_ids (sy_pool s)) (sy_failed s)"

lemma filter_absent: "i \<notin> fst ` set cl \<Longrightarrow> filter (\<lambda>(j, _). j \<noteq> i) cl = cl"
  by (induction cl) auto

lemma held_split:
  assumes "distinct (map fst cl)" "(i, ph) \<in> set cl"
  shows "mset (held cl) = mset (phase_conns ph) + mset (held (filter (\<lambda>(j, _). j \<noteq> i) cl))"
  using assms
proof (induction cl)
  case (Cons c cl)
  obtain j q where c: "c = (j, q)" by (cases c)
  show ?case
  proof (cases "j = i")
    case True
    then have "q = ph" "i \<notin> fst ` set cl" using Cons.prems c by (auto simp: image_iff)
    then show ?thesis using True c filter_absent [of i cl] by (simp add: held_def)
  next
    case False
    with Cons c show ?thesis by (auto simp: held_def)
  qed
qed simp

lemma clients_filter:
  "distinct (map fst cl) \<Longrightarrow> distinct (map fst ((i, ph) # filter (\<lambda>(j, _). j \<noteq> i) cl))"
  by (induction cl) auto

text \<open>The effect of a step of client \<open>i\<close> on the connections.\<close>

lemma keys_set_phase:
  assumes "distinct (map fst (sy_clients s))" "(i, ph) \<in> set (sy_clients s)"
  shows "sys_keys (set_phase i ph' (s\<lparr>sy_pool := p\<rparr>)) + image_mset conn_key (mset (phase_conns ph @ cp_idle (sy_pool s))) =
    sys_keys s + image_mset conn_key (mset (phase_conns ph' @ cp_idle p))"
  using held_split [OF assms] by (simp add: sys_keys_def all_conns_def set_phase_def held_def)

lemma set_phase_facts [simp]:
  "sy_pool (set_phase i ph s) = sy_pool s" "sy_failed (set_phase i ph s) = sy_failed s"
  "sy_clients (set_phase i ph s) = (i, ph) # filter (\<lambda>(j, _). j \<noteq> i) (sy_clients s)"
  by (simp_all add: set_phase_def)

lemma conn_key_simps [simp]: "conn_key (m\<lparr>mi_client := c\<rparr>) = conn_key m"
  by (simp add: conn_key_def)

lemma sys_inv_init: "sys_inv init_system"
  by (simp add: sys_inv_def init_system_def keys_ok_def sys_keys_def all_conns_def held_def
      new_connection_pool_def)

text \<open>Moving connections between clients and the pool keeps the invariant.\<close>

lemma sys_inv_move:
  assumes "sys_inv s" "(i, ph) \<in> set (sy_clients s)" "cp_conn_ids p = cp_conn_ids (sy_pool s)"
    and "image_mset conn_key (mset (phase_conns ph' @ cp_idle p)) =
      image_mset conn_key (mset (phase_conns ph @ cp_idle (sy_pool s)))"
  shows "sys_inv (set_phase i ph' (s\<lparr>sy_pool := p\<rparr>))"
proof -
  have d: "distinct (map fst (sy_clients s))" using assms(1) by (simp add: sys_inv_def)
  have "sys_keys (set_phase i ph' (s\<lparr>sy_pool := p\<rparr>)) = sys_keys s"
    using keys_set_phase [OF d assms(2), of ph' p] assms(4) by simp
  with assms(1,3) show ?thesis
    using clients_filter [OF d, of i ph'] by (simp add: sys_inv_def)
qed

lemma sys_inv_stay:
  assumes "sys_inv s" "(i, ph) \<in> set (sy_clients s)"
    and "image_mset conn_key (mset (phase_conns ph')) = image_mset conn_key (mset (phase_conns ph))"
  shows "sys_inv (set_phase i ph' s)"
  using sys_inv_move [OF assms(1,2), of "sy_pool s" ph'] assms(3) by simp

lemma keys_ok_add:
  assumes "keys_ok K n F"
  shows "keys_ok (add_mset (n, False) K) (n + 1) F"
proof -
  have "n \<notin># image_mset fst K" using assms by (auto simp: keys_ok_def)
  then have "count (image_mset fst K) n = 0" by (simp only: not_in_iff)
  with assms show ?thesis by (auto simp: keys_ok_def less_Suc_eq)
qed

lemma keys_ok_fail:
  assumes "keys_ok (add_mset (x, b) K) n F"
  shows "keys_ok K n (insert x F)"
proof -
  have "count (image_mset fst (add_mset (x, b) K)) x \<le> 1" using assms unfolding keys_ok_def by blast
  then have "x \<notin># image_mset fst K" unfolding not_in_iff by simp
  moreover have "count (image_mset fst K) y \<le> 1" for y
  proof -
    have "count (image_mset fst K) y \<le> count (image_mset fst (add_mset (x, b) K)) y" by simp
    also have "\<dots> \<le> 1" using assms unfolding keys_ok_def by blast
    finally show ?thesis .
  qed
  ultimately show ?thesis using assms by (auto simp: keys_ok_def)
qed

lemma sys_inv_step:
  assumes "pool_step s s'" "sys_inv s"
  shows "sys_inv s'"
  using assms
proof (cases rule: pool_step.cases)
  case (new_client i)
  have "sys_keys s' = sys_keys s"
    using new_client filter_absent [of i "sy_clients s"]
    by (simp add: sys_keys_def all_conns_def held_def)
  with new_client assms(2) show ?thesis
    using filter_absent [of i "sy_clients s"] by (simp add: sys_inv_def)
next
  case (use_held i m)
  then show ?thesis using sys_inv_stay [OF assms(2)] by simp
next
  case (use_idle i m p)
  have "cp_conn_ids p = cp_conn_ids (sy_pool s)"
    using use_idle by (auto simp: checkout_idle_def split: list.splits)
  moreover have "mset (m # []) + mset (cp_idle p) = mset [] + mset (cp_idle (sy_pool s))"
    by (rule cp.checkout_mset) (use use_idle in simp_all)
  ultimately show ?thesis
    using use_idle sys_inv_move [OF assms(2) use_idle(2), of p "Busy m"] by simp
next
  case (connect i)
  then show ?thesis using sys_inv_stay [OF assms(2)] by simp
next
  case (connected i c m p)
  have d: "distinct (map fst (sy_clients s))" using assms(2) by (simp add: sys_inv_def)
  have mp: "conn_key m = (cp_conn_ids (sy_pool s), False)" "cp_idle p = cp_idle (sy_pool s)"
    "cp_conn_ids p = cp_conn_ids (sy_pool s) + 1"
    using connected by (auto simp: emplace_member_def conn_key_def)
  have "sys_keys s' = add_mset (cp_conn_ids (sy_pool s), False) (sys_keys s)"
    using keys_set_phase [OF d connected(2), of "Busy m" p] connected mp by simp
  with connected assms(2) mp show ?thesis
    using keys_ok_add clients_filter [OF d, of i "Busy m"] by (simp add: sys_inv_def)
next
  case (connect_failed i)
  then show ?thesis using sys_inv_stay [OF assms(2)] by simp
next
  case (replied i m m' c)
  then show ?thesis using sys_inv_stay [OF assms(2)] by simp
next
  case (failed i m m' c)
  have d: "distinct (map fst (sy_clients s))" using assms(2) by (simp add: sys_inv_def)
  have p: "member_destroy (Some m') (sy_pool s) = sy_pool s"
    using failed by (simp add: member_destroy_def member_perish_def)
  have "add_mset (conn_key m) (sys_keys s') = sys_keys s"
    using held_split [OF d failed(2)] failed p by (simp add: sys_keys_def all_conns_def held_def)
  moreover have "keys_ok (sys_keys s) (cp_conn_ids (sy_pool s)) (sy_failed s)"
    using assms(2) by (simp add: sys_inv_def)
  ultimately have "keys_ok (sys_keys s') (cp_conn_ids (sy_pool s)) (insert (mi_serial m) (sy_failed s))"
    by (metis conn_key_def keys_ok_fail)
  with failed p show ?thesis
    using clients_filter [OF d, of i "Ready None"] by (simp add: sys_inv_def)
next
  case (destroy i m)
  have d: "distinct (map fst (sy_clients s))" using assms(2) by (simp add: sys_inv_def)
  note split = held_split [OF d destroy(2)]
  have np: "\<not> mi_perished c" if "m = Some c" for c
  proof -
    have "conn_key c \<in># sys_keys s" using split that by (simp add: sys_keys_def all_conns_def)
    with assms(2) show ?thesis by (auto simp: sys_inv_def keys_ok_def conn_key_def)
  qed
  have "sys_keys s' = sys_keys s"
    using split destroy np
    by (cases m) (simp_all add: sys_keys_def all_conns_def member_destroy_def pool_impl_return_def)
  moreover have "cp_conn_ids (sy_pool s') = cp_conn_ids (sy_pool s)"
    using destroy by (simp add: member_destroy_def pool_impl_return_def split: option.split)
  moreover have "distinct (map fst (filter (\<lambda>(j, _). j \<noteq> i) (sy_clients s)))"
    using clients_filter [OF d] by simp
  ultimately show ?thesis using assms(2) destroy by (simp add: sys_inv_def)
qed

lemma count_le_1: "(\<forall>x. count (mset xs) x \<le> 1) \<longleftrightarrow> distinct xs"
  by (induction xs) (auto simp: le_Suc_eq count_mset_0_iff split: if_splits)

lemma reachable_inv: "reachable s \<Longrightarrow> sys_inv s"
  by (induction rule: reachable.induct) (simp_all add: sys_inv_init sys_inv_step)

section \<open>The uninterrupted request\<close>

lemma set_phase_twice [simp]:
  "set_phase i a (set_phase i b s) = set_phase i a s"
  "set_phase i a ((set_phase i b s)\<lparr>sy_pool := p\<rparr>) = set_phase i a (s\<lparr>sy_pool := p\<rparr>)"
  "set_phase i a ((set_phase i b s)\<lparr>sy_pool := p, sy_failed := F\<rparr>) =
     set_phase i a (s\<lparr>sy_pool := p, sy_failed := F\<rparr>)"
  by (simp_all add: set_phase_def)

lemma system_update_same [simp]: "s\<lparr>sy_pool := sy_pool s, sy_failed := sy_failed s\<rparr> = (s :: 'c system)"
  by simp

text \<open>A busy client comes back with a reply, or fails and loses its connection.\<close>

lemma busy_request:
  assumes "(i, Busy m) \<in> set (sy_clients s)" "member_request request m msg = (r, m')" "\<And>e. r \<noteq> Inl e"
  shows "\<exists>F. pool_step s (set_phase i (Ready (case r of Inr (Inr _) \<Rightarrow> Some m' | _ \<Rightarrow> None))
    (s\<lparr>sy_pool := (case r of Inr (Inr _) \<Rightarrow> sy_pool s | _ \<Rightarrow> member_destroy (Some m') (sy_pool s)),
       sy_failed := F\<rparr>))"
proof -
  obtain q c where q: "request (mi_client m) msg = (q, c)" by fastforce
  show ?thesis
  proof (cases q rule: eres_cases)
    case (throw x)
    then have "r = throwE x" "m' = member_perish (m\<lparr>mi_client := c\<rparr>)"
      using assms(2) q by (auto simp: member_request_def throwE_def)
    then show ?thesis using pool_step.failed [OF assms(1)] by (auto simp: throwE_def)
  next
    case (ok y)
    then have "r = okE y" "m' = m\<lparr>mi_client := c\<rparr>"
      using assms(2) q by (auto simp: member_request_def okE_def)
    then show ?thesis
      using pool_step.replied [OF assms(1), of m' c] by (auto simp: okE_def intro!: exI [of _ "sy_failed s"])
  qed (use assms q in \<open>auto simp: member_request_def\<close>)
qed

text \<open>A ready client becomes busy, or fails to connect.\<close>

lemma ready_checkout:
  assumes "(i, Ready None) \<in> set (sy_clients s)"
    and "pool_impl_checkout connect (sy_pool s) = (got, p)" "\<And>e. got \<noteq> Inl e"
  shows "pool_step\<^sup>*\<^sup>* s (set_phase i (case got of Inr (Inr m) \<Rightarrow> Busy m | _ \<Rightarrow> Ready None) (s\<lparr>sy_pool := p\<rparr>))"
proof (cases "checkout_idle (sy_pool s)")
  case None
  note c = pool_step.connect [OF assms(1) None]
  have in2: "(i, Connecting) \<in> set (sy_clients (set_phase i Connecting s))" by simp
  show ?thesis
  proof (cases connect rule: eres_cases)
    case (fault e)
    with assms(2) None have "got = Inl e" by (simp add: pool_impl_checkout_def)
    with assms(3) show ?thesis by blast
  next
    case (throw x)
    then have "got = throwE x" "p = sy_pool s"
      using assms(2) None by (simp_all add: pool_impl_checkout_def)
    moreover have "pool_step\<^sup>*\<^sup>* s (set_phase i (Ready None) s)"
      using c pool_step.connect_failed [OF in2] by simp
    ultimately show ?thesis by (simp add: throwE_def)
  next
    case (ok client)
    obtain m q where mq: "emplace_member client (sy_pool s) = (m, q)" by fastforce
    then have "pool_step (set_phase i Connecting s) (set_phase i (Busy m) (s\<lparr>sy_pool := q\<rparr>))"
      using pool_step.connected [OF in2, of client m q] by simp
    with c have "pool_step\<^sup>*\<^sup>* s (set_phase i (Busy m) (s\<lparr>sy_pool := q\<rparr>))" by simp
    moreover have "got = okE m" "p = q"
      using assms(2) None ok mq by (simp_all add: pool_impl_checkout_def)
    ultimately show ?thesis by (simp add: okE_def)
  qed
next
  case (Some mp)
  then show ?thesis
    using assms pool_step.use_idle [OF assms(1), of "fst mp" "snd mp"]
    by (auto simp: pool_impl_checkout_def okE_def split: prod.splits)
qed

section \<open>Properties\<close>

text \<open>
  C26: a request of a pool client that runs without interruption is a sequence of steps of the
  system of interleaved clients: what holds of all reachable states of the system holds before and
  after \<^verbatim>\<open>pool_client::request\<close>, whether it returns or throws.
\<close>

theorem pool_client_request_refines:
  assumes "(i, Ready own) \<in> set (sy_clients s)"
    and "pool_client_request request connect (own, sy_pool s) msg = (r, own', p)" "\<And>e. r \<noteq> Inl e"
  shows "\<exists>F. pool_step\<^sup>*\<^sup>* s (set_phase i (Ready own') (s\<lparr>sy_pool := p, sy_failed := F\<rparr>))"
proof -
  define gp where "gp = (case own of Some m \<Rightarrow> (okE m, sy_pool s) | None \<Rightarrow> pool_impl_checkout connect (sy_pool s))"
  obtain got q where gq: "gp = (got, q)" by fastforce
  have nf: "got \<noteq> Inl e" for e
  proof
    assume "got = Inl e"
    with assms(2) gq have "r = Inl e" by (simp add: pool_client_request_def gp_def)
    with assms(3) show False by blast
  qed
  let ?s1 = "set_phase i (case got of Inr (Inr m) \<Rightarrow> Busy m | _ \<Rightarrow> Ready None) (s\<lparr>sy_pool := q\<rparr>)"
  have s1: "pool_step\<^sup>*\<^sup>* s ?s1"
  proof (cases own)
    case None
    then show ?thesis using ready_checkout [of i s connect got q] assms(1) nf gq by (simp add: gp_def)
  next
    case (Some m)
    then have "got = okE m" "q = sy_pool s" using gq by (simp_all add: gp_def)
    then show ?thesis using pool_step.use_held [of i m s] assms(1) Some by (auto simp: okE_def)
  qed
  have u: "pool_client_request request connect (own, sy_pool s) msg =
      (case got of Inl e \<Rightarrow> (Inl e, None, q) | Inr (Inl x) \<Rightarrow> (throwE x, None, q)
       | Inr (Inr m) \<Rightarrow> (case member_request request m msg of
           (Inr (Inl x), m) \<Rightarrow> (throwE x, None, member_destroy (Some m) q)
         | (r, m) \<Rightarrow> (r, Some m, q)))"
    using gq by (simp add: pool_client_request_def gp_def)
  show ?thesis
  proof (cases got rule: eres_cases)
    case (throw x)
    then have "own' = None" "p = q" using assms(2) u by (auto simp: throwE_def)
    with throw s1 show ?thesis by (auto simp: throwE_def intro!: exI [of _ "sy_failed s"])
  next
    case (ok m)
    obtain r' m' where rm: "member_request request m msg = (r', m')" by fastforce
    have r': "r' = r" "own' = (case r of Inr (Inr _) \<Rightarrow> Some m' | _ \<Rightarrow> None)"
      "p = (case r of Inr (Inr _) \<Rightarrow> q | _ \<Rightarrow> member_destroy (Some m') q)"
      using assms(2,3) u ok rm by (auto simp: okE_def throwE_def split: sum.splits)
    have busy: "(i, Busy m) \<in> set (sy_clients ?s1)" using ok by (simp add: okE_def)
    have sp: "sy_pool ?s1 = q" by simp
    have "\<And>e. r' \<noteq> Inl e" using assms(3) r'(1) by simp
    from busy_request [OF busy rm this] obtain F where
      "pool_step ?s1 (set_phase i (Ready own') (?s1\<lparr>sy_pool := p, sy_failed := F\<rparr>))"
      unfolding sp r' by blast
    with s1 show ?thesis by (auto intro: rtranclp.rtrancl_into_rtrancl)
  qed (use nf in simp)
qed

theorem pool_client_request_refines_witness:
  "\<exists>F. pool_step\<^sup>*\<^sup>* (set_phase 0 (Ready None) init_system :: nat system)
     (set_phase 0 (Ready (Some \<lparr>mi_serial = 1, mi_generation = 1, mi_perished = False, mi_client = 8\<rparr>))
       ((set_phase 0 (Ready None) init_system)\<lparr>sy_pool := \<lparr>cp_conn_ids = 2, cp_generation = 1, cp_idle = []\<rparr>,
          sy_failed := F\<rparr>))"
proof (rule pool_client_request_refines)
  show "(0, Ready None) \<in> set (sy_clients (set_phase 0 (Ready None) init_system :: nat system))" by simp
  show "pool_client_request (\<lambda>c (m :: nat). (okE m, c + 1)) (okE 7)
      (None, sy_pool (set_phase 0 (Ready None) init_system :: nat system)) 5 =
    (okE 5, Some \<lparr>mi_serial = 1, mi_generation = 1, mi_perished = False, mi_client = 8\<rparr>,
      \<lparr>cp_conn_ids = 2, cp_generation = 1, cp_idle = []\<rparr>)"
    by (simp add: init_system_def new_connection_pool_def pool_client_request_def pool_impl_checkout_def
        checkout_idle_def emplace_member_def) (simp add: okE_def member_request_def)
qed simp

text \<open>
  C24: in every reachable state of a connection pool and any number of clients, however their
  requests interleave, the connections that clients hold and those that are idle are pairwise
  different, none of them has perished, and none is one on which a request has failed: a failed
  connection is never used again and no connection is used by two clients.
\<close>

theorem pool_no_sharing_no_reuse:
  assumes "reachable s"
  shows "distinct (map mi_serial (all_conns s)) \<and>
    (\<forall>m \<in> set (all_conns s). \<not> mi_perished m \<and> mi_serial m \<notin> sy_failed s)"
proof -
  have "keys_ok (sys_keys s) (cp_conn_ids (sy_pool s)) (sy_failed s)"
    using reachable_inv [OF assms] by (simp add: sys_inv_def)
  moreover have "image_mset fst (sys_keys s) = mset (map mi_serial (all_conns s))"
    by (simp add: sys_keys_def conn_key_def comp_def multiset.map_comp)
  ultimately have "count (mset (map mi_serial (all_conns s))) x \<le> 1"
    "\<forall>m \<in> set (all_conns s). \<not> mi_perished m \<and> mi_serial m \<notin> sy_failed s" for x
    by (auto simp: keys_ok_def sys_keys_def conn_key_def)
  then show ?thesis
    using count_le_1 [of "map mi_serial (all_conns s)"] by blast
qed

text \<open>A client that has found no idle connection and has connected.\<close>

theorem pool_no_sharing_no_reuse_witness:
  "\<exists>s :: unit system. sy_failed s = {} \<and> map mi_serial (all_conns s) = [1] \<and>
     distinct (map mi_serial (all_conns s))"
proof -
  let ?s1 = "set_phase 0 (Ready None) init_system :: unit system"
  let ?s2 = "set_phase 0 Connecting ?s1"
  let ?m = "\<lparr>mi_serial = 1, mi_generation = 1, mi_perished = False, mi_client = ()\<rparr>"
  let ?p = "\<lparr>cp_conn_ids = 2, cp_generation = 1, cp_idle = []\<rparr>"
  let ?s3 = "set_phase 0 (Busy ?m) (?s2\<lparr>sy_pool := ?p\<rparr>)"
  have r1: "reachable ?s1"
    by (rule reachable.step [OF reachable.init]) (rule pool_step.new_client, simp add: init_system_def)
  have r2: "reachable ?s2"
    by (rule reachable.step [OF r1], rule pool_step.connect)
      (simp_all add: init_system_def new_connection_pool_def checkout_idle_def)
  have r3: "reachable ?s3"
  proof (rule reachable.step [OF r2], rule pool_step.connected [of 0 ?s2 "()" ?m ?p])
    have "sy_pool ?s2 = new_connection_pool" by (simp only: set_phase_facts init_system_def) simp
    then show "emplace_member () (sy_pool ?s2) = (?m, ?p)"
      by (simp only:) (simp add: emplace_member_def new_connection_pool_def)
  qed simp
  have c: "map mi_serial (all_conns ?s3) = [1]" "sy_failed ?s3 = {}"
    by (simp_all add: all_conns_def held_def init_system_def)
  have d: "distinct (map mi_serial (all_conns ?s3))"
    using pool_no_sharing_no_reuse [OF r3] by (rule conjunct1)
  show ?thesis
    by (intro exI [of _ ?s3] conjI) (rule c(2) c(1) d)+
qed

end
