(* ===== verification/Amongoc_Uri.thy ===== *)
theory Amongoc_Uri
  imports Amongoc_Status
begin

text \<open>
  Connection strings (\<^verbatim>\<open>src/amongoc/uri.hpp\<close>, \<^verbatim>\<open>uri.cpp\<close>). The URL is parsed by Boost.URL and split
  at commas by a tokenizer; both are third-party code and parameters: \<open>url_lib\<close> holds the parser,
  which gives an error or the parts of a URL, percent-decoding, and the tokenizer. Warnings that the
  code fires as formatted texts are values of \<open>uri_warning\<close>.

  The parameters are handled one after the other by a table of names and handlers, in the order of
  the chain of \<^verbatim>\<open>handle_param\<close> calls; a handler is a function on the state of the parser.
\<close>

section \<open>Parsed URLs\<close>

datatype host_type = Host_none | Host_name | Host_ipv4 | Host_ipv6 | Host_ipvfuture

record url_view =
  uv_scheme :: string
  uv_encoded_host :: string
  uv_host_type :: host_type
  uv_host :: string
  uv_ipv4 :: u32
  uv_ipv6 :: bytes
  uv_has_port :: bool
  uv_port :: string
  uv_port_number :: int
  uv_userinfo :: "(string \<times> string) option"
  uv_encoded_path :: string
  uv_path :: string
  uv_params :: "(string \<times> string) list"

datatype boost_category = Boost_system | Boost_generic | Boost_url_grammar | Boost_other

record url_lib =
  ul_parse_uri :: "string \<Rightarrow> (boost_category \<times> int) + url_view"
  ul_decode :: "string \<Rightarrow> string"
  ul_comma_split :: "string \<Rightarrow> string list"

definition status_einval :: amongoc_status where
  "status_einval = \<lparr>st_category = Generic, st_code = EINVAL\<rparr>"

definition boost_err_to_status :: "boost_category \<times> int \<Rightarrow> amongoc_status" where
  "boost_err_to_status ec =
     (case fst ec of
        Boost_system \<Rightarrow> \<lparr>st_category = System, st_code = snd ec\<rparr>
      | Boost_generic \<Rightarrow> \<lparr>st_category = Generic, st_code = snd ec\<rparr>
      | Boost_url_grammar \<Rightarrow> status_einval
      | Boost_other \<Rightarrow> \<lparr>st_category = Unknown, st_code = snd ec\<rparr>)"

section \<open>Connection parameters\<close>

datatype uri_address = V4_address u32 | V6_address bytes | Hostname string

record uri_host =
  uh_host :: uri_address
  uh_port :: int

record uri_auth =
  ua_username :: string
  ua_password :: string
  ua_database :: "string option"

datatype server_monitoring_mode = stream_mode | poll_mode | auto_mode

datatype w_value = W_string string | W_int int

record connection_params =
  p_appname :: "string option"
  p_authMechanism :: "string option"
  p_authMechanismProperties :: "(string \<times> string) list option"
  p_authSource :: "string option"
  p_compressors :: "string list"
  p_connectTimeoutMS :: "int option"
  p_directConnection :: "bool option"
  p_heartbeatFrequencyMS :: "int option"
  p_journal :: "bool option"
  p_loadBalanced :: "bool option"
  p_localThresholdMS :: "int option"
  p_maxConnecting :: "int option"
  p_maxIdleTimeMS :: "int option"
  p_maxPoolSize :: "int option"
  p_maxStalenessSeconds :: "int option"
  p_minPoolSize :: "int option"
  p_proxyHost :: "string option"
  p_proxyPort :: "int option"
  p_proxyUsername :: "string option"
  p_proxyPassword :: "string option"
  p_readConcernLevel :: "string option"
  p_readPreference :: "string option"
  p_readPreferenceTags :: "(string \<times> string) list list"
  p_replicaSet :: "string option"
  p_retryReads :: "bool option"
  p_retryWrites :: "bool option"
  p_serverMonitoringMode :: "server_monitoring_mode option"
  p_serverSelectionTimeoutMS :: "int option"
  p_serverSelectionTryOnce :: "bool option"
  p_timeoutMS :: "int option"
  p_socketTimeoutMS :: "int option"
  p_srvMaxHosts :: "int option"
  p_srvServiceName :: "string option"
  p_tls :: "bool option"
  p_tlsAllowInvalidCertificates :: "bool option"
  p_tlsAllowInvalidHostnames :: "bool option"
  p_tlsCAFile :: "string option"
  p_tlsCertificateKeyFile :: "string option"
  p_tlsCertificateKeyFilePassword :: "string option"
  p_tlsDisableCertificateRevocationCheck :: "bool option"
  p_tlsDisableOCSPEndpointCheck :: "bool option"
  p_tlsInsecure :: "bool option"
  p_w :: "w_value option"
  p_waitQueueTimeoutMS :: "int option"
  p_wTimeoutMS :: "int option"
  p_zlibCompressionLevel :: "int option"

definition no_params :: connection_params where
  "no_params =
     \<lparr>p_appname = None, p_authMechanism = None, p_authMechanismProperties = None, p_authSource = None,
      p_compressors = [], p_connectTimeoutMS = None, p_directConnection = None,
      p_heartbeatFrequencyMS = None, p_journal = None, p_loadBalanced = None, p_localThresholdMS = None,
      p_maxConnecting = None, p_maxIdleTimeMS = None, p_maxPoolSize = None, p_maxStalenessSeconds = None,
      p_minPoolSize = None, p_proxyHost = None, p_proxyPort = None, p_proxyUsername = None,
      p_proxyPassword = None, p_readConcernLevel = None, p_readPreference = None,
      p_readPreferenceTags = [], p_replicaSet = None, p_retryReads = None, p_retryWrites = None,
      p_serverMonitoringMode = None, p_serverSelectionTimeoutMS = None, p_serverSelectionTryOnce = None,
      p_timeoutMS = None, p_socketTimeoutMS = None, p_srvMaxHosts = None, p_srvServiceName = None,
      p_tls = None, p_tlsAllowInvalidCertificates = None, p_tlsAllowInvalidHostnames = None,
      p_tlsCAFile = None, p_tlsCertificateKeyFile = None, p_tlsCertificateKeyFilePassword = None,
      p_tlsDisableCertificateRevocationCheck = None, p_tlsDisableOCSPEndpointCheck = None,
      p_tlsInsecure = None, p_w = None, p_waitQueueTimeoutMS = None, p_wTimeoutMS = None,
      p_zlibCompressionLevel = None\<rparr>"

record connection_uri =
  cu_hosts :: "uri_host list"
  cu_auth :: "uri_auth option"
  cu_params :: connection_params

section \<open>Values of parameters\<close>

datatype uri_warning =
    Invalid_integer string string
  | Invalid_boolean string string
  | Out_of_range string int int int
  | Specified_again string
  | Unknown_parameter string

record parser_state =
  ps_params :: connection_params
  ps_warnings :: "uri_warning list"
  ps_status :: amongoc_status

definition fire :: "uri_warning \<Rightarrow> parser_state \<Rightarrow> parser_state" where
  "fire w s = s\<lparr>ps_warnings := ps_warnings s @ [w]\<rparr>"

definition set_params :: "(connection_params \<Rightarrow> connection_params) \<Rightarrow> parser_state \<Rightarrow> parser_state" where
  "set_params f s = s\<lparr>ps_params := f (ps_params s)\<rparr>"

text \<open>
  \<^verbatim>\<open>std::from_chars\<close> for \<^verbatim>\<open>int\<close>: an optional minus sign and the longest run of digits; what follows
  is ignored.
\<close>

datatype from_chars_result = Invalid_argument | Result_out_of_range | Parsed int

definition is_digit :: "char \<Rightarrow> bool" where
  "is_digit c \<longleftrightarrow> 48 \<le> (of_char c :: nat) \<and> (of_char c :: nat) \<le> 57"

definition digits_value :: "string \<Rightarrow> int" where
  "digits_value ds = fold (\<lambda>c acc. 10 * acc + (of_char c - 48)) ds 0"

definition from_chars :: "string \<Rightarrow> from_chars_result" where
  "from_chars s =
     (let neg = (s \<noteq> [] \<and> hd s = CHR ''-'');
          ds = takeWhile is_digit (if neg then tl s else s);
          v = (if neg then - digits_value ds else digits_value ds)
      in if ds = [] then Invalid_argument
         else if in_i32 v then Parsed v else Result_out_of_range)"

definition try_parse_int :: "string \<Rightarrow> string \<Rightarrow> parser_state \<Rightarrow> int option \<times> parser_state" where
  "try_parse_int key sv s =
     (case from_chars sv of
        Parsed v \<Rightarrow> (Some v, s) | _ \<Rightarrow> (None, fire (Invalid_integer key sv) s))"

definition bool_constant :: "string \<Rightarrow> bool option" where
  "bool_constant val =
     (if val = ''true'' then Some True
      else if val = ''false'' then Some False
      else if val \<in> set [''true'', ''1'', ''yes'', ''y'', ''t''] then Some True
      else if val \<in> set [''false'', ''0'', ''-1'', ''no'', ''n'', ''f''] then Some False
      else None)"

definition try_parse_bool :: "string \<Rightarrow> string \<Rightarrow> parser_state \<Rightarrow> bool option \<times> parser_state" where
  "try_parse_bool key val s =
     (case bool_constant val of
        Some b \<Rightarrow> (Some b, s) | None \<Rightarrow> (None, fire (Invalid_boolean key val) s))"

definition clamp_and_warn :: "string \<Rightarrow> int \<Rightarrow> int \<Rightarrow> int \<Rightarrow> parser_state \<Rightarrow> int \<times> parser_state" where
  "clamp_and_warn key lo hi ival s =
     (max lo (min ival hi), if ival < lo \<or> ival > hi then fire (Out_of_range key ival lo hi) s else s)"

text \<open>\<^verbatim>\<open>opt_fmap\<close> of a function that may fire warnings.\<close>

definition opt_fmap ::
  "('a \<Rightarrow> parser_state \<Rightarrow> 'b \<times> parser_state) \<Rightarrow> 'a option \<times> parser_state \<Rightarrow> 'b option \<times> parser_state" where
  "opt_fmap f r =
     (case r of (None, s) \<Rightarrow> (None, s) | (Some x, s) \<Rightarrow> (let (y, s) = f x s in (Some y, s)))"

definition try_parse_duration_ms :: "string \<Rightarrow> string \<Rightarrow> parser_state \<Rightarrow> int option \<times> parser_state" where
  "try_parse_duration_ms key sv s = opt_fmap (clamp_and_warn key 0 INT32_MAX) (try_parse_int key sv s)"

text \<open>
  \<^verbatim>\<open>opt_assign\<close>: a parameter field is given by its reader and its update. \<open>assign_opt\<close> is its
  application through \<^verbatim>\<open>opt_fmap\<close>.
\<close>

definition opt_assign ::
  "string \<Rightarrow> (connection_params \<Rightarrow> 'a option) \<Rightarrow> ('a option \<Rightarrow> connection_params \<Rightarrow> connection_params) \<Rightarrow>
   'a \<Rightarrow> parser_state \<Rightarrow> parser_state" where
  "opt_assign key field upd v s =
     set_params (upd (Some v))
       (if field (ps_params s) \<noteq> None then fire (Specified_again key) s else s)"

definition assign_opt ::
  "string \<Rightarrow> (connection_params \<Rightarrow> 'a option) \<Rightarrow> ('a option \<Rightarrow> connection_params \<Rightarrow> connection_params) \<Rightarrow>
   'a option \<times> parser_state \<Rightarrow> parser_state" where
  "assign_opt key field upd r =
     (case r of (None, s) \<Rightarrow> s | (Some v, s) \<Rightarrow> opt_assign key field upd v s)"

text \<open>
  \<^verbatim>\<open>parse_mapping\<close>: without a colon, \<^verbatim>\<open>col_pos + 1\<close> wraps around to zero and the value is the whole
  part. An association list with the first entry of each key.
\<close>

definition mapping_entry :: "(string \<Rightarrow> string) \<Rightarrow> string \<Rightarrow> string \<times> string" where
  "mapping_entry decode part =
     (let key = takeWhile (\<lambda>c. c \<noteq> CHR '':'') part;
          val = (if CHR '':'' \<in> set part then drop (length key + 1) part else part)
      in (decode key, decode val))"

definition parse_mapping :: "url_lib \<Rightarrow> string \<Rightarrow> (string \<times> string) list" where
  "parse_mapping lib sv =
     fold (\<lambda>part m. let (k, v) = mapping_entry (ul_decode lib) part in
             if k \<in> fst ` set m then m else m @ [(k, v)]) (ul_comma_split lib sv) []"

definition parse_seq :: "url_lib \<Rightarrow> string \<Rightarrow> string list" where
  "parse_seq lib sv = ul_comma_split lib sv"

definition handle_w :: "string \<Rightarrow> w_value" where
  "handle_w w =
     (case from_chars w of
        Parsed v \<Rightarrow> if v < 0 then W_string w else W_int v
      | _ \<Rightarrow> W_string w)"

definition toggle_tls :: "string \<Rightarrow> string \<Rightarrow> parser_state \<Rightarrow> parser_state" where
  "toggle_tls key sv s =
     (case try_parse_bool key sv s of
        (None, s) \<Rightarrow> s
      | (Some b, s) \<Rightarrow>
          let s = (case p_tls (ps_params s) of
                     Some b' \<Rightarrow> if b' \<noteq> b then s\<lparr>ps_status := status_einval\<rparr> else s
                   | None \<Rightarrow> s)
          in set_params (\<lambda>p. p\<lparr>p_tls := Some b\<rparr>) s)"

section \<open>The table of parameters\<close>

definition ascii_tolower :: "char \<Rightarrow> char" where
  "ascii_tolower c =
     (let n = of_char c :: nat in if 65 \<le> n \<and> n \<le> 90 then char_of (n + 32) else c)"

definition key_matches :: "string \<Rightarrow> string \<Rightarrow> bool" where
  "key_matches check_key key \<longleftrightarrow> map ascii_tolower check_key = map ascii_tolower key"

type_synonym handler = "url_lib \<Rightarrow> string \<Rightarrow> string \<Rightarrow> parser_state \<Rightarrow> parser_state"

definition string_handlers :: "(string \<times> handler) list" where
  "string_handlers =
    [(''appname'', \<lambda>lib key v s. opt_assign key p_appname (\<lambda>x p. p\<lparr>p_appname := x\<rparr>) v s),
     (''authMechanism'', \<lambda>lib key v s. opt_assign key p_authMechanism (\<lambda>x p. p\<lparr>p_authMechanism := x\<rparr>) v s),
     (''authMechanismProperties'', \<lambda>lib key v s.
        set_params (\<lambda>p. p\<lparr>p_authMechanismProperties := Some (parse_mapping lib v)\<rparr>) s),
     (''authSource'', \<lambda>lib key v s. opt_assign key p_authSource (\<lambda>x p. p\<lparr>p_authSource := x\<rparr>) v s)]"

definition early_handlers :: "(string \<times> handler) list" where
  "early_handlers =
    [(''connectTimeoutMS'', \<lambda>lib key v s.
        let (d, s) = try_parse_duration_ms key v s in set_params (\<lambda>p. p\<lparr>p_connectTimeoutMS := d\<rparr>) s),
     (''compressors'', \<lambda>lib key v s. set_params (\<lambda>p. p\<lparr>p_compressors := parse_seq lib v\<rparr>) s),
     (''directConnection'', \<lambda>lib key v s.
        assign_opt key p_directConnection (\<lambda>x p. p\<lparr>p_directConnection := x\<rparr>) (try_parse_bool key v s)),
     (''heartbeatFrequencyMS'', \<lambda>lib key v s.
        assign_opt key p_heartbeatFrequencyMS (\<lambda>x p. p\<lparr>p_heartbeatFrequencyMS := x\<rparr>)
          (opt_fmap (clamp_and_warn key 500 INT32_MAX) (try_parse_duration_ms key v s))),
     (''journal'', \<lambda>lib key v s.
        assign_opt key p_journal (\<lambda>x p. p\<lparr>p_journal := x\<rparr>) (try_parse_bool key v s)),
     (''loadBalanced'', \<lambda>lib key v s.
        assign_opt key p_loadBalanced (\<lambda>x p. p\<lparr>p_loadBalanced := x\<rparr>) (try_parse_bool key v s))]"

definition pool_handlers :: "(string \<times> handler) list" where
  "pool_handlers =
    [(''maxPoolSize'', \<lambda>lib key v s.
        assign_opt key p_maxPoolSize (\<lambda>x p. p\<lparr>p_maxPoolSize := x\<rparr>) (try_parse_int key v s)),
     (''minPoolSize'', \<lambda>lib key v s.
        assign_opt key p_minPoolSize (\<lambda>x p. p\<lparr>p_minPoolSize := x\<rparr>) (try_parse_int key v s)),
     (''maxIdleTimeMS'', \<lambda>lib key v s.
        assign_opt key p_maxIdleTimeMS (\<lambda>x p. p\<lparr>p_maxIdleTimeMS := x\<rparr>) (try_parse_duration_ms key v s)),
     (''replicaSet'', \<lambda>lib key v s. opt_assign key p_replicaSet (\<lambda>x p. p\<lparr>p_replicaSet := x\<rparr>) v s),
     (''readConcernLevel'', \<lambda>lib key v s.
        opt_assign key p_readConcernLevel (\<lambda>x p. p\<lparr>p_readConcernLevel := x\<rparr>) v s),
     (''readPreferenceTags'', \<lambda>lib key v s.
        set_params (\<lambda>p. p\<lparr>p_readPreferenceTags := p_readPreferenceTags p @ [parse_mapping lib v]\<rparr>) s)]"

definition late_handlers :: "(string \<times> handler) list" where
  "late_handlers =
    [(''tls'', \<lambda>lib key v s. toggle_tls key v s),
     (''tlsInsecure'', \<lambda>lib key v s.
        let (b, s) = try_parse_bool key v s in set_params (\<lambda>p. p\<lparr>p_tlsInsecure := b\<rparr>) s),
     (''timeoutMS'', \<lambda>lib key v s.
        assign_opt key p_timeoutMS (\<lambda>x p. p\<lparr>p_timeoutMS := x\<rparr>) (try_parse_duration_ms key v s)),
     (''ssl'', \<lambda>lib key v s. toggle_tls key v s),
     (''w'', \<lambda>lib key v s. opt_assign key p_w (\<lambda>x p. p\<lparr>p_w := x\<rparr>) (handle_w v) s),
     (''wTimeout'', \<lambda>lib key v s.
        assign_opt key p_wTimeoutMS (\<lambda>x p. p\<lparr>p_wTimeoutMS := x\<rparr>) (try_parse_duration_ms key v s)),
     (''wTimeoutMS'', \<lambda>lib key v s.
        assign_opt key p_wTimeoutMS (\<lambda>x p. p\<lparr>p_wTimeoutMS := x\<rparr>) (try_parse_duration_ms key v s)),
     (''zlibCompressionLevel'', \<lambda>lib key v s.
        assign_opt key p_zlibCompressionLevel (\<lambda>x p. p\<lparr>p_zlibCompressionLevel := x\<rparr>)
          (opt_fmap (clamp_and_warn key (- 1) 9) (try_parse_int key v s)))]"

definition param_handlers :: "(string \<times> handler) list" where
  "param_handlers = string_handlers @ early_handlers @ pool_handlers @ late_handlers"

definition handle_param :: "url_lib \<Rightarrow> string \<times> string \<Rightarrow> parser_state \<Rightarrow> parser_state" where
  "handle_param lib qp s =
     (case find (\<lambda>(check_key, _). key_matches check_key (fst qp)) param_handlers of
        Some (_, callback) \<Rightarrow> callback lib (fst qp) (snd qp) s
      | None \<Rightarrow> fire (Unknown_parameter (fst qp)) s)"

text \<open>The loop stops at the first hard error, which is the left result.\<close>

fun parse_params ::
  "platform \<Rightarrow> url_lib \<Rightarrow> (string \<times> string) list \<Rightarrow> parser_state \<Rightarrow> amongoc_status + parser_state" where
  "parse_params pf lib [] s = Inr s"
| "parse_params pf lib (qp # qps) s =
     (let s = handle_param lib qp s in
      if amongoc_is_error pf (ps_status s) then Inl (ps_status s) else parse_params pf lib qps s)"

section \<open>Parsing\<close>

definition parse_auth :: "url_view \<Rightarrow> uri_auth option" where
  "parse_auth got =
     (case uv_userinfo got of
        None \<Rightarrow> None
      | Some (user, password) \<Rightarrow>
          Some \<lparr>ua_username = user, ua_password = password,
            ua_database = (if uv_encoded_path got \<noteq> ''/'' \<and> uv_encoded_path got \<noteq> ''''
                           then Some (drop 1 (uv_path got)) else None)\<rparr>)"

text \<open>A host type that is not expected terminates the program.\<close>

definition parse_host :: "url_view \<Rightarrow> uri_host res" where
  "parse_host got =
     (let port = (if uv_has_port got then uv_port_number got else - 1) in
      case uv_host_type got of
        Host_name \<Rightarrow> Inr \<lparr>uh_host = Hostname (uv_host got), uh_port = port\<rparr>
      | Host_ipv4 \<Rightarrow> Inr \<lparr>uh_host = V4_address (uv_ipv4 got), uh_port = port\<rparr>
      | Host_ipv6 \<Rightarrow> Inr \<lparr>uh_host = V6_address (uv_ipv6 got), uh_port = port\<rparr>
      | _ \<Rightarrow> Inl Abort_called)"

definition new_parser :: parser_state where
  "new_parser = \<lparr>ps_params = no_params, ps_warnings = [], ps_status = amongoc_okay\<rparr>"

text \<open>\<^verbatim>\<open>connection_uri::parse\<close>: a status, or the connection parameters with the warnings fired.\<close>

definition connection_uri_parse ::
  "platform \<Rightarrow> url_lib \<Rightarrow> string \<Rightarrow> (amongoc_status + connection_uri \<times> uri_warning list) res" where
  "connection_uri_parse pf lib url =
     (case ul_parse_uri lib url of
        Inl err \<Rightarrow> Inr (Inl (boost_err_to_status err))
      | Inr got \<Rightarrow>
          if uv_scheme got \<noteq> ''mongodb'' then
            Inr (Inl (status_from pf \<lparr>ec_category = Cxx Generic, ec_value = EPROTONOSUPPORT\<rparr>))
          else if uv_encoded_host got = '''' then Inr (Inl status_einval)
          else if CHR ''/'' \<in> set (uv_encoded_host got) then Inr (Inl status_einval)
          else if uv_port got \<noteq> '''' \<and> uv_port_number got = 0 then Inr (Inl status_einval)
          else
            (case parse_params pf lib (uv_params got) new_parser of
               Inl st \<Rightarrow> Inr (Inl st)
             | Inr s \<Rightarrow>
                 bindR (parse_host got) (\<lambda>h.
                 Inr (Inr (\<lparr>cu_hosts = [h], cu_auth = parse_auth got, cu_params = ps_params s\<rparr>,
                           ps_warnings s)))))"

section \<open>Handlers\<close>

text \<open>
  What every handler does to a property of the parameters and to the status of the parser is shown
  once for the table, handler by handler, and lifted to the loop.
\<close>

lemmas parser_ops =
  fire_def set_params_def opt_assign_def assign_opt_def opt_fmap_def try_parse_bool_def
  try_parse_int_def try_parse_duration_ms_def clamp_and_warn_def

lemmas handler_tables =
  string_handlers_def early_handlers_def pool_handlers_def late_handlers_def

definition opt_in :: "int \<Rightarrow> int \<Rightarrow> int option \<Rightarrow> bool" where
  "opt_in lo hi x \<longleftrightarrow> (case x of None \<Rightarrow> True | Some v \<Rightarrow> lo \<le> v \<and> v \<le> hi)"

lemma opt_in_simps [simp]:
  "opt_in lo hi None" "opt_in lo hi (Some v) \<longleftrightarrow> lo \<le> v \<and> v \<le> hi"
  by (simp_all add: opt_in_def)

definition params_typed :: "connection_params \<Rightarrow> bool" where
  "params_typed p \<longleftrightarrow>
     opt_in 0 INT32_MAX (p_connectTimeoutMS p) \<and> opt_in 500 INT32_MAX (p_heartbeatFrequencyMS p) \<and>
     opt_in 0 INT32_MAX (p_maxIdleTimeMS p) \<and> opt_in 0 INT32_MAX (p_timeoutMS p) \<and>
     opt_in 0 INT32_MAX (p_wTimeoutMS p) \<and> opt_in (- 1) 9 (p_zlibCompressionLevel p) \<and>
     opt_in INT32_MIN INT32_MAX (p_maxPoolSize p) \<and> opt_in INT32_MIN INT32_MAX (p_minPoolSize p) \<and>
     (\<forall>w. p_w p = Some (W_int w) \<longrightarrow> 0 \<le> w \<and> w \<le> INT32_MAX)"

lemma from_chars_range: "from_chars s = Parsed v \<Longrightarrow> INT32_MIN \<le> v \<and> v \<le> INT32_MAX"
  by (auto simp: from_chars_def Let_def in_i32_def split: if_splits)

lemma handle_w_range: "handle_w s = W_int v \<Longrightarrow> 0 \<le> v \<and> v \<le> INT32_MAX"
  by (auto simp: handle_w_def split: from_chars_result.splits if_splits dest: from_chars_range)

text \<open>The parser's handlers, one by one: the shape of a table entry that keeps a property.\<close>

definition keeps :: "(connection_params \<Rightarrow> bool) \<Rightarrow> handler \<Rightarrow> bool" where
  "keeps P h \<longleftrightarrow> (\<forall>lib key v s. P (ps_params s) \<longrightarrow> P (ps_params (h lib key v s)))"

lemmas keeps_cases = keeps_def parser_ops params_typed_def Let_def split_beta

lemma string_handlers_typed: "list_all (\<lambda>(_, h). keeps params_typed h) string_handlers"
  by (simp add: string_handlers_def keeps_cases)

lemma early_handlers_typed: "list_all (\<lambda>(_, h). keeps params_typed h) early_handlers"
  by (auto simp: early_handlers_def keeps_cases split: from_chars_result.split option.split)

lemma pool_handlers_typed: "list_all (\<lambda>(_, h). keeps params_typed h) pool_handlers"
  by (auto simp: pool_handlers_def keeps_cases split: from_chars_result.split option.split
      dest: from_chars_range)

lemma late_handlers_typed: "list_all (\<lambda>(_, h). keeps params_typed h) late_handlers"
  by (auto simp: late_handlers_def toggle_tls_def keeps_cases
      split: from_chars_result.split option.split dest: handle_w_range)

lemma find_handler:
  assumes "list_all P hs" "find Q hs = Some x"
  shows "P x \<and> Q x"
  using assms by (auto simp: find_Some_iff list_all_iff)

lemma handle_param_typed:
  assumes "params_typed (ps_params s)"
  shows "params_typed (ps_params (handle_param lib qp s))"
proof -
  have "list_all (\<lambda>(_, h). keeps params_typed h) param_handlers"
    using string_handlers_typed early_handlers_typed pool_handlers_typed late_handlers_typed
    by (simp add: param_handlers_def)
  from find_handler [OF this] assms show ?thesis
    by (auto simp: handle_param_def fire_def keeps_def split: option.split)
qed

lemma parse_params_typed:
  "parse_params pf lib qps s = Inr s' \<Longrightarrow> params_typed (ps_params s) \<Longrightarrow> params_typed (ps_params s')"
  by (induction qps arbitrary: s) (auto simp: Let_def handle_param_typed split: if_splits)

section \<open>The TLS option\<close>

text \<open>
  The option has two names. \<open>tls_settings\<close> are the values that a list of parameters gives it, in
  order; values that are no boolean are left out, as the code only warns about them.
\<close>

definition is_tls_key :: "string \<Rightarrow> bool" where
  "is_tls_key key \<longleftrightarrow> key_matches ''tls'' key \<or> key_matches ''ssl'' key"

definition tls_settings :: "(string \<times> string) list \<Rightarrow> bool list" where
  "tls_settings qps = List.map_filter (\<lambda>(k, v). if is_tls_key k then bool_constant v else None) qps"

lemma tls_settings_simps [simp]:
  "tls_settings [] = []"
  "tls_settings ((k, v) # qps) =
     (case bool_constant v of
        Some b \<Rightarrow> if is_tls_key k then b # tls_settings qps else tls_settings qps
      | None \<Rightarrow> tls_settings qps)"
  by (auto simp: tls_settings_def map_filter_simps split: option.split)

definition leaves_tls :: "handler \<Rightarrow> bool" where
  "leaves_tls h \<longleftrightarrow> (\<forall>lib key v s. ps_status (h lib key v s) = ps_status s \<and>
     p_tls (ps_params (h lib key v s)) = p_tls (ps_params s))"

lemma handlers_leave_tls:
  "list_all (\<lambda>(ck, h). ck = ''tls'' \<or> ck = ''ssl'' \<or> leaves_tls h) param_handlers"
  by (simp add: param_handlers_def handler_tables leaves_tls_def parser_ops Let_def split_beta
      split: from_chars_result.split option.split)

lemma handle_param_other:
  assumes "\<not> is_tls_key k"
  shows "ps_status (handle_param lib (k, v) s) = ps_status s"
    "p_tls (ps_params (handle_param lib (k, v) s)) = p_tls (ps_params s)"
  using find_handler [OF handlers_leave_tls] assms
  by (fastforce simp: handle_param_def fire_def leaves_tls_def is_tls_key_def split: option.split)+

lemma lower_tls:
  "ascii_tolower CHR ''t'' = CHR ''t''" "ascii_tolower CHR ''l'' = CHR ''l''"
  "ascii_tolower CHR ''s'' = CHR ''s''"
  by (simp_all add: ascii_tolower_def)

lemma handle_param_tls:
  assumes "is_tls_key k"
  shows "handle_param lib (k, v) s = toggle_tls k v s"
proof -
  from assms have "map ascii_tolower k = ''tls'' \<or> map ascii_tolower k = ''ssl''"
    by (auto simp: is_tls_key_def key_matches_def ascii_tolower_def)
  then show ?thesis
  proof
    assume "map ascii_tolower k = ''tls''"
    then show ?thesis
      by (simp add: handle_param_def param_handlers_def handler_tables key_matches_def lower_tls)
  next
    assume "map ascii_tolower k = ''ssl''"
    then show ?thesis
      by (simp add: handle_param_def param_handlers_def handler_tables key_matches_def lower_tls)
  qed
qed

lemma is_error_simps [simp]:
  "amongoc_is_error pf status_einval" "\<not> amongoc_is_error pf amongoc_okay"
  by (simp_all add: amongoc_is_error_def status_einval_def amongoc_okay_def EINVAL_def errno_vtable_def)

lemma toggle_tls_cases:
  assumes "ps_status s = amongoc_okay"
  shows "case bool_constant v of
      None \<Rightarrow> ps_status (toggle_tls k v s) = amongoc_okay \<and>
        p_tls (ps_params (toggle_tls k v s)) = p_tls (ps_params s)
    | Some b \<Rightarrow> p_tls (ps_params (toggle_tls k v s)) = Some b \<and>
        ps_status (toggle_tls k v s) =
          (if p_tls (ps_params s) = Some (\<not> b) then status_einval else amongoc_okay)"
  using assms by (auto simp: toggle_tls_def parser_ops split: option.split)

text \<open>What one parameter does to the option, as a step on the values seen so far.\<close>

lemma handle_param_step:
  assumes "ps_status s = amongoc_okay"
  shows "set_option (p_tls (ps_params s)) \<union> set (tls_settings [(k, v)]) = UNIV \<and>
      ps_status (handle_param lib (k, v) s) = status_einval \<or>
    ps_status (handle_param lib (k, v) s) = amongoc_okay \<and>
      set_option (p_tls (ps_params (handle_param lib (k, v) s))) =
        set_option (p_tls (ps_params s)) \<union> set (tls_settings [(k, v)])"
proof (cases "is_tls_key k")
  case True
  from toggle_tls_cases [OF assms, of k v] show ?thesis
    by (cases "bool_constant v"; cases "p_tls (ps_params s)")
      (auto simp: handle_param_tls [OF True] True UNIV_bool)
next
  case False
  then have "tls_settings [(k, v)] = []" by (simp split: option.split)
  with assms handle_param_other [OF False] show ?thesis by simp
qed

lemma tls_settings_Cons: "tls_settings (qp # qps) = tls_settings [qp] @ tls_settings qps"
  by (cases qp) (simp split: option.split)

lemma parse_params_tls:
  assumes "ps_status s = amongoc_okay"
  shows "case parse_params pf lib qps s of
      Inl st \<Rightarrow> st = status_einval \<and> UNIV = set_option (p_tls (ps_params s)) \<union> set (tls_settings qps)
    | Inr s' \<Rightarrow> set_option (p_tls (ps_params s')) = set_option (p_tls (ps_params s)) \<union> set (tls_settings qps)"
  using assms
proof (induction qps arbitrary: s)
  case (Cons qp qps)
  obtain k v where qp: "qp = (k, v)" by fastforce
  let ?s = "handle_param lib qp s"
  from handle_param_step [OF Cons.prems, of k v lib] show ?case
  proof (elim disjE conjE)
    assume "set_option (p_tls (ps_params s)) \<union> set (tls_settings [(k, v)]) = UNIV"
      "ps_status (handle_param lib (k, v) s) = status_einval"
    then show ?thesis by (simp add: qp tls_settings_Cons [of "(k, v)" qps] Un_assoc [symmetric] del: tls_settings_simps)
  next
    assume *: "ps_status (handle_param lib (k, v) s) = amongoc_okay"
      "set_option (p_tls (ps_params (handle_param lib (k, v) s))) =
        set_option (p_tls (ps_params s)) \<union> set (tls_settings [(k, v)])"
    from Cons.IH [OF *(1)] show ?thesis
      by (simp add: qp tls_settings_Cons [of "(k, v)" qps] * Un_assoc del: tls_settings_simps
          split: sum.splits)
  qed
qed simp

section \<open>Properties\<close>

text \<open>
  The values of \<^verbatim>\<open>tls\<close> and \<^verbatim>\<open>ssl\<close> decide the TLS option and nothing else does. The parameters are
  refused, with \<^verbatim>\<open>EINVAL\<close>, exactly when both boolean values occur, wherever they stand; otherwise the
  option is set to the one value that occurs, or not set when none does. No other parameter is ever
  refused.
\<close>

theorem uri_tls_agreement:
  "case parse_params pf lib qps new_parser of
     Inl st \<Rightarrow> st = status_einval \<and> set (tls_settings qps) = {True, False}
   | Inr s \<Rightarrow> set (tls_settings qps) = set_option (p_tls (ps_params s))"
proof -
  have s: "ps_status new_parser = amongoc_okay" "p_tls (ps_params new_parser) = None"
    by (simp_all add: new_parser_def no_params_def)
  show ?thesis
    using parse_params_tls [OF s(1), where pf = pf and lib = lib and qps = qps]
    by (auto simp: UNIV_bool s(2) split: sum.splits)
qed

text \<open>
  C27: whatever a connection string asks for, the parameters of a parsed one lie in the ranges the
  driver supports: timeouts are not negative and fit an \<^verbatim>\<open>int\<close>, the heartbeat is at least 500
  milliseconds, the compression level is between -1 and 9, and a numeric write concern is not
  negative.
\<close>

theorem uri_params_typed:
  assumes "connection_uri_parse pf lib url = Inr (Inr (u, ws))"
  shows "params_typed (cu_params u)"
proof -
  have "params_typed (ps_params new_parser)"
    by (simp add: new_parser_def no_params_def params_typed_def)
  note typed = parse_params_typed [OF _ this]
  from assms show ?thesis
    by (auto simp: connection_uri_parse_def bindR_eq_Inr typed split: sum.splits if_splits)
qed

text \<open>
  A library of the shape the code expects, on one URL.
\<close>

definition example_url :: "string \<Rightarrow> (string \<times> string) list \<Rightarrow> url_view" where
  "example_url host params =
     \<lparr>uv_scheme = ''mongodb'', uv_encoded_host = host, uv_host_type = Host_name, uv_host = host,
      uv_ipv4 = 0, uv_ipv6 = [], uv_has_port = True, uv_port = ''27017'', uv_port_number = 27017,
      uv_userinfo = None, uv_encoded_path = ''/'', uv_path = ''/'', uv_params = params\<rparr>"

definition example_lib :: "url_view \<Rightarrow> url_lib" where
  "example_lib got = \<lparr>ul_parse_uri = \<lambda>_. Inr got, ul_decode = id, ul_comma_split = \<lambda>s. [s]\<rparr>"

lemma example_heartbeat:
  "connection_uri_parse pf (example_lib (example_url ''db'' [(''heartbeatFrequencyMS'', ''7'')])) url =
     Inr (Inr (\<lparr>cu_hosts = [\<lparr>uh_host = Hostname ''db'', uh_port = 27017\<rparr>], cu_auth = None,
       cu_params = no_params\<lparr>p_heartbeatFrequencyMS := Some 500\<rparr>\<rparr>,
       [Out_of_range ''heartbeatFrequencyMS'' 7 500 INT32_MAX]))"
  by (simp add: connection_uri_parse_def example_lib_def example_url_def parse_host_def parse_auth_def
      handle_param_def param_handlers_def handler_tables key_matches_def ascii_tolower_def parser_ops
      new_parser_def no_params_def from_chars_def is_digit_def digits_value_def in_i32_def)

theorem uri_params_typed_witness:
  "params_typed (no_params\<lparr>p_heartbeatFrequencyMS := Some 500\<rparr>)"
  using uri_params_typed [OF example_heartbeat] by simp

text \<open>
  Parsing a connection string has three outcomes. It returns a status that is an error; or it
  returns a URI with exactly one host, whose port is zero only when the string has a colon and no
  digits after it, which the check for zero ports lets pass; or it terminates the program, for a
  host that is neither a name nor an IPv4 or IPv6 address. The library's part of this is that it
  reports failure with a code that is not zero.
\<close>

theorem uri_parse_outcomes:
  assumes "\<And>e. ul_parse_uri lib url = Inl e \<Longrightarrow> snd e \<noteq> 0"
  shows "case connection_uri_parse pf lib url of
      Inl f \<Rightarrow> f = Abort_called \<and>
        (\<exists>got. ul_parse_uri lib url = Inr got \<and> uv_host_type got \<in> {Host_none, Host_ipvfuture})
    | Inr (Inl st) \<Rightarrow> amongoc_is_error pf st
    | Inr (Inr (u, ws)) \<Rightarrow> \<exists>got h. ul_parse_uri lib url = Inr got \<and> cu_hosts u = [h] \<and>
        (uh_port h = 0 \<longleftrightarrow> uv_has_port got \<and> uv_port got = [] \<and> uv_port_number got = 0)"
proof (cases "ul_parse_uri lib url")
  case (Inl e)
  then show ?thesis
    using assms [OF Inl]
    by (auto simp: connection_uri_parse_def boost_err_to_status_def amongoc_is_error_def plain_vtable_def
        errno_vtable_def status_einval_def EINVAL_def split: boost_category.split)
next
  case (Inr got)
  have "amongoc_is_error pf (status_from pf \<lparr>ec_category = Cxx Generic, ec_value = EPROTONOSUPPORT\<rparr>)"
    by (simp add: status_from_def library_categories_def amongoc_is_error_def errno_vtable_def EPROTONOSUPPORT_def)
  moreover have "case parse_params pf lib (uv_params got) new_parser of Inl st \<Rightarrow> st = status_einval | Inr _ \<Rightarrow> True"
    using parse_params_tls [of new_parser, where pf = pf and lib = lib and qps = "uv_params got"]
    by (simp add: new_parser_def split: sum.splits)
  ultimately show ?thesis
    using Inr
    by (cases "uv_host_type got")
      (auto simp: connection_uri_parse_def parse_host_def Let_def split: sum.splits)
qed

theorem uri_parse_outcomes_witness:
  "\<forall>pf. \<exists>u ws. connection_uri_parse pf
       (example_lib ((example_url ''db'' [])\<lparr>uv_port := [], uv_port_number := 0\<rparr>)) ''mongodb://db:/'' =
     Inr (Inr (u, ws)) \<and> map uh_port (cu_hosts u) = [0]"
proof
  fix pf
  let ?got = "(example_url ''db'' [])\<lparr>uv_port := [], uv_port_number := 0\<rparr>"
  let ?u = "\<lparr>cu_hosts = [\<lparr>uh_host = Hostname ''db'', uh_port = 0\<rparr>], cu_auth = None, cu_params = no_params\<rparr>"
  have parse: "connection_uri_parse pf (example_lib ?got) ''mongodb://db:/'' = Inr (Inr (?u, []))"
    by (simp add: connection_uri_parse_def example_lib_def example_url_def parse_host_def parse_auth_def
        new_parser_def)
  have got: "ul_parse_uri (example_lib ?got) url = Inr ?got" for url by (simp add: example_lib_def)
  have "map uh_port (cu_hosts ?u) = [0]"
    using uri_parse_outcomes [of "example_lib ?got" "''mongodb://db:/''" pf]
    by (simp add: parse got example_url_def)
  with parse show "\<exists>u ws. connection_uri_parse pf (example_lib ?got) ''mongodb://db:/'' = Inr (Inr (u, ws)) \<and>
      map uh_port (cu_hosts u) = [0]" by (intro exI [of _ ?u] exI [of _ "[]"] conjI)
qed

end
