(* ===== verification/Amongoc_Chain.thy ===== *)
theory Amongoc_Chain
  imports Amongoc_Prelude
begin

text \<open>
  Intrusive lists, as \<^verbatim>\<open>event_emitter.hpp\<close> and \<^verbatim>\<open>nano/stop.hpp\<close> have them: the list's owner points
  to the first node, every node to the next one, and every node also to the pointer that points to
  it, which is the owner's head or the next-pointer of the node before. A \<open>slot\<close> is the address of
  such a pointer. Nodes live in a map from addresses; a node that has been destroyed is not in the
  map, and an access to it is the fault \<open>Out_of_bounds\<close>.

  \<open>chain_rep s as\<close> says that the pointers of \<open>s\<close> form the list \<open>as\<close>. The locale \<open>intrusive_list\<close> is the
  contract of the two splices that both classes write out; scripts of registrations and removals are
  treated once in it.
\<close>

section \<open>Nodes and slots\<close>

type_synonym addr = nat

datatype slot = Head | Next_of addr

record node =
  nd_next :: "addr option"
  nd_prev :: "slot option"

record 'n chain =
  ch_head :: "addr option"
  ch_nodes :: "addr \<rightharpoonup> 'n"

definition get_node :: "addr \<Rightarrow> 'n chain \<Rightarrow> 'n res" where
  "get_node a s = (case ch_nodes s a of None \<Rightarrow> Inl Out_of_bounds | Some n \<Rightarrow> Inr n)"

definition put_node :: "addr \<Rightarrow> ('n \<Rightarrow> 'n) \<Rightarrow> 'n chain \<Rightarrow> 'n chain res" where
  "put_node a f s = bindR (get_node a s) (\<lambda>n. Inr (s\<lparr>ch_nodes := (ch_nodes s)(a \<mapsto> f n)\<rparr>))"

definition set_slot :: "slot \<Rightarrow> addr option \<Rightarrow> 'a node_scheme chain \<Rightarrow> 'a node_scheme chain res" where
  "set_slot sl v s =
     (case sl of
        Head \<Rightarrow> Inr (s\<lparr>ch_head := v\<rparr>)
      | Next_of a \<Rightarrow> put_node a (nd_next_update (\<lambda>_. v)) s)"

definition set_prev :: "addr option \<Rightarrow> slot option \<Rightarrow> 'a node_scheme chain \<Rightarrow> 'a node_scheme chain res" where
  "set_prev p sl s =
     (case p of None \<Rightarrow> Inr s | Some a \<Rightarrow> put_node a (nd_prev_update (\<lambda>_. sl)) s)"

section \<open>The list that the pointers form\<close>

text \<open>
  \<open>segment ns sl v as sl' v'\<close>: the nodes \<open>as\<close> hang on the pointer at \<open>sl\<close>, whose value is \<open>v\<close>, and the
  pointer at \<open>sl'\<close> behind the last of them has the value \<open>v'\<close>.
\<close>

fun segment ::
  "(addr \<rightharpoonup> 'a node_scheme) \<Rightarrow> slot \<Rightarrow> addr option \<Rightarrow> addr list \<Rightarrow> slot \<Rightarrow> addr option \<Rightarrow> bool" where
  "segment ns sl v [] sl' v' \<longleftrightarrow> sl' = sl \<and> v' = v"
| "segment ns sl v (a # as) sl' v' \<longleftrightarrow> v = Some a \<and>
     (case ns a of
        None \<Rightarrow> False
      | Some n \<Rightarrow> nd_prev n = Some sl \<and> segment ns (Next_of a) (nd_next n) as sl' v')"

definition last_slot :: "slot \<Rightarrow> addr list \<Rightarrow> slot" where
  "last_slot sl as = (if as = [] then sl else Next_of (last as))"

definition chain_rep :: "'a node_scheme chain \<Rightarrow> addr list \<Rightarrow> bool" where
  "chain_rep s as \<longleftrightarrow>
     distinct as \<and> segment (ch_nodes s) Head (ch_head s) as (last_slot Head as) None"

lemma last_slot_simps [simp]:
  "last_slot sl [] = sl" "last_slot sl (a # as) = last_slot (Next_of a) as"
  "last_slot sl (xs @ ys) = last_slot (last_slot sl xs) ys"
  by (auto simp: last_slot_def)

lemma segment_append:
  "segment ns sl v (xs @ ys) sl2 v2 \<longleftrightarrow>
     (\<exists>v1. segment ns sl v xs (last_slot sl xs) v1 \<and> segment ns (last_slot sl xs) v1 ys sl2 v2)"
  by (induction ns sl v xs sl2 v2 rule: segment.induct)
    (auto simp: last_slot_def split: option.splits)

lemma segment_frame [simp]:
  "a \<notin> set as \<Longrightarrow> segment (ns(a := x)) sl v as sl' v' \<longleftrightarrow> segment ns sl v as sl' v'"
  by (induction ns sl v as sl' v' rule: segment.induct) (auto split: option.splits)

lemma segment_cong:
  "(\<And>a. a \<in> set as \<Longrightarrow> ns a = ns' a) \<Longrightarrow> segment ns sl v as sl' v' \<longleftrightarrow> segment ns' sl v as sl' v'"
  by (induction as arbitrary: sl v) (auto split: option.splits)

lemma segment_alive: "segment ns sl v as sl' v' \<Longrightarrow> a \<in> set as \<Longrightarrow> ns a \<noteq> None"
  by (induction ns sl v as sl' v' rule: segment.induct) (auto split: option.splits)

lemma segment_prev: "segment ns sl v as sl' v' \<Longrightarrow> a \<in> set as \<Longrightarrow> ns a = Some n \<Longrightarrow> nd_prev n \<noteq> None"
  by (induction ns sl v as sl' v' rule: segment.induct) (auto split: option.splits)

text \<open>Writing the pointer behind the last node, and the back-pointer of the first node.\<close>

lemma segment_set_next:
  assumes "segment ns sl v (xs @ [b]) sl' v'" "distinct (xs @ [b])" "ns b = Some n"
  shows "segment (ns(b \<mapsto> n\<lparr>nd_next := w\<rparr>)) sl v (xs @ [b]) (Next_of b) w"
  using assms by (auto simp: segment_append)

lemma segment_set_prev:
  assumes "segment ns sl (Some c) (c # cs) sl2 v2" "distinct (c # cs)" "ns c = Some n"
  shows "segment (ns(c \<mapsto> n\<lparr>nd_prev := Some sl'\<rparr>)) sl' (Some c) (c # cs) sl2 v2"
  using assms by simp

section \<open>Splices\<close>

text \<open>
  \<open>insert_front\<close>, \<open>unlink\<close> and \<open>pop_front\<close> are the three splices; the classes that use them write
  their steps in different orders and are shown to agree with these.
\<close>

definition insert_front :: "addr \<Rightarrow> 'a node_scheme chain \<Rightarrow> 'a node_scheme chain res" where
  "insert_front a s =
     bindR (put_node a (\<lambda>n. n\<lparr>nd_next := ch_head s, nd_prev := Some Head\<rparr>) s) (\<lambda>s.
     bindR (set_prev (ch_head s) (Some (Next_of a)) s) (\<lambda>s.
     Inr (s\<lparr>ch_head := Some a\<rparr>)))"

definition unlink :: "addr \<Rightarrow> slot \<Rightarrow> 'a node_scheme chain \<Rightarrow> 'a node_scheme chain res" where
  "unlink a prev s =
     bindR (get_node a s) (\<lambda>n.
     bindR (set_slot prev (nd_next n) s) (\<lambda>s.
     set_prev (nd_next n) (Some prev) s))"

text \<open>Nodes that are not in the list, and the further fields of all nodes, are left alone.\<close>

definition only_links :: "addr set \<Rightarrow> 'a node_scheme chain \<Rightarrow> 'a node_scheme chain \<Rightarrow> bool" where
  "only_links A s s' \<longleftrightarrow> (\<forall>a. a \<notin> A \<longrightarrow> ch_nodes s' a = ch_nodes s a) \<and>
     (\<forall>a. map_option node.more (ch_nodes s' a) = map_option node.more (ch_nodes s a))"

lemma insert_front_rep:
  assumes "chain_rep s as" "ch_nodes s a = Some n" "a \<notin> set as"
  shows "\<exists>s'. insert_front a s = Inr s' \<and> chain_rep s' (a # as) \<and> only_links (insert a (set as)) s s'"
proof (cases as)
  case Nil
  with assms show ?thesis
    by (auto simp: insert_front_def put_node_def get_node_def set_prev_def chain_rep_def last_slot_def
        only_links_def)
next
  case (Cons c cs)
  with assms obtain m where "ch_nodes s c = Some m" "nd_prev m = Some Head" "ch_head s = Some c"
    "segment (ch_nodes s) (Next_of c) (nd_next m) cs (last_slot Head as) None" "distinct as"
    by (auto simp: chain_rep_def split: option.splits)
  with assms Cons show ?thesis
    by (auto simp: insert_front_def put_node_def get_node_def set_prev_def chain_rep_def last_slot_def
        only_links_def)
qed

lemma only_links_refl [simp]: "only_links A s s"
  by (simp add: only_links_def)

lemma only_links_trans:
  "only_links A s t \<Longrightarrow> only_links B t u \<Longrightarrow> A \<subseteq> C \<Longrightarrow> B \<subseteq> C \<Longrightarrow> only_links C s u"
  by (simp add: only_links_def subset_iff) metis

lemma only_links_dom: "only_links A s s' \<Longrightarrow> dom (ch_nodes s') = dom (ch_nodes s)"
  by (simp add: only_links_def dom_def set_eq_iff) (metis map_option_is_None not_None_eq)

lemma segment_only_links:
  assumes "only_links A s s'" "A \<inter> set as = {}"
  shows "segment (ch_nodes s') sl v as sl' v' \<longleftrightarrow> segment (ch_nodes s) sl v as sl' v'"
  using assms by (intro segment_cong) (auto simp: only_links_def)

text \<open>The two writes of \<open>unlink\<close>, on the nodes before and behind the one that is taken out.\<close>

lemma set_slot_segment:
  assumes "segment (ch_nodes s) Head (ch_head s) xs (last_slot Head xs) v1" "distinct xs"
  shows "\<exists>s'. set_slot (last_slot Head xs) w s = Inr s' \<and>
    segment (ch_nodes s') Head (ch_head s') xs (last_slot Head xs) w \<and> only_links (set xs) s s'"
proof (cases xs rule: rev_cases)
  case Nil
  then show ?thesis by (simp add: set_slot_def last_slot_def only_links_def)
next
  case (snoc zs b)
  with assms obtain n where n: "ch_nodes s b = Some n"
    using segment_alive [of "ch_nodes s" Head "ch_head s" xs] by fastforce
  with snoc assms segment_set_next [of "ch_nodes s" Head "ch_head s" zs b "Next_of b" v1 n w]
  show ?thesis
    by (simp add: set_slot_def put_node_def get_node_def last_slot_def only_links_def)
qed

lemma set_prev_segment:
  assumes "segment (ch_nodes s) sl v ys sl2 None" "distinct ys" "sl2 = last_slot sl ys"
  shows "\<exists>s'. set_prev v (Some sl') s = Inr s' \<and> ch_head s' = ch_head s \<and>
    segment (ch_nodes s') sl' v ys (last_slot sl' ys) None \<and> only_links (set ys) s s'"
proof (cases ys)
  case Nil
  with assms show ?thesis by (simp add: set_prev_def last_slot_def)
next
  case (Cons c cs)
  with assms obtain n where n: "ch_nodes s c = Some n" "v = Some c" by (auto split: option.splits)
  with Cons assms show ?thesis
    by (auto simp: set_prev_def put_node_def get_node_def last_slot_def only_links_def)
qed

lemma unlink_rep:
  assumes "chain_rep s (xs @ a # ys)"
  shows "\<exists>n s'. ch_nodes s a = Some n \<and> nd_prev n = Some (last_slot Head xs) \<and>
    unlink a (last_slot Head xs) s = Inr s' \<and> chain_rep s' (xs @ ys) \<and> only_links (set xs \<union> set ys) s s'"
proof -
  from assms obtain v1 n where n: "ch_nodes s a = Some n" "nd_prev n = Some (last_slot Head xs)"
    and xs: "segment (ch_nodes s) Head (ch_head s) xs (last_slot Head xs) v1"
    and ys: "segment (ch_nodes s) (Next_of a) (nd_next n) ys (last_slot (Next_of a) ys) None"
    and d: "distinct (xs @ a # ys)"
    by (auto simp: chain_rep_def segment_append split: option.splits)
  from set_slot_segment [OF xs, of "nd_next n"] d obtain s1 where s1:
    "set_slot (last_slot Head xs) (nd_next n) s = Inr s1" "only_links (set xs) s s1"
    "segment (ch_nodes s1) Head (ch_head s1) xs (last_slot Head xs) (nd_next n)" by auto
  have "segment (ch_nodes s1) (Next_of a) (nd_next n) ys (last_slot (Next_of a) ys) None"
    using ys segment_only_links [OF s1(2)] d by auto
  from set_prev_segment [OF this, of "last_slot Head xs"] d obtain s2 where s2:
    "set_prev (nd_next n) (Some (last_slot Head xs)) s1 = Inr s2" "ch_head s2 = ch_head s1"
    "segment (ch_nodes s2) (last_slot Head xs) (nd_next n) ys (last_slot (last_slot Head xs) ys) None"
    "only_links (set ys) s1 s2" by auto
  have "segment (ch_nodes s2) Head (ch_head s2) xs (last_slot Head xs) (nd_next n)"
    using s1(3) s2(2) segment_only_links [OF s2(4), of xs] d by (simp add: Int_commute)
  with s2(3) d have "chain_rep s2 (xs @ ys)"
    by (auto simp: chain_rep_def segment_append last_slot_def split: if_splits)
  moreover have "only_links (set xs \<union> set ys) s s2"
    using s1(2) s2(4) by (rule only_links_trans) auto
  ultimately show ?thesis
    using n s1(1) s2(1) by (simp add: unlink_def get_node_def)
qed

definition pop_front :: "'a node_scheme chain \<Rightarrow> (addr option \<times> 'a node_scheme chain) res" where
  "pop_front s =
     (case ch_head s of
        None \<Rightarrow> Inr (None, s)
      | Some a \<Rightarrow>
          bindR (put_node a (nd_prev_update (\<lambda>_. None)) s) (\<lambda>s.
          bindR (get_node a s) (\<lambda>n.
          bindR (set_prev (nd_next n) (Some Head) (s\<lparr>ch_head := nd_next n\<rparr>)) (\<lambda>s.
          Inr (Some a, s)))))"

lemma pop_front_rep:
  assumes "chain_rep s (a # as)"
  shows "\<exists>s' n. pop_front s = Inr (Some a, s') \<and> chain_rep s' as \<and> only_links (set (a # as)) s s' \<and>
    ch_nodes s' a = Some n \<and> nd_prev n = None"
proof -
  from assms obtain n where n: "ch_head s = Some a" "ch_nodes s a = Some n" "distinct (a # as)"
    "segment (ch_nodes s) (Next_of a) (nd_next n) as (last_slot (Next_of a) as) None"
    by (auto simp: chain_rep_def split: option.splits)
  let ?s = "s\<lparr>ch_nodes := (ch_nodes s)(a \<mapsto> n\<lparr>nd_prev := None\<rparr>), ch_head := nd_next n\<rparr>"
  from n have "segment (ch_nodes ?s) (Next_of a) (nd_next n) as (last_slot (Next_of a) as) None" by simp
  from set_prev_segment [OF this, of Head] n(3) obtain s' where s':
    "set_prev (nd_next n) (Some Head) ?s = Inr s'" "ch_head s' = nd_next n"
    "segment (ch_nodes s') Head (nd_next n) as (last_slot Head as) None" "only_links (set as) ?s s'" by auto
  have "only_links {a} s ?s" using n by (simp add: only_links_def)
  with s'(4) have "only_links (set (a # as)) s s'" by (auto intro: only_links_trans)
  moreover have "ch_nodes s' a = Some (n\<lparr>nd_prev := None\<rparr>)" using s'(4) n(3) by (simp add: only_links_def)
  ultimately show ?thesis
    using n s' by (simp add: pop_front_def put_node_def get_node_def chain_rep_def)
qed

section \<open>The contract of the splices\<close>

text \<open>
  What a class that keeps its members in an intrusive list relies on: a new member goes to the front,
  and a member that is taken out leaves the others in their order.
\<close>

locale intrusive_list =
  fixes attach detach :: "addr \<Rightarrow> 'a node_scheme chain \<Rightarrow> 'a node_scheme chain res"
  assumes attach_rep: "chain_rep s as \<Longrightarrow> ch_nodes s a \<noteq> None \<Longrightarrow> a \<notin> set as \<Longrightarrow>
      \<exists>s'. attach a s = Inr s' \<and> chain_rep s' (a # as) \<and> only_links (insert a (set as)) s s'"
    and detach_rep: "chain_rep s as \<Longrightarrow> a \<in> set as \<Longrightarrow>
      \<exists>s'. detach a s = Inr s' \<and> chain_rep s' (remove1 a as) \<and> only_links (set as) s s'"
begin

text \<open>
  Objects come and go: a script creates a node and attaches it, or detaches a node and destroys it.
  Run on the pointers it never touches a node that is gone, and the list holds the nodes that are
  there, the latest first.
\<close>

definition create :: "addr \<Rightarrow> 'a node_scheme \<Rightarrow> 'a node_scheme chain \<Rightarrow> 'a node_scheme chain res" where
  "create a n s = attach a (s\<lparr>ch_nodes := (ch_nodes s)(a \<mapsto> n)\<rparr>)"

definition destroy :: "addr \<Rightarrow> 'a node_scheme chain \<Rightarrow> 'a node_scheme chain res" where
  "destroy a s = bindR (detach a s) (\<lambda>s. Inr (s\<lparr>ch_nodes := (ch_nodes s)(a := None)\<rparr>))"

definition live :: "'a node_scheme chain \<Rightarrow> addr list \<Rightarrow> bool" where
  "live s as \<longleftrightarrow> chain_rep s as \<and> dom (ch_nodes s) = set as"

lemma create_live:
  assumes "live s as" "a \<notin> set as"
  shows "\<exists>s'. create a n s = Inr s' \<and> live s' (a # as)"
proof -
  let ?s = "s\<lparr>ch_nodes := (ch_nodes s)(a \<mapsto> n)\<rparr>"
  have "chain_rep ?s as" using assms by (simp add: live_def chain_rep_def)
  from attach_rep [OF this _ assms(2)] obtain s' where
    "attach a ?s = Inr s'" "chain_rep s' (a # as)" "only_links (insert a (set as)) ?s s'" by auto
  with assms only_links_dom [of _ ?s s'] show ?thesis by (auto simp: create_def live_def)
qed

lemma destroy_live:
  assumes "live s as" "a \<in> set as"
  shows "\<exists>s'. destroy a s = Inr s' \<and> live s' (remove1 a as)"
proof -
  from assms have r: "chain_rep s as" "distinct as" by (auto simp: live_def chain_rep_def)
  from detach_rep [OF r(1) assms(2)] obtain s' where s':
    "detach a s = Inr s'" "chain_rep s' (remove1 a as)" "only_links (set as) s s'" by blast
  have "chain_rep (s'\<lparr>ch_nodes := (ch_nodes s')(a := None)\<rparr>) (remove1 a as)"
    using s'(2) r(2) by (simp add: chain_rep_def)
  with s' assms r(2) only_links_dom [OF s'(3)] show ?thesis
    by (auto simp: destroy_def live_def)
qed

end

text \<open>The generic splices satisfy the contract.\<close>

definition detach_node :: "addr \<Rightarrow> 'a node_scheme chain \<Rightarrow> 'a node_scheme chain res" where
  "detach_node a s =
     bindR (get_node a s) (\<lambda>n. case nd_prev n of None \<Rightarrow> Inl Out_of_bounds | Some sl \<Rightarrow> unlink a sl s)"

lemma detach_node_rep:
  assumes "chain_rep s as" "a \<in> set as"
  shows "\<exists>s'. detach_node a s = Inr s' \<and> chain_rep s' (remove1 a as) \<and> only_links (set as) s s'"
proof -
  from assms(2) obtain xs ys where as: "as = xs @ a # ys" "a \<notin> set xs" by (meson split_list_first)
  from unlink_rep [of s xs a ys] assms(1) obtain n s' where
    "ch_nodes s a = Some n" "nd_prev n = Some (last_slot Head xs)" "unlink a (last_slot Head xs) s = Inr s'"
    "chain_rep s' (xs @ ys)" "only_links (set xs \<union> set ys) s s'"
    by (auto simp: as)
  with as show ?thesis
    by (auto simp: detach_node_def get_node_def remove1_append only_links_def)
qed

end
