(* ===== verification/Amongoc_Events.thy ===== *)
theory Amongoc_Events
  imports Amongoc_Chain
begin

text \<open>
  Event emitters (\<^verbatim>\<open>src/amongoc/event_emitter.hpp\<close>): listeners in an intrusive list, which they enter
  when they are constructed and leave when they are destroyed. The function of a listener is a
  parameter, its effect a change of the state of the program outside the emitter.
\<close>

section \<open>Listeners\<close>

type_synonym event_emitter = "node chain"

definition new_event_emitter :: event_emitter where
  "new_event_emitter = \<lparr>ch_head = None, ch_nodes = Map.empty\<rparr>"

text \<open>\<^verbatim>\<open>listener_base::listener_base\<close>, on storage whose pointers hold anything.\<close>

definition listener_base :: "addr \<Rightarrow> 'a node_scheme chain \<Rightarrow> 'a node_scheme chain res" where
  "listener_base this owner =
     bindR (put_node this (nd_next_update (\<lambda>_. ch_head owner)) owner) (\<lambda>owner.
     bindR (put_node this (nd_prev_update (\<lambda>_. Some Head)) owner) (\<lambda>owner.
     bindR (case ch_head owner of
              Some h \<Rightarrow> put_node h (nd_prev_update (\<lambda>_. Some (Next_of this))) owner
            | None \<Rightarrow> Inr owner) (\<lambda>owner.
     Inr (owner\<lparr>ch_head := Some this\<rparr>))))"

text \<open>\<^verbatim>\<open>listener_base::~listener_base\<close>.\<close>

definition listener_destroy :: "addr \<Rightarrow> 'a node_scheme chain \<Rightarrow> 'a node_scheme chain res" where
  "listener_destroy this owner =
     bindR (get_node this owner) (\<lambda>self.
     case nd_prev self of
       None \<Rightarrow> Inl Out_of_bounds
     | Some previous_nextptr \<Rightarrow>
         bindR (set_slot previous_nextptr (nd_next self) owner) (\<lambda>owner.
         bindR (get_node this owner) (\<lambda>self.
         case nd_next self of
           None \<Rightarrow> Inr owner
         | Some nx \<Rightarrow> put_node nx (nd_prev_update (\<lambda>_. nd_prev self)) owner)))"

section \<open>Firing\<close>

text \<open>
  The loop over the listeners; the fuel bounds the number of listeners it visits. Nothing is
  converted to the event type when there is no listener.
\<close>

fun fire_loop ::
  "nat \<Rightarrow> (addr \<Rightarrow> 'e \<Rightarrow> 'w \<Rightarrow> 'w) \<Rightarrow> 'e \<Rightarrow> addr option \<Rightarrow> event_emitter \<Rightarrow> 'w \<Rightarrow> 'w option res" where
  "fire_loop fuel do_fire object None ev w = Inr (Some w)"
| "fire_loop 0 do_fire object (Some p) ev w = Inr None"
| "fire_loop (Suc fuel) do_fire object (Some p) ev w =
     bindR (get_node p ev) (\<lambda>n. fire_loop fuel do_fire object (nd_next n) ev (do_fire p object w))"

definition event_fire ::
  "nat \<Rightarrow> (addr \<Rightarrow> 'e \<Rightarrow> 'w \<Rightarrow> 'w) \<Rightarrow> ('u \<Rightarrow> 'w \<Rightarrow> 'e \<times> 'w) \<Rightarrow> 'u \<Rightarrow> event_emitter \<Rightarrow> 'w \<Rightarrow> 'w option res" where
  "event_fire fuel do_fire convert arg ev w =
     (if ch_head ev = None then Inr (Some w)
      else let (object, w) = convert arg w in fire_loop fuel do_fire object (ch_head ev) ev w)"

section \<open>The contract\<close>

lemma listener_base_eq:
  assumes "chain_rep s as" "a \<notin> set as"
  shows "listener_base a s = insert_front a s"
proof -
  from assms have "ch_head s \<noteq> Some a" by (cases as) (auto simp: chain_rep_def)
  then show ?thesis
    by (cases "ch_nodes s a"; cases "ch_head s")
      (auto simp: listener_base_def insert_front_def put_node_def get_node_def set_prev_def)
qed

lemma last_slot_neq: "a \<notin> set xs \<Longrightarrow> last_slot Head xs \<noteq> Next_of a"
  by (auto simp: last_slot_def)

lemma listener_destroy_eq:
  assumes "chain_rep s as" "a \<in> set as"
  shows "listener_destroy a s = detach_node a s"
proof -
  from assms(2) obtain xs ys where as: "as = xs @ a # ys" by (meson split_list)
  with assms(1) have "a \<notin> set xs" "a \<notin> set ys" by (auto simp: chain_rep_def)
  with unlink_rep [of s xs a ys] assms(1) last_slot_neq [of a xs] show ?thesis
    by (auto simp: as listener_destroy_def detach_node_def unlink_def set_slot_def put_node_def get_node_def
        set_prev_def split: slot.splits option.splits)
qed

interpretation ev: intrusive_list listener_base listener_destroy
proof
  fix s :: "'a node_scheme chain" and as a
  assume *: "chain_rep s as" "ch_nodes s a \<noteq> None" "a \<notin> set as"
  with insert_front_rep [OF *(1) _ *(3)] show
    "\<exists>s'. listener_base a s = Inr s' \<and> chain_rep s' (a # as) \<and> only_links (insert a (set as)) s s'"
    by (auto simp: listener_base_eq [OF *(1,3)])
next
  fix s :: "'a node_scheme chain" and as a
  assume *: "chain_rep s as" "a \<in> set as"
  from detach_node_rep [OF *] show
    "\<exists>s'. listener_destroy a s = Inr s' \<and> chain_rep s' (remove1 a as) \<and> only_links (set as) s s'"
    by (simp add: listener_destroy_eq [OF *])
qed

section \<open>Listeners come and go\<close>

text \<open>
  A history of listeners that are constructed, on fresh storage with any contents, and destroyed;
  \<open>listeners_after\<close> is the history read abstractly, on the list of the live listeners.
\<close>

datatype listener_event = Construct addr node | Destruct addr

fun run_listeners :: "listener_event list \<Rightarrow> event_emitter \<Rightarrow> event_emitter res" where
  "run_listeners [] ev = Inr ev"
| "run_listeners (Construct a n # cs) ev =
     bindR (listener_base a (ev\<lparr>ch_nodes := (ch_nodes ev)(a \<mapsto> n)\<rparr>)) (run_listeners cs)"
| "run_listeners (Destruct a # cs) ev =
     bindR (listener_destroy a ev) (\<lambda>ev. run_listeners cs (ev\<lparr>ch_nodes := (ch_nodes ev)(a := None)\<rparr>))"

fun listeners_after :: "listener_event list \<Rightarrow> addr list \<Rightarrow> addr list option" where
  "listeners_after [] as = Some as"
| "listeners_after (Construct a n # cs) as =
     (if a \<in> set as then None else listeners_after cs (a # as))"
| "listeners_after (Destruct a # cs) as =
     (if a \<in> set as then listeners_after cs (remove1 a as) else None)"

lemma run_listeners_live:
  "listeners_after cs as = Some bs \<Longrightarrow> ev.live s as \<Longrightarrow> \<exists>s'. run_listeners cs s = Inr s' \<and> ev.live s' bs"
proof (induction cs arbitrary: as s)
  case (Cons c cs)
  show ?case
  proof (cases c)
    case (Construct a n)
    with Cons.prems ev.create_live [of s as a n] obtain s' where
      "ev.create a n s = Inr s'" "ev.live s' (a # as)" by (auto split: if_splits)
    with Cons.IH [of "a # as" s'] Cons.prems Construct show ?thesis
      by (auto simp: ev.create_def split: if_splits)
  next
    case (Destruct a)
    with Cons.prems ev.destroy_live [of s as a] obtain s' where
      "ev.destroy a s = Inr s'" "ev.live s' (remove1 a as)" by (auto split: if_splits)
    with Cons.IH [of "remove1 a as" s'] Cons.prems Destruct show ?thesis
      by (auto simp: ev.destroy_def res_simps split: if_splits)
  qed
qed simp

lemma fire_loop_segment:
  "segment (ch_nodes ev) sl p as sl' None \<Longrightarrow>
   fire_loop (length as + k) do_fire object p ev w = Inr (Some (fold (\<lambda>a. do_fire a object) as w))"
  by (induction as arbitrary: sl p w) (auto simp: get_node_def split: option.splits)

text \<open>
  C31: after any history of listeners, firing an event calls every listener that is still there
  exactly once, the latest first, with the converted event, and returns; it converts the event once
  and only when somebody listens, and never touches a listener that is gone. A loop of as many rounds
  as there are listeners is enough.
\<close>

theorem fire_reaches_listeners:
  assumes "listeners_after cs [] = Some as"
  shows "\<exists>ev. run_listeners cs new_event_emitter = Inr ev \<and>
    event_fire (length as + k) do_fire convert arg ev w =
      Inr (Some (if as = [] then w
                 else let (object, w) = convert arg w in fold (\<lambda>a. do_fire a object) as w))"
proof -
  have "ev.live new_event_emitter []"
    by (simp add: ev.live_def chain_rep_def new_event_emitter_def)
  from run_listeners_live [OF assms this] obtain ev where
    ev: "run_listeners cs new_event_emitter = Inr ev" "ev.live ev as" by blast
  then have seg: "segment (ch_nodes ev) Head (ch_head ev) as (last_slot Head as) None"
    by (simp add: ev.live_def chain_rep_def)
  then have "ch_head ev = None \<longleftrightarrow> as = []" by (cases as) auto
  with ev(1) fire_loop_segment [OF seg] show ?thesis
    by (auto simp: event_fire_def split_beta Let_def)
qed

definition stale_node :: node where
  "stale_node = \<lparr>nd_next = Some 9, nd_prev = Some (Next_of 7)\<rparr>"

theorem fire_reaches_listeners_witness:
  "\<exists>ev. run_listeners [Construct 1 stale_node, Construct 2 stale_node, Construct 3 stale_node, Destruct 2]
      new_event_emitter = Inr ev \<and>
    event_fire 2 (\<lambda>a e w. w @ [(a, e)]) (\<lambda>u w. (u + 1, w)) (6 :: nat) ev [] = Inr (Some [(3, 7), (1, 7)])"
  using fire_reaches_listeners
    [of "[Construct 1 stale_node, Construct 2 stale_node, Construct 3 stale_node, Destruct 2]" "[3, 1]" 0
      "\<lambda>a e w. w @ [(a, e)]" "\<lambda>u w. (u + 1, w)" "6 :: nat" "[]"]
  by (simp add: numeral_2_eq_2)

end
