(* ===== verification/Amongoc_Stop.thy ===== *)
theory Amongoc_Stop
  imports Amongoc_Events
begin

text \<open>
  Cancellation (\<^verbatim>\<open>src/amongoc/nano/stop.hpp\<close>): \<^verbatim>\<open>in_place_stop_source\<close>, its tokens and its callbacks.

  The source has an atomic word with two bits, locked and stopped; the locked bit is a spin lock. A
  callback is a node of an intrusive list. The code between taking and releasing the lock is a
  function on the source; threads take turns at these functions, in the step relation \<open>stop_step\<close>. A
  thread that spins is one that takes no step. A callback runs on the thread that requests the stop,
  and may call the source again, so a thread has a stack of frames.

  The memory of a callback exists from the start of its constructor to the end of its destructor,
  and an access outside this time is the fault \<open>Out_of_bounds\<close>. \<open>cb_runs\<close> counts how often the
  callback has been run; the code does not have it.
\<close>

section \<open>The stop source\<close>

datatype state_t = State_t (locked_bit: bool) (stopped_bit: bool)

abbreviation idle :: state_t where "idle \<equiv> State_t False False"
abbreviation stopped :: state_t where "stopped \<equiv> State_t False True"

type_synonym tid = nat

record callback = node +
  cb_src :: bool
  cb_did_remove :: bool
  cb_exec_done :: bool
  cb_runs :: nat

definition new_callback :: callback where
  "new_callback = \<lparr>nd_next = None, nd_prev = None, cb_src = False, cb_did_remove = False,
     cb_exec_done = False, cb_runs = 0\<rparr>"

text \<open>\<open>so_removed\<close> is the variable of \<^verbatim>\<open>request_stop\<close> that the callback in execution points to.\<close>

record stop_source =
  so_state :: state_t
  so_callbacks :: "callback chain"
  so_thread :: "tid option"
  so_removed :: bool

definition new_stop_source :: stop_source where
  "new_stop_source = \<lparr>so_state = idle, so_callbacks = \<lparr>ch_head = None, ch_nodes = Map.empty\<rparr>,
     so_thread = None, so_removed = False\<rparr>"

definition stop_requested :: "stop_source \<Rightarrow> bool" where
  "stop_requested src = stopped_bit (so_state src)"

definition token_stop_possible :: "stop_source option \<Rightarrow> bool" where
  "token_stop_possible tok = (tok \<noteq> None)"

definition token_stop_requested :: "stop_source option \<Rightarrow> bool" where
  "token_stop_requested tok = (case tok of None \<Rightarrow> False | Some src \<Rightarrow> stop_requested src)"

text \<open>Taking the lock; \<open>None\<close> is another round of the spin.\<close>

definition stop_lock :: "state_t \<Rightarrow> (state_t \<times> state_t) option" where
  "stop_lock st = (if locked_bit st then None else Some (st, State_t True (stopped_bit st)))"

definition try_lock_unless_stopped :: "bool \<Rightarrow> state_t \<Rightarrow> (bool \<times> state_t) option" where
  "try_lock_unless_stopped do_set_stopped st =
     (if st \<noteq> idle then (if stopped_bit st then Some (False, st) else None)
      else Some (True, State_t True do_set_stopped))"

text \<open>\<^verbatim>\<open>_try_register\<close> with the lock, and the assignment of \<^verbatim>\<open>_src\<close> by its caller.\<close>

definition link_callback :: "addr \<Rightarrow> callback chain \<Rightarrow> callback chain res" where
  "link_callback new_cb cbs =
     bindR (put_node new_cb (nd_next_update (\<lambda>_. ch_head cbs)) cbs) (\<lambda>cbs.
     bindR (put_node new_cb (nd_prev_update (\<lambda>_. Some Head)) cbs) (\<lambda>cbs.
     bindR (case ch_head cbs of
              Some h \<Rightarrow> put_node h (nd_prev_update (\<lambda>_. Some (Next_of new_cb))) cbs
            | None \<Rightarrow> Inr cbs) (\<lambda>cbs.
     Inr (cbs\<lparr>ch_head := Some new_cb\<rparr>))))"

definition register_locked :: "addr \<Rightarrow> stop_source \<Rightarrow> stop_source res" where
  "register_locked new_cb src =
     bindR (link_callback new_cb (so_callbacks src)) (\<lambda>cbs.
     bindR (put_node new_cb (cb_src_update (\<lambda>_. True)) cbs) (\<lambda>cbs.
     Inr (src\<lparr>so_callbacks := cbs, so_state := idle\<rparr>)))"

text \<open>
  \<^verbatim>\<open>_unregister\<close> with the lock, on thread \<open>me\<close>. The result says whether the destructor has to wait
  for another thread.
\<close>

definition unlink_callback :: "addr \<Rightarrow> callback chain \<Rightarrow> callback chain res" where
  "unlink_callback cb cbs =
     bindR (get_node cb cbs) (\<lambda>n.
     case nd_prev n of
       None \<Rightarrow> Inl Out_of_bounds
     | Some prev_nextptr \<Rightarrow>
         bindR (set_slot prev_nextptr (nd_next n) cbs) (\<lambda>cbs.
         bindR (get_node cb cbs) (\<lambda>n.
         case nd_next n of
           None \<Rightarrow> Inr cbs
         | Some nx \<Rightarrow> put_node nx (nd_prev_update (\<lambda>_. nd_prev n)) cbs)))"

definition unregister_locked :: "tid \<Rightarrow> addr \<Rightarrow> state_t \<Rightarrow> stop_source \<Rightarrow> (bool \<times> stop_source) res" where
  "unregister_locked me cb prev_state src =
     bindR (get_node cb (so_callbacks src)) (\<lambda>n.
     if nd_prev n \<noteq> None then
       bindR (unlink_callback cb (so_callbacks src)) (\<lambda>cbs.
       Inr (False, src\<lparr>so_callbacks := cbs, so_state := prev_state\<rparr>))
     else
       let stopping_thread = so_thread src; src = src\<lparr>so_state := prev_state\<rparr> in
       if Some me = stopping_thread then
         Inr (False, if cb_did_remove n then src\<lparr>so_removed := True\<rparr> else src)
       else Inr (True, src))"

text \<open>\<^verbatim>\<open>request_stop\<close>: the head of its loop with the lock, and the code around the callback.\<close>

definition pop_locked :: "stop_source \<Rightarrow> (addr option \<times> stop_source) res" where
  "pop_locked src =
     (case ch_head (so_callbacks src) of
        None \<Rightarrow> Inr (None, src\<lparr>so_state := stopped\<rparr>)
      | Some cb \<Rightarrow>
          bindR (put_node cb (nd_prev_update (\<lambda>_. None)) (so_callbacks src)) (\<lambda>cbs.
          bindR (get_node cb cbs) (\<lambda>n.
          let cbs = cbs\<lparr>ch_head := nd_next n\<rparr> in
          bindR (case ch_head cbs of
                   Some h \<Rightarrow> put_node h (nd_prev_update (\<lambda>_. Some Head)) cbs
                 | None \<Rightarrow> Inr cbs) (\<lambda>cbs.
          Inr (Some cb, src\<lparr>so_callbacks := cbs, so_state := stopped\<rparr>)))))"

definition begin_execute :: "addr \<Rightarrow> stop_source \<Rightarrow> stop_source res" where
  "begin_execute cb src =
     bindR (put_node cb (\<lambda>n. n\<lparr>cb_did_remove := True, cb_runs := cb_runs n + 1\<rparr>) (so_callbacks src)) (\<lambda>cbs.
     Inr (src\<lparr>so_removed := False, so_callbacks := cbs\<rparr>))"

definition end_execute :: "addr \<Rightarrow> stop_source \<Rightarrow> stop_source res" where
  "end_execute cb src =
     (if so_removed src then Inr src
      else bindR (put_node cb (\<lambda>n. n\<lparr>cb_did_remove := False, cb_exec_done := True\<rparr>) (so_callbacks src))
             (\<lambda>cbs. Inr (src\<lparr>so_callbacks := cbs\<rparr>)))"

section \<open>Threads\<close>

text \<open>
  Where a thread is: in a constructor that holds the lock; in a constructor that runs its callback at
  once; in a destructor that holds the lock, or waits for the callback to end; in \<^verbatim>\<open>request_stop\<close>,
  with the lock, with a callback it has taken from the list, running it, or taking the lock again.
\<close>

datatype frame =
    Registering addr
  | Inline addr
  | Unregistering addr state_t
  | Waiting addr
  | Stopping
  | Popped addr
  | Executing addr
  | Relocking

record system =
  sy_source :: stop_source
  sy_stack :: "tid \<Rightarrow> frame list"

text \<open>A thread can call the source from its own code and from a callback.\<close>

fun in_user_code :: "frame list \<Rightarrow> bool" where
  "in_user_code [] = True"
| "in_user_code (Inline c # fs) = True"
| "in_user_code (Executing c # fs) = True"
| "in_user_code _ = False"

text \<open>The callback object that a frame constructs or destroys.\<close>

fun frame_object :: "frame \<Rightarrow> addr option" where
  "frame_object (Registering c) = Some c"
| "frame_object (Inline c) = Some c"
| "frame_object (Unregistering c st) = Some c"
| "frame_object (Waiting c) = Some c"
| "frame_object _ = None"

definition frame_objects :: "frame list \<Rightarrow> addr list" where
  "frame_objects fs = List.map_filter frame_object fs"

definition cb_nodes :: "stop_source \<Rightarrow> addr \<rightharpoonup> callback" where
  "cb_nodes src = ch_nodes (so_callbacks src)"

definition set_cb :: "addr \<Rightarrow> callback option \<Rightarrow> stop_source \<Rightarrow> stop_source" where
  "set_cb c n src = src\<lparr>so_callbacks := (so_callbacks src)\<lparr>ch_nodes := (cb_nodes src)(c := n)\<rparr>\<rparr>"

definition go :: "tid \<Rightarrow> frame list \<Rightarrow> stop_source \<Rightarrow> system \<Rightarrow> system" where
  "go t fs src s = s\<lparr>sy_source := src, sy_stack := (sy_stack s)(t := fs)\<rparr>"

text \<open>
  The steps. Programs are assumed to be correct C++ in this: an object is constructed in free
  memory, and destroyed once and not during its construction.
\<close>

inductive stop_step :: "system \<Rightarrow> system res \<Rightarrow> bool" for s where
  construct:
    "in_user_code (sy_stack s t) \<Longrightarrow> cb_nodes (sy_source s) c = None \<Longrightarrow>
     try_lock_unless_stopped False (so_state (sy_source s)) = Some (True, st) \<Longrightarrow>
     stop_step s (Inr (go t (Registering c # sy_stack s t)
       (set_cb c (Some new_callback) ((sy_source s)\<lparr>so_state := st\<rparr>)) s))"
| construct_stopped:
    "in_user_code (sy_stack s t) \<Longrightarrow> cb_nodes (sy_source s) c = None \<Longrightarrow>
     try_lock_unless_stopped False (so_state (sy_source s)) = Some (False, st) \<Longrightarrow>
     stop_step s (Inr (go t (Inline c # sy_stack s t)
       (set_cb c (Some (new_callback\<lparr>cb_runs := 1\<rparr>)) (sy_source s)) s))"
| registered:
    "sy_stack s t = Registering c # fs \<Longrightarrow>
     stop_step s (bindR (register_locked c (sy_source s)) (\<lambda>src. Inr (go t fs src s)))"
| inline_done:
    "sy_stack s t = Inline c # fs \<Longrightarrow> stop_step s (Inr (go t fs (sy_source s) s))"
| destroy_unregistered:
    "in_user_code (sy_stack s t) \<Longrightarrow> cb_nodes (sy_source s) c = Some n \<Longrightarrow> \<not> cb_src n \<Longrightarrow>
     (\<forall>u. c \<notin> set (frame_objects (sy_stack s u))) \<Longrightarrow>
     stop_step s (Inr (go t (sy_stack s t) (set_cb c None (sy_source s)) s))"
| destroy:
    "in_user_code (sy_stack s t) \<Longrightarrow> cb_nodes (sy_source s) c = Some n \<Longrightarrow> cb_src n \<Longrightarrow>
     (\<forall>u. c \<notin> set (frame_objects (sy_stack s u))) \<Longrightarrow>
     stop_lock (so_state (sy_source s)) = Some (prev_state, st) \<Longrightarrow>
     stop_step s (Inr (go t (Unregistering c prev_state # sy_stack s t) ((sy_source s)\<lparr>so_state := st\<rparr>) s))"
| unregistered:
    "sy_stack s t = Unregistering c prev_state # fs \<Longrightarrow>
     stop_step s (bindR (unregister_locked t c prev_state (sy_source s)) (\<lambda>(wait, src).
       Inr (if wait then go t (Waiting c # fs) src s else go t fs (set_cb c None src) s)))"
| waited:
    "sy_stack s t = Waiting c # fs \<Longrightarrow> cb_nodes (sy_source s) c = Some n \<Longrightarrow> cb_exec_done n \<Longrightarrow>
     stop_step s (Inr (go t fs (set_cb c None (sy_source s)) s))"
| request_stop:
    "in_user_code (sy_stack s t) \<Longrightarrow>
     try_lock_unless_stopped True (so_state (sy_source s)) = Some (True, st) \<Longrightarrow>
     stop_step s (Inr (go t (Stopping # sy_stack s t) ((sy_source s)\<lparr>so_state := st, so_thread := Some t\<rparr>) s))"
| stop_loop:
    "sy_stack s t = Stopping # fs \<Longrightarrow>
     stop_step s (bindR (pop_locked (sy_source s)) (\<lambda>(cb, src).
       Inr (case cb of None \<Rightarrow> go t fs src s | Some c \<Rightarrow> go t (Popped c # fs) src s)))"
| execute:
    "sy_stack s t = Popped c # fs \<Longrightarrow>
     stop_step s (bindR (begin_execute c (sy_source s)) (\<lambda>src. Inr (go t (Executing c # fs) src s)))"
| executed:
    "sy_stack s t = Executing c # fs \<Longrightarrow>
     stop_step s (bindR (end_execute c (sy_source s)) (\<lambda>src. Inr (go t (Relocking # fs) src s)))"
| relock:
    "sy_stack s t = Relocking # fs \<Longrightarrow> stop_lock (so_state (sy_source s)) = Some (prev_state, st) \<Longrightarrow>
     stop_step s (Inr (go t (Stopping # fs) ((sy_source s)\<lparr>so_state := st\<rparr>) s))"

definition init_system :: system where
  "init_system = \<lparr>sy_source = new_stop_source, sy_stack = \<lambda>_. []\<rparr>"

inductive stop_reachable :: "system \<Rightarrow> bool" where
  init: "stop_reachable init_system"
| step: "stop_reachable s \<Longrightarrow> stop_step s (Inr s') \<Longrightarrow> stop_reachable s'"

section \<open>The operations on the list of callbacks\<close>

text \<open>The splices are those of the event listeners, and satisfy the same contract.\<close>

interpretation cb: intrusive_list link_callback unlink_callback
proof -
  have "link_callback = listener_base" "unlink_callback = listener_destroy"
    by (simp_all add: fun_eq_iff link_callback_def listener_base_def unlink_callback_def listener_destroy_def)
  then show "intrusive_list link_callback unlink_callback" by (simp add: ev.intrusive_list_axioms)
qed

lemma callback_more:
  "node.more n = node.more m \<Longrightarrow> cb_src n = cb_src m \<and> cb_did_remove n = cb_did_remove m \<and>
     cb_exec_done n = cb_exec_done m \<and> cb_runs n = cb_runs (m :: callback)"
  by (cases n; cases m) simp

text \<open>\<open>same_flags\<close>: two nodes that differ in their links only.\<close>

definition same_flags :: "callback option \<Rightarrow> callback option \<Rightarrow> bool" where
  "same_flags x y \<longleftrightarrow> map_option node.more x = map_option node.more y"

lemma pop_locked_eq:
  "pop_locked src = bindR (pop_front (so_callbacks src)) (\<lambda>(cb, cbs).
     Inr (cb, src\<lparr>so_callbacks := cbs, so_state := stopped\<rparr>))"
  by (cases "ch_head (so_callbacks src)")
    (auto simp: pop_locked_def pop_front_def set_prev_def bindR_assoc Let_def split: option.split
      intro!: bindR_cong)

section \<open>The invariant\<close>

text \<open>
  A callback in the list has not been run. A registered callback that is no longer in the list has
  been taken by \<^verbatim>\<open>request_stop\<close>, and is in execution or has been run once.
\<close>

definition in_execution :: "stop_source \<Rightarrow> (tid \<Rightarrow> frame list) \<Rightarrow> addr \<Rightarrow> bool" where
  "in_execution src k c \<longleftrightarrow>
     (\<exists>t. Popped c \<in> set (k t) \<or> Executing c \<in> set (k t) \<and> \<not> so_removed src)"

definition linked_ok :: "callback \<Rightarrow> bool" where
  "linked_ok n \<longleftrightarrow> cb_src n \<and> cb_runs n = 0 \<and> \<not> cb_did_remove n \<and> \<not> cb_exec_done n"

definition unlinked_ok :: "stop_source \<Rightarrow> (tid \<Rightarrow> frame list) \<Rightarrow> addr \<Rightarrow> callback \<Rightarrow> bool" where
  "unlinked_ok src k c n \<longleftrightarrow> nd_prev n = None \<and>
     (if cb_src n then stop_requested src \<and>
        (in_execution src k c \<or> cb_runs n = 1 \<and> cb_exec_done n \<and> \<not> cb_did_remove n)
      else cb_runs n = 1 \<and> stop_requested src \<or> (\<exists>t. Registering c \<in> set (k t)))"

definition list_ok :: "stop_source \<Rightarrow> (tid \<Rightarrow> frame list) \<Rightarrow> addr list \<Rightarrow> bool" where
  "list_ok src k as \<longleftrightarrow> chain_rep (so_callbacks src) as \<and>
     (\<forall>c n. cb_nodes src c = Some n \<longrightarrow> (if c \<in> set as then linked_ok n else unlinked_ok src k c n))"

text \<open>What holds while a thread is in a frame.\<close>

fun frame_ok :: "stop_source \<Rightarrow> tid \<Rightarrow> frame \<Rightarrow> bool" where
  "frame_ok src t (Registering c) \<longleftrightarrow> so_state src = State_t True False \<and>
     (case cb_nodes src c of None \<Rightarrow> False | Some n \<Rightarrow> nd_prev n = None \<and> linked_ok (n\<lparr>cb_src := True\<rparr>) \<and> \<not> cb_src n)"
| "frame_ok src t (Inline c) \<longleftrightarrow>
     (case cb_nodes src c of None \<Rightarrow> False | Some n \<Rightarrow> nd_prev n = None \<and> \<not> cb_src n \<and> cb_runs n = 1)"
| "frame_ok src t (Unregistering c prev_state) \<longleftrightarrow> locked_bit (so_state src) \<and>
     prev_state = State_t False (stop_requested src) \<and>
     (case cb_nodes src c of None \<Rightarrow> False | Some n \<Rightarrow> cb_src n)"
| "frame_ok src t (Waiting c) \<longleftrightarrow> stop_requested src \<and> so_thread src \<noteq> Some t \<and>
     (case cb_nodes src c of None \<Rightarrow> False | Some n \<Rightarrow> cb_src n \<and> nd_prev n = None)"
| "frame_ok src t Stopping \<longleftrightarrow> so_state src = State_t True True \<and> so_thread src = Some t"
| "frame_ok src t (Popped c) \<longleftrightarrow> stop_requested src \<and> so_thread src = Some t \<and>
     (case cb_nodes src c of None \<Rightarrow> False | Some n \<Rightarrow> nd_prev n = None \<and> linked_ok n)"
| "frame_ok src t (Executing c) \<longleftrightarrow> stop_requested src \<and> so_thread src = Some t \<and>
     (so_removed src \<or>
      (case cb_nodes src c of None \<Rightarrow> False
       | Some n \<Rightarrow> nd_prev n = None \<and> cb_src n \<and> cb_runs n = 1 \<and> cb_did_remove n \<and> \<not> cb_exec_done n))"
| "frame_ok src t Relocking \<longleftrightarrow> stop_requested src \<and> so_thread src = Some t"

fun is_user :: "frame \<Rightarrow> bool" where
  "is_user (Inline c) = True"
| "is_user (Executing c) = True"
| "is_user _ = False"

fun is_stop :: "frame \<Rightarrow> bool" where
  "is_stop Stopping = True"
| "is_stop (Popped c) = True"
| "is_stop (Executing c) = True"
| "is_stop Relocking = True"
| "is_stop _ = False"

fun holds_lock :: "frame list \<Rightarrow> bool" where
  "holds_lock (Registering c # fs) = True"
| "holds_lock (Unregistering c st # fs) = True"
| "holds_lock (Stopping # fs) = True"
| "holds_lock _ = False"

definition stack_ok :: "frame list \<Rightarrow> bool" where
  "stack_ok fs \<longleftrightarrow>
     list_all is_user (tl fs) \<and> length (filter is_stop fs) \<le> 1 \<and> distinct (frame_objects fs)"

definition stacks_ok :: "(tid \<Rightarrow> frame list) \<Rightarrow> bool" where
  "stacks_ok k \<longleftrightarrow> (\<forall>t. stack_ok (k t)) \<and>
     (\<forall>t u. t \<noteq> u \<longrightarrow> set (frame_objects (k t)) \<inter> set (frame_objects (k u)) = {})"

definition lock_ok :: "state_t \<Rightarrow> (tid \<Rightarrow> frame list) \<Rightarrow> bool" where
  "lock_ok st k \<longleftrightarrow> (locked_bit st \<longleftrightarrow> (\<exists>t. holds_lock (k t))) \<and>
     (\<forall>t u. holds_lock (k t) \<longrightarrow> holds_lock (k u) \<longrightarrow> t = u)"

definition stop_inv :: "system \<Rightarrow> bool" where
  "stop_inv s \<longleftrightarrow> (\<exists>as. list_ok (sy_source s) (sy_stack s) as) \<and>
     (\<forall>t. list_all (frame_ok (sy_source s) t) (sy_stack s t)) \<and>
     stacks_ok (sy_stack s) \<and> lock_ok (so_state (sy_source s)) (sy_stack s)"

lemma frame_objects_simps [simp]:
  "frame_objects [] = []"
  "frame_objects (f # fs) = (case frame_object f of None \<Rightarrow> frame_objects fs | Some c \<Rightarrow> c # frame_objects fs)"
  by (simp_all add: frame_objects_def map_filter_simps split: option.split)

lemma go_simps [simp]:
  "sy_source (go t fs src s) = src" "sy_stack (go t fs src s) = (sy_stack s)(t := fs)"
  by (simp_all add: go_def)

lemma set_cb_simps [simp]:
  "so_state (set_cb c n src) = so_state src" "so_thread (set_cb c n src) = so_thread src"
  "so_removed (set_cb c n src) = so_removed src" "cb_nodes (set_cb c n src) = (cb_nodes src)(c := n)"
  "stop_requested (set_cb c n src) = stop_requested src"
  by (simp_all add: set_cb_def cb_nodes_def stop_requested_def)

lemma source_updates [simp]:
  "cb_nodes (src\<lparr>so_state := st\<rparr>) = cb_nodes src"
  "cb_nodes (src\<lparr>so_thread := th\<rparr>) = cb_nodes src"
  "cb_nodes (src\<lparr>so_removed := b\<rparr>) = cb_nodes src"
  "cb_nodes (src\<lparr>so_callbacks := cbs\<rparr>) = ch_nodes cbs"
  "stop_requested (src\<lparr>so_state := st\<rparr>) = stopped_bit st"
  "stop_requested (src\<lparr>so_thread := th\<rparr>) = stop_requested src"
  "stop_requested (src\<lparr>so_removed := b\<rparr>) = stop_requested src"
  "stop_requested (src\<lparr>so_callbacks := cbs\<rparr>) = stop_requested src"
  by (simp_all add: cb_nodes_def stop_requested_def)

lemma stop_inv_init: "stop_inv init_system"
  by (auto simp: stop_inv_def init_system_def new_stop_source_def list_ok_def chain_rep_def cb_nodes_def
      stacks_ok_def stack_ok_def lock_ok_def intro!: exI [of _ "[]"])

section \<open>Stacks and the lock\<close>

fun lock_frame :: "frame \<Rightarrow> bool" where
  "lock_frame (Registering c) = True"
| "lock_frame (Unregistering c st) = True"
| "lock_frame Stopping = True"
| "lock_frame _ = False"

lemma holds_lock_iff: "holds_lock fs \<longleftrightarrow> (\<exists>f gs. fs = f # gs \<and> lock_frame f)"
  by (cases fs rule: holds_lock.cases) auto

lemma user_not_lock: "is_user f \<Longrightarrow> \<not> lock_frame f"
  by (cases f) auto

lemma in_user_code_iff: "in_user_code fs \<longleftrightarrow> (\<forall>f gs. fs = f # gs \<longrightarrow> is_user f)"
  by (cases fs rule: in_user_code.cases) auto

lemma stacks_ok_tail:
  assumes "stacks_ok k" "k t = f # fs"
  shows "list_all is_user fs" "\<not> holds_lock fs" "list_all (\<lambda>g. \<not> lock_frame g) fs"
    "is_stop f \<Longrightarrow> list_all (\<lambda>g. \<not> is_stop g) fs"
proof -
  from assms(1) have "list_all is_user (tl (k t)) \<and> length (filter is_stop (k t)) \<le> 1"
    by (simp add: stacks_ok_def stack_ok_def)
  with assms(2) have u: "list_all is_user fs" and l: "length (filter is_stop (f # fs)) \<le> 1" by simp_all
  from u show "list_all is_user fs" .
  from u show "\<not> holds_lock fs" by (auto simp: holds_lock_iff user_not_lock)
  from u show "list_all (\<lambda>g. \<not> lock_frame g) fs" by (auto simp: list_all_iff user_not_lock)
  from l show "is_stop f \<Longrightarrow> list_all (\<lambda>g. \<not> is_stop g) fs" by (simp add: list_all_iff filter_empty_conv)
qed

lemma stacks_ok_user:
  assumes "stacks_ok k" "in_user_code (k t)"
  shows "list_all is_user (k t)" "\<not> holds_lock (k t)" "list_all (\<lambda>g. \<not> lock_frame g) (k t)"
proof -
  from assms have u: "list_all is_user (k t)"
    by (cases "k t") (auto simp: in_user_code_iff dest: stacks_ok_tail(1))
  then show "list_all is_user (k t)" .
  from u show "\<not> holds_lock (k t)" by (auto simp: holds_lock_iff user_not_lock)
  from u show "list_all (\<lambda>g. \<not> lock_frame g) (k t)" by (auto simp: list_all_iff user_not_lock)
qed

lemma stacks_push:
  assumes "stacks_ok k" "in_user_code (k t)"
    and "\<And>c. frame_object f = Some c \<Longrightarrow> \<forall>u. c \<notin> set (frame_objects (k u))"
    and "is_stop f \<Longrightarrow> list_all (\<lambda>g. \<not> is_stop g) (k t)"
  shows "stacks_ok (k(t := f # k t))"
  using assms(1,3,4) stacks_ok_user(1) [OF assms(1,2)]
  by (auto simp: stacks_ok_def stack_ok_def list_all_iff filter_empty_conv split: option.split)

lemma stacks_shrink:
  assumes "stacks_ok k" "stack_ok fs" "set (frame_objects fs) \<subseteq> set (frame_objects (k t))"
  shows "stacks_ok (k(t := fs))"
  using assms by (fastforce simp: stacks_ok_def)

lemma stacks_pop:
  assumes "stacks_ok k" "k t = f # fs"
  shows "stacks_ok (k(t := fs))"
proof (rule stacks_shrink [OF assms(1)])
  have "stack_ok (f # fs)" using assms by (metis stacks_ok_def)
  then show "stack_ok fs" by (cases fs) (auto simp: stack_ok_def split: if_splits option.splits)
  show "set (frame_objects fs) \<subseteq> set (frame_objects (k t))" by (auto simp: assms(2) split: option.split)
qed

lemma stacks_replace:
  assumes "stacks_ok k" "k t = f # fs" "frame_object g = None \<or> frame_object g = frame_object f"
    "is_stop g \<Longrightarrow> is_stop f"
  shows "stacks_ok (k(t := g # fs))"
proof (rule stacks_shrink [OF assms(1)])
  have "stack_ok (f # fs)" using assms by (metis stacks_ok_def)
  with assms(3,4) show "stack_ok (g # fs)" by (auto simp: stack_ok_def split: if_splits option.splits)
  from assms(3) show "set (frame_objects (g # fs)) \<subseteq> set (frame_objects (k t))"
    by (auto simp: assms(2) split: option.split)
qed

lemma lock_take:
  assumes "lock_ok st k" "\<not> locked_bit st" "lock_frame f" "locked_bit st'"
  shows "lock_ok st' (k(t := f # fs))"
  using assms by (auto simp: lock_ok_def holds_lock_iff)

lemma lock_release:
  assumes "lock_ok st k" "k t = f # gs" "lock_frame f" "\<not> holds_lock fs" "\<not> locked_bit st'"
  shows "lock_ok st' (k(t := fs))"
proof -
  from assms(2,3) have "holds_lock (k t)" by (auto simp: holds_lock_iff)
  with assms(1) have "u = t" if "holds_lock (k u)" for u using that by (simp add: lock_ok_def)
  with assms(4,5) show ?thesis by (auto simp: lock_ok_def split: if_splits)
qed

lemma lock_same:
  assumes "lock_ok st k" "\<not> holds_lock (k t)" "\<not> holds_lock fs"
  shows "lock_ok st (k(t := fs))"
  using assms by (auto simp: lock_ok_def)

lemma lock_owner:
  assumes "stacks_ok k" "lock_ok st k" "k t = f # fs" "lock_frame f" "u \<noteq> t" "g \<in> set (k u)"
  shows "\<not> lock_frame g"
proof -
  from assms(3,4) have "holds_lock (k t)" by (auto simp: holds_lock_iff)
  with assms(2,5) have "\<not> holds_lock (k u)" by (auto simp: lock_ok_def)
  with assms(6) stacks_ok_tail(3) [OF assms(1), of u] show ?thesis
    by (cases "k u") (auto simp: holds_lock_iff list_all_iff)
qed

section \<open>Preservation\<close>

text \<open>
  A step changes one stack and part of the source. The lemmas below say what it leaves as it was:
  the frames that need no lock, and the nodes outside of the list.
\<close>

fun frame_addr :: "frame \<Rightarrow> addr option" where
  "frame_addr (Popped c) = Some c"
| "frame_addr (Executing c) = Some c"
| "frame_addr f = frame_object f"

lemma frame_ok_stable:
  assumes "frame_ok src t f" "\<not> lock_frame f"
    and "stop_requested src \<Longrightarrow> stop_requested src' \<and> so_thread src' = so_thread src"
    and "so_removed src \<Longrightarrow> is_stop f \<Longrightarrow> so_removed src'"
    and "\<And>c n. frame_addr f = Some c \<Longrightarrow> cb_nodes src c = Some n \<Longrightarrow> nd_prev n = None \<Longrightarrow>
      cb_nodes src' c = Some n \<or> f = Executing c \<and> so_removed src'"
  shows "frame_ok src' t f"
  using assms by (cases f) (force split: option.splits)+

lemma frame_ok_same:
  assumes "frame_ok src t f" "so_state src' = so_state src" "so_thread src' = so_thread src"
    and "so_removed src \<Longrightarrow> is_stop f \<Longrightarrow> so_removed src'"
    and "\<And>c n. frame_addr f = Some c \<Longrightarrow> cb_nodes src c = Some n \<Longrightarrow>
      cb_nodes src' c = Some n \<or> f = Executing c \<and> so_removed src' \<or>
      cb_src n \<and> frame_object f = Some c \<and>
        (\<exists>n'. cb_nodes src' c = Some n' \<and> cb_src n' \<and> nd_prev n' = nd_prev n)"
  shows "frame_ok src' t f"
  using assms by (cases f) (force simp: stop_requested_def split: option.splits)+

lemma frames_step:
  assumes "\<forall>u. list_all (frame_ok src u) (k u)" "k t = old @ rest" "list_all (frame_ok src' t) new"
    and "\<And>u g. g \<in> set (k u) \<Longrightarrow> (u = t \<Longrightarrow> g \<in> set rest) \<Longrightarrow> frame_ok src u g \<Longrightarrow> frame_ok src' u g"
  shows "\<forall>u. list_all (frame_ok src' u) ((k(t := new @ rest)) u)"
  using assms by (auto simp: list_all_iff)

lemma unlinked_mono:
  assumes "unlinked_ok src k c n" "stop_requested src \<Longrightarrow> stop_requested src'"
    and "in_execution src k c \<Longrightarrow> in_execution src' k' c"
    and "\<And>u. Registering c \<in> set (k u) \<Longrightarrow> \<exists>u. Registering c \<in> set (k' u)"
  shows "unlinked_ok src' k' c n"
  using assms by (auto simp: unlinked_ok_def split: if_splits)

lemma in_execution_mono:
  assumes "in_execution src k c" "so_removed src' = so_removed src"
    and "\<And>u g. g \<in> set (k u) \<Longrightarrow> g \<in> {Popped c, Executing c} \<Longrightarrow> \<exists>u. g \<in> set (k' u)"
  shows "in_execution src' k' c"
  using assms by (fastforce simp: in_execution_def)

lemma list_ok_same:
  assumes "list_ok src k as" "so_callbacks src' = so_callbacks src" "so_removed src' = so_removed src"
    and "stop_requested src \<Longrightarrow> stop_requested src'"
    and "\<And>c u g. g \<in> set (k u) \<Longrightarrow> g \<in> {Popped c, Executing c, Registering c} \<Longrightarrow> \<exists>u. g \<in> set (k' u)"
  shows "list_ok src' k' as"
proof -
  have "unlinked_ok src' k' c n" if "unlinked_ok src k c n" for c n
    using that assms(4)
  proof (rule unlinked_mono)
    show "in_execution src k c \<Longrightarrow> in_execution src' k' c"
      using assms(3,5) by (elim in_execution_mono) blast+
    show "Registering c \<in> set (k u) \<Longrightarrow> \<exists>u. Registering c \<in> set (k' u)" for u using assms(5) by blast
  qed
  with assms(1,2) show ?thesis by (auto simp: list_ok_def cb_nodes_def split: if_splits)
qed

lemma list_ok_alive: "list_ok src k as \<Longrightarrow> c \<in> set as \<Longrightarrow> cb_nodes src c \<noteq> None"
  using segment_alive by (fastforce simp: list_ok_def chain_rep_def cb_nodes_def)

lemma unlinked_prev: "unlinked_ok src k c n \<Longrightarrow> nd_prev n = None"
  by (simp add: unlinked_ok_def)

lemma list_ok_node:
  assumes "list_ok src k as" "cb_nodes src c = Some n"
  shows "c \<in> set as \<Longrightarrow> linked_ok n \<and> nd_prev n \<noteq> None"
    "c \<notin> set as \<Longrightarrow> unlinked_ok src k c n \<and> nd_prev n = None"
proof -
  from assms have *: "if c \<in> set as then linked_ok n else unlinked_ok src k c n" by (simp add: list_ok_def)
  have "segment (cb_nodes src) Head (ch_head (so_callbacks src)) as (last_slot Head as) None"
    using assms(1) by (simp add: list_ok_def chain_rep_def cb_nodes_def)
  from segment_prev [OF this _ assms(2)] * show "c \<in> set as \<Longrightarrow> linked_ok n \<and> nd_prev n \<noteq> None" by simp
  from * show "c \<notin> set as \<Longrightarrow> unlinked_ok src k c n \<and> nd_prev n = None"
    using unlinked_prev by auto
qed

lemma list_ok_set_cb:
  assumes "list_ok src k as" "c \<notin> set as"
    and "\<And>n. x = Some n \<Longrightarrow> unlinked_ok src' k' c n"
    and "so_callbacks src' = so_callbacks (set_cb c x src)"
    and "stop_requested src \<Longrightarrow> stop_requested src'"
    and "\<And>d. d \<noteq> c \<Longrightarrow> in_execution src k d \<Longrightarrow> in_execution src' k' d"
    and "\<And>d u. d \<noteq> c \<Longrightarrow> Registering d \<in> set (k u) \<Longrightarrow> \<exists>u. Registering d \<in> set (k' u)"
  shows "list_ok src' k' as"
proof -
  have n: "cb_nodes src' = (cb_nodes src)(c := x)" "chain_rep (so_callbacks src') as"
    using assms(1,2,4) by (simp_all add: cb_nodes_def set_cb_def list_ok_def chain_rep_def)
  have "unlinked_ok src' k' d m" if "d \<noteq> c" "unlinked_ok src k d m" for d m
    using that(2) assms(5,6,7) that(1) by (intro unlinked_mono [of src k d m src' k']) blast+
  with assms n show ?thesis by (auto simp: list_ok_def split: if_splits)
qed

lemma frames_kept:
  assumes "k t = f # fs" "g \<in> set (k u)" "g \<noteq> f"
  shows "\<exists>u. g \<in> set ((k(t := new @ fs)) u)"
proof (cases "u = t")
  case True
  with assms show ?thesis by (intro exI [of _ t]) auto
next
  case False
  with assms(2) show ?thesis by (intro exI [of _ u]) auto
qed

lemmas frames_kept_pop = frames_kept [where new = "[]", simplified append_Nil]
lemmas frames_kept_replace = frames_kept [where new = "[h]" for h, simplified append_Cons append_Nil]

lemma frames_kept_push: "g \<in> set (k u) \<Longrightarrow> \<exists>u. g \<in> set ((k(t := f # k t)) u)"
  by (intro exI [of _ u]) auto

lemma other_objects:
  assumes "stacks_ok k" "k t = f # fs" "frame_object f = Some c" "g \<in> set (k u)" "u = t \<Longrightarrow> g \<in> set fs"
  shows "frame_object g \<noteq> Some c"
proof
  assume g: "frame_object g = Some c"
  then have "c \<in> set (frame_objects hs)" if "g \<in> set hs" for hs
    using that by (force simp: frame_objects_def map_filter_def)
  with assms(4,5) have "c \<in> set (frame_objects (k u))" "u = t \<Longrightarrow> c \<in> set (frame_objects fs)" by simp_all
  moreover have "c \<in> set (frame_objects (k t))" "c \<notin> set (frame_objects fs)"
    using assms(1,2,3) by (auto simp: stacks_ok_def stack_ok_def dest: spec [of _ t])
  ultimately show False using assms(1) by (cases "u = t") (auto simp: stacks_ok_def)
qed

lemma stop_frame_unique:
  assumes "\<forall>u. list_all (frame_ok src u) (k u)" "stacks_ok k" "k t = f # fs" "is_stop f"
    "g \<in> set (k u)" "is_stop g"
  shows "u = t \<and> g = f"
proof -
  have thread: "so_thread src = Some v" if "frame_ok src v h" "is_stop h" for v h
    using that by (cases h) auto
  have "list_all (frame_ok src t) (f # fs)" using assms(1,3) by (metis (no_types))
  then have "frame_ok src t f" by simp
  moreover from assms(1,5) have "frame_ok src u g" by (auto simp: list_all_iff)
  ultimately have "so_thread src = Some t" "so_thread src = Some u" using thread assms(4,6) by blast+
  then have "u = t" by simp
  with assms(3,5,6) stacks_ok_tail(4) [OF assms(2,3,4)] show ?thesis by (auto simp: list_all_iff)
qed

lemma stop_frame_pair:
  assumes "\<forall>u. list_all (frame_ok src u) (k u)" "stacks_ok k" "g \<in> set (k t)" "h \<in> set (k u)"
    "is_stop g" "is_stop h"
  shows "g = h"
proof -
  have thread: "so_thread src = Some v" if "f \<in> set (k v)" "is_stop f" for v f
  proof -
    have "frame_ok src v f" using assms(1) that(1) by (auto simp: list_all_iff)
    with that(2) show ?thesis by (cases f) auto
  qed
  have "so_thread src = Some t" "so_thread src = Some u" using thread assms(3-6) by blast+
  then have "u = t" by simp
  moreover have "length (filter is_stop (k t)) \<le> 1" using assms(2) by (simp add: stacks_ok_def stack_ok_def)
  moreover have "g \<in> set (filter is_stop (k t))" using assms(3,5) by simp
  moreover have "h \<in> set (filter is_stop (k t))" using assms(4,6) \<open>u = t\<close> by simp
  ultimately show ?thesis by (cases "filter is_stop (k t)") auto
qed

lemma stop_invI:
  assumes "list_ok src' k' as" "\<forall>t. list_all (frame_ok src' t) (k' t)" "stacks_ok k'"
    "lock_ok (so_state src') k'" "k' = (sy_stack s)(t := fs)"
  shows "stop_inv (go t fs src' s)"
  using assms by (auto simp: stop_inv_def)

lemma stop_invE:
  assumes "stop_inv s"
  obtains as where "list_ok (sy_source s) (sy_stack s) as"
    "\<forall>t. list_all (frame_ok (sy_source s) t) (sy_stack s t)" "stacks_ok (sy_stack s)"
    "lock_ok (so_state (sy_source s)) (sy_stack s)"
  using assms by (auto simp: stop_inv_def)

lemma unlocked_no_lock_frame:
  assumes "frame_ok src t f" "\<not> locked_bit (so_state src)"
  shows "\<not> lock_frame f"
  using assms by (cases f) auto

lemma frame_object_alive:
  assumes "\<forall>u. list_all (frame_ok src u) (k u)" "c \<in> set (frame_objects (k u))"
  shows "cb_nodes src c \<noteq> None"
proof -
  from assms(2) obtain f where f: "f \<in> set (k u)" "frame_object f = Some c"
    by (auto simp: frame_objects_def map_filter_def)
  with assms(1) have "frame_ok src u f" by (auto simp: list_all_iff)
  with f(2) show ?thesis by (cases f) (auto split: option.splits)
qed

lemma inv_construct:
  assumes inv: "stop_inv s" and user: "in_user_code (sy_stack s t)"
    and free: "cb_nodes (sy_source s) c = None"
    and lock: "try_lock_unless_stopped False (so_state (sy_source s)) = Some (True, st)"
  shows "stop_inv (go t (Registering c # sy_stack s t)
    (set_cb c (Some new_callback) ((sy_source s)\<lparr>so_state := st\<rparr>)) s)"
proof -
  let ?src = "sy_source s" and ?k = "sy_stack s"
  let ?src' = "set_cb c (Some new_callback) (?src\<lparr>so_state := st\<rparr>)" and ?k' = "?k(t := Registering c # ?k t)"
  from lock have st: "so_state ?src = idle" "st = State_t True False"
    by (simp_all add: try_lock_unless_stopped_def split: if_splits)
  from inv obtain as where i: "list_ok ?src ?k as" "\<forall>t. list_all (frame_ok ?src t) (?k t)" "stacks_ok ?k"
    "lock_ok (so_state ?src) ?k" by (rule stop_invE)
  have f: "frame_ok ?src u g \<Longrightarrow> \<not> lock_frame g" for u g
    using unlocked_no_lock_frame [of ?src u g] by (simp add: st)
  show ?thesis
  proof (rule stop_invI)
    show "list_ok ?src' ?k' as"
    proof (rule list_ok_set_cb [OF i(1)])
      show "c \<notin> set as" using list_ok_alive [OF i(1)] free by blast
      show "unlinked_ok ?src' ?k' c n" if "Some new_callback = Some n" for n
        using that by (auto simp: unlinked_ok_def new_callback_def)
      show "in_execution ?src' ?k' d" if "in_execution ?src ?k d" for d
        using that by (rule in_execution_mono) (simp_all add: frames_kept_push del: fun_upd_apply)
    qed (simp_all add: set_cb_def cb_nodes_def st stop_requested_def frames_kept_push del: fun_upd_apply)
    have "\<forall>u. list_all (frame_ok ?src' u) ((?k(t := [Registering c] @ ?k t)) u)"
    proof (rule frames_step [OF i(2), where old = "[]"])
      show "frame_ok ?src' u g" if "frame_ok ?src u g" for u g
        using that f [OF that] by (rule frame_ok_stable) (auto simp: free st stop_requested_def)
    qed (simp_all add: st new_callback_def linked_ok_def)
    then show "\<forall>u. list_all (frame_ok ?src' u) (?k' u)" by simp
    show "stacks_ok ?k'"
    proof (rule stacks_push [OF i(3) user])
      show "\<forall>u. d \<notin> set (frame_objects (?k u))" if "frame_object (Registering c) = Some d" for d
        using that frame_object_alive [OF i(2), of c] free by fastforce
    qed simp
    show "lock_ok (so_state ?src') ?k'" using lock_take [OF i(4)] by (simp add: st)
  qed simp
qed

lemma inv_construct_stopped:
  assumes inv: "stop_inv s" and user: "in_user_code (sy_stack s t)"
    and free: "cb_nodes (sy_source s) c = None"
    and lock: "try_lock_unless_stopped False (so_state (sy_source s)) = Some (False, st)"
  shows "stop_inv (go t (Inline c # sy_stack s t) (set_cb c (Some (new_callback\<lparr>cb_runs := 1\<rparr>)) (sy_source s)) s)"
proof -
  let ?src = "sy_source s" and ?k = "sy_stack s"
  let ?src' = "set_cb c (Some (new_callback\<lparr>cb_runs := 1\<rparr>)) ?src" and ?k' = "?k(t := Inline c # ?k t)"
  from lock have st: "stop_requested ?src"
    by (simp add: try_lock_unless_stopped_def stop_requested_def split: if_splits)
  from inv obtain as where i: "list_ok ?src ?k as" "\<forall>t. list_all (frame_ok ?src t) (?k t)" "stacks_ok ?k"
    "lock_ok (so_state ?src) ?k" by (rule stop_invE)
  show ?thesis
  proof (rule stop_invI)
    show "list_ok ?src' ?k' as"
    proof (rule list_ok_set_cb [OF i(1)])
      show "c \<notin> set as" using list_ok_alive [OF i(1)] free by blast
      show "unlinked_ok ?src' ?k' c n" if "Some (new_callback\<lparr>cb_runs := 1\<rparr>) = Some n" for n
        using that by (auto simp: unlinked_ok_def new_callback_def st)
      show "in_execution ?src' ?k' d" if "in_execution ?src ?k d" for d
        using that by (rule in_execution_mono) (simp_all add: frames_kept_push del: fun_upd_apply)
    qed (simp_all add: frames_kept_push del: fun_upd_apply)
    have "\<forall>u. list_all (frame_ok ?src' u) ((?k(t := [Inline c] @ ?k t)) u)"
    proof (rule frames_step [OF i(2), where old = "[]"])
      show "frame_ok ?src' u g" if "frame_ok ?src u g" for u g
        using that by (rule frame_ok_same) (auto simp: free)
    qed (simp_all add: new_callback_def)
    then show "\<forall>u. list_all (frame_ok ?src' u) (?k' u)" by simp
    show "stacks_ok ?k'"
    proof (rule stacks_push [OF i(3) user])
      show "\<forall>u. d \<notin> set (frame_objects (?k u))" if "frame_object (Inline c) = Some d" for d
        using that frame_object_alive [OF i(2), of c] free by fastforce
    qed simp
    show "lock_ok (so_state ?src') ?k'"
      using lock_same [OF i(4) stacks_ok_user(2) [OF i(3) user]] by simp
  qed simp
qed

lemma inv_inline_done:
  assumes inv: "stop_inv s" and top: "sy_stack s t = Inline c # fs"
  shows "stop_inv (go t fs (sy_source s) s)"
proof -
  let ?src = "sy_source s" and ?k = "sy_stack s"
  from inv obtain as where i: "list_ok ?src ?k as" "\<forall>t. list_all (frame_ok ?src t) (?k t)" "stacks_ok ?k"
    "lock_ok (so_state ?src) ?k" by (rule stop_invE)
  show ?thesis
  proof (rule stop_invI)
    show "list_ok ?src (?k(t := fs)) as"
      by (rule list_ok_same [OF i(1)], simp_all del: fun_upd_apply) (blast dest: frames_kept_pop [of ?k, OF top])
    show "\<forall>u. list_all (frame_ok ?src u) ((?k(t := fs)) u)" using i(2) top by (auto dest: spec [of _ t])
    show "stacks_ok (?k(t := fs))" using i(3) top by (rule stacks_pop)
    show "lock_ok (so_state ?src) (?k(t := fs))"
      using lock_same [OF i(4), of t fs] top stacks_ok_tail(2) [OF i(3) top] by simp
  qed simp
qed

lemma inv_destroy_unregistered:
  assumes inv: "stop_inv s" and user: "in_user_code (sy_stack s t)"
    and node: "cb_nodes (sy_source s) c = Some n" "\<not> cb_src n"
    and obj: "\<forall>u. c \<notin> set (frame_objects (sy_stack s u))"
  shows "stop_inv (go t (sy_stack s t) (set_cb c None (sy_source s)) s)"
proof -
  let ?src = "sy_source s" and ?k = "sy_stack s" and ?src' = "set_cb c None (sy_source s)"
  from inv obtain as where i: "list_ok ?src ?k as" "\<forall>t. list_all (frame_ok ?src t) (?k t)" "stacks_ok ?k"
    "lock_ok (so_state ?src) ?k" by (rule stop_invE)
  have "frame_ok ?src' u g" if g: "g \<in> set (?k u)" "frame_ok ?src u g" for u g
    using g(2)
  proof (rule frame_ok_same)
    fix d m
    assume d: "frame_addr g = Some d" "cb_nodes ?src d = Some m"
    show "cb_nodes ?src' d = Some m \<or> g = Executing d \<and> so_removed ?src' \<or> cb_src m \<and> frame_object g = Some d \<and>
        (\<exists>n'. cb_nodes ?src' d = Some n' \<and> cb_src n' \<and> nd_prev n' = nd_prev m)"
    proof (cases "d = c")
      case True
      have "frame_object g \<noteq> Some c"
        using obj g(1) by (force simp: frame_objects_def map_filter_def)
      with True d node g(2) show ?thesis by (cases g) (auto simp: linked_ok_def)
    qed (simp add: d)
  qed simp_all
  moreover have "list_ok ?src' ?k as"
  proof (rule list_ok_set_cb [OF i(1)])
    show "c \<notin> set as" using list_ok_node(1) [OF i(1) node(1)] node(2) by (auto simp: linked_ok_def)
  qed (auto elim: in_execution_mono)
  ultimately show ?thesis
    using i by (intro stop_invI [where k' = ?k]) (auto simp: list_all_iff)
qed

lemma inv_destroy:
  assumes inv: "stop_inv s" and user: "in_user_code (sy_stack s t)"
    and node: "cb_nodes (sy_source s) c = Some n" "cb_src n"
    and obj: "\<forall>u. c \<notin> set (frame_objects (sy_stack s u))"
    and lock: "stop_lock (so_state (sy_source s)) = Some (prev_state, st)"
  shows "stop_inv (go t (Unregistering c prev_state # sy_stack s t) ((sy_source s)\<lparr>so_state := st\<rparr>) s)"
proof -
  let ?src = "sy_source s" and ?k = "sy_stack s"
  let ?src' = "?src\<lparr>so_state := st\<rparr>" and ?k' = "?k(t := Unregistering c prev_state # ?k t)"
  from lock have st: "\<not> locked_bit (so_state ?src)" "prev_state = so_state ?src"
    "st = State_t True (stopped_bit (so_state ?src))"
    by (auto simp: stop_lock_def split: if_splits)
  from inv obtain as where i: "list_ok ?src ?k as" "\<forall>t. list_all (frame_ok ?src t) (?k t)" "stacks_ok ?k"
    "lock_ok (so_state ?src) ?k" by (rule stop_invE)
  have f: "frame_ok ?src u g \<Longrightarrow> \<not> lock_frame g" for u g
    using unlocked_no_lock_frame [of ?src u g] by (simp add: st)
  show ?thesis
  proof (rule stop_invI)
    show "list_ok ?src' ?k' as"
      by (rule list_ok_same [OF i(1)])
        (simp_all add: st stop_requested_def frames_kept_push del: fun_upd_apply)
    have "\<forall>u. list_all (frame_ok ?src' u) ((?k(t := [Unregistering c prev_state] @ ?k t)) u)"
    proof (rule frames_step [OF i(2), where old = "[]"])
      show "frame_ok ?src' u g" if "frame_ok ?src u g" for u g
        using that f [OF that] by (rule frame_ok_stable) (auto simp: st stop_requested_def)
    qed (use st(1) node in \<open>cases "so_state ?src"; simp add: st stop_requested_def\<close>)+
    then show "\<forall>u. list_all (frame_ok ?src' u) (?k' u)" by simp
    show "stacks_ok ?k'" by (rule stacks_push [OF i(3) user]) (use obj in simp_all)
    show "lock_ok (so_state ?src') ?k'" using lock_take [OF i(4)] by (simp add: st)
  qed simp
qed

lemma inv_request_stop:
  assumes inv: "stop_inv s" and user: "in_user_code (sy_stack s t)"
    and lock: "try_lock_unless_stopped True (so_state (sy_source s)) = Some (True, st)"
  shows "stop_inv (go t (Stopping # sy_stack s t) ((sy_source s)\<lparr>so_state := st, so_thread := Some t\<rparr>) s)"
proof -
  let ?src = "sy_source s" and ?k = "sy_stack s"
  let ?src' = "?src\<lparr>so_state := st, so_thread := Some t\<rparr>" and ?k' = "?k(t := Stopping # ?k t)"
  from lock have st: "so_state ?src = idle" "st = State_t True True"
    by (simp_all add: try_lock_unless_stopped_def split: if_splits)
  from inv obtain as where i: "list_ok ?src ?k as" "\<forall>t. list_all (frame_ok ?src t) (?k t)" "stacks_ok ?k"
    "lock_ok (so_state ?src) ?k" by (rule stop_invE)
  have f: "frame_ok ?src u g \<Longrightarrow> \<not> lock_frame g \<and> \<not> is_stop g" for u g
    by (cases g) (auto simp: st stop_requested_def)
  show ?thesis
  proof (rule stop_invI)
    show "list_ok ?src' ?k' as"
      by (rule list_ok_same [OF i(1)])
        (simp_all add: st stop_requested_def frames_kept_push del: fun_upd_apply)
    have "\<forall>u. list_all (frame_ok ?src' u) ((?k(t := [Stopping] @ ?k t)) u)"
    proof (rule frames_step [OF i(2), where old = "[]"])
      show "frame_ok ?src' u g" if "frame_ok ?src u g" for u g
        using that conjunct1 [OF f [OF that]] by (rule frame_ok_stable) (auto simp: st stop_requested_def)
    qed (simp_all add: st)
    then show "\<forall>u. list_all (frame_ok ?src' u) (?k' u)" by simp
    show "stacks_ok ?k'"
    proof (rule stacks_push [OF i(3) user])
      show "list_all (\<lambda>g. \<not> is_stop g) (?k t)" using i(2) f by (auto simp: list_all_iff)
    qed simp
    show "lock_ok (so_state ?src') ?k'" using lock_take [OF i(4)] by (simp add: st)
  qed simp
qed

lemma inv_relock:
  assumes inv: "stop_inv s" and top: "sy_stack s t = Relocking # fs"
    and lock: "stop_lock (so_state (sy_source s)) = Some (prev_state, st)"
  shows "stop_inv (go t (Stopping # fs) ((sy_source s)\<lparr>so_state := st\<rparr>) s)"
proof -
  let ?src = "sy_source s" and ?k = "sy_stack s"
  let ?src' = "?src\<lparr>so_state := st\<rparr>" and ?k' = "?k(t := Stopping # fs)"
  from lock have st: "\<not> locked_bit (so_state ?src)" "st = State_t True (stopped_bit (so_state ?src))"
    by (auto simp: stop_lock_def split: if_splits)
  from inv obtain as where i: "list_ok ?src ?k as" "\<forall>t. list_all (frame_ok ?src t) (?k t)" "stacks_ok ?k"
    "lock_ok (so_state ?src) ?k" by (rule stop_invE)
  have "list_all (frame_ok ?src t) (Relocking # fs)" using i(2) top by (metis (no_types))
  then have fr: "stop_requested ?src" "so_thread ?src = Some t" by simp_all
  have f: "frame_ok ?src u g \<Longrightarrow> \<not> lock_frame g" for u g
    using unlocked_no_lock_frame [of ?src u g] by (simp add: st)
  show ?thesis
  proof (rule stop_invI)
    show "list_ok ?src' ?k' as"
      by (rule list_ok_same [OF i(1)], simp_all add: st stop_requested_def del: fun_upd_apply)
        (blast dest: frames_kept_replace [of ?k, OF top])
    have "\<forall>u. list_all (frame_ok ?src' u) ((?k(t := [Stopping] @ fs)) u)"
    proof (rule frames_step [OF i(2), where old = "[Relocking]"])
      show "frame_ok ?src' u g" if "frame_ok ?src u g" for u g
        using that f [OF that] by (rule frame_ok_stable) (auto simp: st stop_requested_def)
    qed (use top fr in \<open>simp_all add: st stop_requested_def\<close>)
    then show "\<forall>u. list_all (frame_ok ?src' u) (?k' u)" by simp
    show "stacks_ok ?k'" using i(3) top by (rule stacks_replace) simp_all
    show "lock_ok (so_state ?src') ?k'" using lock_take [OF i(4)] by (simp add: st)
  qed simp
qed

lemma inv_waited:
  assumes inv: "stop_inv s" and top: "sy_stack s t = Waiting c # fs"
    and node: "cb_nodes (sy_source s) c = Some n" "cb_exec_done n"
  shows "stop_inv (go t fs (set_cb c None (sy_source s)) s)"
proof -
  let ?src = "sy_source s" and ?k = "sy_stack s" and ?src' = "set_cb c None (sy_source s)"
  from inv obtain as where i: "list_ok ?src ?k as" "\<forall>t. list_all (frame_ok ?src t) (?k t)" "stacks_ok ?k"
    "lock_ok (so_state ?src) ?k" by (rule stop_invE)
  show ?thesis
  proof (rule stop_invI)
    show "list_ok ?src' (?k(t := fs)) as"
    proof (rule list_ok_set_cb [OF i(1)])
      show "c \<notin> set as" using list_ok_node(1) [OF i(1) node(1)] node(2) by (auto simp: linked_ok_def)
      show "in_execution ?src' (?k(t := fs)) d" if "in_execution ?src ?k d" for d
        using that by (rule in_execution_mono, simp_all del: fun_upd_apply)
          (blast dest: frames_kept_pop [of ?k, OF top])
    qed (simp_all del: fun_upd_apply, blast dest: frames_kept_pop [of ?k, OF top])
    have "\<forall>u. list_all (frame_ok ?src' u) ((?k(t := [] @ fs)) u)"
    proof (rule frames_step [OF i(2), where old = "[Waiting c]"])
      fix u g
      assume g: "g \<in> set (?k u)" "u = t \<Longrightarrow> g \<in> set fs" "frame_ok ?src u g"
      from other_objects [OF i(3) top _ g(1,2)] have o: "frame_object g \<noteq> Some c" by simp
      from g(3) show "frame_ok ?src' u g"
      proof (rule frame_ok_same)
        fix d m
        assume d: "frame_addr g = Some d" "cb_nodes ?src d = Some m"
        with o node g(3) show "cb_nodes ?src' d = Some m \<or> g = Executing d \<and> so_removed ?src' \<or>
            cb_src m \<and> frame_object g = Some d \<and>
            (\<exists>n'. cb_nodes ?src' d = Some n' \<and> cb_src n' \<and> nd_prev n' = nd_prev m)"
          by (cases "d = c"; cases g) (auto simp: linked_ok_def)
      qed simp_all
    qed (use top in simp_all)
    then show "\<forall>u. list_all (frame_ok ?src' u) ((?k(t := fs)) u)" by simp
    show "stacks_ok (?k(t := fs))" using i(3) top by (rule stacks_pop)
    show "lock_ok (so_state ?src') (?k(t := fs))"
      using lock_same [OF i(4), of t fs] top stacks_ok_tail(2) [OF i(3) top] by simp
  qed simp
qed

text \<open>
  The steps of \<^verbatim>\<open>request_stop\<close> around the callback. No other callback is in execution, as there is one
  thread that stops and it has one frame for it.
\<close>

lemma stop_top_execution:
  assumes "\<forall>u. list_all (frame_ok src u) (k u)" "stacks_ok k" "k t = f # fs" "is_stop f" "in_execution src k d"
  shows "f = Popped d \<or> f = Executing d \<and> \<not> so_removed src"
proof -
  from assms(5) obtain u g where "g \<in> set (k u)" "g = Popped d \<or> g = Executing d \<and> \<not> so_removed src"
    by (auto simp: in_execution_def)
  with stop_frame_unique [OF assms(1,2,3,4), of g u] show ?thesis by auto
qed

lemma inv_execute:
  assumes inv: "stop_inv s" and top: "sy_stack s t = Popped c # fs"
  shows "\<exists>src. begin_execute c (sy_source s) = Inr src \<and> stop_inv (go t (Executing c # fs) src s)"
proof -
  let ?src = "sy_source s" and ?k = "sy_stack s"
  from inv obtain as where i: "list_ok ?src ?k as" "\<forall>t. list_all (frame_ok ?src t) (?k t)" "stacks_ok ?k"
    "lock_ok (so_state ?src) ?k" by (rule stop_invE)
  have "list_all (frame_ok ?src t) (Popped c # fs)" using i(2) top by (metis (no_types))
  then obtain n where n: "cb_nodes ?src c = Some n" "nd_prev n = None" "linked_ok n"
    and st: "stop_requested ?src" "so_thread ?src = Some t" by (auto split: option.splits)
  let ?n = "n\<lparr>cb_did_remove := True, cb_runs := cb_runs n + 1\<rparr>"
  let ?src' = "set_cb c (Some ?n) (?src\<lparr>so_removed := False\<rparr>)" and ?k' = "?k(t := Executing c # fs)"
  have nm: "?n = n\<lparr>cb_did_remove := True, cb_runs := 1\<rparr>" using n(3) by (simp add: linked_ok_def)
  have be: "begin_execute c ?src = Inr ?src'"
    using n(1) by (simp add: begin_execute_def put_node_def get_node_def cb_nodes_def set_cb_def)
  have stop: "u = t \<and> g = Popped c" if "g \<in> set (?k u)" "is_stop g" for u g
    using stop_frame_unique [OF i(2,3) top _ that] by simp
  have "stop_inv (go t (Executing c # fs) ?src' s)"
  proof (rule stop_invI)
    show "list_ok ?src' ?k' as"
    proof (rule list_ok_set_cb [OF i(1)])
      show "c \<notin> set as" using list_ok_node(1) [OF i(1) n(1)] n(2) by auto
      show "unlinked_ok ?src' ?k' c m" if "Some ?n = Some m" for m
        using that n st by (auto simp: unlinked_ok_def linked_ok_def in_execution_def)
      show "in_execution ?src' ?k' d" if "d \<noteq> c" "in_execution ?src ?k d" for d
        using stop_top_execution [OF i(2,3) top _ that(2)] that(1) by simp
    qed (simp_all add: set_cb_def cb_nodes_def stop_requested_def del: fun_upd_apply,
        blast dest: frames_kept_replace [of ?k, OF top])
    have "\<forall>u. list_all (frame_ok ?src' u) ((?k(t := [Executing c] @ fs)) u)"
    proof (rule frames_step [OF i(2), where old = "[Popped c]"])
      fix u g
      assume g: "g \<in> set (?k u)" "u = t \<Longrightarrow> g \<in> set fs" "frame_ok ?src u g"
      have ns: "\<not> is_stop g"
        using stop [OF g(1)] g(2) stacks_ok_tail(4) [OF i(3) top] by (auto simp: list_all_iff)
      from g(3) show "frame_ok ?src' u g"
      proof (rule frame_ok_same)
        fix d m
        assume d: "frame_addr g = Some d" "cb_nodes ?src d = Some m"
        with ns n g(3) show "cb_nodes ?src' d = Some m \<or> g = Executing d \<and> so_removed ?src' \<or>
            cb_src m \<and> frame_object g = Some d \<and>
            (\<exists>n'. cb_nodes ?src' d = Some n' \<and> cb_src n' \<and> nd_prev n' = nd_prev m)"
          by (cases "d = c"; cases g) (auto simp: linked_ok_def)
      qed (use ns in simp_all)
    qed (use top n st in \<open>simp_all add: linked_ok_def\<close>)
    then show "\<forall>u. list_all (frame_ok ?src' u) (?k' u)" by simp
    show "stacks_ok ?k'" using i(3) top by (rule stacks_replace) simp_all
    show "lock_ok (so_state ?src') ?k'" using lock_same [OF i(4), of t "Executing c # fs"] top by simp
  qed simp
  with be show ?thesis by blast
qed

lemma inv_executed:
  assumes inv: "stop_inv s" and top: "sy_stack s t = Executing c # fs"
  shows "\<exists>src. end_execute c (sy_source s) = Inr src \<and> stop_inv (go t (Relocking # fs) src s)"
proof -
  let ?src = "sy_source s" and ?k = "sy_stack s" and ?k' = "(sy_stack s)(t := Relocking # fs)"
  from inv obtain as where i: "list_ok ?src ?k as" "\<forall>t. list_all (frame_ok ?src t) (?k t)" "stacks_ok ?k"
    "lock_ok (so_state ?src) ?k" by (rule stop_invE)
  have fr: "list_all (frame_ok ?src t) (Executing c # fs)" using i(2) top by (metis (no_types))
  then have st: "stop_requested ?src" "so_thread ?src = Some t" by auto
  have ns: "\<not> is_stop g" if "g \<in> set (?k u)" "u = t \<Longrightarrow> g \<in> set fs" for u g
    using stop_frame_unique [OF i(2,3) top _ that(1)] that(2) stacks_ok_tail(4) [OF i(3) top]
    by (auto simp: list_all_iff)
  define n where "n = the (cb_nodes ?src c)"
  define src' where "src' = (if so_removed ?src then ?src
    else set_cb c (Some (n\<lparr>cb_did_remove := False, cb_exec_done := True\<rparr>)) ?src)"
  have n: "cb_nodes ?src c = Some n \<and> nd_prev n = None \<and> cb_src n \<and> cb_runs n = 1 \<and> cb_did_remove n"
    if "\<not> so_removed ?src" using fr that by (auto simp: n_def split: option.splits)
  have "end_execute c ?src = Inr src'"
    using n by (auto simp: end_execute_def src'_def put_node_def get_node_def cb_nodes_def set_cb_def)
  moreover have "stop_inv (go t (Relocking # fs) src' s)"
  proof (rule stop_invI)
    have exec: "in_execution ?src ?k d \<Longrightarrow> d = c \<and> \<not> so_removed ?src" for d
      using stop_top_execution [OF i(2,3) top, of d] by simp
    have kept: "Registering d \<in> set (?k u) \<Longrightarrow> \<exists>u. Registering d \<in> set (?k' u)" for d u
      by (blast dest: frames_kept_replace [of ?k, OF top])
    show "list_ok src' ?k' as"
    proof (cases "so_removed ?src")
      case True
      have "unlinked_ok ?src ?k' d m" if "unlinked_ok ?src ?k d m" for d m
        by (rule unlinked_mono [OF that]) (use exec True kept in blast)+
      with i(1) True show ?thesis by (auto simp: list_ok_def src'_def split: if_splits)
    next
      case False
      then have src': "src' = set_cb c (Some (n\<lparr>cb_did_remove := False, cb_exec_done := True\<rparr>)) ?src"
        by (simp add: src'_def)
      show ?thesis
      proof (rule list_ok_set_cb [OF i(1)])
        show "c \<notin> set as" using list_ok_node(1) [OF i(1), of c n] n [OF False] by auto
        show "unlinked_ok src' ?k' c m" if "Some (n\<lparr>cb_did_remove := False, cb_exec_done := True\<rparr>) = Some m" for m
          using that n [OF False] st by (auto simp: src' unlinked_ok_def)
        show "in_execution src' ?k' d" if "d \<noteq> c" "in_execution ?src ?k d" for d
          using exec that by blast
      qed (use kept in \<open>simp_all add: src' del: fun_upd_apply\<close>)
    qed
    have "\<forall>u. list_all (frame_ok src' u) ((?k(t := [Relocking] @ fs)) u)"
    proof (rule frames_step [OF i(2), where old = "[Executing c]"])
      fix u g
      assume g: "g \<in> set (?k u)" "u = t \<Longrightarrow> g \<in> set fs" "frame_ok ?src u g"
      from g(3) show "frame_ok src' u g"
      proof (rule frame_ok_same)
        fix d m
        assume d: "frame_addr g = Some d" "cb_nodes ?src d = Some m"
        with ns [OF g(1,2)] n g(3) show "cb_nodes src' d = Some m \<or> g = Executing d \<and> so_removed src' \<or>
            cb_src m \<and> frame_object g = Some d \<and>
            (\<exists>n'. cb_nodes src' d = Some n' \<and> cb_src n' \<and> nd_prev n' = nd_prev m)"
          by (cases "d = c"; cases g) (auto simp: src'_def linked_ok_def)
      qed (auto simp: src'_def)
    qed (use top st in \<open>auto simp: src'_def\<close>)
    then show "\<forall>u. list_all (frame_ok src' u) (?k' u)" by simp
    show "stacks_ok ?k'" using i(3) top by (rule stacks_replace) simp_all
    show "lock_ok (so_state src') ?k'" using lock_same [OF i(4), of t "Relocking # fs"] top by (simp add: src'_def)
  qed simp
  ultimately show ?thesis by blast
qed

text \<open>The steps that change the list: the links of its nodes change, their other fields do not.\<close>

lemma only_links_flags:
  assumes "only_links A s (s' :: callback chain)" "ch_nodes s' d = Some n'"
  shows "\<exists>n. ch_nodes s d = Some n \<and> linked_ok n' = linked_ok n \<and> cb_src n' = cb_src n"
proof -
  from assms have "map_option node.more (ch_nodes s d) = Some (node.more n')" by (metis only_links_def option.map(2))
  then obtain n where "ch_nodes s d = Some n" "node.more n = node.more n'" by auto
  with callback_more [of n n'] show ?thesis by (auto simp: linked_ok_def)
qed

lemma outside_list:
  assumes "list_ok src k as" "only_links (set as) (so_callbacks src) cbs"
    "cb_nodes src d = Some m" "nd_prev m = None"
  shows "ch_nodes cbs d = Some m"
proof -
  have "d \<notin> set as" using list_ok_node(1) [OF assms(1,3)] assms(4) by blast
  with assms(2,3) show ?thesis by (simp add: only_links_def cb_nodes_def)
qed

lemma list_ok_links:
  assumes "list_ok src k as" "chain_rep cbs bs" "only_links A (so_callbacks src) cbs" "A \<subseteq> set as"
    and "set bs \<subseteq> set as" "so_callbacks src' = cbs"
    and "\<And>d n. cb_nodes src' d = Some n \<Longrightarrow> d \<in> set as \<Longrightarrow> d \<notin> set bs \<Longrightarrow> unlinked_ok src' k' d n"
    and "\<And>d n. unlinked_ok src k d n \<Longrightarrow> unlinked_ok src' k' d n"
  shows "list_ok src' k' bs"
proof -
  have "if d \<in> set bs then linked_ok n else unlinked_ok src' k' d n" if d: "cb_nodes src' d = Some n" for d n
  proof (cases "d \<in> set as")
    case True
    from only_links_flags [OF assms(3)] d assms(6) obtain m where
      "cb_nodes src d = Some m" "linked_ok n = linked_ok m" by (auto simp: cb_nodes_def)
    with True list_ok_node(1) [OF assms(1)] assms(7) [OF d] show ?thesis by auto
  next
    case False
    with assms(3,4) have "ch_nodes cbs d = cb_nodes src d" by (auto simp: only_links_def cb_nodes_def)
    with False d assms(5,6) list_ok_node(2) [OF assms(1)] assms(8) show ?thesis by (auto simp: cb_nodes_def)
  qed
  with assms(2,6) show ?thesis by (simp add: list_ok_def)
qed

lemma release_frames:
  assumes "stacks_ok k" "lock_ok st k" "k t = f # fs" "lock_frame f" "g \<in> set (k u)" "u = t \<Longrightarrow> g \<in> set fs"
  shows "\<not> lock_frame g"
  using lock_owner [OF assms(1,2,3,4) _ assms(5)] assms(6) stacks_ok_tail(3) [OF assms(1,3)]
  by (cases "u = t") (auto simp: list_all_iff)

lemma inv_stop_empty:
  assumes inv: "stop_inv s" and top: "sy_stack s t = Stopping # fs"
    and head: "ch_head (so_callbacks (sy_source s)) = None"
  shows "stop_inv (go t fs ((sy_source s)\<lparr>so_state := stopped\<rparr>) s)"
proof -
  let ?src = "sy_source s" and ?k = "sy_stack s" and ?src' = "(sy_source s)\<lparr>so_state := stopped\<rparr>"
  from inv obtain as where i: "list_ok ?src ?k as" "\<forall>t. list_all (frame_ok ?src t) (?k t)" "stacks_ok ?k"
    "lock_ok (so_state ?src) ?k" by (rule stop_invE)
  show ?thesis
  proof (rule stop_invI)
    show "list_ok ?src' (?k(t := fs)) as"
      by (rule list_ok_same [OF i(1)], simp_all del: fun_upd_apply)
        (blast dest: frames_kept_pop [of ?k, OF top])
    have "\<forall>u. list_all (frame_ok ?src' u) ((?k(t := [] @ fs)) u)"
    proof (rule frames_step [OF i(2), where old = "[Stopping]"])
      show "frame_ok ?src' u g" if "g \<in> set (?k u)" "u = t \<Longrightarrow> g \<in> set fs" "frame_ok ?src u g" for u g
        using that(3) release_frames [OF i(3,4) top _ that(1,2)] by (rule frame_ok_stable) auto
    qed (use top in simp_all)
    then show "\<forall>u. list_all (frame_ok ?src' u) ((?k(t := fs)) u)" by simp
    show "stacks_ok (?k(t := fs))" using i(3) top by (rule stacks_pop)
    show "lock_ok (so_state ?src') (?k(t := fs))"
      using lock_release [OF i(4) top _ stacks_ok_tail(2) [OF i(3) top]] by simp
  qed simp
qed

lemma inv_stop_pop:
  assumes inv: "stop_inv s" and top: "sy_stack s t = Stopping # fs"
    and head: "ch_head (so_callbacks (sy_source s)) = Some c"
  shows "\<exists>src. pop_locked (sy_source s) = Inr (Some c, src) \<and> stop_inv (go t (Popped c # fs) src s)"
proof -
  let ?src = "sy_source s" and ?k = "sy_stack s"
  from inv obtain as where i: "list_ok ?src ?k as" "\<forall>t. list_all (frame_ok ?src t) (?k t)" "stacks_ok ?k"
    "lock_ok (so_state ?src) ?k" by (rule stop_invE)
  have "list_all (frame_ok ?src t) (Stopping # fs)" using i(2) top by (metis (no_types))
  then have st: "so_state ?src = State_t True True" "so_thread ?src = Some t" by simp_all
  have rep: "chain_rep (so_callbacks ?src) as" using i(1) by (simp add: list_ok_def)
  with head obtain bs where as: "as = c # bs" by (cases as) (auto simp: chain_rep_def)
  with pop_front_rep rep obtain cbs n where p: "pop_front (so_callbacks ?src) = Inr (Some c, cbs)"
    "chain_rep cbs bs" "only_links (set as) (so_callbacks ?src) cbs" "ch_nodes cbs c = Some n" "nd_prev n = None"
    by metis
  let ?src' = "?src\<lparr>so_callbacks := cbs, so_state := stopped\<rparr>" and ?k' = "?k(t := Popped c # fs)"
  obtain m where m: "cb_nodes ?src c = Some m" "linked_ok n = linked_ok m" "cb_src n = cb_src m"
    using only_links_flags [OF p(3,4)] by (auto simp: cb_nodes_def)
  with list_ok_node(1) [OF i(1), of c m] as have n: "linked_ok n" "cb_src n" by (auto simp: linked_ok_def)
  have "stop_inv (go t (Popped c # fs) ?src' s)"
  proof (rule stop_invI)
    show "list_ok ?src' ?k' bs"
    proof (rule list_ok_links [OF i(1) p(2,3)])
      show "unlinked_ok ?src' ?k' d m" if "cb_nodes ?src' d = Some m" "d \<in> set as" "d \<notin> set bs" for d m
        using that p(4,5) n as by (auto simp: unlinked_ok_def in_execution_def)
      show "unlinked_ok ?src' ?k' d m" if "unlinked_ok ?src ?k d m" for d m
      proof (rule unlinked_mono [OF that])
        show "in_execution ?src ?k d \<Longrightarrow> in_execution ?src' ?k' d"
          using stop_top_execution [OF i(2,3) top, of d] by simp
      qed (simp_all add: st del: fun_upd_apply, blast dest: frames_kept_replace [of ?k, OF top])
    qed (auto simp: as)
    have "\<forall>u. list_all (frame_ok ?src' u) ((?k(t := [Popped c] @ fs)) u)"
    proof (rule frames_step [OF i(2), where old = "[Stopping]"])
      fix u g
      assume g: "g \<in> set (?k u)" "u = t \<Longrightarrow> g \<in> set fs" "frame_ok ?src u g"
      from g(3) release_frames [OF i(3,4) top _ g(1,2)] show "frame_ok ?src' u g"
        by (rule frame_ok_stable) (use outside_list [OF i(1) p(3)] in \<open>simp_all add: stop_requested_def\<close>)
    qed (use top p(4,5) n st in simp_all)
    then show "\<forall>u. list_all (frame_ok ?src' u) (?k' u)" by simp
    show "stacks_ok ?k'" using i(3) top by (rule stacks_replace) simp_all
    show "lock_ok (so_state ?src') ?k'" using lock_release [OF i(4) top, of "Popped c # fs"] by simp
  qed simp
  with p(1) show ?thesis by (simp add: pop_locked_eq)
qed

text \<open>The end of a constructor.\<close>

lemma register_locked_rep:
  assumes "list_ok src k as" "cb_nodes src c = Some n" "nd_prev n = None" "linked_ok (n\<lparr>cb_src := True\<rparr>)"
  shows "\<exists>cbs. register_locked c src = Inr (src\<lparr>so_callbacks := cbs, so_state := idle\<rparr>) \<and>
    chain_rep cbs (c # as) \<and> (\<forall>d. d \<notin> set (c # as) \<longrightarrow> ch_nodes cbs d = cb_nodes src d) \<and>
    (\<forall>d m. d \<in> set (c # as) \<longrightarrow> ch_nodes cbs d = Some m \<longrightarrow> linked_ok m)"
proof -
  have c: "c \<notin> set as" using list_ok_node(1) [OF assms(1,2)] assms(3) by blast
  have rep: "chain_rep (so_callbacks src) as" using assms(1) by (simp add: list_ok_def)
  from cb.attach_rep [OF rep _ c] assms(2) obtain cbs where a: "link_callback c (so_callbacks src) = Inr cbs"
    "chain_rep cbs (c # as)" "only_links (set (c # as)) (so_callbacks src) cbs" by (auto simp: cb_nodes_def)
  from a(2) obtain m where m: "ch_nodes cbs c = Some m" by (auto simp: chain_rep_def split: option.splits)
  let ?cbs = "cbs\<lparr>ch_nodes := (ch_nodes cbs)(c \<mapsto> m\<lparr>cb_src := True\<rparr>)\<rparr>"
  have "map_option node.more (ch_nodes cbs c) = map_option node.more (cb_nodes src c)"
    using a(3) by (simp add: only_links_def cb_nodes_def)
  then have "node.more m = node.more n" by (simp add: m assms(2))
  then have "linked_ok (m\<lparr>cb_src := True\<rparr>)"
    using callback_more [of m n] assms(4) by (simp add: linked_ok_def)
  moreover have "linked_ok x" if "d \<in> set as" "ch_nodes cbs d = Some x" for d x
  proof -
    from only_links_flags [OF a(3) that(2)] obtain y where "cb_nodes src d = Some y" "linked_ok x = linked_ok y"
      by (auto simp: cb_nodes_def)
    with list_ok_node(1) [OF assms(1)] that(1) show ?thesis by blast
  qed
  moreover have "chain_rep ?cbs (c # as)"
    using a(2) c m by (auto simp: chain_rep_def)
  moreover have "register_locked c src = Inr (src\<lparr>so_callbacks := ?cbs, so_state := idle\<rparr>)"
    using a(1) m by (simp add: register_locked_def put_node_def get_node_def)
  moreover have "\<forall>d. d \<notin> set (c # as) \<longrightarrow> ch_nodes ?cbs d = cb_nodes src d"
    using a(3) by (auto simp: only_links_def cb_nodes_def)
  ultimately show ?thesis
    by (intro exI [of _ ?cbs] conjI) auto
qed

lemma inv_registered:
  assumes inv: "stop_inv s" and top: "sy_stack s t = Registering c # fs"
  shows "\<exists>src. register_locked c (sy_source s) = Inr src \<and> stop_inv (go t fs src s)"
proof -
  let ?src = "sy_source s" and ?k = "sy_stack s"
  from inv obtain as where i: "list_ok ?src ?k as" "\<forall>t. list_all (frame_ok ?src t) (?k t)" "stacks_ok ?k"
    "lock_ok (so_state ?src) ?k" by (rule stop_invE)
  have "list_all (frame_ok ?src t) (Registering c # fs)" using i(2) top by (metis (no_types))
  then obtain n where st: "so_state ?src = State_t True False"
    and n: "cb_nodes ?src c = Some n" "nd_prev n = None" "linked_ok (n\<lparr>cb_src := True\<rparr>)" "\<not> cb_src n"
    by (auto split: option.splits)
  from register_locked_rep [OF i(1) n(1,2,3)] obtain cbs where r:
    "register_locked c ?src = Inr (?src\<lparr>so_callbacks := cbs, so_state := idle\<rparr>)" "chain_rep cbs (c # as)"
    "\<And>d. d \<notin> set (c # as) \<Longrightarrow> ch_nodes cbs d = cb_nodes ?src d"
    "\<And>d m. d \<in> set (c # as) \<Longrightarrow> ch_nodes cbs d = Some m \<Longrightarrow> linked_ok m" by blast
  let ?src' = "?src\<lparr>so_callbacks := cbs, so_state := idle\<rparr>"
  have "stop_inv (go t fs ?src' s)"
  proof (rule stop_invI)
    have "unlinked_ok ?src' (?k(t := fs)) d m" if "d \<noteq> c" "unlinked_ok ?src ?k d m" for d m
    proof (rule unlinked_mono [OF that(2)])
      show "in_execution ?src ?k d \<Longrightarrow> in_execution ?src' (?k(t := fs)) d"
        by (erule in_execution_mono, simp_all del: fun_upd_apply) (blast dest: frames_kept_pop [of ?k, OF top])
    qed (use that(1) in \<open>simp_all add: st stop_requested_def del: fun_upd_apply\<close>,
        blast dest: frames_kept_pop [of ?k, OF top])
    with r(2,3,4) list_ok_node(2) [OF i(1)] show "list_ok ?src' (?k(t := fs)) (c # as)"
      by (auto simp: list_ok_def)
    have "\<forall>u. list_all (frame_ok ?src' u) ((?k(t := [] @ fs)) u)"
    proof (rule frames_step [OF i(2), where old = "[Registering c]"])
      fix u g
      assume g: "g \<in> set (?k u)" "u = t \<Longrightarrow> g \<in> set fs" "frame_ok ?src u g"
      from other_objects [OF i(3) top _ g(1,2)] have o: "frame_object g \<noteq> Some c" by simp
      have ns: "\<not> is_stop g" using g(3) by (cases g) (auto simp: st stop_requested_def)
      from g(3) release_frames [OF i(3,4) top _ g(1,2)] show "frame_ok ?src' u g"
      proof (rule frame_ok_stable)
        fix d m
        assume d: "frame_addr g = Some d" "cb_nodes ?src d = Some m" "nd_prev m = None"
        from d(1) o ns have "d \<noteq> c" by (cases g) auto
        moreover have "d \<notin> set as" using list_ok_node(1) [OF i(1) d(2)] d(3) by blast
        ultimately show "cb_nodes ?src' d = Some m \<or> g = Executing d \<and> so_removed ?src'" using r(3) d(2) by simp
      qed (simp_all add: st stop_requested_def)
    qed (use top in simp_all)
    then show "\<forall>u. list_all (frame_ok ?src' u) ((?k(t := fs)) u)" by simp
    show "stacks_ok (?k(t := fs))" using i(3) top by (rule stacks_pop)
    show "lock_ok (so_state ?src') (?k(t := fs))"
      using lock_release [OF i(4) top _ stacks_ok_tail(2) [OF i(3) top]] by simp
  qed simp
  with r(1) show ?thesis by simp
qed

text \<open>
  The end of a destructor that took the lock: the callback is in the list; or it is not, and the
  thread is the one that runs the callbacks; or it is not, and the thread has to wait.
\<close>

lemma inv_unregister_linked:
  assumes inv: "stop_inv s" and top: "sy_stack s t = Unregistering c prev_state # fs"
    and c: "cb_nodes (sy_source s) c = Some n" "nd_prev n \<noteq> None"
  shows "\<exists>cbs. unregister_locked t c prev_state (sy_source s) =
      Inr (False, (sy_source s)\<lparr>so_callbacks := cbs, so_state := prev_state\<rparr>) \<and>
    stop_inv (go t fs (set_cb c None ((sy_source s)\<lparr>so_callbacks := cbs, so_state := prev_state\<rparr>)) s)"
proof -
  let ?src = "sy_source s" and ?k = "sy_stack s"
  from inv obtain as where i: "list_ok ?src ?k as" "\<forall>t. list_all (frame_ok ?src t) (?k t)" "stacks_ok ?k"
    "lock_ok (so_state ?src) ?k" by (rule stop_invE)
  have "list_all (frame_ok ?src t) (Unregistering c prev_state # fs)" using i(2) top by (metis (no_types))
  then have st: "prev_state = State_t False (stop_requested ?src)" by simp
  have mem: "c \<in> set as" "linked_ok n" using list_ok_node [OF i(1) c(1)] c(2) by blast+
  have rep: "chain_rep (so_callbacks ?src) as" "distinct as" using i(1) by (simp_all add: list_ok_def chain_rep_def)
  from cb.detach_rep [OF rep(1) mem(1)] obtain cbs where d: "unlink_callback c (so_callbacks ?src) = Inr cbs"
    "chain_rep cbs (remove1 c as)" "only_links (set as) (so_callbacks ?src) cbs" by blast
  let ?src1 = "?src\<lparr>so_callbacks := cbs, so_state := prev_state\<rparr>" and ?k' = "?k(t := fs)"
  let ?src' = "set_cb c None ?src1"
  have kept: "g \<noteq> Unregistering c prev_state \<Longrightarrow> g \<in> set (?k u) \<Longrightarrow> \<exists>u. g \<in> set (?k' u)" for g u
    by (blast dest: frames_kept_pop [of ?k, OF top])
  have "stop_inv (go t fs ?src' s)"
  proof (rule stop_invI)
    have un: "unlinked_ok ?src' ?k' d m" if "unlinked_ok ?src ?k d m" for d m
    proof (rule unlinked_mono [OF that])
      show "in_execution ?src ?k d \<Longrightarrow> in_execution ?src' ?k' d"
        using kept by (elim in_execution_mono) (simp_all del: fun_upd_apply, blast)
    qed (use kept in \<open>simp_all add: st del: fun_upd_apply\<close>)
    have nodes: "cb_nodes ?src' = (ch_nodes cbs)(c := None)" by simp
    have "if d \<in> set (remove1 c as) then linked_ok m else unlinked_ok ?src' ?k' d m"
      if dm: "cb_nodes ?src' d = Some m" for d m
    proof (cases "d \<in> set as")
      case True
      from dm have dm': "ch_nodes cbs d = Some m" "d \<noteq> c" by (auto simp: nodes split: if_splits)
      from only_links_flags [OF d(3) dm'(1)] obtain m' where "cb_nodes ?src d = Some m'" "linked_ok m = linked_ok m'"
        by (auto simp: cb_nodes_def)
      with True dm'(2) list_ok_node(1) [OF i(1)] rep(2) show ?thesis by auto
    next
      case False
      from dm have "ch_nodes cbs d = Some m" by (auto simp: nodes split: if_splits)
      with False d(3) have "cb_nodes ?src d = Some m" by (simp add: only_links_def cb_nodes_def)
      with False un list_ok_node(2) [OF i(1)] rep(2) show ?thesis by simp
    qed
    moreover have "chain_rep (so_callbacks ?src') (remove1 c as)"
      using d(2) rep(2) by (simp add: set_cb_def cb_nodes_def chain_rep_def)
    ultimately show "list_ok ?src' ?k' (remove1 c as)" unfolding list_ok_def by blast
    have "\<forall>u. list_all (frame_ok ?src' u) ((?k(t := [] @ fs)) u)"
    proof (rule frames_step [OF i(2), where old = "[Unregistering c prev_state]"])
      fix u g
      assume g: "g \<in> set (?k u)" "u = t \<Longrightarrow> g \<in> set fs" "frame_ok ?src u g"
      from g(3) release_frames [OF i(3,4) top _ g(1,2)] show "frame_ok ?src' u g"
      proof (rule frame_ok_stable)
        fix d m
        assume "cb_nodes ?src d = Some m" "nd_prev m = None"
        with outside_list [OF i(1) d(3) this] c show "cb_nodes ?src' d = Some m \<or> g = Executing d \<and> so_removed ?src'"
          by auto
      qed (simp_all add: st)
    qed (use top in simp_all)
    then show "\<forall>u. list_all (frame_ok ?src' u) (?k' u)" by simp
    show "stacks_ok ?k'" using i(3) top by (rule stacks_pop)
    show "lock_ok (so_state ?src') ?k'"
      using lock_release [OF i(4) top _ stacks_ok_tail(2) [OF i(3) top]] by (simp add: st)
  qed simp
  moreover have "unregister_locked t c prev_state ?src = Inr (False, ?src1)"
    using c d(1) by (auto simp: unregister_locked_def get_node_def cb_nodes_def)
  ultimately show ?thesis by blast
qed

lemma own_execution:
  assumes "\<forall>u. list_all (frame_ok src u) (k u)" "stacks_ok k" "k t = f # fs" "\<not> is_stop f"
    "so_thread src = Some t" "in_execution src k d"
  shows "Executing d \<in> set fs \<and> \<not> so_removed src"
proof -
  from assms(6) obtain u g where g: "g \<in> set (k u)" "g = Popped d \<or> g = Executing d \<and> \<not> so_removed src"
    by (auto simp: in_execution_def)
  with assms(1) have "frame_ok src u g" by (auto simp: list_all_iff)
  with g(2) assms(5) have "u = t" by auto
  with g assms(3,4) stacks_ok_tail(1) [OF assms(2,3)] show ?thesis by (auto simp: list_all_iff)
qed

text \<open>A callback that points to the variable of \<^verbatim>\<open>request_stop\<close> is the one in execution.\<close>

lemma removed_execution:
  assumes "\<forall>u. list_all (frame_ok src u) (k u)" "stacks_ok k" "unlinked_ok src k c n" "cb_src n"
    "cb_did_remove n" "in_execution src k d"
  shows "d = c"
proof -
  from assms(3,4,5) have "in_execution src k c" by (auto simp: unlinked_ok_def)
  with assms(6) obtain t u g h where gh: "g \<in> set (k t)" "g = Popped c \<or> g = Executing c"
    "h \<in> set (k u)" "h = Popped d \<or> h = Executing d" by (auto simp: in_execution_def)
  with stop_frame_pair [OF assms(1,2) gh(1,3)] show ?thesis by auto
qed

lemma inv_unregister_own:
  assumes inv: "stop_inv s" and top: "sy_stack s t = Unregistering c prev_state # fs"
    and c: "cb_nodes (sy_source s) c = Some n" "nd_prev n = None" and me: "so_thread (sy_source s) = Some t"
  shows "stop_inv (go t fs (set_cb c None
    ((sy_source s)\<lparr>so_state := prev_state, so_removed := so_removed (sy_source s) \<or> cb_did_remove n\<rparr>)) s)"
proof -
  let ?src = "sy_source s" and ?k = "sy_stack s" and ?k' = "(sy_stack s)(t := fs)"
  let ?src' = "set_cb c None (?src\<lparr>so_state := prev_state, so_removed := so_removed ?src \<or> cb_did_remove n\<rparr>)"
  from inv obtain as where i: "list_ok ?src ?k as" "\<forall>t. list_all (frame_ok ?src t) (?k t)" "stacks_ok ?k"
    "lock_ok (so_state ?src) ?k" by (rule stop_invE)
  have "list_all (frame_ok ?src t) (Unregistering c prev_state # fs)" using i(2) top by (metis (no_types))
  then have st: "prev_state = State_t False (stop_requested ?src)" "cb_src n" by (simp_all add: c)
  have c_out: "c \<notin> set as" "unlinked_ok ?src ?k c n" using list_ok_node [OF i(1) c(1)] c(2) by blast+
  have kept: "g \<noteq> Unregistering c prev_state \<Longrightarrow> g \<in> set (?k u) \<Longrightarrow> \<exists>u. g \<in> set (?k' u)" for g u
    by (blast dest: frames_kept_pop [of ?k, OF top])
  have exec: "Executing d \<in> set fs \<and> \<not> so_removed ?src" if "in_execution ?src ?k d" for d
    by (rule own_execution [OF i(2,3) top _ me that]) simp_all
  have did: "d = c" if "cb_did_remove n" "in_execution ?src ?k d" for d
    by (rule removed_execution [OF i(2,3) c_out(2) st(2) that])
  show ?thesis
  proof (rule stop_invI)
    show "list_ok ?src' ?k' as"
    proof (rule list_ok_set_cb [OF i(1) c_out(1)])
      show "in_execution ?src' ?k' d" if "d \<noteq> c" "in_execution ?src ?k d" for d
        using exec [OF that(2)] did that by (auto simp: in_execution_def)
    qed (use kept in \<open>simp_all add: st set_cb_def cb_nodes_def del: fun_upd_apply\<close>)
    have "\<forall>u. list_all (frame_ok ?src' u) ((?k(t := [] @ fs)) u)"
    proof (rule frames_step [OF i(2), where old = "[Unregistering c prev_state]"])
      fix u g
      assume g: "g \<in> set (?k u)" "u = t \<Longrightarrow> g \<in> set fs" "frame_ok ?src u g"
      from other_objects [OF i(3) top _ g(1,2)] have o: "frame_object g \<noteq> Some c" by simp
      from g(3) release_frames [OF i(3,4) top _ g(1,2)] show "frame_ok ?src' u g"
      proof (rule frame_ok_stable)
        fix d m
        assume d: "frame_addr g = Some d" "cb_nodes ?src d = Some m"
        show "cb_nodes ?src' d = Some m \<or> g = Executing d \<and> so_removed ?src'"
        proof (cases "d = c")
          case True
          with d(1) o have "g = Popped c \<or> g = Executing c" by (cases g) auto
          moreover have "g \<noteq> Popped c"
          proof
            assume "g = Popped c"
            with g(1) exec [of c] have "Executing c \<in> set (?k t)" by (auto simp: in_execution_def top)
            from stop_frame_pair [OF i(2,3) g(1) this] \<open>g = Popped c\<close> show False by simp
          qed
          ultimately show ?thesis using True g(3) c by auto
        qed (simp add: d)
      qed (simp_all add: st)
    qed (use top in simp_all)
    then show "\<forall>u. list_all (frame_ok ?src' u) (?k' u)" by simp
    show "stacks_ok ?k'" using i(3) top by (rule stacks_pop)
    show "lock_ok (so_state ?src') ?k'"
      using lock_release [OF i(4) top _ stacks_ok_tail(2) [OF i(3) top]] by (simp add: st)
  qed simp
qed

lemma inv_unregister_wait:
  assumes inv: "stop_inv s" and top: "sy_stack s t = Unregistering c prev_state # fs"
    and c: "cb_nodes (sy_source s) c = Some n" "nd_prev n = None" and other: "so_thread (sy_source s) \<noteq> Some t"
  shows "stop_inv (go t (Waiting c # fs) ((sy_source s)\<lparr>so_state := prev_state\<rparr>) s)"
proof -
  let ?src = "sy_source s" and ?k = "sy_stack s" and ?src' = "(sy_source s)\<lparr>so_state := prev_state\<rparr>"
  let ?k' = "?k(t := Waiting c # fs)"
  from inv obtain as where i: "list_ok ?src ?k as" "\<forall>t. list_all (frame_ok ?src t) (?k t)" "stacks_ok ?k"
    "lock_ok (so_state ?src) ?k" by (rule stop_invE)
  have "list_all (frame_ok ?src t) (Unregistering c prev_state # fs)" using i(2) top by (metis (no_types))
  then have st: "prev_state = State_t False (stop_requested ?src)" "cb_src n" by (simp_all add: c)
  have "unlinked_ok ?src ?k c n" using list_ok_node [OF i(1) c(1)] c(2) by blast
  with st(2) have req: "stop_requested ?src" by (simp add: unlinked_ok_def)
  show ?thesis
  proof (rule stop_invI)
    show "list_ok ?src' ?k' as"
      by (rule list_ok_same [OF i(1)], simp_all add: st del: fun_upd_apply)
        (blast dest: frames_kept_replace [of ?k, OF top])
    have "\<forall>u. list_all (frame_ok ?src' u) ((?k(t := [Waiting c] @ fs)) u)"
    proof (rule frames_step [OF i(2), where old = "[Unregistering c prev_state]"])
      show "frame_ok ?src' u g" if "g \<in> set (?k u)" "u = t \<Longrightarrow> g \<in> set fs" "frame_ok ?src u g" for u g
        using that(3) release_frames [OF i(3,4) top _ that(1,2)] by (rule frame_ok_stable) (auto simp: st)
    qed (use top c other st req in simp_all)
    then show "\<forall>u. list_all (frame_ok ?src' u) (?k' u)" by simp
    show "stacks_ok ?k'" using i(3) top by (rule stacks_replace) simp_all
    show "lock_ok (so_state ?src') ?k'" using lock_release [OF i(4) top, of "Waiting c # fs"] by (simp add: st)
  qed simp
qed

lemma inv_unregistered:
  assumes inv: "stop_inv s" and top: "sy_stack s t = Unregistering c prev_state # fs"
  shows "\<exists>wait src. unregister_locked t c prev_state (sy_source s) = Inr (wait, src) \<and>
    stop_inv (if wait then go t (Waiting c # fs) src s else go t fs (set_cb c None src) s)"
proof -
  let ?src = "sy_source s"
  have "list_all (frame_ok ?src t) (Unregistering c prev_state # fs)"
    using inv top unfolding stop_inv_def by metis
  then obtain n where n: "cb_nodes ?src c = Some n" by (auto split: option.splits)
  show ?thesis
  proof (cases "nd_prev n")
    case (Some sl)
    with inv_unregister_linked [OF inv top n] show ?thesis by fastforce
  next
    case None
    then have u: "unregister_locked t c prev_state ?src =
      (if so_thread ?src = Some t then
         Inr (False, ?src\<lparr>so_state := prev_state, so_removed := so_removed ?src \<or> cb_did_remove n\<rparr>)
       else Inr (True, ?src\<lparr>so_state := prev_state\<rparr>))"
      using n by (cases ?src) (auto simp: unregister_locked_def get_node_def cb_nodes_def Let_def)
    show ?thesis
      using inv_unregister_own [OF inv top n None] inv_unregister_wait [OF inv top n None] by (auto simp: u)
  qed
qed

lemma stop_step_inv:
  assumes "stop_step s r" "stop_inv s"
  shows "\<exists>s'. r = Inr s' \<and> stop_inv s'"
  using assms
proof cases
  case (construct t c st)
  with inv_construct [OF assms(2)] show ?thesis by simp
next
  case (construct_stopped t c st)
  with inv_construct_stopped [OF assms(2)] show ?thesis by simp
next
  case (registered t c fs)
  with inv_registered [OF assms(2)] show ?thesis by force
next
  case (inline_done t c fs)
  with inv_inline_done [OF assms(2)] show ?thesis by simp
next
  case (destroy_unregistered t c n)
  with inv_destroy_unregistered [OF assms(2)] show ?thesis by simp
next
  case (destroy t c n prev_state st)
  with inv_destroy [OF assms(2)] show ?thesis by simp
next
  case (unregistered t c prev_state fs)
  with inv_unregistered [OF assms(2)] show ?thesis by force
next
  case (waited t c fs n)
  with inv_waited [OF assms(2)] show ?thesis by simp
next
  case (request_stop t st)
  with inv_request_stop [OF assms(2)] show ?thesis by simp
next
  case (stop_loop t fs)
  show ?thesis
  proof (cases "ch_head (so_callbacks (sy_source s))")
    case None
    with stop_loop inv_stop_empty [OF assms(2) _ None] show ?thesis by (simp add: pop_locked_def)
  next
    case (Some c)
    with stop_loop inv_stop_pop [OF assms(2) _ Some] show ?thesis by force
  qed
next
  case (execute t c fs)
  with inv_execute [OF assms(2)] show ?thesis by force
next
  case (executed t c fs)
  with inv_executed [OF assms(2)] show ?thesis by force
next
  case (relock t fs prev_state st)
  with inv_relock [OF assms(2)] show ?thesis by simp
qed

text \<open>While callbacks are left in the list of a stopped source, \<^verbatim>\<open>request_stop\<close> is at work.\<close>

definition draining :: "system \<Rightarrow> bool" where
  "draining s \<longleftrightarrow> (\<exists>t f. f \<in> set (sy_stack s t) \<and> is_stop f)"

definition drain_inv :: "system \<Rightarrow> bool" where
  "drain_inv s \<longleftrightarrow> (stop_requested (sy_source s) \<longrightarrow> ch_head (so_callbacks (sy_source s)) \<noteq> None \<longrightarrow> draining s)"

lemma draining_go:
  "draining (go t fs src s) \<longleftrightarrow> (\<exists>f \<in> set fs. is_stop f) \<or> (\<exists>u f. u \<noteq> t \<and> f \<in> set (sy_stack s u) \<and> is_stop f)"
  by (auto simp: draining_def split: if_splits)

lemma draining_top: "is_stop f \<Longrightarrow> draining (go t (f # fs) src s)"
  by (simp add: draining_go)

lemma draining_mono:
  assumes "draining s" "\<And>f. f \<in> set (sy_stack s t) \<Longrightarrow> is_stop f \<Longrightarrow> \<exists>g \<in> set fs. is_stop g"
  shows "draining (go t fs src s)"
  using assms by (auto simp: draining_go draining_def) metis

lemma linked_head:
  assumes "stop_inv s" "cb_nodes (sy_source s) c = Some n" "nd_prev n \<noteq> None"
  shows "ch_head (so_callbacks (sy_source s)) \<noteq> None"
proof -
  from assms(1) obtain as where l: "list_ok (sy_source s) (sy_stack s) as" by (rule stop_invE)
  with list_ok_node(2) [OF l assms(2)] assms(3) have "c \<in> set as" by blast
  with l show ?thesis by (cases as) (auto simp: list_ok_def chain_rep_def)
qed

lemma unregister_head:
  assumes "stop_inv s" "unregister_locked t c st (sy_source s) = Inr (wait, src)"
    "ch_head (so_callbacks src) \<noteq> None"
  shows "ch_head (so_callbacks (sy_source s)) \<noteq> None"
proof (cases "\<exists>n. cb_nodes (sy_source s) c = Some n \<and> nd_prev n \<noteq> None")
  case True
  with linked_head [OF assms(1)] show ?thesis by blast
next
  case False
  with assms(2,3) show ?thesis
    by (auto simp: unregister_locked_def get_node_def cb_nodes_def Let_def res_simps split: option.splits if_splits)
qed

lemma Inr_eq_bindR: "Inr y = bindR m f \<longleftrightarrow> (\<exists>x. m = Inr x \<and> f x = Inr y)"
  by (cases m) auto

lemma drain_step:
  assumes "stop_step s (Inr s')" "stop_inv s" "drain_inv s"
  shows "drain_inv s'"
  using assms(1)
proof cases
  case (registered t c fs)
  then show ?thesis by (auto simp: drain_inv_def register_locked_def Inr_eq_bindR res_simps stop_requested_def)
next
  case (unregistered t c prev_state fs)
  then obtain wait src where u: "unregister_locked t c prev_state (sy_source s) = Inr (wait, src)"
    "s' = (if wait then go t (Waiting c # fs) src s else go t fs (set_cb c None src) s)" by (auto simp: Inr_eq_bindR res_simps)
  have "list_all (frame_ok (sy_source s) t) (Unregistering c prev_state # fs)"
    using assms(2) unregistered(2) unfolding stop_inv_def by metis
  then have "stop_requested src = stop_requested (sy_source s)"
    using u(1) by (auto simp: unregister_locked_def Let_def Inr_eq_bindR res_simps stop_requested_def split: if_splits)
  with unregister_head [OF assms(2) u(1)] assms(3) unregistered(2) show ?thesis
    by (auto simp: u(2) drain_inv_def set_cb_def intro!: draining_mono)
next
  case (stop_loop t fs)
  then obtain cb src where p: "pop_locked (sy_source s) = Inr (cb, src)"
    "s' = (case cb of None \<Rightarrow> go t fs src s | Some c \<Rightarrow> go t (Popped c # fs) src s)"
    by (auto simp: Inr_eq_bindR)
  show ?thesis
  proof (cases cb)
    case None
    with p(1) have "ch_head (so_callbacks src) = None"
      by (auto simp: pop_locked_def res_simps Let_def split: option.splits)
    with p(2) None show ?thesis by (simp add: drain_inv_def)
  next
    case (Some c)
    with p(2) show ?thesis by (simp add: drain_inv_def draining_go)
  qed
next
  case (execute t c fs)
  then show ?thesis by (auto simp: drain_inv_def begin_execute_def Inr_eq_bindR res_simps draining_go)
next
  case (executed t c fs)
  then show ?thesis by (auto simp: drain_inv_def end_execute_def Inr_eq_bindR res_simps draining_go split: if_splits)
qed (use assms(3) in \<open>auto simp: drain_inv_def set_cb_def draining_top stop_requested_def stop_lock_def
    try_lock_unless_stopped_def split: if_splits intro!: draining_mono\<close>)

lemma reachable_invs:
  assumes "stop_reachable s"
  shows "stop_inv s \<and> drain_inv s"
  using assms
proof induction
  case init
  then show ?case using stop_inv_init by (simp add: drain_inv_def init_system_def new_stop_source_def stop_requested_def)
next
  case (step s s')
  with stop_step_inv [OF step.hyps(2)] drain_step [OF step.hyps(2)] show ?case by simp
qed

lemma reachable_frame:
  "stop_reachable s \<Longrightarrow> f \<in> set (sy_stack s t) \<Longrightarrow> frame_ok (sy_source s) t f"
  using reachable_invs by (auto simp: stop_inv_def list_all_iff)

lemma reachable_node:
  assumes "stop_reachable s" "cb_nodes (sy_source s) c = Some n"
  shows "linked_ok n \<and> ch_head (so_callbacks (sy_source s)) \<noteq> None \<or>
    unlinked_ok (sy_source s) (sy_stack s) c n \<and> nd_prev n = None"
proof -
  from assms(1) have inv: "stop_inv s" by (simp add: reachable_invs)
  then obtain as where "list_ok (sy_source s) (sy_stack s) as" by (rule stop_invE)
  from list_ok_node [OF this assms(2)] linked_head [OF inv assms(2)] show ?thesis by blast
qed

lemma execution_runs:
  assumes "stop_reachable s" "cb_nodes (sy_source s) c = Some n" "in_execution (sy_source s) (sy_stack s) c"
  shows "cb_runs n \<le> 1 \<and> draining s"
proof -
  from assms(3) obtain t f where f: "f \<in> set (sy_stack s t)"
    "f = Popped c \<or> f = Executing c \<and> \<not> so_removed (sy_source s)" by (auto simp: in_execution_def)
  then have "draining s" unfolding draining_def by fastforce
  with reachable_frame [OF assms(1) f(1)] f(2) assms(2) show ?thesis by (auto simp: linked_ok_def)
qed

section \<open>Properties\<close>

text \<open>
  An example: thread 0 constructs a callback and requests a stop, up to the point where it has taken
  the callback from the list.
\<close>

definition demo :: "state_t \<Rightarrow> addr option \<Rightarrow> callback \<Rightarrow> tid option \<Rightarrow> (tid \<Rightarrow> frame list) \<Rightarrow> system" where
  "demo st head n th k =
     \<lparr>sy_source = \<lparr>so_state = st, so_callbacks = \<lparr>ch_head = head, ch_nodes = [1 \<mapsto> n]\<rparr>, so_thread = th,
        so_removed = False\<rparr>, sy_stack = k\<rparr>"

definition demo_cb :: "slot option \<Rightarrow> bool \<Rightarrow> bool \<Rightarrow> nat \<Rightarrow> callback" where
  "demo_cb prev did_remove exec_done runs =
     \<lparr>nd_next = None, nd_prev = prev, cb_src = True, cb_did_remove = did_remove, cb_exec_done = exec_done,
      cb_runs = runs\<rparr>"

definition demo_stack :: "frame list \<Rightarrow> frame list \<Rightarrow> tid \<Rightarrow> frame list" where
  "demo_stack fs gs t = (if t = 0 then fs else if t = 1 then gs else [])"

lemma demo_stack_simps [simp]:
  "demo_stack fs gs 0 = fs" "demo_stack fs gs (Suc 0) = gs"
  "(demo_stack fs gs)(0 := hs) = demo_stack hs gs" "(demo_stack fs gs)(Suc 0 := hs) = demo_stack fs hs"
  by (auto simp: demo_stack_def)

lemma init_demo: "init_system = \<lparr>sy_source = new_stop_source, sy_stack = demo_stack [] []\<rparr>"
  by (auto simp: init_system_def demo_stack_def)

lemmas demo_defs = demo_def demo_cb_def go_def set_cb_def cb_nodes_def put_node_def get_node_def new_callback_def

lemma demo_registered: "stop_reachable (demo idle (Some 1) (demo_cb (Some Head) False False 0) None (demo_stack [] []))"
proof -
  let ?s1 = "demo (State_t True False) None new_callback None (demo_stack [Registering 1] [])"
  have "stop_step init_system (Inr ?s1)"
    using stop_step.construct [of init_system 0 1 "State_t True False"]
    by (simp add: demo_defs init_demo new_stop_source_def try_lock_unless_stopped_def)
  then have r1: "stop_reachable ?s1" by (rule stop_reachable.step [OF stop_reachable.init])
  have "stop_step ?s1 (Inr (demo idle (Some 1) (demo_cb (Some Head) False False 0) None (demo_stack [] [])))"
    using stop_step.registered [of ?s1 0 1 "[]"]
    by (simp add: demo_defs register_locked_def link_callback_def)
  with r1 show ?thesis by (rule stop_reachable.step)
qed

lemma demo_popped: "stop_reachable (demo stopped None (demo_cb None False False 0) (Some 0) (demo_stack [Popped 1] []))"
proof -
  let ?s0 = "demo idle (Some 1) (demo_cb (Some Head) False False 0) None (demo_stack [] [])"
  let ?s1 = "demo (State_t True True) (Some 1) (demo_cb (Some Head) False False 0) (Some 0) (demo_stack [Stopping] [])"
  have "stop_step ?s0 (Inr ?s1)"
    using stop_step.request_stop [of ?s0 0 "State_t True True"]
    by (simp add: demo_defs try_lock_unless_stopped_def)
  then have r1: "stop_reachable ?s1" by (rule stop_reachable.step [OF demo_registered])
  have "stop_step ?s1 (Inr (demo stopped None (demo_cb None False False 0) (Some 0) (demo_stack [Popped 1] [])))"
    using stop_step.stop_loop [of ?s1 0 "[]"]
    by (simp add: demo_defs pop_locked_def)
  with r1 show ?thesis by (rule stop_reachable.step)
qed

lemma demo_waiting:
  "stop_reachable (demo stopped None (demo_cb None False False 0) (Some 0) (demo_stack [Popped 1] [Waiting 1]))"
proof -
  let ?s0 = "demo stopped None (demo_cb None False False 0) (Some 0) (demo_stack [Popped 1] [])"
  let ?s1 = "demo (State_t True True) None (demo_cb None False False 0) (Some 0)
    (demo_stack [Popped 1] [Unregistering 1 stopped])"
  have "stop_step ?s0 (Inr ?s1)"
    using stop_step.destroy [of ?s0 1 1 "demo_cb None False False 0" stopped "State_t True True"]
    by (simp add: demo_defs stop_lock_def) (simp add: demo_stack_def)
  then have r1: "stop_reachable ?s1" by (rule stop_reachable.step [OF demo_popped])
  have "stop_step ?s1 (Inr (demo stopped None (demo_cb None False False 0) (Some 0) (demo_stack [Popped 1] [Waiting 1])))"
    using stop_step.unregistered [of ?s1 1 1 stopped "[]"]
    by (simp add: demo_defs unregister_locked_def)
  with r1 show ?thesis by (rule stop_reachable.step)
qed

lemma demo_stopped: "stop_reachable (demo stopped None (demo_cb None False True 1) (Some 0) (demo_stack [] []))"
proof -
  let ?s0 = "demo stopped None (demo_cb None False False 0) (Some 0) (demo_stack [Popped 1] [])"
  let ?s1 = "demo stopped None (demo_cb None True False 1) (Some 0) (demo_stack [Executing 1] [])"
  let ?s2 = "demo stopped None (demo_cb None False True 1) (Some 0) (demo_stack [Relocking] [])"
  let ?s3 = "demo (State_t True True) None (demo_cb None False True 1) (Some 0) (demo_stack [Stopping] [])"
  have "stop_step ?s0 (Inr ?s1)"
    using stop_step.execute [of ?s0 0 1 "[]"] by (simp add: demo_defs begin_execute_def)
  then have r1: "stop_reachable ?s1" by (rule stop_reachable.step [OF demo_popped])
  have "stop_step ?s1 (Inr ?s2)"
    using stop_step.executed [of ?s1 0 1 "[]"] by (simp add: demo_defs end_execute_def)
  then have r2: "stop_reachable ?s2" by (rule stop_reachable.step [OF r1])
  have "stop_step ?s2 (Inr ?s3)"
    using stop_step.relock [of ?s2 0 "[]" stopped "State_t True True"]
    by (simp add: demo_defs stop_lock_def)
  then have r3: "stop_reachable ?s3" by (rule stop_reachable.step [OF r2])
  have "stop_step ?s3 (Inr (demo stopped None (demo_cb None False True 1) (Some 0) (demo_stack [] [])))"
    using stop_step.stop_loop [of ?s3 0 "[]"] by (simp add: demo_defs pop_locked_def)
  with r3 show ?thesis by (rule stop_reachable.step)
qed

text \<open>
  C28: whatever threads and callbacks do, in any interleaving, the stop source never touches a
  callback that has been destroyed; and the callback that \<^verbatim>\<open>request_stop\<close> is running has not been
  destroyed, unless it destroyed itself.
\<close>

theorem stop_source_memory_safe:
  assumes "stop_reachable s" "stop_step s r"
  shows "(\<exists>s'. r = Inr s' \<and> stop_reachable s') \<and>
    (\<forall>t c. Executing c \<in> set (sy_stack s t) \<longrightarrow> so_removed (sy_source s) \<or> cb_nodes (sy_source s) c \<noteq> None)"
proof -
  from stop_step_inv [OF assms(2)] reachable_invs [OF assms(1)] obtain s' where "r = Inr s'" by blast
  moreover from this assms have "stop_reachable s'" by (blast intro: stop_reachable.step)
  moreover have "so_removed (sy_source s) \<or> cb_nodes (sy_source s) c \<noteq> None" if "Executing c \<in> set (sy_stack s t)" for t c
    using reachable_frame [OF assms(1) that] by (auto split: option.splits)
  ultimately show ?thesis by auto
qed

theorem stop_source_memory_safe_witness:
  "\<exists>r s'. stop_step (demo stopped None (demo_cb None False False 0) (Some 0) (demo_stack [Popped 1] [Waiting 1])) r \<and>
    r = Inr s' \<and> stop_reachable s'"
proof -
  let ?s = "demo stopped None (demo_cb None False False 0) (Some 0) (demo_stack [Popped 1] [Waiting 1])"
  have "\<exists>r. stop_step ?s r" using stop_step.execute [of ?s 0 1 "[]"] by (auto simp: demo_def)
  with stop_source_memory_safe [OF demo_waiting] show ?thesis by blast
qed

text \<open>
  C29: a callback runs at most once, not at all before a stop is requested, and exactly once when the
  request has been carried out; this holds for callbacks that register before, while and after the
  stop is requested.
\<close>

theorem stop_callbacks_exactly_once:
  assumes "stop_reachable s" "cb_nodes (sy_source s) c = Some n"
    and "\<forall>t. Registering c \<notin> set (sy_stack s t)"
  shows "cb_runs n \<le> 1 \<and>
    (\<not> stop_requested (sy_source s) \<longrightarrow> cb_runs n = 0) \<and>
    (stop_requested (sy_source s) \<and> \<not> draining s \<longrightarrow> cb_runs n = 1)"
proof -
  have "draining s" if "stop_requested (sy_source s)" "ch_head (so_callbacks (sy_source s)) \<noteq> None"
    using reachable_invs [OF assms(1)] that by (simp add: drain_inv_def)
  with reachable_node [OF assms(1,2)] execution_runs [OF assms(1,2)] assms(3) show ?thesis
    by (auto simp: linked_ok_def unlinked_ok_def split: if_splits)
qed

theorem stop_callbacks_exactly_once_witness:
  "cb_runs (demo_cb None False True 1) = 1"
proof -
  let ?s = "demo stopped None (demo_cb None False True 1) (Some 0) (demo_stack [] [])"
  have "cb_nodes (sy_source ?s) 1 = Some (demo_cb None False True 1)" "stop_requested (sy_source ?s)"
    by (simp_all add: demo_def cb_nodes_def stop_requested_def)
  moreover have "sy_stack ?s t = []" for t by (simp add: demo_def demo_stack_def)
  ultimately show ?thesis
    using stop_callbacks_exactly_once [OF demo_stopped, of 1] by (simp add: draining_def)
qed

text \<open>
  C30: no destructor waits in vain: it waits for a callback that another thread has taken or is
  running, and when that is over it can return.
\<close>

theorem stop_wait_ends:
  assumes "stop_reachable s" "Waiting c \<in> set (sy_stack s t)"
  shows "(\<exists>n. cb_nodes (sy_source s) c = Some n \<and> cb_exec_done n) \<or>
    (\<exists>u. u \<noteq> t \<and> (Popped c \<in> set (sy_stack s u) \<or> Executing c \<in> set (sy_stack s u)))"
proof -
  from reachable_frame [OF assms] obtain n where n: "cb_nodes (sy_source s) c = Some n" "cb_src n" "nd_prev n = None"
    "so_thread (sy_source s) \<noteq> Some t" by (auto split: option.splits)
  from reachable_invs [OF assms(1)] obtain as where "list_ok (sy_source s) (sy_stack s) as"
    by (auto elim: stop_invE)
  from list_ok_node [OF this n(1)] n have "unlinked_ok (sy_source s) (sy_stack s) c n" by blast
  with n(2) have "cb_exec_done n \<or> in_execution (sy_source s) (sy_stack s) c"
    by (auto simp: unlinked_ok_def)
  moreover have "u \<noteq> t" if "f \<in> set (sy_stack s u)" "f = Popped c \<or> f = Executing c" for u f
    using reachable_frame [OF assms(1) that(1)] that(2) n(4) by auto
  ultimately show ?thesis using n(1) by (auto simp: in_execution_def)
qed

theorem stop_wait_ends_witness:
  "\<exists>u. u \<noteq> 1 \<and> Popped 1 \<in> set (demo_stack [Popped 1] [Waiting 1] u)"
  using stop_wait_ends [OF demo_waiting, of 1 1]
  by (auto simp: demo_def demo_cb_def cb_nodes_def demo_stack_def split: if_splits)

end
