(* ===== verification/Amongoc_Race.thy ===== *)
theory Amongoc_Race
  imports Amongoc_Status
begin

text \<open>
  Simultaneous operations: \<^verbatim>\<open>first_where\<close> and \<^verbatim>\<open>first_completed\<close> (\<^verbatim>\<open>src/amongoc/nano/first.hpp\<close>),
  \<^verbatim>\<open>when_all\<close> (\<^verbatim>\<open>nano/all.hpp\<close>), the operation that starts them (\<^verbatim>\<open>nano/simultaneous.hpp\<close>), and
  \<^verbatim>\<open>amongoc_timeout\<close> (\<^verbatim>\<open>async.cpp\<close>), which races an operation against a timer.

  The operations that run simultaneously are not under the control of the code here: they complete in
  any order. A completion is the index of the operation and its value. In \<^verbatim>\<open>first_where\<close> a completion
  changes the state in one critical section, so a run is a sequence of completions; in \<^verbatim>\<open>when_all\<close> it
  is two atomic actions, and runs interleave them.
\<close>

section \<open>The first accepted result\<close>

record 'r first_handler =
  fh_outstanding :: nat
  fh_result :: "(nat \<times> 'r) option"
  fh_stop_requested :: bool

definition new_first_handler :: "nat \<Rightarrow> 'r first_handler" where
  "new_first_handler n = \<lparr>fh_outstanding = n, fh_result = None, fh_stop_requested = False\<rparr>"

text \<open>
  The critical section. Requesting the stop runs the stop callbacks of the other operations while
  the mutex is held; \<open>reenters\<close> says that one of them completes its operation on the spot, which
  locks the mutex again on the same thread.
\<close>

definition nth_result_locked ::
  "(nat \<Rightarrow> 'r \<Rightarrow> bool) \<Rightarrow> bool \<Rightarrow> nat \<Rightarrow> 'r \<Rightarrow> 'r first_handler \<Rightarrow> (nat \<times> 'r first_handler) res" where
  "nth_result_locked pred reenters n x h =
     (let accepted = pred n x;
          nremain = fh_outstanding h - 1;
          h = h\<lparr>fh_outstanding := nremain\<rparr>
      in if fh_result h = None \<and> accepted then
           if reenters then Inl Out_of_bounds
           else Inr (nremain, h\<lparr>fh_stop_requested := True, fh_result := Some (n, x)\<rparr>)
         else Inr (nremain, h))"

text \<open>
  After the last completion the receiver is called. Without a result \<^verbatim>\<open>_handle_no_accept\<close> is called
  first: it terminates the program, unless the predicate has \<^verbatim>\<open>on_none_accepted\<close> (\<open>hook\<close>), and then
  the empty result is read all the same.
\<close>

definition handle_no_accept :: "bool \<Rightarrow> unit res" where
  "handle_no_accept hook = (if hook then Inr () else Inl Abort_called)"

definition first_nth_result ::
  "(nat \<Rightarrow> 'r \<Rightarrow> bool) \<Rightarrow> bool \<Rightarrow> bool \<Rightarrow> nat \<times> 'r \<Rightarrow> 'r first_handler \<Rightarrow> ((nat \<times> 'r) list \<times> 'r first_handler) res" where
  "first_nth_result pred hook reenters c h =
     bindR (nth_result_locked pred reenters (fst c) (snd c) h) (\<lambda>(nremain, h).
     if nremain = 0 then
       bindR (if fh_result h = None then handle_no_accept hook else Inr ()) (\<lambda>_.
       case fh_result h of None \<Rightarrow> Inl Out_of_bounds | Some r \<Rightarrow> Inr ([r], h))
     else Inr ([], h))"

text \<open>A run: what the receiver is called with, completion by completion.\<close>

fun first_run ::
  "(nat \<Rightarrow> 'r \<Rightarrow> bool) \<Rightarrow> bool \<Rightarrow> (nat \<Rightarrow> bool) \<Rightarrow> (nat \<times> 'r) list \<Rightarrow> 'r first_handler \<Rightarrow>
   ((nat \<times> 'r) list \<times> 'r first_handler) res" where
  "first_run pred hook reenters [] h = Inr ([], h)"
| "first_run pred hook reenters (c # cs) h =
     bindR (first_nth_result pred hook (reenters (fst c)) c h) (\<lambda>(out, h).
     bindR (first_run pred hook reenters cs h) (\<lambda>(outs, h). Inr (out @ outs, h)))"

text \<open>\<^verbatim>\<open>simultaneous_operation::start\<close>: with no operations at all the handler is told at once.\<close>

definition first_start ::
  "(nat \<Rightarrow> 'r \<Rightarrow> bool) \<Rightarrow> bool \<Rightarrow> (nat \<Rightarrow> bool) \<Rightarrow> (nat \<times> 'r) list \<Rightarrow> ((nat \<times> 'r) list \<times> 'r first_handler) res" where
  "first_start pred hook reenters completions =
     (if completions = [] then bindR (handle_no_accept hook) (\<lambda>_. Inr ([], new_first_handler 0))
      else first_run pred hook reenters completions (new_first_handler (length completions)))"

definition first_completed ::
  "(nat \<Rightarrow> bool) \<Rightarrow> (nat \<times> 'r) list \<Rightarrow> ((nat \<times> 'r) list \<times> 'r first_handler) res" where
  "first_completed reenters completions = first_start (\<lambda>_ _. True) False reenters completions"

section \<open>Timeouts\<close>

text \<open>
  \<^verbatim>\<open>amongoc_timeout\<close>: the operation has index 0 and the timer index 1. Whatever the timer completes
  with, the operation is reported to have timed out when the timer was first.
\<close>

type_synonym 'b emitter_result = "amongoc_status \<times> 'b option"

definition status_timed_out :: "platform \<Rightarrow> amongoc_status" where
  "status_timed_out pf = status_from pf \<lparr>ec_category = Cxx Generic, ec_value = ETIMEDOUT\<rparr>"

definition amongoc_timeout ::
  "platform \<Rightarrow> (nat \<Rightarrow> bool) \<Rightarrow> (nat \<times> 'b emitter_result) list \<Rightarrow> 'b emitter_result list res" where
  "amongoc_timeout pf reenters completions =
     bindR (first_completed reenters completions) (\<lambda>(outs, _).
     Inr (map (\<lambda>(index, r). if index = 0 then r else (status_timed_out pf, None)) outs))"

section \<open>All results\<close>

record 'r all_handler =
  ah_opts :: "'r option list"
  ah_n_remaining :: nat

definition new_all_handler :: "nat \<Rightarrow> 'r all_handler" where
  "new_all_handler n = \<lparr>ah_opts = replicate n None, ah_n_remaining = n\<rparr>"

text \<open>\<^verbatim>\<open>_finish\<close>: reading an optional that holds nothing is undefined.\<close>

definition all_finish :: "'r all_handler \<Rightarrow> 'r list res" where
  "all_finish h = (if None \<in> set (ah_opts h) then Inl Out_of_bounds else Inr (map the (ah_opts h)))"

definition all_store :: "nat \<Rightarrow> 'r \<Rightarrow> 'r all_handler \<Rightarrow> 'r all_handler" where
  "all_store n x h = h\<lparr>ah_opts := (ah_opts h)[n := Some x]\<rparr>"

definition all_count :: "'r all_handler \<Rightarrow> ('r list list \<times> 'r all_handler) res" where
  "all_count h =
     (let old = ah_n_remaining h; h = h\<lparr>ah_n_remaining := old - 1\<rparr> in
      if old = 1 then bindR (all_finish h) (\<lambda>fin. Inr ([fin], h)) else Inr ([], h))"

text \<open>
  Where an operation is: running, between the two actions of \<^verbatim>\<open>nth_result\<close>, or behind them; and the
  system, with what the receiver has been called with.
\<close>

datatype 'r op_phase = Running | Stored 'r | Counted 'r

record 'r all_system =
  as_handler :: "'r all_handler"
  as_phase :: "'r op_phase list"
  as_sent :: "'r list list"

inductive all_step :: "'r all_system \<Rightarrow> 'r all_system res \<Rightarrow> bool" for s where
  store: "n < length (as_phase s) \<Longrightarrow> as_phase s ! n = Running \<Longrightarrow>
    all_step s (Inr (s\<lparr>as_handler := all_store n x (as_handler s), as_phase := (as_phase s)[n := Stored x]\<rparr>))"
| count: "n < length (as_phase s) \<Longrightarrow> as_phase s ! n = Stored x \<Longrightarrow>
    all_step s (bindR (all_count (as_handler s)) (\<lambda>(out, h).
      Inr (s\<lparr>as_handler := h, as_phase := (as_phase s)[n := Counted x], as_sent := as_sent s @ out\<rparr>)))"

text \<open>\<^verbatim>\<open>start\<close>: with no operations the handler finishes at once.\<close>

definition all_start :: "nat \<Rightarrow> 'r all_system res" where
  "all_start n =
     bindR (if n = 0 then bindR (all_finish (new_all_handler 0)) (\<lambda>fin. Inr [fin]) else Inr []) (\<lambda>sent.
     Inr \<lparr>as_handler = new_all_handler n, as_phase = replicate n Running, as_sent = sent\<rparr>)"

inductive all_reachable :: "nat \<Rightarrow> 'r all_system \<Rightarrow> bool" for n where
  start: "all_start n = Inr s \<Longrightarrow> all_reachable n s"
| step: "all_reachable n s \<Longrightarrow> all_step s (Inr s') \<Longrightarrow> all_reachable n s'"

section \<open>Lemmas\<close>

lemma first_run_rest:
  assumes "fh_outstanding h = length cs" "fh_result h = Some r" "cs \<noteq> []"
  shows "first_run pred hook reenters cs h = Inr ([r], h\<lparr>fh_outstanding := 0\<rparr>)"
  using assms
proof (induction cs arbitrary: h)
  case (Cons c cs)
  show ?case
  proof (cases "cs = []")
    case True
    with Cons.prems show ?thesis by (simp add: first_nth_result_def nth_result_locked_def Let_def)
  next
    case False
    with Cons.prems Cons.IH [of "h\<lparr>fh_outstanding := length cs\<rparr>"] show ?thesis
      by (simp add: first_nth_result_def nth_result_locked_def Let_def)
  qed
qed simp

text \<open>The state after a completion that is not accepted, and after the first that is.\<close>

lemma first_run_find:
  assumes "fh_outstanding h = length cs" "fh_result h = None"
  shows "first_run pred hook reenters cs h =
    (case find (\<lambda>(i, x). pred i x) cs of
       Some c \<Rightarrow> if reenters (fst c) then Inl Out_of_bounds else Inr ([c], h\<lparr>fh_outstanding := 0, fh_result := Some c, fh_stop_requested := True\<rparr>)
     | None \<Rightarrow> if cs = [] then Inr ([], h) else Inl (if hook then Out_of_bounds else Abort_called))"
  using assms
proof (induction cs arbitrary: h)
  case (Cons c cs)
  let ?h = "h\<lparr>fh_outstanding := length cs, fh_stop_requested := True, fh_result := Some c\<rparr>"
  show ?case
  proof (cases "pred (fst c) (snd c)")
    case True
    then have "find (\<lambda>(i, x). pred i x) (c # cs) = Some c" by (simp add: split_beta)
    with True Cons.prems first_run_rest [of ?h cs c pred hook reenters] show ?thesis
      by (cases "cs = []"; cases h) (simp_all add: first_nth_result_def nth_result_locked_def Let_def)
  next
    case False
    with Cons.prems Cons.IH [of "h\<lparr>fh_outstanding := length cs\<rparr>"] show ?thesis
      by (cases "cs = []")
        (auto simp: first_nth_result_def nth_result_locked_def Let_def split_beta handle_no_accept_def
          split: option.split)
  qed
qed simp

text \<open>The invariant of \<^verbatim>\<open>when_all\<close>.\<close>

definition counted :: "'r op_phase \<Rightarrow> bool" where
  "counted p \<longleftrightarrow> (\<exists>x. p = Counted x)"

fun stored_value :: "'r op_phase \<Rightarrow> 'r option" where
  "stored_value Running = None"
| "stored_value (Stored x) = Some x"
| "stored_value (Counted x) = Some x"

definition all_inv :: "nat \<Rightarrow> 'r all_system \<Rightarrow> bool" where
  "all_inv n s \<longleftrightarrow> length (as_phase s) = n \<and>
     ah_opts (as_handler s) = map stored_value (as_phase s) \<and>
     ah_n_remaining (as_handler s) = length (filter (\<lambda>p. \<not> counted p) (as_phase s)) \<and>
     as_sent s = (if list_all counted (as_phase s) then [map (\<lambda>p. the (stored_value p)) (as_phase s)] else [])"

lemma filter_update:
  "i < length xs \<Longrightarrow> P (xs ! i) \<Longrightarrow> \<not> P y \<Longrightarrow> length (filter P (xs[i := y])) = length (filter P xs) - 1"
proof (induction xs arbitrary: i)
  case (Cons x xs)
  show ?case
  proof (cases i)
    case (Suc j)
    with Cons have j: "j < length xs" "P (xs ! j)" by simp_all
    then have "filter P xs \<noteq> []" by (auto simp: filter_empty_conv)
    with Cons Suc j show ?thesis by auto
  qed (use Cons in simp)
qed simp

lemma filter_update_same:
  "i < length xs \<Longrightarrow> P (xs ! i) \<Longrightarrow> P y \<Longrightarrow> length (filter P (xs[i := y])) = length (filter P xs)"
proof (induction xs arbitrary: i)
  case (Cons x xs)
  then show ?case by (cases i) auto
qed simp

lemma all_inv_store:
  assumes inv: "all_inv n s" and i: "i < length (as_phase s)" "as_phase s ! i = Running"
  shows "all_inv n (s\<lparr>as_handler := all_store i x (as_handler s), as_phase := (as_phase s)[i := Stored x]\<rparr>)"
proof -
  have "\<not> list_all counted (as_phase s)"
    using i by (auto simp: list_all_length counted_def)
  moreover have "\<not> list_all counted ((as_phase s)[i := Stored x])"
    using i by (auto simp: list_all_length counted_def)
  moreover have "length (filter (\<lambda>p. \<not> counted p) ((as_phase s)[i := Stored x])) =
      length (filter (\<lambda>p. \<not> counted p) (as_phase s))"
    by (rule filter_update_same) (use i in \<open>simp_all add: counted_def\<close>)
  ultimately show ?thesis
    using i inv by (simp add: all_inv_def all_store_def map_update)
qed

lemma all_inv_count:
  assumes inv: "all_inv n s" and i: "i < length (as_phase s)" "as_phase s ! i = Stored x"
  shows "\<exists>out h. all_count (as_handler s) = Inr (out, h) \<and>
    all_inv n (s\<lparr>as_handler := h, as_phase := (as_phase s)[i := Counted x], as_sent := as_sent s @ out\<rparr>)"
proof -
  let ?ps = "as_phase s" and ?ps' = "(as_phase s)[i := Counted x]"
  have nc: "\<not> counted (?ps ! i)" using i by (simp add: counted_def)
  then have old: "\<not> list_all counted ?ps" using i by (auto simp: list_all_length)
  have vals: "map stored_value ?ps' = map stored_value ?ps"
    using i by (simp add: map_update list_update_same_conv)
  then have thes: "map (\<lambda>p. the (stored_value p)) ?ps' = map the (map stored_value ?ps)"
    by (metis (no_types, lifting) comp_def map_map map_eq_conv)
  have len: "length (filter (\<lambda>p. \<not> counted p) ?ps') = length (filter (\<lambda>p. \<not> counted p) ?ps) - 1"
    by (rule filter_update) (use i in \<open>simp_all add: counted_def\<close>)
  have pos: "0 < length (filter (\<lambda>p. \<not> counted p) ?ps)"
    using nc i nth_mem [OF i(1)] by (auto simp: filter_empty_conv simp del: nth_mem)
  have "list_all counted ?ps' \<longleftrightarrow> length (filter (\<lambda>p. \<not> counted p) ?ps') = 0"
    by (auto simp: list_all_iff filter_empty_conv)
  with len pos have fin: "list_all counted ?ps' \<longleftrightarrow> length (filter (\<lambda>p. \<not> counted p) ?ps) = 1"
    by linarith
  have full: "None \<notin> set (map stored_value ?ps')" if "list_all counted ?ps'"
    using that by (auto simp: list_all_iff counted_def)
  show ?thesis
  proof (cases "list_all counted ?ps'")
    case True
    with fin vals thes len old full inv show ?thesis
      by (simp add: all_inv_def all_count_def all_finish_def Let_def)
  next
    case False
    with fin vals len old inv show ?thesis
      by (simp add: all_inv_def all_count_def Let_def)
  qed
qed

lemma all_inv_step:
  assumes "all_inv n s" "all_step s r"
  shows "\<exists>s'. r = Inr s' \<and> all_inv n s'"
  using assms(2)
proof cases
  case (store i x)
  with all_inv_store [OF assms(1) store(2,3)] show ?thesis by simp
next
  case (count i x)
  with all_inv_count [OF assms(1) count(2,3)] show ?thesis by auto
qed

lemma all_start_ok: "\<exists>s. all_start n = Inr s"
  by (auto simp: all_start_def all_finish_def new_all_handler_def)

lemma all_inv_start: "all_start n = Inr s \<Longrightarrow> all_inv n s"
  by (cases n)
    (auto simp: all_start_def all_finish_def new_all_handler_def all_inv_def counted_def)

lemma all_reachable_inv: "all_reachable n s \<Longrightarrow> all_inv n s"
proof (induction rule: all_reachable.induct)
  case (start s)
  then show ?case by (rule all_inv_start)
next
  case (step s s')
  from all_inv_step [OF step.IH step.hyps(2)] show ?case by simp
qed

text \<open>Every action of an operation brings \<^verbatim>\<open>when_all\<close> nearer its end.\<close>

fun actions_left :: "'r op_phase \<Rightarrow> nat" where
  "actions_left Running = 2"
| "actions_left (Stored x) = 1"
| "actions_left (Counted x) = 0"

lemma sum_list_update_less:
  fixes f :: "'a \<Rightarrow> nat"
  shows "i < length xs \<Longrightarrow> f y < f (xs ! i) \<Longrightarrow> sum_list (map f (xs[i := y])) < sum_list (map f xs)"
proof (induction xs arbitrary: i)
  case (Cons x xs)
  then show ?case by (cases i) simp_all
qed simp

lemma all_step_decreases:
  assumes "all_step s (Inr s')"
  shows "sum_list (map actions_left (as_phase s')) < sum_list (map actions_left (as_phase s))"
  using assms
  by cases (auto dest!: sym [of "Inr s'"] simp: bindR_eq_Inr intro!: sum_list_update_less)

lemma all_step_enabled:
  assumes "all_inv n s" "\<not> list_all counted (as_phase s)"
  shows "\<exists>s'. all_step s (Inr s')"
proof -
  from assms(2) obtain i where i: "i < length (as_phase s)" "\<not> counted (as_phase s ! i)"
    by (auto simp: list_all_length)
  then have "\<exists>r. all_step s r"
    by (cases "as_phase s ! i") (auto simp: counted_def intro: all_step.intros)
  with all_inv_step [OF assms(1)] show ?thesis by blast
qed

section \<open>Properties\<close>


text \<open>
  \<^verbatim>\<open>amongoc_timeout\<close> resolves once, after both the operation (index 0) and the timer (index 1) have
  completed: with the operation's own result, success or error, when that was first, and with the
  generic \<^verbatim>\<open>ETIMEDOUT\<close> and no value when the timer was, whatever the timer completed with.
\<close>
theorem timeout_outcome:
  "amongoc_timeout pf (\<lambda>_. False) [(0, r), (1, t)] = Inr [r] \<and>
   amongoc_timeout pf (\<lambda>_. False) [(1, t), (0, r)] =
     Inr [(\<lparr>st_category = Generic, st_code = ETIMEDOUT\<rparr>, None)]"
  by (simp add: amongoc_timeout_def first_completed_def first_start_def first_nth_result_def
      nth_result_locked_def new_first_handler_def status_timed_out_def status_from_def library_categories_def)

text \<open>
  C33: in every interleaving of the completions of a \<^verbatim>\<open>when_all\<close> over \<open>n\<close> operations, no action reads an
  empty result; the receiver has been called once, with the values of all the operations in order,
  when every operation has been counted, and not at all before; until then some action is enabled, and
  every action brings the end nearer.
\<close>
theorem when_all_delivers_once:
  assumes "all_reachable n s"
  shows "as_sent s = (if list_all counted (as_phase s)
           then [map (\<lambda>p. the (stored_value p)) (as_phase s)] else []) \<and>
         length (as_phase s) = n \<and>
         (\<forall>r. all_step s r \<longrightarrow> (\<exists>s'. r = Inr s' \<and>
           sum_list (map actions_left (as_phase s')) < sum_list (map actions_left (as_phase s)))) \<and>
         (\<not> list_all counted (as_phase s) \<longrightarrow> (\<exists>s'. all_step s (Inr s')))"
proof -
  have inv: "all_inv n s" using assms by (rule all_reachable_inv)
  have "\<exists>s'. r = Inr s' \<and>
      sum_list (map actions_left (as_phase s')) < sum_list (map actions_left (as_phase s))"
    if "all_step s r" for r
    using all_inv_step [OF inv that] that all_step_decreases by blast
  moreover have "\<exists>s'. all_step s (Inr s')" if "\<not> list_all counted (as_phase s)"
    using inv that by (rule all_step_enabled)
  ultimately show ?thesis
    using inv by (simp add: all_inv_def)
qed

text \<open>Two operations: the second completes between the two actions of the first.\<close>

definition two_system :: "nat option list \<Rightarrow> nat \<Rightarrow> nat op_phase list \<Rightarrow> nat list list \<Rightarrow> nat all_system" where
  "two_system opts k ps sent =
     \<lparr>as_handler = \<lparr>ah_opts = opts, ah_n_remaining = k\<rparr>, as_phase = ps, as_sent = sent\<rparr>"

lemmas two_simps = two_system_def all_store_def all_count_def all_finish_def Let_def

lemma two_done_reachable:
  "all_reachable 2 (two_system [Some 7, Some 9] 0 [Counted 7, Counted 9] [[7, 9]])"
proof -
  have "all_reachable 2 (two_system [None, None] 2 [Running, Running] [])"
    by (rule all_reachable.start)
      (simp add: all_start_def two_system_def new_all_handler_def numeral_2_eq_2)
  moreover have "all_step (two_system [None, None] 2 [Running, Running] [])
      (Inr (two_system [Some 7, None] 2 [Stored 7, Running] []))"
    using all_step.store [of 0 "two_system [None, None] 2 [Running, Running] []" 7]
    by (simp add: two_simps)
  moreover have "all_step (two_system [Some 7, None] 2 [Stored 7, Running] [])
      (Inr (two_system [Some 7, Some 9] 2 [Stored 7, Stored 9] []))"
    using all_step.store [of 1 "two_system [Some 7, None] 2 [Stored 7, Running] []" 9]
    by (simp add: two_simps)
  moreover have "all_step (two_system [Some 7, Some 9] 2 [Stored 7, Stored 9] [])
      (Inr (two_system [Some 7, Some 9] 1 [Stored 7, Counted 9] []))"
    using all_step.count [of 1 "two_system [Some 7, Some 9] 2 [Stored 7, Stored 9] []" 9]
    by (simp add: two_simps)
  moreover have "all_step (two_system [Some 7, Some 9] 1 [Stored 7, Counted 9] [])
      (Inr (two_system [Some 7, Some 9] 0 [Counted 7, Counted 9] [[7, 9]]))"
    using all_step.count [of 0 "two_system [Some 7, Some 9] 1 [Stored 7, Counted 9] []" 7]
    by (simp add: two_simps)
  ultimately show ?thesis by (meson all_reachable.step)
qed

theorem when_all_delivers_once_witness:
  "all_reachable 2 (two_system [Some 7, Some 9] 0 [Counted 7, Counted 9] [[7, 9]]) \<and>
   as_sent (two_system [Some 7, Some 9] 0 [Counted 7, Counted 9] [[7, 9]]) = [[7, 9]] \<and>
   (\<nexists>r. all_step (two_system [Some 7, Some 9] 0 [Counted 7, Counted 9] [[7, 9]]) r)"
proof -
  let ?s = "two_system [Some 7, Some 9] 0 [Counted 7, Counted 9] [[7, 9]]"
  note all = when_all_delivers_once [OF two_done_reachable]
  have "as_sent ?s = [[7, 9]]" using all by (simp add: two_system_def counted_def)
  moreover have "\<not> all_step ?s r" for r
    using all by (auto simp: two_system_def)
  ultimately show ?thesis using two_done_reachable by blast
qed

end
