(* ===== verification/Mlib_Str.thy ===== *)
theory Mlib_Str
  imports Bson_Mem Mlib_Alloc
begin

text \<open>
  Strings (\<^verbatim>\<open>include/mlib/str.h\<close>). A view is a pointer into a block of memory and a length. An owned
  string is a block that starts with the length, as the eight bytes of a \<^verbatim>\<open>size_t\<close>, followed by the
  code units and a zero; \<^verbatim>\<open>data\<close> points behind the length. \<open>st_static\<close> says that the string is the
  static empty one, which must not be written.
\<close>

section \<open>Views\<close>

abbreviation SSIZE_MAX :: int where "SSIZE_MAX \<equiv> INT64_MAX"
abbreviation SIZE_MAX :: int where "SIZE_MAX \<equiv> 18446744073709551615"

record mlib_str_view =
  vw_data :: "(bytes \<times> int) option"
  vw_len :: nat

definition mlib_str_view_null :: mlib_str_view where
  "mlib_str_view_null = \<lparr>vw_data = None, vw_len = 0\<rparr>"

definition mlib_str_view_data :: "(bytes \<times> int) option \<Rightarrow> nat \<Rightarrow> mlib_str_view" where
  "mlib_str_view_data s len = \<lparr>vw_data = s, vw_len = len\<rparr>"

text \<open>Reading \<open>n\<close> bytes at an offset from \<^verbatim>\<open>data\<close>, and one byte.\<close>

definition sv_read :: "mlib_str_view \<Rightarrow> int \<Rightarrow> nat \<Rightarrow> bytes res" where
  "sv_read s off n =
     (if n = 0 then Inr []
      else case vw_data s of None \<Rightarrow> Inl Out_of_bounds | Some (m, p) \<Rightarrow> rd_n m (p + off) n)"

definition sv_index :: "mlib_str_view \<Rightarrow> int \<Rightarrow> byte res" where
  "sv_index s off =
     (case vw_data s of None \<Rightarrow> Inl Out_of_bounds | Some (m, p) \<Rightarrow> rd m (p + off))"

definition mlib_str_view_cstr :: "bytes \<Rightarrow> int \<Rightarrow> mlib_str_view res" where
  "mlib_str_view_cstr m p =
     bindR (c_strlen m p) (\<lambda>n. Inr (mlib_str_view_data (Some (m, p)) (nat n)))"

text \<open>The loop of \<^verbatim>\<open>mlib_strnlen\<close>, which reads up to the first zero.\<close>

fun str_nlen_loop :: "bytes \<Rightarrow> int \<Rightarrow> nat \<Rightarrow> nat \<Rightarrow> nat res" where
  "str_nlen_loop m p n 0 = Inr n"
| "str_nlen_loop m p n (Suc k) =
     bindR (rd m (p + int n)) (\<lambda>c. if c \<noteq> 0 then str_nlen_loop m p (n + 1) k else Inr n)"

definition mlib_strnlen :: "(bytes \<times> int) option \<Rightarrow> nat \<Rightarrow> nat res" where
  "mlib_strnlen s maxlen =
     (case s of
        None \<Rightarrow> if maxlen = 0 then Inr 0 else Inl Out_of_bounds
      | Some (m, p) \<Rightarrow> str_nlen_loop m p 0 maxlen)"

definition str_view_chopnulls :: "mlib_str_view \<Rightarrow> mlib_str_view res" where
  "str_view_chopnulls str =
     bindR (mlib_strnlen (vw_data str) (vw_len str)) (\<lambda>len. Inr (str\<lparr>vw_len := len\<rparr>))"

definition mlib_str_subview :: "mlib_str_view \<Rightarrow> nat \<Rightarrow> nat \<Rightarrow> mlib_str_view res" where
  "mlib_str_subview s at len =
     bv_assert (at \<le> vw_len s)
       (let remain = vw_len s - at; len = (if len > remain then remain else len) in
        Inr (mlib_str_view_data (map_option (\<lambda>(m, p). (m, p + int at)) (vw_data s)) len))"

definition mlib_str_at :: "mlib_str_view \<Rightarrow> int \<Rightarrow> byte res" where
  "mlib_str_at s offset =
     (if offset \<ge> 0 then sv_index s offset else sv_index s (int (vw_len s) + offset))"

text \<open>The loop of \<^verbatim>\<open>_mlib_str_eq\<close>, with the rounds that are left.\<close>

fun str_eq_loop :: "mlib_str_view \<Rightarrow> mlib_str_view \<Rightarrow> int \<Rightarrow> nat \<Rightarrow> bool res" where
  "str_eq_loop a b pos 0 = Inr True"
| "str_eq_loop a b pos (Suc k) =
     bindR (mlib_str_at a pos) (\<lambda>x. bindR (mlib_str_at b pos) (\<lambda>y.
       if x \<noteq> y then Inr False else str_eq_loop a b (pos + 1) k))"

definition mlib_str_eq :: "mlib_str_view \<Rightarrow> mlib_str_view \<Rightarrow> bool res" where
  "mlib_str_eq a b = (if vw_len a \<noteq> vw_len b then Inr False else str_eq_loop a b 0 (vw_len a))"

text \<open>\<^verbatim>\<open>operator==\<close> of C++ views.\<close>

definition sv_string_view :: "mlib_str_view \<Rightarrow> bytes res" where
  "sv_string_view s = (if vw_data s \<noteq> None then sv_read s 0 (vw_len s) else Inr [])"

definition str_view_op_eq :: "mlib_str_view \<Rightarrow> mlib_str_view \<Rightarrow> bool res" where
  "str_view_op_eq s other =
     (if vw_data s = None \<or> vw_data other = None then Inr ((vw_data s = None) = (vw_data other = None))
      else bindR (sv_string_view s) (\<lambda>a. bindR (sv_string_view other) (\<lambda>b. Inr (a = b))))"

section \<open>Searching\<close>

text \<open>\<^verbatim>\<open>0 - (int)len\<close>, and the conversion of a position to the result type \<^verbatim>\<open>int\<close>.\<close>

definition negative_len :: "nat \<Rightarrow> int res" where
  "negative_len len =
     (let i = to_i32 (word_of_nat len) in if i = INT32_MIN then Inl Out_of_bounds else Inr (0 - i))"

definition as_int :: "int \<Rightarrow> int" where
  "as_int v = to_i32 (word_of_int v)"

fun str_find_loop :: "mlib_str_view \<Rightarrow> mlib_str_view \<Rightarrow> nat \<Rightarrow> nat \<Rightarrow> int res" where
  "str_find_loop given needle off 0 = negative_len (vw_len needle)"
| "str_find_loop given needle off (Suc k) =
     bindR (mlib_str_subview given off (vw_len needle)) (\<lambda>part.
     bindR (mlib_str_eq part needle) (\<lambda>eq.
       if eq then Inr (as_int (int off)) else str_find_loop given needle (off + 1) k))"

definition mlib_str_find :: "mlib_str_view \<Rightarrow> mlib_str_view \<Rightarrow> int res" where
  "mlib_str_find given needle =
     (if vw_len needle > vw_len given then negative_len (vw_len needle)
      else str_find_loop given needle 0 (vw_len given))"

text \<open>\<open>str_rfind_loop given needle k\<close> is the loop of \<^verbatim>\<open>_mlib_str_rfind\<close> with \<^verbatim>\<open>off\<close> equal to \<open>k - 1\<close>.\<close>

fun str_rfind_loop :: "mlib_str_view \<Rightarrow> mlib_str_view \<Rightarrow> nat \<Rightarrow> int res" where
  "str_rfind_loop given needle 0 = Inr (as_int (- 1))"
| "str_rfind_loop given needle (Suc off) =
     bindR (mlib_str_subview given off (vw_len needle)) (\<lambda>part.
     bindR (mlib_str_eq part needle) (\<lambda>eq.
       if eq then Inr (as_int (int off)) else str_rfind_loop given needle off))"

definition mlib_str_rfind :: "mlib_str_view \<Rightarrow> mlib_str_view \<Rightarrow> int res" where
  "mlib_str_rfind given needle =
     (if vw_len needle > vw_len given then negative_len (vw_len needle)
      else str_rfind_loop given needle (vw_len given - vw_len needle + 1))"

section \<open>Owned strings\<close>

record mlib_str =
  st_buf :: bytes
  st_static :: bool

text \<open>The offset of \<^verbatim>\<open>data\<close>, \<^verbatim>\<open>sizeof(size_t)\<close>.\<close>

abbreviation str_data_ptr :: int where "str_data_ptr \<equiv> 8"

definition mlib_string_empty :: mlib_str where
  "mlib_string_empty = \<lparr>st_buf = replicate 9 0, st_static = True\<rparr>"

definition mlib_str_length :: "mlib_str \<Rightarrow> nat res" where
  "mlib_str_length s = bindR (bson_read_u64le (st_buf s) (str_data_ptr - 8)) (\<lambda>n. Inr (unat n))"

definition mlib_str_as_view :: "mlib_str \<Rightarrow> mlib_str_view res" where
  "mlib_str_as_view s =
     bindR (mlib_str_length s) (\<lambda>n. Inr (mlib_str_view_data (Some (st_buf s, str_data_ptr)) n))"

text \<open>Storing through \<^verbatim>\<open>data\<close>.\<close>

definition str_write :: "mlib_str \<Rightarrow> int \<Rightarrow> bytes \<Rightarrow> mlib_str res" where
  "str_write s p bs =
     (if bs = [] then Inr s
      else if st_static s then Inl Out_of_bounds
      else bindR (wr_n (st_buf s) p bs) (\<lambda>b. Inr (s\<lparr>st_buf := b\<rparr>)))"

definition mlib_str_mut_resize :: "reallocate_fn \<Rightarrow> mlib_str \<Rightarrow> nat \<Rightarrow> (mlib_str \<times> bool) res" where
  "mlib_str_mut_resize alloc s new_len =
     bindR (mlib_str_length s) (\<lambda>old_len.
     if new_len = old_len then Inr (s, True)
     else if int new_len > (SSIZE_MAX - 8) - 1 then Inr (s, False)
     else
       let alloc_size = new_len + 8 + 1;
           buf_ptr = (if st_static s then None else Some (st_buf s))
       in bindR (mlib_reallocate alloc buf_ptr alloc_size 1 (old_len + 4 + 1)) (\<lambda>r.
          case r of None \<Rightarrow> Inr (s, False)
          | Some (new_data, _) \<Rightarrow>
              let s = \<lparr>st_buf = new_data, st_static = False\<rparr> in
              bindR (str_write s (str_data_ptr - 8) (u64le (word_of_nat new_len))) (\<lambda>s.
              bindR (str_write s (str_data_ptr + int old_len) (replicate (new_len - old_len) 0)) (\<lambda>s.
              bindR (str_write s (str_data_ptr + int new_len) [0]) (\<lambda>s. Inr (s, True))))))"

definition mlib_str_new :: "reallocate_fn \<Rightarrow> nat \<Rightarrow> mlib_str res" where
  "mlib_str_new alloc len =
     bindR (mlib_str_mut_resize alloc mlib_string_empty len) (\<lambda>(ret, _). Inr ret)"

definition mlib_str_copy :: "reallocate_fn \<Rightarrow> mlib_str_view \<Rightarrow> mlib_str res" where
  "mlib_str_copy alloc s =
     bindR (mlib_str_new alloc (vw_len s)) (\<lambda>r.
     bindR (sv_read s 0 (vw_len s)) (\<lambda>bs. str_write r str_data_ptr bs))"

definition mlib_str_delete :: "reallocate_fn \<Rightarrow> mlib_str option \<Rightarrow> unit res" where
  "mlib_str_delete alloc s =
     (case s of None \<Rightarrow> Inr ()
      | Some d \<Rightarrow>
          if st_static d then Inr ()
          else bindR (mlib_str_length d) (\<lambda>len. mlib_deallocate alloc (Some (st_buf d)) (len + 8 + 1)))"

definition mlib_str_assign :: "reallocate_fn \<Rightarrow> mlib_str option \<Rightarrow> mlib_str option \<Rightarrow> mlib_str option res" where
  "mlib_str_assign alloc s from = bindR (mlib_str_delete alloc s) (\<lambda>_. Inr from)"

definition mlib_str_splice ::
  "reallocate_fn \<Rightarrow> mlib_str_view \<Rightarrow> nat \<Rightarrow> nat \<Rightarrow> mlib_str_view \<Rightarrow> mlib_str res" where
  "mlib_str_splice alloc s at del_count ins =
     bv_assert (at \<le> vw_len s)
       (let remain = vw_len s - at; del_count = (if del_count > remain then remain else del_count) in
        bv_assert (int (vw_len s - del_count) \<le> SIZE_MAX - int (vw_len ins))
          (let new_size = vw_len s - del_count + vw_len ins in
           bindR (mlib_str_new alloc new_size) (\<lambda>ret.
           let p = str_data_ptr in
           bindR (bindR (sv_read s 0 at) (str_write ret p)) (\<lambda>ret.
           let p = p + int at in
           bindR (if vw_data ins \<noteq> None
                  then bindR (sv_read ins 0 (vw_len ins)) (\<lambda>bs.
                       bindR (str_write ret p bs) (\<lambda>ret. Inr (ret, p + int (vw_len ins))))
                  else Inr (ret, p)) (\<lambda>(ret, p).
           bv_assert (vw_len s - at \<ge> del_count)
             (bindR (sv_read s (int at + int del_count) (vw_len s - at - del_count)) (str_write ret p)))))))"

definition mlib_str_append :: "reallocate_fn \<Rightarrow> mlib_str_view \<Rightarrow> mlib_str_view \<Rightarrow> mlib_str res" where
  "mlib_str_append alloc s suffix = mlib_str_splice alloc s (vw_len s) 0 suffix"

definition mlib_str_insert :: "reallocate_fn \<Rightarrow> mlib_str_view \<Rightarrow> nat \<Rightarrow> mlib_str_view \<Rightarrow> mlib_str res" where
  "mlib_str_insert alloc s pos infix = mlib_str_splice alloc s pos 0 infix"

text \<open>The view of the literal \<^verbatim>\<open>""\<close>.\<close>

definition empty_literal :: mlib_str_view where
  "empty_literal = mlib_str_view_data (Some ([0], 0)) 0"

definition mlib_str_erase :: "reallocate_fn \<Rightarrow> mlib_str_view \<Rightarrow> nat \<Rightarrow> nat \<Rightarrow> mlib_str res" where
  "mlib_str_erase alloc s pos count = mlib_str_splice alloc s pos count empty_literal"

definition mlib_str_remove_prefix :: "reallocate_fn \<Rightarrow> mlib_str_view \<Rightarrow> nat \<Rightarrow> mlib_str res" where
  "mlib_str_remove_prefix alloc s count = mlib_str_splice alloc s 0 count empty_literal"

definition mlib_str_remove_suffix :: "reallocate_fn \<Rightarrow> mlib_str_view \<Rightarrow> nat \<Rightarrow> mlib_str res" where
  "mlib_str_remove_suffix alloc s len =
     bv_assert (vw_len s \<ge> len) (mlib_str_erase alloc s (vw_len s - len) len)"

definition mlib_substr :: "reallocate_fn \<Rightarrow> mlib_str_view \<Rightarrow> nat \<Rightarrow> nat \<Rightarrow> mlib_str res" where
  "mlib_substr alloc s at len =
     bv_assert (at \<le> vw_len s)
       (let remain = vw_len s - at; len = (if len > remain then remain else len) in
        bindR (mlib_str_new alloc len) (\<lambda>r.
        bindR (sv_read s (int at) len) (str_write r str_data_ptr)))"

section \<open>What views and strings represent\<close>

definition views :: "mlib_str_view \<Rightarrow> bytes \<Rightarrow> bool" where
  "views v cs \<longleftrightarrow> vw_len v = length cs \<and>
     (case vw_data v of
        None \<Rightarrow> cs = []
      | Some (m, p) \<Rightarrow> 0 \<le> p \<and> p + int (length cs) \<le> int (length m) \<and>
          take (length cs) (drop (nat p) m) = cs)"

definition str_rep :: "mlib_str \<Rightarrow> bytes \<Rightarrow> bool" where
  "str_rep s cs \<longleftrightarrow> int (length cs) \<le> SSIZE_MAX - 9 \<and>
     (\<exists>rest. st_buf s = u64le (word_of_nat (length cs)) @ cs @ 0 # rest \<and>
        (st_static s \<longrightarrow> cs = [] \<and> rest = []))"

lemma views_len: "views v cs \<Longrightarrow> vw_len v = length cs"
  by (simp add: views_def)

lemma views_empty_literal: "views empty_literal []"
  by (simp add: views_def empty_literal_def mlib_str_view_data_def)

lemma sv_read_views:
  assumes "views v cs" "off + n \<le> length cs"
  shows "sv_read v (int off) n = Inr (take n (drop off cs))"
proof (cases "n = 0")
  case False
  with assms obtain m p where d: "vw_data v = Some (m, p)" "0 \<le> p" "p + int (length cs) \<le> int (length m)"
    "take (length cs) (drop (nat p) m) = cs"
    by (auto simp: views_def split: option.splits)
  have "rd_n m (p + int off) n = Inr (take n (drop (nat p + off) m))"
    using d assms(2) by (simp add: rd_n_in nat_add_distrib)
  also have "take n (drop (nat p + off) m) = take n (drop off (take (length cs) (drop (nat p) m)))"
    using assms(2) by (simp add: drop_take min_def add.commute)
  finally show ?thesis using False d by (simp add: sv_read_def)
qed (simp add: sv_read_def)

lemma mlib_str_at_views:
  assumes "views v cs" "off < length cs"
  shows "mlib_str_at v (int off) = Inr (cs ! off)"
proof -
  from assms obtain m p where d: "vw_data v = Some (m, p)" "0 \<le> p" "p + int (length cs) \<le> int (length m)"
    "take (length cs) (drop (nat p) m) = cs"
    by (auto simp: views_def split: option.splits)
  have "cs ! off = take (length cs) (drop (nat p) m) ! off" by (simp only: d(4))
  also have "\<dots> = m ! (nat p + off)" using d(2,3) assms(2) by (subst nth_take) simp_all
  finally show ?thesis
    using d assms(2) by (simp add: mlib_str_at_def sv_index_def nat_add_distrib)
qed

lemma mlib_str_subview_views:
  assumes "views v cs" "at \<le> length cs"
  shows "\<exists>w. mlib_str_subview v at len = Inr w \<and> views w (take len (drop at cs))"
proof -
  let ?w = "mlib_str_view_data (map_option (\<lambda>(m, p). (m, p + int at)) (vw_data v))
    (if len > length cs - at then length cs - at else len)"
  have "mlib_str_subview v at len = Inr ?w"
    using assms by (simp add: mlib_str_subview_def Let_def views_len)
  moreover have "views ?w (take len (drop at cs))"
  proof (cases "vw_data v")
    case (Some d)
    then obtain m p where d: "vw_data v = Some (m, p)" by (cases d) simp
    with assms have p: "0 \<le> p" "p + int (length cs) \<le> int (length m)" "take (length cs) (drop (nat p) m) = cs"
      by (simp_all add: views_def)
    have "take (min len (length cs - at)) (drop (nat p + at) m) =
        take len (drop at (take (length cs) (drop (nat p) m)))"
      by (simp add: drop_take add.commute)
    then have "take (min len (length cs - at)) (drop (nat (p + int at)) m) = take len (drop at cs)"
      using p by (simp add: nat_add_distrib)
    then show ?thesis
      using p d assms(2) by (auto simp: views_def mlib_str_view_data_def min_def)
  qed (use assms in \<open>simp add: views_def mlib_str_view_data_def\<close>)
  ultimately show ?thesis by blast
qed

lemma str_eq_loop_views:
  assumes "views a xs" "views b ys" "length ys = length xs"
  shows "pos + k = length xs \<Longrightarrow> str_eq_loop a b (int pos) k = Inr (drop pos xs = drop pos ys)"
proof (induction k arbitrary: pos)
  case (Suc k)
  then have "drop pos xs = xs ! pos # drop (Suc pos) xs" "drop pos ys = ys ! pos # drop (Suc pos) ys"
    using assms(3) by (simp_all add: Cons_nth_drop_Suc)
  moreover have "str_eq_loop a b (int pos + 1) k = Inr (drop (Suc pos) xs = drop (Suc pos) ys)"
    using Suc.IH [of "Suc pos"] Suc.prems by (simp add: add.commute)
  ultimately show ?case
    using Suc.prems assms mlib_str_at_views [OF assms(1), of pos] mlib_str_at_views [OF assms(2), of pos]
    by simp
qed (use assms in simp)

lemma mlib_str_eq_views:
  "views a xs \<Longrightarrow> views b ys \<Longrightarrow> mlib_str_eq a b = Inr (xs = ys)"
  using str_eq_loop_views [of a xs b ys 0 "length xs"] by (auto simp: mlib_str_eq_def views_len)

section \<open>Searching\<close>

definition occurs_at :: "bytes \<Rightarrow> bytes \<Rightarrow> nat \<Rightarrow> bool" where
  "occurs_at given needle off \<longleftrightarrow> take (length needle) (drop off given) = needle"

lemma part_eq:
  assumes "views given xs" "views needle ys" "off \<le> length xs"
  shows "bindR (mlib_str_subview given off (vw_len needle)) (\<lambda>part.
      bindR (mlib_str_eq part needle) f) = f (occurs_at xs ys off)"
proof -
  obtain w where "mlib_str_subview given off (vw_len needle) = Inr w" "views w (take (length ys) (drop off xs))"
    using mlib_str_subview_views [OF assms(1,3), of "vw_len needle"] views_len [OF assms(2)] by auto
  then show ?thesis using mlib_str_eq_views [of w _ needle ys] assms(2) by (simp add: occurs_at_def)
qed

lemma as_int_id: "0 \<le> v \<Longrightarrow> v \<le> INT32_MAX \<Longrightarrow> as_int v = v"
  using sint_of_in_i32 [of v] by (simp add: as_int_def to_i32_def in_i32_def)

lemma negative_len_id: "int n \<le> INT32_MAX \<Longrightarrow> negative_len n = Inr (- int n)"
  using as_int_id [of "int n"] by (simp add: negative_len_def as_int_def Let_def)

lemma str_find_loop_views:
  assumes "views given xs" "views needle ys" "int (length xs) \<le> INT32_MAX" "int (length ys) \<le> INT32_MAX"
  shows "off + k = length xs \<Longrightarrow> str_find_loop given needle off k =
    (case find (occurs_at xs ys) [off..<length xs] of
       Some i \<Rightarrow> Inr (int i) | None \<Rightarrow> Inr (- int (length ys)))"
proof (induction k arbitrary: off)
  case (Suc k)
  then have "[off..<length xs] = off # [Suc off..<length xs]" by (simp add: upt_rec)
  moreover have "off \<le> length xs" "as_int (int off) = int off"
    using Suc.prems assms(3) as_int_id [of "int off"] by simp_all
  ultimately show ?case
    using Suc by (simp add: part_eq [OF assms(1,2)])
qed (use assms in \<open>simp add: negative_len_id views_len [OF assms(2)]\<close>)

lemma str_rfind_loop_views:
  assumes "views given xs" "views needle ys" "int (length xs) \<le> INT32_MAX"
  shows "k \<le> Suc (length xs) \<Longrightarrow> str_rfind_loop given needle k =
    (case find (occurs_at xs ys) (rev [0..<k]) of Some i \<Rightarrow> Inr (int i) | None \<Rightarrow> Inr (- 1))"
proof (induction k)
  case (Suc off)
  then have "off \<le> length xs" "as_int (int off) = int off"
    using assms(3) as_int_id [of "int off"] by simp_all
  with Suc show ?case by (simp add: part_eq [OF assms(1,2)])
qed (simp add: as_int_def to_i32_def)

section \<open>Owned strings\<close>

lemma u64_of_nat: "int n \<le> INT64_MAX \<Longrightarrow> unat (word_of_nat n :: u64) = n"
  by (simp add: unat_of_nat take_bit_nat_eq_self)

lemma str_rep_empty: "str_rep mlib_string_empty []"
  by (simp add: str_rep_def mlib_string_empty_def u64le_def u32le_def eval_nat_numeral)

lemma mlib_str_length_rep:
  assumes "str_rep s cs"
  shows "mlib_str_length s = Inr (length cs)"
proof -
  from assms obtain rest where "st_buf s = [] @ u64le (word_of_nat (length cs)) @ cs @ 0 # rest"
    by (auto simp: str_rep_def)
  then have "bson_read_u64le (st_buf s) 0 = Inr (word_of_nat (length cs))"
    using u64_codec.rdc_at [of 0 "[]" "word_of_nat (length cs)" "cs @ 0 # rest"] by simp
  then show ?thesis using assms by (simp add: mlib_str_length_def str_rep_def u64_of_nat)
qed

lemma views_of_str: "str_rep s cs \<Longrightarrow> \<exists>v. mlib_str_as_view s = Inr v \<and> views v cs"
  by (auto simp: mlib_str_as_view_def mlib_str_length_rep mlib_str_view_data_def views_def str_rep_def)

text \<open>Writing inside the characters of an owned string.\<close>

lemma str_write_rep:
  assumes "str_rep s (pre @ old @ post)" "length bs = length old" "\<not> st_static s"
  shows "\<exists>s'. str_write s (8 + int (length pre)) bs = Inr s' \<and> str_rep s' (pre @ bs @ post) \<and> \<not> st_static s'"
proof -
  from assms(1) obtain rest where b:
    "st_buf s = (u64le (word_of_nat (length (pre @ old @ post))) @ pre) @ old @ (post @ 0 # rest)"
    by (auto simp: str_rep_def)
  have "wr_n (st_buf s) (8 + int (length pre)) bs =
      Inr ((u64le (word_of_nat (length (pre @ old @ post))) @ pre) @ bs @ (post @ 0 # rest))"
    unfolding b by (rule wr_n_append_at) (simp_all add: assms(2))
  then show ?thesis
    using assms by (cases "bs = []") (auto simp: str_write_def str_rep_def)
qed

text \<open>The three stores of a resize, on a block that starts with the characters that are kept.\<close>

lemma resize_stores:
  assumes buf: "b = hd8 @ keep @ tail" "length hd8 = 8" "length keep = min old_len new_len"
    and len: "new_len + 9 \<le> length b" "int new_len \<le> SSIZE_MAX - 9"
  shows "\<exists>s'. bindR (str_write \<lparr>st_buf = b, st_static = False\<rparr> 0 (u64le (word_of_nat new_len))) (\<lambda>s.
      bindR (str_write s (8 + int old_len) (replicate (new_len - old_len) 0)) (\<lambda>s.
      str_write s (8 + int new_len) [0])) = Inr s' \<and>
    str_rep s' (keep @ replicate (new_len - old_len) 0) \<and> \<not> st_static s'"
proof -
  let ?c = "u64le (word_of_nat new_len)" and ?z = "replicate (new_len - old_len) 0"
  define t1 where "t1 = drop (new_len - old_len) tail"
  have nn: "?c \<noteq> []" using length_u64le [of "word_of_nat new_len"] by fastforce
  have tail: "length keep + length tail = length b - 8" using buf(1,2) by simp
  have w1: "wr_n b 0 ?c = Inr (?c @ keep @ tail)"
    using wr_n_append_at [of 0 "[]" hd8 ?c "keep @ tail"] buf by simp
  have w2: "wr_n (?c @ keep @ tail) (8 + int old_len) ?z = Inr (?c @ keep @ ?z @ t1)"
  proof (cases "new_len \<le> old_len")
    case False
    have "?c @ keep @ tail = (?c @ keep) @ take (new_len - old_len) tail @ t1" by (simp add: t1_def)
    then show ?thesis
      using False buf(3) tail len(1) wr_n_append_at [of "8 + int old_len" "?c @ keep" "take (new_len - old_len) tail" ?z t1]
      by simp
  qed (simp add: wr_n_def t1_def)
  obtain x rest where t: "t1 = x # rest"
    using tail len(1) buf(3) by (cases t1) (auto simp: t1_def)
  have "?c @ keep @ ?z @ t1 = (?c @ keep @ ?z) @ [x] @ rest" by (simp add: t)
  moreover have "8 + int new_len = int (length (?c @ keep @ ?z))" using buf(3) by simp
  ultimately have w3: "wr_n (?c @ keep @ ?z @ t1) (8 + int new_len) [0] = Inr ((?c @ keep @ ?z) @ [0] @ rest)"
    using wr_n_append_at [of "8 + int new_len" "?c @ keep @ ?z" "[x]" "[0]" rest] by simp
  have "length (keep @ ?z) = new_len" using buf(3) by simp
  then show ?thesis
    using w1 w2 w3 nn len(2) by (auto simp: str_write_def str_rep_def bindR_assoc t1_def)
qed

text \<open>Writing three pieces one after the other, into a fresh string and into the static one.\<close>

definition write_pieces :: "mlib_str \<Rightarrow> bytes \<Rightarrow> bytes \<Rightarrow> bytes \<Rightarrow> mlib_str res" where
  "write_pieces s a b c =
     bindR (str_write s 8 a) (\<lambda>s.
     bindR (str_write s (8 + int (length a)) b) (\<lambda>s.
     str_write s (8 + int (length a) + int (length b)) c))"

lemma write_pieces_fresh:
  assumes "str_rep s (replicate (length (a @ b @ c)) 0)" "\<not> st_static s"
  shows "\<exists>s'. write_pieces s a b c = Inr s' \<and> str_rep s' (a @ b @ c)"
proof -
  let ?z = "\<lambda>xs. replicate (length xs) (0 :: byte)"
  have "str_rep s ([] @ ?z a @ ?z b @ ?z c)" using assms(1) by (simp add: replicate_add)
  from str_write_rep [OF this _ assms(2), of a] obtain s1 where s1:
    "str_write s 8 a = Inr s1" "str_rep s1 (a @ ?z b @ ?z c)" "\<not> st_static s1" by auto
  from str_write_rep [OF this(2) _ this(3), of b] obtain s2 where s2:
    "str_write s1 (8 + int (length a)) b = Inr s2" "str_rep s2 ((a @ b) @ ?z c @ [])" "\<not> st_static s2" by auto
  from str_write_rep [OF this(2) _ this(3), of c] s1(1) s2(1) show ?thesis
    by (auto simp: write_pieces_def add.assoc)
qed

lemma write_pieces_static:
  "st_static s \<Longrightarrow> write_pieces s a b c = (if a @ b @ c = [] then Inr s else Inl Out_of_bounds)"
  by (simp add: write_pieces_def str_write_def)

lemma str_write_nil: "str_write s p [] = Inr s"
  by (simp add: str_write_def)

lemma splice_pieces:
  assumes "views s xs" "views ins ys" "at \<le> length xs"
    and "int (length (take at xs @ ys @ drop (at + del) xs)) \<le> SSIZE_MAX"
  shows "mlib_str_splice alloc s at del ins =
    bindR (mlib_str_new alloc (length (take at xs @ ys @ drop (at + del) xs)))
      (\<lambda>ret. write_pieces ret (take at xs) ys (drop (at + del) xs))"
proof -
  define d where "d = (if del > length xs - at then length xs - at else del)"
  have d: "d \<le> length xs - at" "drop (at + d) xs = drop (at + del) xs"
    "length xs - d + length ys = length (take at xs @ ys @ drop (at + del) xs)"
    using assms(3) by (auto simp: d_def)
  have r1: "sv_read s 0 at = Inr (take at xs)"
    using sv_read_views [OF assms(1), of 0 at] assms(3) by simp
  have r2: "sv_read ins 0 (length ys) = Inr ys"
    using sv_read_views [OF assms(2), of 0 "length ys"] by simp
  have r3: "sv_read s (int at + int d) (length xs - at - d) = Inr (drop (at + del) xs)"
    using sv_read_views [OF assms(1), of "at + d" "length xs - at - d"] d assms(3) by simp
  have none: "vw_data ins = None \<Longrightarrow> ys = []" using assms(2) by (simp add: views_def)
  have big: "int (length xs - d) \<le> SIZE_MAX - int (length ys)"
    using assms(4) d(3) by linarith
  have "mlib_str_splice alloc s at del ins =
      bindR (mlib_str_new alloc (length xs - d + length ys)) (\<lambda>ret.
      bindR (str_write ret 8 (take at xs)) (\<lambda>ret.
      bindR (if vw_data ins \<noteq> None
             then bindR (str_write ret (8 + int at) ys) (\<lambda>ret. Inr (ret, 8 + int at + int (length ys)))
             else Inr (ret, 8 + int at)) (\<lambda>(ret, p). str_write ret p (drop (at + del) xs))))"
    unfolding mlib_str_splice_def views_len [OF assms(1)] views_len [OF assms(2)] Let_def
      d_def [symmetric]
    using assms(3) d(1) big r1 r2 r3 by (simp cong: if_cong)
  also have "\<dots> = bindR (mlib_str_new alloc (length xs - d + length ys))
      (\<lambda>ret. write_pieces ret (take at xs) ys (drop (at + del) xs))"
    using assms(3) none
    by (cases "vw_data ins = None") (simp_all add: write_pieces_def bindR_assoc str_write_nil min_absorb2)
  finally show ?thesis using d(3) by simp
qed

context allocator
begin

text \<open>A new string, when the allocator serves the request and when it does not.\<close>

lemma str_new_outcome:
  assumes "0 < n" "int n \<le> SSIZE_MAX - 9"
  shows "case realloc None (9 + n) 1 5 of
      Inl e \<Rightarrow> mlib_str_new realloc n = Inl e
    | Inr None \<Rightarrow> mlib_str_new realloc n = Inr mlib_string_empty
    | Inr (Some _) \<Rightarrow> \<exists>s. mlib_str_new realloc n = Inr s \<and> str_rep s (replicate n 0) \<and> \<not> st_static s"
proof -
  have l: "mlib_str_length mlib_string_empty = Inr 0"
    using mlib_str_length_rep [OF str_rep_empty] by simp
  have st: "st_static mlib_string_empty" by (simp add: mlib_string_empty_def)
  have "\<exists>s'. bindR (str_write \<lparr>st_buf = b, st_static = False\<rparr> 0 (u64le (word_of_nat n))) (\<lambda>s.
      bindR (str_write s (8 + int 0) (replicate (n - 0) 0)) (\<lambda>s. str_write s (8 + int n) [0])) = Inr s' \<and>
    str_rep s' ([] @ replicate (n - 0) 0) \<and> \<not> st_static s'"
    if "realloc None (9 + n) 1 5 = Inr (Some (b, got))" for b got
    by (rule resize_stores [of b "take 8 b" "[]" "drop 8 b" 0 n])
      (use got_size [of "9 + n" None 1 5 b got] that assms in auto)
  then show ?thesis
    using assms l st
    by (auto simp: mlib_str_new_def mlib_str_mut_resize_def mlib_reallocate_def Let_def bindR_assoc
        split: sum.splits option.splits)
      (auto simp: res_simps)
qed

lemma str_new_zero: "mlib_str_new realloc 0 = Inr mlib_string_empty"
  using mlib_str_length_rep [OF str_rep_empty] by (simp add: mlib_str_new_def mlib_str_mut_resize_def)

lemma new_and_write:
  assumes "int (length (a @ b @ c)) \<le> SSIZE_MAX - 9" "a @ b @ c \<noteq> []"
  shows "case realloc None (9 + length (a @ b @ c)) 1 5 of
      Inl e \<Rightarrow> bindR (mlib_str_new realloc (length (a @ b @ c))) (\<lambda>s. write_pieces s a b c) = Inl e
    | Inr None \<Rightarrow> bindR (mlib_str_new realloc (length (a @ b @ c))) (\<lambda>s. write_pieces s a b c) = Inl Out_of_bounds
    | Inr (Some _) \<Rightarrow> \<exists>s. bindR (mlib_str_new realloc (length (a @ b @ c))) (\<lambda>s. write_pieces s a b c) = Inr s \<and>
        str_rep s (a @ b @ c)"
proof -
  have "0 < length (a @ b @ c)" using assms(2) by blast
  note new = str_new_outcome [OF this assms(1)]
  have st: "write_pieces mlib_string_empty a b c = Inl Out_of_bounds"
    using write_pieces_static [of mlib_string_empty a b c] assms(2) by (simp add: mlib_string_empty_def)
  show ?thesis
  proof (cases "realloc None (9 + length (a @ b @ c)) 1 5")
    case (Inr r)
    with new st write_pieces_fresh [of _ a b c] show ?thesis
      by (cases r) (fastforce simp del: length_append)+
  qed (use new in \<open>simp del: length_append\<close>)
qed

end

lemma default_fresh:
  "default_reallocate avail junk None (9 + n) 1 5 =
     Inr (if avail (9 + n) then Some (map junk [0..<9 + n], 9 + n) else None)"
  by (simp add: default_reallocate_def c_realloc_def c_malloc_def)

text \<open>Resizing with the default allocator, which ignores the wrong previous size it is told.\<close>

lemma resize_default:
  assumes "str_rep s cs" "n \<noteq> length cs" "int n \<le> SSIZE_MAX - 9"
  shows "if avail (9 + n)
    then \<exists>s'. mlib_str_mut_resize (default_reallocate avail junk) s n = Inr (s', True) \<and>
      str_rep s' (take n cs @ replicate (n - length cs) 0)
    else mlib_str_mut_resize (default_reallocate avail junk) s n = Inr (s, False)"
proof -
  let ?p = "if st_static s then None else Some (st_buf s)"
  let ?r = "default_reallocate avail junk ?p (n + 8 + 1) 1 (length cs + 4 + 1)"
  have body: "mlib_str_mut_resize (default_reallocate avail junk) s n =
      bindR ?r (\<lambda>r. case r of None \<Rightarrow> Inr (s, False)
        | Some (b, _) \<Rightarrow>
            bindR (bindR (str_write \<lparr>st_buf = b, st_static = False\<rparr> 0 (u64le (word_of_nat n))) (\<lambda>s.
              bindR (str_write s (8 + int (length cs)) (replicate (n - length cs) 0)) (\<lambda>s.
              str_write s (8 + int n) [0]))) (\<lambda>s. Inr (s, True)))"
    using assms mlib_str_length_rep [OF assms(1)]
    by (simp add: mlib_str_mut_resize_def mlib_reallocate_def Let_def bindR_assoc cong: option.case_cong)
  show ?thesis
  proof (cases "avail (9 + n)")
    case False
    then have "?r = Inr None"
      by (auto simp: default_reallocate_def c_realloc_def c_malloc_def add.commute)
    with False body show ?thesis by simp
  next
    case True
    from assms(1) obtain rest where b: "st_buf s = u64le (word_of_nat (length cs)) @ cs @ 0 # rest"
      "st_static s \<Longrightarrow> cs = []" by (auto simp: str_rep_def)
    define new where "new = map junk [0..<9 + n]"
    define nb where "nb = (case ?p of None \<Rightarrow> new | Some old \<Rightarrow> take (9 + n) old @ drop (length old) new)"
    have r: "?r = Inr (Some (nb, 9 + n))"
      using True by (auto simp: default_reallocate_def c_realloc_def c_malloc_def nb_def new_def add.commute)
    have "length nb = 9 + n" by (auto simp: nb_def new_def split: option.split)
    moreover have "take (min (length cs) n) (drop 8 nb) = take n cs"
      using b by (auto simp: nb_def min_def)
    then have "nb = take 8 nb @ take n cs @ drop (min (length cs) n) (drop 8 nb)"
      by (metis append_take_drop_id)
    ultimately have "\<exists>s'. bindR (str_write \<lparr>st_buf = nb, st_static = False\<rparr> 0 (u64le (word_of_nat n))) (\<lambda>s.
        bindR (str_write s (8 + int (length cs)) (replicate (n - length cs) 0)) (\<lambda>s.
        str_write s (8 + int n) [0])) = Inr s' \<and>
      str_rep s' (take n cs @ replicate (n - length cs) 0) \<and> \<not> st_static s'"
      by (intro resize_stores [of nb "take 8 nb" "take n cs" "drop (min (length cs) n) (drop 8 nb)"])
        (use assms(3) in auto)
    with True body r show ?thesis by auto
  qed
qed

section \<open>Properties\<close>

text \<open>
  C34: splicing, of which appending, inserting, erasing and removing a prefix or suffix are the
  instances, with the default allocator on any C heap. Behind a position past the end it aborts. Otherwise
  the new string holds the characters before the position, the inserted ones and those behind the deleted
  ones; when the allocator refuses, the code writes to the static empty string, which is undefined,
  unless the result is empty.
\<close>
theorem str_splice_outcome:
  assumes "views s xs" "views ins ys" and "r = take at xs @ ys @ drop (at + del) xs"
    and "int (length r) \<le> SSIZE_MAX - 9"
  shows "mlib_str_splice (default_reallocate avail junk) s at del ins = Inl Assert_fail \<and> length xs < at \<or>
    at \<le> length xs \<and>
    (if r = [] then mlib_str_splice (default_reallocate avail junk) s at del ins = Inr mlib_string_empty
     else if avail (length r + 9)
     then \<exists>t. mlib_str_splice (default_reallocate avail junk) s at del ins = Inr t \<and> str_rep t r
     else mlib_str_splice (default_reallocate avail junk) s at del ins = Inl Out_of_bounds)"
proof (cases "at \<le> length xs")
  case True
  have r: "mlib_str_splice (default_reallocate avail junk) s at del ins =
      bindR (mlib_str_new (default_reallocate avail junk) (length r))
        (\<lambda>ret. write_pieces ret (take at xs) ys (drop (at + del) xs))"
    using splice_pieces [OF assms(1,2) True, of del] assms(3,4) by simp
  show ?thesis
  proof (cases "r = []")
    case nil: True
    have "write_pieces mlib_string_empty (take at xs) ys (drop (at + del) xs) = Inr mlib_string_empty"
      using write_pieces_static [of mlib_string_empty "take at xs" ys "drop (at + del) xs"]
        nil [unfolded assms(3)] by (simp add: mlib_string_empty_def)
    with nil True r show ?thesis by (simp add: default_alloc.str_new_zero)
  next
    case False
    then show ?thesis
      using True r assms(3,4) default_fresh [of avail junk "length r"]
        default_alloc.new_and_write [of "take at xs" ys "drop (at + del) xs" avail junk]
      by (auto simp: add.commute split: if_splits)
  qed
qed (simp add: mlib_str_splice_def views_len [OF assms(1)])

theorem str_splice_outcome_witness:
  "\<exists>t. mlib_str_splice (default_reallocate (\<lambda>_. True) (\<lambda>_. 7))
      (mlib_str_view_data (Some ([1, 2, 3, 4], 0)) 4) 1 2 (mlib_str_view_data (Some ([0, 8, 9], 1)) 2) = Inr t \<and>
    str_rep t [1, 8, 9, 4]"
  using str_splice_outcome [of "mlib_str_view_data (Some ([1, 2, 3, 4], 0)) 4" "[1, 2, 3, 4]"
      "mlib_str_view_data (Some ([0, 8, 9], 1)) 2" "[8, 9]" "[1, 8, 9, 4]" 1 2 "\<lambda>_. True" "\<lambda>_. 7"]
  by (simp add: views_def mlib_str_view_data_def eval_nat_numeral)

text \<open>
  C35: \<^verbatim>\<open>mlib_str_find\<close> returns the first position at which the needle occurs and \<^verbatim>\<open>mlib_str_rfind\<close> the
  last, for strings whose lengths fit \<^verbatim>\<open>int\<close>; when there is none the result is not positive, and it is
  negative unless the needle and the string are both empty. Neither reads outside the two views.
\<close>
theorem str_find_first_last:
  assumes "views given xs" "views needle ys" "int (length xs) \<le> INT32_MAX" "int (length ys) \<le> INT32_MAX"
  shows "mlib_str_find given needle =
      Inr (case find (occurs_at xs ys) [0..<length xs] of Some i \<Rightarrow> int i | None \<Rightarrow> - int (length ys)) \<and>
    mlib_str_rfind given needle =
      Inr (if length xs < length ys then - int (length ys)
           else case find (occurs_at xs ys) (rev [0..<length xs - length ys + 1]) of
             Some i \<Rightarrow> int i | None \<Rightarrow> - 1)"
proof -
  have "find (occurs_at xs ys) [0..<length xs] = None" if "length xs < length ys"
  proof -
    have "\<not> occurs_at xs ys i" for i
      using that arg_cong [of "take (length ys) (drop i xs)" ys length] by (auto simp: occurs_at_def)
    then show ?thesis by (simp add: find_None_iff)
  qed
  then show ?thesis
    using str_find_loop_views [OF assms, of 0 "length xs"]
      str_rfind_loop_views [OF assms(1-3), of "length xs - length ys + 1"]
    by (auto simp: mlib_str_find_def mlib_str_rfind_def views_len [OF assms(1)] views_len [OF assms(2)]
        negative_len_id [OF assms(4)] split: option.split)
qed

theorem str_find_first_last_witness:
  "mlib_str_find (mlib_str_view_data (Some ([1, 2, 1, 2, 3], 0)) 5) (mlib_str_view_data (Some ([1, 2], 0)) 2) = Inr 0 \<and>
   mlib_str_rfind (mlib_str_view_data (Some ([1, 2, 1, 2, 3], 0)) 5) (mlib_str_view_data (Some ([1, 2], 0)) 2) = Inr 2"
  using str_find_first_last [of "mlib_str_view_data (Some ([1, 2, 1, 2, 3], 0)) 5" "[1, 2, 1, 2, 3]"
      "mlib_str_view_data (Some ([1, 2], 0)) 2" "[1, 2]"]
  by (simp add: views_def mlib_str_view_data_def occurs_at_def eval_nat_numeral)

text \<open>
  Resizing an owned string with the default allocator: the characters up to the smaller of the two
  lengths stay, new ones are zero, the string stays terminated and its length is the new one; when
  the allocator refuses, or the length cannot be represented, the string is as before and the result is false.
\<close>
theorem str_resize_outcome:
  assumes "str_rep s cs"
  shows "\<exists>s' ok. mlib_str_mut_resize (default_reallocate avail junk) s n = Inr (s', ok) \<and>
    (if ok then str_rep s' (take n cs @ replicate (n - length cs) 0)
     else s' = s \<and> (int n > SSIZE_MAX - 9 \<or> \<not> avail (n + 9)))"
proof (cases "n = length cs")
  case True
  with assms show ?thesis
    by (intro exI [of _ s] exI [of _ True]) (simp add: mlib_str_mut_resize_def mlib_str_length_rep)
next
  case False
  show ?thesis
  proof (cases "int n \<le> SSIZE_MAX - 9")
    case le: True
    from resize_default [OF assms False le, of avail junk] show ?thesis
      by (auto simp: add.commute split: if_splits)
  next
    case False
    with \<open>n \<noteq> length cs\<close> assms show ?thesis
      by (intro exI [of _ s] exI [of _ False]) (simp add: mlib_str_mut_resize_def mlib_str_length_rep)
  qed
qed

theorem str_resize_outcome_witness:
  "\<exists>s' ok. mlib_str_mut_resize (default_reallocate (\<lambda>_. True) (\<lambda>_. 7)) mlib_string_empty 3 = Inr (s', ok) \<and>
    (ok \<longrightarrow> str_rep s' [0, 0, 0])"
  using str_resize_outcome [OF str_rep_empty, of "\<lambda>_. True" "\<lambda>_. 7" 3]
  by (auto simp: eval_nat_numeral split: if_splits)

end
