(* ===== verification/Bson_Parse.thy ===== *)
theory Bson_Parse
  imports Wire_Buffer Bson_Lookup
begin

text \<open>
  The parsing combinators (\<^verbatim>\<open>include/bson/parse.hpp\<close>). A rule is a function from its argument and the
  variables of its user, which the rules \<^verbatim>\<open>store\<close> and \<^verbatim>\<open>action\<close> assign, to a result and the new
  variables; it may throw and may fault. A C++ template that takes rules is a function on rules. A
  result keeps the results of the parts, for the message of a failed parse.

  The loop over the elements of a document stops when its body breaks, so an element behind that point
  is not even looked at. The lemmas show that on the encoding of a list of keys and values the loop is a
  loop over the list, and that over any valid view it ends.
\<close>

section \<open>Results\<close>

datatype pstate = Reject | Accept | Error

text \<open>
  The results of the rules and of the parts of a document rule. A part for \<^verbatim>\<open>must<R>\<close> remembers the key
  when \<open>R\<close> is a field rule.
\<close>

datatype result =
    Basic_result pstate "string option"
  | Any_result "result option list"
  | All_result "result option list"
  | Must_result result
  | Type_result "result option"
  | Field_result bytes "result option"
  | Integer_result "result option"
  | Each_result bytes "result option"
  | Maybe_result "result option"
  | Doc_result "part list option"
and part =
    Part (did_accept: bool) (did_error: bool) (rejection: "result option")
  | Must_part "bytes option" (did_accept: bool) (did_error: bool) (rejection: "result option")
  | Others_part (got_key: "bytes option")

primrec final_state :: "part \<Rightarrow> pstate" where
  "final_state (Part acc err rej) = (if err then Error else Accept)"
| "final_state (Must_part key acc err rej) =
     (if err then Error else if \<not> acc then Reject else Accept)"
| "final_state (Others_part got) = (if got \<noteq> None then Reject else Accept)"

definition n_reject :: "part list \<Rightarrow> nat" where
  "n_reject parts = length (filter (\<lambda>p. final_state p \<noteq> Accept) parts)"

definition parts_state :: "part list \<Rightarrow> pstate" where
  "parts_state parts =
     (if list_ex (\<lambda>p. final_state p = Error) parts then Error
      else if n_reject parts \<noteq> 0 then Reject else Accept)"

fun state :: "result \<Rightarrow> pstate" where
  "state (Basic_result st msg) = st"
| "state (Any_result subs) =
     (if list_ex (\<lambda>sub. case sub of None \<Rightarrow> False | Some r \<Rightarrow> state r = Accept) subs then Accept
      else if list_ex (\<lambda>sub. case sub of None \<Rightarrow> False | Some r \<Rightarrow> state r = Error) subs then Error
      else Reject)"
| "state (All_result subs) =
     (if list_all (\<lambda>sub. case sub of None \<Rightarrow> False | Some r \<Rightarrow> state r = Accept) subs then Accept
      else if list_ex (\<lambda>sub. case sub of None \<Rightarrow> False | Some r \<Rightarrow> state r = Error) subs then Error
      else Reject)"
| "state (Must_result r) = (if state r = Reject then Error else state r)"
| "state (Type_result sub) = (case sub of None \<Rightarrow> Reject | Some r \<Rightarrow> state r)"
| "state (Field_result key sub) = (case sub of None \<Rightarrow> Reject | Some r \<Rightarrow> state r)"
| "state (Integer_result sub) = (case sub of None \<Rightarrow> Reject | Some r \<Rightarrow> state r)"
| "state (Each_result key sub) = (case sub of None \<Rightarrow> Accept | Some r \<Rightarrow> state r)"
| "state (Maybe_result sub) = (case sub of None \<Rightarrow> Accept | Some r \<Rightarrow> Error)"
| "state (Doc_result parts) = (case parts of None \<Rightarrow> Reject | Some ps \<Rightarrow> parts_state ps)"

section \<open>Messages\<close>

definition bytes_string :: "bytes \<Rightarrow> string" where
  "bytes_string bs = map (\<lambda>b. char_of (unat b)) bs"

text \<open>The quotation marks around keys, in UTF-8.\<close>

definition quoted :: "bytes \<Rightarrow> string" where
  "quoted key = [CHR 0xE2, CHR 0x80, CHR 0x98] @ bytes_string key @ [CHR 0xE2, CHR 0x80, CHR 0x99]"

definition not_accepted :: "result option \<Rightarrow> bool" where
  "not_accepted sub = (case sub of None \<Rightarrow> False | Some r \<Rightarrow> state r \<noteq> Accept)"

text \<open>\<open>format_subs\<close> and \<open>format_parts\<close> count down the messages that are still to come.\<close>

fun format_to :: "result \<Rightarrow> string"
  and format_subs :: "result option list \<Rightarrow> nat \<Rightarrow> string"
  and format_parts :: "part list \<Rightarrow> nat \<Rightarrow> string" where
  "format_to (Basic_result st msg) =
     (case msg of Some m \<Rightarrow> m | None \<Rightarrow> if st = Accept then ''[accepted]'' else ''[rejected]'')"
| "format_to (Any_result subs) =
     (let n_errors = length (filter not_accepted subs) in
      if n_errors = 0 then ''[rejected]''
      else ''no candidate rule was satisfied: ['' @ format_subs subs n_errors @ '']'')"
| "format_to (All_result subs) =
     (let n_errors = length (filter not_accepted subs) in
      if n_errors = 0 then ''[accepted]''
      else ''on or more parse rules were unsatisfied: ['' @ format_subs subs n_errors @ '']'')"
| "format_to (Must_result r) = format_to r"
| "format_to (Type_result sub) =
     (case sub of None \<Rightarrow> ''element has incorrect type'' | Some r \<Rightarrow> format_to r)"
| "format_to (Field_result key sub) =
     (if state (Field_result key sub) = Accept then ''[accepted]''
      else case sub of
        Some r \<Rightarrow> ''in field '' @ quoted key @ '': '' @ format_to r
      | None \<Rightarrow> ''element '' @ quoted key @ '' not found'')"
| "format_to (Integer_result sub) =
     (case sub of None \<Rightarrow> ''element does not have a numeric type'' | Some r \<Rightarrow> format_to r)"
| "format_to (Each_result key sub) =
     (case sub of None \<Rightarrow> ''[accepted]''
      | Some r \<Rightarrow> ''field '' @ quoted key @ '' was rejected: '' @ format_to r)"
| "format_to (Maybe_result sub) = (case sub of None \<Rightarrow> ''[accepted]'' | Some r \<Rightarrow> format_to r)"
| "format_to (Doc_result parts) =
     (case parts of None \<Rightarrow> ''the given value is not a document element''
      | Some ps \<Rightarrow>
          if n_reject ps \<noteq> 0 then ''errors: ['' @ format_parts ps (n_reject ps) @ '']''
          else ''[accepted]'')"
| "format_subs [] n = []"
| "format_subs (sub # subs) n =
     (case sub of
        None \<Rightarrow> format_subs subs n
      | Some r \<Rightarrow>
          if state r = Accept then format_subs subs n
          else format_to r @ (if n - 1 \<noteq> 0 then '', '' else []) @ format_subs subs (n - 1))"
| "format_parts [] n = []"
| "format_parts (Part acc err rej # ps) n =
     (if \<not> err then format_parts ps n
      else (case rej of Some r \<Rightarrow> format_to r | None \<Rightarrow> ''TODO: doc part format message'') @
        (if n - 1 \<noteq> 0 then '', '' else []) @ format_parts ps (n - 1))"
| "format_parts (Must_part key acc err rej # ps) n =
     (if acc then format_parts ps n
      else (case rej of
              Some r \<Rightarrow> format_to r
            | None \<Rightarrow>
                (case key of
                   Some k \<Rightarrow> ''element '' @ quoted k @ '' not found''
                 | None \<Rightarrow> ''[unimplemented parsing error formating]'')) @
        (if n - 1 \<noteq> 0 then '', '' else []) @ format_parts ps (n - 1))"
| "format_parts (Others_part got # ps) n =
     (case got of
        None \<Rightarrow> format_parts ps n
      | Some k \<Rightarrow>
          ''unexpected element '' @ quoted k @ (if n - 1 \<noteq> 0 then '', '' else []) @
          format_parts ps (n - 1))"

section \<open>Elements\<close>

text \<open>
  \<^verbatim>\<open>bson_iterator::reference\<close>: what its accessors return. They read memory that does not change during
  a parse.
\<close>

record reference =
  rf_key :: "bytes res"
  rf_type :: "byte res"
  rf_value :: "bson_value_ref option res"

definition iter_reference :: "bytes \<Rightarrow> bson_iterator \<Rightarrow> reference" where
  "iter_reference m it =
     \<lparr>rf_key = bindR (bson_key m it) (\<lambda>k. Inr (view_bytes k)),
      rf_type = bson_iterator_type m it, rf_value = bson_iterator_value m it\<rparr>"

text \<open>\<^verbatim>\<open>TRY_AS\<close>: the member of the value, if the element has the type.\<close>

definition try_as :: "byte \<Rightarrow> (bson_value_ref \<Rightarrow> 'a) \<Rightarrow> reference \<Rightarrow> 'a option res" where
  "try_as tag getter r =
     bindR (rf_type r) (\<lambda>t.
     if t = tag then bindR (rf_value r) (\<lambda>v. Inr (map_option getter v)) else Inr None)"

fun utf8_member :: "bson_value_ref \<Rightarrow> bytes" where
  "utf8_member (V_utf8 s) = view_bytes s"
| "utf8_member _ = []"

fun array_member :: "bson_value_ref \<Rightarrow> doc_view" where
  "array_member (V_array d) = d"
| "array_member _ = None"

fun bool_member :: "bson_value_ref \<Rightarrow> bool" where
  "bool_member (V_bool b) = b"
| "bool_member _ = False"

fun int32_member :: "bson_value_ref \<Rightarrow> int" where
  "int32_member (V_int32 n) = sint n"
| "int32_member _ = 0"

fun int64_member :: "bson_value_ref \<Rightarrow> int" where
  "int64_member (V_int64 n) = sint n"
| "int64_member _ = 0"

definition try_string :: "reference \<Rightarrow> bytes option res" where
  "try_string = try_as bson_type_utf8 utf8_member"

definition try_array :: "reference \<Rightarrow> doc_view option res" where
  "try_array = try_as bson_type_array array_member"

definition try_bool :: "reference \<Rightarrow> bool option res" where
  "try_bool = try_as bson_type_bool bool_member"

definition try_int32 :: "reference \<Rightarrow> int option res" where
  "try_int32 = try_as bson_type_int32 int32_member"

definition try_int64 :: "reference \<Rightarrow> int option res" where
  "try_int64 = try_as bson_type_int64 int64_member"

definition try_null :: "reference \<Rightarrow> unit option res" where
  "try_null r = bindR (rf_type r) (\<lambda>t. Inr (if t = bson_type_null then Some () else None))"

text \<open>
  A view can be taken of a document and of an array, whose members of the union have the same layout.
\<close>

definition try_view :: "reference \<Rightarrow> doc_view option res" where
  "try_view r =
     bindR (rf_type r) (\<lambda>t.
     if t \<noteq> bson_type_document \<and> t \<noteq> bson_type_array then Inr None
     else bindR (rf_value r) (\<lambda>v.
       Inr (Some (case v of Some w \<Rightarrow> get_document_or_array w None | None \<Rightarrow> None))))"

definition try_value :: "reference \<Rightarrow> bson_value_ref option res" where
  "try_value r = rf_value r"

section \<open>The loop over a document\<close>

text \<open>
  The range-based \<^verbatim>\<open>for\<close> over a view: dereferencing an errant iterator throws; the body may break or
  return (\<open>Some\<close>). \<open>None\<close> is running out of fuel.
\<close>

fun for_loop ::
  "nat \<Rightarrow> bytes \<Rightarrow> bson_iterator \<Rightarrow> bson_iterator \<Rightarrow>
   (reference \<Rightarrow> 's \<Rightarrow> ('r option \<times> 's) eres) \<Rightarrow> 's \<Rightarrow> ('r option \<times> 's) eres option" where
  "for_loop 0 m it sentinel body s = None"
| "for_loop (Suc fuel) m it sentinel body s =
     (if bson_iterator_eq it sentinel then Some (okE (None, s))
      else case throw_if_error it of
        Inl e \<Rightarrow> Some (throwE (Iterator_error e))
      | Inr _ \<Rightarrow>
          (case body (iter_reference m it) s of
             Inl f \<Rightarrow> Some (Inl f)
           | Inr (Inl x) \<Rightarrow> Some (throwE x)
           | Inr (Inr (Some r, s')) \<Rightarrow> Some (okE (Some r, s'))
           | Inr (Inr (None, s')) \<Rightarrow>
               (case bson_next m it of
                  Inl f \<Rightarrow> Some (Inl f)
                | Inr it' \<Rightarrow> for_loop fuel m it' sentinel body s')))"

text \<open>
  The loop with as many rounds as the view has bytes. More would be a fault; \<open>for_view_ends\<close> shows
  that the loop over a valid view does not come to that.
\<close>

definition for_view ::
  "doc_view \<Rightarrow> (reference \<Rightarrow> 's \<Rightarrow> ('r option \<times> 's) eres) \<Rightarrow> 's \<Rightarrow> ('r option \<times> 's) eres" where
  "for_view v body s =
     (case v of None \<Rightarrow> Inl Assert_fail
      | Some m \<Rightarrow>
          bindE (liftE (bson_begin m (Some 0))) (\<lambda>first.
          bindE (liftE (bson_end m (Some 0))) (\<lambda>sentinel.
          case for_loop (length m) m first sentinel body s of
            Some r \<Rightarrow> r | None \<Rightarrow> Inl Out_of_bounds)))"

section \<open>Rules\<close>

type_synonym ('a, 's) rule = "'a \<Rightarrow> 's \<Rightarrow> (result \<times> 's) eres"

fun any_loop :: "('a, 's) rule list \<Rightarrow> 'a \<Rightarrow> 's \<Rightarrow> (result option list \<times> 's) eres" where
  "any_loop [] obj s = okE ([], s)"
| "any_loop (r # rs) obj s =
     bindE (r obj s) (\<lambda>(res, s).
     if state res \<noteq> Reject then okE (Some res # map (\<lambda>_. None) rs, s)
     else bindE (any_loop rs obj s) (\<lambda>(subs, s). okE (Some res # subs, s)))"

definition any_rule :: "('a, 's) rule list \<Rightarrow> ('a, 's) rule" where
  "any_rule rs obj s = bindE (any_loop rs obj s) (\<lambda>(subs, s). okE (Any_result subs, s))"

fun all_loop :: "('a, 's) rule list \<Rightarrow> 'a \<Rightarrow> 's \<Rightarrow> (result option list \<times> 's) eres" where
  "all_loop [] obj s = okE ([], s)"
| "all_loop (r # rs) obj s =
     bindE (r obj s) (\<lambda>(res, s).
     if state res \<noteq> Accept then okE (Some res # map (\<lambda>_. None) rs, s)
     else bindE (all_loop rs obj s) (\<lambda>(subs, s). okE (Some res # subs, s)))"

definition all_rule :: "('a, 's) rule list \<Rightarrow> ('a, 's) rule" where
  "all_rule rs obj s = bindE (all_loop rs obj s) (\<lambda>(subs, s). okE (All_result subs, s))"

definition just_accept :: "('a, 's) rule" where "just_accept = all_rule []"
definition just_reject :: "('a, 's) rule" where "just_reject = any_rule []"

definition must_rule :: "('a, 's) rule \<Rightarrow> ('a, 's) rule" where
  "must_rule r obj s = bindE (r obj s) (\<lambda>(res, s). okE (Must_result res, s))"

definition type_rule :: "(reference \<Rightarrow> 'a option res) \<Rightarrow> ('a, 's) rule \<Rightarrow> (reference, 's) rule" where
  "type_rule conv subparser value s =
     bindE (liftE (conv value)) (\<lambda>x.
     case x of
       None \<Rightarrow> okE (Type_result None, s)
     | Some x \<Rightarrow> bindE (subparser x s) (\<lambda>(res, s). okE (Type_result (Some res), s)))"

definition action_rule :: "('a \<Rightarrow> 's \<Rightarrow> 's eres) \<Rightarrow> ('a, 's) rule" where
  "action_rule f value s = bindE (f value s) (\<lambda>s. okE (Basic_result Accept None, s))"

definition assign_rule :: "('a \<Rightarrow> 's \<Rightarrow> 's) \<Rightarrow> ('a, 's) rule" where
  "assign_rule dest value s = okE (Basic_result Accept None, dest value s)"

text \<open>\<^verbatim>\<open>store\<close> on an element converts to the type of its target first.\<close>

definition store_rule :: "(reference \<Rightarrow> 'a option res) \<Rightarrow> ('a \<Rightarrow> 's \<Rightarrow> 's) \<Rightarrow> (reference, 's) rule" where
  "store_rule conv dest = type_rule conv (assign_rule dest)"

definition field_rule :: "bytes \<Rightarrow> (reference, 's) rule \<Rightarrow> (reference, 's) rule" where
  "field_rule key value_rule ref s =
     bindE (liftE (rf_key ref)) (\<lambda>k.
     if k \<noteq> key then okE (Field_result key None, s)
     else bindE (value_rule ref s) (\<lambda>(res, s). okE (Field_result key (Some res), s)))"

definition integer_rule :: "(int, 's) rule \<Rightarrow> (reference, 's) rule" where
  "integer_rule r ref s =
     bindE (liftE (rf_type ref)) (\<lambda>t.
     if t = bson_type_int32 \<or> t = bson_type_int64 then
       bindE (liftE (rf_value ref)) (\<lambda>v.
       case Option.bind v bson_value_as_int64 of
         None \<Rightarrow> Inl Out_of_bounds
       | Some (n, _) \<Rightarrow> bindE (r n s) (\<lambda>(res, s). okE (Integer_result (Some res), s)))
     else okE (Integer_result None, s))"

definition each_view_rule :: "(reference, 's) rule \<Rightarrow> (doc_view, 's) rule" where
  "each_view_rule r doc s =
     bindE (for_view doc (\<lambda>el s.
         bindE (r el s) (\<lambda>(res, s).
         if state res \<noteq> Accept then
           bindE (liftE (rf_key el)) (\<lambda>k. okE (Some (Each_result k (Some res)), s))
         else okE (None, s))) s) (\<lambda>(out, s).
     okE (case out of Some res \<Rightarrow> res | None \<Rightarrow> Each_result [] None, s))"

definition each_rule :: "(reference, 's) rule \<Rightarrow> (reference, 's) rule" where
  "each_rule r = type_rule try_array (each_view_rule r)"

definition maybe_rule :: "('a, 's) rule \<Rightarrow> ('a, 's) rule" where
  "maybe_rule r arg s =
     bindE (r arg s) (\<lambda>(res, s).
     okE (Maybe_result (if state res \<noteq> Error then None else Some res), s))"

section \<open>Documents\<close>

text \<open>
  The arguments of \<^verbatim>\<open>doc\<close>, by the specialisation of \<^verbatim>\<open>doc_impl::part\<close> that they select: an optional
  rule, \<^verbatim>\<open>must\<close> of a rule with its key when it is a field rule, and \<^verbatim>\<open>reject_others\<close>.
\<close>

datatype 's doc_part =
    Opt "(reference, 's) rule"
  | Req "bytes option" "(reference, 's) rule"
  | Reject_others

definition require :: "bytes \<Rightarrow> (reference, 's) rule \<Rightarrow> 's doc_part" where
  "require key r = Req (Some key) (field_rule key r)"

fun new_part :: "'s doc_part \<Rightarrow> part" where
  "new_part (Opt r) = Part False False None"
| "new_part (Req key r) = Must_part key False False None"
| "new_part Reject_others = Others_part None"

fun done_looking :: "part \<Rightarrow> bool" where
  "done_looking (Part acc err rej) = acc"
| "done_looking (Must_part key acc err rej) = acc"
| "done_looking (Others_part got) = (got \<noteq> None)"

text \<open>\<^verbatim>\<open>part::handle_element\<close> after the rule has run.\<close>

fun take_result :: "result \<Rightarrow> part \<Rightarrow> part" where
  "take_result res (Part acc err rej) =
     (if state res = Accept then Part True err None
      else Part acc (err \<or> state res = Error) (Some res))"
| "take_result res (Must_part key acc err rej) =
     (if state res = Accept then Must_part key True err None
      else Must_part key acc (err \<or> state res = Error) (Some res))"
| "take_result res (Others_part got) = Others_part got"

definition handle_with ::
  "(reference, 's) rule \<Rightarrow> part \<Rightarrow> reference \<Rightarrow> 's \<Rightarrow> (pstate \<times> part \<times> 's) eres" where
  "handle_with r p ref s =
     (if did_accept p then okE (Reject, p, s)
      else bindE (r ref s) (\<lambda>(res, s). okE (state res, take_result res p, s)))"

fun handle_element :: "'s doc_part \<Rightarrow> part \<Rightarrow> reference \<Rightarrow> 's \<Rightarrow> (pstate \<times> part \<times> 's) eres" where
  "handle_element (Opt r) p ref s = handle_with r p ref s"
| "handle_element (Req key r) p ref s = handle_with r p ref s"
| "handle_element Reject_others p ref s =
     bindE (liftE (rf_key ref)) (\<lambda>k. okE (Reject, Others_part (Some k), s))"

text \<open>The fold over the parts, which ends at the first that does not reject.\<close>

fun handle_parts ::
  "'s doc_part list \<Rightarrow> part list \<Rightarrow> reference \<Rightarrow> 's \<Rightarrow> (pstate \<times> part list \<times> 's) eres" where
  "handle_parts (d # ds) (p # ps) ref s =
     bindE (handle_element d p ref s) (\<lambda>(merged, p, s).
     if merged = Reject then
       bindE (handle_parts ds ps ref s) (\<lambda>(merged, ps, s). okE (merged, p # ps, s))
     else okE (merged, p # ps, s))"
| "handle_parts _ ps ref s = okE (Reject, ps, s)"

definition doc_body ::
  "'s doc_part list \<Rightarrow> reference \<Rightarrow> part list \<times> 's \<Rightarrow> (unit option \<times> part list \<times> 's) eres" where
  "doc_body ds ref = (\<lambda>(ps, s).
     if list_all done_looking ps then okE (Some (), ps, s)
     else bindE (handle_parts ds ps ref s) (\<lambda>(merged, ps, s).
          okE (if merged = Error then Some () else None, ps, s)))"

definition doc_view_rule :: "'s doc_part list \<Rightarrow> (doc_view, 's) rule" where
  "doc_view_rule ds view s =
     bindE (for_view view (doc_body ds) (map new_part ds, s)) (\<lambda>(_, ps, s).
     okE (Doc_result (Some ps), s))"

definition doc_rule :: "'s doc_part list \<Rightarrow> (reference, 's) rule" where
  "doc_rule ds ref s =
     bindE (liftE (rf_value ref)) (\<lambda>v.
     case (case v of Some w \<Rightarrow> get_document_or_array w None | None \<Rightarrow> None) of
       None \<Rightarrow> okE (Doc_result None, s)
     | Some d \<Rightarrow> doc_view_rule ds (Some d) s)"

text \<open>A field rule applied to a document, by lookup.\<close>

definition field_view_rule :: "bytes \<Rightarrow> (reference, 's) rule \<Rightarrow> (doc_view, 's) rule" where
  "field_view_rule key value_rule doc s =
     (case doc of None \<Rightarrow> Inl Assert_fail
      | Some m \<Rightarrow>
          (case bson_find (Suc (length m)) m (Some 0) key of
             None \<Rightarrow> Inl Out_of_bounds
           | Some found \<Rightarrow>
               bindE (liftE found) (\<lambda>iter.
               bindE (liftE (bson_end m (Some 0))) (\<lambda>sentinel.
               if bson_iterator_eq iter sentinel then okE (Field_result key None, s)
               else case throw_if_error iter of
                 Inl e \<Rightarrow> throwE (Iterator_error e)
               | Inr _ \<Rightarrow> bindE (value_rule (iter_reference m iter) s) (\<lambda>(res, s).
                   okE (Field_result key (Some res), s))))))"

section \<open>Parsing\<close>

definition describe_error :: "result \<Rightarrow> string" where
  "describe_error res = format_to res"

definition must_parse :: "'a \<Rightarrow> ('a, 's) rule \<Rightarrow> 's \<Rightarrow> 's eres" where
  "must_parse value r s =
     bindE (r value s) (\<lambda>(res, s).
     if state res \<noteq> Accept then throwE (Protocol_error (describe_error res)) else okE s)"

section \<open>The loop ends\<close>

lemma bindE_raw: "bindE (Inr (Inl x)) f = Inr (Inl x)" "bindE (Inr (Inr y)) f = f y"
  by (simp_all add: bindE_def)

lemma throw_if_error_okay:
  "bson_iterator_get_error it = Some bson_iter_errc_okay \<Longrightarrow> throw_if_error it = Inr ()"
  by (simp add: throw_if_error_def)

lemma throw_if_error_errant: "error_inv it \<Longrightarrow> \<exists>e. throw_if_error it = Inl e"
proof -
  assume "error_inv it"
  then obtain e where e: "e \<noteq> bson_iter_errc_okay" "it = bson_iterator_error e"
    by (auto simp: error_inv_def)
  moreover have "0 < iter_errc_code e" using e(1) by (cases e) simp_all
  ultimately have "bson_iterator_get_error it = Some e"
    by (simp add: bson_iterator_get_error_def bson_iterator_error_def)
  with e(1) show ?thesis by (cases e) (simp_all add: throw_if_error_def)
qed

lemma for_loop_enough:
  assumes "range_inv m e it" "it_ptr sentinel = Some e" "it_rlen it < int fuel" "0 < fuel"
  shows "for_loop fuel m it sentinel body s \<noteq> None"
  using assms
proof (induction fuel arbitrary: it s)
  case (Suc fuel)
  from Suc.prems(1) show ?case
  proof (cases rule: range_inv_cases)
    case elem
    have f: "0 < fuel" using elem_inv_facts(2) [OF elem(1)] Suc.prems(3) by simp
    have IH: "for_loop fuel m it' sentinel body s' \<noteq> None" if "bson_next m it = Inr it'" for it' s'
      using range_inv_next [OF Suc.prems(1) elem(1)]
    proof cases
      case (2 it'')
      with that f Suc.prems(2,3) show ?thesis by (intro Suc.IH) simp_all
    qed (use that in simp)
    then show ?thesis
      using throw_if_error_okay [OF elem(3)] by (auto split: sum.split option.split)
  next
    case fin
    with Suc.prems(2) show ?thesis by (simp add: bson_iterator_eq_def)
  next
    case err
    with throw_if_error_errant [OF err(1)] show ?thesis by auto
  qed
qed simp

lemma for_view_ends:
  assumes "doc_at m 0"
  shows "\<exists>r. for_view (Some m) body s = r \<and>
    (bson_begin m (Some 0) = Inl Assert_fail \<and> r = Inl Assert_fail \<or>
     (\<exists>first sentinel. bson_begin m (Some 0) = Inr first \<and> bson_end m (Some 0) = Inr sentinel \<and>
        for_loop (length m) m first sentinel body s = Some r))"
proof -
  let ?n = "doc_len m 0"
  have d: "5 \<le> ?n" "?n \<le> int (length m)" using assms by (auto simp: doc_at_def)
  have b: "bson_begin m (Some 0) = bson_iterator_at m 4 (?n - 4)"
    using bson_begin_doc [OF assms] by simp
  obtain sentinel where e: "bson_end m (Some 0) = Inr sentinel" "it_ptr sentinel = Some (?n - 1)"
    using bson_end_doc [OF assms] by auto
  from doc_at_window [OF assms] have "window m 4 (?n - 4)" by simp
  then show ?thesis
  proof (rule range_inv_at)
    fix it assume it: "bson_iterator_at m 4 (?n - 4) = Inr it" "range_inv m (4 + (?n - 4) - 1) it"
      "it_rlen it \<le> ?n - 4"
    then have "for_loop (length m) m it sentinel body s \<noteq> None"
      using for_loop_enough [of m "?n - 1" it sentinel "length m" body s] e d by fastforce
    with b e it(1) show ?thesis by (auto simp: for_view_def)
  qed (use b in \<open>simp add: for_view_def\<close>)
qed

section \<open>The loop over an encoded document\<close>

text \<open>The reference to an element with a key and a value, and the loop over a list of references.\<close>

definition kv_ref :: "kv \<Rightarrow> reference" where
  "kv_ref = (\<lambda>(k, v). \<lparr>rf_key = Inr k, rf_type = Inr (value_type v), rf_value = Inr (Some v)\<rparr>)"

fun for_refs ::
  "(reference \<Rightarrow> 's \<Rightarrow> ('r option \<times> 's) eres) \<Rightarrow> reference list \<Rightarrow> 's \<Rightarrow> ('r option \<times> 's) eres" where
  "for_refs body [] s = okE (None, s)"
| "for_refs body (r # rs) s =
     bindE (body r s) (\<lambda>(out, s). case out of Some _ \<Rightarrow> okE (out, s) | None \<Rightarrow> for_refs body rs s)"

lemma kv_ref_simps [simp]:
  "rf_key (kv_ref (k, v)) = Inr k" "rf_type (kv_ref (k, v)) = Inr (value_type v)"
  "rf_value (kv_ref (k, v)) = Inr (Some v)"
  by (simp_all add: kv_ref_def)

lemma iter_reference_kv:
  assumes "placed m p n (kv_elem kv)" "kv_ok kv"
  shows "iter_reference m (elem_iter p n (kv_elem kv)) = kv_ref kv"
proof -
  obtain k v where kv: "kv = (k, v)" by (cases kv)
  have ok: "elem_ok (value_type v, k, value_bytes v)" "value_ok v"
    using kv_elem_ok [OF assms(2)] assms(2) by (simp_all add: kv kv_elem_def kv_ok_def)
  have pl: "placed m p n (value_type v, k, value_bytes v)" using assms(1) by (simp add: kv kv_elem_def)
  then obtain pre post where m: "m = pre @ elem_bytes (value_type v, k, value_bytes v) @ post" "p = int (length pre)"
    "window m p n" "int (length (elem_bytes (value_type v, k, value_bytes v))) < n"
    by (auto simp: placed_def)
  show ?thesis
    using accessors_at_elem(1,2) [OF m(1,2) ok(1) m(3,4)] iterator_value_at [OF pl ok(2)]
    by (simp add: iter_reference_def kv_ref_def kv kv_elem_def view_bytes_def)
qed

lemma for_loop_kvs:
  assumes "m = pre @ elems_bytes (map kv_elem kvs) @ 0 # post" "p = int (length pre)"
    and "n = int (length (elems_bytes (map kv_elem kvs))) + 1" "n \<le> INT32_MAX" "\<forall>kv \<in> set kvs. kv_ok kv"
    and "it_ptr sentinel = Some (p + n - 1)" "length kvs < fuel"
  shows "\<exists>it. bson_iterator_at m p n = Inr it \<and>
    for_loop fuel m it sentinel body s = Some (for_refs body (map kv_ref kvs) s)"
  using assms
proof (induction kvs arbitrary: pre p n fuel s)
  case Nil
  then have "window m p 1" by (auto simp: window_def nth_append)
  with Nil show ?case
    by (cases fuel) (auto simp: iterator_at_end bson_iterator_eq_def)
next
  case (Cons kv kvs)
  let ?e = "kv_elem kv"
  let ?l = "int (length (elem_bytes ?e))"
  have pl: "placed m p n ?e"
    using placed_in_run [of m pre ?e "map kv_elem kvs" post p n] Cons.prems by simp
  have ok: "kv_ok kv" "elem_ok ?e" using Cons.prems(5) kv_elem_ok by auto
  have m: "m = pre @ elem_bytes ?e @ (elems_bytes (map kv_elem kvs) @ 0 # post)" using Cons.prems(1) by simp
  have w: "window m p n" "?l < n" using pl by (auto simp: placed_def)
  obtain f where f: "fuel = Suc f" "length kvs < f" using Cons.prems(7) by (cases fuel) auto
  have IH: "\<exists>it. bson_iterator_at m (p + ?l) (n - ?l) = Inr it \<and>
      for_loop f m it sentinel body s' = Some (for_refs body (map kv_ref kvs) s')" for s'
    by (rule Cons.IH [of "pre @ elem_bytes ?e"]) (use Cons.prems f in auto)
  from IH [of s] obtain it where at: "bson_iterator_at m (p + ?l) (n - ?l) = Inr it" by blast
  have it: "bson_iterator_at m (p + ?l) (n - ?l) = Inr it"
    "for_loop f m it sentinel body s' = Some (for_refs body (map kv_ref kvs) s')" for s'
    using IH [of s'] at by auto
  have ne: "\<not> bson_iterator_eq (elem_iter p n ?e) sentinel"
    using Cons.prems(3,6) by (cases ?e) (simp add: bson_iterator_eq_def elem_iter_def)
  have tf: "throw_if_error (elem_iter p n ?e) = Inr ()"
    using elem_inv_facts(4) [OF iterator_at_elem(2) [OF m Cons.prems(2) ok(2) w]]
    by (rule throw_if_error_okay)
  have "for_loop (Suc f) m (elem_iter p n ?e) sentinel body s =
      Some (for_refs body (map kv_ref (kv # kvs)) s)"
    using ne tf it next_at_elem(2) [OF m Cons.prems(2) ok(2) w] iter_reference_kv [OF pl ok(1)]
    by (cases "body (kv_ref kv) s" rule: eres_cases)
      (auto simp: bindE_raw okE_def throwE_def split: option.split)
  with iterator_at_elem(1) [OF m Cons.prems(2) ok(2) w] show ?case by (simp add: f(1))
qed

text \<open>The documents whose encoding the code can represent.\<close>

definition kvs_ok :: "kv list \<Rightarrow> bool" where
  "kvs_ok kvs \<longleftrightarrow> list_all kv_ok kvs \<and> int (length (kv_doc kvs)) \<le> INT32_MAX"

lemma for_view_kvs:
  assumes "kvs_ok kvs"
  shows "for_view (Some (kv_doc kvs)) body s = for_refs body (map kv_ref kvs) s"
proof -
  let ?m = "kv_doc kvs" and ?n = "int (length (elems_bytes (map kv_elem kvs))) + 1"
  let ?h = "u32le (word_of_nat (length (elems_bytes (map kv_elem kvs)) + 5))"
  have ok: "\<forall>kv \<in> set kvs. kv_ok kv" "int (length ?m) \<le> INT32_MAX"
    using assms by (simp_all add: kvs_ok_def list_all_iff)
  have da: "doc_at ?m 0" "doc_len ?m 0 = int (length ?m)"
    using kv_doc_doc_at [of ?m "[]" kvs "[]" 0] ok(2) by simp_all
  have n: "doc_len ?m 0 = ?n + 4" using da(2) by (simp add: kv_doc_def)
  have m: "?m = ?h @ elems_bytes (map kv_elem kvs) @ 0 # []" by (simp add: kv_doc_def doc_bytes_def)
  obtain sentinel where e: "bson_end ?m (Some 0) = Inr sentinel" "it_ptr sentinel = Some (4 + ?n - 1)"
    using bson_end_doc [OF da(1)] n by auto
  have "length kvs < length ?m"
    using length_elems_le [of "map kv_elem kvs"] by (simp add: kv_doc_def)
  with for_loop_kvs [OF m _ refl _ ok(1) e(2), of "length ?m" body s] ok(2)
  obtain it where "bson_iterator_at ?m 4 ?n = Inr it"
    "for_loop (length ?m) ?m it sentinel body s = Some (for_refs body (map kv_ref kvs) s)"
    by (auto simp: kv_doc_def)
  moreover have "bson_begin ?m (Some 0) = bson_iterator_at ?m 4 ?n"
    using bson_begin_doc [OF da(1)] n by (simp add: add.commute)
  ultimately show ?thesis using e(1) by (simp add: for_view_def)
qed

end
