(* ===== verification/Bson_Fields.thy ===== *)
theory Bson_Fields
  imports Bson_Parse
begin

text \<open>
  Documents of fields. Most rules of the driver are a \<^verbatim>\<open>doc\<close> whose parts are required and optional
  fields with different keys. The locale \<open>keyed_parts\<close> states what such parts promise: a part rejects
  an element whose key is not its own, and on an element with its key it returns, with a state and an
  effect that do not depend on the variables. A part may have several keys, which \<open>canon\<close> maps to
  one; a part behind another that takes an element never sees it; parts at the end that take what is left must
  leave the variables alone. In the locale, parsing
  a document with different keys is shown to be lookup of each key, whatever the order of the elements.
\<close>

section \<open>Parts with a key\<close>

fun part_rule :: "'s doc_part \<Rightarrow> (reference, 's) rule" where
  "part_rule (Opt r) = r"
| "part_rule (Req key r) = r"
| "part_rule Reject_others = just_reject"

fun required :: "'s doc_part \<Rightarrow> bool" where
  "required (Req key r) \<longleftrightarrow> True"
| "required _ \<longleftrightarrow> False"

text \<open>The part of a rule that has not met an error, by whether it has accepted.\<close>

fun part_of :: "'s doc_part \<Rightarrow> bool \<Rightarrow> part \<Rightarrow> bool" where
  "part_of (Opt r) acc (Part a e rej) \<longleftrightarrow> a = acc \<and> \<not> e"
| "part_of (Req key r) acc (Must_part key' a e rej) \<longleftrightarrow> a = acc \<and> \<not> e"
| "part_of d acc p \<longleftrightarrow> False"

definition parts_of :: "(bytes \<times> 's doc_part) list \<Rightarrow> (bytes \<Rightarrow> bool) \<Rightarrow> part list \<Rightarrow> bool" where
  "parts_of fs acc ps \<longleftrightarrow> list_all2 (\<lambda>f p. part_of (snd f) (acc (fst f)) p) fs ps"

definition all_fine :: "part list \<Rightarrow> bool" where
  "all_fine ps \<longleftrightarrow> list_all (\<lambda>p. final_state p = Accept) ps"

lemma part_of_did:
  "part_of d acc p \<Longrightarrow> did_accept p = acc" "part_of d acc p \<Longrightarrow> done_looking p = acc"
  "part_of d acc p \<Longrightarrow> d \<noteq> Reject_others"
  by (induction d acc p rule: part_of.induct) simp_all

lemma part_of_final:
  "part_of d acc p \<Longrightarrow> final_state p = (if required d \<and> \<not> acc then Reject else Accept)"
  by (induction d acc p rule: part_of.induct) simp_all

lemma part_of_take:
  "part_of d False p \<Longrightarrow> state res \<noteq> Error \<Longrightarrow> part_of d (state res = Accept) (take_result res p)"
  by (induction d False p rule: part_of.induct) auto

lemma part_of_error:
  "part_of d False p \<Longrightarrow> state res = Error \<Longrightarrow> final_state (take_result res p) = Error"
  by (induction d False p rule: part_of.induct) auto

lemma parts_of_Cons:
  "parts_of (f # fs) acc ps \<longleftrightarrow>
     (\<exists>p ps'. ps = p # ps' \<and> part_of (snd f) (acc (fst f)) p \<and> parts_of fs acc ps')"
  by (cases ps) (auto simp: parts_of_def)

lemma parts_of_Nil: "parts_of [] acc ps \<longleftrightarrow> ps = []"
  by (simp add: parts_of_def)

lemma parts_of_length: "parts_of fs acc ps \<Longrightarrow> length ps = length fs"
  by (simp add: parts_of_def list_all2_lengthD)

lemma parts_of_new:
  "\<forall>f \<in> set fs. snd f \<noteq> Reject_others \<Longrightarrow> parts_of fs (\<lambda>_. False) (map new_part (map snd fs))"
proof (induction fs)
  case (Cons f fs)
  moreover obtain c d where "f = (c, d)" by (cases f)
  ultimately show ?case by (cases d) (simp_all add: parts_of_def)
qed (simp add: parts_of_def)

lemma parts_state_Error: "parts_state ps = Error \<longleftrightarrow> (\<exists>p \<in> set ps. final_state p = Error)"
  by (simp add: parts_state_def list_ex_iff)

lemma parts_of_cong:
  "(\<And>c. c \<in> fst ` set fs \<Longrightarrow> acc c = acc' c) \<Longrightarrow> parts_of fs acc ps = parts_of fs acc' ps"
  by (induction fs arbitrary: ps) (simp_all add: parts_of_Cons parts_of_Nil)

lemma parts_of_done: "parts_of fs acc ps \<Longrightarrow> list_all done_looking ps \<longleftrightarrow> (\<forall>c \<in> fst ` set fs. acc c)"
proof (induction fs arbitrary: ps)
  case (Cons f fs)
  then obtain p ps' where "ps = p # ps'" "part_of (snd f) (acc (fst f)) p" "parts_of fs acc ps'"
    by (auto simp: parts_of_Cons)
  with Cons.IH [of ps'] show ?case by (simp add: part_of_did)
qed (simp add: parts_of_Nil)

text \<open>The state of a document rule none of whose parts has met an error.\<close>

lemma parts_of_state:
  assumes "parts_of fs acc ps" "all_fine qs"
  shows "parts_state (ps @ qs) = (if \<forall>(c, d) \<in> set fs. required d \<longrightarrow> acc c then Accept else Reject)"
proof -
  have "(\<forall>p \<in> set ps. final_state p \<noteq> Error) \<and>
      ((\<forall>p \<in> set ps. final_state p = Accept) \<longleftrightarrow> (\<forall>(c, d) \<in> set fs. required d \<longrightarrow> acc c))"
    using assms(1)
  proof (induction fs arbitrary: ps)
    case (Cons f fs)
    then obtain p ps' where p: "ps = p # ps'" "part_of (snd f) (acc (fst f)) p" "parts_of fs acc ps'"
      by (auto simp: parts_of_Cons)
    obtain c d where f: "f = (c, d)" by (cases f)
    show ?case using Cons.IH [OF p(3)] p(1,2) by (auto simp: f part_of_final)
  qed (simp add: parts_of_def)
  moreover have "\<forall>p \<in> set qs. final_state p = Accept" using assms(2) by (simp add: all_fine_def list_all_iff)
  ultimately show ?thesis
    by (auto simp: parts_state_def n_reject_def list_ex_iff filter_empty_conv)
qed

lemma handle_keyed:
  "part_of d acc p \<Longrightarrow> handle_element d p ref s = handle_with (part_rule d) p ref s"
  by (cases d) auto

text \<open>
  What a rule answers on an element: a state, and unless this is an error, a change of the variables.
\<close>

definition gives :: "('a, 's) rule \<Rightarrow> 'a \<Rightarrow> pstate \<Rightarrow> ('s \<Rightarrow> 's) \<Rightarrow> bool" where
  "gives r ref st eff \<longleftrightarrow>
     (\<forall>s. \<exists>res s'. r ref s = okE (res, s') \<and> state res = st \<and> (st \<noteq> Error \<longrightarrow> s' = eff s))"

lemma givesE:
  assumes "gives r ref st eff"
  obtains res s' where "r ref s = okE (res, s')" "state res = st" "st \<noteq> Error \<longrightarrow> s' = eff s"
  using assms unfolding gives_def by blast

lemma bindE_assoc: "bindE (bindE m f) g = bindE m (\<lambda>x. bindE (f x) g)"
  by (cases m rule: eres_cases) simp_all

text \<open>The parts of a document rule in two groups.\<close>

lemma handle_parts_append:
  assumes "length ds = length ps"
  shows "handle_parts (ds @ ts) (ps @ qs) ref s =
    bindE (handle_parts ds ps ref s) (\<lambda>(m, ps', s).
    if m = Reject then bindE (handle_parts ts qs ref s) (\<lambda>(m, qs', s). okE (m, ps' @ qs', s))
    else okE (m, ps' @ qs, s))"
  using assms
proof (induction ds ps arbitrary: s rule: list_induct2)
  case Nil
  show ?case by (cases "handle_parts ts qs ref s" rule: eres_cases) auto
next
  case (Cons d ds p ps)
  show ?case
    by (cases "handle_element d p ref s" rule: eres_cases)
      (auto simp: Cons.IH bindE_assoc case_prod_beta intro!: bindE_cong)
qed

text \<open>The element of a list of keys and values that belongs to a part.\<close>

definition look :: "(bytes \<Rightarrow> bytes) \<Rightarrow> kv list \<Rightarrow> bytes \<Rightarrow> kv option" where
  "look canon kvs c = find (\<lambda>kv. canon (fst kv) = c) kvs"

lemma look_id: "look (\<lambda>k. k) kvs c = map_option (Pair c) (map_of kvs c)"
  by (induction kvs) (auto simp: look_def)

lemma look_None: "look canon kvs c = None \<longleftrightarrow> (\<forall>kv \<in> set kvs. canon (fst kv) \<noteq> c)"
  by (auto simp: look_def find_None_iff)

lemma look_Some:
  assumes "distinct (map (\<lambda>kv. canon (fst kv)) kvs)"
  shows "look canon kvs c = Some kv \<longleftrightarrow> kv \<in> set kvs \<and> canon (fst kv) = c"
  using assms by (induction kvs) (auto simp: look_def)

section \<open>Documents with different keys\<close>

locale keyed_parts =
  fixes fs :: "(bytes \<times> 's doc_part) list"
    and rest :: "'s doc_part list"
    and canon :: "bytes \<Rightarrow> bytes"
    and good :: "bytes \<Rightarrow> bson_value_ref \<Rightarrow> bool"
    and verdict :: "bytes \<Rightarrow> bson_value_ref \<Rightarrow> pstate"
    and effect :: "bytes \<Rightarrow> bson_value_ref \<Rightarrow> 's \<Rightarrow> 's"
  assumes classes: "distinct (map fst fs)"
    and plain: "(c, d) \<in> set fs \<Longrightarrow> d \<noteq> Reject_others"
    and hit: "(c, d) \<in> set fs \<Longrightarrow> canon k = c \<Longrightarrow> good k v \<Longrightarrow>
      gives (part_rule d) (kv_ref (k, v)) (verdict k v) (effect k v)"
    and miss: "fs = before @ (c, d) # after \<Longrightarrow> canon k \<noteq> c \<Longrightarrow>
      (canon k \<in> fst ` set before \<longrightarrow> good k v \<and> verdict k v = Reject) \<Longrightarrow>
      gives (part_rule d) (kv_ref (k, v)) Reject id"
    and rest_new: "all_fine (map new_part rest)"
    and inert: "canon k \<in> fst ` set fs \<longrightarrow> good k v \<and> verdict k v = Reject \<Longrightarrow> all_fine qs \<Longrightarrow>
      \<exists>st qs'. handle_parts rest qs (kv_ref (k, v)) s = okE (st, qs', s) \<and> st \<noteq> Error \<and> all_fine qs'"
begin

abbreviation parts :: "'s doc_part list" where
  "parts \<equiv> map snd fs @ rest"

abbreviation is_key :: "bytes \<Rightarrow> bool" where
  "is_key k \<equiv> canon k \<in> fst ` set fs"

lemma handle_miss:
  assumes "fs = before @ (c, d) # after" "part_of d acc p" "canon k \<noteq> c"
    and "canon k \<in> fst ` set before \<longrightarrow> good k v \<and> verdict k v = Reject"
  shows "\<exists>p'. handle_element d p (kv_ref (k, v)) s = okE (Reject, p', s) \<and> part_of d acc p'"
proof -
  obtain res where "part_rule d (kv_ref (k, v)) s = okE (res, s)" "state res = Reject"
    using miss [OF assms(1,3,4)] by (rule givesE [where s = s]) auto
  then show ?thesis
    using part_of_take [of d p res] assms(2) part_of_did(1) [OF assms(2)]
    by (cases acc) (auto simp: handle_keyed [OF assms(2)] handle_with_def)
qed

lemma handle_misses:
  assumes "fs = before @ gs" "parts_of gs acc ps" "canon k \<notin> fst ` set gs"
    and "canon k \<in> fst ` set before \<longrightarrow> good k v \<and> verdict k v = Reject"
  shows "\<exists>ps'. handle_parts (map snd gs) ps (kv_ref (k, v)) s = okE (Reject, ps', s) \<and>
    parts_of gs acc ps'"
  using assms
proof (induction gs arbitrary: before ps)
  case (Cons f gs)
  then obtain p ps' where p: "ps = p # ps'" "part_of (snd f) (acc (fst f)) p" "parts_of gs acc ps'"
    by (auto simp: parts_of_Cons)
  have k: "canon k \<noteq> fst f" "canon k \<notin> fst ` set gs"
    "canon k \<in> fst ` set (before @ [f]) \<longrightarrow> good k v \<and> verdict k v = Reject"
    using Cons.prems(3,4) by auto
  have "fs = before @ (fst f, snd f) # gs" using Cons.prems(1) by simp
  from handle_miss [OF this p(2) k(1) Cons.prems(4), of s]
  obtain q where q: "handle_element (snd f) p (kv_ref (k, v)) s = okE (Reject, q, s)"
    "part_of (snd f) (acc (fst f)) q"
    by auto
  from Cons.IH [of "before @ [f]", OF _ p(3) k(2,3)] Cons.prems(1) q p(1) show ?case by (auto simp: parts_of_Cons)
qed (simp add: parts_of_def)

lemma handle_hit:
  assumes "fs = before @ gs" "parts_of gs acc ps"
    and "canon k \<in> fst ` set gs" "\<not> acc (canon k)" "good k v"
  shows "\<exists>ps' s'. handle_parts (map snd gs) ps (kv_ref (k, v)) s = okE (verdict k v, ps', s') \<and>
    (if verdict k v = Error then parts_state ps' = Error
     else s' = effect k v s \<and> parts_of gs (acc(canon k := (verdict k v = Accept))) ps')"
  using assms(1-4)
proof (induction gs arbitrary: before ps)
  case (Cons f gs)
  then obtain p ps' where p: "ps = p # ps'" "part_of (snd f) (acc (fst f)) p" "parts_of gs acc ps'"
    by (auto simp: parts_of_Cons)
  have f: "fs = before @ (fst f, snd f) # gs" using Cons.prems(1) by simp
  have d: "distinct (map fst before @ fst f # map fst gs)" using classes unfolding f by simp
  let ?acc = "acc(canon k := (verdict k v = Accept))"
  show ?case
  proof (cases "canon k = fst f")
    case True
    have "(fst f, snd f) \<in> set fs" unfolding f by simp
    from hit [OF this True assms(5)]
    obtain res s' where res: "part_rule (snd f) (kv_ref (k, v)) s = okE (res, s')"
      "state res = verdict k v" "verdict k v \<noteq> Error \<longrightarrow> s' = effect k v s"
      by (rule givesE [where s = s])
    have pf: "part_of (snd f) False p" using p(2) Cons.prems(4) True by simp
    then have h: "handle_element (snd f) p (kv_ref (k, v)) s =
        okE (verdict k v, take_result res p, s')"
      using res(1,2) by (simp add: handle_keyed [OF p(2)] part_of_did [OF pf] handle_with_def)
    have nk: "canon k \<notin> fst ` set gs" using d True by simp
    then have same: "parts_of gs ?acc qs = parts_of gs acc qs" for qs
      by (intro parts_of_cong) (metis fun_upd_other)
    show ?thesis
    proof (cases "verdict k v")
      case Error
      with part_of_error [OF pf, of res] res h p(1) show ?thesis by (simp add: parts_state_Error)
    next
      case Accept
      with part_of_take [OF pf, of res] res h p(1,3) same show ?thesis by (auto simp: parts_of_Cons True)
    next
      case Reject
      with handle_misses [of "before @ [f]" gs acc ps' k v "effect k v s"] f p(3) nk assms(5) obtain qs where
        "handle_parts (map snd gs) ps' (kv_ref (k, v)) (effect k v s) = okE (Reject, qs, effect k v s)"
        "parts_of gs acc qs" by auto
      with Reject part_of_take [OF pf, of res] res h p(1) same show ?thesis by (auto simp: parts_of_Cons True)
    qed
  next
    case False
    have nb: "canon k \<notin> fst ` set before" using d False Cons.prems(3) by auto
    then have "canon k \<in> fst ` set before \<longrightarrow> good k v \<and> verdict k v = Reject" by simp
    from handle_miss [OF f p(2) False this, of s]
    obtain q where q: "handle_element (snd f) p (kv_ref (k, v)) s = okE (Reject, q, s)"
      "part_of (snd f) (acc (fst f)) q"
      by auto
    from Cons.IH [of "before @ [f]" ps'] Cons.prems False p(3) obtain qs s' where
      "handle_parts (map snd gs) ps' (kv_ref (k, v)) s = okE (verdict k v, qs, s')"
      "if verdict k v = Error then parts_state qs = Error
       else s' = effect k v s \<and> parts_of gs ?acc qs"
      by auto
    with q p(1) False show ?thesis
      by (auto simp: parts_of_Cons parts_state_Error)
  qed
qed simp

lemmas handle_parts_two = handle_parts_append [of "map snd fs" _ rest]

text \<open>One element: the body of the loop over the document.\<close>

lemma body_miss:
  assumes "parts_of fs acc ps" "all_fine qs" "\<not> is_key k" "\<not> list_all done_looking (ps @ qs)"
  shows "\<exists>ps' qs'. doc_body parts (kv_ref (k, v)) (ps @ qs, s) = okE (None, ps' @ qs', s) \<and>
    parts_of fs acc ps' \<and> all_fine qs'"
proof -
  from handle_misses [of "[]", OF _ assms(1,3)] obtain ps' where
    "handle_parts (map snd fs) ps (kv_ref (k, v)) s = okE (Reject, ps', s)" "parts_of fs acc ps'" by auto
  moreover from inert [of k v qs s] assms(2,3) obtain st qs' where
    "handle_parts rest qs (kv_ref (k, v)) s = okE (st, qs', s)" "st \<noteq> Error" "all_fine qs'" by blast
  ultimately show ?thesis
    using assms(4) parts_of_length [OF assms(1)] by (simp add: doc_body_def handle_parts_two) blast
qed

lemma body_hit:
  assumes "parts_of fs acc ps" "all_fine qs" "is_key k" "\<not> acc (canon k)" "good k v"
  shows "\<exists>ps' qs' s'. doc_body parts (kv_ref (k, v)) (ps @ qs, s) =
      okE (if verdict k v = Error then Some () else None, ps' @ qs', s') \<and>
    (if verdict k v = Error then parts_state (ps' @ qs') = Error
     else s' = effect k v s \<and> parts_of fs (acc(canon k := (verdict k v = Accept))) ps' \<and> all_fine qs')"
proof -
  have nd: "\<not> list_all done_looking (ps @ qs)" using parts_of_done [OF assms(1)] assms(3,4) by auto
  from handle_hit [OF append_Nil [symmetric] assms(1,3-5), of s] obtain ps' s' where ps':
    "handle_parts (map snd fs) ps (kv_ref (k, v)) s = okE (verdict k v, ps', s')"
    "if verdict k v = Error then parts_state ps' = Error
     else s' = effect k v s \<and> parts_of fs (acc(canon k := (verdict k v = Accept))) ps'" by blast
  show ?thesis
  proof (cases "verdict k v = Reject")
    case False
    with ps' nd assms(2) parts_of_length [OF assms(1)] show ?thesis
      by (intro exI [of _ ps'] exI [of _ qs] exI [of _ s'])
        (auto simp: doc_body_def handle_parts_two parts_state_Error)
  next
    case True
    from inert [of k v qs "effect k v s"] True assms(2,5) obtain st qs' where
      "handle_parts rest qs (kv_ref (k, v)) (effect k v s) = okE (st, qs', effect k v s)" "st \<noteq> Error"
      "all_fine qs'" by blast
    with True ps' nd parts_of_length [OF assms(1)] show ?thesis
      by (intro exI [of _ ps'] exI [of _ qs'] exI [of _ s']) (auto simp: doc_body_def handle_parts_two)
  qed
qed

text \<open>What parsing a list of keys and values does to the variables.\<close>

definition effects :: "kv list \<Rightarrow> 's \<Rightarrow> 's" where
  "effects kvs s = fold (\<lambda>(k, v). if is_key k then effect k v else id) kvs s"

lemma effects_none: "\<forall>k \<in> fst ` set kvs. \<not> is_key k \<Longrightarrow> effects kvs s = s"
proof (induction kvs)
  case (Cons kv kvs)
  obtain k v where kv: "kv = (k, v)" by (cases kv)
  have "effects (kv # kvs) s = effects kvs s" using Cons.prems by (simp add: effects_def kv)
  with Cons show ?case by simp
qed (simp add: effects_def)

abbreviation has :: "kv list \<Rightarrow> bytes \<Rightarrow> bool" where
  "has kvs c \<equiv> \<exists>(k, v) \<in> set kvs. canon k = c \<and> verdict k v = Accept"

abbreviation errs :: "kv list \<Rightarrow> bool" where
  "errs kvs \<equiv> \<exists>(k, v) \<in> set kvs. is_key k \<and> verdict k v = Error"

definition final_parts :: "kv list \<Rightarrow> (bytes \<Rightarrow> bool) \<Rightarrow> 's \<Rightarrow> part list \<Rightarrow> 's \<Rightarrow> bool" where
  "final_parts kvs acc s ps s' \<longleftrightarrow>
     (if errs kvs then parts_state ps = Error
      else s' = effects kvs s \<and>
        (\<exists>ps1 qs. ps = ps1 @ qs \<and> parts_of fs (\<lambda>c. acc c \<or> has kvs c) ps1 \<and> all_fine qs))"

lemma for_refs_parts:
  assumes "parts_of fs acc ps" "all_fine qs" "distinct (map (\<lambda>kv. canon (fst kv)) kvs)"
    and "\<forall>(k, v) \<in> set kvs. is_key k \<longrightarrow> good k v" "\<forall>k \<in> fst ` set kvs. \<not> acc (canon k)"
  shows "\<exists>out ps' s'. for_refs (doc_body parts) (map kv_ref kvs) (ps @ qs, s) = okE (out, ps', s') \<and>
    final_parts kvs acc s ps' s'"
  using assms
proof (induction kvs arbitrary: acc ps qs s)
  case Nil
  then show ?case by (auto simp: final_parts_def effects_def)
next
  case (Cons kv kvs)
  obtain k v where kv: "kv = (k, v)" by (cases kv)
  have nacc: "\<not> acc (canon k)" using Cons.prems(5) by (simp add: kv)
  have rest: "distinct (map (\<lambda>kv. canon (fst kv)) kvs)" "\<forall>(k, v) \<in> set kvs. is_key k \<longrightarrow> good k v"
    "canon k \<notin> canon ` fst ` set kvs"
    using Cons.prems(3,4) by (simp_all add: kv image_image)
  consider (stop) "list_all done_looking (ps @ qs)" | (miss) "\<not> list_all done_looking (ps @ qs)" "\<not> is_key k"
    | (key) "is_key k" by blast
  then show ?case
  proof cases
    case stop
    then have all: "\<forall>c \<in> fst ` set fs. acc c" using parts_of_done [OF Cons.prems(1)] by simp
    then have out: "\<forall>k \<in> fst ` set (kv # kvs). \<not> is_key k" using Cons.prems(5) by blast
    have "parts_of fs (\<lambda>c. acc c \<or> has (kv # kvs) c) ps"
      using Cons.prems(1) all by (subst parts_of_cong [of fs _ acc]) auto
    moreover have "\<not> errs (kv # kvs)" using out by force
    ultimately have "final_parts (kv # kvs) acc s (ps @ qs) s"
      using effects_none [OF out] Cons.prems(2) unfolding final_parts_def by auto
    with stop show ?thesis by (auto simp: doc_body_def)
  next
    case miss
    from body_miss [OF Cons.prems(1,2) miss(2,1), of v s] obtain ps' qs' where b:
      "doc_body parts (kv_ref (k, v)) (ps @ qs, s) = okE (None, ps' @ qs', s)" "parts_of fs acc ps'"
      "all_fine qs'" by blast
    have "parts_of fs (\<lambda>c. acc c \<or> has (kv # kvs) c) r = parts_of fs (\<lambda>c. acc c \<or> has kvs c) r" for r
      using miss by (intro parts_of_cong) (auto simp: kv)
    then have "final_parts (kv # kvs) acc s p t = final_parts kvs acc s p t" for p t
      using miss by (simp add: final_parts_def effects_def kv)
    with Cons.IH [OF b(2,3) rest(1,2), of s] Cons.prems(5) b(1) show ?thesis by (simp add: kv)
  next
    case key
    let ?acc = "acc(canon k := (verdict k v = Accept))"
    have good: "good k v" using Cons.prems(4) key by (simp add: kv)
    from body_hit [OF Cons.prems(1,2) key nacc good, of s] obtain ps' qs' s' where b:
      "doc_body parts (kv_ref (k, v)) (ps @ qs, s) =
        okE (if verdict k v = Error then Some () else None, ps' @ qs', s')"
      "if verdict k v = Error then parts_state (ps' @ qs') = Error
       else s' = effect k v s \<and> parts_of fs ?acc ps' \<and> all_fine qs'" by blast
    show ?thesis
    proof (cases "verdict k v = Error")
      case True
      with b key show ?thesis by (auto simp: final_parts_def kv)
    next
      case False
      have "has (kv # kvs) c \<or> acc c \<longleftrightarrow> has kvs c \<or> ?acc c" for c
        using nacc rest(3) by (auto simp: kv image_image)
      then have "parts_of fs (\<lambda>c. acc c \<or> has (kv # kvs) c) r = parts_of fs (\<lambda>c. ?acc c \<or> has kvs c) r" for r
        by (intro parts_of_cong) blast
      then have fp: "final_parts (kv # kvs) acc s p t = final_parts kvs ?acc (effect k v s) p t" for p t
        using False key by (simp add: final_parts_def effects_def kv)
      have "\<forall>k' \<in> fst ` set kvs. \<not> ?acc (canon k')"
      proof
        fix k' assume k': "k' \<in> fst ` set kvs"
        then have "canon k' \<noteq> canon k" using rest(3) by (metis imageI)
        moreover have "\<not> acc (canon k')" using k' Cons.prems(5) by auto
        ultimately show "\<not> ?acc (canon k')" by simp
      qed
      from Cons.IH [OF _ _ rest(1,2) this, of ps' qs' "effect k v s"] b False show ?thesis
        unfolding fp by (simp add: kv del: fun_upd_apply)
    qed
  qed
qed

text \<open>When every part is as it should be.\<close>

definition accepts :: "kv list \<Rightarrow> bool" where
  "accepts kvs \<longleftrightarrow>
     (\<forall>(k, v) \<in> set kvs. is_key k \<longrightarrow> verdict k v \<noteq> Error) \<and>
     (\<forall>(c, d) \<in> set fs. required d \<longrightarrow> has kvs c)"

lemma doc_parts:
  assumes "kvs_ok kvs" "distinct (map (\<lambda>kv. canon (fst kv)) kvs)" "\<forall>(k, v) \<in> set kvs. is_key k \<longrightarrow> good k v"
  shows "\<exists>res s'. doc_view_rule parts (Some (kv_doc kvs)) s = okE (res, s') \<and>
    state res = (if errs kvs then Error else if accepts kvs then Accept else Reject) \<and>
    (\<not> errs kvs \<longrightarrow> s' = effects kvs s)"
proof -
  have "parts_of fs (\<lambda>_. False) (map new_part (map snd fs))" using plain by (intro parts_of_new) auto
  from for_refs_parts [OF this rest_new assms(2,3), of s] obtain out ps s' where
    r: "for_refs (doc_body parts) (map kv_ref kvs) (map new_part parts, s) = okE (out, ps, s')"
    and c: "final_parts kvs (\<lambda>_. False) s ps s'" by auto
  have "doc_view_rule parts (Some (kv_doc kvs)) s = okE (Doc_result (Some ps), s')"
    using r by (simp add: doc_view_rule_def for_view_kvs [OF assms(1)])
  moreover have "errs kvs \<or> parts_state ps = (if accepts kvs then Accept else Reject) \<and> s' = effects kvs s"
  proof (rule disjCI)
    assume ne: "\<not> (parts_state ps = (if accepts kvs then Accept else Reject) \<and> s' = effects kvs s)"
    show "errs kvs"
    proof (rule ccontr)
      assume e: "\<not> errs kvs"
      with c obtain ps1 qs where "s' = effects kvs s" "ps = ps1 @ qs" "parts_of fs (has kvs) ps1" "all_fine qs"
        unfolding final_parts_def by auto
      moreover from e have "accepts kvs \<longleftrightarrow> (\<forall>(c, d) \<in> set fs. required d \<longrightarrow> has kvs c)"
        unfolding accepts_def by fast
      ultimately show False using ne parts_of_state by auto
    qed
  qed
  moreover have "parts_state ps = Error" if "errs kvs" using c that by (simp add: final_parts_def)
  ultimately show ?thesis
    by (intro exI [of _ "Doc_result (Some ps)"] exI [of _ s'] conjI) auto
qed

lemma accepts_no_errs: "accepts kvs \<Longrightarrow> \<not> errs kvs"
  unfolding accepts_def by blast

lemma must_parse_parts:
  assumes "kvs_ok kvs" "distinct (map (\<lambda>kv. canon (fst kv)) kvs)"
    and "\<forall>(k, v) \<in> set kvs. is_key k \<longrightarrow> good k v"
  shows "\<exists>msg. must_parse (Some (kv_doc kvs)) (doc_view_rule parts) s =
    (if accepts kvs then okE (effects kvs s) else throwE (Protocol_error msg))"
proof -
  from doc_parts [OF assms, of s] obtain res s' where
    r: "doc_view_rule parts (Some (kv_doc kvs)) s = okE (res, s')"
    "state res = (if errs kvs then Error else if accepts kvs then Accept else Reject)"
    "\<not> errs kvs \<longrightarrow> s' = effects kvs s" by blast
  show ?thesis
  proof (cases "accepts kvs")
    case True
    with accepts_no_errs [OF True] r show ?thesis by (simp add: must_parse_def)
  next
    case False
    then have "state res \<noteq> Accept" unfolding r(2) by simp
    with False r(1) show ?thesis by (simp add: must_parse_def)
  qed
qed

lemma accepts_look:
  assumes "distinct (map (\<lambda>kv. canon (fst kv)) kvs)"
  shows "accepts kvs \<longleftrightarrow> (\<forall>(c, d) \<in> set fs. case look canon kvs c of None \<Rightarrow> \<not> required d
    | Some (k, v) \<Rightarrow> verdict k v \<noteq> Error \<and> (required d \<longrightarrow> verdict k v = Accept))"
proof -
  have "accepts kvs \<longleftrightarrow> (\<forall>(c, d) \<in> set fs. (\<forall>k v. look canon kvs c = Some (k, v) \<longrightarrow> verdict k v \<noteq> Error) \<and>
      (required d \<longrightarrow> (\<exists>k v. look canon kvs c = Some (k, v) \<and> verdict k v = Accept)))"
    (is "?l = ?r")
  proof
    assume a: ?l
    show ?r
    proof (clarify, intro conjI allI impI)
      fix c d k v assume cd: "(c, d) \<in> set fs"
      show "verdict k v \<noteq> Error" if "look canon kvs c = Some (k, v)"
        using a cd that unfolding accepts_def look_Some [OF assms] by force
      show "\<exists>k v. look canon kvs c = Some (k, v) \<and> verdict k v = Accept" if "required d"
        using a cd that unfolding accepts_def look_Some [OF assms] by fastforce
    qed
  next
    assume a: ?r
    show ?l
      unfolding accepts_def
    proof (intro conjI ballI; clarify)
      fix k v c d assume kv: "(k, v) \<in> set kvs" "(c, d) \<in> set fs" "canon k = fst (c, d)" "verdict k v = Error"
      then have "look canon kvs c = Some (k, v)" by (simp add: look_Some [OF assms])
      with a kv show False by fast
    next
      fix c d assume cd: "(c, d) \<in> set fs" "required d"
      with a obtain k v where "look canon kvs c = Some (k, v)" "verdict k v = Accept" by fast
      then show "has kvs c" using look_Some [OF assms] by fastforce
    qed
  qed
  also have "\<dots> \<longleftrightarrow> (\<forall>(c, d) \<in> set fs. case look canon kvs c of None \<Rightarrow> \<not> required d
      | Some (k, v) \<Rightarrow> verdict k v \<noteq> Error \<and> (required d \<longrightarrow> verdict k v = Accept))"
    by (intro ball_cong refl) (auto split: option.split)
  finally show ?thesis .
qed

text \<open>A variable that only one of the parts assigns.\<close>

lemma effects_get:
  assumes "\<And>k v s. is_key k \<Longrightarrow> get (effect k v s) = (if canon k = c then f k v (get s) else get s)"
    and "c \<in> fst ` set fs" "distinct (map (\<lambda>kv. canon (fst kv)) kvs)"
  shows "get (effects kvs s) = (case look canon kvs c of None \<Rightarrow> get s | Some (k, v) \<Rightarrow> f k v (get s))"
  using assms(3)
proof (induction kvs arbitrary: s)
  case (Cons kv kvs)
  obtain k v where kv: "kv = (k, v)" by (cases kv)
  define t where "t = (if is_key k then effect k v s else s)"
  have e: "effects (kv # kvs) s = effects kvs t"
    by (simp add: effects_def kv t_def)
  have "look canon kvs c = None" if "canon k = c"
    using Cons.prems that by (force simp: look_None kv)
  moreover have "look canon (kv # kvs) c = (if canon k = c then Some kv else look canon kvs c)"
    by (simp add: look_def kv)
  moreover have "get t = (if canon k = c then f k v (get s) else get s)"
    using assms(1,2) by (auto simp: t_def)
  ultimately show ?case using Cons unfolding e by (simp add: kv split: option.split)
qed (simp add: effects_def look_def)

lemma effects_keep:
  assumes "\<And>k v s. is_key k \<Longrightarrow> get (effect k v s) = get s"
  shows "get (effects kvs s) = get s"
proof (induction kvs arbitrary: s)
  case (Cons kv kvs)
  obtain k v where kv: "kv = (k, v)" by (cases kv)
  have "effects (kv # kvs) s = effects kvs ((if is_key k then effect k v else id) s)"
    by (simp add: effects_def kv)
  with Cons assms show ?case by simp
qed (simp add: effects_def)

lemma gives_parts:
  assumes "kvs_ok kvs" "distinct (map (\<lambda>kv. canon (fst kv)) kvs)"
    and "\<forall>(k, v) \<in> set kvs. is_key k \<longrightarrow> good k v"
  shows "gives (doc_view_rule parts) (Some (kv_doc kvs))
    (if errs kvs then Error else if accepts kvs then Accept else Reject) (effects kvs)"
  unfolding gives_def
proof
  fix s
  from doc_parts [OF assms, of s] obtain res s' where
    "doc_view_rule parts (Some (kv_doc kvs)) s = okE (res, s')"
    "state res = (if errs kvs then Error else if accepts kvs then Accept else Reject)"
    "\<not> errs kvs \<longrightarrow> s' = effects kvs s" by blast
  then show "\<exists>res s'. doc_view_rule parts (Some (kv_doc kvs)) s = okE (res, s') \<and>
      state res = (if errs kvs then Error else if accepts kvs then Accept else Reject) \<and>
      ((if errs kvs then Error else if accepts kvs then Accept else Reject) \<noteq> Error \<longrightarrow> s' = effects kvs s)"
    by (intro exI [of _ res] exI [of _ s']) auto
qed

end

section \<open>What the rules give\<close>

named_theorems gives_intros \<open>what a rule gives, from what its parts give\<close>

lemma gives_cong: "gives r ref st eff \<Longrightarrow> st = st' \<Longrightarrow> (st \<noteq> Error \<Longrightarrow> eff = eff') \<Longrightarrow> gives r ref st' eff'"
  by (auto simp: gives_def)

text \<open>A rule that applies another one and wraps its result.\<close>

lemma gives_wrap:
  assumes "gives r x st eff" "\<And>s. r' ref s = bindE (r x s) (\<lambda>(res, s). okE (W res, s))"
    and "\<And>res. state (W res) = g (state res)" "g st \<noteq> Error \<Longrightarrow> st \<noteq> Error"
  shows "gives r' ref (g st) eff"
  unfolding gives_def
proof
  fix s
  obtain res s' where "r x s = okE (res, s')" "state res = st" "st \<noteq> Error \<longrightarrow> s' = eff s"
    using assms(1) by (rule givesE)
  with assms(2-4) show "\<exists>res s'. r' ref s = okE (res, s') \<and> state res = g st \<and>
      (g st \<noteq> Error \<longrightarrow> s' = eff s)" by auto
qed

lemma gives_field [gives_intros]:
  "gives r (kv_ref (key, v)) st eff \<Longrightarrow> gives (field_rule key r) (kv_ref (key, v)) st eff"
  "k \<noteq> key \<Longrightarrow> gives (field_rule key r) (kv_ref (k, v)) Reject id"
proof -
  show "gives r (kv_ref (key, v)) st eff \<Longrightarrow> gives (field_rule key r) (kv_ref (key, v)) st eff"
    by (rule gives_wrap [where g = "\<lambda>st. st" and W = "\<lambda>res. Field_result key (Some res)"])
      (simp_all add: field_rule_def)
qed (simp add: gives_def field_rule_def)

lemma gives_must [gives_intros]:
  "gives r ref st eff \<Longrightarrow> gives (must_rule r) ref (if st = Reject then Error else st) eff"
  by (rule gives_wrap [where g = "\<lambda>st. if st = Reject then Error else st" and W = Must_result])
    (auto simp: must_rule_def)

lemma gives_type [gives_intros]:
  "conv ref = Inr None \<Longrightarrow> gives (type_rule conv r) ref Reject id"
  "conv ref = Inr (Some x) \<Longrightarrow> gives r x st eff \<Longrightarrow> gives (type_rule conv r) ref st eff"
proof -
  show "conv ref = Inr (Some x) \<Longrightarrow> gives r x st eff \<Longrightarrow> gives (type_rule conv r) ref st eff"
    by (rule gives_wrap [where g = "\<lambda>st. st" and W = "\<lambda>res. Type_result (Some res)"])
      (simp_all add: type_rule_def)
qed (simp add: gives_def type_rule_def)

lemma gives_assign [gives_intros]: "gives (assign_rule dest) x Accept (dest x)"
  by (simp add: gives_def assign_rule_def)

lemma gives_store [gives_intros]:
  "conv ref = Inr x \<Longrightarrow> gives (store_rule conv dest) ref (if x = None then Reject else Accept)
     (case x of None \<Rightarrow> id | Some y \<Rightarrow> dest y)"
  unfolding store_rule_def by (cases x) (auto intro: gives_type gives_assign)

lemma gives_just_accept [gives_intros]: "gives just_accept ref Accept id"
  by (simp add: gives_def just_accept_def all_rule_def)

text \<open>The integer that an element of a numeric type has.\<close>

fun int_member :: "bson_value_ref \<Rightarrow> int option" where
  "int_member (V_int32 n) = Some (sint n)"
| "int_member (V_int64 n) = Some (sint n)"
| "int_member _ = None"

lemma value_type_int:
  "value_type v = bson_type_int32 \<longleftrightarrow> (\<exists>n. v = V_int32 n)"
  "value_type v = bson_type_int64 \<longleftrightarrow> (\<exists>n. v = V_int64 n)"
  by (cases v; simp add: bson_type_defs)+

lemma int_member_SomeE:
  assumes "int_member v = Some n"
  obtains w where "v = V_int32 w" "n = sint w" | w where "v = V_int64 w" "n = sint w"
  using assms by (cases v) auto

lemma integer_rule_kv:
  "integer_rule r (kv_ref (k, v)) s =
     (case int_member v of None \<Rightarrow> okE (Integer_result None, s)
      | Some n \<Rightarrow> bindE (r n s) (\<lambda>(res, s). okE (Integer_result (Some res), s)))"
proof (cases "int_member v")
  case None
  then have "value_type v \<noteq> bson_type_int32" "value_type v \<noteq> bson_type_int64"
    by (auto simp: value_type_int)
  with None show ?thesis by (simp add: integer_rule_def)
next
  case (Some n)
  then show ?thesis
    by (elim int_member_SomeE) (simp_all add: integer_rule_def bson_value_as_int64_def)
qed

lemma gives_integer [gives_intros]:
  "int_member v = None \<Longrightarrow> gives (integer_rule r) (kv_ref (k, v)) Reject id"
  "int_member v = Some n \<Longrightarrow> gives r n st eff \<Longrightarrow> gives (integer_rule r) (kv_ref (k, v)) st eff"
proof -
  assume g: "gives r n st eff" and n: "int_member v = Some n"
  show "gives (integer_rule r) (kv_ref (k, v)) st eff"
    by (rule gives_wrap [OF g, where g = "\<lambda>st. st" and W = "\<lambda>res. Integer_result (Some res)"])
      (simp_all add: integer_rule_kv n)
qed (simp add: gives_def integer_rule_kv)

lemma try_as_kv: "try_as tag getter (kv_ref (k, v)) = Inr (if value_type v = tag then Some (getter v) else None)"
  by (simp add: try_as_def)

lemma gives_doc_rule [gives_intros]:
  "gives (doc_view_rule ds) (Some d) st eff \<Longrightarrow> gives (doc_rule ds) (kv_ref (k, V_document (Some d))) st eff"
  "gives (doc_view_rule ds) (Some d) st eff \<Longrightarrow> gives (doc_rule ds) (kv_ref (k, V_array (Some d))) st eff"
  by (simp_all add: gives_def doc_rule_def get_document_or_array_def)

text \<open>The loop of \<^verbatim>\<open>each\<close>: it ends behind the first element that its rule does not accept.\<close>

definition each_state :: "(kv \<Rightarrow> pstate) \<Rightarrow> kv list \<Rightarrow> pstate" where
  "each_state st kvs = (case dropWhile (\<lambda>kv. st kv = Accept) kvs of [] \<Rightarrow> Accept | kv # _ \<Rightarrow> st kv)"

definition each_effect :: "(kv \<Rightarrow> pstate) \<Rightarrow> (kv \<Rightarrow> 's \<Rightarrow> 's) \<Rightarrow> kv list \<Rightarrow> 's \<Rightarrow> 's" where
  "each_effect st eff kvs =
     fold eff (takeWhile (\<lambda>kv. st kv = Accept) kvs @ take 1 (dropWhile (\<lambda>kv. st kv = Accept) kvs))"

lemma each_all_accept:
  "\<forall>kv \<in> set kvs. st kv = Accept \<Longrightarrow> each_state st kvs = Accept \<and> each_effect st eff kvs = fold eff kvs"
  by (simp add: each_state_def each_effect_def takeWhile_eq_all_conv [THEN iffD2]
      dropWhile_eq_Nil_conv [THEN iffD2])

lemma gives_each [gives_intros]:
  assumes "kvs_ok kvs" "\<forall>kv \<in> set kvs. gives r (kv_ref kv) (st kv) (eff kv)"
  shows "gives (each_view_rule r) (Some (kv_doc kvs)) (each_state st kvs) (each_effect st eff kvs)"
  unfolding gives_def
proof
  fix s
  let ?body = "\<lambda>el s. bindE (r el s) (\<lambda>(res, s). if state res \<noteq> Accept then
    bindE (liftE (rf_key el)) (\<lambda>k. okE (Some (Each_result k (Some res)), s)) else okE (None, s))"
  have "\<exists>out s'. for_refs ?body (map kv_ref kvs) s = okE (out, s') \<and>
      state (case out of Some res \<Rightarrow> res | None \<Rightarrow> Each_result [] None) = each_state st kvs \<and>
      (each_state st kvs \<noteq> Error \<longrightarrow> s' = each_effect st eff kvs s)"
    using assms(2)
  proof (induction kvs arbitrary: s)
    case (Cons kv kvs)
    obtain k v where kv: "kv = (k, v)" by (cases kv)
    have "gives r (kv_ref kv) (st kv) (eff kv)" using Cons.prems by simp
    then obtain res s' where r: "r (kv_ref kv) s = okE (res, s')" "state res = st kv"
      "st kv \<noteq> Error \<longrightarrow> s' = eff kv s" by (rule givesE [where s = s])
    show ?case
    proof (cases "st kv = Accept")
      case True
      with Cons.IH [of "eff kv s"] Cons.prems r show ?thesis
        by (simp add: each_state_def each_effect_def)
    next
      case False
      with r show ?thesis by (simp add: each_state_def each_effect_def kv)
    qed
  qed (simp add: each_state_def each_effect_def)
  then show "\<exists>res s'. each_view_rule r (Some (kv_doc kvs)) s = okE (res, s') \<and>
      state res = each_state st kvs \<and> (each_state st kvs \<noteq> Error \<longrightarrow> s' = each_effect st eff kvs s)"
    by (auto simp: each_view_rule_def for_view_kvs [OF assms(1)])
qed

section \<open>Fields\<close>

text \<open>
  The common case: each part is a field with its key, whether it is required, and a rule for the value.
  What the rules for the values promise gives what the parts promise.
\<close>

type_synonym 's field_spec = "bytes \<times> bool \<times> (reference, 's) rule"

definition field_part :: "'s field_spec \<Rightarrow> bytes \<times> 's doc_part" where
  "field_part = (\<lambda>(k, req, r). (k, if req then require k r else Opt (field_rule k r)))"

definition field_parts :: "'s field_spec list \<Rightarrow> 's doc_part list" where
  "field_parts fs = map (\<lambda>f. snd (field_part f)) fs"

lemma field_part_simps:
  "fst (field_part (k, req, r)) = k" "required (snd (field_part (k, req, r))) = req"
  "part_rule (snd (field_part (k, req, r))) = field_rule k r"
  "snd (field_part (k, req, r)) \<noteq> Reject_others"
  by (simp_all add: field_part_def require_def)

locale field_rules =
  fixes fs :: "'s field_spec list"
    and rest :: "'s doc_part list"
    and good :: "bytes \<Rightarrow> bson_value_ref \<Rightarrow> bool"
    and verdict :: "bytes \<Rightarrow> bson_value_ref \<Rightarrow> pstate"
    and effect :: "bytes \<Rightarrow> bson_value_ref \<Rightarrow> 's \<Rightarrow> 's"
  assumes different: "distinct (map fst fs)"
    and answer: "(k, req, r) \<in> set fs \<Longrightarrow> good k v \<Longrightarrow> gives r (kv_ref (k, v)) (verdict k v) (effect k v)"
    and rest_fine: "all_fine (map new_part rest)"
    and rest_inert: "k \<in> fst ` set fs \<longrightarrow> good k v \<and> verdict k v = Reject \<Longrightarrow> all_fine qs \<Longrightarrow>
      \<exists>st qs'. handle_parts rest qs (kv_ref (k, v)) s = okE (st, qs', s) \<and> st \<noteq> Error \<and> all_fine qs'"
begin

lemma keys_of_parts: "map fst (map field_part fs) = map fst fs"
  by (simp add: field_part_def case_prod_beta)

lemma key_set: "fst ` set (map field_part fs) = fst ` set fs"
  by (simp add: image_image field_part_def case_prod_beta)

end

sublocale field_rules \<subseteq> keyed_parts "map field_part fs" rest "\<lambda>k. k" good verdict effect
proof unfold_locales
  show "distinct (map fst (map field_part fs))" unfolding keys_of_parts by (rule different)
next
  fix c d assume "(c, d) \<in> set (map field_part fs)"
  then obtain k req r where f: "(k, req, r) \<in> set fs" "c = k" "d = snd (field_part (k, req, r))"
    by (force simp: field_part_def)
  show "d \<noteq> Reject_others" unfolding f(3) by (rule field_part_simps(4))
  show "gives (part_rule d) (kv_ref (k', v)) (verdict k' v) (effect k' v)" if "k' = c" "good k' v" for k' v
    using answer [OF f(1), of v] that f(2) unfolding f(3) field_part_simps by (auto intro: gives_intros)
next
  fix before c d after k' v
  assume fs: "map field_part fs = before @ (c, d) # after" and k': "k' \<noteq> c"
  have "(c, d) \<in> set (map field_part fs)" unfolding fs by simp
  then obtain k req r where f: "c = k" "d = snd (field_part (k, req, r))" by (force simp: field_part_def)
  show "gives (part_rule d) (kv_ref (k', v)) Reject id"
    using k' f(1) unfolding f(2) field_part_simps by (auto intro: gives_intros)
next
  show "all_fine (map new_part rest)" by (rule rest_fine)
next
  fix k v qs s
  assume "k \<in> fst ` set (map field_part fs) \<longrightarrow> good k v \<and> verdict k v = Reject" "all_fine qs"
  then show "\<exists>st qs'. handle_parts rest qs (kv_ref (k, v)) s = okE (st, qs', s) \<and> st \<noteq> Error \<and> all_fine qs'"
    unfolding key_set by (rule rest_inert)
qed

context field_rules
begin

text \<open>The fields as they should be, by lookup of each key.\<close>

definition well_formed :: "kv list \<Rightarrow> bool" where
  "well_formed kvs \<longleftrightarrow> (\<forall>(k, req, r) \<in> set fs. case map_of kvs k of None \<Rightarrow> \<not> req
     | Some v \<Rightarrow> verdict k v = Accept \<or> \<not> req \<and> verdict k v = Reject)"

lemma parts_eq: "map snd (map field_part fs) @ rest = field_parts fs @ rest"
  by (simp add: field_parts_def)

lemma accepts_well_formed:
  assumes "distinct (map fst kvs)"
  shows "accepts kvs \<longleftrightarrow> well_formed kvs"
proof -
  have "accepts kvs \<longleftrightarrow> (\<forall>f \<in> set fs. case map_of kvs (fst f) of None \<Rightarrow> \<not> required (snd (field_part f))
      | Some v \<Rightarrow> verdict (fst f) v \<noteq> Error \<and> (required (snd (field_part f)) \<longrightarrow> verdict (fst f) v = Accept))"
    unfolding accepts_look [OF assms] look_id
    by (auto simp: field_part_def split: option.split)
  also have "\<dots> \<longleftrightarrow> well_formed kvs"
    unfolding well_formed_def
    by (intro ball_cong refl) (auto simp: field_part_simps split: option.split, (metis pstate.exhaust)+)
  finally show ?thesis .
qed

lemma must_parse_lookup:
  assumes "kvs_ok kvs" "distinct (map fst kvs)"
    and "\<And>k v. k \<in> fst ` set fs \<Longrightarrow> map_of kvs k = Some v \<Longrightarrow> good k v"
  shows "\<exists>msg. must_parse (Some (kv_doc kvs)) (doc_view_rule (field_parts fs @ rest)) s =
    (if well_formed kvs then okE (effects kvs s) else throwE (Protocol_error msg))"
proof -
  have "\<forall>(k, v) \<in> set kvs. is_key k \<longrightarrow> good k v"
    unfolding key_set using assms(2,3) by auto
  from must_parse_parts [OF assms(1,2) this, of s] show ?thesis
    unfolding parts_eq accepts_well_formed [OF assms(2)] .
qed

end

end
