(* ===== verification/Amongoc_Replies.thy ===== *)
theory Amongoc_Replies
  imports Bson_Fields Wire_Client
begin

text \<open>
  What the driver reads from the replies of the server: the rules that the operations of
  \<^verbatim>\<open>src/amongoc/collection.cpp\<close> and \<^verbatim>\<open>src/amongoc/database.cpp\<close> apply to the body of a reply. A rule is
  written with the combinators of \<open>Bson_Parse\<close>; the variables that it assigns are a record or a number.
  \<^verbatim>\<open>field\<close> is an optional part of a document and \<^verbatim>\<open>require\<close> a required one.
\<close>

section \<open>Collections and cursors\<close>

record amongoc_collection =
  database_name :: bytes
  collection_name :: bytes

record amongoc_cursor =
  cursor_id :: int
  coll :: amongoc_collection
  records :: bson_doc
  batch_size :: int

definition field :: "string \<Rightarrow> (reference, 's) rule \<Rightarrow> (reference, 's) rule" where
  "field key r = field_rule (ascii key) r"

text \<open>The variables of \<^verbatim>\<open>_parse_cursor\<close>.\<close>

record cursor_vars =
  cv_batch :: doc_view
  cv_id :: int

definition store_batch :: "(reference, cursor_vars) rule" where
  "store_batch = store_rule try_view (\<lambda>d s. s\<lparr>cv_batch := d\<rparr>)"

definition cursor_parts :: "cursor_vars doc_part list" where
  "cursor_parts =
     [Req None (any_rule [field ''firstBatch'' (must_rule store_batch),
                          field ''nextBatch'' (must_rule store_batch)]),
      require (ascii ''id'') (store_rule try_int64 (\<lambda>n s. s\<lparr>cv_id := n\<rparr>)),
      Opt (field ''ns'' just_accept)]"

definition cursor_reply_parts :: "cursor_vars doc_part list" where
  "cursor_reply_parts = [require (ascii ''cursor'') (must_rule (doc_rule cursor_parts))]"

definition parse_cursor ::
  "reallocate_fn \<Rightarrow> amongoc_collection \<Rightarrow> int \<Rightarrow> doc_view \<Rightarrow> amongoc_cursor eres" where
  "parse_cursor alloc c bsize resp =
     bindE (must_parse resp (doc_view_rule cursor_reply_parts) \<lparr>cv_batch = None, cv_id = 0\<rparr>) (\<lambda>s.
     bindE (liftE (bson_copy_view_with_allocator alloc (cv_batch s))) (\<lambda>d.
     okE \<lparr>cursor_id = cv_id s, coll = c, records = d, batch_size = bsize\<rparr>))"

section \<open>Counts\<close>

text \<open>
  \<^verbatim>\<open>amongoc_count_documents\<close>: the pipeline returns one document with the count, or none if nothing
  matches.
\<close>

definition count_parts :: "int doc_part list" where
  "count_parts =
     [require (ascii ''cursor'') (doc_rule
        [require (ascii ''firstBatch'') (must_rule (any_rule
           [doc_rule [Reject_others],
            doc_rule [require (ascii ''0'') (doc_rule
                        [require (ascii ''n'') (must_rule (store_rule try_int32 (\<lambda>n _. n)))]),
                      Reject_others]]))])]"

definition parse_count :: "doc_view \<Rightarrow> int eres" where
  "parse_count resp = must_parse resp (doc_view_rule count_parts) 0"

text \<open>
  \<^verbatim>\<open>amongoc_delete_ex\<close> and \<^verbatim>\<open>amongoc_estimated_document_count\<close>; the latter leaves its variable
  uninitialised.
\<close>

definition n_parts :: "int doc_part list" where
  "n_parts = [require (ascii ''n'') (integer_rule (assign_rule (\<lambda>n _. n)))]"

definition parse_deleted :: "doc_view \<Rightarrow> int eres" where
  "parse_deleted resp = must_parse resp (doc_view_rule n_parts) (- 1)"

definition parse_estimate :: "int \<Rightarrow> doc_view \<Rightarrow> int eres" where
  "parse_estimate junk resp = must_parse resp (doc_view_rule n_parts) junk"

section \<open>Values and documents\<close>

text \<open>\<^verbatim>\<open>amongoc_distinct\<close>: the array of the values.\<close>

definition distinct_parts :: "doc_view doc_part list" where
  "distinct_parts = [require (ascii ''values'') (must_rule (type_rule try_array (assign_rule (\<lambda>d _. d))))]"

definition parse_distinct :: "doc_view \<Rightarrow> doc_view eres" where
  "parse_distinct resp = must_parse resp (doc_view_rule distinct_parts) None"

text \<open>
  \<^verbatim>\<open>amongoc_find_and_modify\<close>: null, or the document, of which the result is a copy; \<open>None\<close> is the empty
  \<^verbatim>\<open>bson_doc\<close> handle.
\<close>

definition find_and_modify_parts :: "doc_view doc_part list" where
  "find_and_modify_parts =
     [require (ascii ''value'') (any_rule
        [type_rule try_null just_accept, store_rule try_view (\<lambda>d _. d)])]"

definition parse_find_and_modify :: "reallocate_fn \<Rightarrow> doc_view \<Rightarrow> bson_doc option eres" where
  "parse_find_and_modify alloc resp =
     bindE (must_parse resp (doc_view_rule find_and_modify_parts) None) (\<lambda>v.
     case v of
       None \<Rightarrow> okE None
     | Some _ \<Rightarrow> bindE (liftE (bson_copy_view_with_allocator alloc v)) (\<lambda>d. okE (Some d)))"

text \<open>
  \<^verbatim>\<open>amongoc_database_aggregate\<close>: unlike \<^verbatim>\<open>_parse_cursor\<close> it looks for the batch in the reply itself. The
  result is the records of the cursor, whose other members stay zero.
\<close>

definition database_batch_parts :: "doc_view doc_part list" where
  "database_batch_parts = [require (ascii ''firstBatch'') (must_rule (store_rule try_view (\<lambda>d _. d)))]"

definition parse_database_batch :: "reallocate_fn \<Rightarrow> doc_view \<Rightarrow> bson_doc eres" where
  "parse_database_batch alloc resp =
     bindE (must_parse resp (doc_view_rule database_batch_parts) None) (\<lambda>batch.
     liftE (bson_copy_view_with_allocator alloc batch))"

section \<open>Keys\<close>

lemma ascii_eq: "ascii s = ascii t \<longleftrightarrow> s = t"
proof -
  have "inj (of_char :: char \<Rightarrow> byte)"
  proof (rule injI)
    fix c d :: char assume e: "(of_char c :: byte) = of_char d"
    have "unat (of_char x :: byte) = of_char x" for x :: char
      by (subst of_nat_of_char [symmetric]) (simp add: unat_of_nat del: of_nat_of_char)
    with e show "c = d" by (metis of_char_eq_iff)
  qed
  then show ?thesis by (simp add: ascii_def inj_map_eq_map)
qed

lemma no_rest: "handle_parts [] qs ref s = okE (Reject, qs, s)" "all_fine []"
  by (simp_all add: all_fine_def)

text \<open>The document or array in a value.\<close>

fun view_member :: "bson_value_ref \<Rightarrow> doc_view option" where
  "view_member (V_document d) = Some d"
| "view_member (V_array d) = Some d"
| "view_member _ = None"

lemma try_view_kv: "try_view (kv_ref (k, v)) = Inr (view_member v)"
  by (cases v) (simp_all add: try_view_def get_document_or_array_def bson_type_defs)

lemma try_int64_kv: "try_int64 (kv_ref (k, v)) = Inr (case v of V_int64 n \<Rightarrow> Some (sint n) | _ \<Rightarrow> None)"
  by (cases v) (simp_all add: try_int64_def try_as_kv bson_type_defs)

lemma try_string_kv: "try_string (kv_ref (k, v)) = Inr (case v of V_utf8 b \<Rightarrow> Some (view_bytes b) | _ \<Rightarrow> None)"
  by (cases v) (simp_all add: try_string_def try_as_kv bson_type_defs)

lemma try_array_kv: "try_array (kv_ref (k, v)) = Inr (case v of V_array d \<Rightarrow> Some d | _ \<Rightarrow> None)"
  by (cases v) (simp_all add: try_array_def try_as_kv bson_type_defs)

text \<open>An option is accepted or rejected.\<close>

definition opt_state :: "'a option \<Rightarrow> pstate" where
  "opt_state x = (if x = None then Reject else Accept)"

definition opt_effect :: "('a \<Rightarrow> 's \<Rightarrow> 's) \<Rightarrow> 'a option \<Rightarrow> 's \<Rightarrow> 's" where
  "opt_effect f x = (case x of None \<Rightarrow> id | Some y \<Rightarrow> f y)"

lemma gives_store_kv:
  "conv (kv_ref (k, v)) = Inr x \<Longrightarrow> gives (store_rule conv dest) (kv_ref (k, v)) (opt_state x) (opt_effect dest x)"
  unfolding opt_state_def opt_effect_def by (rule gives_store)

lemma gives_integer_kv:
  "gives (integer_rule (assign_rule dest)) (kv_ref (k, v)) (opt_state (int_member v)) (opt_effect dest (int_member v))"
  by (cases "int_member v") (auto simp: opt_state_def opt_effect_def intro: gives_intros)

section \<open>Counts\<close>

interpretation n_fields: field_rules "[(ascii ''n'', True, integer_rule (assign_rule (\<lambda>n _. n)))]" "[]"
  "\<lambda>_ _. True" "\<lambda>_ v. opt_state (int_member v)" "\<lambda>_ v. opt_effect (\<lambda>n _. n) (int_member v)"
  by unfold_locales (auto simp: no_rest intro: gives_integer_kv)

lemma n_parts_eq: "n_parts = field_parts [(ascii ''n'', True, integer_rule (assign_rule (\<lambda>n _. n)))] @ []"
  by (simp add: n_parts_def field_parts_def field_part_def)

definition reply_int :: "kv list \<Rightarrow> string \<Rightarrow> int option" where
  "reply_int kvs key = Option.bind (map_of kvs (ascii key)) int_member"

lemma parse_n:
  assumes "kvs_ok kvs" "distinct (map fst kvs)"
  shows "\<exists>msg. must_parse (Some (kv_doc kvs)) (doc_view_rule n_parts) s =
    (case reply_int kvs ''n'' of Some n \<Rightarrow> okE n | None \<Rightarrow> throwE (Protocol_error msg))"
proof -
  have e: "n_fields.effects kvs s = (case look (\<lambda>k. k) kvs (ascii ''n'') of None \<Rightarrow> s
      | Some (k, v) \<Rightarrow> opt_effect (\<lambda>n _. n) (int_member v) s)"
    by (rule n_fields.effects_get [where get = "\<lambda>s. s" and f = "\<lambda>k v s. opt_effect (\<lambda>n _. n) (int_member v) s"])
      (use assms(2) in \<open>auto simp: field_part_def\<close>)
  from n_fields.must_parse_lookup [OF assms, of s] show ?thesis
    unfolding n_parts_eq e look_id n_fields.well_formed_def
    by (auto simp: reply_int_def opt_state_def opt_effect_def split: option.splits)
qed

section \<open>Cursors\<close>

text \<open>The two names of a batch.\<close>

definition batch_key :: "bytes \<Rightarrow> bytes" where
  "batch_key k = (if k = ascii ''nextBatch'' then ascii ''firstBatch'' else k)"

definition cursor_verdict :: "bytes \<Rightarrow> bson_value_ref \<Rightarrow> pstate" where
  "cursor_verdict k v =
     (if batch_key k = ascii ''firstBatch'' then if view_member v = None then Error else Accept
      else if k = ascii ''id'' then opt_state (case v of V_int64 n \<Rightarrow> Some (sint n) | _ \<Rightarrow> None)
      else Accept)"

definition cursor_effect :: "bytes \<Rightarrow> bson_value_ref \<Rightarrow> cursor_vars \<Rightarrow> cursor_vars" where
  "cursor_effect k v =
     (if batch_key k = ascii ''firstBatch'' then opt_effect (\<lambda>d s. s\<lparr>cv_batch := d\<rparr>) (view_member v)
      else if k = ascii ''id'' then
        opt_effect (\<lambda>n s. s\<lparr>cv_id := n\<rparr>) (case v of V_int64 n \<Rightarrow> Some (sint n) | _ \<Rightarrow> None)
      else id)"

lemma gives_any_two:
  assumes "gives r1 ref st1 eff1" "gives r2 ref st2 eff2" "st1 = Reject \<Longrightarrow> eff1 = id"
  shows "gives (any_rule [r1, r2]) ref (if st1 = Reject then st2 else st1) (if st1 = Reject then eff2 else eff1)"
  unfolding gives_def
proof
  fix s
  obtain res1 s1 where 1: "r1 ref s = okE (res1, s1)" "state res1 = st1" "st1 \<noteq> Error \<longrightarrow> s1 = eff1 s"
    using assms(1) by (rule givesE)
  obtain res2 s2 where 2: "r2 ref s = okE (res2, s2)" "state res2 = st2" "st2 \<noteq> Error \<longrightarrow> s2 = eff2 s"
    using assms(2) by (rule givesE)
  show "\<exists>res s'. any_rule [r1, r2] ref s = okE (res, s') \<and>
      state res = (if st1 = Reject then st2 else st1) \<and>
      ((if st1 = Reject then st2 else st1) \<noteq> Error \<longrightarrow> s' = (if st1 = Reject then eff2 else eff1) s)"
    using 1 2 assms(3) by (cases st1; cases st2) (auto simp: any_rule_def)
qed

lemma gives_batch:
  "gives (any_rule [field ''firstBatch'' (must_rule store_batch), field ''nextBatch'' (must_rule store_batch)])
     (kv_ref (k, v)) (if batch_key k = ascii ''firstBatch'' then cursor_verdict k v else Reject)
     (if batch_key k = ascii ''firstBatch'' then cursor_effect k v else id)"
proof -
  have st: "gives (must_rule store_batch) (kv_ref (k, v)) (if view_member v = None then Error else Accept)
      (opt_effect (\<lambda>d s. s\<lparr>cv_batch := d\<rparr>) (view_member v))" for k
    using gives_must [OF gives_store_kv [where conv = try_view, OF try_view_kv]]
    unfolding store_batch_def by (rule gives_cong) (auto simp: opt_state_def)
  have f: "gives (field key (must_rule store_batch)) (kv_ref (k, v))
      (if k = ascii key then (if view_member v = None then Error else Accept) else Reject)
      (if k = ascii key then opt_effect (\<lambda>d s. s\<lparr>cv_batch := d\<rparr>) (view_member v) else id)" for key
    using st [of k] gives_field by (auto simp: field_def)
  show ?thesis
    by (rule gives_cong [OF gives_any_two [OF f f]])
      (auto simp: batch_key_def cursor_verdict_def cursor_effect_def ascii_eq split: if_splits)
qed

abbreviation cursor_keyed :: "(bytes \<times> cursor_vars doc_part) list" where
  "cursor_keyed \<equiv>
   [(ascii ''firstBatch'', Req None (any_rule
       [field ''firstBatch'' (must_rule store_batch), field ''nextBatch'' (must_rule store_batch)])),
    (ascii ''id'', require (ascii ''id'') (store_rule try_int64 (\<lambda>n s. s\<lparr>cv_id := n\<rparr>))),
    (ascii ''ns'', Opt (field ''ns'' just_accept))]"

interpretation cursor_fields: keyed_parts
  cursor_keyed "[]" batch_key "\<lambda>_ _. True" cursor_verdict cursor_effect
proof unfold_locales
  fix c d k v
  assume "(c, d) \<in> set cursor_keyed"
  then consider (batch) "c = ascii ''firstBatch''" "d = Req None (any_rule
      [field ''firstBatch'' (must_rule store_batch), field ''nextBatch'' (must_rule store_batch)])"
    | (id) "c = ascii ''id''" "d = require (ascii ''id'') (store_rule try_int64 (\<lambda>n s. s\<lparr>cv_id := n\<rparr>))"
    | (ns) "c = ascii ''ns''" "d = Opt (field ''ns'' just_accept)" by auto
  note cs = this
  show "d \<noteq> Reject_others" using cs by cases (simp_all add: require_def)
  have b: "batch_key k = k" if "batch_key k \<noteq> ascii ''firstBatch''"
    using that by (simp add: batch_key_def split: if_splits)
  show "gives (part_rule d) (kv_ref (k, v)) (cursor_verdict k v) (cursor_effect k v)" if "batch_key k = c"
    using cs
  proof cases
    case batch
    with gives_batch [of k v] that show ?thesis by simp
  next
    case id
    then have k: "k = ascii ''id''" using that b by (simp add: ascii_eq)
    have "gives (field_rule k (store_rule try_int64 (\<lambda>n s. s\<lparr>cv_id := n\<rparr>))) (kv_ref (k, v))
        (opt_state (case v of V_int64 n \<Rightarrow> Some (sint n) | _ \<Rightarrow> None))
        (opt_effect (\<lambda>n s. s\<lparr>cv_id := n\<rparr>) (case v of V_int64 n \<Rightarrow> Some (sint n) | _ \<Rightarrow> None))"
      by (intro gives_field(1) gives_store_kv try_int64_kv)
    then show ?thesis
      unfolding id k by (simp add: require_def cursor_verdict_def cursor_effect_def batch_key_def ascii_eq)
  next
    case ns
    then have k: "k = ascii ''ns''" using that b by (simp add: ascii_eq)
    have "gives (field_rule k just_accept) (kv_ref (k, v)) Accept id"
      by (intro gives_field(1) gives_just_accept)
    then show ?thesis
      unfolding ns k by (simp add: field_def cursor_verdict_def cursor_effect_def batch_key_def ascii_eq)
  qed
next
  fix before c d after k v
  assume "cursor_keyed = before @ (c, d) # after" and k: "batch_key k \<noteq> c"
  then have "(c, d) \<in> set cursor_keyed" by (metis in_set_conv_decomp)
  then consider (batch) "c = ascii ''firstBatch''" "d = Req None (any_rule
      [field ''firstBatch'' (must_rule store_batch), field ''nextBatch'' (must_rule store_batch)])"
    | (id) "c = ascii ''id''" "d = require (ascii ''id'') (store_rule try_int64 (\<lambda>n s. s\<lparr>cv_id := n\<rparr>))"
    | (ns) "c = ascii ''ns''" "d = Opt (field ''ns'' just_accept)" by auto
  then show "gives (part_rule d) (kv_ref (k, v)) Reject id"
  proof cases
    case batch
    with gives_batch [of k v] k show ?thesis by simp
  qed (use k in \<open>auto simp: require_def field_def batch_key_def ascii_eq intro!: gives_field(2) split: if_splits\<close>)
qed (auto simp: no_rest ascii_eq)

text \<open>What a cursor document says: its batch, under either name, and its number.\<close>

definition cursor_batch :: "kv list \<Rightarrow> doc_view option" where
  "cursor_batch ckvs =
     Option.bind (case map_of ckvs (ascii ''firstBatch'') of Some v \<Rightarrow> Some v
       | None \<Rightarrow> map_of ckvs (ascii ''nextBatch'')) view_member"

definition cursor_number :: "kv list \<Rightarrow> int option" where
  "cursor_number ckvs =
     (case map_of ckvs (ascii ''id'') of Some (V_int64 n) \<Rightarrow> Some (sint n) | _ \<Rightarrow> None)"

lemma look_batch:
  assumes "distinct (map (\<lambda>kv. batch_key (fst kv)) ckvs)"
  shows "map_option snd (look batch_key ckvs (ascii ''firstBatch'')) =
      (case map_of ckvs (ascii ''firstBatch'') of Some v \<Rightarrow> Some v | None \<Rightarrow> map_of ckvs (ascii ''nextBatch''))"
    and "c \<noteq> ascii ''firstBatch'' \<Longrightarrow> c \<noteq> ascii ''nextBatch'' \<Longrightarrow>
      map_option snd (look batch_key ckvs c) = map_of ckvs c"
proof -
  show "map_option snd (look batch_key ckvs (ascii ''firstBatch'')) =
      (case map_of ckvs (ascii ''firstBatch'') of Some v \<Rightarrow> Some v | None \<Rightarrow> map_of ckvs (ascii ''nextBatch''))"
    using assms
  proof (induction ckvs)
    case (Cons kv ckvs)
    obtain k v where kv: "kv = (k, v)" by (cases kv)
    have "map_of ckvs (ascii ''firstBatch'') = None" if "batch_key k = ascii ''firstBatch''"
      using Cons.prems that by (force simp: map_of_eq_None_iff kv batch_key_def ascii_eq)
    with Cons show ?case
      by (auto simp: look_def kv batch_key_def ascii_eq split: if_splits option.splits)
  qed (simp add: look_def)
  show "map_option snd (look batch_key ckvs c) = map_of ckvs c"
    if "c \<noteq> ascii ''firstBatch''" "c \<noteq> ascii ''nextBatch''"
    using that by (induction ckvs) (auto simp: look_def batch_key_def)
qed

lemma look_required:
  "required d \<Longrightarrow> (case x of None \<Rightarrow> \<not> required d
     | Some (k, v) \<Rightarrow> verdict k v \<noteq> Error \<and> (required d \<longrightarrow> verdict k v = Accept)) \<longleftrightarrow>
   (case x of None \<Rightarrow> False | Some (k, v) \<Rightarrow> verdict k v = Accept)"
  by (auto split: option.split)

lemma look_optional:
  "\<not> required d \<Longrightarrow> (case x of None \<Rightarrow> \<not> required d
     | Some (k, v) \<Rightarrow> verdict k v \<noteq> Error \<and> (required d \<longrightarrow> verdict k v = Accept)) \<longleftrightarrow>
   (case x of None \<Rightarrow> True | Some (k, v) \<Rightarrow> verdict k v \<noteq> Error)"
  by (auto split: option.split)

lemma cursor_look:
  assumes "distinct (map (\<lambda>kv. batch_key (fst kv)) ckvs)"
  shows "cursor_fields.accepts ckvs \<longleftrightarrow> cursor_batch ckvs \<noteq> None \<and> cursor_number ckvs \<noteq> None"
    and "cursor_batch ckvs = Some b \<Longrightarrow> cv_batch (cursor_fields.effects ckvs s) = b"
    and "cursor_number ckvs = Some n \<Longrightarrow> cv_id (cursor_fields.effects ckvs s) = n"
proof -
  let ?b = "look batch_key ckvs (ascii ''firstBatch'')" and ?i = "look batch_key ckvs (ascii ''id'')"
  have i: "?i = map_option (Pair (ascii ''id'')) (map_of ckvs (ascii ''id''))"
    by (induction ckvs) (auto simp: look_def batch_key_def ascii_eq)
  have bk: "batch_key k = ascii ''firstBatch''" if "?b = Some (k, v)" for k v
    using that by (simp add: look_Some [OF assms])
  have b: "cursor_batch ckvs = Option.bind ?b (\<lambda>kv. view_member (snd kv))"
    unfolding cursor_batch_def look_batch(1) [OF assms, symmetric] by (cases ?b) simp_all
  have n: "look batch_key ckvs (ascii ''ns'') = Some (k, v) \<Longrightarrow> cursor_verdict k v = Accept" for k v
    by (auto simp: look_Some [OF assms] cursor_verdict_def ascii_eq batch_key_def split: if_splits)
  have "(case ?b of None \<Rightarrow> False | Some (k, v) \<Rightarrow> cursor_verdict k v = Accept) \<longleftrightarrow> cursor_batch ckvs \<noteq> None"
    using bk by (auto simp: b cursor_verdict_def split: option.split)
  moreover have "(case ?i of None \<Rightarrow> False | Some (k, v) \<Rightarrow> cursor_verdict k v = Accept) \<longleftrightarrow>
      cursor_number ckvs \<noteq> None"
    by (cases "map_of ckvs (ascii ''id'')")
      (auto simp: i cursor_number_def cursor_verdict_def batch_key_def ascii_eq opt_state_def
        split: bson_value_ref.split)
  moreover have "case look batch_key ckvs (ascii ''ns'') of None \<Rightarrow> True | Some (k, v) \<Rightarrow> cursor_verdict k v \<noteq> Error"
    using n by (auto split: option.split)
  ultimately show "cursor_fields.accepts ckvs \<longleftrightarrow> cursor_batch ckvs \<noteq> None \<and> cursor_number ckvs \<noteq> None"
    unfolding cursor_fields.accepts_look [OF assms] by (simp add: require_def look_required look_optional)
  have "cv_batch (cursor_fields.effects ckvs s) =
      (case ?b of None \<Rightarrow> cv_batch s
       | Some (k, v) \<Rightarrow> (case view_member v of None \<Rightarrow> cv_batch s | Some d \<Rightarrow> d))"
    by (rule cursor_fields.effects_get
        [where f = "\<lambda>k v old. case view_member v of None \<Rightarrow> old | Some d \<Rightarrow> d" and get = cv_batch])
      (use assms in \<open>auto simp: cursor_effect_def opt_effect_def split: option.split\<close>)
  then show "cv_batch (cursor_fields.effects ckvs s) = b" if "cursor_batch ckvs = Some b"
    using that by (auto simp: b split: bind_splits)
  have "cv_id (cursor_fields.effects ckvs s) =
      (case ?i of None \<Rightarrow> cv_id s
       | Some (k, v) \<Rightarrow> (case v of V_int64 n \<Rightarrow> sint n | _ \<Rightarrow> cv_id s))"
    by (rule cursor_fields.effects_get
        [where f = "\<lambda>k v old. case v of V_int64 n \<Rightarrow> sint n | _ \<Rightarrow> old" and get = cv_id])
      (use assms in \<open>auto simp: cursor_effect_def opt_effect_def batch_key_def ascii_eq
        split: option.split bson_value_ref.split\<close>)
  then show "cv_id (cursor_fields.effects ckvs s) = n" if "cursor_number ckvs = Some n"
    using that by (auto simp: i cursor_number_def split: option.splits bson_value_ref.splits)
qed

context keyed_parts
begin

lemma gives_must_doc:
  assumes "kvs_ok kvs" "distinct (map (\<lambda>kv. canon (fst kv)) kvs)"
    and "\<forall>(k, v) \<in> set kvs. is_key k \<longrightarrow> good k v"
  shows "gives (must_rule (doc_rule parts)) (kv_ref (k, V_document (Some (kv_doc kvs))))
    (if accepts kvs then Accept else Error) (effects kvs)"
  by (rule gives_cong [OF gives_must [OF gives_doc_rule(1) [OF gives_parts [OF assms]]]])
    (simp_all add: accepts_no_errs)

end

text \<open>The reply, for the cursor document it holds.\<close>

interpretation cursor_reply: field_rules "[(ascii ''cursor'', True, must_rule (doc_rule cursor_parts))]" "[]"
  "\<lambda>_ v. v = V_document (Some (kv_doc ckvs)) \<and> kvs_ok ckvs \<and> distinct (map (\<lambda>kv. batch_key (fst kv)) ckvs)"
  "\<lambda>_ _. if cursor_fields.accepts ckvs then Accept else Error" "\<lambda>_ _. cursor_fields.effects ckvs" for ckvs
proof unfold_locales
  fix k req r v
  assume r: "(k, req, r) \<in> set [(ascii ''cursor'', True, must_rule (doc_rule cursor_parts))]"
    and v: "v = V_document (Some (kv_doc ckvs)) \<and> kvs_ok ckvs \<and> distinct (map (\<lambda>kv. batch_key (fst kv)) ckvs)"
  have "gives (must_rule (doc_rule cursor_parts)) (kv_ref (k, v))
      (if cursor_fields.accepts ckvs then Accept else Error) (cursor_fields.effects ckvs)"
    using cursor_fields.gives_must_doc [of ckvs k] v by (simp add: cursor_parts_def)
  then show "gives r (kv_ref (k, v)) (if cursor_fields.accepts ckvs then Accept else Error)
      (cursor_fields.effects ckvs)" using r by simp
qed (auto simp: no_rest)

lemma cursor_reply_parts_eq:
  "cursor_reply_parts = field_parts [(ascii ''cursor'', True, must_rule (doc_rule cursor_parts))] @ []"
  by (simp add: cursor_reply_parts_def field_parts_def field_part_def)

lemma parse_cursor_vars:
  assumes "kvs_ok kvs" "distinct (map fst kvs)"
    and "map_of kvs (ascii ''cursor'') = Some (V_document (Some (kv_doc ckvs)))"
    and "kvs_ok ckvs" "distinct (map (\<lambda>kv. batch_key (fst kv)) ckvs)"
  shows "\<exists>msg. must_parse (Some (kv_doc kvs)) (doc_view_rule cursor_reply_parts) s =
    (if cursor_fields.accepts ckvs then okE (cursor_fields.effects ckvs s) else throwE (Protocol_error msg))"
proof -
  have e: "cursor_reply.effects ckvs kvs s = cursor_fields.effects ckvs s"
    using cursor_reply.effects_get [where get = "\<lambda>s. s" and c = "ascii ''cursor''"
        and f = "\<lambda>_ _. cursor_fields.effects ckvs" and kvs = kvs and s = s and ckvs = ckvs]
      assms(2,3) by (simp add: look_id field_part_def)
  have w: "cursor_reply.well_formed ckvs kvs \<longleftrightarrow> cursor_fields.accepts ckvs"
    using assms(3) by (simp add: cursor_reply.well_formed_def)
  from cursor_reply.must_parse_lookup [OF assms(1,2), of ckvs s] assms(3-5) show ?thesis
    unfolding cursor_reply_parts_eq e w by simp
qed

lemma value_fits:
  assumes "kvs_ok kvs" "map_of kvs k = Some v"
  shows "value_ok v" "int (length (value_bytes v)) + 7 \<le> INT32_MAX"
proof -
  have kv: "(k, v) \<in> set kvs" using assms(2) by (rule map_of_SomeD)
  with assms(1) show "value_ok v" by (auto simp: kvs_ok_def list_all_iff kv_ok_def)
  from kv obtain xs ys where "kvs = xs @ (k, v) # ys" by (auto simp: in_set_conv_decomp)
  then have "length (value_bytes v) + 7 \<le> length (kv_doc kvs)" by (simp add: kv_doc_def kv_elem_def)
  with assms(1) show "int (length (value_bytes v)) + 7 \<le> INT32_MAX" by (simp add: kvs_ok_def)
qed

lemma view_fits:
  assumes "kvs_ok kvs" "map_of kvs k = Some v" "view_member v = Some d"
  obtains b where "d = Some b" "subdoc_ok b" "int (length b) + 7 \<le> INT32_MAX"
  using value_fits [OF assms(1,2)] assms(3) that by (cases v) (auto split: option.splits)

section \<open>Documents in replies\<close>

lemma gives_must_store:
  "conv (kv_ref (k, v)) = Inr x \<Longrightarrow>
   gives (must_rule (store_rule conv dest)) (kv_ref (k, v)) (if x = None then Error else Accept) (opt_effect dest x)"
  by (rule gives_cong [OF gives_must [OF gives_store_kv]]) (auto simp: opt_state_def)

interpretation database_fields: field_rules
  "[(ascii ''firstBatch'', True, must_rule (store_rule try_view (\<lambda>d _. d)))]" "[]"
  "\<lambda>_ _. True" "\<lambda>_ v. if view_member v = None then Error else Accept" "\<lambda>_ v. opt_effect (\<lambda>d _. d) (view_member v)"
proof unfold_locales
  fix k req r v
  assume "(k, req, r) \<in> set [(ascii ''firstBatch'', True,
    must_rule (store_rule try_view (\<lambda>d _. d)) :: (reference, doc_view) rule)]"
  then show "gives r (kv_ref (k, v)) (if view_member v = None then Error else Accept)
      (opt_effect (\<lambda>d _. d) (view_member v))"
    using gives_must_store [where conv = try_view, OF try_view_kv] by (simp split del: if_split)
qed (auto simp: no_rest)

lemma database_batch_parts_eq: "database_batch_parts =
    field_parts [(ascii ''firstBatch'', True, must_rule (store_rule try_view (\<lambda>d _. d)))] @ []"
  by (simp add: database_batch_parts_def field_parts_def field_part_def)

text \<open>\<^verbatim>\<open>null\<close> or a document.\<close>

definition returned_state :: "bson_value_ref \<Rightarrow> pstate" where
  "returned_state v = (if v = V_null \<or> view_member v \<noteq> None then Accept else Reject)"

lemma try_null_kv: "try_null (kv_ref (k, v)) = Inr (if v = V_null then Some () else None)"
  by (cases v) (simp_all add: try_null_def bson_type_defs)

lemma gives_null: "gives (type_rule try_null just_accept) (kv_ref (k, v)) (if v = V_null then Accept else Reject) id"
  using gives_type(2) [where conv = try_null and ref = "kv_ref (k, v)", OF _ gives_just_accept]
    gives_type(1) [where conv = try_null and ref = "kv_ref (k, v)"] try_null_kv [of k v]
  by (cases "v = V_null") simp_all

interpretation returned_fields: field_rules
  "[(ascii ''value'', True, any_rule [type_rule try_null just_accept, store_rule try_view (\<lambda>d _. d)])]" "[]"
  "\<lambda>_ _. True" "\<lambda>_ v. returned_state v" "\<lambda>_ v. opt_effect (\<lambda>d _. d) (view_member v)"
proof unfold_locales
  fix k req r v
  assume "(k, req, r) \<in> set [(ascii ''value'', True, any_rule [type_rule try_null just_accept,
    store_rule try_view (\<lambda>d _. d)] :: (reference, doc_view) rule)]"
  moreover have "gives (any_rule [type_rule try_null just_accept, store_rule try_view (\<lambda>d _. d)]) (kv_ref (k, v))
      (returned_state v) (opt_effect (\<lambda>d _. d) (view_member v))"
    by (rule gives_cong [OF gives_any_two [OF gives_null gives_store_kv [where conv = try_view, OF try_view_kv]]])
      (auto simp: returned_state_def opt_state_def opt_effect_def)
  ultimately show "gives r (kv_ref (k, v)) (returned_state v) (opt_effect (\<lambda>d _. d) (view_member v))" by simp
qed (auto simp: no_rest)

lemma find_and_modify_parts_eq: "find_and_modify_parts =
    field_parts [(ascii ''value'', True, any_rule [type_rule try_null just_accept, store_rule try_view (\<lambda>d _. d)])] @ []"
  by (simp add: find_and_modify_parts_def field_parts_def field_part_def)

lemma parse_returned:
  assumes "kvs_ok kvs" "distinct (map fst kvs)"
  shows "\<exists>msg. must_parse (Some (kv_doc kvs)) (doc_view_rule find_and_modify_parts) None =
    (case map_of kvs (ascii ''value'') of
       Some v \<Rightarrow> if returned_state v = Accept then okE (Option.bind (view_member v) (\<lambda>d. d))
         else throwE (Protocol_error msg)
     | None \<Rightarrow> throwE (Protocol_error msg))"
proof -
  have e: "returned_fields.effects kvs None = (case look (\<lambda>k. k) kvs (ascii ''value'') of None \<Rightarrow> None
      | Some (k, v) \<Rightarrow> opt_effect (\<lambda>d _. d) (view_member v) None)"
    by (rule returned_fields.effects_get
        [where get = "\<lambda>s. s" and f = "\<lambda>k v s. opt_effect (\<lambda>d _. d) (view_member v) s"])
      (use assms(2) in \<open>auto simp: field_part_def\<close>)
  from returned_fields.must_parse_lookup [OF assms, of None] show ?thesis
    unfolding find_and_modify_parts_eq e look_id returned_fields.well_formed_def
    by (auto simp: opt_effect_def split: option.splits)
qed

text \<open>Reading a cursor.\<close>

lemma parse_cursor_fields:
  assumes "kvs_ok kvs" "distinct (map fst kvs)"
    and "map_of kvs (ascii ''cursor'') = Some (V_document (Some (kv_doc ckvs)))"
    and "kvs_ok ckvs" "distinct (map (\<lambda>kv. batch_key (fst kv)) ckvs)" "\<forall>n. avail n"
  shows "case (cursor_batch ckvs, cursor_number ckvs) of
      (Some b, Some n) \<Rightarrow> \<exists>d. parse_cursor (default_reallocate avail junk) c bsz (Some (kv_doc kvs)) =
        okE \<lparr>cursor_id = n, coll = c, records = d, batch_size = bsz\<rparr> \<and> doc_inv d \<and> Some (doc_data d) = b
    | _ \<Rightarrow> \<exists>msg. parse_cursor (default_reallocate avail junk) c bsz (Some (kv_doc kvs)) =
        throwE (Protocol_error msg)"
proof (cases "cursor_fields.accepts ckvs")
  case True
  then obtain b n where bn: "cursor_batch ckvs = Some b" "cursor_number ckvs = Some n"
    using cursor_look(1) [OF assms(5)] by auto
  from bn(1) obtain k v where "map_of ckvs k = Some v" "view_member v = Some b"
    by (auto simp: cursor_batch_def bind_eq_Some_conv split: option.splits)
  then obtain bs where bs: "b = Some bs" "subdoc_ok bs" "int (length bs) + 7 \<le> INT32_MAX"
    by (rule view_fits [OF assms(4)])
  with default_copy [of bs avail junk] assms(6) obtain d where
    "bson_copy_view_with_allocator (default_reallocate avail junk) (Some bs) = Inr d" "doc_inv d" "doc_data d = bs"
    by auto
  with parse_cursor_vars [OF assms(1-5), of "\<lparr>cv_batch = None, cv_id = 0\<rparr>"] True bn bs(1)
    cursor_look(2,3) [OF assms(5)] show ?thesis by (auto simp: parse_cursor_def)
next
  case False
  with parse_cursor_vars [OF assms(1-5), of "\<lparr>cv_batch = None, cv_id = 0\<rparr>"] cursor_look(1) [OF assms(5)]
  show ?thesis by (auto simp: parse_cursor_def split: option.split)
qed

section \<open>Example replies\<close>

definition example_cursor :: "kv list" where
  "example_cursor = [(ascii ''id'', V_int64 7), (ascii ''firstBatch'', V_array (Some [5, 0, 0, 0, 0]))]"

definition example_reply :: "kv list" where
  "example_reply =
     [(ascii ''cursor'', V_document (Some (kv_doc example_cursor))), (ascii ''ok'', V_int32 1),
      (ascii ''n'', V_int64 3), (ascii ''value'', V_null)]"

lemma example_ok: "kvs_ok example_cursor" "kvs_ok example_reply"
  by code_simp+

lemma example_keys:
  "distinct (map (\<lambda>kv. batch_key (fst kv)) example_cursor)" "distinct (map fst example_reply)"
  by (simp_all add: example_cursor_def example_reply_def batch_key_def ascii_eq)

lemma example_fields:
  "map_of example_reply (ascii ''cursor'') = Some (V_document (Some (kv_doc example_cursor)))"
  "map_of example_reply (ascii ''value'') = Some V_null"
  "map_of example_reply (ascii ''firstBatch'') = None" "reply_int example_reply ''n'' = Some 3"
  by (simp_all add: example_reply_def reply_int_def ascii_eq)

lemma example_batch: "cursor_batch example_cursor = Some (Some [5, 0, 0, 0, 0])" "cursor_number example_cursor = Some 7"
  by (simp_all add: example_cursor_def cursor_batch_def cursor_number_def ascii_eq)

section \<open>Properties\<close>

text \<open>
  The reply to a command that opens or advances a cursor, whatever the order of its fields and
  whatever others it has. If the cursor document has a batch (a document or array, under either of its names)
  and a 64-bit number, the result is a cursor with this number whose records are a copy of the bytes of the
  batch; otherwise the operation throws a protocol error. It never faults.
\<close>

theorem cursor_reply_parsed:
  assumes "kvs_ok kvs" "distinct (map fst kvs)"
    and "map_of kvs (ascii ''cursor'') = Some (V_document (Some (kv_doc ckvs)))"
    and "kvs_ok ckvs" "distinct (map (\<lambda>kv. batch_key (fst kv)) ckvs)" "\<forall>n. avail n"
  shows "case (cursor_batch ckvs, cursor_number ckvs) of
      (Some b, Some n) \<Rightarrow> \<exists>d. parse_cursor (default_reallocate avail junk) c bsz (Some (kv_doc kvs)) =
        okE \<lparr>cursor_id = n, coll = c, records = d, batch_size = bsz\<rparr> \<and> doc_inv d \<and> Some (doc_data d) = b
    | _ \<Rightarrow> \<exists>msg. parse_cursor (default_reallocate avail junk) c bsz (Some (kv_doc kvs)) =
        throwE (Protocol_error msg)"
  using assms by (rule parse_cursor_fields)

theorem cursor_reply_parsed_witness:
  "\<exists>d. parse_cursor (default_reallocate (\<lambda>_. True) (\<lambda>_. 7)) \<lparr>database_name = [], collection_name = []\<rparr> 0
     (Some (kv_doc example_reply)) =
     okE \<lparr>cursor_id = 7, coll = \<lparr>database_name = [], collection_name = []\<rparr>, records = d, batch_size = 0\<rparr> \<and> doc_data d = [5, 0, 0, 0, 0]"
  using cursor_reply_parsed [OF example_ok(2) example_keys(2) example_fields(1) example_ok(1) example_keys(1),
      of "\<lambda>_. True" "\<lambda>_. 7" "\<lparr>database_name = [], collection_name = []\<rparr>" 0] by (auto simp: example_batch)

text \<open>
  An aggregation on a database never yields its result: on every reply without a field
  \<^verbatim>\<open>firstBatch\<close> of its own, and in the protocol this field is inside \<^verbatim>\<open>cursor\<close>, parsing throws a protocol error.
\<close>

theorem database_aggregate_rejects_cursor:
  assumes "kvs_ok kvs" "distinct (map fst kvs)" "map_of kvs (ascii ''firstBatch'') = None"
  shows "\<exists>msg. parse_database_batch alloc (Some (kv_doc kvs)) = throwE (Protocol_error msg)"
  using database_fields.must_parse_lookup [OF assms(1,2), of None] assms(3)
  by (auto simp: parse_database_batch_def database_batch_parts_eq database_fields.well_formed_def)

theorem database_aggregate_rejects_cursor_witness:
  "\<exists>msg. parse_database_batch (default_reallocate (\<lambda>_. True) (\<lambda>_. 7)) (Some (kv_doc example_reply)) =
     throwE (Protocol_error msg)"
  by (rule database_aggregate_rejects_cursor [OF example_ok(2) example_keys(2) example_fields(3)])

text \<open>
  The number of deleted documents, or of the documents in a collection, is the value of the field
  \<^verbatim>\<open>n\<close> of the reply, wherever it stands, in either integer type; without such a field parsing throws. What the
  variable held before does not matter.
\<close>

theorem count_reply_parsed:
  assumes "kvs_ok kvs" "distinct (map fst kvs)"
  shows "\<exists>msg msg'. parse_deleted (Some (kv_doc kvs)) =
      (case reply_int kvs ''n'' of Some n \<Rightarrow> okE n | None \<Rightarrow> throwE (Protocol_error msg)) \<and>
    parse_estimate junk (Some (kv_doc kvs)) =
      (case reply_int kvs ''n'' of Some n \<Rightarrow> okE n | None \<Rightarrow> throwE (Protocol_error msg'))"
  using parse_n [OF assms] unfolding parse_deleted_def parse_estimate_def by meson

theorem count_reply_parsed_witness: "parse_deleted (Some (kv_doc example_reply)) = okE 3"
  using count_reply_parsed [OF example_ok(2) example_keys(2)] by (simp add: example_fields)

text \<open>
  The document that a find-and-modify operation returns is a copy of the field \<^verbatim>\<open>value\<close>, and no
  document if this is null.
\<close>

theorem find_and_modify_reply_parsed:
  assumes "kvs_ok kvs" "distinct (map fst kvs)" "map_of kvs (ascii ''value'') = Some v" "\<forall>n. avail n"
  shows "case view_member v of
      Some b \<Rightarrow> \<exists>d. parse_find_and_modify (default_reallocate avail junk) (Some (kv_doc kvs)) = okE (Some d) \<and>
        doc_inv d \<and> Some (doc_data d) = b
    | None \<Rightarrow> \<exists>msg. parse_find_and_modify (default_reallocate avail junk) (Some (kv_doc kvs)) =
        (if v = V_null then okE None else throwE (Protocol_error msg))"
proof (cases "view_member v")
  case None
  with parse_returned [OF assms(1,2)] assms(3) show ?thesis
    by (auto simp: parse_find_and_modify_def returned_state_def)
next
  case (Some b)
  then obtain bs where bs: "b = Some bs" "subdoc_ok bs" "int (length bs) + 7 \<le> INT32_MAX"
    using assms(1,3) by (elim view_fits) auto
  with default_copy [of bs avail junk] assms(4) obtain d where
    "bson_copy_view_with_allocator (default_reallocate avail junk) (Some bs) = Inr d" "doc_inv d" "doc_data d = bs"
    by auto
  with parse_returned [OF assms(1,2)] assms(3) Some bs(1) show ?thesis
    by (auto simp: parse_find_and_modify_def returned_state_def)
qed

theorem find_and_modify_reply_parsed_witness:
  "parse_find_and_modify (default_reallocate (\<lambda>_. True) (\<lambda>_. 7)) (Some (kv_doc example_reply)) = okE None"
  using find_and_modify_reply_parsed [OF example_ok(2) example_keys(2) example_fields(2), of "\<lambda>_. True" "\<lambda>_. 7"]
  by simp

end
