(* ===== verification/Amongoc_Writes.thy ===== *)
theory Amongoc_Writes
  imports Amongoc_Replies Mlib_Str
begin

text \<open>
  The replies to write commands, and the check of update documents (\<^verbatim>\<open>src/amongoc/collection.cpp\<close>). A
  reply to an insertion or an update has counters and an array of write errors, each a document of its
  own, from which the rule appends an error to the result. The message of an error is copied into
  an owned string, the vector of errors grows when its allocator serves it.
\<close>

section \<open>Writes\<close>

record amongoc_write_error =
  we_index :: int
  we_code :: int
  we_errmsg :: mlib_str

record amongoc_write_result =
  acknowledged :: bool
  inserted_count :: int
  matched_count :: int
  modified_count :: int
  deleted_count :: int
  upserted_count :: int
  write_errors :: "amongoc_write_error list"
  upserted_id :: bson_value_ref

datatype n_field = Inserted_count | Matched_count

fun get_n :: "n_field \<Rightarrow> amongoc_write_result \<Rightarrow> int" where
  "get_n Inserted_count r = inserted_count r"
| "get_n Matched_count r = matched_count r"

fun set_n :: "n_field \<Rightarrow> int \<Rightarrow> amongoc_write_result \<Rightarrow> amongoc_write_result" where
  "set_n Inserted_count n r = r\<lparr>inserted_count := n\<rparr>"
| "set_n Matched_count n r = r\<lparr>matched_count := n\<rparr>"

text \<open>The local variables of \<^verbatim>\<open>_parse_write_result\<close>.\<close>

record write_vars =
  wv_ret :: amongoc_write_result
  wv_upserted_id :: bson_value_ref
  wv_code :: int
  wv_index :: int
  wv_msg :: bytes

definition new_write_result :: amongoc_write_result where
  "new_write_result =
     \<lparr>acknowledged = False, inserted_count = 0, matched_count = 0, modified_count = 0,
      deleted_count = 0, upserted_count = 0, write_errors = [], upserted_id = V_eod\<rparr>"

definition store_count ::
  "(int \<Rightarrow> amongoc_write_result \<Rightarrow> amongoc_write_result) \<Rightarrow> (reference, write_vars) rule" where
  "store_count upd = integer_rule (assign_rule (\<lambda>n s. s\<lparr>wv_ret := upd n (wv_ret s)\<rparr>))"

text \<open>
  Appending an error: \<open>grow\<close> is whether the vector can grow. A new element is zero; the code and the
  message are assigned.
\<close>

definition push_write_error ::
  "reallocate_fn \<Rightarrow> (nat \<Rightarrow> bool) \<Rightarrow> write_vars \<Rightarrow> write_vars eres" where
  "push_write_error alloc grow s =
     (let errs = write_errors (wv_ret s) in
      if \<not> grow (Suc (length errs)) then throwE Bad_alloc
      else
        bindE (liftE (mlib_str_copy alloc (mlib_str_view_data (Some (wv_msg s, 0)) (length (wv_msg s))))) (\<lambda>msg.
        okE (s\<lparr>wv_ret := (wv_ret s)\<lparr>write_errors := errs @
          [\<lparr>we_index = 0, we_code = sint (word_of_int (wv_code s) :: u32), we_errmsg = msg\<rparr>]\<rparr>\<rparr>)))"

definition write_error_parts :: "write_vars doc_part list" where
  "write_error_parts =
     [require (ascii ''index'') (integer_rule (assign_rule (\<lambda>n s. s\<lparr>wv_index := n\<rparr>))),
      require (ascii ''code'') (integer_rule (assign_rule (\<lambda>n s. s\<lparr>wv_code := n\<rparr>))),
      require (ascii ''errmsg'') (store_rule try_string (\<lambda>b s. s\<lparr>wv_msg := b\<rparr>))]"

definition parse_write_error ::
  "reallocate_fn \<Rightarrow> (nat \<Rightarrow> bool) \<Rightarrow> (reference, write_vars) rule" where
  "parse_write_error alloc grow =
     all_rule [doc_rule write_error_parts, action_rule (\<lambda>_. push_write_error alloc grow)]"

definition upserted_parts :: "write_vars doc_part list" where
  "upserted_parts =
     [require (ascii ''0'') (doc_rule
        [require (ascii ''_id'') (store_rule try_value (\<lambda>v s. s\<lparr>wv_upserted_id := v\<rparr>))])]"

definition write_result_parts ::
  "reallocate_fn \<Rightarrow> (nat \<Rightarrow> bool) \<Rightarrow> n_field \<Rightarrow> write_vars doc_part list" where
  "write_result_parts alloc grow n =
     [require (ascii ''n'') (must_rule (store_count (set_n n))),
      Opt (field ''nModified'' (must_rule (store_count (\<lambda>n r. r\<lparr>modified_count := n\<rparr>)))),
      Opt (field ''nMatched'' (must_rule (store_count (\<lambda>n r. r\<lparr>matched_count := n\<rparr>)))),
      Opt (field ''nUpserted'' (must_rule (store_count (\<lambda>n r. r\<lparr>upserted_count := n\<rparr>)))),
      Opt (field ''upserted'' (must_rule (doc_rule upserted_parts))),
      Opt (field ''writeErrors'' (must_rule (each_rule (parse_write_error alloc grow))))]"

text \<open>Signed overflow of the counters is undefined.\<close>

definition in_i64E :: "int \<Rightarrow> int eres" where
  "in_i64E n = (if in_i64 n then okE n else Inl Out_of_bounds)"

definition parse_write_result ::
  "reallocate_fn \<Rightarrow> (nat \<Rightarrow> bool) \<Rightarrow> doc_view \<Rightarrow> n_field \<Rightarrow> amongoc_write_result eres" where
  "parse_write_result alloc grow resp n =
     bindE (must_parse resp (doc_view_rule (write_result_parts alloc grow n))
        \<lparr>wv_ret = new_write_result, wv_upserted_id = V_eod, wv_code = 0, wv_index = 0, wv_msg = []\<rparr>) (\<lambda>s.
     let ret = (wv_ret s)\<lparr>upserted_id := wv_upserted_id s\<rparr> in
     bindE (in_i64E (if wv_upserted_id s \<noteq> V_eod then upserted_count ret + 1 else upserted_count ret)) (\<lambda>u.
     let ret = ret\<lparr>upserted_count := u\<rparr> in
     bindE (in_i64E (get_n n ret - u)) (\<lambda>m. okE (set_n n m ret))))"

datatype amongoc_crud_errc = amongoc_crud_okay | amongoc_crud_write_errors

text \<open>The end of \<^verbatim>\<open>amongoc_insert_ex\<close> and of \<^verbatim>\<open>amongoc_update_ex\<close>.\<close>

definition crud_status :: "amongoc_write_result \<Rightarrow> amongoc_crud_errc" where
  "crud_status res =
     (if length (write_errors res) \<noteq> 0 then amongoc_crud_write_errors else amongoc_crud_okay)"

definition finish_insert ::
  "reallocate_fn \<Rightarrow> (nat \<Rightarrow> bool) \<Rightarrow> doc_view \<Rightarrow> (amongoc_crud_errc \<times> amongoc_write_result) eres" where
  "finish_insert alloc grow resp =
     bindE (parse_write_result alloc grow resp Inserted_count) (\<lambda>res.
     okE (crud_status res, res\<lparr>acknowledged := True\<rparr>))"

definition finish_update ::
  "reallocate_fn \<Rightarrow> (nat \<Rightarrow> bool) \<Rightarrow> doc_view \<Rightarrow> (amongoc_crud_errc \<times> amongoc_write_result) eres" where
  "finish_update alloc grow resp =
     bindE (parse_write_result alloc grow resp Matched_count) (\<lambda>res. okE (crud_status res, res))"

section \<open>Update documents\<close>

text \<open>
  \<^verbatim>\<open>_is_update_spec_doc\<close>: the first element decides. \<^verbatim>\<open>operator->\<close> throws on an errant iterator.
\<close>

definition is_update_spec_doc :: "doc_view \<Rightarrow> bool eres" where
  "is_update_spec_doc v =
     (case v of None \<Rightarrow> Inl Assert_fail
      | Some m \<Rightarrow>
          bindE (liftE (bson_begin m (Some 0))) (\<lambda>it.
          if bson_stop it then okE False
          else case throw_if_error it of
            Inl e \<Rightarrow> throwE (Iterator_error e)
          | Inr _ \<Rightarrow>
              bindE (liftE (rf_key (iter_reference m it))) (\<lambda>k. okE (take 1 k = ascii ''$''))))"

datatype update_check = Invalid_update_document | Send

text \<open>The guards of \<^verbatim>\<open>amongoc_replace_one\<close> and of \<^verbatim>\<open>amongoc_update_one\<close> and \<^verbatim>\<open>amongoc_update_many\<close>.\<close>

definition check_replacement :: "doc_view \<Rightarrow> update_check eres" where
  "check_replacement v =
     bindE (is_update_spec_doc v) (\<lambda>b. okE (if b then Invalid_update_document else Send))"

definition check_update :: "doc_view \<Rightarrow> update_check eres" where
  "check_update v =
     bindE (is_update_spec_doc v) (\<lambda>b. okE (if \<not> b then Invalid_update_document else Send))"


section \<open>Strings\<close>

lemma str_copy_default:
  assumes "int (length bs) \<le> SSIZE_MAX - 9" "\<forall>n. avail n"
  shows "\<exists>s. mlib_str_copy (default_reallocate avail junk) (mlib_str_view_data (Some (bs, 0)) (length bs)) = Inr s \<and>
    str_rep s bs"
proof (cases "bs = []")
  case True
  then show ?thesis
    using default_alloc.str_new_zero [of avail junk] str_rep_empty
    by (auto simp: mlib_str_copy_def mlib_str_view_data_def sv_read_def str_write_nil)
next
  case False
  have v: "views (mlib_str_view_data (Some (bs, 0)) (length bs)) bs"
    by (simp add: views_def mlib_str_view_data_def)
  then have "mlib_str_copy (default_reallocate avail junk) (mlib_str_view_data (Some (bs, 0)) (length bs)) =
      bindR (mlib_str_new (default_reallocate avail junk) (length bs)) (\<lambda>s. str_write s 8 bs)"
    using sv_read_views [OF v, of 0 "length bs"] by (simp add: mlib_str_copy_def mlib_str_view_data_def)
  moreover have "write_pieces s bs [] [] = str_write s 8 bs" for s
    by (cases "str_write s 8 bs") (simp_all add: write_pieces_def str_write_nil)
  moreover have "\<exists>b got. default_reallocate avail junk None (9 + length (bs @ [] @ [])) 1 5 = Inr (Some (b, got))"
    using assms(2) by (simp only: default_fresh) simp
  moreover note default_alloc.new_and_write [of bs "[]" "[]" avail junk]
  ultimately show ?thesis using False assms(1) by auto
qed

section \<open>One write error\<close>

definition reply_string :: "kv list \<Rightarrow> string \<Rightarrow> bytes option" where
  "reply_string kvs key =
     (case map_of kvs (ascii key) of Some (V_utf8 b) \<Rightarrow> Some (view_bytes b) | _ \<Rightarrow> None)"

text \<open>What the document of a write error says: its index, its code and its message.\<close>

definition write_error_of :: "kv list \<Rightarrow> (int \<times> int \<times> bytes) option" where
  "write_error_of d =
     (case (reply_int d ''index'', reply_int d ''code'', reply_string d ''errmsg'') of
        (Some i, Some c, Some m) \<Rightarrow> Some (i, c, m) | _ \<Rightarrow> None)"

definition we_verdict :: "bytes \<Rightarrow> bson_value_ref \<Rightarrow> pstate" where
  "we_verdict k v =
     (if k = ascii ''errmsg'' then opt_state (case v of V_utf8 b \<Rightarrow> Some (view_bytes b) | _ \<Rightarrow> None)
      else opt_state (int_member v))"

definition we_effect :: "bytes \<Rightarrow> bson_value_ref \<Rightarrow> write_vars \<Rightarrow> write_vars" where
  "we_effect k v =
     (if k = ascii ''errmsg'' then
        opt_effect (\<lambda>b s. s\<lparr>wv_msg := b\<rparr>) (case v of V_utf8 b \<Rightarrow> Some (view_bytes b) | _ \<Rightarrow> None)
      else if k = ascii ''code'' then opt_effect (\<lambda>n s. s\<lparr>wv_code := n\<rparr>) (int_member v)
      else opt_effect (\<lambda>n s. s\<lparr>wv_index := n\<rparr>) (int_member v))"

interpretation write_error_fields: field_rules
  "[(ascii ''index'', True, integer_rule (assign_rule (\<lambda>n s. s\<lparr>wv_index := n\<rparr>))),
    (ascii ''code'', True, integer_rule (assign_rule (\<lambda>n s. s\<lparr>wv_code := n\<rparr>))),
    (ascii ''errmsg'', True, store_rule try_string (\<lambda>b s. s\<lparr>wv_msg := b\<rparr>))]" "[]"
  "\<lambda>_ _. True" we_verdict we_effect
proof unfold_locales
  fix k req v and r :: "(reference, write_vars) rule"
  assume "(k, req, r) \<in> set
   [(ascii ''index'', True, integer_rule (assign_rule (\<lambda>n s. s\<lparr>wv_index := n\<rparr>))),
    (ascii ''code'', True, integer_rule (assign_rule (\<lambda>n s. s\<lparr>wv_code := n\<rparr>))),
    (ascii ''errmsg'', True, store_rule try_string (\<lambda>b s. s\<lparr>wv_msg := b\<rparr>))]"
  then consider "k = ascii ''index''" "r = integer_rule (assign_rule (\<lambda>n s. s\<lparr>wv_index := n\<rparr>))"
    | "k = ascii ''code''" "r = integer_rule (assign_rule (\<lambda>n s. s\<lparr>wv_code := n\<rparr>))"
    | "k = ascii ''errmsg''" "r = store_rule try_string (\<lambda>b s. s\<lparr>wv_msg := b\<rparr>)" by auto
  then show "gives r (kv_ref (k, v)) (we_verdict k v) (we_effect k v)"
    by cases (simp_all add: we_verdict_def we_effect_def ascii_eq gives_integer_kv
        gives_store_kv [where conv = try_string, OF try_string_kv])
qed (auto simp: no_rest ascii_eq)

lemma write_error_parts_eq: "write_error_parts = field_parts
   [(ascii ''index'', True, integer_rule (assign_rule (\<lambda>n s. s\<lparr>wv_index := n\<rparr>))),
    (ascii ''code'', True, integer_rule (assign_rule (\<lambda>n s. s\<lparr>wv_code := n\<rparr>))),
    (ascii ''errmsg'', True, store_rule try_string (\<lambda>b s. s\<lparr>wv_msg := b\<rparr>))] @ []"
  by (simp add: write_error_parts_def field_parts_def field_part_def)

lemma write_error_look:
  assumes "distinct (map fst d)"
  shows "write_error_fields.accepts d \<longleftrightarrow> write_error_of d \<noteq> None"
    and "write_error_of d = Some (i, c, m) \<Longrightarrow>
      write_error_fields.effects d s = s\<lparr>wv_index := i, wv_code := c, wv_msg := m\<rparr>"
proof -
  show "write_error_fields.accepts d \<longleftrightarrow> write_error_of d \<noteq> None"
    unfolding write_error_fields.accepts_well_formed [OF assms] write_error_fields.well_formed_def
    by (auto simp: write_error_of_def reply_int_def reply_string_def we_verdict_def opt_state_def ascii_eq
        split: option.splits bson_value_ref.splits)
  let ?e = "write_error_fields.effects d s"
  have lk: "look (\<lambda>k. k) d c = map_option (Pair c) (map_of d c)" for c by (rule look_id)
  have i: "wv_index ?e = (case look (\<lambda>k. k) d (ascii ''index'') of None \<Rightarrow> wv_index s
      | Some (k, v) \<Rightarrow> (case int_member v of None \<Rightarrow> wv_index s | Some n \<Rightarrow> n))"
    by (rule write_error_fields.effects_get
        [where f = "\<lambda>k v old. case int_member v of None \<Rightarrow> old | Some n \<Rightarrow> n" and get = wv_index])
      (use assms in \<open>auto simp: we_effect_def opt_effect_def field_part_def ascii_eq split: option.splits\<close>)
  have c: "wv_code ?e = (case look (\<lambda>k. k) d (ascii ''code'') of None \<Rightarrow> wv_code s
      | Some (k, v) \<Rightarrow> (case int_member v of None \<Rightarrow> wv_code s | Some n \<Rightarrow> n))"
    by (rule write_error_fields.effects_get
        [where f = "\<lambda>k v old. case int_member v of None \<Rightarrow> old | Some n \<Rightarrow> n" and get = wv_code])
      (use assms in \<open>auto simp: we_effect_def opt_effect_def field_part_def ascii_eq split: option.splits\<close>)
  have m: "wv_msg ?e = (case look (\<lambda>k. k) d (ascii ''errmsg'') of None \<Rightarrow> wv_msg s
      | Some (k, v) \<Rightarrow> (case v of V_utf8 b \<Rightarrow> view_bytes b | _ \<Rightarrow> wv_msg s))"
    by (rule write_error_fields.effects_get
        [where f = "\<lambda>k v old. case v of V_utf8 b \<Rightarrow> view_bytes b | _ \<Rightarrow> old" and get = wv_msg])
      (use assms in \<open>auto simp: we_effect_def opt_effect_def field_part_def ascii_eq
        split: option.splits bson_value_ref.splits\<close>)
  have r: "wv_ret ?e = wv_ret s" "wv_upserted_id ?e = wv_upserted_id s"
    by (rule write_error_fields.effects_keep; simp add: we_effect_def opt_effect_def split: option.split)+
  assume "write_error_of d = Some (i, c, m)"
  then show "?e = s\<lparr>wv_index := i, wv_code := c, wv_msg := m\<rparr>"
    using i c m r unfolding lk
    by (auto simp: write_error_of_def reply_int_def reply_string_def
        split: option.splits bson_value_ref.splits intro!: write_vars.equality)
qed

lemma gives_all_two:
  assumes "gives r1 ref st1 eff1" "st1 = Accept \<Longrightarrow> gives r2 ref st2 eff2"
  shows "gives (all_rule [r1, r2]) ref (if st1 = Accept then st2 else st1)
    (if st1 = Accept then \<lambda>s. eff2 (eff1 s) else eff1)"
  unfolding gives_def
proof
  fix s
  obtain res1 s1 where 1: "r1 ref s = okE (res1, s1)" "state res1 = st1" "st1 \<noteq> Error \<longrightarrow> s1 = eff1 s"
    using assms(1) by (rule givesE)
  show "\<exists>res s'. all_rule [r1, r2] ref s = okE (res, s') \<and>
      state res = (if st1 = Accept then st2 else st1) \<and>
      ((if st1 = Accept then st2 else st1) \<noteq> Error \<longrightarrow>
        s' = (if st1 = Accept then \<lambda>s. eff2 (eff1 s) else eff1) s)"
  proof (cases "st1 = Accept")
    case True
    obtain res2 s2 where "r2 ref s1 = okE (res2, s2)" "state res2 = st2" "st2 \<noteq> Error \<longrightarrow> s2 = eff2 s1"
      using assms(2) [OF True] by (rule givesE)
    with 1 True show ?thesis by (cases st2) (auto simp: all_rule_def)
  next
    case False
    with 1 show ?thesis by (cases st1) (auto simp: all_rule_def)
  qed
qed

text \<open>The copy of a message, for an allocator that serves every request.\<close>

definition copied :: "(nat \<Rightarrow> byte) \<Rightarrow> bytes \<Rightarrow> mlib_str" where
  "copied junk bs = projr (mlib_str_copy (default_reallocate (\<lambda>_. True) junk)
     (mlib_str_view_data (Some (bs, 0)) (length bs)))"

lemma copied:
  assumes "int (length bs) \<le> SSIZE_MAX - 9"
  shows "mlib_str_copy (default_reallocate (\<lambda>_. True) junk) (mlib_str_view_data (Some (bs, 0)) (length bs)) =
      Inr (copied junk bs)" "str_rep (copied junk bs) bs"
  using str_copy_default [OF assms, of "\<lambda>_. True" junk] by (auto simp: copied_def)

definition pushed :: "(nat \<Rightarrow> byte) \<Rightarrow> int \<times> int \<times> bytes \<Rightarrow> write_vars \<Rightarrow> write_vars" where
  "pushed junk = (\<lambda>(i, c, m) s. s\<lparr>wv_index := i, wv_code := c, wv_msg := m,
     wv_ret := (wv_ret s)\<lparr>write_errors := write_errors (wv_ret s) @
       [\<lparr>we_index = 0, we_code = sint (word_of_int c :: u32), we_errmsg = copied junk m\<rparr>]\<rparr>\<rparr>)"

definition error_state :: "kv list \<Rightarrow> pstate" where
  "error_state d = (if write_error_of d = None then Reject else Accept)"

definition error_effect :: "(nat \<Rightarrow> byte) \<Rightarrow> kv list \<Rightarrow> write_vars \<Rightarrow> write_vars" where
  "error_effect junk d = (case write_error_of d of None \<Rightarrow> write_error_fields.effects d | Some e \<Rightarrow> pushed junk e)"

lemma message_fits:
  assumes "kvs_ok d" "write_error_of d = Some (i, c, m)"
  shows "int (length m) \<le> SSIZE_MAX - 9"
proof -
  obtain v where v: "map_of d (ascii ''errmsg'') = Some v" "v = V_utf8 (Some m) \<or> v = V_utf8 None \<and> m = []"
    using assms(2) by (auto simp: write_error_of_def reply_string_def view_bytes_def
        split: option.splits bson_value_ref.splits)
  then show ?thesis using value_fits(2) [OF assms(1) v(1)] by (auto simp: string_bytes_def)
qed

lemma gives_write_error:
  assumes "kvs_ok d" "distinct (map fst d)"
  shows "gives (parse_write_error (default_reallocate (\<lambda>_. True) junk) (\<lambda>_. True))
    (kv_ref (k, V_document (Some (kv_doc d)))) (error_state d) (error_effect junk d)"
proof (cases "write_error_of d")
  case None
  then have na: "\<not> write_error_fields.accepts d" using write_error_look(1) [OF assms(2)] by simp
  have ne: "\<not> write_error_fields.errs d"
    by (auto simp: we_verdict_def opt_state_def)
  have "gives (doc_rule write_error_parts) (kv_ref (k, V_document (Some (kv_doc d)))) Reject
      (write_error_fields.effects d)"
    using gives_doc_rule(1) [OF write_error_fields.gives_parts [OF assms], of k] na ne
    unfolding write_error_parts_eq write_error_fields.parts_eq by simp
  from gives_all_two [OF this] None show ?thesis
    by (simp add: parse_write_error_def error_state_def error_effect_def)
next
  case (Some e)
  obtain i c m where e: "e = (i, c, m)" by (cases e)
  have a: "write_error_fields.accepts d" using write_error_look(1) [OF assms(2)] Some by simp
  have len: "int (length m) \<le> SSIZE_MAX - 9" using message_fits [OF assms(1)] Some e by simp
  let ?eff = "\<lambda>s. s\<lparr>wv_index := i, wv_code := c, wv_msg := m\<rparr>"
  have g: "gives (doc_rule write_error_parts) (kv_ref (k, V_document (Some (kv_doc d)))) Accept ?eff"
    using gives_doc_rule(1) [OF write_error_fields.gives_parts [OF assms], of k] a
      write_error_fields.accepts_no_errs [OF a] write_error_look(2) [OF assms(2) Some [unfolded e]]
    unfolding write_error_parts_eq write_error_fields.parts_eq by (simp add: gives_def)
  have "\<exists>res s'. all_rule [doc_rule write_error_parts, action_rule (\<lambda>_. push_write_error
        (default_reallocate (\<lambda>_. True) junk) (\<lambda>_. True))] (kv_ref (k, V_document (Some (kv_doc d)))) s =
      okE (res, s') \<and> state res = Accept \<and> s' = pushed junk e s" for s
  proof -
    obtain res s1 where "doc_rule write_error_parts (kv_ref (k, V_document (Some (kv_doc d)))) s = okE (res, s1)"
      "state res = Accept" "s1 = ?eff s"
      using g by (rule givesE [where s = s]) simp
    then show ?thesis
      using copied(1) [OF len, of junk]
      by (simp add: all_rule_def action_rule_def push_write_error_def pushed_def e)
  qed
  with Some show ?thesis by (simp add: gives_def parse_write_error_def error_state_def error_effect_def)
qed

section \<open>Replies to insertions\<close>

text \<open>
  The array \<open>es\<close> of the write errors, whose documents are \<open>docs\<close> of its keys.
\<close>

definition errors_ok :: "kv list \<Rightarrow> (bytes \<Rightarrow> kv list) \<Rightarrow> bool" where
  "errors_ok es docs \<longleftrightarrow> kvs_ok es \<and>
     list_all (\<lambda>(k, v). v = V_document (Some (kv_doc (docs k))) \<and> kvs_ok (docs k) \<and> distinct (map fst (docs k))) es"

definition errors_effect :: "(nat \<Rightarrow> byte) \<Rightarrow> (bytes \<Rightarrow> kv list) \<Rightarrow> kv list \<Rightarrow> write_vars \<Rightarrow> write_vars" where
  "errors_effect junk docs es = fold (\<lambda>kv. error_effect junk (docs (fst kv))) es"

lemma gives_errors:
  assumes "errors_ok es docs"
  shows "gives (must_rule (each_rule (parse_write_error (default_reallocate (\<lambda>_. True) junk) (\<lambda>_. True))))
    (kv_ref (k, V_array (Some (kv_doc es))))
    (if list_all (\<lambda>kv. write_error_of (docs (fst kv)) \<noteq> None) es then Accept else Error)
    (errors_effect junk docs es)"
proof -
  let ?st = "\<lambda>kv. error_state (docs (fst kv))" and ?eff = "\<lambda>kv. error_effect junk (docs (fst kv))"
  let ?r = "parse_write_error (default_reallocate (\<lambda>_. True) junk) (\<lambda>_. True)"
  have "\<forall>kv \<in> set es. gives ?r (kv_ref kv) (?st kv) (?eff kv)"
    using assms gives_write_error by (fastforce simp: errors_ok_def list_all_iff)
  then have "gives (each_view_rule ?r) (Some (kv_doc es)) (each_state ?st es) (each_effect ?st ?eff es)"
    using assms by (intro gives_each) (simp_all add: errors_ok_def)
  then have g: "gives (must_rule (each_rule ?r)) (kv_ref (k, V_array (Some (kv_doc es))))
      (if each_state ?st es = Reject then Error else each_state ?st es) (each_effect ?st ?eff es)"
    unfolding each_rule_def by (intro gives_must gives_type(2) [where conv = try_array]) (simp add: try_array_kv)
  show ?thesis
  proof (cases "list_all (\<lambda>kv. write_error_of (docs (fst kv)) \<noteq> None) es")
    case True
    then have "\<forall>kv \<in> set es. ?st kv = Accept" by (auto simp: list_all_iff error_state_def)
    from each_all_accept [OF this, of ?eff] g True show ?thesis by (simp add: errors_effect_def)
  next
    case False
    then have "dropWhile (\<lambda>kv. ?st kv = Accept) es \<noteq> []"
      by (auto simp: dropWhile_eq_Nil_conv list_all_iff error_state_def)
    then obtain kv rest where d: "dropWhile (\<lambda>kv. ?st kv = Accept) es = kv # rest"
      by (meson list.exhaust)
    moreover have "?st kv \<noteq> Accept" using hd_dropWhile [of "\<lambda>kv. ?st kv = Accept" es] d by simp
    ultimately have "each_state ?st es = Reject" by (auto simp: each_state_def error_state_def)
    with g False show ?thesis by (simp add: gives_def)
  qed
qed

lemma gives_count:
  "gives (must_rule (store_count upd)) (kv_ref (k, v)) (if int_member v = None then Error else Accept)
     (opt_effect (\<lambda>n s. s\<lparr>wv_ret := upd n (wv_ret s)\<rparr>) (int_member v))"
  unfolding store_count_def by (rule gives_cong [OF gives_must [OF gives_integer_kv]]) (auto simp: opt_state_def)

definition insert_good :: "kv list \<Rightarrow> (bytes \<Rightarrow> kv list) \<Rightarrow> bytes \<Rightarrow> bson_value_ref \<Rightarrow> bool" where
  "insert_good es docs k v \<longleftrightarrow> k \<noteq> ascii ''upserted'' \<and>
     (k = ascii ''writeErrors'' \<longrightarrow> v = V_array (Some (kv_doc es)) \<and> errors_ok es docs)"

definition insert_verdict :: "kv list \<Rightarrow> (bytes \<Rightarrow> kv list) \<Rightarrow> bytes \<Rightarrow> bson_value_ref \<Rightarrow> pstate" where
  "insert_verdict es docs k v =
     (if k = ascii ''writeErrors'' then
        if list_all (\<lambda>kv. write_error_of (docs (fst kv)) \<noteq> None) es then Accept else Error
      else if int_member v = None then Error else Accept)"

definition insert_effect ::
  "(nat \<Rightarrow> byte) \<Rightarrow> kv list \<Rightarrow> (bytes \<Rightarrow> kv list) \<Rightarrow> bytes \<Rightarrow> bson_value_ref \<Rightarrow> write_vars \<Rightarrow> write_vars" where
  "insert_effect junk es docs k v =
     (if k = ascii ''writeErrors'' then errors_effect junk docs es
      else opt_effect (\<lambda>n s. s\<lparr>wv_ret :=
        (if k = ascii ''n'' then set_n Inserted_count n
         else if k = ascii ''nModified'' then (\<lambda>r. r\<lparr>modified_count := n\<rparr>)
         else if k = ascii ''nMatched'' then (\<lambda>r. r\<lparr>matched_count := n\<rparr>)
         else if k = ascii ''nUpserted'' then (\<lambda>r. r\<lparr>upserted_count := n\<rparr>)
         else id) (wv_ret s)\<rparr>) (int_member v))"

definition write_result_fields ::
  "reallocate_fn \<Rightarrow> (nat \<Rightarrow> bool) \<Rightarrow> n_field \<Rightarrow> write_vars field_spec list" where
  "write_result_fields alloc grow n =
     [(ascii ''n'', True, must_rule (store_count (set_n n))),
      (ascii ''nModified'', False, must_rule (store_count (\<lambda>n r. r\<lparr>modified_count := n\<rparr>))),
      (ascii ''nMatched'', False, must_rule (store_count (\<lambda>n r. r\<lparr>matched_count := n\<rparr>))),
      (ascii ''nUpserted'', False, must_rule (store_count (\<lambda>n r. r\<lparr>upserted_count := n\<rparr>))),
      (ascii ''upserted'', False, must_rule (doc_rule upserted_parts)),
      (ascii ''writeErrors'', False, must_rule (each_rule (parse_write_error alloc grow)))]"

lemma write_result_parts_eq: "write_result_parts alloc grow n = field_parts (write_result_fields alloc grow n) @ []"
  by (simp add: write_result_parts_def write_result_fields_def field_parts_def field_part_def field_def)

interpretation insert_fields: field_rules
  "write_result_fields (default_reallocate (\<lambda>_. True) junk) (\<lambda>_. True) Inserted_count" "[]"
  "insert_good es docs" "insert_verdict es docs" "insert_effect junk es docs" for junk es docs
proof unfold_locales
  fix k req v and r :: "(reference, write_vars) rule"
  assume r: "(k, req, r) \<in> set (write_result_fields (default_reallocate (\<lambda>_. True) junk) (\<lambda>_. True) Inserted_count)"
    and good: "insert_good es docs k v"
  consider (errors) "k = ascii ''writeErrors''" | (upserted) "k = ascii ''upserted''"
    | (count) upd where "r = must_rule (store_count upd)" "k \<noteq> ascii ''writeErrors''"
      "insert_effect junk es docs k v = opt_effect (\<lambda>n s. s\<lparr>wv_ret := upd n (wv_ret s)\<rparr>) (int_member v)"
    using r by (auto simp: write_result_fields_def insert_effect_def ascii_eq cong: if_cong)
  then show "gives r (kv_ref (k, v)) (insert_verdict es docs k v) (insert_effect junk es docs k v)"
  proof cases
    case errors
    then have "r = must_rule (each_rule (parse_write_error (default_reallocate (\<lambda>_. True) junk) (\<lambda>_. True)))"
      using r by (auto simp: write_result_fields_def ascii_eq)
    with errors good gives_errors [of es docs junk k] show ?thesis
      by (simp add: insert_good_def insert_verdict_def insert_effect_def)
  next
    case count
    with gives_count [of upd k v] show ?thesis by (simp add: insert_verdict_def)
  qed (use good in \<open>simp add: insert_good_def\<close>)
qed (auto simp: no_rest write_result_fields_def ascii_eq)

lemma errors_effect_errors:
  assumes "list_all (\<lambda>kv. write_error_of (docs (fst kv)) \<noteq> None) es"
  shows "write_errors (wv_ret (errors_effect junk docs es s)) = write_errors (wv_ret s) @
    map (\<lambda>kv. case the (write_error_of (docs (fst kv))) of (i, c, m) \<Rightarrow>
      \<lparr>we_index = 0, we_code = sint (word_of_int c :: u32), we_errmsg = copied junk m\<rparr>) es"
  using assms
proof (induction es arbitrary: s)
  case (Cons kv es)
  then obtain e where e: "write_error_of (docs (fst kv)) = Some e" by auto
  have "errors_effect junk docs (kv # es) s = errors_effect junk docs es (pushed junk e s)"
    by (simp add: errors_effect_def error_effect_def e)
  with Cons e show ?case by (cases e) (simp add: pushed_def)
qed (simp add: errors_effect_def)

lemma write_error_fields_keep:
  assumes "\<And>k v s. get (we_effect k v s) = get s"
  shows "get (write_error_fields.effects d s) = get s"
  using assms by (intro write_error_fields.effects_keep) simp

lemma errors_effect_keep:
  "inserted_count (wv_ret (errors_effect junk docs es s)) = inserted_count (wv_ret s)"
  "upserted_count (wv_ret (errors_effect junk docs es s)) = upserted_count (wv_ret s)"
  "wv_upserted_id (errors_effect junk docs es s) = wv_upserted_id s"
proof -
  have keep: "get (errors_effect junk docs es s) = get s"
    if "\<And>d s. get (error_effect junk d s) = get s" for get :: "write_vars \<Rightarrow> 'b" and s
    using that by (induction es arbitrary: s) (simp_all add: errors_effect_def)
  have e: "get (error_effect junk d s) = get s"
    if "\<And>e s. get (pushed junk e s) = get s" "\<And>k v s. get (we_effect k v s) = get s"
    for get :: "write_vars \<Rightarrow> 'b" and d s
    using that(1) write_error_fields_keep [of get, OF that(2)]
    by (simp add: error_effect_def split: option.split)
  have "get (we_effect k v s) = get s"
    if "\<And>b s. get (s\<lparr>wv_msg := b\<rparr>) = get s" "\<And>n s. get (s\<lparr>wv_code := n\<rparr>) = get s"
      "\<And>n s. get (s\<lparr>wv_index := n\<rparr>) = get s" for get :: "write_vars \<Rightarrow> 'b" and k v s
    using that by (simp add: we_effect_def opt_effect_def split: option.split)
  note we = this
  show "inserted_count (wv_ret (errors_effect junk docs es s)) = inserted_count (wv_ret s)"
    by (rule keep, rule e, simp add: pushed_def split: prod.split, rule we) simp_all
  show "upserted_count (wv_ret (errors_effect junk docs es s)) = upserted_count (wv_ret s)"
    by (rule keep, rule e, simp add: pushed_def split: prod.split, rule we) simp_all
  show "wv_upserted_id (errors_effect junk docs es s) = wv_upserted_id s"
    by (rule keep, rule e, simp add: pushed_def split: prod.split, rule we) simp_all
qed

lemma reply_int_range:
  assumes "reply_int kvs key = Some n"
  shows "in_i64 n"
proof -
  obtain v where "int_member v = Some n" using assms by (auto simp: reply_int_def bind_eq_Some_conv)
  then show ?thesis
  proof (cases rule: int_member_SomeE)
    case (1 w)
    then show ?thesis using sint_ge [of w] sint_lt [of w] by (simp add: in_i64_def)
  next
    case (2 w)
    then show ?thesis using sint_ge [of w] sint_lt [of w] by (simp add: in_i64_def)
  qed
qed

lemma copied_message:
  assumes "kvs_ok d" "write_error_of d = Some (i, c, m)"
  shows "str_rep (copied junk m) m"
  using copied(2) [OF message_fits [OF assms]] .

lemma insert_vars:
  assumes "distinct (map fst kvs)" "map_of kvs (ascii ''nUpserted'') = None"
    and s: "s = \<lparr>wv_ret = new_write_result, wv_upserted_id = V_eod, wv_code = 0, wv_index = 0, wv_msg = []\<rparr>"
    and e: "e = insert_fields.effects junk es docs kvs s"
    and fine: "list_all (\<lambda>kv. write_error_of (docs (fst kv)) \<noteq> None) es"
  shows "reply_int kvs ''n'' = Some n \<Longrightarrow> inserted_count (wv_ret e) = n"
    "upserted_count (wv_ret e) = 0" "wv_upserted_id e = V_eod"
    "write_errors (wv_ret e) = (if map_of kvs (ascii ''writeErrors'') = None then [] else
       map (\<lambda>kv. case the (write_error_of (docs (fst kv))) of (i, c, m) \<Rightarrow>
         \<lparr>we_index = 0, we_code = sint (word_of_int c :: u32), we_errmsg = copied junk m\<rparr>) es)"
proof -
  note ie = insert_effect_def opt_effect_def field_part_def write_result_fields_def ascii_eq errors_effect_keep
  have "inserted_count (wv_ret e) = (case look (\<lambda>k. k) kvs (ascii ''n'') of None \<Rightarrow> inserted_count (wv_ret s)
      | Some (k, v) \<Rightarrow> (case int_member v of None \<Rightarrow> inserted_count (wv_ret s) | Some n \<Rightarrow> n))"
    unfolding e by (rule insert_fields.effects_get [where get = "\<lambda>s. inserted_count (wv_ret s)"
          and f = "\<lambda>k v old. case int_member v of None \<Rightarrow> old | Some n \<Rightarrow> n"])
      (use assms(1) in \<open>auto simp: ie split: option.split\<close>)
  then show "inserted_count (wv_ret e) = n" if "reply_int kvs ''n'' = Some n"
    using that by (auto simp: look_id reply_int_def bind_eq_Some_conv)
  have "upserted_count (wv_ret e) = (case look (\<lambda>k. k) kvs (ascii ''nUpserted'') of None \<Rightarrow> upserted_count (wv_ret s)
      | Some (k, v) \<Rightarrow> (case int_member v of None \<Rightarrow> upserted_count (wv_ret s) | Some n \<Rightarrow> n))"
    unfolding e by (rule insert_fields.effects_get [where get = "\<lambda>s. upserted_count (wv_ret s)"
          and f = "\<lambda>k v old. case int_member v of None \<Rightarrow> old | Some n \<Rightarrow> n"])
      (use assms(1) in \<open>auto simp: ie split: option.split\<close>)
  then show "upserted_count (wv_ret e) = 0" using assms(2) by (simp add: look_id s new_write_result_def)
  have "wv_upserted_id e = wv_upserted_id s"
    unfolding e by (rule insert_fields.effects_keep) (auto simp: ie split: option.split)
  then show "wv_upserted_id e = V_eod" by (simp add: s)
  let ?new = "map (\<lambda>kv. case the (write_error_of (docs (fst kv))) of (i, c, m) \<Rightarrow>
    \<lparr>we_index = 0, we_code = sint (word_of_int c :: u32), we_errmsg = copied junk m\<rparr>) es"
  have "write_errors (wv_ret e) = (case look (\<lambda>k. k) kvs (ascii ''writeErrors'') of None \<Rightarrow> write_errors (wv_ret s)
      | Some (k, v) \<Rightarrow> write_errors (wv_ret s) @ ?new)"
    unfolding e by (rule insert_fields.effects_get [where get = "\<lambda>s. write_errors (wv_ret s)"
          and f = "\<lambda>k v old. old @ ?new"])
      (use assms(1) errors_effect_errors [OF fine] in \<open>auto simp: ie split: option.split\<close>)
  then show "write_errors (wv_ret e) = (if map_of kvs (ascii ''writeErrors'') = None then [] else ?new)"
    by (auto simp: look_id s new_write_result_def)
qed

section \<open>Properties\<close>


definition example_error :: "kv list" where
  "example_error = [(ascii ''index'', V_int32 1), (ascii ''code'', V_int32 11000),
     (ascii ''errmsg'', V_utf8 (Some (ascii ''E11000'')))]"

definition example_errors :: "kv list" where
  "example_errors = [(ascii ''0'', V_document (Some (kv_doc example_error)))]"

definition example_insert_reply :: "kv list" where
  "example_insert_reply = [(ascii ''writeErrors'', V_array (Some (kv_doc example_errors))), (ascii ''n'', V_int32 1)]"

lemma example_insert_ok: "kvs_ok example_insert_reply" "errors_ok example_errors (\<lambda>_. example_error)"
  by code_simp+

lemma example_insert_fields:
  "distinct (map fst example_insert_reply)"
  "map_of example_insert_reply (ascii ''writeErrors'') = Some (V_array (Some (kv_doc example_errors)))"
  "map_of example_insert_reply (ascii ''upserted'') = None" "map_of example_insert_reply (ascii ''nUpserted'') = None"
  "map_of example_insert_reply (ascii ''nModified'') = None" "map_of example_insert_reply (ascii ''nMatched'') = None"
  "reply_int example_insert_reply ''n'' = Some 1" "write_error_of example_error = Some (1, 11000, ascii ''E11000'')"
  by (simp_all add: example_insert_reply_def reply_int_def example_error_def write_error_of_def
      reply_string_def view_bytes_def ascii_eq)


section \<open>Update documents\<close>

text \<open>The first element of an encoded document.\<close>

lemma begin_kv_doc:
  assumes "kvs_ok kvs"
  shows "case kvs of
      [] \<Rightarrow> \<exists>it. bson_begin (kv_doc kvs) (Some 0) = Inr it \<and> bson_stop it
    | kv # _ \<Rightarrow> \<exists>it. bson_begin (kv_doc kvs) (Some 0) = Inr it \<and> \<not> bson_stop it \<and>
        throw_if_error it = Inr () \<and> iter_reference (kv_doc kvs) it = kv_ref kv"
proof -
  let ?m = "kv_doc kvs" and ?n = "int (length (elems_bytes (map kv_elem kvs))) + 1"
  let ?h = "u32le (word_of_nat (length (elems_bytes (map kv_elem kvs)) + 5))"
  have ok: "\<forall>kv \<in> set kvs. kv_ok kv" "int (length ?m) \<le> INT32_MAX"
    using assms by (simp_all add: kvs_ok_def list_all_iff)
  have da: "doc_at ?m 0" "doc_len ?m 0 = int (length ?m)"
    using kv_doc_doc_at [of ?m "[]" kvs "[]" 0] ok(2) by simp_all
  have n: "doc_len ?m 0 = ?n + 4" using da(2) by (simp add: kv_doc_def)
  have b: "bson_begin ?m (Some 0) = bson_iterator_at ?m 4 ?n"
    using bson_begin_doc [OF da(1)] n by (simp add: add.commute)
  have m: "?m = ?h @ elems_bytes (map kv_elem kvs) @ 0 # []" by (simp add: kv_doc_def doc_bytes_def)
  show ?thesis
  proof (cases kvs)
    case Nil
    then have "window ?m 4 1" using m by (simp add: window_def nth_append)
    with b Nil show ?thesis by (simp add: iterator_at_end bson_stop_def)
  next
    case (Cons kv rest)
    have pl: "placed ?m 4 ?n (kv_elem kv)"
      using placed_in_run [of ?m ?h "kv_elem kv" "map kv_elem rest" "[]" 4 ?n] m ok(2) Cons
      by (simp add: kv_doc_def)
    then obtain pre post where p: "?m = pre @ elem_bytes (kv_elem kv) @ post" "4 = int (length pre)"
      "window ?m 4 ?n" "int (length (elem_bytes (kv_elem kv))) < ?n"
      by (auto simp: placed_def)
    have kv: "kv_ok kv" "elem_ok (kv_elem kv)" using ok(1) Cons kv_elem_ok by auto
    note at = iterator_at_elem [OF p(1,2) kv(2) p(3,4)]
    have "throw_if_error (elem_iter 4 ?n (kv_elem kv)) = Inr ()"
      using throw_if_error_okay [OF elem_inv_facts(4) [OF at(2)]] .
    moreover have "\<not> bson_stop (elem_iter 4 ?n (kv_elem kv))"
      using p(4) by (cases "kv_elem kv") (auto simp: bson_stop_def elem_iter_def)
    ultimately show ?thesis
      using b at(1) iter_reference_kv [OF pl kv(1)] Cons by simp
  qed
qed

text \<open>
  The check of update documents: a document is an update exactly if it is not empty and its first key starts with a
  dollar sign.
\<close>

lemma update_documents_checked:
  assumes "kvs_ok kvs"
  shows "(check_update (Some (kv_doc kvs)), check_replacement (Some (kv_doc kvs))) =
    (if \<exists>k v rest. kvs = (k, v) # rest \<and> take 1 k = ascii ''$''
     then (okE Send, okE Invalid_update_document) else (okE Invalid_update_document, okE Send))"
proof (cases kvs)
  case Nil
  with begin_kv_doc [OF assms] show ?thesis
    by (auto simp: check_update_def check_replacement_def is_update_spec_doc_def)
next
  case (Cons kv rest)
  then obtain k v where kv: "kv = (k, v)" by (cases kv)
  with begin_kv_doc [OF assms] Cons show ?thesis
    by (auto simp: check_update_def check_replacement_def is_update_spec_doc_def)
qed

end
