(* ===== verification/Bson_Child.thy ===== *)
theory Bson_Child
  imports Bson_Mut_Correct
begin

text \<open>
  Mutation inside subdocuments. The mutator of a subdocument splices through the mutators of the
  enclosing documents up to the root, and each of them updates its own length. A frame is what
  surrounds a subdocument in its parent: the bytes in front of it, which end with the tag and the key of its
  element, and those behind it. The theory shows that a splice through a chain of mutators changes
  the innermost document and every length around it, so that the bytes stay the encoding of the nested
  documents, and that insertion and the creation of subdocuments at any depth are what they are at the root.
\<close>

section \<open>Nested documents\<close>

type_synonym frame = "bytes \<times> bytes"

definition wrap_doc :: "bytes \<Rightarrow> bytes" where
  "wrap_doc body = u32le (word_of_nat (length body + 4)) @ body"

fun plug :: "frame list \<Rightarrow> bytes \<Rightarrow> bytes" where
  "plug [] d = d"
| "plug ((pre, post) # fr) d = plug fr (wrap_doc (pre @ d @ post))"

text \<open>The address of the innermost document.\<close>

fun frame_base :: "frame list \<Rightarrow> int" where
  "frame_base [] = doc_data_ptr"
| "frame_base ((pre, post) # fr) = frame_base fr + 4 + int (length pre)"

fun chain_at :: "frame list \<Rightarrow> mut_chain \<Rightarrow> bool" where
  "chain_at [] chain \<longleftrightarrow> chain = bson_mutate"
| "chain_at (f # fr) chain \<longleftrightarrow>
     (case chain of [] \<Rightarrow> False
      | d # parents \<Rightarrow> mu_data d = frame_base (f # fr) \<and> 0 < mu_offset d \<and> chain_at fr parents)"

definition frames_ok :: "frame list \<Rightarrow> bool" where
  "frames_ok fr \<longleftrightarrow> list_all (\<lambda>(pre, post). post \<noteq> [] \<and> last post = 0) fr"

lemma length_wrap_doc [simp]: "length (wrap_doc body) = length body + 4"
  by (simp add: wrap_doc_def)

lemma doc_bytes_wrap: "doc_bytes es = wrap_doc (elems_bytes es @ [0])"
  by (simp add: doc_bytes_def wrap_doc_def add.commute)

lemma chain_atE:
  assumes "chain_at fr chain"
  obtains d parents where "chain = d # parents" "mu_data d = frame_base fr"
  using assms by (cases fr) (auto simp: bson_mutate_def split: list.splits)

lemma plug_split:
  fixes d :: bytes
  obtains L R where "frame_base fr = 4 + int (length L)"
    "\<forall>d'. length d' = length d \<longrightarrow> plug fr d' = L @ d' @ R"
proof -
  have "\<exists>L R. frame_base fr = 4 + int (length L) \<and> (\<forall>d'. length d' = length d \<longrightarrow> plug fr d' = L @ d' @ R)"
  proof (induction fr arbitrary: d)
    case Nil
    show ?case by (intro exI [of _ "[]"]) simp
  next
    case (Cons f fr)
    obtain pre post where f: "f = (pre, post)" by (cases f)
    from Cons [of "wrap_doc (pre @ d @ post)"] obtain L R where
      l: "frame_base fr = 4 + int (length L)"
      "\<And>d'. length d' = length (wrap_doc (pre @ d @ post)) \<Longrightarrow> plug fr d' = L @ d' @ R" by blast
    have "plug (f # fr) d' = (L @ u32le (word_of_nat (length (pre @ d @ post) + 4)) @ pre) @ d' @ (post @ R)"
      if "length d' = length d" for d'
      using l(2) [of "wrap_doc (pre @ d' @ post)"] that by (simp add: f wrap_doc_def)
    with l(1) show ?case
      by (intro exI [of _ "L @ u32le (word_of_nat (length (pre @ d @ post) + 4)) @ pre"] exI [of _ "post @ R"])
        (simp add: f)
  qed
  then show thesis using that by blast
qed

lemma length_plug: "length (plug fr d) + length d' = length (plug fr d') + length d"
proof (induction fr arbitrary: d d')
  case (Cons f fr)
  obtain pre post where "f = (pre, post)" by (cases f)
  with Cons [of "wrap_doc (pre @ d @ post)" "wrap_doc (pre @ d' @ post)"] show ?case by simp
qed simp

lemma length_plug_ge: "length d \<le> length (plug fr d)"
proof (rule plug_split [of fr d])
  fix L R assume "\<forall>d'. length d' = length d \<longrightarrow> plug fr d' = L @ d' @ R"
  then have "plug fr d = L @ d @ R" by blast
  then show ?thesis by simp
qed

text \<open>The innermost document is where the mutator points.\<close>

lemma nested_doc_at:
  assumes "doc_inv doc" "doc_data doc = plug fr (wrap_doc body)" "body \<noteq> []" "last body = 0"
  shows "doc_at (dc_buf doc) (frame_base fr)" "doc_len (dc_buf doc) (frame_base fr) = int (length body) + 4"
proof -
  from assms(1) obtain rest where s:
    "dc_buf doc = u32le (word_of_nat (length (doc_data doc) + length rest)) @ doc_data doc @ rest"
    "int (length (doc_data doc) + length rest) + 4 \<le> INT32_MAX"
    by (rule doc_inv_split)
  obtain L R where l: "frame_base fr = 4 + int (length L)" "doc_data doc = L @ wrap_doc body @ R"
    using assms(2) by (metis plug_split)
  define pre where "pre = u32le (word_of_nat (length (doc_data doc) + length rest)) @ L"
  have buf: "dc_buf doc = pre @ u32le (word_of_nat (length body + 4)) @ body @ R @ rest"
    using s(1) l(2) by (simp add: pre_def wrap_doc_def)
  have b: "frame_base fr = int (length pre)" using l(1) by (simp add: pre_def)
  have "int (length body + 4) \<le> INT32_MAX" using s(2) l(2) by simp
  then show len: "doc_len (dc_buf doc) (frame_base fr) = int (length body) + 4"
    using to_i32_of_nat [of "length body + 4"] by (simp add: doc_len_def b buf)
  have "nat (int (length pre) + (int (length body) + 4) - 1) = length pre + 4 + (length body - 1)"
    using assms(3) by (cases body) simp_all
  then have "dc_buf doc ! nat (int (length pre) + (int (length body) + 4) - 1) = body ! (length body - 1)"
    using assms(3) by (simp add: buf nth_append)
  then have "dc_buf doc ! nat (int (length pre) + (int (length body) + 4) - 1) = 0"
    using assms(3,4) by (simp add: last_conv_nth)
  with len show "doc_at (dc_buf doc) (frame_base fr)"
    using assms(3) by (cases body) (simp_all add: doc_at_def b buf)
qed

text \<open>Writing in the middle of the document.\<close>

lemma doc_write_mid:
  assumes "doc_inv d" "\<not> dc_static d" "doc_data d = X @ old @ Y" "4 \<le> length X" "Y \<noteq> []"
    and "length old = length bs" "p = 4 + int (length X)"
  obtains d' where "doc_write d p bs = Inr d'" "doc_inv d'" "\<not> dc_static d'" "doc_data d' = X @ bs @ Y"
proof -
  have "doc_data d = take 4 X @ drop 4 X @ old @ Y" "length (take 4 X) = 4" using assms(3,4) by simp_all
  from doc_write_inv [OF assms(1,2) this assms(5,6)] obtain d' where
    "doc_write d (8 + int (length (drop 4 X))) bs = Inr d'" "doc_inv d'" "\<not> dc_static d'"
    "doc_data d' = take 4 X @ drop 4 X @ bs @ Y" by blast
  moreover have "8 + int (length (drop 4 X)) = p" using assms(4,7) by simp
  ultimately show thesis using that by simp
qed

section \<open>Splicing through the chain\<close>

text \<open>One level of the chain around the splice in the parent.\<close>

lemma splice_child_step:
  assumes "doc_at (dc_buf doc) b" "doc_len (dc_buf doc) b = int sz" "doc_at (dc_buf doc) pb"
    and "mu_data mut = b" "0 < mu_offset mut" "parents = parent # ps" "mu_data parent = pb"
    and "4 \<le> p - b" "p - b < int sz" "int n \<le> INT32_MAX" "int sz + int n \<le> INT32_MAX" "n_del \<le> sz"
  shows "bson_splice_region alloc (mut # parents) doc p n_del n from =
    bindR (bson_splice_region alloc parents doc p n_del n from) (\<lambda>(parents', doc', out).
      case out of None \<Rightarrow> Inr (mut # parents', doc', None)
      | Some p' \<Rightarrow>
          bindR (doc_write doc' (mu_data (hd parents') + (b - pb)) (u32le (word_of_nat (sz + n - n_del))))
            (\<lambda>doc'. Inr (mut\<lparr>mu_data := mu_data (hd parents') + (b - pb)\<rparr> # parents', doc', Some p')))"
proof -
  have d: "castInt32 mlib_math_try (mlib_math_sub (math_U (int n)) (math_U (int n_del))) =
      (mlib_math_try, int n - int n_del)"
    using assms(10-12) by (intro cast_diff) simp_all
  have s: "castNonNegativeInt32 mlib_math_try (mlib_math_add (math_I (int sz)) (math_I (int n - int n_del)) False) =
      (mlib_math_try, int sz + (int n - int n_del))"
    using assms(10-12) by (intro cast_sum) simp_all
  have "word_of_int (int sz + (int n - int n_del)) = (word_of_nat (sz + n - n_del) :: u32)"
  proof -
    have "int sz + (int n - int n_del) = int (sz + n - n_del)" using assms(12) by simp
    then show ?thesis by (simp only: of_int_of_nat_eq)
  qed
  then have w: "word_of_nat sz + (word_of_nat n - word_of_nat n_del) = (word_of_nat (sz + n - n_del) :: u32)"
    by simp
  show ?thesis
    unfolding bson_splice_region.simps(2) [of alloc mut parents]
    using assms(4-9)
    by (simp add: sizes_of_doc [OF assms(1)] sizes_of_doc [OF assms(3)] assms(2) d s w Let_def bindR_assoc
        case_prod_beta cong: if_cong)
      (rule bindR_cong, auto split: option.splits)
qed

context exact_allocator
begin

lemma splice_chain:
  assumes "doc_inv doc" "doc_data doc = plug fr (wrap_doc (P @ del @ post))" "chain_at fr chain" "frames_ok fr"
    and "post \<noteq> []" "last post = 0" "int (length (doc_data doc)) + int n + 512 \<le> INT32_MAX - 4"
    and src: "\<forall>bs. from = Some bs \<longrightarrow> n \<le> length bs" and static: "dc_static doc \<longrightarrow> 0 < n"
    and "p = frame_base fr + 4 + int (length P)"
  shows "bson_splice_region realloc chain doc p (length del) n from = Inr (chain, doc, None) \<and> refuses realloc \<or>
    (\<exists>doc'. bson_splice_region realloc chain doc p (length del) n from = Inr (chain, doc', Some p) \<and>
      doc_inv doc' \<and> \<not> dc_static doc' \<and>
      doc_data doc' = plug fr (wrap_doc (P @ fill_bytes n from @ post)))"
  using assms(2-6,10)
proof (induction fr arbitrary: P post chain p)
  case Nil
  let ?H = "u32le (word_of_nat (length (P @ del @ post) + 4)) :: bytes"
  let ?new = "length (?H @ P) + n + length post"
  have data: "doc_data doc = ?H @ P @ del @ post" using Nil.prems(1) by (simp add: wrap_doc_def)
  have new: "int ?new + 512 \<le> INT32_MAX - 4" using assms(7) data by simp
  have "length (P @ fill_bytes n from @ post) + 4 = ?new"
    using src by (auto simp: fill_bytes_def split: option.splits)
  then have "plug [] (wrap_doc (P @ fill_bytes n from @ post)) = u32le (word_of_nat ?new) @ P @ fill_bytes n from @ post"
    by (simp only: plug.simps wrap_doc_def append_assoc)
  moreover have "p = 8 + int (length P)" "chain = [root_mut]" using Nil.prems by (simp_all add: bson_mutate_def)
  moreover have "int n \<le> INT32_MAX" using assms(7) by simp
  ultimately show ?case
    using splice_region_root [OF assms(1) data _ Nil.prems(4) refl new _ src static] refused_refuses by fastforce
next
  case (Cons f fr)
  obtain pre po where f: "f = (pre, po)" by (cases f)
  from Cons.prems(2) obtain mut parents where chain: "chain = mut # parents" "mu_data mut = frame_base (f # fr)"
    "0 < mu_offset mut" "chain_at fr parents" by (auto split: list.splits)
  from chain(4) obtain parent ps where par: "parents = parent # ps" "mu_data parent = frame_base fr"
    by (rule chain_atE)
  have po: "po \<noteq> []" "last po = 0" "frames_ok fr" using Cons.prems(3) by (simp_all add: frames_ok_def f)
  let ?hdr = "u32le (word_of_nat (length (P @ del @ post) + 4)) :: bytes"
  let ?P = "pre @ ?hdr @ P" and ?po = "post @ po"
  have inner: "doc_data doc = plug (f # fr) (wrap_doc (P @ del @ post))" using Cons.prems(1) .
  have outer: "doc_data doc = plug fr (wrap_doc (?P @ del @ ?po))"
    using Cons.prems(1) by (simp add: f wrap_doc_def)
  have di: "doc_at (dc_buf doc) (frame_base (f # fr))"
    "doc_len (dc_buf doc) (frame_base (f # fr)) = int (length (P @ del @ post) + 4)"
    using nested_doc_at [OF assms(1) inner] Cons.prems(4,5) by simp_all
  have "last (?P @ del @ ?po) = 0" "?P @ del @ ?po \<noteq> []" using po by simp_all
  then have dp: "doc_at (dc_buf doc) (frame_base fr)" using nested_doc_at [OF assms(1) outer] by blast
  have len: "length (P @ del @ post) + 4 \<le> length (doc_data doc)"
    using length_plug_ge [of "wrap_doc (P @ del @ post)" "f # fr"] inner by simp
  have step: "bson_splice_region realloc (mut # parents) doc p (length del) n from =
    bindR (bson_splice_region realloc parents doc p (length del) n from) (\<lambda>(parents', doc', out).
      case out of None \<Rightarrow> Inr (mut # parents', doc', None)
      | Some p' \<Rightarrow>
          bindR (doc_write doc' (mu_data (hd parents') + (frame_base (f # fr) - frame_base fr))
              (u32le (word_of_nat (length (P @ del @ post) + 4 + n - length del))))
            (\<lambda>doc'. Inr (mut\<lparr>mu_data := mu_data (hd parents') + (frame_base (f # fr) - frame_base fr)\<rparr> # parents',
              doc', Some p')))"
    by (rule splice_child_step [OF di dp chain(2,3) par])
      (use Cons.prems(4,6) len assms(7) in \<open>auto simp: neq_Nil_conv\<close>)
  have pp: "p = frame_base fr + 4 + int (length ?P)" using Cons.prems(6) by (simp add: f)
  have "?po \<noteq> []" "last ?po = 0" using po by simp_all
  from Cons.IH [OF outer chain(4) po(3) this pp] show ?case
  proof (elim disjE exE conjE)
    assume "bson_splice_region realloc parents doc p (length del) n from = Inr (parents, doc, None)" "refuses realloc"
    then show ?thesis by (simp add: chain(1) step)
  next
    fix d1
    assume d1: "bson_splice_region realloc parents doc p (length del) n from = Inr (parents, d1, Some p)"
      "doc_inv d1" "\<not> dc_static d1" "doc_data d1 = plug fr (wrap_doc (?P @ fill_bytes n from @ ?po))"
    let ?body = "P @ fill_bytes n from @ post"
    have lf: "length (fill_bytes n from) = n" using src by (auto simp: fill_bytes_def split: option.splits)
    have nl: "length (P @ del @ post) + 4 + n - length del = length ?body + 4" using lf by simp
    define new where "new = (u32le (word_of_nat (length ?body + 4)) :: bytes)"
    obtain L R where L: "frame_base fr = 4 + int (length L)"
      "\<forall>d'. length d' = length (wrap_doc (?P @ fill_bytes n from @ ?po)) \<longrightarrow> plug fr d' = L @ d' @ R"
      by (rule plug_split [of fr "wrap_doc (?P @ fill_bytes n from @ ?po)"])
    have L2: "plug fr d' = L @ d' @ R" if "length d' = length (wrap_doc (?P @ fill_bytes n from @ ?po))" for d'
      using L(2) that by blast
    define X where "X = L @ u32le (word_of_nat (length (?P @ fill_bytes n from @ ?po) + 4)) @ pre"
    have x1: "doc_data d1 = X @ ?hdr @ (?body @ po @ R)"
      using d1(4) L2 [OF refl] by (simp add: X_def wrap_doc_def)
    have x2: "frame_base (f # fr) = 4 + int (length X)" using L(1) by (simp add: X_def f)
    obtain d2 where d2: "doc_write d1 (frame_base (f # fr)) new = Inr d2" "doc_inv d2" "\<not> dc_static d2"
      "doc_data d2 = X @ new @ (?body @ po @ R)"
      by (rule doc_write_mid [OF d1(2,3) x1 _ _ _ x2, where bs = new]) (use po in \<open>auto simp: X_def new_def\<close>)
    have "doc_data d2 = plug (f # fr) (wrap_doc ?body)"
      using d2(4) L2 [of "wrap_doc (pre @ wrap_doc ?body @ po)"] by (simp add: f X_def wrap_doc_def new_def)
    moreover have "mut\<lparr>mu_data := frame_base (f # fr)\<rparr> = mut" using chain(2) by (cases mut) simp
    with step d1(1) d2(1) par have "bson_splice_region realloc chain doc p (length del) n from = Inr (chain, d2, Some p)"
      unfolding nl new_def [symmetric] chain(1) by (simp del: frame_base.simps)
    ultimately show ?thesis using d2(2,3) by blast
  qed
qed

end

section \<open>Inserting at any depth\<close>

lemma insert_chunks_chain_head:
  assumes k: "k = view_bytes (mlib_str_view_chopnulls key)" and size: "int (length k + n) + 2 \<le> INT32_MAX"
    and at: "bson_mut_data_at (hd chain) doc pos = Inr q" "it_deref pos = Inr q"
  shows "insert_chunks alloc chain doc pos t key n chunks =
    bindR (bson_splice_region alloc chain doc q 0 (length k + n + 2) None) (\<lambda>(chain', doc, out).
      case out of None \<Rightarrow> bindR (mut_end chain' doc) (\<lambda>e. Inr (chain', doc, e))
      | Some p \<Rightarrow>
          bindR (doc_write doc p [t]) (\<lambda>doc.
          bindR (doc_write doc (p + 1) k) (\<lambda>doc.
          bindR (doc_write doc (p + 1 + int (length k)) [0]) (\<lambda>doc.
          bindR (ssize_of doc (mu_data (hd chain'))) (\<lambda>sz.
          bindR (write_chunks doc (p + 1 + int (length k) + 1) chunks) (\<lambda>doc.
          Inr (chain', doc, \<lparr>it_ptr = Some (mu_data (hd chain') + (q - mu_data (hd chain))),
            it_keylen = int (length k), it_rlen = sz - (q - mu_data (hd chain))\<rparr>)))))))"
proof -
  have sv: "sv_len (mlib_str_view_chopnulls key) = length k"
    by (cases key) (simp_all add: k view_bytes_def)
  have es: "castNonNegativeInt32 mlib_math_try (mlib_math_add (math_U (int (length k)))
      (mlib_math_add (math_I 2) (math_U (int n)) False) False) = (mlib_math_try, int (length k + n) + 2)"
    using size by (rule cast_elem_size)
  have nn: "nat (int (length k + n) + 2) = length k + n + 2" by simp
  show ?thesis
    unfolding insert_chunks_def bson_prep_element_region_def Let_def sv es k [symmetric] prod.case nn
    by (simp add: at bindR_assoc)
      (rule bindR_cong, auto simp: bindR_assoc split: option.splits)
qed

context exact_allocator
begin

lemma insert_chunks_chain:
  assumes inv: "doc_inv doc" and data: "doc_data doc = plug fr (doc_bytes (es @ fs))"
    and chain: "chain_at fr chain" "frames_ok fr"
    and pos: "it_ptr pos = Some (frame_base fr + 4 + int (length (elems_bytes es)))"
    and k: "k = view_bytes (mlib_str_view_chopnulls key)"
    and v: "v = concat chunks" "n = length v"
    and size: "int (length (doc_data doc) + length k + length v) + 2 + 512 \<le> INT32_MAX - 4"
    and serves: "\<not> refuses realloc"
  obtains doc' where "doc_inv doc'" "doc_data doc' = plug fr (doc_bytes (es @ (t, k, v) # fs))"
    "insert_chunks realloc chain doc pos t key n chunks =
       Inr (chain, doc', elem_iter (frame_base fr + 4 + int (length (elems_bytes es)))
         (int (length (elems_bytes ((t, k, v) # fs))) + 1) (t, k, v))"
proof -
  define P post where "P = elems_bytes es" and "post = elems_bytes fs @ [0]"
  obtain d parents where c: "chain = d # parents" "mu_data d = frame_base fr"
    using chain(1) by (rule chain_atE)
  let ?n = "length k + length v + 2" and ?q = "frame_base fr + 4 + int (length P)"
  have d: "doc_data doc = plug fr (wrap_doc (P @ [] @ post))" "post \<noteq> []" "last post = 0"
    by (simp_all add: data doc_bytes_wrap P_def post_def)
  have "doc_at (dc_buf doc) (frame_base fr)"
    by (rule nested_doc_at [OF inv d(1)]) (use d in simp_all)
  then have at: "bson_mut_data_at (hd chain) doc pos = Inr ?q" "it_deref pos = Inr ?q"
    using pos c sizes_of_doc(1) [of doc "frame_base fr"]
    by (simp_all add: bson_mut_data_at_def it_deref_def P_def)
  have "int (length k + n) + 2 \<le> INT32_MAX" using size v by simp
  note head = insert_chunks_chain_head [OF k this at, of realloc t chunks, unfolded v(2)]
  have sz: "int (length (doc_data doc)) + int ?n + 512 \<le> INT32_MAX - 4" using size by simp
  from splice_chain [OF inv d(1) chain d(2,3) sz, of None ?q] serves obtain d1 where
    s: "bson_splice_region realloc chain doc ?q 0 ?n None = Inr (chain, d1, Some ?q)" "doc_inv d1" "\<not> dc_static d1"
      "doc_data d1 = plug fr (wrap_doc (P @ replicate ?n 88 @ post))"
    by (auto simp: fill_bytes_def)
  obtain L R where L: "frame_base fr = 4 + int (length L)"
    "\<forall>d'. length d' = length (wrap_doc (P @ replicate ?n (88 :: byte) @ post)) \<longrightarrow> plug fr d' = L @ d' @ R"
    by (rule plug_split [of fr "wrap_doc (P @ replicate ?n 88 @ post)"])
  let ?hdr = "u32le (word_of_nat (length P + ?n + length post + 4)) :: bytes"
  have L2: "plug fr (wrap_doc (P @ x @ post)) = L @ ?hdr @ P @ x @ post @ R" if "length x = ?n" for x
    using L(2) [rule_format, of "wrap_doc (P @ x @ post)"] that by (simp add: wrap_doc_def add.assoc)
  define H X where "H = take 4 (L @ ?hdr)" and "X = drop 4 (L @ ?hdr) @ P"
  have HX: "L @ ?hdr @ P @ x @ post @ R = H @ X @ x @ post @ R" for x
    unfolding H_def X_def append_assoc [symmetric] append_take_drop_id by simp
  have q: "?q = 8 + int (length X)" "length H = 4" using L(1) by (simp_all add: X_def H_def)
  have "doc_data d1 = H @ X @ replicate (length k + length v + 2) 88 @ (post @ R)"
    using s(4) L2 [of "replicate ?n 88"] HX by simp
  then obtain d2 d3 d4 where w: "doc_write d1 ?q [t] = Inr d2" "doc_write d2 (?q + 1) k = Inr d3"
    "doc_write d3 (?q + 1 + int (length k)) [0] = Inr d4"
    "doc_inv d4" "\<not> dc_static d4" "doc_data d4 = H @ (X @ t # k @ [0]) @ replicate (length v) 88 @ (post @ R)"
    unfolding q(1) by (rule write_key_inv [OF s(2,3) _ q(2)]) (use d(2) in simp_all)
  have lv: "length (replicate (length v) (88 :: byte)) = length (concat chunks)" "post @ R \<noteq> []"
    using v(1) d(2) by simp_all
  from write_chunks_inv [OF w(4-6) q(2) lv(2,1), of "?q + 1 + int (length k) + 1"] q(1)
  obtain d5 where d5: "write_chunks d4 (?q + 1 + int (length k) + 1) chunks = Inr d5" "doc_inv d5"
    "doc_data d5 = H @ (X @ t # k @ [0]) @ concat chunks @ (post @ R)" by auto
  have full: "doc_data d5 = plug fr (doc_bytes (es @ (t, k, v) # fs))"
    using d5(3) L2 [of "elem_bytes (t, k, v)"] HX [of "elem_bytes (t, k, v)"]
    by (simp add: doc_bytes_wrap P_def post_def elem_bytes_def v(1))
  have "doc_data d4 = plug fr (wrap_doc (P @ (t # k @ [0] @ replicate (length v) 88) @ post))"
    using w(6) L2 [of "t # k @ [0] @ replicate (length v) 88"] HX [of "t # k @ [0] @ replicate (length v) 88"] by simp
  from nested_doc_at [OF w(4) this] d(2,3) sizes_of_doc(2) [of d4 "frame_base fr"]
  have ss: "ssize_of d4 (frame_base fr) = Inr (int (length P + ?n + length post) + 4)" by simp
  have "insert_chunks realloc chain doc pos t key n chunks =
      Inr (chain, d5, elem_iter (frame_base fr + 4 + int (length (elems_bytes es)))
        (int (length (elems_bytes ((t, k, v) # fs))) + 1) (t, k, v))"
    using head s(1) w(1-3) d5(1) ss c by (simp add: v(2) elem_iter_def P_def post_def)
  with that d5(2) full show thesis by blast
qed

end

section \<open>Appending and subdocuments\<close>

text \<open>The default allocator on a heap that serves every request.\<close>

abbreviation serving :: "(nat \<Rightarrow> byte) \<Rightarrow> reallocate_fn" where
  "serving junk \<equiv> default_reallocate (\<lambda>_. True) junk"

lemma serving_serves: "\<not> refuses (serving junk)"
  using refuses_default [of "\<lambda>_. True" junk] by blast

lemma insert_value_chain:
  assumes "doc_inv doc" "doc_data doc = plug fr (doc_bytes (es @ fs))" "chain_at fr chain" "frames_ok fr"
    and "it_ptr pos = Some (frame_base fr + 4 + int (length (elems_bytes es)))" "insertable v"
    and "k = view_bytes (mlib_str_view_chopnulls key)"
    and "int (length (doc_data doc) + length k + length (value_bytes v)) + 2 + 512 \<le> INT32_MAX - 4"
  obtains doc' where "doc_inv doc'" "doc_data doc' = plug fr (doc_bytes (es @ (value_type v, k, value_bytes v) # fs))"
    "bson_insert_value (serving junk) chain doc pos key v =
       Inr (chain, doc', elem_iter (frame_base fr + 4 + int (length (elems_bytes es)))
         (int (length (elems_bytes ((value_type v, k, value_bytes v) # fs))) + 1) (value_type v, k, value_bytes v))"
proof -
  have "int (length (value_bytes v)) \<le> INT32_MAX" using assms(8) by simp
  from insert_value_chunks [OF assms(6) this, of "serving junk" chain doc pos key]
  obtain chunks where c: "value_bytes v = concat chunks"
    "bson_insert_value (serving junk) chain doc pos key v =
      insert_chunks (serving junk) chain doc pos (value_type v) key (length (value_bytes v)) chunks"
    by metis
  from default_alloc.insert_chunks_chain [OF assms(1-5,7) c(1) refl assms(8) serving_serves] c(2) that
  show thesis by metis
qed

lemma mut_end_chain:
  assumes "doc_inv doc" "doc_data doc = plug fr (doc_bytes es)" "chain_at fr chain"
  shows "mut_end chain doc =
    Inr \<lparr>it_ptr = Some (frame_base fr + 4 + int (length (elems_bytes es))), it_keylen = 0, it_rlen = 1\<rparr>"
proof -
  obtain d parents where c: "chain = d # parents" "mu_data d = frame_base fr" using assms(3) by (rule chain_atE)
  have at: "doc_at (dc_buf doc) (frame_base fr)"
    "doc_len (dc_buf doc) (frame_base fr) = int (length (elems_bytes es)) + 5"
    using nested_doc_at [OF assms(1), of fr "elems_bytes es @ [0]"] assms(2) by (simp_all add: doc_bytes_wrap)
  then show ?thesis by (simp add: c mut_end_def view_from_ptr_doc [OF at(1)] bson_end_doc [OF at(1)])
qed

lemma emplace_back_chain:
  assumes "doc_inv doc" "doc_data doc = plug fr (doc_bytes es)" "chain_at fr chain" "frames_ok fr" "insertable v"
    and "k = view_bytes (mlib_str_view_chopnulls key)"
    and "int (length (doc_data doc) + length k + length (value_bytes v)) + 2 + 512 \<le> INT32_MAX - 4"
  obtains doc' it where "doc_inv doc'" "doc_data doc' = plug fr (doc_bytes (es @ [(value_type v, k, value_bytes v)]))"
    "bindR (mut_end chain doc) (\<lambda>pos. mutator_emplace (serving junk) chain doc pos key v) = Inr (chain, doc', Inr it)"
proof -
  let ?e = "(value_type v, k, value_bytes v)"
  let ?p = "\<lparr>it_ptr = Some (frame_base fr + 4 + int (length (elems_bytes es))), it_keylen = 0, it_rlen = 1\<rparr>"
  have "doc_data doc = plug fr (doc_bytes (es @ []))" using assms(2) by simp
  from insert_value_chain [OF assms(1) this assms(3,4) _ assms(5-7), of ?p junk]
  obtain doc' where d': "doc_inv doc'" "doc_data doc' = plug fr (doc_bytes (es @ [?e]))"
    "bson_insert_value (serving junk) chain doc ?p key v =
      Inr (chain, doc', elem_iter (frame_base fr + 4 + int (length (elems_bytes es)))
        (int (length (elems_bytes [?e])) + 1) ?e)" by auto
  have "\<not> bson_iterator_eq (elem_iter (frame_base fr + 4 + int (length (elems_bytes es)))
      (int (length (elems_bytes [?e])) + 1) ?e)
      \<lparr>it_ptr = Some (frame_base fr + 4 + int (length (elems_bytes (es @ [?e])))), it_keylen = 0, it_rlen = 1\<rparr>"
    by (simp add: bson_iterator_eq_def elem_iter_def)
  with that d' mut_end_chain [OF assms(1-3)] mut_end_chain [OF d'(1,2) assms(3)] show thesis
    by (simp add: mutator_emplace_def)
qed

text \<open>The iterator of an element reads its tag.\<close>

lemma nested_type:
  assumes "doc_inv doc" "doc_data doc = plug fr (doc_bytes (es @ (t, k, v) # fs))" "0 < n"
  shows "bson_iterator_type (dc_buf doc) (elem_iter (frame_base fr + 4 + int (length (elems_bytes es))) n (t, k, v)) = Inr t"
proof -
  from assms(1) obtain rest where s:
    "dc_buf doc = u32le (word_of_nat (length (doc_data doc) + length rest)) @ doc_data doc @ rest"
    by (rule doc_inv_split)
  obtain L R where l: "frame_base fr = 4 + int (length L)" "doc_data doc = L @ doc_bytes (es @ (t, k, v) # fs) @ R"
    using assms(2) by (metis plug_split)
  define pre where "pre = u32le (word_of_nat (length (doc_data doc) + length rest)) @ L @
    u32le (word_of_nat (length (elems_bytes (es @ (t, k, v) # fs)) + 5)) @ elems_bytes es"
  have "dc_buf doc = pre @ t # (k @ [0] @ v @ elems_bytes fs @ [0] @ R @ rest)"
    unfolding s pre_def by (simp add: l(2) doc_bytes_def elem_bytes_def)
  moreover have "frame_base fr + 4 + int (length (elems_bytes es)) = int (length pre)"
    using l(1) by (simp add: pre_def)
  ultimately show ?thesis
    using assms(3) rd_append_at [of _ pre t] by (simp add: bson_iterator_type_def it_deref_def elem_iter_def)
qed

text \<open>The frame of the last element of a document.\<close>

definition last_frame :: "elem list \<Rightarrow> byte \<Rightarrow> bytes \<Rightarrow> frame" where
  "last_frame es t k = (elems_bytes es @ t # k @ [0], [0])"

lemma plug_last: "plug (last_frame es t k # fr) (doc_bytes xs) = plug fr (doc_bytes (es @ [(t, k, doc_bytes xs)]))"
  by (simp add: last_frame_def doc_bytes_wrap elem_bytes_def)

lemma push_chain:
  assumes "doc_inv doc" "doc_data doc = plug fr (doc_bytes es)" "chain_at fr chain" "frames_ok fr"
    and "k = view_bytes (mlib_str_view_chopnulls key)"
    and "int (length (doc_data doc) + length k) + 7 + 512 \<le> INT32_MAX - 4"
    and t: "t = (if as_array then bson_type_array else bson_type_document)"
  obtains child doc' it where "doc_inv doc'" "chain_at (last_frame es t k # fr) (child # chain)"
    "doc_data doc' = plug (last_frame es t k # fr) (doc_bytes [])"
    "bindR (mut_end chain doc) (\<lambda>pos. mutator_insert_subdoc (serving junk) chain doc pos key as_array) =
       Inr (child # chain, doc', it)"
proof -
  obtain d parents where c: "chain = d # parents" "mu_data d = frame_base fr" using assms(3) by (rule chain_atE)
  let ?e = "(t, k, doc_bytes [])" and ?q = "frame_base fr + 4 + int (length (elems_bytes es))"
  let ?p = "\<lparr>it_ptr = Some ?q, it_keylen = 0, it_rlen = 1\<rparr>"
  let ?it = "elem_iter ?q (int (length (elems_bytes [?e])) + 1) ?e"
  have eb: "doc_bytes [] = concat [empty_doc_bytes]" by (simp add: doc_bytes_def empty_doc_bytes_def u32le_def)
  have dd: "doc_data doc = plug fr (doc_bytes (es @ []))" using assms(2) by simp
  have "it_ptr ?p = Some ?q" by simp
  moreover have "int (length (doc_data doc) + length k + length (doc_bytes [])) + 2 + 512 \<le> INT32_MAX - 4"
    using assms(6) by simp
  ultimately obtain doc' where d': "doc_inv doc'" "doc_data doc' = plug fr (doc_bytes (es @ [?e]))"
    "insert_chunks (serving junk) chain doc ?p t key (length (doc_bytes [])) [empty_doc_bytes] = Inr (chain, doc', ?it)"
    using default_alloc.insert_chunks_chain [OF assms(1) dd assms(3,4) _ assms(5) eb refl _ serving_serves] by metis
  have "bson_insert_value (serving junk) chain doc ?p key (if as_array then V_array None else V_document None) =
      Inr (chain, doc', ?it)"
    using d'(3) t by (cases as_array) (simp_all add: insert_subdoc_value_def empty_doc_bytes_def eval_nat_numeral)
  moreover have ty: "bson_iterator_type (dc_buf doc') ?it = Inr t"
    using nested_type [OF d'(1), of fr es t k "doc_bytes []" "[]"] d'(2) by simp
  have at: "doc_at (dc_buf doc') (frame_base fr)"
    "doc_len (dc_buf doc') (frame_base fr) = int (length (elems_bytes (es @ [?e]))) + 5"
    using nested_doc_at [OF d'(1), of fr "elems_bytes (es @ [?e]) @ [0]"] d'(2) by (simp_all add: doc_bytes_wrap)
  then have "int (length (elems_bytes es)) + 4 \<le> INT32_MAX"
    using doc_len_range(2) [of "dc_buf doc'" "frame_base fr"] by simp
  then have off: "uint (word_of_int (4 + int (length (elems_bytes es))) :: u32) = 4 + int (length (elems_bytes es))"
    by (subst uint_word_of_int_eq) (simp add: take_bit_eq_mod)
  let ?child = "\<lparr>mu_data = frame_base (last_frame es t k # fr), mu_offset = 4 + int (length (elems_bytes es))\<rparr>"
  have "bson_mut_child chain doc' ?it = Inr (?child # chain)"
    using ty t off c by (simp add: bson_mut_child_def sizes_of_doc(1) [OF at(1)] it_deref_def elem_iter_def
        last_frame_def bson_type_defs)
  ultimately have "bindR (mut_end chain doc) (\<lambda>pos. mutator_insert_subdoc (serving junk) chain doc pos key as_array) =
      Inr (?child # chain, doc', ?it)"
    using mut_end_chain [OF assms(1-3)] by (simp add: mutator_insert_subdoc_def)
  moreover have "chain_at (last_frame es t k # fr) (?child # chain)" using assms(3) by simp
  moreover have "doc_data doc' = plug (last_frame es t k # fr) (doc_bytes [])"
    using d'(2) by (simp add: plug_last)
  ultimately show thesis using that d'(1) by blast
qed

lemma frames_ok_last: "frames_ok fr \<Longrightarrow> frames_ok (last_frame es t k # fr)"
  by (simp add: frames_ok_def last_frame_def)

end
