(* ===== verification/Bson_Make.thy ===== *)
theory Bson_Make
  imports Bson_Child Bson_Lookup Wire_Buffer
begin

text \<open>
  The builders of documents (\<^verbatim>\<open>include/bson/make.hpp\<close>). A value rule is a value of some C++ type, an
  array, a range or a document of rules, or an optional value; an element rule is a key with a value rule, or
  an optional one. The templates become constructors: a template with a specialisation for types that can be
  dereferenced has two. A value of a static type is \<open>Mk_val\<close>, and a \<^verbatim>\<open>bson_value_ref\<close>, which converts to
  \<^verbatim>\<open>bool\<close> in another way, is \<open>Mk_ref\<close>.

  \<^verbatim>\<open>append_to\<close> runs the mutators of \<open>Bson_Mut\<close>. The theorem shows that building a document gives the bytes
  of the list of keys and values that the rules denote, through any nesting.
\<close>

section \<open>Rules\<close>

datatype mk_value =
    Mk_val bson_value_ref
  | Mk_ref bson_value_ref
  | Mk_array "mk_value list"
  | Mk_range "mk_value list"
  | Mk_doc "mk_elem list"
  | Mk_optional mk_value
  | Mk_optional_of "mk_value option"
and mk_elem =
    Mk_pair bytes mk_value
  | Mk_optional_pair bytes mk_value
  | Mk_optional_pair_of bytes "mk_value option"
  | Mk_conditional "mk_elem option"

text \<open>
  The conversion to \<^verbatim>\<open>bool\<close>: of numbers, strings and views by their type, of a value reference by
  whether it has a value. Other types have none.
\<close>

fun truthy :: "mk_value \<Rightarrow> bool" where
  "truthy (Mk_val (V_int32 n)) \<longleftrightarrow> n \<noteq> 0"
| "truthy (Mk_val (V_int64 n)) \<longleftrightarrow> n \<noteq> 0"
| "truthy (Mk_val (V_bool b)) \<longleftrightarrow> b"
| "truthy (Mk_val (V_utf8 s)) \<longleftrightarrow> s \<noteq> None"
| "truthy (Mk_val (V_document d)) \<longleftrightarrow> d \<noteq> None"
| "truthy (Mk_val (V_array d)) \<longleftrightarrow> d \<noteq> None"
| "truthy (Mk_ref v) \<longleftrightarrow> v \<noteq> V_eod"
| "truthy _ \<longleftrightarrow> False"

section \<open>Sizes\<close>

fun value_byte_size :: "bson_value_ref \<Rightarrow> nat res" where
  "value_byte_size (V_binary t bs) = Inr (4 + 1 + length bs)"
| "value_byte_size (V_datetime t) = Inr 8"
| "value_byte_size (V_oid bs) = Inr 12"
| "value_byte_size (V_timestamp i t) = Inr 8"
| "value_byte_size (V_utf8 s) = Inr (sv_len s + 1 + 4)"
| "value_byte_size (V_symbol s) = Inr (sv_len s + 1 + 4)"
| "value_byte_size (V_code s) = Inr (sv_len s + 1 + 4)"
| "value_byte_size (V_dbpointer c oid) = Inr (sv_len c + 1 + 4 + 12)"
| "value_byte_size (V_decimal128 bs) = Inr 16"
| "value_byte_size (V_regex r opt) = Inr (sv_len r + 1 + sv_len opt + 1)"
| "value_byte_size (V_double d) = Inr 8"
| "value_byte_size (V_bool b) = Inr 1"
| "value_byte_size (V_int32 n) = Inr 4"
| "value_byte_size (V_int64 n) = Inr 8"
| "value_byte_size (V_document d) =
     (case d of None \<Rightarrow> bindR (bson_byte_size [] None) (\<lambda>n. Inr (unat n))
      | Some m \<Rightarrow> bindR (bson_byte_size m (Some 0)) (\<lambda>n. Inr (unat n)))"
| "value_byte_size (V_array d) =
     (case d of None \<Rightarrow> bindR (bson_byte_size [] None) (\<lambda>n. Inr (unat n))
      | Some m \<Rightarrow> bindR (bson_byte_size m (Some 0)) (\<lambda>n. Inr (unat n)))"
| "value_byte_size V_codewscope = Inl Abort_called"
| "value_byte_size _ = Inr 0"

text \<open>\<^verbatim>\<open>_ndigits\<close> and its loop.\<close>

function ndigits_loop :: "nat \<Rightarrow> nat \<Rightarrow> nat" where
  "ndigits_loop n ret = (if n > 0 then ndigits_loop (n div 10) (ret + 1) else ret)"
  by pat_completeness auto
termination by (relation "measure fst") auto

declare ndigits_loop.simps [simp del]

definition ndigits :: "nat \<Rightarrow> nat" where
  "ndigits n = (if n = 0 then 1 else ndigits_loop n 0)"

fun mk_value_size :: "mk_value \<Rightarrow> nat res"
  and mk_values_size :: "nat \<Rightarrow> mk_value list \<Rightarrow> nat res"
  and mk_elem_size :: "mk_elem \<Rightarrow> nat res"
  and mk_elems_size :: "mk_elem list \<Rightarrow> nat res" where
  "mk_value_size (Mk_val v) = value_byte_size v"
| "mk_value_size (Mk_ref v) = value_byte_size v"
| "mk_value_size (Mk_array vs) = mk_values_size 0 vs"
| "mk_value_size (Mk_range vs) = mk_values_size 0 vs"
| "mk_value_size (Mk_doc els) = mk_elems_size els"
| "mk_value_size (Mk_optional v) = (if truthy v then mk_value_size v else Inr 0)"
| "mk_value_size (Mk_optional_of opt) = (case opt of Some v \<Rightarrow> mk_value_size v | None \<Rightarrow> Inr 0)"
| "mk_values_size i [] = Inr 0"
| "mk_values_size i (v # vs) =
     bindR (mk_value_size v) (\<lambda>a. bindR (mk_values_size (Suc i) vs) (\<lambda>b. Inr (ndigits i + 1 + 1 + a + b)))"
| "mk_elem_size (Mk_pair key v) = bindR (mk_value_size v) (\<lambda>a. Inr (1 + length key + 1 + a))"
| "mk_elem_size (Mk_optional_pair key v) =
     (if truthy v then bindR (mk_value_size v) (\<lambda>a. Inr (1 + length key + 1 + a)) else Inr 0)"
| "mk_elem_size (Mk_optional_pair_of key opt) =
     (case opt of Some v \<Rightarrow> bindR (mk_value_size v) (\<lambda>a. Inr (1 + length key + 1 + a)) | None \<Rightarrow> Inr 0)"
| "mk_elem_size (Mk_conditional opt) = (case opt of Some e \<Rightarrow> mk_elem_size e | None \<Rightarrow> Inr 0)"
| "mk_elems_size [] = Inr 0"
| "mk_elems_size (e # es) = bindR (mk_elem_size e) (\<lambda>a. bindR (mk_elems_size es) (\<lambda>b. Inr (a + b)))"

section \<open>Appending\<close>

type_synonym mk_state = "mut_chain \<times> bson_doc"

text \<open>\<^verbatim>\<open>mutator::emplace_back\<close>.\<close>

definition emplace_back :: "reallocate_fn \<Rightarrow> bytes \<Rightarrow> bson_value_ref \<Rightarrow> mk_state \<Rightarrow> mk_state eres" where
  "emplace_back alloc key v = (\<lambda>(chain, doc).
     bindE (liftE (bindR (mut_end chain doc) (\<lambda>pos. mutator_emplace alloc chain doc pos (Some key) v)))
       (\<lambda>(chain, doc, r). case r of Inl _ \<Rightarrow> throwE Bad_alloc | Inr _ \<Rightarrow> okE (chain, doc)))"

text \<open>
  \<^verbatim>\<open>push_subdoc\<close> and \<^verbatim>\<open>push_array\<close>, and what is done with the new mutator; behind it the parent is as
  the child has left it.
\<close>

definition with_child ::
  "reallocate_fn \<Rightarrow> bool \<Rightarrow> bytes \<Rightarrow> (mk_state \<Rightarrow> mk_state eres) \<Rightarrow> mk_state \<Rightarrow> mk_state eres" where
  "with_child alloc as_array key body = (\<lambda>(chain, doc).
     bindE (liftE (bindR (mut_end chain doc) (\<lambda>pos.
       bindR (bson_insert_value alloc chain doc pos (Some key)
         (if as_array then V_array None else V_document None)) (\<lambda>(chain, doc, it).
       bindR (bson_mut_child chain doc it) (\<lambda>child. Inr (chain, child, doc)))))) (\<lambda>(chain, child, doc).
     bindE (body (child, doc)) (\<lambda>(child', doc). okE (if child = [] then chain else tl child', doc))))"

definition nth_key :: "nat \<Rightarrow> bytes res" where
  "nth_key i = bindR (bson_u32_string_create (word_of_nat i)) (\<lambda>buf. Inr (cstr buf))"

fun append_value :: "reallocate_fn \<Rightarrow> bytes \<Rightarrow> mk_value \<Rightarrow> mk_state \<Rightarrow> mk_state eres"
  and append_each :: "reallocate_fn \<Rightarrow> nat \<Rightarrow> mk_value list \<Rightarrow> mk_state \<Rightarrow> mk_state eres"
  and append_elem :: "reallocate_fn \<Rightarrow> mk_elem \<Rightarrow> mk_state \<Rightarrow> mk_state eres"
  and append_elems :: "reallocate_fn \<Rightarrow> mk_elem list \<Rightarrow> mk_state \<Rightarrow> mk_state eres" where
  "append_value alloc key (Mk_val v) s = emplace_back alloc key v s"
| "append_value alloc key (Mk_ref v) s = emplace_back alloc key v s"
| "append_value alloc key (Mk_array vs) s = with_child alloc True key (append_each alloc 0 vs) s"
| "append_value alloc key (Mk_range vs) s = with_child alloc True key (append_each alloc 0 vs) s"
| "append_value alloc key (Mk_doc els) s = with_child alloc False key (append_elems alloc els) s"
| "append_value alloc key (Mk_optional v) s = (if \<not> truthy v then okE s else append_value alloc key v s)"
| "append_value alloc key (Mk_optional_of opt) s =
     (case opt of None \<Rightarrow> okE s | Some v \<Rightarrow> append_value alloc key v s)"
| "append_each alloc i [] s = okE s"
| "append_each alloc i (v # vs) s =
     bindE (liftE (nth_key i)) (\<lambda>key.
     bindE (append_value alloc key v s) (\<lambda>s. append_each alloc (Suc i) vs s))"
| "append_elem alloc (Mk_pair key v) s = append_value alloc key v s"
| "append_elem alloc (Mk_optional_pair key v) s =
     (if \<not> truthy v then okE s else append_value alloc key v s)"
| "append_elem alloc (Mk_optional_pair_of key opt) s =
     (case opt of None \<Rightarrow> okE s | Some v \<Rightarrow> append_value alloc key v s)"
| "append_elem alloc (Mk_conditional opt) s = (case opt of None \<Rightarrow> okE s | Some e \<Rightarrow> append_elem alloc e s)"
| "append_elems alloc [] s = okE s"
| "append_elems alloc (e # es) s = bindE (append_elem alloc e s) (\<lambda>s. append_elems alloc es s)"

definition build :: "reallocate_fn \<Rightarrow> mk_elem list \<Rightarrow> bson_doc eres" where
  "build alloc els =
     bindE (liftE (mk_elems_size els)) (\<lambda>size.
     bindE (liftE (bson_new alloc (unat (word_of_nat size :: u32)))) (\<lambda>ret.
     bindE (append_elems alloc els (bson_mutate, ret)) (\<lambda>(_, ret). okE ret)))"

section \<open>What rules denote\<close>

fun value_kvs :: "bytes \<Rightarrow> mk_value \<Rightarrow> kv list"
  and values_kvs :: "nat \<Rightarrow> mk_value list \<Rightarrow> kv list"
  and elem_kvs :: "mk_elem \<Rightarrow> kv list"
  and elems_kvs :: "mk_elem list \<Rightarrow> kv list" where
  "value_kvs key (Mk_val v) = [(key, v)]"
| "value_kvs key (Mk_ref v) = [(key, v)]"
| "value_kvs key (Mk_array vs) = [(key, V_array (Some (kv_doc (values_kvs 0 vs))))]"
| "value_kvs key (Mk_range vs) = [(key, V_array (Some (kv_doc (values_kvs 0 vs))))]"
| "value_kvs key (Mk_doc els) = [(key, V_document (Some (kv_doc (elems_kvs els))))]"
| "value_kvs key (Mk_optional v) = (if truthy v then value_kvs key v else [])"
| "value_kvs key (Mk_optional_of opt) = (case opt of None \<Rightarrow> [] | Some v \<Rightarrow> value_kvs key v)"
| "values_kvs i [] = []"
| "values_kvs i (v # vs) = value_kvs (bson_write_uint i) v @ values_kvs (Suc i) vs"
| "elem_kvs (Mk_pair key v) = value_kvs key v"
| "elem_kvs (Mk_optional_pair key v) = (if truthy v then value_kvs key v else [])"
| "elem_kvs (Mk_optional_pair_of key opt) = (case opt of None \<Rightarrow> [] | Some v \<Rightarrow> value_kvs key v)"
| "elem_kvs (Mk_conditional opt) = (case opt of None \<Rightarrow> [] | Some e \<Rightarrow> elem_kvs e)"
| "elems_kvs [] = []"
| "elems_kvs (e # es) = elem_kvs e @ elems_kvs es"

text \<open>Rules whose values can be inserted and whose keys have no null byte.\<close>

fun value_rule_ok :: "mk_value \<Rightarrow> bool"
  and values_rule_ok :: "nat \<Rightarrow> mk_value list \<Rightarrow> bool"
  and elem_rule_ok :: "mk_elem \<Rightarrow> bool"
  and elems_rule_ok :: "mk_elem list \<Rightarrow> bool" where
  "value_rule_ok (Mk_val v) \<longleftrightarrow> insertable v"
| "value_rule_ok (Mk_ref v) \<longleftrightarrow> insertable v"
| "value_rule_ok (Mk_array vs) \<longleftrightarrow> values_rule_ok 0 vs"
| "value_rule_ok (Mk_range vs) \<longleftrightarrow> values_rule_ok 0 vs"
| "value_rule_ok (Mk_doc els) \<longleftrightarrow> elems_rule_ok els"
| "value_rule_ok (Mk_optional v) \<longleftrightarrow> (truthy v \<longrightarrow> value_rule_ok v)"
| "value_rule_ok (Mk_optional_of opt) \<longleftrightarrow> (case opt of None \<Rightarrow> True | Some v \<Rightarrow> value_rule_ok v)"
| "values_rule_ok i [] \<longleftrightarrow> True"
| "values_rule_ok i (v # vs) \<longleftrightarrow> i < 2 ^ 32 \<and> value_rule_ok v \<and> values_rule_ok (Suc i) vs"
| "elem_rule_ok (Mk_pair key v) \<longleftrightarrow> 0 \<notin> set key \<and> value_rule_ok v"
| "elem_rule_ok (Mk_optional_pair key v) \<longleftrightarrow> (truthy v \<longrightarrow> 0 \<notin> set key \<and> value_rule_ok v)"
| "elem_rule_ok (Mk_optional_pair_of key opt) \<longleftrightarrow>
     (case opt of None \<Rightarrow> True | Some v \<Rightarrow> 0 \<notin> set key \<and> value_rule_ok v)"
| "elem_rule_ok (Mk_conditional opt) \<longleftrightarrow> (case opt of None \<Rightarrow> True | Some e \<Rightarrow> elem_rule_ok e)"
| "elems_rule_ok [] \<longleftrightarrow> True"
| "elems_rule_ok (e # es) \<longleftrightarrow> elem_rule_ok e \<and> elems_rule_ok es"

section \<open>Appending what rules denote\<close>

text \<open>
  A builder appends \<open>kvs\<close> when, in the innermost of any nested documents, it adds these elements behind those
  that are there, with every length around them updated, provided that the whole still fits.
\<close>

definition appends :: "(mk_state \<Rightarrow> mk_state eres) \<Rightarrow> kv list \<Rightarrow> bool" where
  "appends f kvs \<longleftrightarrow> (\<forall>fr es chain doc.
     doc_inv doc \<longrightarrow> doc_data doc = plug fr (doc_bytes es) \<longrightarrow> chain_at fr chain \<longrightarrow> frames_ok fr \<longrightarrow>
     int (length (plug fr (doc_bytes (es @ map kv_elem kvs)))) + 512 \<le> INT32_MAX - 4 \<longrightarrow>
     (\<exists>doc'. f (chain, doc) = okE (chain, doc') \<and> doc_inv doc' \<and>
        doc_data doc' = plug fr (doc_bytes (es @ map kv_elem kvs))))"

named_theorems appends_intros \<open>builders and what they append\<close>

lemma appendsE:
  assumes "appends f kvs" "doc_inv doc" "doc_data doc = plug fr (doc_bytes es)" "chain_at fr chain" "frames_ok fr"
    and "int (length (plug fr (doc_bytes (es @ map kv_elem kvs)))) + 512 \<le> INT32_MAX - 4"
  obtains doc' where "f (chain, doc) = okE (chain, doc')" "doc_inv doc'"
    "doc_data doc' = plug fr (doc_bytes (es @ map kv_elem kvs))"
  using assms unfolding appends_def by blast

lemma appends_none [appends_intros]: "appends okE []"
  by (simp add: appends_def)

lemma plug_grows:
  "length (plug fr (doc_bytes (es @ xs))) = length (plug fr (doc_bytes es)) + length (elems_bytes xs)"
  using length_plug [of fr "doc_bytes (es @ xs)" "doc_bytes es"] by simp

lemma appends_seq [appends_intros]:
  assumes "appends f a" "appends g b"
  shows "appends (\<lambda>s. bindE (f s) g) (a @ b)"
  unfolding appends_def
proof (intro allI impI)
  fix fr es chain doc
  assume d: "doc_inv doc" "doc_data doc = plug fr (doc_bytes es)" "chain_at fr chain" "frames_ok fr"
    and size: "int (length (plug fr (doc_bytes (es @ map kv_elem (a @ b))))) + 512 \<le> INT32_MAX - 4"
  have "int (length (plug fr (doc_bytes (es @ map kv_elem a)))) + 512 \<le> INT32_MAX - 4"
    using size plug_grows [of fr "es @ map kv_elem a" "map kv_elem b"] by simp
  with assms(1) d obtain d1 where 1: "f (chain, doc) = okE (chain, d1)" "doc_inv d1"
    "doc_data d1 = plug fr (doc_bytes (es @ map kv_elem a))" by (rule appendsE)
  from assms(2) 1(2,3) d(3,4) obtain d2 where "g (chain, d1) = okE (chain, d2)" "doc_inv d2"
    "doc_data d2 = plug fr (doc_bytes ((es @ map kv_elem a) @ map kv_elem b))"
    by (rule appendsE) (use size in simp_all)
  with 1(1) show "\<exists>doc'. bindE (f (chain, doc)) g = okE (chain, doc') \<and> doc_inv doc' \<and>
      doc_data doc' = plug fr (doc_bytes (es @ map kv_elem (a @ b)))" by simp
qed

lemma chop_clean: "0 \<notin> set key \<Longrightarrow> view_bytes (mlib_str_view_chopnulls (Some key)) = key"
  by (simp add: view_bytes_def cstr_id_iff)

lemma appends_emplace [appends_intros]:
  assumes "insertable v" "0 \<notin> set key"
  shows "appends (emplace_back (serving junk) key v) [(key, v)]"
  unfolding appends_def
proof (intro allI impI)
  fix fr es chain doc
  assume d: "doc_inv doc" "doc_data doc = plug fr (doc_bytes es)" "chain_at fr chain" "frames_ok fr"
    and size: "int (length (plug fr (doc_bytes (es @ map kv_elem [(key, v)])))) + 512 \<le> INT32_MAX - 4"
  have "int (length (doc_data doc) + length key + length (value_bytes v)) + 2 + 512 \<le> INT32_MAX - 4"
    using size plug_grows [of fr es "map kv_elem [(key, v)]"] by (simp add: d(2) kv_elem_def)
  from emplace_back_chain [OF d assms(1) chop_clean [OF assms(2), symmetric] this, of junk]
  obtain doc' it where "doc_inv doc'" "doc_data doc' = plug fr (doc_bytes (es @ [(value_type v, key, value_bytes v)]))"
    "bindR (mut_end chain doc) (\<lambda>pos. mutator_emplace (serving junk) chain doc pos (Some key) v) =
      Inr (chain, doc', Inr it)" .
  then show "\<exists>doc'. emplace_back (serving junk) key v (chain, doc) = okE (chain, doc') \<and> doc_inv doc' \<and>
      doc_data doc' = plug fr (doc_bytes (es @ map kv_elem [(key, v)]))"
    by (auto simp: emplace_back_def kv_elem_def)
qed

lemma with_child_push:
  assumes "bindR (mut_end chain doc) (\<lambda>pos. mutator_insert_subdoc alloc chain doc pos (Some key) as_array) =
      Inr (child # chain, doc', it)"
  shows "with_child alloc as_array key body (chain, doc) =
    bindE (body (child # chain, doc')) (\<lambda>(child', doc). okE (tl child', doc))"
proof -
  have "\<exists>pos chain1 d1. mut_end chain doc = Inr pos \<and>
      bson_insert_value alloc chain doc pos (Some key) (if as_array then V_array None else V_document None) =
        Inr (chain1, d1, it) \<and> bson_mut_child chain1 d1 it = Inr (child # chain) \<and> d1 = doc'"
    using assms by (auto simp: mutator_insert_subdoc_def res_simps)
  then show ?thesis by (auto simp: with_child_def)
qed

lemma appends_child [appends_intros]:
  assumes "appends body kvs" "0 \<notin> set key"
  shows "appends (with_child (serving junk) as_array key body)
    [(key, if as_array then V_array (Some (kv_doc kvs)) else V_document (Some (kv_doc kvs)))]"
  unfolding appends_def
proof (intro allI impI)
  fix fr es chain doc
  let ?v = "if as_array then V_array (Some (kv_doc kvs)) else V_document (Some (kv_doc kvs))"
  let ?t = "if as_array then bson_type_array else bson_type_document"
  assume d: "doc_inv doc" "doc_data doc = plug fr (doc_bytes es)" "chain_at fr chain" "frames_ok fr"
    and size: "int (length (plug fr (doc_bytes (es @ map kv_elem [(key, ?v)])))) + 512 \<le> INT32_MAX - 4"
  have e: "kv_elem (key, ?v) = (?t, key, doc_bytes (map kv_elem kvs))"
    by (simp add: kv_elem_def kv_doc_def)
  have "int (length (doc_data doc) + length key) + 7 + 512 \<le> INT32_MAX - 4"
    using size plug_grows [of fr es "[(?t, key, doc_bytes (map kv_elem kvs))]"] by (simp add: d(2) e)
  from push_chain [OF d chop_clean [OF assms(2), symmetric] this refl, where junk = junk and as_array = as_array]
  obtain child d1 it where p: "doc_inv d1" "chain_at (last_frame es ?t key # fr) (child # chain)"
    "doc_data d1 = plug (last_frame es ?t key # fr) (doc_bytes [])"
    "bindR (mut_end chain doc) (\<lambda>pos. mutator_insert_subdoc (serving junk) chain doc pos (Some key) as_array) =
      Inr (child # chain, d1, it)" .
  from assms(1) p(1,3,2) frames_ok_last [OF d(4)] obtain d2 where b: "body (child # chain, d1) = okE (child # chain, d2)"
    "doc_inv d2" "doc_data d2 = plug (last_frame es ?t key # fr) (doc_bytes ([] @ map kv_elem kvs))"
    by (rule appendsE) (use size in \<open>simp add: e plug_last\<close>)
  with with_child_push [OF p(4), of body] show "\<exists>doc'. with_child (serving junk) as_array key body (chain, doc) =
      okE (chain, doc') \<and> doc_inv doc' \<and> doc_data doc' = plug fr (doc_bytes (es @ map kv_elem [(key, ?v)]))"
    by (simp add: e plug_last)
qed

lemma nth_key_digits:
  assumes "i < 2 ^ 32"
  shows "nth_key i = Inr (bson_write_uint i)" "0 \<notin> set (bson_write_uint i)"
proof -
  have u: "unat (word_of_nat i :: u32) = i" using assms by (simp add: unat_of_nat)
  show z: "0 \<notin> set (bson_write_uint i)"
    using bson_write_uint_digits [of i] by (auto simp: list_all_iff is_digit_def)
  have l: "length (bson_write_uint i) \<le> 10" using bson_write_uint_length [of i 9] assms by simp
  have "bson_u32_string_create (word_of_nat i) = Inr (bson_write_uint i @ 0 # replicate (10 - length (bson_write_uint i)) 0)"
    using l by (simp add: bson_u32_string_create_def u wr_n_in Suc_diff_le flip: replicate_Suc)
  then show "nth_key i = Inr (bson_write_uint i)" using z by (simp add: nth_key_def cstr_append)
qed

lemma append_rules:
  "value_rule_ok v \<Longrightarrow> 0 \<notin> set key \<Longrightarrow> appends (append_value (serving junk) key v) (value_kvs key v)"
  "values_rule_ok i vs \<Longrightarrow> appends (append_each (serving junk) i vs) (values_kvs i vs)"
  "elem_rule_ok e \<Longrightarrow> appends (append_elem (serving junk) e) (elem_kvs e)"
  "elems_rule_ok es \<Longrightarrow> appends (append_elems (serving junk) es) (elems_kvs es)"
proof (induction key v and i vs and e and es rule: value_kvs_values_kvs_elem_kvs_elems_kvs.induct)
  case (1 key v)
  then show ?case using appends_emplace [of v key junk] by (simp add: appends_def)
next
  case (2 key v)
  then show ?case using appends_emplace [of v key junk] by (simp add: appends_def)
next
  case (3 key vs)
  then have "appends (append_each (serving junk) 0 vs) (values_kvs 0 vs)" by simp
  from appends_child [OF this, of key junk True] 3 show ?case by (simp add: appends_def)
next
  case (4 key vs)
  then have "appends (append_each (serving junk) 0 vs) (values_kvs 0 vs)" by simp
  from appends_child [OF this, of key junk True] 4 show ?case by (simp add: appends_def)
next
  case (5 key els)
  then have "appends (append_elems (serving junk) els) (elems_kvs els)" by simp
  from appends_child [OF this, of key junk False] 5 show ?case by (simp add: appends_def)
next
  case (9 i v vs)
  then have i: "i < 2 ^ 32" by simp
  with 9 nth_key_digits(2) [OF i] have "appends (\<lambda>s. bindE (append_value (serving junk) (bson_write_uint i) v s)
      (append_each (serving junk) (Suc i) vs)) (value_kvs (bson_write_uint i) v @ values_kvs (Suc i) vs)"
    by (intro appends_seq) simp_all
  with nth_key_digits(1) [OF i] show ?case by (simp add: appends_def)
next
  case (15 e es)
  then have "appends (\<lambda>s. bindE (append_elem (serving junk) e s) (append_elems (serving junk) es))
      (elem_kvs e @ elems_kvs es)"
    by (intro appends_seq) simp_all
  then show ?case by (simp add: appends_def)
qed (auto simp: appends_def split: option.splits)

text \<open>Building a document.\<close>

lemma build_rules:
  assumes "elems_rule_ok els" "mk_elems_size els = Inr r" "int r \<le> INT32_MAX - 4"
    and "int (length (kv_doc (elems_kvs els))) + 512 \<le> INT32_MAX - 4"
  shows "\<exists>d. build (serving junk) els = okE d \<and> doc_inv d \<and> doc_data d = kv_doc (elems_kvs els)"
proof -
  have r: "unat (word_of_nat r :: u32) = r" using assms(3) by (simp add: unat_of_nat)
  obtain d where d: "bson_new (serving junk) r = Inr d" "doc_inv d" "doc_data d = doc_bytes []"
  proof (cases "5 < r")
    case True
    obtain d1 q where q: "bson_doc_reserve (serving junk) empty_doc r = Inr (d1, q)"
      "q < 0 \<Longrightarrow> INT32_MAX - 4 < int r \<or> serving junk None (r + 4) 1 0 = Inr None"
      by (rule default_alloc.reserve_total [OF doc_inv_empty(1), of "\<lambda>_. True" junk r]) (simp add: empty_doc_def)
    have "serving junk None (r + 4) 1 0 \<noteq> Inr None"
      by (simp add: default_reallocate_def c_realloc_def c_malloc_def)
    with q(2) assms(3) have "0 \<le> q" by fastforce
    then show thesis
      by (rule default_alloc.new_spec [OF True q(1)]) (use that in \<open>simp add: doc_bytes_def u32le_def\<close>)
  next
    case False
    with that [of empty_doc] doc_inv_empty show thesis by (simp add: bson_new_def doc_bytes_def u32le_def)
  qed
  have "frames_ok []" "chain_at [] bson_mutate" "doc_data d = plug [] (doc_bytes [])"
    using d(3) by (simp_all add: frames_ok_def)
  with append_rules(4) [OF assms(1), of junk] d(2) obtain d' where
    "append_elems (serving junk) els (bson_mutate, d) = okE (bson_mutate, d')" "doc_inv d'"
    "doc_data d' = plug [] (doc_bytes ([] @ map kv_elem (elems_kvs els)))"
    by (metis (no_types, lifting) appendsE append_Nil assms(4) kv_doc_def plug.simps(1))
  with d(1) assms(2) show ?thesis by (simp add: build_def r kv_doc_def)
qed

section \<open>Properties\<close>


definition example_rules :: "mk_elem list" where
  "example_rules =
     [Mk_pair [97] (Mk_val (V_int32 1)), Mk_optional_pair [98] (Mk_val (V_int32 0)),
      Mk_pair [99] (Mk_array [Mk_doc [Mk_pair [100] (Mk_val V_null)], Mk_optional_of None, Mk_val (V_bool True)])]"

lemma example_rules_kvs:
  "elems_kvs example_rules = [([97], V_int32 1), ([99], V_array (Some (kv_doc
     [([48], V_document (Some (kv_doc [([100], V_null)]))), ([50], V_bool True)])))]"
proof -
  have d: "bson_write_uint 0 = [48]" "bson_write_uint (Suc (Suc 0)) = [50]" by (subst bson_write_uint.simps; simp)+
  show ?thesis by (simp add: example_rules_def d)
qed


text \<open>The size of a value is the length of its encoding.\<close>

lemma value_byte_size_encoding:
  assumes "insertable v" "value_ok v"
  shows "value_byte_size v = Inr (length (value_bytes v))"
proof -
  have sub: "bindR (bson_byte_size m (Some 0)) (\<lambda>n. Inr (unat n)) = Inr (length m)" if "subdoc_ok m" for m
  proof -
    have d: "doc_at m 0" "doc_len m 0 = int (length m)" using that by (simp_all add: subdoc_ok_def)
    obtain u where u: "bson_read_u32le m 0 = Inr u" "to_i32 u = doc_len m 0" using doc_at_read [OF d(1)] by blast
    with d(2) have "unat u = length m" using unat_of_to_i32 [of u "length m"] by simp
    with u show ?thesis by (simp add: bson_byte_size_def)
  qed
  show ?thesis
    using assms by (cases v) (auto simp: insertable_def string_bytes_def sub split: option.splits)
qed

definition plain_rule :: "mk_elem \<Rightarrow> bool" where
  "plain_rule e \<longleftrightarrow> (case e of Mk_pair key (Mk_val v) \<Rightarrow> value_ok v | _ \<Rightarrow> False)"

text \<open>
  The room that a document of plain values reserves for itself is five bytes less than the document
  takes: it lacks the header and the terminator.
\<close>

theorem build_reserves_too_little:
  assumes "elems_rule_ok els" "list_all plain_rule els"
  shows "\<exists>r. mk_elems_size els = Inr r \<and> length (kv_doc (elems_kvs els)) = r + 5"
  using assms
proof (induction els)
  case (Cons e els)
  then obtain key v where e: "e = Mk_pair key (Mk_val v)" "value_ok v" by (auto simp: plain_rule_def split: mk_elem.splits mk_value.splits)
  with Cons.prems have "value_byte_size v = Inr (length (value_bytes v))" by (simp add: value_byte_size_encoding)
  with Cons e show ?case by (auto simp: kv_doc_def kv_elem_def)
qed (simp add: kv_doc_def)

theorem build_reserves_too_little_witness:
  "mk_elems_size [Mk_pair [97] (Mk_val (V_int32 1))] = Inr 7 \<and>
   length (kv_doc (elems_kvs [Mk_pair [97] (Mk_val (V_int32 1))])) = 12"
  using build_reserves_too_little [of "[Mk_pair [97] (Mk_val (V_int32 1))]"]
  by (simp add: insertable_def plain_rule_def)

end
