(* ===== verification/Amongoc_Commands.thy ===== *)
theory Amongoc_Commands
  imports Amongoc_Writes Bson_Make
begin

text \<open>
  The operations on collections and databases (\<^verbatim>\<open>src/amongoc/collection.cpp\<close>, \<^verbatim>\<open>collection.hpp\<close>,
  \<^verbatim>\<open>database.cpp\<close>): the commands that they build from their arguments with the rules of \<open>Bson_Make\<close>, the
  request, and what they make of the reply. The parameters of an operation are a record, as in
  \<^verbatim>\<open>include/amongoc/collection.h\<close>; \<open>None\<close> is the null pointer, which stands for zero-initialised
  parameters. An operation takes the client's request function (\<open>Wire_Client\<close>) and its state.
\<close>

section \<open>Building commands\<close>

abbreviation str_val :: "bytes \<Rightarrow> mk_value" where "str_val s \<equiv> Mk_val (V_utf8 (Some s))"
abbreviation view_val :: "doc_view \<Rightarrow> mk_value" where "view_val v \<equiv> Mk_val (V_document v)"
abbreviation int_val :: "u32 \<Rightarrow> mk_value" where "int_val n \<equiv> Mk_val (V_int32 n)"
abbreviation int64_val :: "u64 \<Rightarrow> mk_value" where "int64_val n \<equiv> Mk_val (V_int64 n)"
abbreviation bool_val :: "bool \<Rightarrow> mk_value" where "bool_val b \<equiv> Mk_val (V_bool b)"

definition pair :: "string \<Rightarrow> mk_value \<Rightarrow> mk_elem" where
  "pair key v = Mk_pair (ascii key) v"

definition optional_pair :: "string \<Rightarrow> mk_value \<Rightarrow> mk_elem" where
  "optional_pair key v = Mk_optional_pair (ascii key) v"

definition views_range :: "doc_view list \<Rightarrow> mk_value" where
  "views_range vs = Mk_range (map view_val vs)"

definition make_command :: "amongoc_collection \<Rightarrow> string \<Rightarrow> mk_elem list \<Rightarrow> mk_elem list" where
  "make_command c name elements =
     [pair name (str_val (collection_name c)), pair ''$db'' (str_val (database_name c))] @ elements"

text \<open>\<^verbatim>\<open>mlib_milliseconds_count\<close> of a number of microseconds; the division truncates.\<close>

definition mlib_milliseconds_count :: "int \<Rightarrow> u64" where
  "mlib_milliseconds_count us = word_of_int (if us < 0 then - ((- us) div 1000) else us div 1000)"

section \<open>Parameters\<close>

record amongoc_aggregate_params =
  ag_allow_disk_use :: bool
  ag_batch_size :: u32
  ag_bypass_document_validation :: bool
  ag_collation :: doc_view
  ag_max_time :: int
  ag_comment :: bson_value_ref
  ag_hint :: bson_value_ref
  ag_let :: doc_view

definition default_aggregate_params :: amongoc_aggregate_params where
  "default_aggregate_params =
     \<lparr>ag_allow_disk_use = False, ag_batch_size = 0, ag_bypass_document_validation = False, ag_collation = None,
      ag_max_time = 0, ag_comment = V_eod, ag_hint = V_eod, ag_let = None\<rparr>"

record amongoc_count_params =
  ct_collation :: doc_view
  ct_hint :: bson_value_ref
  ct_limit :: u64
  ct_max_time :: int
  ct_skip :: u64
  ct_comment :: bson_value_ref

definition default_count_params :: amongoc_count_params where
  "default_count_params =
     \<lparr>ct_collation = None, ct_hint = V_eod, ct_limit = 0, ct_max_time = 0, ct_skip = 0, ct_comment = V_eod\<rparr>"

record amongoc_delete_params =
  dl_collation :: doc_view
  dl_hint :: bson_value_ref
  dl_let :: doc_view
  dl_comment :: bson_value_ref

definition default_delete_params :: amongoc_delete_params where
  "default_delete_params = \<lparr>dl_collation = None, dl_hint = V_eod, dl_let = None, dl_comment = V_eod\<rparr>"

record amongoc_distinct_params =
  ds_collation :: doc_view
  ds_comment :: bson_value_ref

definition default_distinct_params :: amongoc_distinct_params where
  "default_distinct_params = \<lparr>ds_collation = None, ds_comment = V_eod\<rparr>"

record amongoc_insert_params =
  in_bypass_document_validation :: bool
  in_ordered :: bool
  in_comment :: bson_value_ref

definition default_insert_params :: amongoc_insert_params where
  "default_insert_params = \<lparr>in_bypass_document_validation = False, in_ordered = False, in_comment = V_eod\<rparr>"

datatype amongoc_cursor_type = Not_tailable | Tailable | Tailable_await

record amongoc_find_params =
  fd_allow_disk_use :: bool
  fd_allow_partial_results :: bool
  fd_batch_size :: u32
  fd_collation :: doc_view
  fd_comment :: bson_value_ref
  fd_hint :: bson_value_ref
  fd_cursor_type :: amongoc_cursor_type
  fd_let :: doc_view
  fd_limit :: u32
  fd_max :: doc_view
  fd_max_time :: int
  fd_min :: doc_view
  fd_no_cursor_timeout :: bool
  fd_oplog_replay :: bool
  fd_projection :: doc_view
  fd_return_key :: bool
  fd_show_record_id :: bool
  fd_skip :: u64
  fd_sort :: doc_view

definition default_find_params :: amongoc_find_params where
  "default_find_params =
     \<lparr>fd_allow_disk_use = False, fd_allow_partial_results = False, fd_batch_size = 0, fd_collation = None,
      fd_comment = V_eod, fd_hint = V_eod, fd_cursor_type = Not_tailable, fd_let = None, fd_limit = 0,
      fd_max = None, fd_max_time = 0, fd_min = None, fd_no_cursor_timeout = False, fd_oplog_replay = False,
      fd_projection = None, fd_return_key = False, fd_show_record_id = False, fd_skip = 0, fd_sort = None\<rparr>"

record amongoc_find_plus_params =
  fp_bypass_document_validation :: bool
  fp_collation :: doc_view
  fp_comment :: bson_value_ref
  fp_hint :: bson_value_ref
  fp_let :: doc_view
  fp_projection :: doc_view
  fp_return_after :: bool
  fp_sort :: doc_view
  fp_upsert :: bool

record amongoc_update_params =
  up_array_filters :: "doc_view list option"
  up_bypass_document_validation :: bool
  up_collation :: doc_view
  up_hint :: bson_value_ref
  up_upsert :: bool
  up_let :: doc_view
  up_comment :: bson_value_ref

definition default_update_params :: amongoc_update_params where
  "default_update_params =
     \<lparr>up_array_filters = None, up_bypass_document_validation = False, up_collation = None, up_hint = V_eod,
      up_upsert = False, up_let = None, up_comment = V_eod\<rparr>"

record amongoc_replace_params =
  rp_bypass_document_validation :: bool
  rp_collation :: doc_view
  rp_hint :: bson_value_ref
  rp_upsert :: bool
  rp_let :: doc_view
  rp_comment :: bson_value_ref

definition default_replace_params :: amongoc_replace_params where
  "default_replace_params =
     \<lparr>rp_bypass_document_validation = False, rp_collation = None, rp_hint = V_eod, rp_upsert = False,
      rp_let = None, rp_comment = V_eod\<rparr>"

definition or_default :: "'p \<Rightarrow> 'p option \<Rightarrow> 'p" where
  "or_default dflt params = (case params of None \<Rightarrow> dflt | Some p \<Rightarrow> p)"

section \<open>Commands\<close>

definition drop_command :: "amongoc_collection \<Rightarrow> bson_value_ref \<Rightarrow> mk_elem list" where
  "drop_command c comment = make_command c ''drop'' [optional_pair ''comment'' (Mk_ref comment)]"

definition aggregate_tail :: "doc_view list \<Rightarrow> amongoc_aggregate_params \<Rightarrow> mk_elem list" where
  "aggregate_tail pipeline params =
     [pair ''pipeline'' (views_range pipeline),
      optional_pair ''allowDiskUse'' (bool_val (ag_allow_disk_use params)),
      optional_pair ''bypassDocumentValidation'' (bool_val (ag_bypass_document_validation params)),
      pair ''cursor'' (Mk_doc [optional_pair ''batchSize'' (int_val (ag_batch_size params))]),
      optional_pair ''collation'' (view_val (ag_collation params)),
      optional_pair ''comment'' (Mk_ref (ag_comment params)),
      optional_pair ''hint'' (Mk_ref (ag_hint params)),
      optional_pair ''let'' (view_val (ag_let params))]"

definition aggregate_command :: "amongoc_collection \<Rightarrow> doc_view list \<Rightarrow> amongoc_aggregate_params \<Rightarrow> mk_elem list" where
  "aggregate_command c pipeline params = make_command c ''aggregate'' (aggregate_tail pipeline params)"

definition database_aggregate_command :: "bytes \<Rightarrow> doc_view list \<Rightarrow> amongoc_aggregate_params \<Rightarrow> mk_elem list" where
  "database_aggregate_command db pipeline params =
     [pair ''aggregate'' (int_val 1), pair ''$db'' (str_val db)] @ aggregate_tail pipeline params"

definition count_command :: "amongoc_collection \<Rightarrow> doc_view \<Rightarrow> amongoc_count_params \<Rightarrow> mk_elem list" where
  "count_command c filt params =
     make_command c ''aggregate''
       [pair ''pipeline'' (Mk_array
          [Mk_doc [pair ''$match'' (view_val filt)],
           Mk_optional_of (if ct_skip params \<noteq> 0
             then Some (Mk_doc [pair ''$skip'' (int64_val (ct_skip params))]) else None),
           Mk_optional_of (if ct_limit params \<noteq> 0
             then Some (Mk_doc [pair ''$limit'' (int64_val (ct_limit params))]) else None),
           Mk_doc [pair ''$group'' (Mk_doc
             [pair ''_id'' (int_val 1), pair ''n'' (Mk_doc [pair ''$sum'' (int_val 1)])])]]),
        pair ''cursor'' (Mk_doc []),
        optional_pair ''maxTimeMS'' (int64_val (mlib_milliseconds_count (ct_max_time params))),
        optional_pair ''hint'' (Mk_ref (ct_hint params)),
        optional_pair ''collation'' (view_val (ct_collation params)),
        optional_pair ''comment'' (Mk_ref (ct_comment params))]"

definition delete_command ::
  "amongoc_collection \<Rightarrow> doc_view \<Rightarrow> bool \<Rightarrow> amongoc_delete_params \<Rightarrow> mk_elem list" where
  "delete_command c filt delete_only_one params =
     make_command c ''delete''
       [pair ''deletes'' (Mk_array
          [Mk_doc [pair ''q'' (view_val filt),
                   pair ''limit'' (int_val (if delete_only_one then 1 else 0)),
                   optional_pair ''collation'' (view_val (dl_collation params)),
                   optional_pair ''hint'' (Mk_ref (dl_hint params))]]),
        optional_pair ''comment'' (Mk_ref (dl_comment params)),
        optional_pair ''let'' (view_val (dl_let params))]"

definition distinct_command ::
  "amongoc_collection \<Rightarrow> bytes \<Rightarrow> doc_view \<Rightarrow> amongoc_distinct_params \<Rightarrow> mk_elem list" where
  "distinct_command c field_name filt params =
     make_command c ''distinct''
       [pair ''key'' (str_val field_name),
        optional_pair ''query'' (view_val filt),
        optional_pair ''collation'' (view_val (ds_collation params)),
        optional_pair ''comment'' (Mk_ref (ds_comment params))]"

definition estimate_command :: "amongoc_collection \<Rightarrow> amongoc_count_params \<Rightarrow> mk_elem list" where
  "estimate_command c params =
     make_command c ''count''
       [optional_pair ''maxTimeMS'' (int64_val (mlib_milliseconds_count (ct_max_time params))),
        optional_pair ''comment'' (Mk_ref (ct_comment params))]"

definition find_command :: "amongoc_collection \<Rightarrow> doc_view \<Rightarrow> amongoc_find_params \<Rightarrow> mk_elem list" where
  "find_command c filt params =
     make_command c ''find''
       [pair ''filter'' (view_val filt),
        optional_pair ''sort'' (view_val (fd_sort params)),
        optional_pair ''projection'' (view_val (fd_projection params)),
        optional_pair ''hint'' (Mk_ref (fd_hint params)),
        optional_pair ''skip'' (int64_val (fd_skip params)),
        optional_pair ''limit'' (int_val (fd_limit params)),
        optional_pair ''batchSize'' (int_val (fd_batch_size params)),
        pair ''singleBatch'' (bool_val (sint (fd_limit params) < 0)),
        optional_pair ''comment'' (Mk_ref (fd_comment params)),
        optional_pair ''maxTimeMS'' (int64_val (mlib_milliseconds_count (fd_max_time params))),
        optional_pair ''max'' (view_val (fd_max params)),
        optional_pair ''min'' (view_val (fd_min params)),
        pair ''returnKey'' (bool_val (fd_return_key params)),
        pair ''oplogReplay'' (bool_val (fd_oplog_replay params)),
        pair ''showRecordId'' (bool_val (fd_show_record_id params)),
        pair ''tailable'' (bool_val (fd_cursor_type params \<noteq> Not_tailable)),
        pair ''noCursorTimeout'' (bool_val (fd_no_cursor_timeout params)),
        pair ''awaitData'' (bool_val (fd_cursor_type params = Tailable_await)),
        pair ''allowPartialResults'' (bool_val (fd_allow_partial_results params)),
        optional_pair ''collation'' (view_val (fd_collation params)),
        pair ''allowDiskUse'' (bool_val (fd_allow_disk_use params)),
        optional_pair ''let'' (view_val (fd_let params))]"

definition get_more_command :: "amongoc_cursor \<Rightarrow> mk_elem list" where
  "get_more_command curs =
     [pair ''getMore'' (int64_val (word_of_int (cursor_id curs))),
      pair ''$db'' (str_val (database_name (coll curs))),
      pair ''collection'' (str_val (collection_name (coll curs))),
      optional_pair ''batchSize'' (int_val (word_of_int (batch_size curs)))]"

definition insert_command ::
  "amongoc_collection \<Rightarrow> doc_view list \<Rightarrow> amongoc_insert_params \<Rightarrow> mk_elem list" where
  "insert_command c documents params =
     make_command c ''insert''
       [pair ''documents'' (views_range documents),
        pair ''ordered'' (bool_val (in_ordered params)),
        pair ''bypassDocumentValidation'' (bool_val (in_bypass_document_validation params))]"

text \<open>
  The argument \<^verbatim>\<open>updates\<close> points to one document when the length of the pipeline is zero, and otherwise
  to the pipeline. \<open>single_view\<close> and \<open>views_span\<close> are the two ways to read it.
\<close>

definition single_view :: "doc_view list \<Rightarrow> doc_view res" where
  "single_view updates = (case updates of [] \<Rightarrow> Inl Out_of_bounds | u # _ \<Rightarrow> Inr u)"

definition views_span :: "doc_view list \<Rightarrow> nat \<Rightarrow> mk_value res" where
  "views_span updates n = (if n \<le> length updates then Inr (views_range (take n updates)) else Inl Out_of_bounds)"

definition update_rules :: "string \<Rightarrow> doc_view list option \<Rightarrow> nat \<Rightarrow> mk_elem list res" where
  "update_rules key updates pipeline_len =
     bindR (case updates of
              Some us \<Rightarrow> if pipeline_len = 0 then single_view us else Inr None
            | None \<Rightarrow> Inr None) (\<lambda>u.
     bindR (if pipeline_len > 0
            then bindR (views_span (case updates of None \<Rightarrow> [] | Some us \<Rightarrow> us) pipeline_len) (\<lambda>r. Inr (Some r))
            else Inr None) (\<lambda>pipe.
     Inr [optional_pair key (view_val u), Mk_optional_pair_of (ascii key) pipe]))"

definition update_command ::
  "amongoc_collection \<Rightarrow> doc_view \<Rightarrow> doc_view list \<Rightarrow> nat \<Rightarrow> bool \<Rightarrow> amongoc_update_params \<Rightarrow>
   mk_elem list res" where
  "update_command c filt updates pipeline_len is_multi params =
     bindR (update_rules ''u'' (Some updates) pipeline_len) (\<lambda>us.
     Inr (make_command c ''update''
       [pair ''updates'' (Mk_array [Mk_doc
          ([pair ''q'' (view_val filt)] @ us @
           [pair ''upsert'' (bool_val (up_upsert params)),
            pair ''multi'' (bool_val is_multi),
            Mk_optional_pair_of (ascii ''arrayFilters'') (map_option views_range (up_array_filters params)),
            optional_pair ''collation'' (view_val (up_collation params)),
            optional_pair ''hint'' (Mk_ref (up_hint params))])]),
        optional_pair ''let'' (view_val (up_let params)),
        optional_pair ''comment'' (Mk_ref (up_comment params)),
        optional_pair ''bypassDocumentValidation'' (bool_val (up_bypass_document_validation params))]))"

text \<open>
  The parameters of \<^verbatim>\<open>amongoc_find_and_modify\<close> have no default: the null pointer is dereferenced.
\<close>

definition find_and_modify_command ::
  "amongoc_collection \<Rightarrow> doc_view \<Rightarrow> bool \<Rightarrow> doc_view list option \<Rightarrow> nat \<Rightarrow> amongoc_find_plus_params option \<Rightarrow>
   mk_elem list res" where
  "find_and_modify_command c filt remove updates pipeline_len params =
     (case params of
        None \<Rightarrow> Inl Out_of_bounds
      | Some params \<Rightarrow>
     bindR (update_rules ''update'' updates pipeline_len) (\<lambda>us.
     Inr (make_command c ''findAndModify''
       ([pair ''query'' (view_val filt),
         optional_pair ''remove'' (bool_val remove),
         optional_pair ''upsert'' (bool_val (fp_upsert params)),
         pair ''new'' (bool_val (fp_return_after params))] @ us @
        [optional_pair ''collation'' (view_val (fp_collation params)),
         optional_pair ''comment'' (Mk_ref (fp_comment params)),
         optional_pair ''let'' (view_val (fp_let params)),
         optional_pair ''bypassDocumentValidation'' (bool_val (fp_bypass_document_validation params))]))))"

section \<open>Operations\<close>

type_synonym 'c request_fn = "'c \<Rightarrow> wire_message \<Rightarrow> any_message eres \<times> 'c"

text \<open>
  Build a command, send it through the checking client, and read the reply.
\<close>

definition run_command ::
  "reallocate_fn \<Rightarrow> 'c request_fn \<Rightarrow> mk_elem list \<Rightarrow> (doc_view \<Rightarrow> 'a eres) \<Rightarrow> 'c \<Rightarrow> 'a eres \<times> 'c" where
  "run_command alloc request command finish cl =
     bindS (build alloc command, cl) (\<lambda>cmd cl.
     bindS (simple_request (checking_request request) cl (doc_data cmd)) (\<lambda>resp cl.
     (finish (Some (doc_data resp)), cl)))"

definition amongoc_collection_drop ::
  "reallocate_fn \<Rightarrow> 'c request_fn \<Rightarrow> amongoc_collection \<Rightarrow> bson_value_ref option \<Rightarrow> 'c \<Rightarrow> unit eres \<times> 'c" where
  "amongoc_collection_drop alloc request c params =
     run_command alloc request (drop_command c (or_default V_eod params)) (\<lambda>_. okE ())"

definition amongoc_collection_aggregate ::
  "reallocate_fn \<Rightarrow> 'c request_fn \<Rightarrow> amongoc_collection \<Rightarrow> doc_view list \<Rightarrow> amongoc_aggregate_params option \<Rightarrow>
   'c \<Rightarrow> amongoc_cursor eres \<times> 'c" where
  "amongoc_collection_aggregate alloc request c pipeline params =
     (let params = or_default default_aggregate_params params in
      run_command alloc request (aggregate_command c pipeline params)
        (parse_cursor alloc c (sint (ag_batch_size params))))"

definition amongoc_database_aggregate ::
  "reallocate_fn \<Rightarrow> 'c request_fn \<Rightarrow> bytes \<Rightarrow> doc_view list \<Rightarrow> amongoc_aggregate_params option \<Rightarrow>
   'c \<Rightarrow> bson_doc eres \<times> 'c" where
  "amongoc_database_aggregate alloc request db pipeline params =
     (let params = or_default default_aggregate_params params in
      run_command alloc request (database_aggregate_command db pipeline params) (parse_database_batch alloc))"

definition amongoc_count_documents ::
  "reallocate_fn \<Rightarrow> 'c request_fn \<Rightarrow> amongoc_collection \<Rightarrow> doc_view \<Rightarrow> amongoc_count_params option \<Rightarrow>
   'c \<Rightarrow> int eres \<times> 'c" where
  "amongoc_count_documents alloc request c filt params =
     run_command alloc request (count_command c filt (or_default default_count_params params)) parse_count"

definition amongoc_delete_ex ::
  "reallocate_fn \<Rightarrow> 'c request_fn \<Rightarrow> amongoc_collection \<Rightarrow> doc_view \<Rightarrow> bool \<Rightarrow> amongoc_delete_params option \<Rightarrow>
   'c \<Rightarrow> int eres \<times> 'c" where
  "amongoc_delete_ex alloc request c filt delete_only_one params =
     run_command alloc request
       (delete_command c filt delete_only_one (or_default default_delete_params params)) parse_deleted"

text \<open>\<^verbatim>\<open>amongoc_distinct\<close>, up to the copies of the values.\<close>

definition amongoc_distinct ::
  "reallocate_fn \<Rightarrow> 'c request_fn \<Rightarrow> amongoc_collection \<Rightarrow> bytes \<Rightarrow> doc_view \<Rightarrow> amongoc_distinct_params option \<Rightarrow>
   'c \<Rightarrow> doc_view eres \<times> 'c" where
  "amongoc_distinct alloc request c field_name filt params =
     run_command alloc request
       (distinct_command c field_name filt (or_default default_distinct_params params)) parse_distinct"

definition amongoc_estimated_document_count ::
  "reallocate_fn \<Rightarrow> 'c request_fn \<Rightarrow> amongoc_collection \<Rightarrow> amongoc_count_params option \<Rightarrow> int \<Rightarrow>
   'c \<Rightarrow> int eres \<times> 'c" where
  "amongoc_estimated_document_count alloc request c params junk =
     run_command alloc request (estimate_command c (or_default default_count_params params)) (parse_estimate junk)"

definition amongoc_find ::
  "reallocate_fn \<Rightarrow> 'c request_fn \<Rightarrow> amongoc_collection \<Rightarrow> doc_view \<Rightarrow> amongoc_find_params option \<Rightarrow>
   'c \<Rightarrow> amongoc_cursor eres \<times> 'c" where
  "amongoc_find alloc request c filt params =
     (let params = or_default default_find_params params in
      run_command alloc request (find_command c filt params) (parse_cursor alloc c (sint (fd_batch_size params))))"

definition amongoc_cursor_next ::
  "reallocate_fn \<Rightarrow> 'c request_fn \<Rightarrow> amongoc_cursor \<Rightarrow> 'c \<Rightarrow> amongoc_cursor eres \<times> 'c" where
  "amongoc_cursor_next alloc request curs =
     run_command alloc request (get_more_command curs) (parse_cursor alloc (coll curs) (batch_size curs))"

definition amongoc_insert_ex ::
  "reallocate_fn \<Rightarrow> (nat \<Rightarrow> bool) \<Rightarrow> 'c request_fn \<Rightarrow> amongoc_collection \<Rightarrow> doc_view list \<Rightarrow>
   amongoc_insert_params option \<Rightarrow> 'c \<Rightarrow> (amongoc_crud_errc \<times> amongoc_write_result) eres \<times> 'c" where
  "amongoc_insert_ex alloc grow request c documents params =
     run_command alloc request (insert_command c documents (or_default default_insert_params params))
       (finish_insert alloc grow)"

definition amongoc_update_ex ::
  "reallocate_fn \<Rightarrow> (nat \<Rightarrow> bool) \<Rightarrow> 'c request_fn \<Rightarrow> amongoc_collection \<Rightarrow> doc_view \<Rightarrow> doc_view list \<Rightarrow>
   nat \<Rightarrow> bool \<Rightarrow> amongoc_update_params option \<Rightarrow> 'c \<Rightarrow> (amongoc_crud_errc \<times> amongoc_write_result) eres \<times> 'c" where
  "amongoc_update_ex alloc grow request c filt updates pipeline_len is_multi params cl =
     bindS (liftE (update_command c filt updates pipeline_len is_multi (or_default default_update_params params)), cl)
       (\<lambda>command. run_command alloc request command (finish_update alloc grow))"

definition amongoc_update_one_with_pipeline ::
  "reallocate_fn \<Rightarrow> (nat \<Rightarrow> bool) \<Rightarrow> 'c request_fn \<Rightarrow> amongoc_collection \<Rightarrow> doc_view \<Rightarrow> doc_view list \<Rightarrow>
   nat \<Rightarrow> amongoc_update_params option \<Rightarrow> 'c \<Rightarrow> (amongoc_crud_errc \<times> amongoc_write_result) eres \<times> 'c" where
  "amongoc_update_one_with_pipeline alloc grow request c filt pipe pipeline_len params =
     amongoc_update_ex alloc grow request c filt pipe pipeline_len False params"

definition amongoc_update_many_with_pipeline ::
  "reallocate_fn \<Rightarrow> (nat \<Rightarrow> bool) \<Rightarrow> 'c request_fn \<Rightarrow> amongoc_collection \<Rightarrow> doc_view \<Rightarrow> doc_view list \<Rightarrow>
   nat \<Rightarrow> amongoc_update_params option \<Rightarrow> 'c \<Rightarrow> (amongoc_crud_errc \<times> amongoc_write_result) eres \<times> 'c" where
  "amongoc_update_many_with_pipeline alloc grow request c filt pipe pipeline_len params =
     amongoc_update_ex alloc grow request c filt pipe pipeline_len True params"

text \<open>
  The operations with a check of the document first; \<open>Inl\<close> is the emitter with the status
  \<^verbatim>\<open>amongoc_client_errc_invalid_update_document\<close>.
\<close>

definition guarded ::
  "update_check eres \<Rightarrow> ('c \<Rightarrow> 'a eres \<times> 'c) \<Rightarrow> 'c \<Rightarrow> (unit + 'a) eres \<times> 'c" where
  "guarded check oper cl =
     bindS (check, cl) (\<lambda>r cl.
     case r of Invalid_update_document \<Rightarrow> (okE (Inl ()), cl)
     | Send \<Rightarrow> bindS (oper cl) (\<lambda>x cl. (okE (Inr x), cl)))"

definition amongoc_replace_one ::
  "reallocate_fn \<Rightarrow> (nat \<Rightarrow> bool) \<Rightarrow> 'c request_fn \<Rightarrow> amongoc_collection \<Rightarrow> doc_view \<Rightarrow> doc_view \<Rightarrow>
   amongoc_replace_params option \<Rightarrow> 'c \<Rightarrow> (unit + amongoc_crud_errc \<times> amongoc_write_result) eres \<times> 'c" where
  "amongoc_replace_one alloc grow request c filt replacement params =
     (let p = or_default default_replace_params params;
          update = default_update_params
            \<lparr>up_bypass_document_validation := rp_bypass_document_validation p, up_collation := rp_collation p,
             up_comment := rp_comment p, up_hint := rp_hint p, up_upsert := rp_upsert p, up_let := rp_let p\<rparr>
      in guarded (check_replacement replacement)
           (amongoc_update_ex alloc grow request c filt [replacement] 0 False (Some update)))"

definition amongoc_update_many ::
  "reallocate_fn \<Rightarrow> (nat \<Rightarrow> bool) \<Rightarrow> 'c request_fn \<Rightarrow> amongoc_collection \<Rightarrow> doc_view \<Rightarrow> doc_view \<Rightarrow>
   amongoc_update_params option \<Rightarrow> 'c \<Rightarrow> (unit + amongoc_crud_errc \<times> amongoc_write_result) eres \<times> 'c" where
  "amongoc_update_many alloc grow request c filt updates params =
     guarded (check_update updates) (amongoc_update_ex alloc grow request c filt [updates] 0 True params)"

definition amongoc_update_one ::
  "reallocate_fn \<Rightarrow> (nat \<Rightarrow> bool) \<Rightarrow> 'c request_fn \<Rightarrow> amongoc_collection \<Rightarrow> doc_view \<Rightarrow> doc_view \<Rightarrow>
   amongoc_update_params option \<Rightarrow> 'c \<Rightarrow> (unit + amongoc_crud_errc \<times> amongoc_write_result) eres \<times> 'c" where
  "amongoc_update_one alloc grow request c filt updates params =
     guarded (check_update updates) (amongoc_update_ex alloc grow request c filt [updates] 0 False params)"

definition amongoc_find_and_modify ::
  "reallocate_fn \<Rightarrow> 'c request_fn \<Rightarrow> amongoc_collection \<Rightarrow> doc_view \<Rightarrow> bool \<Rightarrow>
   doc_view list option \<Rightarrow> nat \<Rightarrow> amongoc_find_plus_params option \<Rightarrow> 'c \<Rightarrow> bson_doc option eres \<times> 'c" where
  "amongoc_find_and_modify alloc request c filt remove updates pipeline_len params cl =
     bindS (liftE (find_and_modify_command c filt remove updates pipeline_len params), cl)
       (\<lambda>command. run_command alloc request command (parse_find_and_modify alloc))"

section \<open>The outcome of a command\<close>

text \<open>Rules that can be built: the size that is reserved and the document are below the limit.\<close>

definition rules_fit :: "mk_elem list \<Rightarrow> bool" where
  "rules_fit els \<longleftrightarrow> elems_rule_ok els \<and>
     (case mk_elems_size els of Inl _ \<Rightarrow> False | Inr r \<Rightarrow> int r \<le> INT32_MAX - 4) \<and>
     int (length (kv_doc (elems_kvs els))) + 512 \<le> INT32_MAX - 4"

text \<open>
  \<open>answers request cl cmd reply cl'\<close>: from the state \<open>cl\<close>, the message with the body of the fields \<open>cmd\<close> gets a
  message with one body section, the fields \<open>reply\<close>, and leads to \<open>cl'\<close>.
\<close>

definition answers :: "'c request_fn \<Rightarrow> 'c \<Rightarrow> kv list \<Rightarrow> kv list \<Rightarrow> 'c \<Rightarrow> bool" where
  "answers request cl cmd reply cl' \<longleftrightarrow>
     (\<exists>msg d. request cl (op_msg_opcode, op_msg_buffers_array [kv_doc cmd]) = (okE msg, cl') \<and>
        am_content msg = Op_msg [Body_section d] \<and> doc_inv d \<and> doc_data d = kv_doc reply) \<and> kvs_ok reply"

text \<open>What the check of a reply makes of its fields.\<close>

definition reply_check :: "kv list \<Rightarrow> unit eres" where
  "reply_check kvs =
     (case map_of kvs (ascii ''ok'') of
        None \<Rightarrow> okE ()
      | Some v \<Rightarrow> bindE (liftE (bson_value_as_bool v)) (\<lambda>b. if b then okE () else bindE (liftE (reply_error kvs)) throwE))"

lemma run_command_outcome:
  assumes "rules_fit els" "answers request cl (elems_kvs els) reply cl'"
  shows "run_command (serving junk) request els finish cl =
    (bindE (reply_check reply) (\<lambda>_. finish (Some (kv_doc reply))), cl')"
proof -
  obtain r where "mk_elems_size els = Inr r" "int r \<le> INT32_MAX - 4"
    using assms(1) by (auto simp: rules_fit_def split: sum.splits)
  with assms(1) obtain cmd where cmd: "build (serving junk) els = okE cmd" "doc_data cmd = kv_doc (elems_kvs els)"
    using build_rules [of els r junk] by (auto simp: rules_fit_def)
  from assms(2) obtain msg d where m: "request cl (op_msg_opcode, op_msg_buffers_array [kv_doc (elems_kvs els)]) = (okE msg, cl')"
    "am_content msg = Op_msg [Body_section d]" "doc_inv d" "doc_data d = kv_doc reply" "kvs_ok reply"
    by (auto simp: answers_def)
  have "throw_if_section_error (Body_section d) = reply_check reply"
    using section_check_fields [OF m(3,4)] m(5) by (simp add: reply_check_def kvs_ok_def list_all_iff)
  with cmd m show ?thesis
    by (cases "reply_check reply" rule: eres_cases)
      (simp_all add: run_command_def simple_request_def checking_request_def throw_if_message_error_def
        expect_one_body_section_op_msg_def)
qed

section \<open>The fields of commands\<close>

text \<open>Optional fields: a view that is not null, a value that there is, a number that is not zero, a flag that is set.\<close>

definition view_field :: "string \<Rightarrow> doc_view \<Rightarrow> kv list" where
  "view_field key v = (if v = None then [] else [(ascii key, V_document v)])"

definition ref_field :: "string \<Rightarrow> bson_value_ref \<Rightarrow> kv list" where
  "ref_field key v = (if v = V_eod then [] else [(ascii key, v)])"

definition int_field :: "string \<Rightarrow> u32 \<Rightarrow> kv list" where
  "int_field key n = (if n = 0 then [] else [(ascii key, V_int32 n)])"

definition flag_field :: "string \<Rightarrow> bool \<Rightarrow> kv list" where
  "flag_field key b = (if b then [(ascii key, V_bool True)] else [])"

lemma field_rules_kvs [simp]:
  "elem_kvs (pair key r) = value_kvs (ascii key) r"
  "elem_kvs (optional_pair key (view_val d)) = view_field key d"
  "elem_kvs (optional_pair key (Mk_ref v)) = ref_field key v"
  "elem_kvs (optional_pair key (int_val n)) = int_field key n"
  "elem_kvs (optional_pair key (bool_val b)) = flag_field key b"
  by (simp_all add: pair_def optional_pair_def view_field_def ref_field_def int_field_def flag_field_def)

lemma elems_kvs_append [simp]: "elems_kvs (xs @ ys) = elems_kvs xs @ elems_kvs ys"
  by (induction xs) simp_all

text \<open>The array of the documents of a pipeline: their positions are its keys.\<close>

definition views_array :: "doc_view list \<Rightarrow> bson_value_ref" where
  "views_array vs = V_array (Some (kv_doc (map (\<lambda>(i, v). (bson_write_uint i, V_document v)) (enumerate 0 vs))))"

lemma values_kvs_views: "values_kvs i (map view_val vs) = map (\<lambda>(i, v). (bson_write_uint i, V_document v)) (enumerate i vs)"
  by (induction vs arbitrary: i) simp_all

lemma views_range_kvs [simp]: "value_kvs key (views_range vs) = [(key, views_array vs)]"
  by (simp add: views_range_def views_array_def values_kvs_views)

definition collection_fields :: "string \<Rightarrow> amongoc_collection \<Rightarrow> kv list" where
  "collection_fields name c =
     [(ascii name, V_utf8 (Some (collection_name c))), (ascii ''$db'', V_utf8 (Some (database_name c)))]"

lemma make_command_kvs [simp]: "elems_kvs (make_command c name els) = collection_fields name c @ elems_kvs els"
  by (simp add: make_command_def collection_fields_def)

definition one_document :: "kv list \<Rightarrow> bson_value_ref" where
  "one_document kvs = V_array (Some (kv_doc [(ascii ''0'', V_document (Some (kv_doc kvs)))]))"

lemma one_document_array [simp]:
  "V_array (Some (kv_doc [(bson_write_uint 0, V_document (Some (kv_doc kvs)))])) = one_document kvs"
proof -
  have "bson_write_uint 0 = ascii ''0''" by (subst bson_write_uint.simps) (simp add: ascii_def)
  then show ?thesis by (simp add: one_document_def)
qed

definition delete_fields :: "amongoc_collection \<Rightarrow> doc_view \<Rightarrow> bool \<Rightarrow> amongoc_delete_params \<Rightarrow> kv list" where
  "delete_fields c filt one p =
     collection_fields ''delete'' c @
     [(ascii ''deletes'', one_document
        ([(ascii ''q'', V_document filt), (ascii ''limit'', V_int32 (if one then 1 else 0))] @
         view_field ''collation'' (dl_collation p) @ ref_field ''hint'' (dl_hint p)))] @
     ref_field ''comment'' (dl_comment p) @ view_field ''let'' (dl_let p)"

lemma delete_command_kvs: "elems_kvs (delete_command c filt one p) = delete_fields c filt one p"
  by (simp add: delete_command_def delete_fields_def)

definition update_fields ::
  "amongoc_collection \<Rightarrow> doc_view \<Rightarrow> bson_value_ref \<Rightarrow> bool \<Rightarrow> amongoc_update_params \<Rightarrow> kv list" where
  "update_fields c filt u multi p =
     collection_fields ''update'' c @
     [(ascii ''updates'', one_document
        ([(ascii ''q'', V_document filt), (ascii ''u'', u),
          (ascii ''upsert'', V_bool (up_upsert p)), (ascii ''multi'', V_bool multi)] @
         (case up_array_filters p of None \<Rightarrow> [] | Some fs \<Rightarrow> [(ascii ''arrayFilters'', views_array fs)]) @
         view_field ''collation'' (up_collation p) @ ref_field ''hint'' (up_hint p)))] @
     view_field ''let'' (up_let p) @ ref_field ''comment'' (up_comment p) @
     flag_field ''bypassDocumentValidation'' (up_bypass_document_validation p)"

lemma update_command_kvs:
  assumes "if n = 0 then \<exists>bs rest. updates = Some bs # rest \<and> u = V_document (Some bs)
    else n \<le> length updates \<and> u = views_array (take n updates)"
  shows "\<exists>els. update_command c filt updates n multi p = Inr els \<and> elems_kvs els = update_fields c filt u multi p"
  using assms
  by (auto simp: update_command_def update_rules_def single_view_def views_span_def update_fields_def view_field_def
      split: if_splits option.splits)

definition find_fields :: "amongoc_collection \<Rightarrow> doc_view \<Rightarrow> kv list" where
  "find_fields c filt =
     collection_fields ''find'' c @ [(ascii ''filter'', V_document filt)] @
     map (\<lambda>key. (ascii key, V_bool False))
       [''singleBatch'', ''returnKey'', ''oplogReplay'', ''showRecordId'', ''tailable'', ''noCursorTimeout'',
        ''awaitData'', ''allowPartialResults'', ''allowDiskUse'']"

lemma find_command_kvs: "elems_kvs (find_command c filt default_find_params) = find_fields c filt"
  by (simp add: find_command_def find_fields_def default_find_params_def optional_pair_def mlib_milliseconds_count_def)

lemma default_batch_size: "fd_batch_size default_find_params = 0"
  by (simp add: default_find_params_def)

definition get_more_fields :: "amongoc_cursor \<Rightarrow> kv list" where
  "get_more_fields curs =
     [(ascii ''getMore'', V_int64 (word_of_int (cursor_id curs))),
      (ascii ''$db'', V_utf8 (Some (database_name (coll curs)))),
      (ascii ''collection'', V_utf8 (Some (collection_name (coll curs))))] @
     int_field ''batchSize'' (word_of_int (batch_size curs))"

lemma get_more_kvs: "elems_kvs (get_more_command curs) = get_more_fields curs"
  by (simp add: get_more_command_def get_more_fields_def)

text \<open>An accepted reply with a cursor.\<close>

definition cursor_reply :: "kv list \<Rightarrow> int \<Rightarrow> bytes \<Rightarrow> bool" where
  "cursor_reply reply n batch \<longleftrightarrow>
     distinct (map fst reply) \<and> reply_check reply = okE () \<and>
     (\<exists>ckvs. map_of reply (ascii ''cursor'') = Some (V_document (Some (kv_doc ckvs))) \<and> kvs_ok ckvs \<and>
        distinct (map (\<lambda>kv. batch_key (fst kv)) ckvs) \<and>
        cursor_batch ckvs = Some (Some batch) \<and> cursor_number ckvs = Some n)"

lemma run_cursor_command:
  assumes "rules_fit els" "answers request cl (elems_kvs els) reply cl'" "cursor_reply reply n batch"
  shows "\<exists>d. run_command (serving junk) request els (parse_cursor (serving junk) c bsz) cl =
      (okE \<lparr>cursor_id = n, coll = c, records = d, batch_size = bsz\<rparr>, cl') \<and> doc_inv d \<and> doc_data d = batch"
proof -
  from assms(3) obtain ckvs where c: "distinct (map fst reply)" "reply_check reply = okE ()"
    "map_of reply (ascii ''cursor'') = Some (V_document (Some (kv_doc ckvs)))" "kvs_ok ckvs"
    "distinct (map (\<lambda>kv. batch_key (fst kv)) ckvs)" "cursor_batch ckvs = Some (Some batch)" "cursor_number ckvs = Some n"
    by (auto simp: cursor_reply_def)
  have "kvs_ok reply" using assms(2) by (simp add: answers_def)
  from parse_cursor_fields [OF this c(1,3,4,5), of "\<lambda>_. True" junk c bsz] c(6,7)
  obtain d where "parse_cursor (serving junk) c bsz (Some (kv_doc reply)) =
      okE \<lparr>cursor_id = n, coll = c, records = d, batch_size = bsz\<rparr>" "doc_inv d" "doc_data d = batch" by auto
  with run_command_outcome [OF assms(1,2), of junk "parse_cursor (serving junk) c bsz"] c(2) show ?thesis by auto
qed

section \<open>An example server\<close>

text \<open>A server that answers every request with the example reply and counts the requests.\<close>

definition example_request :: "nat request_fn" where
  "example_request n msg =
     (okE \<lparr>am_req_id = 0, am_resp_to = 0, am_content = Op_msg [Body_section (received_doc (kv_doc example_reply))]\<rparr>, Suc n)"

definition example_collection :: amongoc_collection where
  "example_collection = \<lparr>database_name = [100], collection_name = [99]\<rparr>"

lemma example_answers: "answers example_request n cmd example_reply (Suc n)"
proof -
  have len: "5 < length (kv_doc example_reply) \<and> length (kv_doc example_reply) < 100" by code_simp
  have "sendable (\<lambda>_. True) (kv_doc example_reply)"
    using kv_doc_doc_at [of "kv_doc example_reply" "[]" example_reply "[]" 0] len example_ok(2)
    by (simp add: sendable_def subdoc_ok_def)
  then show ?thesis
    using received_doc_inv [of "\<lambda>_. True" "kv_doc example_reply"] example_ok(2)
    by (simp add: answers_def example_request_def)
qed

lemma example_reply_check: "reply_check example_reply = okE ()"
  by (simp add: reply_check_def example_reply_def ascii_eq)

lemma example_cursor_reply: "cursor_reply example_reply 7 [5, 0, 0, 0, 0]"
  using example_reply_check example_keys example_fields(1) example_ok(1) example_batch
  by (auto simp: cursor_reply_def)

lemma empty_subdoc:
  "subdoc_ok [5, 0, 0, 0, 0]" "value_byte_size (V_document (Some [5, 0, 0, 0, 0])) = Inr 5" "length (bson_write_uint 0) = 1"
  by code_simp+

lemmas example_rules_fit = empty_subdoc(1,3) empty_subdoc(2) [unfolded value_byte_size.simps option.case]
  string_ok_def string_bytes_def
  rules_fit_def example_collection_def insertable_def pair_def optional_pair_def ascii_def
  kv_doc_def kv_elem_def make_command_def ndigits_def ndigits_loop.simps

lemma example_find_fits: "rules_fit (find_command example_collection (Some [5, 0, 0, 0, 0]) default_find_params)"
  by (simp add: find_command_def default_find_params_def mlib_milliseconds_count_def example_rules_fit)

lemma example_more_fits:
  "rules_fit (get_more_command \<lparr>cursor_id = 7, coll = example_collection, records = received_doc [5, 0, 0, 0, 0], batch_size = 0\<rparr>)"
  by (simp add: get_more_command_def example_rules_fit)

lemma example_delete_fits: "rules_fit (delete_command example_collection (Some [5, 0, 0, 0, 0]) True default_delete_params)"
  by (simp add: delete_command_def default_delete_params_def example_rules_fit)

section \<open>Properties\<close>

text \<open>
  C13: finding and advancing a cursor, from the arguments to the bytes on the wire and back. With default
  parameters \<^verbatim>\<open>amongoc_find\<close> sends one message whose body is the \<^verbatim>\<open>find\<close> command of the filter and returns a
  cursor with the number and the batch of the reply; \<^verbatim>\<open>amongoc_cursor_next\<close> on it sends \<^verbatim>\<open>getMore\<close> with
  this number, for the same collection, and returns the cursor of that reply.
\<close>

theorem find_then_next:
  assumes "rules_fit (find_command c filt default_find_params)" "cursor_reply reply n batch"
    and "answers request cl (find_fields c filt) reply cl1"
    and "rules_fit (get_more_command \<lparr>cursor_id = n, coll = c, records = received_doc batch, batch_size = 0\<rparr>)"
    and "answers request cl1
      [(ascii ''getMore'', V_int64 (word_of_int n)), (ascii ''$db'', V_utf8 (Some (database_name c))),
       (ascii ''collection'', V_utf8 (Some (collection_name c)))] reply' cl2"
    and "cursor_reply reply' n' batch'"
  shows "\<exists>curs curs'. amongoc_find (serving junk) request c filt None cl = (okE curs, cl1) \<and>
    doc_data (records curs) = batch \<and> amongoc_cursor_next (serving junk) request curs cl1 = (okE curs', cl2) \<and>
    coll curs' = c \<and> cursor_id curs' = n' \<and> doc_inv (records curs') \<and> doc_data (records curs') = batch'"
proof -
  obtain d where d: "amongoc_find (serving junk) request c filt None cl =
      (okE \<lparr>cursor_id = n, coll = c, records = d, batch_size = 0\<rparr>, cl1)" "doc_data d = batch"
    using run_cursor_command [OF assms(1) _ assms(2), of request cl cl1 junk c 0] assms(3)
    by (auto simp: find_command_kvs amongoc_find_def or_default_def default_batch_size)
  let ?curs = "\<lparr>cursor_id = n, coll = c, records = d, batch_size = 0\<rparr>"
  have "get_more_command ?curs = get_more_command \<lparr>cursor_id = n, coll = c, records = received_doc batch, batch_size = 0\<rparr>"
    by (simp add: get_more_command_def)
  with assms(4) have "rules_fit (get_more_command ?curs)" by simp
  moreover have "answers request cl1 (elems_kvs (get_more_command ?curs)) reply' cl2"
    using assms(5) by (simp add: get_more_kvs get_more_fields_def int_field_def)
  ultimately obtain d' where "amongoc_cursor_next (serving junk) request ?curs cl1 =
      (okE \<lparr>cursor_id = n', coll = c, records = d', batch_size = 0\<rparr>, cl2)" "doc_inv d'" "doc_data d' = batch'"
    using run_cursor_command [OF _ _ assms(6), of "get_more_command ?curs" request cl1 cl2 junk c 0]
    by (auto simp: amongoc_cursor_next_def)
  with d show ?thesis by auto
qed

theorem find_then_next_witness:
  "\<exists>curs curs'. amongoc_find (serving (\<lambda>_. 7)) example_request example_collection (Some [5, 0, 0, 0, 0]) None 0 =
      (okE curs, 1) \<and> doc_data (records curs) = [5, 0, 0, 0, 0] \<and>
    amongoc_cursor_next (serving (\<lambda>_. 7)) example_request curs 1 = (okE curs', 2) \<and> cursor_id curs' = 7"
  using find_then_next [OF example_find_fits example_cursor_reply example_answers [of 0] example_more_fits
      example_answers [of "Suc 0"] example_cursor_reply, of "\<lambda>_. 7"]
  unfolding One_nat_def numeral_2_eq_2 by blast

text \<open>
  C14: deleting, from the arguments to the bytes on the wire and back. The body of the one message that is
  sent is the \<^verbatim>\<open>delete\<close> command with the filter, the limit 1 or 0 and the options that are given; the result is
  the server error of the reply, or the number in its field \<^verbatim>\<open>n\<close>, or a protocol error if there is none.
\<close>

theorem delete_outcome:
  assumes "rules_fit (delete_command c filt one (or_default default_delete_params params))"
    and "answers request cl (delete_fields c filt one (or_default default_delete_params params)) reply cl'"
    and "distinct (map fst reply)"
  shows "\<exists>msg. amongoc_delete_ex (serving junk) request c filt one params cl =
    (bindE (reply_check reply) (\<lambda>_. case reply_int reply ''n'' of
       Some n \<Rightarrow> okE n | None \<Rightarrow> throwE (Protocol_error msg)), cl')"
proof -
  have "kvs_ok reply" using assms(2) by (simp add: answers_def)
  from parse_n [OF this assms(3), of "-1"] obtain msg where "parse_deleted (Some (kv_doc reply)) =
      (case reply_int reply ''n'' of Some n \<Rightarrow> okE n | None \<Rightarrow> throwE (Protocol_error msg))"
    by (auto simp: parse_deleted_def)
  then show ?thesis
    using run_command_outcome [OF assms(1), of request cl reply cl' junk parse_deleted] assms(2)
    by (auto simp: amongoc_delete_ex_def delete_command_kvs)
qed

theorem delete_outcome_witness:
  "amongoc_delete_ex (serving (\<lambda>_. 7)) example_request example_collection (Some [5, 0, 0, 0, 0]) True None 0 = (okE 3, 1)"
  using delete_outcome [of example_collection "Some [5, 0, 0, 0, 0]" True None, OF _ example_answers [of 0] example_keys(2),
      of "\<lambda>_. 7"] example_delete_fits
  by (simp add: or_default_def example_reply_check example_fields)

text \<open>
  The \<^verbatim>\<open>update\<close> command has one field \<^verbatim>\<open>u\<close>, with the document if there is no pipeline and with the array of
  the stages, numbered from zero, if there is; the other fields are those of the arguments, and an optional one is
  left out if it is not given. A pipeline longer than the array it is taken from is read out of bounds.
\<close>

theorem update_command_fields:
  "(n = 0 \<longrightarrow> updates = [Some bs] \<longrightarrow> (\<exists>els. update_command c filt updates n multi p = Inr els \<and>
     elems_kvs els = update_fields c filt (V_document (Some bs)) multi p)) \<and>
   (0 < n \<longrightarrow> n \<le> length updates \<longrightarrow> (\<exists>els. update_command c filt updates n multi p = Inr els \<and>
     elems_kvs els = update_fields c filt (views_array (take n updates)) multi p)) \<and>
   (length updates < max 1 n \<longrightarrow> update_command c filt updates n multi p = Inl Out_of_bounds)"
proof (intro conjI impI)
  assume "n = 0" "updates = [Some bs]"
  then show "\<exists>els. update_command c filt updates n multi p = Inr els \<and>
      elems_kvs els = update_fields c filt (V_document (Some bs)) multi p"
    by (intro update_command_kvs) simp
next
  assume "0 < n" "n \<le> length updates"
  then show "\<exists>els. update_command c filt updates n multi p = Inr els \<and>
      elems_kvs els = update_fields c filt (views_array (take n updates)) multi p"
    by (intro update_command_kvs) simp
next
  assume "length updates < max 1 n"
  then show "update_command c filt updates n multi p = Inl Out_of_bounds"
    by (auto simp: update_command_def update_rules_def single_view_def views_span_def split: list.splits)
qed

theorem update_command_fields_witness:
  "(\<exists>els. update_command example_collection None [Some [5, 0, 0, 0, 0]] 0 False default_update_params = Inr els \<and>
     elems_kvs els = update_fields example_collection None (V_document (Some [5, 0, 0, 0, 0])) False default_update_params) \<and>
   (\<exists>els. update_command example_collection None [Some [5, 0, 0, 0, 0]] 1 True default_update_params = Inr els \<and>
     elems_kvs els = update_fields example_collection None (views_array [Some [5, 0, 0, 0, 0]]) True default_update_params) \<and>
   update_command example_collection None [] 1 True default_update_params = Inl Out_of_bounds"
  using update_command_fields [of 0 "[Some [5, 0, 0, 0, 0]]" "[5, 0, 0, 0, 0]" example_collection None False default_update_params]
    update_command_fields [of 1 "[Some [5, 0, 0, 0, 0]]" "[]" example_collection None True default_update_params]
    update_command_fields [of 1 "[]" "[]" example_collection None True default_update_params]
  by simp

text \<open>
  An update document whose first key does not start with a dollar sign is refused by \<^verbatim>\<open>amongoc_update_one\<close> and
  \<^verbatim>\<open>amongoc_update_many\<close>, and one whose first key does by \<^verbatim>\<open>amongoc_replace_one\<close>, with the status for an invalid
  update document and without a request; any other is sent by \<^verbatim>\<open>amongoc_update_ex\<close>, for one document or for many.
\<close>

theorem invalid_updates_refused:
  assumes "kvs_ok us" "starts = (\<exists>k v rest. us = (k, v) # rest \<and> take 1 k = ascii ''$'')"
  shows "(if starts
    then amongoc_update_one alloc grow request c filt (Some (kv_doc us)) params cl =
        bindS (amongoc_update_ex alloc grow request c filt [Some (kv_doc us)] 0 False params cl) (\<lambda>x cl. (okE (Inr x), cl)) \<and>
      amongoc_update_many alloc grow request c filt (Some (kv_doc us)) params cl =
        bindS (amongoc_update_ex alloc grow request c filt [Some (kv_doc us)] 0 True params cl) (\<lambda>x cl. (okE (Inr x), cl)) \<and>
      amongoc_replace_one alloc grow request c filt (Some (kv_doc us)) rparams cl = (okE (Inl ()), cl)
    else amongoc_update_one alloc grow request c filt (Some (kv_doc us)) params cl = (okE (Inl ()), cl) \<and>
      amongoc_update_many alloc grow request c filt (Some (kv_doc us)) params cl = (okE (Inl ()), cl) \<and>
      amongoc_replace_one alloc grow request c filt (Some (kv_doc us)) None cl =
        bindS (amongoc_update_ex alloc grow request c filt [Some (kv_doc us)] 0 False None cl) (\<lambda>x cl. (okE (Inr x), cl)))"
  using update_documents_checked [OF assms(1)] assms(2)
  by (auto simp: amongoc_update_one_def amongoc_update_many_def amongoc_replace_one_def guarded_def Let_def
      or_default_def default_replace_params_def default_update_params_def amongoc_update_ex_def)

theorem invalid_updates_refused_witness:
  "amongoc_replace_one (serving (\<lambda>_. 7)) (\<lambda>_. True) example_request example_collection None
     (Some (kv_doc [(ascii ''$set'', V_document (Some [5, 0, 0, 0, 0]))])) None 0 = (okE (Inl ()), 0) \<and>
   amongoc_update_one (serving (\<lambda>_. 7)) (\<lambda>_. True) example_request example_collection None (Some (kv_doc [])) None 0 =
     (okE (Inl ()), 0)"
proof -
  have "kvs_ok [(ascii ''$set'', V_document (Some [5, 0, 0, 0, 0]))]" "kvs_ok []" by code_simp+
  from this [THEN invalid_updates_refused, OF refl, of "serving (\<lambda>_. 7)" "\<lambda>_. True" example_request example_collection None None 0 None]
  show ?thesis by (simp add: ascii_def)
qed

end
