(* ===== verification/Amongoc_Coroutine.thy ===== *)
theory Amongoc_Coroutine
  imports Amongoc_Commands
begin

text \<open>
  Results (\<^verbatim>\<open>src/amongoc/nano/result.hpp\<close>) and coroutines (\<^verbatim>\<open>src/amongoc/coroutine.hpp\<close>,
  \<^verbatim>\<open>coroutine.cpp\<close>). The body of a coroutine is the value of \<open>'a eres\<close> it computes; what its promise does with a
  value and with an exception, and when its handler is completed, is modelled here. The language's machinery of
  frames and handles is not.
\<close>

section \<open>Results\<close>

text \<open>A \<^verbatim>\<open>result\<close> holds an error, by default a status, or a value.\<close>

type_synonym ('e, 'a) tagged_result = "'e + 'a"

fun result_has_value :: "('e, 'a) tagged_result \<Rightarrow> bool" where
  "result_has_value (Inr x) = True"
| "result_has_value (Inl e) = False"

fun result_error :: "('e, 'a) tagged_result \<Rightarrow> 'e res" where
  "result_error (Inl e) = Inr e"
| "result_error (Inr x) = Inl Assert_fail"

text \<open>\<^verbatim>\<open>value()\<close> and \<^verbatim>\<open>operator*\<close> throw what \<^verbatim>\<open>error_traits\<close> makes of the error.\<close>

fun result_value :: "('e \<Rightarrow> cpp_exn) \<Rightarrow> ('e, 'a) tagged_result \<Rightarrow> 'a eres" where
  "result_value throw_exception (Inl e) = throwE (throw_exception e)"
| "result_value throw_exception (Inr x) = okE x"

abbreviation status_result_value :: "(amongoc_status, 'a) tagged_result \<Rightarrow> 'a eres" where
  "status_result_value \<equiv> result_value Status_error"

definition result_transform :: "('a \<Rightarrow> 'b) \<Rightarrow> ('e, 'a) tagged_result \<Rightarrow> ('e, 'b) tagged_result" where
  "result_transform fn r = (case r of Inr x \<Rightarrow> Inr (fn x) | Inl e \<Rightarrow> Inl e)"

definition result_fmap :: "('a \<Rightarrow> 'b) \<Rightarrow> ('e, 'a) tagged_result \<Rightarrow> ('e, 'b) tagged_result" where
  "result_fmap fn res = (if result_has_value res then Inr (fn (projr res)) else Inl (projl res))"

fun result_join :: "('e, ('e, 'a) tagged_result) tagged_result \<Rightarrow> ('e, 'a) tagged_result" where
  "result_join (Inr (Inr x)) = Inr x"
| "result_join (Inr (Inl e)) = Inl e"
| "result_join (Inl e) = Inl e"

lemma result_fmap_transform: "result_fmap = result_transform"
  by (intro ext) (simp add: result_fmap_def result_transform_def split: sum.split)

lemma result_value_join: "result_value f (result_join r) = bindE (result_value f r) (result_value f)"
  by (cases r rule: result_join.cases) simp_all

lemma result_value_fmap: "result_value f (result_fmap g r) = bindE (result_value f r) (\<lambda>x. okE (g x))"
  by (cases r) (simp_all add: result_fmap_def)

section \<open>Tasks\<close>

text \<open>
  The promise of a \<^verbatim>\<open>co_task\<close> stores nothing, a value or an exception. \<open>co_run\<close> is a body that runs to
  its end: \<^verbatim>\<open>return_value\<close> or \<^verbatim>\<open>unhandled_exception\<close>.
\<close>

datatype 'a co_result = Co_none | Co_value 'a | Co_exception cpp_exn

definition co_return_value :: "'a \<Rightarrow> 'a co_result" where
  "co_return_value u = Co_value u"

definition co_unhandled_exception :: "cpp_exn \<Rightarrow> 'a co_result" where
  "co_unhandled_exception x = Co_exception x"

definition co_run :: "'a eres \<Rightarrow> 'a co_result res" where
  "co_run body = bindR body (\<lambda>r. Inr (case r of Inl x \<Rightarrow> co_unhandled_exception x | Inr u \<Rightarrow> co_return_value u))"

text \<open>
  \<^verbatim>\<open>await_resume\<close> of the awaiter. On an empty promise \<^verbatim>\<open>std::get\<close> throws an exception that nothing catches.
\<close>

fun co_await_resume :: "'a co_result \<Rightarrow> 'a eres" where
  "co_await_resume (Co_exception x) = throwE x"
| "co_await_resume (Co_value u) = okE u"
| "co_await_resume Co_none = Inl Abort_called"

text \<open>\<^verbatim>\<open>on_final_suspend\<close> of a task that runs as a sender: the receiver gets a value or the exception.\<close>

fun on_final_suspend :: "'a co_result \<Rightarrow> (cpp_exn, 'a) tagged_result res" where
  "on_final_suspend (Co_value u) = Inr (Inr u)"
| "on_final_suspend (Co_exception x) = Inr (Inl x)"
| "on_final_suspend Co_none = Inl Abort_called"

text \<open>
  A task has a result when it ends, so awaiting it is the monadic bind that the other theories use, and
  awaiting the sender and unwrapping its result is the same.
\<close>

lemma co_await_task: "bindR (co_run body) co_await_resume = body"
  by (cases body rule: eres_cases)
    (simp_all add: co_run_def co_return_value_def co_unhandled_exception_def throwE_def okE_def)

lemma co_await_sender:
  "bindR (bindR (co_run body) on_final_suspend) (result_value id) = body"
  by (cases body rule: eres_cases)
    (simp_all add: co_run_def co_return_value_def co_unhandled_exception_def throwE_def okE_def)

section \<open>Emitters\<close>

text \<open>
  The value in a result is nothing, a document, a text, or a value that the operation returns.
\<close>

datatype 'v boxed_value = No_value | Boxed_doc bson_doc | Boxed_text mlib_str | Boxed 'v

record 'v em_result =
  er_status :: amongoc_status
  er_value :: "'v boxed_value"

definition empty_result :: "'v em_result" where
  "empty_result = \<lparr>er_status = amongoc_okay, er_value = No_value\<rparr>"

text \<open>The overloads of \<^verbatim>\<open>return_value\<close>: a null pointer, a box, a status, an error code.\<close>

definition return_null :: "'v em_result" where
  "return_null = empty_result"

definition return_box :: "'v boxed_value \<Rightarrow> 'v em_result" where
  "return_box b = empty_result\<lparr>er_value := b\<rparr>"

definition return_status :: "amongoc_status \<Rightarrow> 'v em_result" where
  "return_status st = empty_result\<lparr>er_status := st\<rparr>"

definition return_error_code :: "platform \<Rightarrow> error_code \<Rightarrow> 'v em_result" where
  "return_error_code pf ec = return_status (status_from pf ec)"

definition EPROTO :: int where "EPROTO = 71"

definition ENOMEM :: int where "ENOMEM = 12"

text \<open>
  What the standard library says of an exception: the text of \<^verbatim>\<open>what()\<close>, and the error code of an error of
  the stream.
\<close>

record exn_lib =
  xl_what :: "cpp_exn \<Rightarrow> bytes"
  xl_stream_code :: "int \<Rightarrow> error_code"

definition c_string_view :: "bytes \<Rightarrow> mlib_str_view" where
  "c_string_view s = \<lparr>vw_data = Some (s @ [0], 0), vw_len = length s\<rparr>"

text \<open>
  \<^verbatim>\<open>unhandled_exception\<close> is \<^verbatim>\<open>noexcept\<close>: an exception that none of its handlers catches ends the program.
  \<^verbatim>\<open>bson::iterator_error\<close> is a \<^verbatim>\<open>std::runtime_error\<close>, which none of them catches. The body of a server
  error is copied with the allocator of the coroutine, a message with the default allocator.
\<close>

definition unhandled_exception ::
  "platform \<Rightarrow> exn_lib \<Rightarrow> reallocate_fn \<Rightarrow> reallocate_fn \<Rightarrow> cpp_exn \<Rightarrow> 'v em_result res" where
  "unhandled_exception pf xl alloc default_alloc x =
     (let with_message = (\<lambda>ec. bindR (mlib_str_copy default_alloc (c_string_view (xl_what xl x))) (\<lambda>s.
            Inr \<lparr>er_status = status_from pf ec, er_value = Boxed_text s\<rparr>))
      in case x of
        Server_error code errmsg body \<Rightarrow>
          bindR (bson_copy_view_with_allocator alloc (Some body)) (\<lambda>d.
          Inr \<lparr>er_status = status_from pf \<lparr>ec_category = Cxx Server, ec_value = code\<rparr>, er_value = Boxed_doc d\<rparr>)
      | Protocol_error msg \<Rightarrow> with_message \<lparr>ec_category = Cxx Generic, ec_value = EPROTO\<rparr>
      | Stream_error n \<Rightarrow> with_message (xl_stream_code xl n)
      | Status_error st \<Rightarrow> Inr (return_status st)
      | Bad_alloc \<Rightarrow> Inr (return_status \<lparr>st_category = Generic, st_code = ENOMEM\<rparr>)
      | Iterator_error e \<Rightarrow> Inl Abort_called)"

text \<open>An emitter coroutine; \<open>ret\<close> is the overload of \<^verbatim>\<open>return_value\<close> for what its body returns.\<close>

definition emitter_coroutine ::
  "platform \<Rightarrow> exn_lib \<Rightarrow> reallocate_fn \<Rightarrow> reallocate_fn \<Rightarrow> ('a \<Rightarrow> 'v em_result) \<Rightarrow> 'a eres \<Rightarrow>
   'v em_result res" where
  "emitter_coroutine pf xl alloc default_alloc ret body =
     bindR body (\<lambda>r. case r of Inl x \<Rightarrow> unhandled_exception pf xl alloc default_alloc x | Inr u \<Rightarrow> Inr (ret u))"

section \<open>When the handler is completed\<close>

text \<open>
  An emitter coroutine starts when it is called and stops at \<^verbatim>\<open>ramp_end\<close>, or at its end when an exception is
  thrown before. It is resumed when the operation made of it is started, and whenever an operation that it
  awaits completes. The state of the frame: where it is, how often it will still wait, its result, whether it
  holds a handler, whether the operation was started, and what the handler was completed with.
\<close>

datatype co_phase = At_ramp_end | Awaiting | Co_done | Co_destroyed

record 'r co_frame =
  cf_phase :: co_phase
  cf_awaits :: nat
  cf_result :: 'r
  cf_handler :: bool
  cf_started :: bool
  cf_completed :: "'r list"

definition new_co_frame :: "co_phase \<Rightarrow> nat \<Rightarrow> 'r \<Rightarrow> 'r co_frame" where
  "new_co_frame ph n r =
     \<lparr>cf_phase = ph, cf_awaits = n, cf_result = r, cf_handler = False, cf_started = False, cf_completed = []\<rparr>"

definition handler_complete :: "'r \<Rightarrow> 'r co_frame \<Rightarrow> 'r co_frame" where
  "handler_complete r f = f\<lparr>cf_completed := cf_completed f @ [r]\<rparr>"

text \<open>\<^verbatim>\<open>handler_completer_awaiter::await_suspend\<close>.\<close>

definition final_suspend :: "'r co_frame \<Rightarrow> 'r co_frame" where
  "final_suspend f =
     (let f = f\<lparr>cf_phase := Co_done\<rparr> in if cf_handler f then handler_complete (cf_result f) f else f)"

definition co_resume :: "'r co_frame \<Rightarrow> 'r co_frame" where
  "co_resume f =
     (if cf_awaits f = 0 then final_suspend f else f\<lparr>cf_phase := Awaiting, cf_awaits := cf_awaits f - 1\<rparr>)"

text \<open>\<^verbatim>\<open>co_emitter_starter\<close>: a coroutine that has ended completes the handler of the operation.\<close>

definition co_emitter_start :: "'r co_frame \<Rightarrow> 'r co_frame" where
  "co_emitter_start f =
     (let f = f\<lparr>cf_started := True\<rparr> in
      if cf_phase f = Co_done then handler_complete (cf_result f) f
      else co_resume (f\<lparr>cf_handler := True\<rparr>))"

text \<open>An operation is started once. Destroying it destroys the frame and what the frame waits for.\<close>

inductive co_step :: "'r co_frame \<Rightarrow> 'r co_frame \<Rightarrow> bool" where
  start: "\<not> cf_started f \<Longrightarrow> cf_phase f \<noteq> Co_destroyed \<Longrightarrow> co_step f (co_emitter_start f)"
| awaited: "cf_phase f = Awaiting \<Longrightarrow> co_step f (co_resume f)"
| destroyed: "cf_phase f \<noteq> Co_destroyed \<Longrightarrow> co_step f (f\<lparr>cf_phase := Co_destroyed\<rparr>)"

inductive_cases co_stepE: "co_step f f'"

inductive co_reachable :: "'r co_frame \<Rightarrow> 'r co_frame \<Rightarrow> bool" for f0 where
  here: "co_reachable f0 f0"
| step: "co_reachable f0 f \<Longrightarrow> co_step f f' \<Longrightarrow> co_reachable f0 f'"

definition co_inv :: "'r \<Rightarrow> 'r co_frame \<Rightarrow> bool" where
  "co_inv r f \<longleftrightarrow>
     cf_result f = r \<and> (cf_handler f \<longrightarrow> cf_started f) \<and>
     (cf_phase f = At_ramp_end \<longrightarrow> \<not> cf_started f) \<and>
     (cf_phase f = Awaiting \<longrightarrow> cf_handler f \<and> cf_started f) \<and>
     (cf_phase f \<noteq> Co_destroyed \<longrightarrow>
        cf_completed f = (if cf_started f \<and> cf_phase f = Co_done then [r] else [])) \<and>
     (cf_completed f = [] \<or> cf_completed f = [r] \<and> cf_started f)"

lemmas co_frame_ops = co_emitter_start_def co_resume_def final_suspend_def handler_complete_def Let_def

lemma co_inv_step:
  assumes "co_step f f'" "co_inv r f"
  shows "co_inv r f'"
  using assms by (cases rule: co_step.cases) (auto simp: co_inv_def co_frame_ops)

lemma co_inv_reachable:
  assumes "co_reachable (new_co_frame ph n r) f" "ph \<in> {At_ramp_end, Co_done}"
  shows "co_inv r f"
  using assms(1)
proof (induction rule: co_reachable.induct)
  case here
  then show ?case using assms(2) by (auto simp: co_inv_def new_co_frame_def)
qed (rule co_inv_step)

text \<open>Completions of what the coroutine awaits, one after the other.\<close>

lemma awaited_runs:
  assumes "cf_phase f = Awaiting" "cf_handler f" "k = Suc (cf_awaits f)"
  shows "cf_phase ((co_resume ^^ k) f) = Co_done \<and> cf_completed ((co_resume ^^ k) f) = cf_completed f @ [cf_result f] \<and>
    (\<forall>i < k. cf_phase ((co_resume ^^ i) f) = Awaiting)"
  using assms
proof (induction k arbitrary: f)
  case (Suc k)
  show ?case
  proof (cases "cf_awaits f")
    case 0
    with Suc.prems show ?thesis by (simp add: co_frame_ops)
  next
    case (Suc m)
    let ?g = "co_resume f"
    have g: "?g = f\<lparr>cf_phase := Awaiting, cf_awaits := m\<rparr>" using Suc by (simp add: co_resume_def)
    have "k = Suc (cf_awaits ?g)" using Suc Suc.prems(3) by (simp add: g)
    from Suc.IH [OF _ _ this] Suc.prems(2)
    have ih: "cf_phase ((co_resume ^^ k) ?g) = Co_done"
      "cf_completed ((co_resume ^^ k) ?g) = cf_completed f @ [cf_result f]"
      "\<forall>i < k. cf_phase ((co_resume ^^ i) ?g) = Awaiting"
      by (simp_all add: g)
    moreover have "cf_phase ((co_resume ^^ i) f) = Awaiting" if "i < Suc k" for i
      using that ih(3) Suc.prems(1) by (cases i) (simp_all add: funpow_swap1)
    ultimately show ?thesis by (simp add: funpow_swap1)
  qed
qed simp

section \<open>Malformed replies\<close>

text \<open>A tag for which the table of sizes has no entry.\<close>

definition unknown_tag :: "byte \<Rightarrow> bool" where
  "unknown_tag t \<longleftrightarrow> const_sizes ! unat t = INT32_MAX \<and> t \<noteq> bson_type_regex"

lemma unknown_tag_begin:
  assumes "doc_at m d" "unknown_tag (tag_at m (d + 4))"
  shows "\<exists>it e. bson_begin m (Some d) = Inr it \<and> it_ptr it = None \<and> throw_if_error it = Inl e \<and>
    bson_iterator_get_error it \<noteq> Some bson_iter_errc_okay"
proof -
  let ?p = "d + 4" let ?n = "doc_len m d - 4" let ?t = "tag_at m (d + 4)"
  have w: "window m ?p ?n" using doc_at_window [OF assms(1)] .
  have "?n \<noteq> 1"
  proof
    assume "?n = 1"
    with w have "?t = 0" by (simp add: window_def tag_at_def add.commute)
    with assms(2) show False by (simp add: unknown_tag_def const_sizes_def)
  qed
  with w have n: "1 < ?n" by (auto simp: window_def)
  have v: "\<not> varsize_pick ! unat ?t" using varsize_const_size [of ?t] assms(2) by (auto simp: unknown_tag_def)
  have "bson_iterator_at m ?p ?n = Inr (bson_iterator_error bson_iter_errc_short_read) \<or>
      bson_iterator_at m ?p ?n = Inr (iterator_error_code (- 2))"
  proof (cases "?n - key_len m ?p - 2 < 1")
    case True
    with iterator_at_eq [OF w n] show ?thesis by simp
  next
    case False
    have "?n - key_len m ?p - 2 \<le> INT32_MAX" using w key_len_window(2) [OF w n] by (simp add: window_def)
    then have "bson_valsize m ?t (?p + key_len m ?p + 2) (?n - key_len m ?p - 2) = Inr (- 2)"
      using False v assms(2) valsize_check_overrun [of INT32_MAX "?n - key_len m ?p - 2" ?t m]
      by (simp add: valsize_eq_const unknown_tag_def)
    with iterator_at_checked [OF w n] False show ?thesis by simp
  qed
  then obtain k :: int where "bson_iterator_at m ?p ?n = Inr \<lparr>it_ptr = None, it_keylen = 0, it_rlen = - k\<rparr>" "k = 1 \<or> k = 2"
    by (auto simp: bson_iterator_error_def iterator_error_code_def)
  moreover from this(2) obtain e where "throw_if_error \<lparr>it_ptr = None, it_keylen = 0, it_rlen = - k\<rparr> = Inl e"
    "bson_iterator_get_error \<lparr>it_ptr = None, it_keylen = 0, it_rlen = - k\<rparr> \<noteq> Some bson_iter_errc_okay"
    by (auto simp: throw_if_error_def bson_iterator_get_error_def iter_errc_of_def)
  ultimately show ?thesis by (simp add: bson_begin_doc [OF assms(1)])
qed

text \<open>No key is found in such a document, so the check of the reply passes, and parsing it throws.\<close>

lemma malformed_check:
  assumes "doc_inv d" "unknown_tag (doc_data d ! 4)"
  shows "throw_if_section_error (Body_section d) = okE ()"
proof -
  have da: "doc_at (dc_buf d) 4" using assms(1) by (simp add: doc_inv_def)
  have "tag_at (dc_buf d) (4 + 4) = doc_data d ! 4"
    using doc_inv_bounds [OF assms(1)] by (simp add: tag_at_def doc_data_def)
  with assms(2) obtain it where it: "bson_begin (dc_buf d) (Some 4) = Inr it" "it_ptr it = None"
    "bson_iterator_get_error it \<noteq> Some bson_iter_errc_okay"
    using unknown_tag_begin [OF da] by auto
  note e = bson_end_doc [OF da]
  obtain k where k: "length (dc_buf d) = Suc k" using doc_inv_bounds(1) [OF assms(1)] by (cases "length (dc_buf d)") auto
  from document_view_doc [OF da] have "document_find d (ascii ''ok'') = bson_end (dc_buf d) (Some 4)"
    using it e k by (simp add: document_find_def bson_find_def bson_iterator_eq_def)
  with e show ?thesis by (simp add: bson_iterator_eq_def)
qed

lemma malformed_parse:
  assumes "subdoc_ok m" "unknown_tag (m ! 4)"
  shows "\<exists>e. must_parse (Some m) (doc_view_rule parts) s = throwE (Iterator_error e)"
proof -
  have da: "doc_at m 0" using assms(1) by (simp add: subdoc_ok_def)
  obtain it e where it: "bson_begin m (Some 0) = Inr it" "it_ptr it = None" "throw_if_error it = Inl e"
    using unknown_tag_begin [OF da] assms(2) by (auto simp: tag_at_def)
  obtain k where "length m = Suc k" using da by (cases "length m") (auto simp: doc_at_def)
  with it bson_end_doc [OF da] have "for_view (Some m) body st = throwE (Iterator_error e)"
      for body :: "reference \<Rightarrow> part list \<times> 'a \<Rightarrow> (unit option \<times> part list \<times> 'a) eres" and st
    by (simp add: for_view_def bson_iterator_eq_def)
  note this [of "doc_body parts" "(map new_part parts, s)"]
  then show ?thesis by (auto simp: must_parse_def doc_view_rule_def)
qed

lemma malformed_reply:
  assumes "rules_fit els"
    and "request cl (op_msg_opcode, op_msg_buffers_array [kv_doc (elems_kvs els)]) = (okE msg, cl')"
    and "am_content msg = Op_msg [Body_section d]" "doc_inv d" "unknown_tag (doc_data d ! 4)"
  shows "run_command (serving junk) request els finish cl = (finish (Some (doc_data d)), cl')"
proof -
  obtain r where "mk_elems_size els = Inr r" "int r \<le> INT32_MAX - 4"
    using assms(1) by (auto simp: rules_fit_def split: sum.splits)
  with assms(1) obtain cmd where cmd: "build (serving junk) els = okE cmd" "doc_data cmd = kv_doc (elems_kvs els)"
    using build_rules [of els r junk] by (auto simp: rules_fit_def)
  with assms malformed_check [OF assms(4,5)] show ?thesis
    by (simp add: run_command_def simple_request_def checking_request_def throw_if_message_error_def
        expect_one_body_section_op_msg_def)
qed

section \<open>Properties\<close>

lemma emitter_throw [simp]:
  "emitter_coroutine pf xl alloc dalloc ret (throwE x) = unhandled_exception pf xl alloc dalloc x"
  "emitter_coroutine pf xl alloc dalloc ret (okE u) = Inr (ret u)"
  "emitter_coroutine pf xl alloc dalloc ret (Inl f) = Inl f"
  by (simp_all add: emitter_coroutine_def throwE_def okE_def)

lemma status_from_library:
  "c \<in> set library_categories \<Longrightarrow> status_from pf \<lparr>ec_category = Cxx c, ec_value = n\<rparr> = \<lparr>st_category = c, st_code = n\<rparr>"
  "Server \<in> set library_categories" "Generic \<in> set library_categories"
  by (auto simp: status_from_def library_categories_def)

lemma copy_c_string:
  assumes "int (length s) \<le> SSIZE_MAX - 9"
  shows "\<exists>r. mlib_str_copy (serving junk) (c_string_view s) = Inr r \<and> str_rep r s"
proof -
  have "views (c_string_view s) s" "views (mlib_str_view_data (Some (s, 0)) (length s)) s"
    by (simp_all add: views_def c_string_view_def mlib_str_view_data_def)
  from this [THEN sv_read_views, of 0 "length s"]
  have "mlib_str_copy (serving junk) (c_string_view s) =
      mlib_str_copy (serving junk) (mlib_str_view_data (Some (s, 0)) (length s))"
    by (simp add: mlib_str_copy_def c_string_view_def mlib_str_view_data_def)
  with str_copy_default [OF assms, of "\<lambda>_. True" junk] show ?thesis by simp
qed


definition example_exn_lib :: exn_lib where
  "example_exn_lib = \<lparr>xl_what = (\<lambda>_. [111]), xl_stream_code = (\<lambda>n. \<lparr>ec_category = Cxx System, ec_value = n\<rparr>)\<rparr>"


text \<open>
  C12: a server can end the program of its client. A reply that is a document of the right length whose first
  element has an unknown tag passes the check for server errors, and the exception thrown by parsing it, here
  for a deletion and a query, is not one that the promise of an emitter catches.
\<close>

theorem malformed_reply_terminates:
  assumes "rules_fit (delete_command c filt one (or_default default_delete_params dparams))"
    and "rules_fit (find_command c filt (or_default default_find_params fparams))"
    and "\<forall>m. request cl m = (okE msg, cl')" "am_content msg = Op_msg [Body_section d]"
    and "doc_inv d" "unknown_tag (doc_data d ! 4)"
  shows "emitter_coroutine pf xl alloc dalloc ret (fst (amongoc_delete_ex (serving junk) request c filt one dparams cl)) =
      Inl Abort_called \<and>
    emitter_coroutine pf xl alloc dalloc ret' (fst (amongoc_find (serving junk) request c filt fparams cl)) =
      Inl Abort_called"
proof -
  have "subdoc_ok (doc_data d)" using assms(5) by (rule doc_inv_split)
  note parse = malformed_parse [OF this assms(6)]
  have run: "run_command (serving junk) request els finish cl = (finish (Some (doc_data d)), cl')"
    if "rules_fit els" for els and finish :: "doc_view \<Rightarrow> 'z eres"
    using malformed_reply [where els = els and request = request and cl = cl and msg = msg and cl' = cl' and d = d
        and junk = junk and finish = finish] that assms(3-6) by simp
  obtain e where e: "parse_deleted (Some (doc_data d)) = throwE (Iterator_error e)"
    using parse [of n_parts "-1"] by (auto simp: parse_deleted_def)
  let ?find = "parse_cursor (serving junk) c (sint (fd_batch_size (or_default default_find_params fparams)))"
  obtain e' where e': "?find (Some (doc_data d)) = throwE (Iterator_error e')"
    using parse [of cursor_reply_parts "\<lparr>cv_batch = None, cv_id = 0\<rparr>"] by (auto simp: parse_cursor_def)
  show ?thesis
    using run [OF assms(1), of parse_deleted] run [OF assms(2), of ?find] e e'
    by (simp add: amongoc_delete_ex_def amongoc_find_def emitter_coroutine_def unhandled_exception_def throwE_def Let_def)
qed

definition malformed_request :: "nat request_fn" where
  "malformed_request n msg =
     (okE \<lparr>am_req_id = 0, am_resp_to = 0, am_content = Op_msg [Body_section (received_doc [8, 0, 0, 0, 32, 97, 0, 0])]\<rparr>, Suc n)"

theorem malformed_reply_terminates_witness:
  "\<forall>pf. emitter_coroutine pf example_exn_lib (serving (\<lambda>_. 7)) (serving (\<lambda>_. 7)) (\<lambda>_. return_null)
     (fst (amongoc_delete_ex (serving (\<lambda>_. 7)) malformed_request example_collection (Some [5, 0, 0, 0, 0]) True None 0)) =
   Inl Abort_called"
proof
  fix pf
  let ?d = "received_doc [8, 0, 0, 0, 32, 97, 0, 0]"
  have "sendable (\<lambda>_. True) [8, 0, 0, 0, 32, 97, 0, 0]"
    by (simp add: sendable_def subdoc_ok_def doc_at_def doc_len_def to_i32_def)
  note d = received_doc_inv [OF this]
  have "unknown_tag 32" by code_simp
  then have "unknown_tag (doc_data ?d ! 4)" by (simp add: d(2))
  moreover have "\<forall>m. malformed_request 0 m =
      (okE \<lparr>am_req_id = 0, am_resp_to = 0, am_content = Op_msg [Body_section ?d]\<rparr>, Suc 0)"
    by (simp add: malformed_request_def)
  ultimately show "emitter_coroutine pf example_exn_lib (serving (\<lambda>_. 7)) (serving (\<lambda>_. 7)) (\<lambda>_. return_null)
     (fst (amongoc_delete_ex (serving (\<lambda>_. 7)) malformed_request example_collection (Some [5, 0, 0, 0, 0]) True None 0)) =
   Inl Abort_called"
    using malformed_reply_terminates [where c = example_collection and filt = "Some [5, 0, 0, 0, 0]" and one = True
        and dparams = None and fparams = None and d = ?d and request = malformed_request and cl = 0
        and junk = "\<lambda>_. 7" and pf = pf and xl = example_exn_lib and alloc = "serving (\<lambda>_. 7)" and dalloc = "serving (\<lambda>_. 7)"
        and ret = "\<lambda>_. return_null" and ret' = "\<lambda>_. return_null"]
      example_delete_fits example_find_fits d(1)
    by (auto simp: or_default_def)
qed



end
