(* ===== verification/Amongoc_Client.thy ===== *)
theory Amongoc_Client
  imports Amongoc_Commands
begin

text \<open>
  The first exchange on a connection (\<^verbatim>\<open>src/amongoc/handshake.hpp\<close>, \<^verbatim>\<open>handshake.cpp\<close>) and commands on a
  client (\<^verbatim>\<open>src/amongoc/client.cpp\<close>). The parameter \<open>room\<close> is whether memory for the copy of a string of a
  given length is granted. The operating system, which \<^verbatim>\<open>neo\<close> detects, is an argument.
\<close>

section \<open>The handshake command\<close>

datatype operating_system_t = windows | linux | macos | freebsd | openbsd | unknown

fun os_type :: "operating_system_t \<Rightarrow> string" where
  "os_type windows = ''Windows''"
| "os_type linux = ''Linux''"
| "os_type macos = ''Darwin''"
| "os_type freebsd = ''FreeBSD''"
| "os_type openbsd = ''OpenBSD''"
| "os_type unknown = ''unknown''"

definition handshake_rules :: "operating_system_t \<Rightarrow> bytes option \<Rightarrow> mk_elem list" where
  "handshake_rules os app_name =
     [pair ''hello'' (int_val 1),
      pair ''$db'' (str_val (ascii ''admin'')),
      pair ''client'' (Mk_doc
        [Mk_conditional (map_option (\<lambda>name. pair ''application'' (Mk_doc [pair ''name'' (str_val name)])) app_name),
         pair ''driver'' (Mk_doc [pair ''name'' (str_val (ascii ''amongoc'')),
                                  pair ''version'' (str_val (ascii ''experimental-dev''))]),
         pair ''os'' (Mk_doc [pair ''type'' (str_val (ascii (os_type os)))])])]"

definition create_handshake_command ::
  "reallocate_fn \<Rightarrow> operating_system_t \<Rightarrow> bytes option \<Rightarrow> bson_doc eres" where
  "create_handshake_command alloc os app_name = build alloc (handshake_rules os app_name)"

section \<open>The response\<close>

record handshake_response =
  isWritablePrimary :: bool
  topologyVersion :: bytes
  maxBsonObjectSize :: int
  maxMessageSizeBytes :: int
  maxWriteBatchSize :: int
  logicalSessionTimeoutMinutes :: int
  connectionId :: int
  minWireVersion :: int
  maxWireVersion :: int
  readOnly :: bool
  compression :: "bytes list"
  saslSupportedMechs :: "bytes list"
  hosts :: "bytes list"
  setName :: bytes
  setVersion :: bytes
  secondary :: bool
  passives :: "bytes list"
  arbiters :: "bytes list"
  primary :: bytes
  arbiterOnly :: bool
  is_passive :: bool
  hidden :: bool
  me :: bytes
  electionId :: bytes
  msg :: bytes

text \<open>The member \<open>connectionId\<close> has no initialiser: its value is arbitrary.\<close>

definition new_handshake_response :: "int \<Rightarrow> handshake_response" where
  "new_handshake_response junk =
     \<lparr>isWritablePrimary = False, topologyVersion = [], maxBsonObjectSize = 16 * 1024 * 1024,
      maxMessageSizeBytes = 48000000, maxWriteBatchSize = 100000, logicalSessionTimeoutMinutes = 0,
      connectionId = junk, minWireVersion = 0, maxWireVersion = 0, readOnly = False, compression = [],
      saslSupportedMechs = [], hosts = [], setName = [], setVersion = [], secondary = False, passives = [],
      arbiters = [], primary = [], arbiterOnly = False, is_passive = False, hidden = False, me = [],
      electionId = [], msg = []\<rparr>"

type_synonym hello_rule = "(reference, handshake_response) rule"

text \<open>The conversion to \<^verbatim>\<open>std::size_t\<close> wraps around.\<close>

definition store_size :: "(int \<Rightarrow> handshake_response \<Rightarrow> handshake_response) \<Rightarrow> hello_rule" where
  "store_size out el s =
     bindE (liftE (rf_value el)) (\<lambda>v.
     case Option.bind v bson_value_as_int64 of
       None \<Rightarrow> Inl Out_of_bounds
     | Some (n, _) \<Rightarrow> okE (Basic_result Accept None, out (uint (word_of_int n :: u64)) s))"

definition store_string ::
  "(nat \<Rightarrow> bool) \<Rightarrow> (bytes \<Rightarrow> handshake_response \<Rightarrow> handshake_response) \<Rightarrow> hello_rule" where
  "store_string room into =
     type_rule try_string (action_rule (\<lambda>sv s. if room (length sv) then okE (into sv s) else throwE Bad_alloc))"

definition append_strings ::
  "(nat \<Rightarrow> bool) \<Rightarrow> (bytes \<Rightarrow> handshake_response \<Rightarrow> handshake_response) \<Rightarrow> hello_rule" where
  "append_strings room vec =
     type_rule try_array (each_view_rule (type_rule try_string
       (\<lambda>sv s. if room (length sv) then okE (Basic_result Accept None, vec sv s) else throwE Bad_alloc)))"

text \<open>
  Assigning a 64-bit integer: to an \<^verbatim>\<open>int32_t\<close> it wraps around, to a \<^verbatim>\<open>bool\<close> it is compared with zero, and
  to a string it is converted to the one character of the string.
\<close>

definition as_i32 :: "int \<Rightarrow> int" where "as_i32 n = sint (word_of_int n :: u32)"

definition as_char :: "int \<Rightarrow> bytes" where "as_char n = [word_of_int n]"

definition hello_parts :: "(nat \<Rightarrow> bool) \<Rightarrow> handshake_response doc_part list" where
  "hello_parts room =
     [require (ascii ''isWritablePrimary'') (store_rule try_bool (\<lambda>b r. r\<lparr>isWritablePrimary := b\<rparr>)),
      require (ascii ''topologyVersion'') just_accept,
      require (ascii ''maxBsonObjectSize'') (must_rule (store_size (\<lambda>n r. r\<lparr>maxBsonObjectSize := n\<rparr>))),
      require (ascii ''maxMessageSizeBytes'') (must_rule (store_size (\<lambda>n r. r\<lparr>maxMessageSizeBytes := n\<rparr>))),
      require (ascii ''maxWriteBatchSize'') (must_rule (store_size (\<lambda>n r. r\<lparr>maxWriteBatchSize := n\<rparr>))),
      require (ascii ''localTime'') just_accept,
      require (ascii ''logicalSessionTimeoutMinutes'') just_accept,
      require (ascii ''connectionId'') (must_rule (integer_rule (assign_rule (\<lambda>n r. r\<lparr>connectionId := as_i32 n\<rparr>)))),
      require (ascii ''minWireVersion'') (must_rule (integer_rule (assign_rule (\<lambda>n r. r\<lparr>minWireVersion := as_i32 n\<rparr>)))),
      require (ascii ''maxWireVersion'') (must_rule (integer_rule (assign_rule (\<lambda>n r. r\<lparr>maxWireVersion := as_i32 n\<rparr>)))),
      require (ascii ''readOnly'') (must_rule (store_rule try_bool (\<lambda>b r. r\<lparr>readOnly := b\<rparr>))),
      Opt (field ''compression'' (must_rule (append_strings room (\<lambda>sv r. r\<lparr>compression := compression r @ [sv]\<rparr>)))),
      Opt (field ''saslSupportedMechs''
        (must_rule (append_strings room (\<lambda>sv r. r\<lparr>saslSupportedMechs := saslSupportedMechs r @ [sv]\<rparr>)))),
      Opt (field ''hosts'' (must_rule (append_strings room (\<lambda>sv r. r\<lparr>hosts := hosts r @ [sv]\<rparr>)))),
      Opt (field ''setName'' (must_rule (store_string room (\<lambda>sv r. r\<lparr>setName := sv\<rparr>)))),
      Opt (field ''setVersion'' (must_rule (store_string room (\<lambda>sv r. r\<lparr>setVersion := sv\<rparr>)))),
      Opt (field ''secondary'' (must_rule (integer_rule (assign_rule (\<lambda>n r. r\<lparr>setVersion := as_char n\<rparr>))))),
      Opt (field ''secondary'' (must_rule (integer_rule (assign_rule (\<lambda>n r. r\<lparr>setVersion := as_char n\<rparr>))))),
      Opt (field ''passives'' (must_rule (append_strings room (\<lambda>sv r. r\<lparr>passives := passives r @ [sv]\<rparr>)))),
      Opt (field ''arbiters'' (must_rule (append_strings room (\<lambda>sv r. r\<lparr>arbiters := arbiters r @ [sv]\<rparr>)))),
      Opt (field ''primary'' (must_rule (store_string room (\<lambda>sv r. r\<lparr>primary := sv\<rparr>)))),
      Opt (field ''arbiterOnly'' (must_rule (integer_rule (assign_rule (\<lambda>n r. r\<lparr>arbiterOnly := n \<noteq> 0\<rparr>))))),
      Opt (field ''passive'' (must_rule (integer_rule (assign_rule (\<lambda>n r. r\<lparr>is_passive := n \<noteq> 0\<rparr>))))),
      Opt (field ''hidden'' (must_rule (integer_rule (assign_rule (\<lambda>n r. r\<lparr>hidden := n \<noteq> 0\<rparr>))))),
      Opt (field ''me'' (must_rule (store_string room (\<lambda>sv r. r\<lparr>me := sv\<rparr>)))),
      Opt (field ''electionId'' (must_rule (store_string room (\<lambda>sv r. r\<lparr>electionId := sv\<rparr>)))),
      Opt (field ''msg'' (must_rule (store_string room (\<lambda>sv r. r\<lparr>msg := sv\<rparr>)))),
      Opt just_accept]"

definition parse_handshake :: "(nat \<Rightarrow> bool) \<Rightarrow> int \<Rightarrow> doc_view \<Rightarrow> handshake_response eres" where
  "parse_handshake room junk m =
     must_parse m (doc_view_rule (hello_parts room)) (new_handshake_response junk)"

section \<open>The exchange\<close>

definition handshake ::
  "reallocate_fn \<Rightarrow> (nat \<Rightarrow> bool) \<Rightarrow> int \<Rightarrow> operating_system_t \<Rightarrow> 'c request_fn \<Rightarrow> bytes option \<Rightarrow> 'c \<Rightarrow>
   handshake_response eres \<times> 'c" where
  "handshake alloc room junk os request app_name cl =
     bindS (create_handshake_command alloc os app_name, cl) (\<lambda>cmd cl.
     bindS (request cl (op_msg_opcode, op_msg_buffers_array [doc_data cmd])) (\<lambda>resp cl.
     bindS (liftE (expect_one_body_section_op_msg resp), cl) (\<lambda>body cl.
     (parse_handshake room junk (Some (doc_data body)), cl))))"

section \<open>Commands on a client\<close>

text \<open>
  \<^verbatim>\<open>amongoc_client_command\<close> copies the command first. Both variants use a client of the pool without the
  check of the reply.
\<close>

definition amongoc_client_command_nocopy :: "'c request_fn \<Rightarrow> bytes \<Rightarrow> 'c \<Rightarrow> bson_doc eres \<times> 'c" where
  "amongoc_client_command_nocopy request doc cl = simple_request request cl doc"

definition amongoc_client_command ::
  "reallocate_fn \<Rightarrow> 'c request_fn \<Rightarrow> doc_view \<Rightarrow> 'c \<Rightarrow> bson_doc eres \<times> 'c" where
  "amongoc_client_command alloc request doc cl =
     bindS (liftE (bson_copy_view_with_allocator alloc doc), cl) (\<lambda>d cl. simple_request request cl (doc_data d))"

section \<open>The fields of the response\<close>

text \<open>
  The kinds of fields, with what they assign. The table lists for each part of the document rule: a label,
  the key, whether the field is required, whether a value of another type is an error, and the kind. The second
  part for \<^verbatim>\<open>secondary\<close> is behind the first, which takes every element with this key: its label is no key.
\<close>

datatype hello_kind =
    Flag "bool \<Rightarrow> handshake_response \<Rightarrow> handshake_response"
  | Anything
  | Size "int \<Rightarrow> handshake_response \<Rightarrow> handshake_response"
  | Integer "int \<Rightarrow> handshake_response \<Rightarrow> handshake_response"
  | Text "bytes \<Rightarrow> handshake_response \<Rightarrow> handshake_response"
  | Texts "bytes \<Rightarrow> handshake_response \<Rightarrow> handshake_response"

fun kind_rule :: "hello_kind \<Rightarrow> hello_rule" where
  "kind_rule (Flag f) = store_rule try_bool f"
| "kind_rule Anything = just_accept"
| "kind_rule (Size f) = store_size f"
| "kind_rule (Integer f) = integer_rule (assign_rule f)"
| "kind_rule (Text f) = store_string (\<lambda>_. True) f"
| "kind_rule (Texts f) = append_strings (\<lambda>_. True) f"

text \<open>The value of a field of a kind, where \<open>es\<close> are the elements of an array.\<close>

fun text_member :: "bson_value_ref \<Rightarrow> bytes option" where
  "text_member (V_utf8 s) = Some (view_bytes s)"
| "text_member _ = None"

fun flag_member :: "bson_value_ref \<Rightarrow> bool option" where
  "flag_member (V_bool b) = Some b"
| "flag_member _ = None"

definition size_member :: "bson_value_ref \<Rightarrow> int" where
  "size_member v = (case bson_value_as_int64 v of None \<Rightarrow> 0 | Some (n, _) \<Rightarrow> uint (word_of_int n :: u64))"

definition texts_member :: "kv list \<Rightarrow> bson_value_ref \<Rightarrow> bytes list option" where
  "texts_member es v =
     (if value_type v = bson_type_array \<and> list_all (\<lambda>kv. text_member (snd kv) \<noteq> None) es
      then Some (map (\<lambda>kv. the (text_member (snd kv))) es) else None)"

fun kind_state :: "hello_kind \<Rightarrow> kv list \<Rightarrow> bson_value_ref \<Rightarrow> pstate" where
  "kind_state (Flag f) es v = opt_state (flag_member v)"
| "kind_state Anything es v = Accept"
| "kind_state (Size f) es v = Accept"
| "kind_state (Integer f) es v = opt_state (int_member v)"
| "kind_state (Text f) es v = opt_state (text_member v)"
| "kind_state (Texts f) es v = opt_state (texts_member es v)"

fun kind_effect :: "hello_kind \<Rightarrow> kv list \<Rightarrow> bson_value_ref \<Rightarrow> handshake_response \<Rightarrow> handshake_response" where
  "kind_effect (Flag f) es v = opt_effect f (flag_member v)"
| "kind_effect Anything es v = id"
| "kind_effect (Size f) es v = f (size_member v)"
| "kind_effect (Integer f) es v = opt_effect f (int_member v)"
| "kind_effect (Text f) es v = opt_effect f (text_member v)"
| "kind_effect (Texts f) es v = (if value_type v = bson_type_array
     then each_effect (\<lambda>kv. opt_state (text_member (snd kv))) (\<lambda>kv. opt_effect f (text_member (snd kv))) es else id)"

lemma try_bool_kv: "try_bool (kv_ref (k, v)) = Inr (flag_member v)"
  by (cases v) (simp_all add: try_bool_def try_as_kv bson_type_defs)

lemma try_text_kv: "try_string (kv_ref (k, v)) = Inr (text_member v)"
  by (cases v) (simp_all add: try_string_kv)

lemma gives_type_kv:
  assumes "conv (kv_ref (k, v)) = Inr x" "\<And>y. gives r y Accept (f y)"
  shows "gives (type_rule conv r) (kv_ref (k, v)) (opt_state x) (opt_effect f x)"
  using gives_type(1) [of conv "kv_ref (k, v)" r] gives_type(2) [of conv "kv_ref (k, v)" _ r] assms
  by (cases x) (auto simp: opt_state_def opt_effect_def)

text \<open>A value whose kind can be read: the elements of an array are given, a number has an integral part.\<close>

definition readable :: "kv list \<Rightarrow> bson_value_ref \<Rightarrow> bool" where
  "readable es v \<longleftrightarrow> bson_value_as_int64 v \<noteq> None \<and>
     (value_type v = bson_type_array \<longrightarrow> v = V_array (Some (kv_doc es)) \<and> kvs_ok es)"

lemma gives_text:
  "gives (type_rule try_string (\<lambda>sv s. if True then okE (Basic_result Accept None, f sv s) else throwE Bad_alloc)) (kv_ref kv)
     (opt_state (text_member (snd kv))) (opt_effect f (text_member (snd kv)))"
proof -
  have "gives (\<lambda>sv s. if True then okE (Basic_result Accept None, f sv s) else throwE Bad_alloc) y Accept (f y)" for y
    by (simp add: gives_def)
  from gives_type_kv [where conv = try_string, OF try_text_kv this, where k = "fst kv" and v = "snd kv"] show ?thesis
    by (simp only: prod.collapse)
qed

lemma each_texts: "each_state (\<lambda>kv. opt_state (text_member (snd kv))) es =
    opt_state (if list_all (\<lambda>kv. text_member (snd kv) \<noteq> None) es then Some () else None)"
proof (induction es)
  case (Cons kv es)
  then show ?case by (cases "text_member (snd kv)") (simp_all add: each_state_def opt_state_def)
qed (simp add: each_state_def opt_state_def)

lemma kind_gives:
  assumes "readable es v"
  shows "gives (kind_rule kd) (kv_ref (k, v)) (kind_state kd es v) (kind_effect kd es v)"
proof (cases kd)
  case (Flag f)
  with gives_store_kv [where conv = try_bool, OF try_bool_kv] show ?thesis by simp
next
  case Anything
  with gives_just_accept show ?thesis by simp
next
  case (Size f)
  with assms show ?thesis by (auto simp: gives_def store_size_def readable_def size_member_def)
next
  case (Integer f)
  with gives_integer_kv show ?thesis by simp
next
  case (Text f)
  have "gives (type_rule try_string (action_rule (\<lambda>sv s. if True then okE (f sv s) else throwE Bad_alloc))) (kv_ref (k, v))
      (opt_state (text_member v)) (opt_effect f (text_member v))"
    by (rule gives_type_kv [where conv = try_string, OF try_text_kv]) (simp add: gives_def action_rule_def)
  with Text show ?thesis by (simp add: store_string_def)
next
  case (Texts f)
  show ?thesis
  proof (cases "value_type v = bson_type_array")
    case True
    with assms have v: "v = V_array (Some (kv_doc es))" "kvs_ok es" by (simp_all add: readable_def)
    have "\<forall>kv \<in> set es. gives (type_rule try_string (\<lambda>sv s. if True then okE (Basic_result Accept None, f sv s) else throwE Bad_alloc))
        (kv_ref kv) (opt_state (text_member (snd kv))) (opt_effect f (text_member (snd kv)))"
      using gives_text by blast
    from gives_each [OF v(2) this] have "gives (append_strings (\<lambda>_. True) f) (kv_ref (k, v))
        (opt_state (if list_all (\<lambda>kv. text_member (snd kv) \<noteq> None) es then Some () else None))
        (each_effect (\<lambda>kv. opt_state (text_member (snd kv))) (\<lambda>kv. opt_effect f (text_member (snd kv))) es)"
      unfolding each_texts append_strings_def by (rule gives_type(2) [rotated]) (simp add: try_array_kv v(1))
    then show ?thesis
      unfolding Texts kind_rule.simps
      by (rule gives_cong) (simp_all add: texts_member_def opt_state_def True)
  next
    case False
    then have "try_array (kv_ref (k, v)) = Inr None" by (cases v) (simp_all add: try_array_kv bson_type_defs)
    with False Texts show ?thesis
      by (simp add: gives_def append_strings_def type_rule_def texts_member_def opt_state_def)
  qed
qed

type_synonym hello_entry = "bytes \<times> string \<times> bool \<times> bool \<times> hello_kind"

definition hello_table :: "hello_entry list" where
  "hello_table = map (\<lambda>(key, entry). (ascii key, key, entry))
     [(''isWritablePrimary'', True, False, Flag (\<lambda>b r. r\<lparr>isWritablePrimary := b\<rparr>)),
      (''topologyVersion'', True, False, Anything),
      (''maxBsonObjectSize'', True, True, Size (\<lambda>n r. r\<lparr>maxBsonObjectSize := n\<rparr>)),
      (''maxMessageSizeBytes'', True, True, Size (\<lambda>n r. r\<lparr>maxMessageSizeBytes := n\<rparr>)),
      (''maxWriteBatchSize'', True, True, Size (\<lambda>n r. r\<lparr>maxWriteBatchSize := n\<rparr>)),
      (''localTime'', True, False, Anything),
      (''logicalSessionTimeoutMinutes'', True, False, Anything),
      (''connectionId'', True, True, Integer (\<lambda>n r. r\<lparr>connectionId := as_i32 n\<rparr>)),
      (''minWireVersion'', True, True, Integer (\<lambda>n r. r\<lparr>minWireVersion := as_i32 n\<rparr>)),
      (''maxWireVersion'', True, True, Integer (\<lambda>n r. r\<lparr>maxWireVersion := as_i32 n\<rparr>)),
      (''readOnly'', True, True, Flag (\<lambda>b r. r\<lparr>readOnly := b\<rparr>)),
      (''compression'', False, True, Texts (\<lambda>sv r. r\<lparr>compression := compression r @ [sv]\<rparr>)),
      (''saslSupportedMechs'', False, True, Texts (\<lambda>sv r. r\<lparr>saslSupportedMechs := saslSupportedMechs r @ [sv]\<rparr>)),
      (''hosts'', False, True, Texts (\<lambda>sv r. r\<lparr>hosts := hosts r @ [sv]\<rparr>)),
      (''setName'', False, True, Text (\<lambda>sv r. r\<lparr>setName := sv\<rparr>)),
      (''setVersion'', False, True, Text (\<lambda>sv r. r\<lparr>setVersion := sv\<rparr>)),
      (''secondary'', False, True, Integer (\<lambda>n r. r\<lparr>setVersion := as_char n\<rparr>))] @
   ([0], ''secondary'', False, True, Integer (\<lambda>n r. r\<lparr>setVersion := as_char n\<rparr>)) #
   map (\<lambda>(key, entry). (ascii key, key, entry))
     [(''passives'', False, True, Texts (\<lambda>sv r. r\<lparr>passives := passives r @ [sv]\<rparr>)),
      (''arbiters'', False, True, Texts (\<lambda>sv r. r\<lparr>arbiters := arbiters r @ [sv]\<rparr>)),
      (''primary'', False, True, Text (\<lambda>sv r. r\<lparr>primary := sv\<rparr>)),
      (''arbiterOnly'', False, True, Integer (\<lambda>n r. r\<lparr>arbiterOnly := n \<noteq> 0\<rparr>)),
      (''passive'', False, True, Integer (\<lambda>n r. r\<lparr>is_passive := n \<noteq> 0\<rparr>)),
      (''hidden'', False, True, Integer (\<lambda>n r. r\<lparr>hidden := n \<noteq> 0\<rparr>)),
      (''me'', False, True, Text (\<lambda>sv r. r\<lparr>me := sv\<rparr>)),
      (''electionId'', False, True, Text (\<lambda>sv r. r\<lparr>electionId := sv\<rparr>)),
      (''msg'', False, True, Text (\<lambda>sv r. r\<lparr>msg := sv\<rparr>))]"

fun entry_part :: "hello_entry \<Rightarrow> bytes \<times> handshake_response doc_part" where
  "entry_part (label, key, req, strict, kind) =
     (let r = (if strict then must_rule (kind_rule kind) else kind_rule kind)
      in (label, if req then require (ascii key) r else Opt (field key r)))"

lemma hello_parts_table: "hello_parts (\<lambda>_. True) = map snd (map entry_part hello_table) @ [Opt just_accept]"
  by (simp add: hello_parts_def hello_table_def)

definition hello_label :: "bytes \<Rightarrow> bytes" where
  "hello_label k = (if k = [0] then [] else k)"

text \<open>What the parts answer, where \<open>arr\<close> maps the keys of arrays to their elements.\<close>

definition hello_state :: "(bytes \<Rightarrow> kv list) \<Rightarrow> bytes \<Rightarrow> bson_value_ref \<Rightarrow> pstate" where
  "hello_state arr k v =
     (case map_of hello_table k of
        None \<Rightarrow> Reject
      | Some (key, req, strict, kind) \<Rightarrow>
          if strict \<and> kind_state kind (arr k) v = Reject then Error else kind_state kind (arr k) v)"

definition hello_effect ::
  "(bytes \<Rightarrow> kv list) \<Rightarrow> bytes \<Rightarrow> bson_value_ref \<Rightarrow> handshake_response \<Rightarrow> handshake_response" where
  "hello_effect arr k v =
     (case map_of hello_table k of None \<Rightarrow> id | Some (key, req, strict, kind) \<Rightarrow> kind_effect kind (arr k) v)"

lemma ascii_0: "ascii key = [0] \<longleftrightarrow> key = [CHR 0x00]" "[0] = ascii key \<longleftrightarrow> key = [CHR 0x00]"
  "ascii key = [] \<longleftrightarrow> key = []" "[] = ascii key \<longleftrightarrow> key = []"
  using ascii_eq [of key "[CHR 0x00]"] by (auto simp: ascii_def)

lemma hello_labels: "distinct (map fst hello_table)"
  by (simp add: hello_table_def ascii_eq ascii_0)

lemma entry_part_fst: "fst (entry_part e) = fst e"
  by (cases e) (simp add: Let_def)

lemma entry_keys: "(label, key, rest) \<in> set hello_table \<Longrightarrow> label = ascii key \<or> label = [0] \<and> key = ''secondary''"
  "(label, key, rest) \<in> set hello_table \<Longrightarrow> key \<noteq> [CHR 0x00] \<and> key \<noteq> []"
  by (auto simp: hello_table_def)

lemma table_entry:
  assumes "(label, key, req, strict, kind) \<in> set hello_table"
  shows "hello_state arr label v =
      (if strict \<and> kind_state kind (arr label) v = Reject then Error else kind_state kind (arr label) v)"
    "hello_effect arr label v = kind_effect kind (arr label) v"
  using assms hello_labels by (simp_all add: hello_state_def hello_effect_def)

lemma entry_gives:
  assumes "(label, key, req, strict, kind) \<in> set hello_table" "readable (arr label) v"
  shows "gives (part_rule (snd (entry_part (label, key, req, strict, kind)))) (kv_ref (ascii key, v))
    (hello_state arr label v) (hello_effect arr label v)"
proof -
  have k: "gives (kind_rule kind) (kv_ref (ascii key, v)) (kind_state kind (arr label) v) (kind_effect kind (arr label) v)"
    using kind_gives [OF assms(2)] .
  have "gives (if strict then must_rule (kind_rule kind) else kind_rule kind) (kv_ref (ascii key, v))
      (hello_state arr label v) (hello_effect arr label v)"
    using k gives_cong [OF gives_must [OF k]] unfolding table_entry [OF assms(1)] by auto
  then show ?thesis by (auto simp: Let_def require_def field_def intro: gives_field)
qed

lemma entry_other_key:
  "k \<noteq> ascii key \<Longrightarrow> gives (part_rule (snd (entry_part (label, key, req, strict, kind)))) (kv_ref (k, v)) Reject id"
  by (auto simp: Let_def require_def field_def intro: gives_field)

text \<open>The part behind the first one for \<^verbatim>\<open>secondary\<close>.\<close>

lemma before_duplicate:
  assumes "map entry_part hello_table = before @ ([0], d) # after"
  shows "ascii ''secondary'' \<in> fst ` set before"
proof -
  have "distinct (map fst (before @ ([0], d) # after))"
    using hello_labels unfolding assms [symmetric] by (simp add: entry_part_fst o_def)
  then have "before = takeWhile (\<lambda>p. fst p \<noteq> [0]) (before @ ([0], d) # after)"
    by (subst takeWhile_append2) (force, simp)
  also have "map fst \<dots> = takeWhile (\<lambda>l. l \<noteq> [0]) (map fst hello_table)"
    unfolding assms [symmetric] by (simp add: takeWhile_map entry_part_fst o_def)
  finally have "fst ` set before = set (takeWhile (\<lambda>l. l \<noteq> [0]) (map fst hello_table))"
    by (metis list.set_map)
  then show ?thesis by (simp add: hello_table_def ascii_0)
qed

interpretation hello: keyed_parts "map entry_part hello_table" "[Opt just_accept]" hello_label
  "\<lambda>k v. readable (arr k) v" "hello_state arr" "hello_effect arr" for arr
proof unfold_locales
  show "distinct (map fst (map entry_part hello_table))"
    using hello_labels by (simp add: entry_part_fst o_def)
next
  fix c d assume "(c, d) \<in> set (map entry_part hello_table)"
  then obtain key req strict kind where e: "(c, key, req, strict, kind) \<in> set hello_table"
    "(c, d) = entry_part (c, key, req, strict, kind)"
    by (force simp: Let_def)
  show "d \<noteq> Reject_others" using e(2) by (auto simp: Let_def require_def split: if_splits)
  show "gives (part_rule d) (kv_ref (k, v)) (hello_state arr k v) (hello_effect arr k v)"
    if "hello_label k = c" "readable (arr k) v" for k v
  proof -
    have "c \<noteq> [0]" using that(1) by (auto simp: hello_label_def split: if_splits)
    then have c: "c = ascii key" using entry_keys [OF e(1)] by blast
    then have "k = c" using that(1) entry_keys(2) [OF e(1)] by (auto simp: hello_label_def ascii_0 split: if_splits)
    with entry_gives [OF e(1), of arr v] that(2) c e(2) [symmetric] show ?thesis by simp
  qed
next
  fix before c d after k v
  assume fs: "map entry_part hello_table = before @ (c, d) # after" and k: "hello_label k \<noteq> c"
    and b: "hello_label k \<in> fst ` set before \<longrightarrow> readable (arr k) v \<and> hello_state arr k v = Reject"
  have "(c, d) \<in> set (map entry_part hello_table)" unfolding fs by simp
  then obtain key req strict kind where e: "(c, key, req, strict, kind) \<in> set hello_table"
    "(c, d) = entry_part (c, key, req, strict, kind)"
    by (force simp: Let_def)
  have "k \<noteq> ascii key"
  proof
    assume ke: "k = ascii key"
    then have l: "hello_label k = k" using entry_keys(2) [OF e(1)] by (simp add: hello_label_def ascii_0)
    then have c: "c = [0]" "k = ascii ''secondary''" using k ke entry_keys(1) [OF e(1)] by auto
    then have "hello_state arr k v = Reject" using b l before_duplicate [of before d after] fs by auto
    moreover have "(ascii ''secondary'', ''secondary'', False, True, Integer (\<lambda>n r. r\<lparr>setVersion := as_char n\<rparr>)) \<in> set hello_table"
      by (simp add: hello_table_def)
    ultimately show False using c(2) by (auto simp: table_entry opt_state_def split: if_splits)
  qed
  from entry_other_key [OF this, of c req strict kind v] e(2) [symmetric]
  show "gives (part_rule d) (kv_ref (k, v)) Reject id" by simp
next
  show "all_fine (map new_part [Opt just_accept])" by (simp add: all_fine_def)
next
  fix k v qs and s :: handshake_response
  assume "all_fine qs"
  then show "\<exists>st qs'. handle_parts [Opt just_accept] qs (kv_ref (k, v)) s = okE (st, qs', s) \<and> st \<noteq> Error \<and> all_fine qs'"
  proof (cases qs)
    case (Cons q qs')
    with \<open>all_fine qs\<close> show ?thesis
      by (cases q) (auto simp: all_fine_def handle_with_def just_accept_def all_rule_def split: if_splits)
  qed simp
qed

section \<open>A well-formed response\<close>

definition has_field :: "kv list \<Rightarrow> (bson_value_ref \<Rightarrow> bool) \<Rightarrow> string \<Rightarrow> bool" where
  "has_field kvs P key = (case map_of kvs (ascii key) of None \<Rightarrow> False | Some v \<Rightarrow> P v)"

definition may_have_field :: "kv list \<Rightarrow> (bson_value_ref \<Rightarrow> bool) \<Rightarrow> string \<Rightarrow> bool" where
  "may_have_field kvs P key = (case map_of kvs (ascii key) of None \<Rightarrow> True | Some v \<Rightarrow> P v)"

definition hello_fits :: "(bytes \<Rightarrow> kv list) \<Rightarrow> kv list \<Rightarrow> bool" where
  "hello_fits arr kvs \<longleftrightarrow>
     list_all (has_field kvs (\<lambda>v. flag_member v \<noteq> None)) [''isWritablePrimary'', ''readOnly''] \<and>
     list_all (has_field kvs (\<lambda>_. True)) [''topologyVersion'', ''maxBsonObjectSize'', ''maxMessageSizeBytes'',
       ''maxWriteBatchSize'', ''localTime'', ''logicalSessionTimeoutMinutes''] \<and>
     list_all (has_field kvs (\<lambda>v. int_member v \<noteq> None)) [''connectionId'', ''minWireVersion'', ''maxWireVersion''] \<and>
     list_all (may_have_field kvs (\<lambda>v. int_member v \<noteq> None)) [''secondary'', ''arbiterOnly'', ''passive'', ''hidden''] \<and>
     list_all (may_have_field kvs (\<lambda>v. text_member v \<noteq> None))
       [''setName'', ''setVersion'', ''primary'', ''me'', ''electionId'', ''msg''] \<and>
     list_all (\<lambda>key. may_have_field kvs (\<lambda>v. texts_member (arr (ascii key)) v \<noteq> None) key)
       [''compression'', ''saslSupportedMechs'', ''hosts'', ''passives'', ''arbiters'']"

lemma kvs_ok_keys: "kvs_ok kvs \<Longrightarrow> (k, v) \<in> set kvs \<Longrightarrow> k \<noteq> [0]"
  by (auto simp: kvs_ok_def list_all_iff kv_ok_def)

lemma hello_labels_id:
  assumes "kvs_ok kvs"
  shows "map (\<lambda>kv. hello_label (fst kv)) kvs = map fst kvs"
    "look hello_label kvs c = (if c = [0] then None else map_option (Pair c) (map_of kvs c))"
proof -
  have l: "hello_label (fst kv) = fst kv" if "kv \<in> set kvs" for kv
    using kvs_ok_keys [OF assms, of "fst kv" "snd kv"] that by (simp add: hello_label_def)
  then show "map (\<lambda>kv. hello_label (fst kv)) kvs = map fst kvs" by simp
  have "look hello_label kvs c = look (\<lambda>k. k) kvs c"
    unfolding look_def using l by (auto intro: find_cong)
  moreover have "look (\<lambda>k. k) kvs [0] = None" using kvs_ok_keys [OF assms] by (force simp: look_None)
  ultimately show "look hello_label kvs c = (if c = [0] then None else map_option (Pair c) (map_of kvs c))"
    by (auto simp: look_id)
qed

lemma hello_accepts:
  assumes "kvs_ok kvs" "distinct (map fst kvs)"
  shows "hello.accepts arr kvs \<longleftrightarrow> hello_fits arr kvs"
proof -
  have d: "distinct (map (\<lambda>kv. hello_label (fst kv)) kvs)" using assms(2) by (simp add: hello_labels_id(1) [OF assms(1)])
  have st: "kind_state kind es v \<noteq> Error" for kind es v by (cases kind) (simp_all add: opt_state_def)
  let ?fine = "\<lambda>(label, key :: string, req, strict :: bool, kind). case (if label = [0] then None else map_of kvs label) of
      None \<Rightarrow> \<not> req | Some v \<Rightarrow> kind_state kind (arr label) v = Accept"
  have e: "(case look hello_label kvs (fst (entry_part e)) of None \<Rightarrow> \<not> required (snd (entry_part e))
      | Some (k, v) \<Rightarrow> hello_state arr k v \<noteq> Error \<and> (required (snd (entry_part e)) \<longrightarrow> hello_state arr k v = Accept))
      \<longleftrightarrow> ?fine e" if e: "e \<in> set hello_table" for e
  proof -
    obtain label key req strict kind where e': "e = (label, key, req, strict, kind)" by (cases e)
    have "strict \<or> req" using e by (auto simp: e' hello_table_def)
    moreover have "required (snd (entry_part e)) = req" by (simp add: e' Let_def require_def)
    ultimately show ?thesis
      using table_entry(1) [of label key req strict kind arr] e st [of kind]
      by (auto simp: e' hello_labels_id(2) [OF assms(1)] Let_def split: option.split) (metis pstate.exhaust)+
  qed
  have "hello.accepts arr kvs \<longleftrightarrow> (\<forall>e \<in> set hello_table. ?fine e)"
    unfolding hello.accepts_look [OF d] using e by (auto simp: case_prod_beta)
  also have "\<dots> \<longleftrightarrow> hello_fits arr kvs"
  proof -
    define fine where "fine = ?fine"
    have f: "fine (ascii key, key, True, strict, kind) \<longleftrightarrow> has_field kvs (\<lambda>v. kind_state kind (arr (ascii key)) v = Accept) key"
      "fine (ascii key, key, False, strict, kind) \<longleftrightarrow> may_have_field kvs (\<lambda>v. kind_state kind (arr (ascii key)) v = Accept) key"
      "fine ([0], key, False, strict, kind)"
      if "key \<noteq> [CHR 0x00]" for key strict kind
      using that by (simp_all add: fine_def ascii_0 has_field_def may_have_field_def split: option.split)
    have o: "(opt_state x = Accept) = (x \<noteq> None)" for x :: "'a option" by (simp add: opt_state_def)
    have "(\<forall>e \<in> set hello_table. fine e) \<longleftrightarrow> list_all fine hello_table" by (simp only: list_all_iff)
    also have "\<dots> \<longleftrightarrow> hello_fits arr kvs"
      unfolding hello_table_def hello_fits_def by (simp add: f o conj_ac del: not_None_eq)
    finally show ?thesis unfolding fine_def .
  qed
  finally show ?thesis .
qed

text \<open>A member that one kind of field assigns, by lookup of its key.\<close>

lemma each_effect_get:
  assumes "\<And>kv s. get (eff kv s) = eff' kv (get s)"
  shows "get (each_effect st eff es s) = each_effect st eff' es (get s)"
proof -
  have "get (fold eff xs s) = fold eff' xs (get s)" for xs s
    by (induction xs arbitrary: s) (simp_all add: assms)
  then show ?thesis by (simp add: each_effect_def)
qed

lemma each_effect_keeps:
  assumes "\<And>kv s. get (eff kv s) = get s"
  shows "get (each_effect st eff es s) = get s"
  using each_effect_get [of get eff "\<lambda>_. id" st es s] assms by (simp add: each_effect_def fold_id)

lemma hello_get:
  assumes "kvs_ok kvs" "distinct (map fst kvs)" "key \<in> (fst \<circ> snd) ` set hello_table"
    and "list_all (\<lambda>(label, k, req, strict, kind). \<forall>es v s.
      get (kind_effect kind es v s) = (if label = ascii key then f es v (get s) else get s)) hello_table"
  shows "get (hello.effects arr kvs s) =
    (case map_of kvs (ascii key) of None \<Rightarrow> get s | Some v \<Rightarrow> f (arr (ascii key)) v (get s))"
proof -
  have d: "distinct (map (\<lambda>kv. hello_label (fst kv)) kvs)" using assms(2) by (simp add: hello_labels_id(1) [OF assms(1)])
  have n0: "ascii key \<noteq> [0]" using assms(3) entry_keys(2) by (force simp: ascii_0)
  have step: "get (hello_effect arr k v s) = (if hello_label k = ascii key then f (arr (ascii key)) v (get s) else get s)"
    if "hello_label k \<in> fst ` set (map entry_part hello_table)" for k v s
  proof -
    from that obtain e' where e': "e' \<in> set hello_table" "hello_label k = fst (entry_part e')" by auto
    obtain label key' req strict kind where t: "e' = (label, key', req, strict, kind)" by (rule prod_cases5)
    have e: "(label, key', req, strict, kind) \<in> set hello_table" "hello_label k = label"
      using e' unfolding t entry_part_fst by simp_all
    have "k = label"
      using e(2) entry_keys [OF e(1)] by (auto simp: hello_label_def ascii_0 split: if_splits)
    moreover have "get (kind_effect kind es v s) = (if label = ascii key then f es v (get s) else get s)" for es
      using assms(4) e(1) by (auto simp: list_all_iff)
    ultimately show ?thesis using e by (simp add: table_entry(2) [OF e(1)])
  qed
  have key: "ascii key \<in> fst ` set (map entry_part hello_table)"
  proof -
    from assms(3) obtain label rest where "(label, key, rest) \<in> set hello_table" by auto
    then have "label = ascii key \<or> label = [0] \<and> key = ''secondary''" "label \<in> fst ` set hello_table"
      using entry_keys(1) [of label key rest] by force+
    moreover have "ascii ''secondary'' \<in> fst ` set hello_table" by (simp add: hello_table_def)
    ultimately have "ascii key \<in> fst ` set hello_table" by metis
    then show ?thesis by (simp only: set_map image_image entry_part_fst)
  qed
  have "get (hello.effects arr kvs s) = (case look hello_label kvs (ascii key) of None \<Rightarrow> get s
      | Some (k, v) \<Rightarrow> f (arr (ascii key)) v (get s))"
    by (rule hello.effects_get [where f = "\<lambda>k. f (arr (ascii key))", OF step key d])
  with n0 show ?thesis by (simp add: hello_labels_id(2) [OF assms(1)] split: option.split)
qed

lemmas hello_get_simps = hello_table_def ascii_eq ascii_0 opt_effect_def each_effect_keeps

lemma parse_hello:
  assumes "kvs_ok kvs" "distinct (map fst kvs)" "\<forall>(k, v) \<in> set kvs. readable (arr k) v"
  shows "\<exists>msg. parse_handshake (\<lambda>_. True) junk (Some (kv_doc kvs)) =
    (if hello_fits arr kvs then okE (hello.effects arr kvs (new_handshake_response junk))
     else throwE (Protocol_error msg))"
proof -
  have "distinct (map (\<lambda>kv. hello_label (fst kv)) kvs)" using assms(2) by (simp add: hello_labels_id(1) [OF assms(1)])
  moreover have "\<forall>(k, v) \<in> set kvs. hello_label k \<in> fst ` set (map entry_part hello_table) \<longrightarrow> readable (arr k) v"
    using assms(3) by blast
  ultimately show ?thesis
    using hello.must_parse_parts [OF assms(1), of arr "new_handshake_response junk"]
    unfolding parse_handshake_def hello_parts_table hello_accepts [OF assms(1,2)] by blast
qed

text \<open>
  The response that a reply describes, member by member: a member that the driver reads from one field has the value of
  that field, or its initial value if the reply does not have the field. No field is read into \<^verbatim>\<open>topologyVersion\<close>,
  \<^verbatim>\<open>logicalSessionTimeoutMinutes\<close> and \<^verbatim>\<open>secondary\<close>. Two fields are read into \<^verbatim>\<open>setVersion\<close>: the last of
  \<^verbatim>\<open>setVersion\<close> and \<^verbatim>\<open>secondary\<close> in the reply decides, and \<^verbatim>\<open>secondary\<close>, a number, makes it a string of one character.
\<close>

definition reply_field :: "kv list \<Rightarrow> (bson_value_ref \<Rightarrow> 'a option) \<Rightarrow> 'a \<Rightarrow> string \<Rightarrow> 'a" where
  "reply_field kvs conv old key =
     (case map_of kvs (ascii key) of None \<Rightarrow> old | Some v \<Rightarrow> (case conv v of None \<Rightarrow> old | Some x \<Rightarrow> x))"

definition set_version_field :: "kv list \<Rightarrow> bytes" where
  "set_version_field kvs =
     (case find (\<lambda>kv. fst kv \<in> {ascii ''setVersion'', ascii ''secondary''}) (rev kvs) of
        None \<Rightarrow> []
      | Some (k, v) \<Rightarrow> if k = ascii ''setVersion'' then the (text_member v) else as_char (the (int_member v)))"

definition described_response :: "(bytes \<Rightarrow> kv list) \<Rightarrow> int \<Rightarrow> kv list \<Rightarrow> handshake_response" where
  "described_response arr junk kvs =
    (let flag = reply_field kvs flag_member False;
         size_of = reply_field kvs (\<lambda>v. Some (size_member v));
         number = reply_field kvs (\<lambda>v. map_option as_i32 (int_member v));
         truth = reply_field kvs (\<lambda>v. map_option (\<lambda>n. n \<noteq> 0) (int_member v)) False;
         string_of = reply_field kvs text_member [];
         strings = (\<lambda>key. reply_field kvs (texts_member (arr (ascii key))) [] key)
     in \<lparr>isWritablePrimary = flag ''isWritablePrimary'',
         topologyVersion = [],
         maxBsonObjectSize = size_of (16 * 1024 * 1024) ''maxBsonObjectSize'',
         maxMessageSizeBytes = size_of 48000000 ''maxMessageSizeBytes'',
         maxWriteBatchSize = size_of 100000 ''maxWriteBatchSize'',
         logicalSessionTimeoutMinutes = 0,
         connectionId = number junk ''connectionId'',
         minWireVersion = number 0 ''minWireVersion'',
         maxWireVersion = number 0 ''maxWireVersion'',
         readOnly = flag ''readOnly'',
         compression = strings ''compression'',
         saslSupportedMechs = strings ''saslSupportedMechs'',
         hosts = strings ''hosts'',
         setName = string_of ''setName'',
         setVersion = set_version_field kvs,
         secondary = False,
         passives = strings ''passives'',
         arbiters = strings ''arbiters'',
         primary = string_of ''primary'',
         arbiterOnly = truth ''arbiterOnly'',
         is_passive = truth ''passive'',
         hidden = truth ''hidden'',
         me = string_of ''me'',
         electionId = string_of ''electionId'',
         msg = string_of ''msg''\<rparr>)"

text \<open>A member that one field is read into.\<close>

lemma hello_value:
  assumes "kvs_ok kvs" "distinct (map fst kvs)" "key \<in> (fst \<circ> snd) ` set hello_table"
    and "list_all (\<lambda>(label, k, req, strict, kind). \<forall>es v s. get (kind_effect kind es v s) =
      (if label = ascii key then case conv v of None \<Rightarrow> get s | Some x \<Rightarrow> x else get s)) hello_table"
  shows "get (hello.effects arr kvs s) = reply_field kvs conv (get s) key"
  using hello_get [OF assms(1-3), of get "\<lambda>es v old. case conv v of None \<Rightarrow> old | Some x \<Rightarrow> x" arr s] assms(4)
  by (simp add: reply_field_def)

text \<open>A member that an array of strings is read into.\<close>

definition append_texts :: "kv list \<Rightarrow> bson_value_ref \<Rightarrow> bytes list \<Rightarrow> bytes list" where
  "append_texts es v old = (if value_type v = bson_type_array then each_effect (\<lambda>kv. opt_state (text_member (snd kv)))
     (\<lambda>kv. opt_effect (\<lambda>sv xs. xs @ [sv]) (text_member (snd kv))) es old else old)"

lemma append_texts_all:
  assumes "texts_member es v \<noteq> None"
  shows "append_texts es v [] = the (texts_member es v)"
proof -
  have f: "fold (\<lambda>kv. opt_effect (\<lambda>sv xs. xs @ [sv]) (text_member (snd kv))) es xs = xs @ map (\<lambda>kv. the (text_member (snd kv))) es"
    if "list_all (\<lambda>kv. text_member (snd kv) \<noteq> None) es" for xs es
    using that by (induction es arbitrary: xs) (auto simp: opt_effect_def)
  have t: "value_type v = bson_type_array" "list_all (\<lambda>kv. text_member (snd kv) \<noteq> None) es"
    using assms by (simp_all add: texts_member_def split: if_splits)
  from t(2) have "\<forall>kv \<in> set es. opt_state (text_member (snd kv)) = Accept"
    by (simp add: list_all_iff opt_state_def)
  note each_all_accept [OF this, THEN conjunct2, of "\<lambda>kv. opt_effect (\<lambda>sv xs. xs @ [sv]) (text_member (snd kv))"]
  with t f [OF t(2), of "[]"] show ?thesis by (simp add: texts_member_def append_texts_def)
qed

lemma hello_texts:
  assumes "kvs_ok kvs" "distinct (map fst kvs)" "key \<in> (fst \<circ> snd) ` set hello_table"
    and "list_all (\<lambda>(label, k, req, strict, kind). \<forall>es v s. get (kind_effect kind es v s) =
      (if label = ascii key then append_texts es v (get s) else get s)) hello_table"
    and "may_have_field kvs (\<lambda>v. texts_member (arr (ascii key)) v \<noteq> None) key" "get s = []"
  shows "get (hello.effects arr kvs s) = reply_field kvs (texts_member (arr (ascii key))) [] key"
  using hello_get [OF assms(1-4), of arr s] assms(5,6)
  by (auto simp: reply_field_def may_have_field_def append_texts_all split: option.splits)

text \<open>The member that two fields are read into.\<close>

lemma hello_effect_get:
  assumes "list_all (\<lambda>(label, key, req, strict, kind). \<forall>es v s. get (kind_effect kind es v s) = f label es v (get s)) hello_table"
  shows "get (hello_effect arr k v s) = (if k \<in> fst ` set hello_table then f k (arr k) v (get s) else get s)"
proof (cases "map_of hello_table k")
  case None
  then have "k \<notin> fst ` set hello_table" by (simp only: map_of_eq_None_iff not_False_eq_True)
  with None show ?thesis by (simp only: hello_effect_def option.case id_apply if_False)
next
  case (Some e)
  then have m: "(k, e) \<in> set hello_table" by (rule map_of_SomeD)
  obtain key req strict kind where e: "e = (key, req, strict, kind)" by (cases e)
  have "k \<in> fst ` set hello_table" using m by force
  moreover have "get (kind_effect kind (arr k) v s) = f k (arr k) v (get s)"
    using assms m unfolding e by (auto simp: list_all_iff)
  ultimately show ?thesis using Some by (simp add: hello_effect_def e)
qed

lemma hello_set_version:
  assumes "\<forall>kv \<in> set kvs. fst kv \<noteq> [0]" "\<forall>v. (ascii ''setVersion'', v) \<in> set kvs \<longrightarrow> text_member v \<noteq> None"
    "\<forall>v. (ascii ''secondary'', v) \<in> set kvs \<longrightarrow> int_member v \<noteq> None" "setVersion s = []"
  shows "setVersion (hello.effects arr kvs s) = set_version_field kvs"
  using assms(1-3)
proof (induction kvs rule: rev_induct)
  case Nil
  then show ?case by (simp add: hello.effects_def set_version_field_def assms(4))
next
  case (snoc kv kvs)
  obtain k v where kv: "kv = (k, v)" by (cases kv)
  have k0: "k \<noteq> [0]" using snoc.prems(1) kv by simp
  have IH: "setVersion (hello.effects arr kvs s) = set_version_field kvs"
    by (rule snoc.IH) (use snoc.prems in auto)
  let ?f = "\<lambda>label es v old. if label = ascii ''setVersion'' then (case text_member v of None \<Rightarrow> old | Some x \<Rightarrow> x)
     else if label = ascii ''secondary'' \<or> label = [0] then (case int_member v of None \<Rightarrow> old | Some n \<Rightarrow> as_char n) else old"
  have g: "setVersion (hello_effect arr k v t) = (if k \<in> fst ` set hello_table then ?f k (arr k) v (setVersion t) else setVersion t)" for t
    by (rule hello_effect_get [where f = ?f]) (simp add: hello_get_simps split: option.split)
  have keys: "ascii ''setVersion'' \<in> fst ` set hello_table" "ascii ''secondary'' \<in> fst ` set hello_table"
    by (simp_all add: hello_table_def)
  have e: "hello.effects arr (kvs @ [kv]) s =
      (if k \<in> fst ` set hello_table then hello_effect arr k v (hello.effects arr kvs s) else hello.effects arr kvs s)"
    using k0 by (simp add: hello.effects_def kv hello_label_def entry_part_fst image_image)
  have tm: "\<exists>t. text_member v = Some t" if "k = ascii ''setVersion''"
    using snoc.prems(2) that by (simp add: kv)
  have im: "\<exists>n. int_member v = Some n" if "k = ascii ''secondary''"
    using snoc.prems(3) that by (simp add: kv)
  have "setVersion (hello.effects arr (kvs @ [kv]) s) =
      (if k = ascii ''setVersion'' then the (text_member v) else if k = ascii ''secondary'' then as_char (the (int_member v))
       else setVersion (hello.effects arr kvs s))"
  proof (cases "k \<in> {ascii ''setVersion'', ascii ''secondary''}")
    case True
    then have "k \<in> fst ` set hello_table" using keys by auto
    then have "setVersion (hello.effects arr (kvs @ [kv]) s) = ?f k (arr k) v (setVersion (hello.effects arr kvs s))"
      unfolding e by (simp only: g if_True)
    moreover have "?f k (arr k) v old = (if k = ascii ''setVersion'' then the (text_member v) else as_char (the (int_member v)))"
      for old
    proof (cases "k = ascii ''setVersion''")
      case True
      with tm obtain t where "text_member v = Some t" by blast
      with True show ?thesis by (simp only: refl if_True option.case option.sel)
    next
      case False
      with True im obtain n where "k = ascii ''secondary''" "int_member v = Some n" by blast
      then show ?thesis by (simp only: ascii_eq refl if_True if_False simp_thms option.case option.sel list.inject char.inject list.distinct)
    qed
    ultimately show ?thesis using True by (simp only: insert_iff empty_iff simp_thms if_True split: if_split) blast
  next
    case False
    then have k: "k \<noteq> ascii ''setVersion''" "k \<noteq> ascii ''secondary''" by simp_all
    then have "setVersion (hello_effect arr k v t) = setVersion t" for t
      unfolding g by (simp only: k0 simp_thms if_False if_cancel)
    then show ?thesis unfolding e by (simp only: k if_False if_cancel if_distrib [of setVersion])
  qed
  then show ?case by (simp add: IH set_version_field_def kv)
qed

text \<open>The members of a response that is accepted.\<close>

lemma hello_response:
  assumes "kvs_ok kvs" "distinct (map fst kvs)" "hello_fits arr kvs"
  shows "hello.effects arr kvs (new_handshake_response junk) = described_response arr junk kvs"
proof -
  let ?s = "new_handshake_response junk" let ?r = "hello.effects arr kvs ?s"
  note value_of = hello_value [OF assms(1,2), where arr = arr and s = ?s]
    and texts_of = hello_texts [OF assms(1,2), where arr = arr and s = ?s]
  have flags: "isWritablePrimary ?r = reply_field kvs flag_member (isWritablePrimary ?s) ''isWritablePrimary''"
    "readOnly ?r = reply_field kvs flag_member (readOnly ?s) ''readOnly''"
    by (rule value_of; simp add: hello_get_simps split: option.split)+
  have unread: "topologyVersion ?r = reply_field kvs (\<lambda>_. None) (topologyVersion ?s) ''topologyVersion''"
    "logicalSessionTimeoutMinutes ?r = reply_field kvs (\<lambda>_. None) (logicalSessionTimeoutMinutes ?s) ''topologyVersion''"
    "secondary ?r = reply_field kvs (\<lambda>_. None) (secondary ?s) ''topologyVersion''"
    by (rule value_of; simp add: hello_get_simps split: option.split)+
  have sizes: "maxBsonObjectSize ?r = reply_field kvs (\<lambda>v. Some (size_member v)) (maxBsonObjectSize ?s) ''maxBsonObjectSize''"
    "maxMessageSizeBytes ?r = reply_field kvs (\<lambda>v. Some (size_member v)) (maxMessageSizeBytes ?s) ''maxMessageSizeBytes''"
    "maxWriteBatchSize ?r = reply_field kvs (\<lambda>v. Some (size_member v)) (maxWriteBatchSize ?s) ''maxWriteBatchSize''"
    by (rule value_of; simp add: hello_get_simps split: option.split)+
  have numbers: "connectionId ?r = reply_field kvs (\<lambda>v. map_option as_i32 (int_member v)) (connectionId ?s) ''connectionId''"
    "minWireVersion ?r = reply_field kvs (\<lambda>v. map_option as_i32 (int_member v)) (minWireVersion ?s) ''minWireVersion''"
    "maxWireVersion ?r = reply_field kvs (\<lambda>v. map_option as_i32 (int_member v)) (maxWireVersion ?s) ''maxWireVersion''"
    by (rule value_of; simp add: hello_get_simps split: option.split)+
  have truths: "arbiterOnly ?r = reply_field kvs (\<lambda>v. map_option (\<lambda>n. n \<noteq> 0) (int_member v)) (arbiterOnly ?s) ''arbiterOnly''"
    "is_passive ?r = reply_field kvs (\<lambda>v. map_option (\<lambda>n. n \<noteq> 0) (int_member v)) (is_passive ?s) ''passive''"
    "hidden ?r = reply_field kvs (\<lambda>v. map_option (\<lambda>n. n \<noteq> 0) (int_member v)) (hidden ?s) ''hidden''"
    by (rule value_of; simp add: hello_get_simps split: option.split)+
  have strings: "setName ?r = reply_field kvs text_member (setName ?s) ''setName''"
    "primary ?r = reply_field kvs text_member (primary ?s) ''primary''" "me ?r = reply_field kvs text_member (me ?s) ''me''"
    "electionId ?r = reply_field kvs text_member (electionId ?s) ''electionId''"
    "msg ?r = reply_field kvs text_member (msg ?s) ''msg''"
    by (rule value_of; simp add: hello_get_simps split: option.split)+
  have may: "may_have_field kvs (\<lambda>v. texts_member (arr (ascii key)) v \<noteq> None) key"
    if "key \<in> {''compression'', ''saslSupportedMechs'', ''hosts'', ''passives'', ''arbiters''}" for key
    using assms(3) that by (auto simp: hello_fits_def)
  have texts: "compression ?r = reply_field kvs (texts_member (arr (ascii ''compression''))) [] ''compression''"
    "saslSupportedMechs ?r = reply_field kvs (texts_member (arr (ascii ''saslSupportedMechs''))) [] ''saslSupportedMechs''"
    "hosts ?r = reply_field kvs (texts_member (arr (ascii ''hosts''))) [] ''hosts''"
    "passives ?r = reply_field kvs (texts_member (arr (ascii ''passives''))) [] ''passives''"
    "arbiters ?r = reply_field kvs (texts_member (arr (ascii ''arbiters''))) [] ''arbiters''"
    by (rule texts_of [OF _ _ may];
        simp add: hello_get_simps append_texts_def new_handshake_response_def each_effect_get [where get = compression]
          each_effect_get [where get = saslSupportedMechs] each_effect_get [where get = hosts]
          each_effect_get [where get = passives] each_effect_get [where get = arbiters] split: option.split)+
  have "may_have_field kvs (\<lambda>v. text_member v \<noteq> None) ''setVersion''" "may_have_field kvs (\<lambda>v. int_member v \<noteq> None) ''secondary''"
    using assms(3) by (simp_all add: hello_fits_def)
  then have version: "setVersion ?r = set_version_field kvs"
    using assms(2) kvs_ok_keys [OF assms(1)]
    by (intro hello_set_version) (auto simp: may_have_field_def new_handshake_response_def simp del: not_None_eq)
  have none: "reply_field kvs (\<lambda>_. None) old key = old" for old :: 'a and key
    by (simp add: reply_field_def split: option.split)
  show ?thesis
    by (rule handshake_response.equality; (unfold flags unread sizes numbers truths strings texts version none)?;
        simp add: described_response_def new_handshake_response_def Let_def)
qed

definition handshake_fields :: "operating_system_t \<Rightarrow> bytes option \<Rightarrow> kv list" where
  "handshake_fields os app_name =
     [(ascii ''hello'', V_int32 1), (ascii ''$db'', V_utf8 (Some (ascii ''admin''))),
      (ascii ''client'', V_document (Some (kv_doc
        ((case app_name of None \<Rightarrow> []
          | Some name \<Rightarrow> [(ascii ''application'', V_document (Some (kv_doc [(ascii ''name'', V_utf8 (Some name))])))]) @
         [(ascii ''driver'', V_document (Some (kv_doc
            [(ascii ''name'', V_utf8 (Some (ascii ''amongoc''))),
             (ascii ''version'', V_utf8 (Some (ascii ''experimental-dev'')))]))),
          (ascii ''os'', V_document (Some (kv_doc [(ascii ''type'', V_utf8 (Some (ascii (os_type os))))])))]))))]"

lemma handshake_rules_kvs: "elems_kvs (handshake_rules os app_name) = handshake_fields os app_name"
  by (simp add: handshake_rules_def handshake_fields_def split: option.split)

lemma handshake_sends:
  assumes "rules_fit (handshake_rules os app)" "answers request cl (handshake_fields os app) reply cl'"
  shows "handshake (serving junk) room j os request app cl = (parse_handshake room j (Some (kv_doc reply)), cl')"
proof -
  obtain r where "mk_elems_size (handshake_rules os app) = Inr r" "int r \<le> INT32_MAX - 4"
    using assms(1) by (auto simp: rules_fit_def split: sum.splits)
  with assms(1) obtain cmd where cmd: "build (serving junk) (handshake_rules os app) = okE cmd"
    "doc_data cmd = kv_doc (handshake_fields os app)"
    using build_rules [of "handshake_rules os app" r junk] by (auto simp: rules_fit_def handshake_rules_kvs)
  moreover from assms(2) obtain m d where
    "request cl (op_msg_opcode, op_msg_buffers_array [kv_doc (handshake_fields os app)]) = (okE m, cl')"
    "am_content m = Op_msg [Body_section d]" "doc_data d = kv_doc reply"
    by (auto simp: answers_def)
  ultimately show ?thesis
    by (simp add: handshake_def create_handshake_command_def expect_one_body_section_op_msg_def)
qed

section \<open>Example responses\<close>

definition example_hello :: "kv list" where
  "example_hello =
     [(ascii ''isWritablePrimary'', V_bool True), (ascii ''topologyVersion'', V_null),
      (ascii ''maxBsonObjectSize'', V_int32 16777216), (ascii ''maxMessageSizeBytes'', V_int32 48000000),
      (ascii ''maxWriteBatchSize'', V_int32 100000), (ascii ''localTime'', V_datetime 0),
      (ascii ''logicalSessionTimeoutMinutes'', V_int32 30), (ascii ''connectionId'', V_int32 12),
      (ascii ''minWireVersion'', V_int32 0), (ascii ''maxWireVersion'', V_int32 21),
      (ascii ''readOnly'', V_bool False), (ascii ''ok'', V_int32 1)]"

definition example_member :: "kv list" where
  "example_member = (ascii ''secondary'', V_bool False) # example_hello"

definition example_hello_request :: "nat request_fn" where
  "example_hello_request n m =
     (okE \<lparr>am_req_id = 0, am_resp_to = 0, am_content = Op_msg [Body_section (received_doc (kv_doc example_hello))]\<rparr>, Suc n)"

lemma example_hello_ok: "kvs_ok example_hello" "kvs_ok example_member"
  by code_simp+

lemma example_hello_keys: "distinct (map fst example_hello)" "distinct (map fst example_member)"
  by (simp_all add: example_member_def example_hello_def ascii_eq)

lemma example_hello_readable: "\<forall>(k, v) \<in> set example_hello. readable [] v" "\<forall>(k, v) \<in> set example_member. readable [] v"
  by (simp_all add: example_member_def example_hello_def readable_def bson_value_as_int64_def bson_type_defs del: not_None_eq)

lemma example_hello_lookup:
  "map_of example_hello (ascii ''readOnly'') = Some (V_bool False)"
  "map_of example_hello (ascii ''maxWireVersion'') = Some (V_int32 21)"
  "map_of example_hello (ascii ''connectionId'') = Some (V_int32 12)"
  "map_of example_hello (ascii ''maxMessageSizeBytes'') = Some (V_int32 48000000)"
  "map_of example_hello (ascii ''setName'') = None" "map_of example_hello (ascii ''hosts'') = None"
  by (simp_all add: example_hello_def ascii_eq)

lemma example_hello_fits: "hello_fits (\<lambda>_. []) example_hello" "\<not> hello_fits (\<lambda>_. []) example_member"
  by (simp_all add: hello_fits_def example_member_def example_hello_def has_field_def may_have_field_def ascii_eq del: not_None_eq)

lemma example_hello_answers: "answers example_hello_request n cmd example_hello (Suc n)"
proof -
  have len: "5 < length (kv_doc example_hello) \<and> length (kv_doc example_hello) < 400" by code_simp
  have "sendable (\<lambda>_. True) (kv_doc example_hello)"
    using kv_doc_doc_at [of "kv_doc example_hello" "[]" example_hello "[]" 0] len example_hello_ok(1)
    by (simp add: sendable_def subdoc_ok_def)
  then show ?thesis
    using received_doc_inv [of "\<lambda>_. True" "kv_doc example_hello"] example_hello_ok(1)
    by (simp add: answers_def example_hello_request_def)
qed

lemma example_handshake_fits: "rules_fit (handshake_rules linux None)"
  by (simp add: handshake_rules_def example_rules_fit)

section \<open>Properties\<close>



text \<open>
  A member of a replica set is refused. The driver expects a string in \<^verbatim>\<open>setVersion\<close>, which is a number, and numbers
  in \<^verbatim>\<open>secondary\<close>, \<^verbatim>\<open>arbiterOnly\<close>, \<^verbatim>\<open>passive\<close> and \<^verbatim>\<open>hidden\<close>, which are truth values: a response with any of these
  fields in its documented type is a protocol error, whatever else it has.
\<close>

theorem replica_set_refused:
  assumes "kvs_ok reply" "distinct (map fst reply)" "\<forall>(k, v) \<in> set reply. readable (arr k) v"
    and "map_of reply (ascii ''setVersion'') = Some (V_int32 n) \<or>
      key \<in> {''secondary'', ''arbiterOnly'', ''passive'', ''hidden''} \<and> map_of reply (ascii key) = Some (V_bool b)"
  shows "\<exists>msg. parse_handshake (\<lambda>_. True) j (Some (kv_doc reply)) = throwE (Protocol_error msg)"
proof -
  have "\<not> hello_fits arr reply"
    using assms(4) by (auto simp: hello_fits_def may_have_field_def)
  with parse_hello [OF assms(1-3), where junk = j] show ?thesis by auto
qed

theorem replica_set_refused_witness:
  "\<exists>msg. parse_handshake (\<lambda>_. True) 5 (Some (kv_doc example_member)) = throwE (Protocol_error msg)"
  by (rule replica_set_refused [OF example_hello_ok(2) example_hello_keys(2) example_hello_readable(2),
      of 0 "''secondary''" False])
    (simp add: example_member_def)

end
