(* ===== verification/Amongoc_Connect.thy ===== *)
theory Amongoc_Connect
  imports Amongoc_Coroutine Amongoc_Client Amongoc_Pool Amongoc_Uri
begin

text \<open>
  From a connection string to a client: the settings of TLS, the coroutine that connects, its place in the
  connection pool (\<^verbatim>\<open>src/amongoc/connection_pool.cpp\<close>, \<^verbatim>\<open>src/mlib/lazy_init.hpp\<close>), and
  \<^verbatim>\<open>amongoc_client_new\<close> (\<^verbatim>\<open>src/amongoc/client.cpp\<close>).

  The event loop and OpenSSL are the parameter \<open>network\<close>; \<open>'w\<close> is the state of the world outside. An
  operation of the loop completes its handler with a status and a value.
\<close>

section \<open>The settings of TLS\<close>

text \<open>The calls that configure an SSL context. Each of them may throw.\<close>

datatype ssl_call =
    Load_verify_file string
  | Set_verify_peer
  | Verify_host_name string
  | Set_password string
  | Use_certificate_file string

definition opt_call :: "('a \<Rightarrow> ssl_call) \<Rightarrow> 'a option \<Rightarrow> ssl_call list" where
  "opt_call f x = (case x of None \<Rightarrow> [] | Some a \<Rightarrow> [f a])"

definition front :: "'a list \<Rightarrow> 'a res" where
  "front xs = (case xs of [] \<Rightarrow> Inl Out_of_bounds | x # _ \<Rightarrow> Inr x)"

definition asio_ssl_init :: "connection_uri \<Rightarrow> ssl_call list res" where
  "asio_ssl_init uri =
     (let params = cu_params uri;
          allow_invalid_certs = (p_tlsInsecure params = Some True \<or> p_tlsAllowInvalidCertificates params = Some True);
          verify_hostname = (p_tlsAllowInvalidHostnames params \<noteq> Some True)
      in bindR
           (if allow_invalid_certs then Inr []
            else bindR (front (cu_hosts uri)) (\<lambda>first.
              Inr (Set_verify_peer #
                (case uh_host first of
                   Hostname hn \<Rightarrow> if verify_hostname then [Verify_host_name hn] else []
                 | _ \<Rightarrow> []))))
           (\<lambda>verify.
             Inr (opt_call Load_verify_file (p_tlsCAFile params) @ verify @
               opt_call Set_password (p_tlsCertificateKeyFilePassword params) @
               opt_call Use_certificate_file (p_tlsCertificateKeyFile params))))"

fun make_ssl_calls :: "(ssl_call \<Rightarrow> cpp_exn option) \<Rightarrow> ssl_call list \<Rightarrow> unit eres" where
  "make_ssl_calls ssl [] = okE ()"
| "make_ssl_calls ssl (c # cs) = (case ssl c of Some x \<Rightarrow> throwE x | None \<Rightarrow> make_ssl_calls ssl cs)"

text \<open>
  \<^verbatim>\<open>lazy_threadsafe::operator*\<close>: the value is made at its first use. When the initialiser throws, the next
  use calls it again.
\<close>

definition lazy_deref :: "'t eres \<Rightarrow> 't option \<Rightarrow> 't eres \<times> 't option" where
  "lazy_deref init v =
     (case v of Some t \<Rightarrow> (okE t, v)
      | None \<Rightarrow> bindS (init, None) (\<lambda>t _. (okE t, Some t)))"

section \<open>The network\<close>

record ('addr, 'sock, 'tls, 'w) network =
  nw_getaddrinfo :: "string \<Rightarrow> string \<Rightarrow> 'w \<Rightarrow> (amongoc_status \<times> 'addr) \<times> 'w"
  nw_tcp_connect :: "'addr \<Rightarrow> 'w \<Rightarrow> (amongoc_status \<times> 'sock) \<times> 'w"
  nw_ssl_call :: "ssl_call \<Rightarrow> cpp_exn option"
  nw_tls_connect :: "ssl_call list \<Rightarrow> 'sock \<Rightarrow> 'w \<Rightarrow> 'tls eres \<times> 'w"

text \<open>
  The adaptor of receivers of results to handlers (\<^verbatim>\<open>cxx_recv_as_c_handler\<close>), and the two senders of
  \<^verbatim>\<open>tcp_conn.hpp\<close>.
\<close>

definition complete_with_result :: "platform \<Rightarrow> amongoc_status \<times> 'v \<Rightarrow> (amongoc_status, 'v) tagged_result" where
  "complete_with_result pf = (\<lambda>(st, v). if amongoc_is_error pf st then Inl st else Inr v)"

definition async_resolve ::
  "platform \<Rightarrow> ('addr, 'sock, 'tls, 'w) network \<Rightarrow> string \<Rightarrow> string \<Rightarrow> 'w \<Rightarrow> (amongoc_status, 'addr) tagged_result \<times> 'w" where
  "async_resolve pf nw name svc w =
     (let (r, w) = nw_getaddrinfo nw name svc w in (result_fmap id (complete_with_result pf r), w))"

definition async_connect ::
  "platform \<Rightarrow> ('addr, 'sock, 'tls, 'w) network \<Rightarrow> 'addr \<Rightarrow> 'w \<Rightarrow> (amongoc_status, 'sock) tagged_result \<times> 'w" where
  "async_connect pf nw ai w =
     (let (r, w) = nw_tcp_connect nw ai w in (result_fmap id (complete_with_result pf r), w))"

text \<open>\<^verbatim>\<open>std::to_string\<close> of an integer.\<close>

function nat_digits :: "nat \<Rightarrow> string" where
  "nat_digits n = (if n < 10 then [char_of (48 + n)] else nat_digits (n div 10) @ [char_of (48 + n mod 10)])"
  by auto
termination by (relation "measure id") auto

declare nat_digits.simps [simp del]

definition int_to_string :: "int \<Rightarrow> string" where
  "int_to_string n = (if n < 0 then CHR ''-'' # nat_digits (nat (- n)) else nat_digits (nat n))"

section \<open>Connecting\<close>

text \<open>The stream of a client: the plain connection or TLS over it.\<close>

datatype ('sock, 'tls) stream_var = Plaintext 'sock | Over_tls 'tls

type_synonym ('sock, 'tls) conn_client = "('sock, 'tls) stream_var client"

text \<open>The pool, with the URI it was made from, and the lazy SSL context.\<close>

record 'c conn_pool =
  po_impl :: "'c pool_impl"
  po_uri :: connection_uri
  po_ssl :: "ssl_call list option"

definition new_conn_pool :: "connection_uri \<Rightarrow> 'c conn_pool" where
  "new_conn_pool uri = \<lparr>po_impl = new_connection_pool, po_uri = uri, po_ssl = None\<rparr>"

definition prepare_client ::
  "('addr, 'sock, 'tls, 'w) network \<Rightarrow> connection_uri \<Rightarrow> 'sock \<Rightarrow> ssl_call list option \<times> 'w \<Rightarrow>
   ('sock, 'tls) conn_client eres \<times> ssl_call list option \<times> 'w" where
  "prepare_client nw uri raw_socket = (\<lambda>(ssl, w).
     if p_tls (cu_params uri) \<noteq> Some True then (okE (new_client (Plaintext raw_socket)), ssl, w)
     else
       let (ctx, ssl) = lazy_deref
             (bindE (liftE (asio_ssl_init uri)) (\<lambda>cs. bindE (make_ssl_calls (nw_ssl_call nw) cs) (\<lambda>_. okE cs))) ssl
       in bindS (ctx, ssl, w) (\<lambda>ctx (ssl, w).
          let (tls, w) = nw_tls_connect nw ctx raw_socket w
          in bindS (tls, ssl, w) (\<lambda>tls s. (okE (new_client (Over_tls tls)), s))))"

text \<open>
  The part of \<^verbatim>\<open>pool_impl::checkout\<close> without the lock, up to the new member: resolve, connect, TLS, handshake.
  Only host names are supported.
\<close>

definition host_name :: "uri_host \<Rightarrow> string res" where
  "host_name ep = (case uh_host ep of Hostname h \<Rightarrow> Inr h | _ \<Rightarrow> Inl Assert_fail)"

definition connect_new ::
  "platform \<Rightarrow> ('addr, 'sock, 'tls, 'w) network \<Rightarrow> reallocate_fn \<Rightarrow> (nat \<Rightarrow> bool) \<Rightarrow> int \<Rightarrow> operating_system_t \<Rightarrow>
   ('sock, 'tls) conn_client request_fn \<Rightarrow> connection_uri \<Rightarrow> ssl_call list option \<times> 'w \<Rightarrow>
   (('sock, 'tls) conn_client \<times> handshake_response) eres \<times> ssl_call list option \<times> 'w" where
  "connect_new pf nw alloc room junk os request uri = (\<lambda>(ssl, w).
     bindS (liftE (front (cu_hosts uri)), ssl, w) (\<lambda>ep (ssl, w).
     let svc = int_to_string (uh_port ep) in
     bindS (liftE (host_name ep), ssl, w) (\<lambda>name (ssl, w).
     let (addr, w) = async_resolve pf nw name svc w in
     bindS (status_result_value addr, ssl, w) (\<lambda>addr (ssl, w).
     let (socket, w) = async_connect pf nw addr w in
     bindS (status_result_value socket, ssl, w) (\<lambda>socket s.
     bindS (prepare_client nw uri socket s) (\<lambda>cl s.
     let (hs, cl) = handshake alloc room junk os request (map_option ascii (p_appname (cu_params uri))) cl
     in bindS (hs, s) (\<lambda>hs s. (okE (cl, hs), s))))))))"

definition conn_pool_checkout ::
  "platform \<Rightarrow> ('addr, 'sock, 'tls, 'w) network \<Rightarrow> reallocate_fn \<Rightarrow> (nat \<Rightarrow> bool) \<Rightarrow> int \<Rightarrow> operating_system_t \<Rightarrow>
   ('sock, 'tls) conn_client request_fn \<Rightarrow> (('sock, 'tls) conn_client \<times> handshake_response) conn_pool \<times> 'w \<Rightarrow>
   (('sock, 'tls) conn_client \<times> handshake_response) member_impl eres \<times>
   (('sock, 'tls) conn_client \<times> handshake_response) conn_pool \<times> 'w" where
  "conn_pool_checkout pf nw alloc room junk os request = (\<lambda>(self, w).
     case checkout_idle (po_impl self) of
       Some (m, impl) \<Rightarrow> (okE m, self\<lparr>po_impl := impl\<rparr>, w)
     | None \<Rightarrow>
         let (c, ssl, w) = connect_new pf nw alloc room junk os request (po_uri self) (po_ssl self, w);
             (m, impl) = pool_impl_checkout c (po_impl self)
         in (m, self\<lparr>po_impl := impl, po_ssl := ssl\<rparr>, w))"

text \<open>A request on a member of the pool is one on its client.\<close>

definition member_client_request :: "'c request_fn \<Rightarrow> ('c \<times> handshake_response) request_fn" where
  "member_client_request request = (\<lambda>(c, hs) m. let (r, c) = request c m in (r, c, hs))"

section \<open>Clients\<close>

text \<open>
  \<^verbatim>\<open>amongoc_client_new\<close>: parse the connection string, make the pool, and check a connection out to see
  that it can be made; it goes back to the pool. The box that holds the client destroys it when the checkout
  throws.
\<close>

definition client_new_body ::
  "platform \<Rightarrow> url_lib \<Rightarrow> ('addr, 'sock, 'tls, 'w) network \<Rightarrow> reallocate_fn \<Rightarrow> (nat \<Rightarrow> bool) \<Rightarrow> int \<Rightarrow>
   operating_system_t \<Rightarrow> ('sock, 'tls) conn_client request_fn \<Rightarrow> string \<Rightarrow> 'w \<Rightarrow>
   (amongoc_status, (('sock, 'tls) conn_client \<times> handshake_response) conn_pool) tagged_result eres \<times> 'w" where
  "client_new_body pf lib nw alloc room junk os request uri_str w =
     (case connection_uri_parse pf lib uri_str of
        Inl f \<Rightarrow> (Inl f, w)
      | Inr (Inl st) \<Rightarrow> (okE (Inl st), w)
      | Inr (Inr (uri, warnings)) \<Rightarrow>
          let (m, self, w) = conn_pool_checkout pf nw alloc room junk os request (new_conn_pool uri, w)
          in (bindE m (\<lambda>m. okE (Inr (self\<lparr>po_impl := member_destroy (Some m) (po_impl self)\<rparr>))), w))"

definition amongoc_client_new ::
  "platform \<Rightarrow> exn_lib \<Rightarrow> url_lib \<Rightarrow> ('addr, 'sock, 'tls, 'w) network \<Rightarrow> reallocate_fn \<Rightarrow> reallocate_fn \<Rightarrow>
   (nat \<Rightarrow> bool) \<Rightarrow> int \<Rightarrow> operating_system_t \<Rightarrow> ('sock, 'tls) conn_client request_fn \<Rightarrow> string \<Rightarrow> 'w \<Rightarrow>
   (('sock, 'tls) conn_client \<times> handshake_response) conn_pool em_result res \<times> 'w" where
  "amongoc_client_new pf xl lib nw alloc dalloc room junk os request uri_str w =
     (let (body, w) = client_new_body pf lib nw alloc room junk os request uri_str w
      in (emitter_coroutine pf xl alloc dalloc
            (\<lambda>r. case r of Inl st \<Rightarrow> return_status st | Inr self \<Rightarrow> return_box (Boxed self)) body, w))"

section \<open>Settings and digits\<close>

text \<open>
  The peer is verified unless a parameter allows invalid certificates; its name is checked only for a first host
  given by name. No setting loads a private key, and without a file for it no authority is trusted.
\<close>

lemma asio_ssl_init_verifies:
  assumes "asio_ssl_init uri = Inr cs"
  shows "Set_verify_peer \<in> set cs \<longleftrightarrow>
      p_tlsInsecure (cu_params uri) \<noteq> Some True \<and> p_tlsAllowInvalidCertificates (cu_params uri) \<noteq> Some True"
    "Verify_host_name h \<in> set cs \<longleftrightarrow> Set_verify_peer \<in> set cs \<and>
      p_tlsAllowInvalidHostnames (cu_params uri) \<noteq> Some True \<and> (\<exists>p. hd (cu_hosts uri) = \<lparr>uh_host = Hostname h, uh_port = p\<rparr>)"
proof -
  have "(\<exists>p. ep = \<lparr>uh_host = Hostname h, uh_port = p\<rparr>) \<longleftrightarrow> uh_host ep = Hostname h" for ep
    by (cases ep) auto
  with assms show "Set_verify_peer \<in> set cs \<longleftrightarrow>
      p_tlsInsecure (cu_params uri) \<noteq> Some True \<and> p_tlsAllowInvalidCertificates (cu_params uri) \<noteq> Some True"
    "Verify_host_name h \<in> set cs \<longleftrightarrow> Set_verify_peer \<in> set cs \<and>
      p_tlsAllowInvalidHostnames (cu_params uri) \<noteq> Some True \<and> (\<exists>p. hd (cu_hosts uri) = \<lparr>uh_host = Hostname h, uh_port = p\<rparr>)"
    by (auto simp: asio_ssl_init_def Let_def opt_call_def front_def res_simps
        split: if_splits option.splits list.splits uri_address.splits)
qed

lemma nat_digits_rec:
  "n < 10 \<Longrightarrow> nat_digits n = [char_of (48 + n)]"
  "10 \<le> n \<Longrightarrow> nat_digits n = nat_digits (n div 10) @ [char_of (48 + n mod 10)]"
  by (simp_all add: nat_digits.simps [of n])

lemma int_to_string_minus_one: "int_to_string (- 1) = ''-1''"
  by (simp add: int_to_string_def nat_digits_rec char_of_eq_iff)

text \<open>The lazy value is made once.\<close>

lemma lazy_deref_twice: "lazy_deref init v = (okE t, v') \<Longrightarrow> lazy_deref init' v' = (okE t, v')"
  by (cases init rule: eres_cases) (auto simp: lazy_deref_def split: option.splits)

section \<open>A client and its first command\<close>

lemma member_client_request_simps [simp]:
  "request c m = (r, c') \<Longrightarrow> member_client_request request (c, hs) m = (r, c', hs)"
  by (simp add: member_client_request_def)

lemmas connect_ops =
  amongoc_client_new_def client_new_body_def conn_pool_checkout_def connect_new_def pool_impl_checkout_def
  async_resolve_def async_connect_def complete_with_result_def result_fmap_def front_def host_name_def
  new_conn_pool_def new_connection_pool_def checkout_idle_def

lemma client_new_no_tls:
  assumes "connection_uri_parse pf lib s = Inr (Inr (uri, ws))"
    and "cu_hosts uri = \<lparr>uh_host = Hostname h, uh_port = p\<rparr> # eps" "p_tls (cu_params uri) \<noteq> Some True"
    and "nw_getaddrinfo nw h (int_to_string p) w = ((st1, addr), w1)" "\<not> amongoc_is_error pf st1"
    and "nw_tcp_connect nw addr w1 = ((st2, sock), w2)" "\<not> amongoc_is_error pf st2"
    and "handshake alloc room junk os request (map_option ascii (p_appname (cu_params uri))) (new_client (Plaintext sock)) =
      (okE r, cl)"
  shows "amongoc_client_new pf xl lib nw alloc dalloc room junk os request s w =
    (Inr (return_box (Boxed \<lparr>po_impl = \<lparr>cp_conn_ids = 2, cp_generation = 1, cp_idle =
        [\<lparr>mi_serial = 1, mi_generation = 1, mi_perished = False, mi_client = (cl, r)\<rparr>]\<rparr>,
       po_uri = uri, po_ssl = None\<rparr>)), w2)"
  using assms
  by (simp add: connect_ops prepare_client_def emplace_member_def member_destroy_def pool_impl_return_def numeral_2_eq_2)

section \<open>Examples\<close>

definition example_network :: "(unit, unit, unit, string list) network" where
  "example_network =
     \<lparr>nw_getaddrinfo = \<lambda>name svc w. ((if svc = ''-1'' then \<lparr>st_category = Generic, st_code = 22\<rparr> else amongoc_okay, ()), svc # w),
      nw_tcp_connect = \<lambda>_ w. ((amongoc_okay, ()), w),
      nw_ssl_call = \<lambda>_. None, nw_tls_connect = \<lambda>_ _ w. (okE (), w)\<rparr>"

definition example_conn_request :: "(unit, unit) conn_client request_fn" where
  "example_conn_request c m = (fst (example_hello_request 0 m), c\<lparr>cl_request_id := cl_request_id c + 1\<rparr>)"

lemma example_conn_answers: "answers example_conn_request c cmd example_hello (c\<lparr>cl_request_id := cl_request_id c + 1\<rparr>)"
  using example_hello_answers [of 0 cmd] by (auto simp: answers_def example_conn_request_def)

lemma okay_no_error [simp]: "\<not> amongoc_is_error pf amongoc_okay"
  by (simp add: amongoc_is_error_def amongoc_okay_def errno_vtable_def)

lemma example_parse:
  "connection_uri_parse pf (example_lib (example_url ''db'' [])) url =
     Inr (Inr (\<lparr>cu_hosts = [\<lparr>uh_host = Hostname ''db'', uh_port = 27017\<rparr>], cu_auth = None, cu_params = no_params\<rparr>, []))"
  by (simp add: connection_uri_parse_def example_lib_def example_url_def parse_host_def parse_auth_def new_parser_def)

section \<open>Properties\<close>

text \<open>
  C10: from a connection string to the reply of the first command, without TLS. When the name is resolved, the
  connection made and the \<^verbatim>\<open>hello\<close> command answered by an acceptable response, there is a client whose pool holds
  exactly the connection on which the client was tested; the first command goes over this connection, without
  making another, and the client is given the body of the reply unchecked.
\<close>

theorem client_new_then_command:
  assumes "connection_uri_parse pf lib s = Inr (Inr (uri, ws))"
    and "cu_hosts uri = \<lparr>uh_host = Hostname h, uh_port = p\<rparr> # eps" "p_tls (cu_params uri) \<noteq> Some True"
    and "nw_getaddrinfo nw h (int_to_string p) w = ((sta, addr), wa)" "\<not> amongoc_is_error pf sta"
    and "nw_tcp_connect nw addr wa = ((stb, sock), wb)" "\<not> amongoc_is_error pf stb"
    and "rules_fit (handshake_rules os (map_option ascii (p_appname (cu_params uri))))"
    and "answers request (new_client (Plaintext sock))
      (handshake_fields os (map_option ascii (p_appname (cu_params uri)))) reply cl"
    and "distinct (map fst reply)" "\<forall>(k, v) \<in> set reply. readable (arr k) v" "hello_fits arr reply"
    and "request cl (op_msg_opcode, op_msg_buffers_array [cmd]) = (okE answer, cl')" "am_content answer = Op_msg [Body_section d]"
  shows "\<exists>pool m. amongoc_client_new pf xl lib nw (serving heap) dalloc (\<lambda>_. True) junk os request s w =
      (Inr (return_box (Boxed pool)), wb) \<and> cp_idle (po_impl pool) = [m] \<and> \<not> mi_perished m \<and>
    amongoc_client_command_nocopy (pool_client_request (member_client_request request) connect) cmd (None, po_impl pool) =
      (okE d, Some (m\<lparr>mi_client := (cl', snd (mi_client m))\<rparr>), (po_impl pool)\<lparr>cp_idle := []\<rparr>)"
proof -
  have ok: "kvs_ok reply" using assms(9) by (simp add: answers_def)
  obtain r where "handshake (serving heap) (\<lambda>_. True) junk os request (map_option ascii (p_appname (cu_params uri)))
      (new_client (Plaintext sock)) = (okE r, cl)"
    using handshake_sends [OF assms(8,9), where junk = heap and room = "\<lambda>_. True" and j = junk]
      parse_hello [OF ok assms(10,11), where junk = junk] assms(12) by auto
  note new = client_new_no_tls [OF assms(1-7) this, where xl = xl and dalloc = dalloc]
  let ?m = "\<lparr>mi_serial = 1, mi_generation = 1, mi_perished = False, mi_client = (cl, r)\<rparr>"
  let ?impl = "\<lparr>cp_conn_ids = 2, cp_generation = 1, cp_idle = [?m]\<rparr>"
  have "pool_client_request (member_client_request request) connect (None, ?impl)
      (op_msg_opcode, op_msg_buffers_array [cmd]) =
    (okE answer, Some (?m\<lparr>mi_client := (cl', r)\<rparr>), ?impl\<lparr>cp_idle := []\<rparr>)"
    using assms(13) by (simp add: pool_client_request_def pool_impl_checkout_def checkout_idle_def member_request_def okE_def)
  with assms(14) have "amongoc_client_command_nocopy (pool_client_request (member_client_request request) connect) cmd
      (None, ?impl) = (okE d, Some (?m\<lparr>mi_client := (cl', r)\<rparr>), ?impl\<lparr>cp_idle := []\<rparr>)"
    by (simp add: amongoc_client_command_nocopy_def simple_request_def expect_one_body_section_op_msg_def)
  with new show ?thesis by (intro exI [of _ "\<lparr>po_impl = ?impl, po_uri = uri, po_ssl = None\<rparr>"] exI [of _ ?m]) simp
qed

theorem client_new_then_command_witness:
  "\<forall>pf. \<exists>pool m. amongoc_client_new pf example_exn_lib (example_lib (example_url ''db'' [])) example_network (serving (\<lambda>_. 7))
      (serving (\<lambda>_. 7)) (\<lambda>_. True) 0 linux example_conn_request ''mongodb://db:27017/'' [] =
      (Inr (return_box (Boxed pool)), [''27017'']) \<and> cp_idle (po_impl pool) = [m]"
proof
  fix pf :: platform
  have "int_to_string 27017 = ''27017''" by (simp add: int_to_string_def nat_digits_rec char_of_eq_iff)
  moreover have "p_appname no_params = None" "p_tls no_params = None" by (simp_all add: no_params_def)
  moreover obtain answer where "fst (example_hello_request 0 (op_msg_opcode, op_msg_buffers_array [[]])) = okE answer"
    "am_content answer = Op_msg [Body_section (received_doc (kv_doc example_hello))]"
    by (simp add: example_hello_request_def)
  ultimately show "\<exists>pool m. amongoc_client_new pf example_exn_lib (example_lib (example_url ''db'' [])) example_network
      (serving (\<lambda>_. 7)) (serving (\<lambda>_. 7)) (\<lambda>_. True) 0 linux example_conn_request ''mongodb://db:27017/'' [] =
      (Inr (return_box (Boxed pool)), [''27017'']) \<and> cp_idle (po_impl pool) = [m]"
    using client_new_then_command [OF example_parse, where p = 27017 and h = "''db''" and eps = "[]" and nw = example_network
        and w = "[]" and sta = amongoc_okay and wa = "[''27017'']" and stb = amongoc_okay and sock = "()" and addr = "()"
        and wb = "[''27017'']" and os = linux and request = example_conn_request and reply = example_hello and pf = pf
        and arr = "\<lambda>_. []" and answer = answer and cmd = "[]" and d = "received_doc (kv_doc example_hello)"
        and cl = "(new_client (Plaintext ()))\<lparr>cl_request_id := 1\<rparr>" and xl = example_exn_lib and dalloc = "serving (\<lambda>_. 7)"
        and heap = "\<lambda>_. 7" and junk = 0 and connect = "Inl Abort_called" and s = "''mongodb://db:27017/''"
        and cl' = "(new_client (Plaintext ()))\<lparr>cl_request_id := 2\<rparr>"]
      example_conn_answers [of "new_client (Plaintext ())"] example_hello_keys(1) example_hello_readable(1)
      example_hello_fits(1) example_handshake_fits
    by (auto simp: example_network_def example_conn_request_def new_client_def)
qed

text \<open>
  C38: connection strings that no client can be made for. Without a port the resolver is asked for the service
  -1 instead of the default port, and its error is the result; with an IP address the program is ended by an assertion.
\<close>

theorem client_new_refused:
  assumes "ul_parse_uri lib url = Inr got" "connection_uri_parse pf lib url = Inr (Inr (uri, ws))"
    and "nw_getaddrinfo nw (uv_host got) ''-1'' w = ((st, addr), w1)" "amongoc_is_error pf st"
  shows "(uv_host_type got = Host_name \<and> \<not> uv_has_port got \<longrightarrow>
      amongoc_client_new pf xl lib nw alloc dalloc room junk os request url w = (Inr (return_status st), w1)) \<and>
    (uv_host_type got \<in> {Host_ipv4, Host_ipv6} \<longrightarrow>
      amongoc_client_new pf xl lib nw alloc dalloc room junk os request url w = (Inl Assert_fail, w))"
proof -
  from assms(1,2) obtain ep where ep: "parse_host got = Inr ep" "cu_hosts uri = [ep]"
    by (auto simp: connection_uri_parse_def Let_def res_simps split: if_splits sum.splits)
  show ?thesis
  proof (intro conjI impI)
    assume "uv_host_type got = Host_name \<and> \<not> uv_has_port got"
    with ep have "ep = \<lparr>uh_host = Hostname (uv_host got), uh_port = - 1\<rparr>" by (simp add: parse_host_def)
    with assms(2-4) ep(2) show "amongoc_client_new pf xl lib nw alloc dalloc room junk os request url w =
        (Inr (return_status st), w1)"
      by (simp add: connect_ops int_to_string_minus_one unhandled_exception_def)
  next
    assume "uv_host_type got \<in> {Host_ipv4, Host_ipv6}"
    with ep have "host_name ep = Inl Assert_fail" by (auto simp: parse_host_def host_name_def Let_def)
    with assms(2) ep(2) show "amongoc_client_new pf xl lib nw alloc dalloc room junk os request url w = (Inl Assert_fail, w)"
      by (simp add: amongoc_client_new_def client_new_body_def conn_pool_checkout_def connect_new_def pool_impl_checkout_def
          front_def new_conn_pool_def new_connection_pool_def checkout_idle_def)
  qed
qed

theorem client_new_refused_witness:
  "\<forall>pf. amongoc_client_new pf example_exn_lib (example_lib ((example_url ''db'' [])\<lparr>uv_has_port := False\<rparr>)) example_network
      (serving (\<lambda>_. 7)) (serving (\<lambda>_. 7)) (\<lambda>_. True) 0 linux example_conn_request ''mongodb://db/'' [] =
    (Inr (return_status \<lparr>st_category = Generic, st_code = 22\<rparr>), [''-1''])"
proof
  fix pf :: platform
  let ?got = "(example_url ''db'' [])\<lparr>uv_has_port := False\<rparr>"
  have "connection_uri_parse pf (example_lib ?got) url =
     Inr (Inr (\<lparr>cu_hosts = [\<lparr>uh_host = Hostname ''db'', uh_port = - 1\<rparr>], cu_auth = None, cu_params = no_params\<rparr>, []))" for url
    by (simp add: connection_uri_parse_def example_lib_def example_url_def parse_host_def parse_auth_def new_parser_def)
  moreover have "ul_parse_uri (example_lib ?got) url = Inr ?got" for url by (simp add: example_lib_def)
  moreover have "amongoc_is_error pf \<lparr>st_category = Generic, st_code = 22\<rparr>"
    by (simp add: amongoc_is_error_def errno_vtable_def)
  ultimately show "amongoc_client_new pf example_exn_lib (example_lib ((example_url ''db'' [])\<lparr>uv_has_port := False\<rparr>)) example_network
      (serving (\<lambda>_. 7)) (serving (\<lambda>_. 7)) (\<lambda>_. True) 0 linux example_conn_request ''mongodb://db/'' [] =
    (Inr (return_status \<lparr>st_category = Generic, st_code = 22\<rparr>), [''-1''])"
    using client_new_refused [of "example_lib ?got" "''mongodb://db/''" ?got pf _ _ example_network "[]"
        "\<lparr>st_category = Generic, st_code = 22\<rparr>" "()" "[''-1'']" example_exn_lib]
    by (simp add: example_network_def example_url_def)
qed

end
