(* ===== verification/Mlib_Vec.thy ===== *)
theory Mlib_Vec
  imports Mlib_Alloc Mlib_Str
begin

text \<open>
  The vector template (\<^verbatim>\<open>include/mlib/vec.t.h\<close>). Elements are relocatable objects, here the bytes that
  represent them. The parameters of the template are a record: the size and alignment of an element and how a
  new element is initialised. Resizing gives, besides the vector and its success, the elements it has destroyed.
\<close>

section \<open>Vectors\<close>

record vec_type =
  vt_sizeof :: nat
  vt_align :: nat
  vt_init :: "(bytes \<Rightarrow> bytes) option"

record vec =
  vc_data :: "bytes option"
  vc_size :: nat
  vc_allocator :: reallocate_fn

definition vec_max_size :: "vec_type \<Rightarrow> nat" where
  "vec_max_size T = nat SSIZE_MAX div vt_sizeof T"

definition vec_element :: "vec_type \<Rightarrow> vec \<Rightarrow> nat \<Rightarrow> bytes res" where
  "vec_element T self i =
     (case vc_data self of None \<Rightarrow> Inl Out_of_bounds
      | Some b \<Rightarrow> rd_n b (int (i * vt_sizeof T)) (vt_sizeof T))"

text \<open>The two loops over elements: destroying \<open>n\<close> of them, and initialising \<open>n\<close> of them, from \<open>iter\<close> on.\<close>

fun vec_destroy_loop :: "vec_type \<Rightarrow> vec \<Rightarrow> nat \<Rightarrow> nat \<Rightarrow> bytes list res" where
  "vec_destroy_loop T self iter 0 = Inr []"
| "vec_destroy_loop T self iter (Suc n) =
     bindR (vec_element T self iter) (\<lambda>x. bindR (vec_destroy_loop T self (Suc iter) n) (\<lambda>xs. Inr (x # xs)))"

fun vec_init_loop :: "vec_type \<Rightarrow> (bytes \<Rightarrow> bytes) \<Rightarrow> bytes \<Rightarrow> nat \<Rightarrow> nat \<Rightarrow> bytes res" where
  "vec_init_loop T init b iter 0 = Inr b"
| "vec_init_loop T init b iter (Suc n) =
     bindR (rd_n b (int (iter * vt_sizeof T)) (vt_sizeof T)) (\<lambda>x.
     bindR (wr_n b (int (iter * vt_sizeof T)) (init x)) (\<lambda>b. vec_init_loop T init b (Suc iter) n))"

definition vec_resize :: "vec_type \<Rightarrow> vec \<Rightarrow> nat \<Rightarrow> (vec \<times> bytes list \<times> bool) res" where
  "vec_resize T self count =
     (if count > vec_max_size T then Inr (self, [], False)
      else bindR (if count < vc_size self then vec_destroy_loop T self count (vc_size self - count) else Inr [])
        (\<lambda>dead.
         if count = 0 then
           bindR (mlib_deallocate (vc_allocator self) (vc_data self) (vc_size self * vt_sizeof T)) (\<lambda>_.
           Inr (self\<lparr>vc_data := None, vc_size := 0\<rparr>, dead, True))
         else
           bindR (if count \<noteq> vc_size self
                  then bindR (mlib_reallocate (vc_allocator self) (vc_data self) (count * vt_sizeof T) (vt_align T)
                         (vc_size self * vt_sizeof T)) (\<lambda>r. Inr (map_option fst r))
                  else Inr (vc_data self)) (\<lambda>pointer.
           case pointer of None \<Rightarrow> Inr (self, dead, False)
           | Some p \<Rightarrow>
               bindR (if count > vc_size self
                      then bindR (wr_n p (int (vc_size self * vt_sizeof T))
                             (replicate (vt_sizeof T * (count - vc_size self)) 0)) (\<lambda>p.
                           case vt_init T of None \<Rightarrow> Inr p
                           | Some init \<Rightarrow> vec_init_loop T init p (vc_size self) (count - vc_size self))
                      else Inr p) (\<lambda>p.
               Inr (self\<lparr>vc_data := Some p, vc_size := count\<rparr>, dead, True)))))"

text \<open>\<^verbatim>\<open>push\<close> gives the index of the new element, or nothing.\<close>

definition vec_push :: "vec_type \<Rightarrow> vec \<Rightarrow> (vec \<times> nat option) res" where
  "vec_push T self =
     (let count = vc_size self in
      bindR (vec_resize T self (count + 1)) (\<lambda>(self, _, ok). Inr (self, if ok then Some count else None)))"

definition vec_new :: "reallocate_fn \<Rightarrow> vec" where
  "vec_new alloc = \<lparr>vc_data = None, vc_size = 0, vc_allocator = alloc\<rparr>"

definition vec_delete :: "vec_type \<Rightarrow> vec \<Rightarrow> bytes list res" where
  "vec_delete T v = bindR (vec_resize T v 0) (\<lambda>(_, dead, _). Inr dead)"

definition vec_new_n :: "vec_type \<Rightarrow> nat \<Rightarrow> reallocate_fn \<Rightarrow> (vec \<times> bool) res" where
  "vec_new_n T n alloc = bindR (vec_resize T (vec_new alloc) n) (\<lambda>(ret, _, ok). Inr (ret, ok))"

section \<open>What vectors represent\<close>

text \<open>A vector represents the list of its elements.\<close>

definition vec_rep :: "vec_type \<Rightarrow> vec \<Rightarrow> bytes list \<Rightarrow> bool" where
  "vec_rep T v xs \<longleftrightarrow>
     (\<forall>x\<in>set xs. length x = vt_sizeof T) \<and> vc_size v = length xs \<and>
     vc_data v = (if xs = [] then None else Some (concat xs))"

definition vec_type_ok :: "vec_type \<Rightarrow> bool" where
  "vec_type_ok T \<longleftrightarrow> 0 < vt_sizeof T \<and>
     (case vt_init T of None \<Rightarrow> True | Some f \<Rightarrow> \<forall>x. length x = vt_sizeof T \<longrightarrow> length (f x) = vt_sizeof T)"

definition vec_fresh :: "vec_type \<Rightarrow> bytes" where
  "vec_fresh T = (case vt_init T of None \<Rightarrow> replicate (vt_sizeof T) 0 | Some f \<Rightarrow> f (replicate (vt_sizeof T) 0))"

lemma concat_length: "\<forall>x\<in>set xs. length x = s \<Longrightarrow> length (concat xs) = length xs * s"
  by (induction xs) auto

lemma concat_take_drop:
  assumes "\<forall>x\<in>set xs. length x = s"
  shows "take (n * s) (concat xs) = concat (take n xs)" "drop (n * s) (concat xs) = concat (drop n xs)"
  using assms
proof (induction xs arbitrary: n)
  case (Cons x xs)
  { case 1 then show ?case using Cons by (cases n) auto }
  { case 2 then show ?case using Cons by (cases n) auto }
qed simp_all

lemma vec_element_rep:
  assumes "vec_rep T v xs" "i < length xs"
  shows "vec_element T v i = Inr (xs ! i)"
proof -
  let ?s = "vt_sizeof T"
  have l: "\<forall>x\<in>set xs. length x = ?s" and d: "vc_data v = Some (concat xs)"
    using assms by (auto simp: vec_rep_def)
  have "drop (i * ?s) (concat xs) = (xs ! i) @ concat (drop (Suc i) xs)"
    using concat_take_drop(2) [OF l, of i] Cons_nth_drop_Suc [OF assms(2)] by (metis concat.simps(2))
  moreover have "length (xs ! i) = ?s" using l assms(2) by simp
  moreover have "i * ?s + ?s \<le> length xs * ?s"
    using assms(2) mult_le_mono1 [of "Suc i" "length xs" ?s] by simp
  ultimately show ?thesis
    using d concat_length [OF l] by (auto simp: vec_element_def rd_n_def simp flip: of_nat_add of_nat_mult)
qed

lemma vec_destroy_loop_rep:
  "vec_rep T v xs \<Longrightarrow> i + n = length xs \<Longrightarrow> vec_destroy_loop T v i n = Inr (drop i xs)"
proof (induction n arbitrary: i)
  case (Suc n)
  then show ?case using vec_element_rep [OF Suc.prems(1), of i] Cons_nth_drop_Suc [of i xs] by simp
qed simp

lemma vec_init_loop_rep:
  assumes "\<forall>y\<in>set ys. length y = vt_sizeof T" "\<forall>x\<in>set xs. length x = vt_sizeof T" "\<forall>x. length x = vt_sizeof T \<longrightarrow> length (f x) = vt_sizeof T"
  shows "vec_init_loop T f (concat (xs @ ys)) (length xs) (length ys) = Inr (concat (xs @ map f ys))"
  using assms(1,2)
proof (induction ys arbitrary: xs)
  case (Cons y ys)
  let ?s = "vt_sizeof T" and ?b = "concat (xs @ y # ys)"
  have l: "length (concat xs) = length xs * ?s" "length y = ?s"
    using concat_length [OF Cons.prems(2)] Cons.prems(1) by auto
  have "?s = 0 \<Longrightarrow> y = []" using l(2) by simp
  then have "rd_n ?b (int (length xs * ?s)) ?s = Inr y" by (auto simp: rd_n_def l nat_mult_distrib simp flip: l(1))
  moreover have "wr_n ?b (int (length xs * ?s)) (f y) = Inr (concat ((xs @ [f y]) @ ys))"
    using wr_n_append_at [of "int (length xs * ?s)" "concat xs" y "f y" "concat ys"] l assms(3) by simp
  moreover have "vec_init_loop T f (concat ((xs @ [f y]) @ ys)) (length (xs @ [f y])) (length ys) =
      Inr (concat ((xs @ [f y]) @ map f ys))"
    by (rule Cons.IH) (use Cons.prems l assms(3) in auto)
  ultimately show ?case by simp
qed simp

section \<open>Resizing\<close>

text \<open>Zeroing and initialising the new elements.\<close>

lemma vec_grow:
  assumes "\<forall>x\<in>set xs. length x = vt_sizeof T" "vec_type_ok T" "length rest = vt_sizeof T * k"
  shows "bindR (wr_n (concat xs @ rest) (int (length xs * vt_sizeof T)) (replicate (vt_sizeof T * k) 0)) (\<lambda>p.
      case vt_init T of None \<Rightarrow> Inr p | Some init \<Rightarrow> vec_init_loop T init p (length xs) k) =
    Inr (concat (xs @ replicate k (vec_fresh T)))"
proof -
  let ?s = "vt_sizeof T" and ?z = "replicate k (replicate (vt_sizeof T) (0 :: byte))"
  have "concat (replicate k (replicate ?s 0)) = replicate (?s * k) (0 :: byte)"
    by (induction k) (simp_all add: replicate_add [symmetric])
  then have "wr_n (concat xs @ rest) (int (length xs * ?s)) (replicate (?s * k) 0) = Inr (concat (xs @ ?z))"
    using wr_n_append_at [of "int (length xs * ?s)" "concat xs" rest "replicate (?s * k) 0" "[]"] assms(3)
    by (simp add: concat_length [OF assms(1)])
  then show ?thesis
    using vec_init_loop_rep [of ?z T xs] assms(1,2)
    by (auto simp: vec_fresh_def vec_type_ok_def map_replicate_const split: option.splits)
qed

context exact_allocator
begin

text \<open>What the allocator gives back starts with the elements that are kept.\<close>

lemma realloc_elements:
  assumes "vec_rep T v xs" "0 < n" "0 < vt_sizeof T"
    and r: "mlib_reallocate realloc (vc_data v) (n * vt_sizeof T) a (length xs * vt_sizeof T) = Inr (Some (b, got))"
  shows "\<exists>rest. b = concat (take n xs) @ rest \<and> length rest = vt_sizeof T * (n - length xs)"
proof -
  let ?s = "vt_sizeof T"
  have l: "\<forall>x\<in>set xs. length x = ?s" using assms(1) by (simp add: vec_rep_def)
  note cl = concat_length [OF l]
  note r' = r [unfolded mlib_reallocate_def]
  have bl: "length b = n * ?s" using got_size [OF _ r'] exact [OF r'] assms(2,3) by simp
  have "take (min n (length xs) * ?s) b = concat (take n xs)"
  proof (cases "xs = []")
    case False
    with r assms(1) have "realloc (Some (concat xs)) (n * ?s) a (length (concat xs)) = Inr (Some (b, got))"
      by (simp add: cl mlib_reallocate_def vec_rep_def)
    from keeps [OF _ this] assms(2,3)
    have "take (min (n * ?s) (length xs * ?s)) b = take (min (n * ?s) (length xs * ?s)) (concat xs)" by (simp add: cl)
    moreover have "min (n * ?s) (length xs * ?s) = min n (length xs) * ?s" by (simp add: min_def)
    ultimately show ?thesis using concat_take_drop(1) [OF l, of "min n (length xs)"] by (simp add: min_def)
  qed simp
  then have "b = concat (take n xs) @ drop (min n (length xs) * ?s) b" by (metis append_take_drop_id)
  moreover have "length (drop (min n (length xs) * ?s) b) = ?s * (n - length xs)"
    using bl by (simp add: min_def diff_mult_distrib2 mult.commute)
  ultimately show ?thesis by blast
qed

text \<open>Every outcome of a resize, over an allocator that may refuse a request.\<close>

lemma vec_resize_outcome:
  assumes v: "vec_rep T v xs" "vec_type_ok T" "vc_allocator v = realloc" and n: "n \<le> vec_max_size T"
  shows "vec_resize T v n = Inr (v, drop n xs, False) \<and> 0 < n \<and> n \<noteq> length xs \<and>
      mlib_reallocate realloc (vc_data v) (n * vt_sizeof T) (vt_align T) (length xs * vt_sizeof T) = Inr None \<or>
    (n = 0 \<or> n = length xs \<or>
      mlib_reallocate realloc (vc_data v) (n * vt_sizeof T) (vt_align T) (length xs * vt_sizeof T) \<noteq> Inr None) \<and>
    (\<exists>v'. vec_resize T v n = Inr (v', drop n xs, True) \<and> vc_allocator v' = realloc \<and>
      vec_rep T v' (take n xs @ replicate (n - length xs) (vec_fresh T)))"
proof -
  let ?s = "vt_sizeof T"
  have s: "0 < ?s" using v(2) by (simp add: vec_type_ok_def)
  have l: "\<forall>x\<in>set xs. length x = ?s" "vc_size v = length xs" using v(1) by (simp_all add: vec_rep_def)
  have d: "vc_data v = (if xs = [] then None else Some (concat xs))" using v(1) by (simp add: vec_rep_def)
  have dead: "(if n < vc_size v then vec_destroy_loop T v n (vc_size v - n) else Inr []) = Inr (drop n xs)"
    using vec_destroy_loop_rep [OF v(1), of n "length xs - n"] l(2) by simp
  have na: "mlib_reallocate realloc (vc_data v) k a (length xs * ?s) \<noteq> Inl e" for k a e
    using no_abort d by (auto simp: mlib_reallocate_def simp flip: concat_length [OF l(1)])
  consider "n = 0" | "0 < n" "n = length xs" | "0 < n" "n \<noteq> length xs" by blast
  then show ?thesis
  proof cases
    case 1
    have "mlib_deallocate realloc (vc_data v) (length xs * ?s) = Inr ()"
      using na [of 0 0] by (cases "mlib_reallocate realloc (vc_data v) 0 0 (length xs * ?s)")
        (auto simp: mlib_deallocate_def split: option.split)
    then have "vec_resize T v 0 = Inr (v\<lparr>vc_data := None, vc_size := 0\<rparr>, xs, True)"
      using vec_destroy_loop_rep [OF v(1), of 0 "length xs"] v(3) l(2) by (cases "xs = []") (simp_all add: vec_resize_def)
    with 1 v(3) show ?thesis by (simp add: vec_rep_def)
  next
    case 2
    then have "xs \<noteq> []" by auto
    with 2 n d l(2) have "vec_resize T v n = Inr (v, [], True)" by (cases v) (simp add: vec_resize_def)
    with 2 v show ?thesis by simp
  next
    case 3
    from na obtain r where r: "mlib_reallocate realloc (vc_data v) (n * ?s) (vt_align T) (length xs * ?s) = Inr r"
      by (metis sum.exhaust_sel)
    show ?thesis
    proof (cases r)
      case None
      with r 3 n dead v(3) l(2) show ?thesis by (simp add: vec_resize_def)
    next
      case (Some bg)
      obtain b got where bg: "bg = (b, got)" by (cases bg)
      from realloc_elements [OF v(1) 3(1) s, of "vt_align T" b got] r Some bg
      obtain rest where b: "b = concat (take n xs) @ rest" "length rest = ?s * (n - length xs)" by auto
      with r Some bg 3 n dead v l vec_grow [OF l(1) v(2) b(2)] show ?thesis
        by (cases "length xs < n") (simp_all add: vec_resize_def,
          auto simp: vec_rep_def vec_fresh_def vec_type_ok_def dest: in_set_takeD split: option.splits)
    qed
  qed
qed

end

section \<open>Properties\<close>

lemma strict_refuses:
  assumes "vec_rep T v xs" "0 < n" "0 < vt_sizeof T"
  shows "mlib_reallocate (strict_reallocate avail junk) (vc_data v) (n * vt_sizeof T) a (length xs * vt_sizeof T) = Inr None \<longleftrightarrow>
    \<not> avail (n * vt_sizeof T)"
proof -
  have "length (concat xs) = length xs * vt_sizeof T" using assms(1) by (intro concat_length) (simp add: vec_rep_def)
  then have "length xs * vt_sizeof T = (case vc_data v of None \<Rightarrow> 0 | Some old \<Rightarrow> length old)"
    using assms(1) by (simp add: vec_rep_def)
  with strict_none [of "n * vt_sizeof T" avail junk "vc_data v" a 0] assms(2,3) show ?thesis by simp
qed

text \<open>
  C39: resizing refines resizing of the list of elements, over an allocator that may refuse any request and
  insists on the right sizes: elements beyond the new size are destroyed, each once and in order, new ones are
  zeroed and initialised. A number of elements that is too large is refused without any effect. When
  the allocator refuses, the vector keeps its size although the elements at its end have been destroyed.
\<close>

theorem vec_resize_elements:
  assumes "vec_rep T v xs" "vec_type_ok T" "vc_allocator v = strict_reallocate avail junk"
  shows "if n > vec_max_size T then vec_resize T v n = Inr (v, [], False)
    else if n = 0 \<or> n = length xs \<or> avail (n * vt_sizeof T)
    then \<exists>v'. vec_resize T v n = Inr (v', drop n xs, True) \<and> vc_allocator v' = vc_allocator v \<and>
      vec_rep T v' (take n xs @ replicate (n - length xs) (vec_fresh T))
    else vec_resize T v n = Inr (v, drop n xs, False)"
proof (cases "n > vec_max_size T")
  case False
  then have "n \<le> vec_max_size T" by simp
  from strict_alloc.vec_resize_outcome [OF assms this] strict_refuses [OF assms(1), of n avail junk "vt_align T"] assms(2,3) False
  show ?thesis by (auto simp: vec_type_ok_def split del: if_split split: if_split)
qed (simp add: vec_resize_def)

definition example_vec_type :: vec_type where
  "example_vec_type = \<lparr>vt_sizeof = 2, vt_align = 2, vt_init = Some (\<lambda>x. map (\<lambda>b. b + 1) x)\<rparr>"

theorem vec_resize_elements_witness:
  "\<exists>v' v''. vec_push example_vec_type (vec_new (strict_reallocate (\<lambda>n. n \<le> 2) (\<lambda>_. 7))) = Inr (v', Some 0) \<and>
     vec_rep example_vec_type v' [[1, 1]] \<and> vec_resize example_vec_type v' 2 = Inr (v', [], False) \<and>
     vec_resize example_vec_type v' 0 = Inr (v'', [[1, 1]], True) \<and> vec_rep example_vec_type v'' []"
proof -
  let ?T = example_vec_type and ?A = "strict_reallocate (\<lambda>n. n \<le> 2) (\<lambda>_. 7)"
  have t: "vec_type_ok ?T" "vt_sizeof ?T = 2" "vec_fresh ?T = [1, 1]"
    by (simp_all add: example_vec_type_def vec_type_ok_def vec_fresh_def numeral_2_eq_2)
  have new: "vec_rep ?T (vec_new ?A) []" "vc_allocator (vec_new ?A) = ?A" "vc_size (vec_new ?A) = 0"
    by (simp_all add: vec_new_def vec_rep_def)
  have big: "\<not> vec_max_size ?T < k" if "k \<le> 2" for k using that by (simp add: vec_max_size_def t)
  from vec_resize_elements [OF new(1) t(1) new(2), of 1] big [of 1]
  obtain v' where v': "vec_resize ?T (vec_new ?A) 1 = Inr (v', [], True)" "vc_allocator v' = ?A" "vec_rep ?T v' [[1, 1]]"
    by (auto simp: t new)
  from vec_resize_elements [OF v'(3) t(1) v'(2), of 2] big [of 2]
  have "vec_resize ?T v' 2 = Inr (v', [], False)" by (simp add: t)
  moreover from vec_resize_elements [OF v'(3) t(1) v'(2), of 0]
  obtain v'' where "vec_resize ?T v' 0 = Inr (v'', [[1, 1]], True)" "vec_rep ?T v'' []" by auto
  ultimately show ?thesis using v' by (auto simp: vec_push_def new)
qed

end
