(* ===== verification/Bson_Owned.thy ===== *)
theory Bson_Owned
  imports Mlib_Vec Bson_Doc
begin

text \<open>
  Owned values (\<^verbatim>\<open>include/bson/value.h\<close>): the conversions to value references, copying and deletion. A
  \<^verbatim>\<open>bson_value\<close> is a tagged union, each constructor a tag with the member that goes with it. Strings of a
  value are not null. A string carries its allocator; here it is an argument of deletion.
\<close>

section \<open>Values\<close>

datatype bson_value =
    Val_eod
  | Val_double u64
  | Val_utf8 mlib_str
  | Val_document bson_doc
  | Val_array bson_doc
  | Val_binary vec byte
  | Val_undefined
  | Val_oid bytes
  | Val_bool bool
  | Val_datetime i64
  | Val_null
  | Val_regex mlib_str mlib_str
  | Val_dbpointer mlib_str bytes
  | Val_code mlib_str
  | Val_symbol mlib_str
  | Val_codewscope
  | Val_int32 u32
  | Val_timestamp u32 u32
  | Val_int64 i64
  | Val_decimal128 bytes
  | Val_maxkey
  | Val_minkey

text \<open>The vector of bytes of \<^verbatim>\<open>bson/byte.h\<close>.\<close>

definition bson_byte_vec :: vec_type where
  "bson_byte_vec = \<lparr>vt_sizeof = 1, vt_align = 1, vt_init = None\<rparr>"

text \<open>\<open>alloc\<close> is the allocator of the strings and documents of the value.\<close>

fun bson_value_delete :: "reallocate_fn \<Rightarrow> bson_value \<Rightarrow> unit res" where
  "bson_value_delete alloc (Val_utf8 s) = mlib_str_delete alloc (Some s)"
| "bson_value_delete alloc (Val_code s) = mlib_str_delete alloc (Some s)"
| "bson_value_delete alloc (Val_symbol s) = mlib_str_delete alloc (Some s)"
| "bson_value_delete alloc (Val_document d) = bson_delete alloc (Some d)"
| "bson_value_delete alloc (Val_array d) = bson_delete alloc (Some d)"
| "bson_value_delete alloc (Val_binary v t) = bindR (vec_delete bson_byte_vec v) (\<lambda>_. Inr ())"
| "bson_value_delete alloc (Val_dbpointer c oid) = mlib_str_delete alloc (Some c)"
| "bson_value_delete alloc (Val_regex rx options) =
     bindR (mlib_str_delete alloc (Some rx)) (\<lambda>_. mlib_str_delete alloc (Some options))"
| "bson_value_delete alloc _ = Inr ()"

section \<open>References to values\<close>

text \<open>\<^verbatim>\<open>mlib_str_view_from\<close> of an owned string, and the bytes that a vector of bytes refers to.\<close>

definition str_view_from :: "mlib_str \<Rightarrow> str_view res" where
  "str_view_from s =
     bindR (mlib_str_as_view s) (\<lambda>v. bindR (sv_read v 0 (vw_len v)) (\<lambda>bs. Inr (Some bs)))"

definition vec_data_bytes :: "vec \<Rightarrow> nat \<Rightarrow> bytes res" where
  "vec_data_bytes v n = (case vc_data v of None \<Rightarrow> if n = 0 then Inr [] else Inl Out_of_bounds | Some b \<Rightarrow> rd_n b 0 n)"

text \<open>
  The member of a regular expression is read and written as that of a database pointer. So the view of its
  options is made of the first twelve bytes of the string that holds them: the pointer and half of the
  address of the allocator, which is taken for the length. What this view is, is the parameter \<open>pun\<close>.
\<close>

fun bson_value_ref_from_value :: "(mlib_str \<Rightarrow> str_view) \<Rightarrow> bson_value \<Rightarrow> bson_value_ref res" where
  "bson_value_ref_from_value pun Val_eod = Inr V_eod"
| "bson_value_ref_from_value pun Val_undefined = Inr V_undefined"
| "bson_value_ref_from_value pun Val_null = Inr V_null"
| "bson_value_ref_from_value pun Val_maxkey = Inr V_maxkey"
| "bson_value_ref_from_value pun Val_minkey = Inr V_minkey"
| "bson_value_ref_from_value pun (Val_double d) = Inr (V_double d)"
| "bson_value_ref_from_value pun (Val_code s) = bindR (str_view_from s) (\<lambda>v. Inr (V_code v))"
| "bson_value_ref_from_value pun (Val_symbol s) = bindR (str_view_from s) (\<lambda>v. Inr (V_symbol v))"
| "bson_value_ref_from_value pun (Val_utf8 s) = bindR (str_view_from s) (\<lambda>v. Inr (V_utf8 v))"
| "bson_value_ref_from_value pun (Val_document d) = Inr (V_document (Some (doc_data d)))"
| "bson_value_ref_from_value pun (Val_array d) = Inr (V_array (Some (doc_data d)))"
| "bson_value_ref_from_value pun (Val_binary v t) =
     bindR (vec_data_bytes v (unat (word_of_nat (vc_size v) :: u32))) (\<lambda>bs. Inr (V_binary t bs))"
| "bson_value_ref_from_value pun (Val_oid o1) = Inr (V_oid o1)"
| "bson_value_ref_from_value pun (Val_bool b) = Inr (V_bool b)"
| "bson_value_ref_from_value pun (Val_datetime t) = Inr (V_datetime t)"
| "bson_value_ref_from_value pun (Val_regex rx options) =
     bindR (str_view_from rx) (\<lambda>v. Inr (V_regex v (pun options)))"
| "bson_value_ref_from_value pun (Val_dbpointer c oid) = bindR (str_view_from c) (\<lambda>v. Inr (V_dbpointer v oid))"
| "bson_value_ref_from_value pun Val_codewscope = Inl Assert_fail"
| "bson_value_ref_from_value pun (Val_int32 n) = Inr (V_int32 n)"
| "bson_value_ref_from_value pun (Val_timestamp i t) = Inr (V_timestamp i t)"
| "bson_value_ref_from_value pun (Val_int64 n) = Inr (V_int64 n)"
| "bson_value_ref_from_value pun (Val_decimal128 bs) = Inr (V_decimal128 bs)"

text \<open>
  \<^verbatim>\<open>bson_value_ref_from\<close> of C selects a conversion by the type of its argument; integers of up to 32 bits
  become an \<^verbatim>\<open>int32_t\<close>, except for \<^verbatim>\<open>uint32_t\<close>.
\<close>

datatype c_value =
    C_double u64
  | C_cstring bytes int
  | C_str mlib_str
  | C_str_view str_view
  | C_str_mut mlib_str
  | C_view doc_view
  | C_doc bson_doc
  | C_mut bson_doc
  | C_array_view doc_view
  | C_binary_view byte bytes
  | C_oid bytes
  | C_bool bool
  | C_datetime i64
  | C_regex_view str_view str_view
  | C_dbpointer_view str_view bytes
  | C_code_view str_view
  | C_symbol_view str_view
  | C_int8 "8 word"
  | C_uint8 "8 word"
  | C_int16 "16 word"
  | C_uint16 "16 word"
  | C_int32 u32
  | C_uint32 u32
  | C_timestamp u32 u32
  | C_decimal128 bytes
  | C_int64 i64
  | C_value bson_value
  | C_value_ref bson_value_ref

fun bson_value_ref_from :: "(mlib_str \<Rightarrow> str_view) \<Rightarrow> c_value \<Rightarrow> bson_value_ref res" where
  "bson_value_ref_from pun (C_double d) = Inr (V_double d)"
| "bson_value_ref_from pun (C_cstring m p) =
     bindR (mlib_str_view_cstr m p) (\<lambda>v. bindR (sv_read v 0 (vw_len v)) (\<lambda>bs. Inr (V_utf8 (Some bs))))"
| "bson_value_ref_from pun (C_str s) = bindR (str_view_from s) (\<lambda>v. Inr (V_utf8 v))"
| "bson_value_ref_from pun (C_str_mut s) = bindR (str_view_from s) (\<lambda>v. Inr (V_utf8 v))"
| "bson_value_ref_from pun (C_str_view v) = Inr (V_utf8 v)"
| "bson_value_ref_from pun (C_view v) = Inr (V_document v)"
| "bson_value_ref_from pun (C_doc d) = Inr (V_document (Some (doc_data d)))"
| "bson_value_ref_from pun (C_mut d) = Inr (V_document (Some (doc_data d)))"
| "bson_value_ref_from pun (C_array_view v) = Inr (V_array v)"
| "bson_value_ref_from pun (C_binary_view t bs) = Inr (V_binary t bs)"
| "bson_value_ref_from pun (C_oid bs) = Inr (V_oid bs)"
| "bson_value_ref_from pun (C_bool b) = Inr (V_bool b)"
| "bson_value_ref_from pun (C_datetime t) = Inr (V_datetime t)"
| "bson_value_ref_from pun (C_regex_view r opts) = Inr (V_regex r opts)"
| "bson_value_ref_from pun (C_dbpointer_view c oid) = Inr (V_dbpointer c oid)"
| "bson_value_ref_from pun (C_code_view v) = Inr (V_code v)"
| "bson_value_ref_from pun (C_symbol_view v) = Inr (V_symbol v)"
| "bson_value_ref_from pun (C_int8 n) = Inr (V_int32 (scast n))"
| "bson_value_ref_from pun (C_uint8 n) = Inr (V_int32 (ucast n))"
| "bson_value_ref_from pun (C_int16 n) = Inr (V_int32 (scast n))"
| "bson_value_ref_from pun (C_uint16 n) = Inr (V_int32 (ucast n))"
| "bson_value_ref_from pun (C_int32 n) = Inr (V_int32 n)"
| "bson_value_ref_from pun (C_uint32 n) = Inr (V_int64 (ucast n))"
| "bson_value_ref_from pun (C_timestamp i t) = Inr (V_timestamp i t)"
| "bson_value_ref_from pun (C_decimal128 bs) = Inr (V_decimal128 bs)"
| "bson_value_ref_from pun (C_int64 n) = Inr (V_int64 n)"
| "bson_value_ref_from pun (C_value v) = bson_value_ref_from_value pun v"
| "bson_value_ref_from pun (C_value_ref r) = Inr r"

section \<open>Copying\<close>

text \<open>
  Strings and documents are copied with the default allocator, whatever allocator is given; their data pointers
  are never null, so a refused allocation is not noticed. The bytes of binary data are not copied.
\<close>

definition str_view_ptr :: "str_view \<Rightarrow> mlib_str_view" where
  "str_view_ptr v =
     (case v of None \<Rightarrow> mlib_str_view_null | Some bs \<Rightarrow> mlib_str_view_data (Some (bs, 0)) (length bs))"

fun bson_value_copy :: "reallocate_fn \<Rightarrow> reallocate_fn \<Rightarrow> bson_value_ref \<Rightarrow> bson_value res" where
  "bson_value_copy default_alloc alloc V_eod = Inr Val_eod"
| "bson_value_copy default_alloc alloc V_undefined = Inr Val_undefined"
| "bson_value_copy default_alloc alloc V_null = Inr Val_null"
| "bson_value_copy default_alloc alloc V_maxkey = Inr Val_maxkey"
| "bson_value_copy default_alloc alloc V_minkey = Inr Val_minkey"
| "bson_value_copy default_alloc alloc (V_double d) = Inr (Val_double d)"
| "bson_value_copy default_alloc alloc (V_utf8 v) =
     bindR (mlib_str_copy default_alloc (str_view_ptr v)) (\<lambda>s. Inr (Val_utf8 s))"
| "bson_value_copy default_alloc alloc (V_document v) =
     bindR (bson_copy_view_with_allocator default_alloc v) (\<lambda>d. Inr (Val_document d))"
| "bson_value_copy default_alloc alloc (V_array v) =
     bindR (bson_copy_view_with_allocator default_alloc v) (\<lambda>d. Inr (Val_array d))"
| "bson_value_copy default_alloc alloc (V_binary t bs) =
     bindR (vec_new_n bson_byte_vec (length bs) alloc) (\<lambda>(v, alloc_okay).
     Inr (if alloc_okay then Val_binary v t else Val_eod))"
| "bson_value_copy default_alloc alloc (V_oid bs) = Inr (Val_oid bs)"
| "bson_value_copy default_alloc alloc (V_bool b) = Inr (Val_bool b)"
| "bson_value_copy default_alloc alloc (V_datetime t) = Inr (Val_datetime t)"
| "bson_value_copy default_alloc alloc (V_regex r opts) =
     bindR (mlib_str_copy default_alloc (str_view_ptr r)) (\<lambda>rx.
     bindR (mlib_str_copy default_alloc (str_view_ptr opts)) (\<lambda>options. Inr (Val_regex rx options)))"
| "bson_value_copy default_alloc alloc (V_dbpointer c oid) =
     bindR (mlib_str_copy default_alloc (str_view_ptr c)) (\<lambda>s. Inr (Val_dbpointer s oid))"
| "bson_value_copy default_alloc alloc (V_code v) =
     bindR (mlib_str_copy default_alloc (str_view_ptr v)) (\<lambda>s. Inr (Val_code s))"
| "bson_value_copy default_alloc alloc (V_symbol v) =
     bindR (mlib_str_copy default_alloc (str_view_ptr v)) (\<lambda>s. Inr (Val_symbol s))"
| "bson_value_copy default_alloc alloc (V_int32 n) = Inr (Val_int32 n)"
| "bson_value_copy default_alloc alloc (V_timestamp i t) = Inr (Val_timestamp i t)"
| "bson_value_copy default_alloc alloc (V_int64 n) = Inr (Val_int64 n)"
| "bson_value_copy default_alloc alloc (V_decimal128 bs) = Inr (Val_decimal128 bs)"
| "bson_value_copy default_alloc alloc V_codewscope = Inl Assert_fail"

section \<open>Strings and documents that are freed\<close>

abbreviation strict :: "(nat \<Rightarrow> byte) \<Rightarrow> reallocate_fn" where
  "strict junk \<equiv> strict_reallocate (\<lambda>_. True) junk"

lemma str_write_keeps:
  "str_write s p bs = Inr s' \<Longrightarrow> length (st_buf s') = length (st_buf s) \<and> st_static s' = st_static s"
  by (auto simp: str_write_def res_simps dest: wr_n_length split: if_splits)

lemma strict_fresh: "strict junk None (9 + n) 1 5 = Inr (Some (map junk [0..<9 + n], 9 + n))"
  using default_fresh [of "\<lambda>_. True" junk n] by (simp add: strict_reallocate_def)

lemma strict_str_new:
  assumes "0 < n" "int n \<le> SSIZE_MAX - 9"
  shows "\<exists>s. mlib_str_new (strict junk) n = Inr s \<and> str_rep s (replicate n 0) \<and> \<not> st_static s \<and> length (st_buf s) = 9 + n"
proof -
  obtain s where s: "mlib_str_new (strict junk) n = Inr s" "str_rep s (replicate n 0)" "\<not> st_static s"
    using strict_alloc.str_new_outcome [OF assms, of "\<lambda>_. True" junk] strict_fresh [of junk n] by auto
  have "mlib_str_length mlib_string_empty = Inr 0" using mlib_str_length_rep [OF str_rep_empty] by simp
  moreover have "st_static mlib_string_empty" by (simp add: mlib_string_empty_def)
  ultimately have "length (st_buf s) = 9 + n"
    using s(1) assms strict_fresh [of junk n]
    by (auto simp: mlib_str_new_def mlib_str_mut_resize_def mlib_reallocate_def Let_def res_simps add.commute
        dest!: str_write_keeps split: if_splits)
  with s show ?thesis by blast
qed

lemma strict_str_copy:
  assumes "views v cs" "int (length cs) \<le> SSIZE_MAX - 9"
  shows "\<exists>s. mlib_str_copy (strict junk) v = Inr s \<and> str_rep s cs \<and> mlib_str_delete (strict junk) (Some s) = Inr ()"
proof (cases "cs = []")
  case True
  then show ?thesis
    using strict_alloc.str_new_zero [of "\<lambda>_. True" junk] str_rep_empty views_len [OF assms(1)]
    by (auto simp: mlib_str_copy_def sv_read_def str_write_nil mlib_str_delete_def mlib_string_empty_def)
next
  case False
  then have "0 < length cs" by simp
  from strict_str_new [OF this assms(2)]
  obtain s where s: "mlib_str_new (strict junk) (length cs) = Inr s" "str_rep s (replicate (length cs) 0)"
    "\<not> st_static s" "length (st_buf s) = 9 + length cs" by blast
  from str_write_rep [of s "[]" "replicate (length cs) 0" "[]" cs] s(2,3)
  obtain s' where s': "str_write s 8 cs = Inr s'" "str_rep s' cs" "\<not> st_static s'" by auto
  from sv_read_views [OF assms(1), of 0 "length cs"] have "sv_read v 0 (length cs) = Inr cs" by simp
  with s s' views_len [OF assms(1)] have "mlib_str_copy (strict junk) v = Inr s'" by (simp add: mlib_str_copy_def)
  moreover have "length (st_buf s') = length cs + 8 + 1" using str_write_keeps [OF s'(1)] s(4) by simp
  then have "mlib_str_delete (strict junk) (Some s') = Inr ()"
    using s'(3) mlib_str_length_rep [OF s'(2)] by (simp add: mlib_str_delete_def mlib_deallocate_def strict_free)
  ultimately show ?thesis using s'(2) by blast
qed

lemma views_str_view_ptr: "views (str_view_ptr v) (view_bytes v)"
  by (auto simp: str_view_ptr_def views_def mlib_str_view_null_def mlib_str_view_data_def view_bytes_def split: option.split)

lemma str_view_from_rep: "str_rep s cs \<Longrightarrow> str_view_from s = Inr (Some cs)"
  using views_of_str [of s cs] sv_read_views [of _ cs 0 "length cs"]
  by (auto simp: str_view_from_def views_len)

lemma copied_string:
  assumes "int (length (view_bytes v)) \<le> SSIZE_MAX - 9"
  shows "\<exists>s. mlib_str_copy (strict junk) (str_view_ptr v) = Inr s \<and> str_view_from s = Inr (Some (view_bytes v)) \<and>
    str_rep s (view_bytes v) \<and> mlib_str_delete (strict junk) (Some s) = Inr ()"
  using strict_str_copy [OF views_str_view_ptr assms] str_view_from_rep by blast

lemma copied_document:
  assumes "subdoc_ok data" "int (length data) \<le> INT32_MAX - 4"
  shows "\<exists>d. bson_copy_view_with_allocator (strict junk) (Some data) = Inr d \<and> doc_data d = data \<and>
    bson_delete (strict junk) (Some d) = Inr ()"
proof -
  have "strict junk None (length data + 4) 1 0 \<noteq> Inr None"
    by (simp add: strict_reallocate_def default_reallocate_def c_realloc_def c_malloc_def)
  from strict_alloc.copy_total [OF assms this]
  obtain d where d: "bson_copy_view_with_allocator (strict junk) (Some data) = Inr d" "doc_inv d" "doc_data d = data" by blast
  from d(2) obtain c where c: "bson_doc_capacity d = Inr c" "unat c = length (dc_buf d) - 4" by (rule doc_capacityE)
  note b = doc_inv_bounds [OF d(2)]
  have "unat (c + 4) = length (dc_buf d)"
    using c(2) b d(2) by (subst unat_add_lem [THEN iffD1]) (auto simp: doc_inv_def)
  with c d show ?thesis by (auto simp: bson_delete_def strict_free)
qed

lemma copied_binary:
  assumes "int (length bs) < 4294967296"
  shows "\<exists>v. vec_new_n bson_byte_vec (length bs) (strict junk) = Inr (v, True) \<and>
    vec_data_bytes v (unat (word_of_nat (vc_size v) :: u32)) = Inr (replicate (length bs) 0) \<and>
    vec_delete bson_byte_vec v = Inr (replicate (length bs) [0])"
proof -
  let ?T = bson_byte_vec and ?n = "length bs"
  have t: "vec_type_ok ?T" "vt_sizeof ?T = 1" "vec_fresh ?T = [0]"
    by (simp_all add: bson_byte_vec_def vec_type_ok_def vec_fresh_def)
  have new: "vec_rep ?T (vec_new (strict junk)) []" "vc_allocator (vec_new (strict junk)) = strict junk"
    by (simp_all add: vec_new_def vec_rep_def)
  have max: "?n \<le> vec_max_size ?T" using assms by (simp add: vec_max_size_def t)
  from strict_alloc.vec_resize_outcome [OF new(1) t(1) new(2) max] strict_refuses [OF new(1), of ?n "\<lambda>_. True" junk "vt_align ?T"]
  obtain v where v: "vec_resize ?T (vec_new (strict junk)) ?n = Inr (v, [], True)" "vc_allocator v = strict junk"
    "vec_rep ?T v (replicate ?n [0])" by (auto simp: t)
  have r: "vc_size v = ?n" "vc_data v = (if ?n = 0 then None else Some (replicate ?n 0))"
    using v(3) by (auto simp: vec_rep_def concat_replicate_single)
  have u: "unat (word_of_nat ?n :: u32) = ?n"
    using assms by (simp add: unat_of_nat)
  have "0 \<le> vec_max_size ?T" by simp
  from strict_alloc.vec_resize_outcome [OF v(3) t(1) v(2) this] obtain v' where
    "vec_resize ?T v 0 = Inr (v', replicate ?n [0], True)" by auto
  with v(1) r u show ?thesis by (simp add: vec_new_n_def vec_delete_def vec_data_bytes_def rd_n_def)
qed

section \<open>Properties\<close>

definition copyable :: "bson_value_ref \<Rightarrow> bool" where
  "copyable v =
     (let str = (\<lambda>s. int (length (view_bytes s)) \<le> SSIZE_MAX - 9);
          doc = (\<lambda>d. subdoc_ok (view_bytes d) \<and> d \<noteq> None \<and> int (length (view_bytes d)) \<le> INT32_MAX - 4)
      in case v of
        V_utf8 s \<Rightarrow> str s | V_code s \<Rightarrow> str s | V_symbol s \<Rightarrow> str s | V_dbpointer c oid \<Rightarrow> str c
      | V_regex r opts \<Rightarrow> str r \<and> str opts | V_document d \<Rightarrow> doc d | V_array d \<Rightarrow> doc d
      | V_binary t bs \<Rightarrow> int (length bs) < 4294967296 | V_codewscope \<Rightarrow> False | _ \<Rightarrow> True)"



end
