(* ===== verification/Amongoc_Box.thy ===== *)
theory Amongoc_Box
  imports Amongoc_Prelude
begin

text \<open>
  Boxes (\<^verbatim>\<open>include/amongoc/box.h\<close>, \<^verbatim>\<open>include/amongoc/box.hpp\<close>) and their compressed form
  (\<^verbatim>\<open>src/amongoc/box.compress.hpp\<close>). A box holds an object of any type, inline or in dynamic storage, with the
  function that destroys it, here a name in \<open>'d\<close>. The heap of dynamic storage records the calls of these
  functions, each with the object it was given. Storage that was freed is gone from the heap; a null pointer and
  a pointer to freed storage are faults.
\<close>

section \<open>Boxes\<close>

abbreviation AMONGOC_BOX_SMALL_SIZE :: nat where "AMONGOC_BOX_SMALL_SIZE \<equiv> 24"
abbreviation AMONGOC_BOX_SMALL_SIZE_WITH_DTOR :: nat where "AMONGOC_BOX_SMALL_SIZE_WITH_DTOR \<equiv> 16"

text \<open>The size of the header with its one byte of object, and the offset of the object.\<close>

abbreviation SIZEOF_DYNAMIC_BOX :: nat where "SIZEOF_DYNAMIC_BOX \<equiv> 48"
abbreviation DYNAMIC_OBJECT_OFFSET :: nat where "DYNAMIC_OBJECT_OFFSET \<equiv> 32"

record 'd dynamic_object =
  dy_destroy :: "'d option"
  dy_alloc_size :: nat
  dy_object :: bytes

datatype 'd box_union =
    Trivial_inline bytes
  | Nontrivial_inline bytes 'd
  | Dynamic_at "nat option"

record 'd box_storage =
  bx_u :: "'d box_union"
  bx_is_dynamic :: bool
  bx_has_dtor :: bool
  bx_inline_size :: nat

record 'd box_heap =
  bh_dyn :: "nat \<Rightarrow> 'd dynamic_object option"
  bh_next :: nat
  bh_calls :: "('d \<times> bytes) list"

definition amongoc_nil :: "'d box_storage" where
  "amongoc_nil = \<lparr>bx_u = Trivial_inline (replicate AMONGOC_BOX_SMALL_SIZE 0), bx_is_dynamic = False,
     bx_has_dtor = False, bx_inline_size = 0\<rparr>"

text \<open>
  \<^verbatim>\<open>_amongocBoxInitStorage\<close>; \<open>room\<close> says which requests the allocator grants. The flag is whether a pointer
  is returned.
\<close>

definition box_init_storage ::
  "(nat \<Rightarrow> bool) \<Rightarrow> 'd box_storage \<Rightarrow> bool \<Rightarrow> nat \<Rightarrow> 'd option \<Rightarrow> 'd box_heap \<Rightarrow>
   'd box_storage \<times> bool \<times> 'd box_heap" where
  "box_init_storage room box allow_inline sz dtor h =
     (if allow_inline \<and> dtor = None \<and> sz \<le> AMONGOC_BOX_SMALL_SIZE then
        (\<lparr>bx_u = Trivial_inline (replicate AMONGOC_BOX_SMALL_SIZE 0), bx_is_dynamic = False, bx_has_dtor = False,
          bx_inline_size = sz mod 64\<rparr>, True, h)
      else if allow_inline \<and> dtor \<noteq> None \<and> sz \<le> AMONGOC_BOX_SMALL_SIZE_WITH_DTOR then
        (\<lparr>bx_u = Nontrivial_inline (replicate AMONGOC_BOX_SMALL_SIZE_WITH_DTOR 0) (the dtor), bx_is_dynamic = False,
          bx_has_dtor = True, bx_inline_size = sz mod 64\<rparr>, True, h)
      else
        (let box = box\<lparr>bx_is_dynamic := True, bx_has_dtor := dtor \<noteq> None\<rparr>;
             alloc_size = SIZEOF_DYNAMIC_BOX + sz
         in if \<not> room alloc_size then (box\<lparr>bx_u := Dynamic_at None\<rparr>, False, h)
            else
              (box\<lparr>bx_u := Dynamic_at (Some (bh_next h))\<rparr>, True,
               h\<lparr>bh_dyn := (bh_dyn h)(bh_next h \<mapsto>
                   \<lparr>dy_destroy = dtor, dy_alloc_size = alloc_size,
                    dy_object = replicate (alloc_size - DYNAMIC_OBJECT_OFFSET) 0\<rparr>),
                 bh_next := Suc (bh_next h)\<rparr>)))"

text \<open>The dynamic storage of a box.\<close>

definition box_dynamic :: "'d box_heap \<Rightarrow> 'd box_storage \<Rightarrow> (nat \<times> 'd dynamic_object) res" where
  "box_dynamic h box =
     (case bx_u box of
        Dynamic_at (Some a) \<Rightarrow> (case bh_dyn h a of Some d \<Rightarrow> Inr (a, d) | None \<Rightarrow> Inl Out_of_bounds)
      | _ \<Rightarrow> Inl Out_of_bounds)"

text \<open>\<^verbatim>\<open>amongoc_box_free_storage\<close>.\<close>

definition box_free_storage :: "'d box_heap \<Rightarrow> 'd box_storage \<Rightarrow> 'd box_heap res" where
  "box_free_storage h box =
     (if bx_is_dynamic box
      then bindR (box_dynamic h box) (\<lambda>(a, _). Inr (h\<lparr>bh_dyn := (bh_dyn h)(a := None)\<rparr>))
      else Inr h)"

text \<open>The bytes at \<^verbatim>\<open>_amongocBoxDataPtr\<close>, and storing an object there.\<close>

definition box_data :: "'d box_heap \<Rightarrow> 'd box_storage \<Rightarrow> bytes res" where
  "box_data h box =
     (if bx_is_dynamic box then bindR (box_dynamic h box) (\<lambda>(_, d). Inr (dy_object d))
      else case bx_u box of
          Trivial_inline bs \<Rightarrow> if bx_has_dtor box then Inl Out_of_bounds else Inr bs
        | Nontrivial_inline bs dtor \<Rightarrow> Inr bs
        | Dynamic_at p \<Rightarrow> Inl Out_of_bounds)"

definition box_construct ::
  "'d box_heap \<Rightarrow> 'd box_storage \<Rightarrow> bytes \<Rightarrow> ('d box_storage \<times> 'd box_heap) res" where
  "box_construct h box obj =
     bindR (box_data h box) (\<lambda>bs. bindR (wr_n bs 0 obj) (\<lambda>bs.
     if bx_is_dynamic box
     then bindR (box_dynamic h box) (\<lambda>(a, d). Inr (box, h\<lparr>bh_dyn := (bh_dyn h)(a \<mapsto> d\<lparr>dy_object := bs\<rparr>)\<rparr>))
     else Inr (box\<lparr>bx_u := (case bx_u box of Nontrivial_inline _ dtor \<Rightarrow> Nontrivial_inline bs dtor
                             | _ \<Rightarrow> Trivial_inline bs)\<rparr>, h)))"

text \<open>\<^verbatim>\<open>amongoc_box_destroy\<close>: the call of the destructor, with the object, and the release of the storage.\<close>

definition box_destroy :: "'d box_heap \<Rightarrow> 'd box_storage \<Rightarrow> 'd box_heap res" where
  "box_destroy h box =
     bindR
       (if \<not> bx_has_dtor box then Inr h
        else bindR
          (if bx_is_dynamic box
           then bindR (box_dynamic h box) (\<lambda>(_, d). case dy_destroy d of None \<Rightarrow> Inl Out_of_bounds | Some f \<Rightarrow> Inr f)
           else case bx_u box of Nontrivial_inline _ f \<Rightarrow> Inr f | _ \<Rightarrow> Inl Out_of_bounds)
          (\<lambda>f. bindR (box_data h box) (\<lambda>obj. Inr (h\<lparr>bh_calls := bh_calls h @ [(f, obj)]\<rparr>))))
       (\<lambda>h. box_free_storage h box)"

text \<open>\<^verbatim>\<open>amongoc_box_take\<close>: the object moves out and the box becomes nil; no destructor runs.\<close>

definition box_take :: "'d box_heap \<Rightarrow> 'd box_storage \<Rightarrow> nat \<Rightarrow> (bytes \<times> 'd box_storage \<times> 'd box_heap) res" where
  "box_take h box sz =
     bindR (box_data h box) (\<lambda>bs. bindR (rd_n bs 0 sz) (\<lambda>dst.
     bindR (box_free_storage h box) (\<lambda>h. Inr (dst, amongoc_nil, h))))"

section \<open>Owned boxes\<close>

text \<open>
  \<^verbatim>\<open>prepare_storage\<close> throws when it gets no pointer. \<^verbatim>\<open>unique_box::make\<close> has then already a box that owns
  the storage, and destroys it; \<^verbatim>\<open>unique_box::from\<close> with a destructor has not. \<open>relocatable\<close> is the
  trait of the type of the object; a result of \<open>None\<close> is \<^verbatim>\<open>std::bad_alloc\<close>.
\<close>

definition unique_box_make ::
  "(nat \<Rightarrow> bool) \<Rightarrow> bool \<Rightarrow> 'd option \<Rightarrow> bytes \<Rightarrow> 'd box_heap \<Rightarrow> ('d box_storage option \<times> 'd box_heap) res" where
  "unique_box_make room relocatable dtor obj h =
     (let (ret, ok, h) = box_init_storage room amongoc_nil relocatable (length obj) dtor h in
      if ok then bindR (box_construct h ret obj) (\<lambda>(ret, h). Inr (Some ret, h))
      else bindR (box_destroy h ret) (\<lambda>h. Inr (None, h)))"

definition unique_box_from ::
  "(nat \<Rightarrow> bool) \<Rightarrow> 'd box_storage \<Rightarrow> bool \<Rightarrow> 'd \<Rightarrow> bytes \<Rightarrow> 'd box_heap \<Rightarrow>
   ('d box_storage option \<times> 'd box_heap) res" where
  "unique_box_from room ret relocatable dtor obj h =
     (let (ret, ok, h) = box_init_storage room ret relocatable (length obj) (Some dtor) h in
      if ok then bindR (box_construct h ret obj) (\<lambda>(ret, h). Inr (Some ret, h))
      else Inr (None, h))"

section \<open>Compressed boxes\<close>

text \<open>
  The forms of a compressed box: bytes, bytes with a destructor, a pointer to dynamic storage, or the box. A buffer
  can be longer than the object; the rest of it, given by \<open>junk\<close>, is not initialised.
\<close>

datatype 'd compressed_box =
    Compressed bytes
  | Compressed_dtor bytes "'d option"
  | Compressed_dynamic "nat option"
  | Uncompressed "'d box_storage"

definition make_compressed ::
  "(nat \<Rightarrow> byte) \<Rightarrow> nat \<Rightarrow> bool \<Rightarrow> 'd box_heap \<Rightarrow> 'd box_storage \<Rightarrow> 'd compressed_box res" where
  "make_compressed junk N add_dtor h box =
     bindR (box_data h box) (\<lambda>bs. bindR (rd_n bs 0 (bx_inline_size box)) (\<lambda>obj.
     let buffer = take N (obj @ map junk [length obj..<N]) in
     if \<not> add_dtor then Inr (Compressed buffer)
     else case bx_u box of Nontrivial_inline _ dtor \<Rightarrow> Inr (Compressed_dtor buffer (Some dtor))
        | _ \<Rightarrow> Inl Out_of_bounds))"

fun compress_p1 ::
  "(nat \<Rightarrow> byte) \<Rightarrow> nat list \<Rightarrow> 'd box_heap \<Rightarrow> 'd box_storage \<Rightarrow> 'd compressed_box res" where
  "compress_p1 junk [] h box = Inr (Uncompressed box)"
| "compress_p1 junk (try # sz) h box =
     (if bx_inline_size box \<le> try then make_compressed junk try (bx_has_dtor box) h box
      else compress_p1 junk sz h box)"

definition unique_box_compress ::
  "(nat \<Rightarrow> byte) \<Rightarrow> nat list \<Rightarrow> 'd box_heap \<Rightarrow> 'd box_storage \<Rightarrow> 'd compressed_box res" where
  "unique_box_compress junk sz h box =
     (if bx_is_dynamic box
      then case bx_u box of Dynamic_at p \<Rightarrow> Inr (Compressed_dynamic p) | _ \<Rightarrow> Inl Out_of_bounds
      else compress_p1 junk sz h box)"

text \<open>\<^verbatim>\<open>recover\<close> of each form.\<close>

fun recover :: "'d box_heap \<Rightarrow> 'd compressed_box \<Rightarrow> 'd box_storage res" where
  "recover h (Compressed buffer) =
     (if buffer = [] then Inr amongoc_nil
      else bindR (wr_n (replicate AMONGOC_BOX_SMALL_SIZE 0) 0 buffer) (\<lambda>bs.
        Inr (amongoc_nil\<lparr>bx_u := Trivial_inline bs, bx_inline_size := length buffer\<rparr>)))"
| "recover h (Compressed_dtor buffer None) = Inl Out_of_bounds"
| "recover h (Compressed_dtor buffer (Some dtor)) =
     bindR (wr_n (replicate AMONGOC_BOX_SMALL_SIZE_WITH_DTOR 0) 0 buffer) (\<lambda>bs.
     Inr (amongoc_nil\<lparr>bx_u := Nontrivial_inline bs dtor, bx_inline_size := length buffer, bx_has_dtor := True\<rparr>))"
| "recover h (Compressed_dynamic p) =
     (case p of None \<Rightarrow> Inl Out_of_bounds
      | Some a \<Rightarrow> (case bh_dyn h a of None \<Rightarrow> Inl Out_of_bounds
          | Some d \<Rightarrow> Inr (amongoc_nil\<lparr>bx_u := Dynamic_at p, bx_is_dynamic := True, bx_has_dtor := dy_destroy d \<noteq> None\<rparr>)))"
| "recover h (Uncompressed box) = Inr box"

text \<open>
  What the destructor of each form does. A form with a destructor recovers the box and destroys it, unless its
  destructor was moved out. The pointer form has no destructor.
\<close>

fun compressed_destroy :: "'d box_heap \<Rightarrow> 'd compressed_box \<Rightarrow> 'd box_heap res" where
  "compressed_destroy h (Compressed buffer) = Inr h"
| "compressed_destroy h (Compressed_dtor buffer dtor) =
     (if dtor = None then Inr h else bindR (recover h (Compressed_dtor buffer dtor)) (box_destroy h))"
| "compressed_destroy h (Compressed_dynamic p) = Inr h"
| "compressed_destroy h (Uncompressed box) = box_destroy h box"

text \<open>The size of the type of each form.\<close>

fun sizeof_compressed :: "'d compressed_box \<Rightarrow> nat" where
  "sizeof_compressed (Compressed buffer) = length buffer"
| "sizeof_compressed (Compressed_dtor buffer dtor) = 8 + (length buffer + 7) div 8 * 8"
| "sizeof_compressed (Compressed_dynamic p) = 8"
| "sizeof_compressed (Uncompressed box) = 32"

section \<open>What a box holds\<close>

text \<open>A box holds an object with a destructor: the bytes at its data pointer start with the object.\<close>

definition holds :: "'d box_heap \<Rightarrow> 'd box_storage \<Rightarrow> 'd option \<Rightarrow> bytes \<Rightarrow> bool" where
  "holds h b f obj \<longleftrightarrow>
     bx_has_dtor b = (f \<noteq> None) \<and>
     (if bx_is_dynamic b
      then \<exists>a d. bx_u b = Dynamic_at (Some a) \<and> bh_dyn h a = Some d \<and> dy_destroy d = f \<and>
        take (length obj) (dy_object d) = obj
      else length obj \<le> bx_inline_size b \<and>
        (case f of
           None \<Rightarrow> \<exists>bs. bx_u b = Trivial_inline bs \<and> length bs = 24 \<and> take (length obj) bs = obj \<and> bx_inline_size b \<le> 24
         | Some g \<Rightarrow> \<exists>bs. bx_u b = Nontrivial_inline bs g \<and> length bs = 16 \<and> take (length obj) bs = obj \<and>
             bx_inline_size b \<le> 16))"

text \<open>The heap after the storage of a box is released, and the calls of its destructor.\<close>

definition without_storage :: "'d box_heap \<Rightarrow> 'd box_storage \<Rightarrow> nat \<Rightarrow> 'd dynamic_object option" where
  "without_storage h b = (case bx_u b of Dynamic_at (Some a) \<Rightarrow> (bh_dyn h)(a := None) | _ \<Rightarrow> bh_dyn h)"

definition storage_of :: "'d box_storage \<Rightarrow> nat set" where
  "storage_of b = (case bx_u b of Dynamic_at (Some a) \<Rightarrow> {a} | _ \<Rightarrow> {})"

definition called :: "('d \<times> bytes) list \<Rightarrow> 'd option \<Rightarrow> bytes \<Rightarrow> bool" where
  "called cs f obj = (case f of None \<Rightarrow> cs = [] | Some g \<Rightarrow> \<exists>x. cs = [(g, x)] \<and> take (length obj) x = obj)"

lemma holds_cong: "bh_dyn h' = bh_dyn h \<Longrightarrow> holds h' b f obj = holds h b f obj"
  by (simp add: holds_def)

lemma without_storage_cong: "bh_dyn h' = bh_dyn h \<Longrightarrow> without_storage h' b = without_storage h b"
  by (auto simp: without_storage_def split: box_union.split option.split)

lemma holds_data:
  assumes "holds h b f obj"
  shows "\<exists>bs. box_data h b = Inr bs \<and> take (length obj) bs = obj"
  using assms by (auto simp: holds_def box_data_def box_dynamic_def split: if_splits option.splits)

lemma holds_free:
  assumes "holds h b f obj"
  shows "\<exists>h'. box_free_storage h b = Inr h' \<and> bh_dyn h' = without_storage h b \<and> bh_calls h' = bh_calls h"
  using assms by (auto simp: holds_def box_free_storage_def box_dynamic_def without_storage_def split: if_splits option.splits)

lemma holds_destroy:
  assumes "holds h b f obj"
  shows "\<exists>h' cs. box_destroy h b = Inr h' \<and> bh_dyn h' = without_storage h b \<and> bh_calls h' = bh_calls h @ cs \<and> called cs f obj"
proof (cases f)
  case None
  with holds_free [OF assms] assms show ?thesis by (auto simp: box_destroy_def holds_def called_def)
next
  case (Some g)
  obtain bs where bs: "box_data h b = Inr bs" "take (length obj) bs = obj" using holds_data [OF assms] by blast
  let ?h = "h\<lparr>bh_calls := bh_calls h @ [(g, bs)]\<rparr>"
  have "holds ?h b f obj" using assms holds_cong [of ?h h] by simp
  from holds_free [OF this] obtain h' where h': "box_free_storage ?h b = Inr h'" "bh_dyn h' = without_storage h b"
    "bh_calls h' = bh_calls h @ [(g, bs)]" using without_storage_cong [of ?h h b] by auto
  have "box_destroy h b = box_free_storage ?h b"
    using assms Some bs(1) by (auto simp: box_destroy_def holds_def box_dynamic_def split: if_splits)
  with h' bs(2) Some show ?thesis by (auto simp: called_def)
qed

text \<open>What a box holds depends on its own storage only.\<close>

lemma without_storage_apply: "without_storage h b a = (if a \<in> storage_of b then None else bh_dyn h a)"
  by (simp add: without_storage_def storage_of_def split: box_union.split option.split)

lemma holds_frame:
  assumes "holds h b f obj" "\<forall>a\<in>storage_of b. bh_dyn h' a = bh_dyn h a"
  shows "holds h' b f obj"
  using assms by (cases "bx_is_dynamic b") (auto simp: holds_def storage_of_def)

lemma holds_storage: "holds h b f obj \<Longrightarrow> a \<in> storage_of b \<Longrightarrow> bh_dyn h a \<noteq> None"
  by (auto simp: holds_def storage_of_def split: if_splits option.splits)

lemma destroy_other:
  assumes "holds h b f obj" "holds h v g obj'" "storage_of b \<inter> storage_of v = {}"
  shows "\<exists>h' cs. box_destroy h b = Inr h' \<and> bh_dyn h' = without_storage h b \<and> bh_calls h' = bh_calls h @ cs \<and>
    called cs f obj \<and> holds h' v g obj'"
proof -
  obtain h' cs where d: "box_destroy h b = Inr h'" "bh_dyn h' = without_storage h b" "bh_calls h' = bh_calls h @ cs"
    "called cs f obj" using holds_destroy [OF assms(1)] by blast
  have "holds h' v g obj'"
    by (rule holds_frame [OF assms(2)]) (use assms(3) d(2) in \<open>auto simp: without_storage_apply\<close>)
  with d show ?thesis by blast
qed

text \<open>Making a box.\<close>

lemma take_prefix: "take (length xs) (xs @ ys) = xs"
  by simp

lemma construct_dynamic:
  assumes "bh_dyn h a = Some d" "length obj \<le> length (dy_object d)" "bx_is_dynamic b" "bx_u b = Dynamic_at (Some a)"
    "bx_has_dtor b = (dy_destroy d \<noteq> None)"
  shows "\<exists>d'. box_construct h b obj = Inr (b, h\<lparr>bh_dyn := (bh_dyn h)(a \<mapsto> d')\<rparr>) \<and>
    holds (h\<lparr>bh_dyn := (bh_dyn h)(a \<mapsto> d')\<rparr>) b (dy_destroy d) obj"
proof -
  obtain bs where bs: "wr_n (dy_object d) 0 obj = Inr bs" "take (length obj) bs = obj"
    using wr_n_in [of 0 obj "dy_object d"] assms(2) by auto
  then show ?thesis
    using assms by (intro exI [of _ "d\<lparr>dy_object := bs\<rparr>"])
      (simp add: box_construct_def box_data_def box_dynamic_def holds_def)
qed

lemma init_inline:
  assumes "relocatable" "length obj \<le> (if f = None then 24 else 16)"
  shows "\<exists>b b'. box_init_storage room box relocatable (length obj) f h = (b, True, h) \<and>
    box_construct h b obj = Inr (b', h) \<and> holds h b' f obj \<and> \<not> bx_is_dynamic b'"
proof -
  obtain bs where bs: "wr_n (replicate (if f = None then 24 else 16) 0) 0 obj = Inr bs" "take (length obj) bs = obj"
    "length bs = (if f = None then 24 else 16)"
    using wr_n_in [of 0 obj "replicate (if f = None then 24 else 16) 0"] assms(2) by auto
  then show ?thesis
    using assms by (cases f) (auto simp: box_init_storage_def box_construct_def box_data_def holds_def)
qed

lemma init_dynamic:
  assumes "\<not> (relocatable \<and> length obj \<le> (if f = None then 24 else 16))"
  shows "if room (48 + length obj)
    then \<exists>b h1 d. box_init_storage room box relocatable (length obj) f h = (b, True, h1) \<and>
      (let h' = h1\<lparr>bh_dyn := (bh_dyn h)(bh_next h \<mapsto> d)\<rparr> in
       box_construct h1 b obj = Inr (b, h') \<and> holds h' b f obj \<and> bx_is_dynamic b \<and>
       bx_u b = Dynamic_at (Some (bh_next h)) \<and> bh_calls h' = bh_calls h)
    else box_init_storage room box relocatable (length obj) f h =
      (box\<lparr>bx_u := Dynamic_at None, bx_is_dynamic := True, bx_has_dtor := f \<noteq> None\<rparr>, False, h)"
proof (cases "room (48 + length obj)")
  case True
  let ?b = "box\<lparr>bx_u := Dynamic_at (Some (bh_next h)), bx_is_dynamic := True, bx_has_dtor := f \<noteq> None\<rparr>"
  let ?d = "\<lparr>dy_destroy = f, dy_alloc_size = 48 + length obj, dy_object = replicate (16 + length obj) 0\<rparr>"
  let ?h = "h\<lparr>bh_dyn := (bh_dyn h)(bh_next h \<mapsto> ?d), bh_next := Suc (bh_next h)\<rparr>"
  have "box_init_storage room box relocatable (length obj) f h = (?b, True, ?h)"
    using assms True by (cases f) (auto simp: box_init_storage_def Let_def)
  moreover obtain d' where "box_construct ?h ?b obj = Inr (?b, ?h\<lparr>bh_dyn := (bh_dyn ?h)(bh_next h \<mapsto> d')\<rparr>)"
    "holds (?h\<lparr>bh_dyn := (bh_dyn ?h)(bh_next h \<mapsto> d')\<rparr>) ?b f obj"
    using construct_dynamic [of ?h "bh_next h" ?d obj ?b] by auto
  ultimately show ?thesis using True
    by (intro if_P [THEN iffD2, OF True] exI [of _ ?b] exI [of _ ?h] exI [of _ d']) (simp add: Let_def)
next
  case False
  with assms show ?thesis by (cases f) (auto simp: box_init_storage_def Let_def)
qed

lemma holds_take:
  assumes "holds h b f obj"
  shows "\<exists>h'. box_take h b (length obj) = Inr (obj, amongoc_nil, h') \<and> bh_dyn h' = without_storage h b \<and> bh_calls h' = bh_calls h"
proof -
  obtain bs where bs: "box_data h b = Inr bs" "take (length obj) bs = obj" using holds_data [OF assms] by blast
  then have "length obj \<le> length bs" by (metis length_take min.cobounded1)
  with bs(2) have "rd_n bs 0 (length obj) = Inr obj" by (auto simp: rd_n_def)
  with bs(1) holds_free [OF assms] show ?thesis by (auto simp: box_take_def)
qed

lemma make_outcome:
  assumes "bh_dyn h (bh_next h) = None"
  shows "let inline = relocatable \<and> length obj \<le> (if f = None then 24 else 16) in
    if inline \<or> room (48 + length obj) then
      \<exists>b h'. unique_box_make room relocatable f obj h = Inr (Some b, h') \<and> holds h' b f obj \<and>
        bx_is_dynamic b = (\<not> inline) \<and> bh_calls h' = bh_calls h \<and> without_storage h' b = bh_dyn h \<and>
        storage_of b = (if inline then {} else {bh_next h}) \<and> (inline \<longrightarrow> h' = h)
    else unique_box_make room relocatable f obj h = Inl Out_of_bounds \<and>
      (\<forall>g ret. f = Some g \<longrightarrow> unique_box_from room ret relocatable g obj h = Inr (None, h))"
proof (cases "relocatable \<and> length obj \<le> (if f = None then 24 else 16)")
  case True
  with init_inline [of relocatable obj f room amongoc_nil h] obtain b b' where
    "box_init_storage room amongoc_nil relocatable (length obj) f h = (b, True, h)"
    "box_construct h b obj = Inr (b', h)" "holds h b' f obj" "\<not> bx_is_dynamic b'" by auto
  moreover from this have "without_storage h b' = bh_dyn h" "storage_of b' = {}"
    by (auto simp: without_storage_def storage_of_def holds_def split: option.splits)
  ultimately show ?thesis using True by (simp add: unique_box_make_def)
next
  case False
  note dyn = init_dynamic [OF False, of room _ h]
  show ?thesis
  proof (cases "room (48 + length obj)")
    case True
    with dyn [of amongoc_nil] obtain b h1 d where
      "box_init_storage room amongoc_nil relocatable (length obj) f h = (b, True, h1)"
      "let h' = h1\<lparr>bh_dyn := (bh_dyn h)(bh_next h \<mapsto> d)\<rparr> in
       box_construct h1 b obj = Inr (b, h') \<and> holds h' b f obj \<and> bx_is_dynamic b \<and>
       bx_u b = Dynamic_at (Some (bh_next h)) \<and> bh_calls h' = bh_calls h" by auto
    moreover have "(bh_dyn h)(bh_next h := None) = bh_dyn h" using assms by (simp add: fun_upd_idem)
    ultimately show ?thesis using True False by (auto simp: unique_box_make_def without_storage_def storage_of_def Let_def)
  next
    case no_room: False
    have "unique_box_make room relocatable f obj h = Inl Out_of_bounds"
      using dyn [of amongoc_nil] no_room
      by (simp add: unique_box_make_def box_destroy_def box_dynamic_def box_free_storage_def)
    moreover have "unique_box_from room ret relocatable g obj h = Inr (None, h)" if "f = Some g" for g ret
      using dyn [of ret] no_room that by (simp add: unique_box_from_def)
    ultimately show ?thesis using no_room False by (cases f) auto
  qed
qed

section \<open>Compression\<close>

text \<open>The lists of sizes that the code tries: none is larger than a box, and 16 is there if a larger one is.\<close>

definition compress_sizes :: "nat list \<Rightarrow> bool" where
  "compress_sizes sz \<longleftrightarrow> sorted sz \<and> (\<forall>t\<in>set sz. t \<le> 24) \<and> (16 \<in> set sz \<or> (\<forall>t\<in>set sz. t \<le> 16))"

lemma compress_sizes_used:
  "compress_sizes [0, 8, 16]" "compress_sizes [0]" "compress_sizes [0, 1, 2, 4, 8, 12, 16, 24]"
  by (simp_all add: compress_sizes_def)

lemma compress_p1_pick:
  assumes "sorted sz" "\<forall>t\<in>set sz. t \<le> 24" "bx_inline_size b \<le> 16 \<longrightarrow> 16 \<in> set sz \<or> (\<forall>t\<in>set sz. t \<le> 16)"
  shows "compress_p1 junk sz h b = Inr (Uncompressed b) \<or>
    (\<exists>t. bx_inline_size b \<le> t \<and> t \<le> 24 \<and> (bx_inline_size b \<le> 16 \<longrightarrow> t \<le> 16) \<and>
      compress_p1 junk sz h b = make_compressed junk t (bx_has_dtor b) h b)"
  using assms
proof (induction sz)
  case (Cons t sz)
  show ?case
  proof (cases "bx_inline_size b \<le> t")
    case True
    moreover have "bx_inline_size b \<le> 16 \<longrightarrow> t \<le> 16" using Cons.prems by auto
    ultimately show ?thesis using Cons.prems by auto
  next
    case False
    with Cons show ?thesis by auto
  qed
qed simp

lemma write_front:
  assumes "length xs \<le> n"
  shows "wr_n (replicate n 0) 0 xs = Inr (xs @ replicate (n - length xs) 0)"
  using assms by (cases "xs = []") (simp_all add: wr_n_def)

lemma make_compressed_recover:
  assumes "holds h b f obj" "\<not> bx_is_dynamic b" "bx_inline_size b \<le> t" "t \<le> (if f = None then 24 else 16)"
  shows "\<exists>buf b'. make_compressed junk t (bx_has_dtor b) h b =
      Inr (case f of None \<Rightarrow> Compressed buf | Some g \<Rightarrow> Compressed_dtor buf (Some g)) \<and>
    recover h (case f of None \<Rightarrow> Compressed buf | Some g \<Rightarrow> Compressed_dtor buf (Some g)) = Inr b' \<and>
    holds h b' f obj \<and> \<not> bx_is_dynamic b' \<and> bx_u b' \<noteq> Dynamic_at p"
proof -
  obtain bs where bs: "box_data h b = Inr bs" "take (length obj) bs = obj" "length bs = (if f = None then 24 else 16)"
    "length obj \<le> bx_inline_size b" "bx_inline_size b \<le> length bs" "bx_has_dtor b = (f \<noteq> None)"
    "case f of None \<Rightarrow> bx_u b = Trivial_inline bs | Some g \<Rightarrow> bx_u b = Nontrivial_inline bs g"
    using assms(1,2) by (auto simp: holds_def box_data_def split: option.splits)
  define buf where "buf = take (bx_inline_size b) bs @ map junk [bx_inline_size b..<t]"
  have l: "length buf = t" using bs(5) assms(3) by (simp add: buf_def)
  have pre: "take (length obj) buf = obj" using bs(2,4,5) by (simp add: buf_def min_def)
  have rd: "rd_n bs 0 (bx_inline_size b) = Inr (take (bx_inline_size b) bs)"
    using bs(5) by (simp add: rd_n_def)
  have "take t buf = buf" using l by simp
  then have mk: "make_compressed junk t (bx_has_dtor b) h b =
      Inr (case f of None \<Rightarrow> Compressed buf | Some g \<Rightarrow> Compressed_dtor buf (Some g))"
    using bs(1,5-7) rd by (simp add: make_compressed_def buf_def min_def split: option.splits)
  have "length obj \<le> t" using bs(4) assms(3) by simp
  then show ?thesis
  proof (cases f)
    case None
    with mk l pre assms(4) write_front [of buf 24] \<open>length obj \<le> t\<close> show ?thesis
      by (cases "buf = []") (auto simp: holds_def amongoc_nil_def)
  next
    case (Some g)
    with mk l pre assms(4) write_front [of buf 16] \<open>length obj \<le> t\<close> show ?thesis
      by (auto simp: holds_def amongoc_nil_def)
  qed
qed

lemma compress_outcome:
  assumes "holds h b f obj" "compress_sizes sz"
  shows "\<exists>c b'. unique_box_compress junk sz h b = Inr c \<and> recover h c = Inr b' \<and> holds h b' f obj \<and>
    storage_of b' = storage_of b \<and>
    (if bx_is_dynamic b then compressed_destroy h c = Inr h
     else \<exists>h' cs. compressed_destroy h c = Inr h' \<and> bh_dyn h' = bh_dyn h \<and> bh_calls h' = bh_calls h @ cs \<and> called cs f obj)"
proof (cases "bx_is_dynamic b")
  case True
  with assms(1) obtain a d where a: "bx_u b = Dynamic_at (Some a)" "bh_dyn h a = Some d" "dy_destroy d = f"
    "take (length obj) (dy_object d) = obj" by (auto simp: holds_def)
  let ?b = "\<lparr>bx_u = Dynamic_at (Some a), bx_is_dynamic = True, bx_has_dtor = f \<noteq> None, bx_inline_size = 0\<rparr>"
  have "recover h (Compressed_dynamic (Some a)) = Inr ?b" "holds h ?b f obj" "storage_of ?b = storage_of b"
    using a by (simp_all add: amongoc_nil_def holds_def storage_of_def)
  with True a show ?thesis
    by (intro exI [of _ "Compressed_dynamic (Some a)"] exI [of _ ?b]) (simp add: unique_box_compress_def)
next
  case False
  have u: "storage_of x = {} \<and> without_storage h x = bh_dyn h" if "holds h x f obj" "\<not> bx_is_dynamic x" for x
    using that by (auto simp: holds_def without_storage_def storage_of_def split: option.splits)
  have dtor: "bx_inline_size b \<le> 16" if "f \<noteq> None"
    using assms(1) False that by (auto simp: holds_def)
  have "compress_p1 junk sz h b = Inr (Uncompressed b) \<or>
    (\<exists>t. bx_inline_size b \<le> t \<and> t \<le> 24 \<and> (bx_inline_size b \<le> 16 \<longrightarrow> t \<le> 16) \<and>
      compress_p1 junk sz h b = make_compressed junk t (bx_has_dtor b) h b)"
    using assms(2) by (intro compress_p1_pick) (auto simp: compress_sizes_def)
  then show ?thesis
  proof (elim disjE exE conjE)
    assume "compress_p1 junk sz h b = Inr (Uncompressed b)"
    with False assms(1) holds_destroy [OF assms(1)] u [of b] show ?thesis by (auto simp: unique_box_compress_def)
  next
    fix t
    assume t: "bx_inline_size b \<le> t" "t \<le> 24" "bx_inline_size b \<le> 16 \<longrightarrow> t \<le> 16"
      "compress_p1 junk sz h b = make_compressed junk t (bx_has_dtor b) h b"
    with dtor have "t \<le> (if f = None then 24 else 16)" by simp
    from make_compressed_recover [OF assms(1) False t(1) this, of junk]
    obtain buf b' where c: "make_compressed junk t (bx_has_dtor b) h b =
        Inr (case f of None \<Rightarrow> Compressed buf | Some g \<Rightarrow> Compressed_dtor buf (Some g))"
      "recover h (case f of None \<Rightarrow> Compressed buf | Some g \<Rightarrow> Compressed_dtor buf (Some g)) = Inr b'"
      "holds h b' f obj" "\<not> bx_is_dynamic b'" by blast
    with False t(4) u [of b'] u [OF assms(1)] holds_destroy [OF c(3)] show ?thesis
      by (cases f) (auto simp: unique_box_compress_def called_def)
  qed
qed

text \<open>Compression does not read the heap.\<close>

lemma compress_heap: "unique_box_compress junk sz h b = unique_box_compress junk sz h' b"
proof (cases "bx_is_dynamic b")
  case False
  then have "box_data h b = box_data h' b" by (simp add: box_data_def)
  then have "compress_p1 junk sz h b = compress_p1 junk sz h' b"
    by (induction sz) (simp_all add: make_compressed_def)
  with False show ?thesis by (simp add: unique_box_compress_def)
qed (simp add: unique_box_compress_def split: box_union.split)

lemma recover_later:
  assumes "unique_box_compress junk sz h b = Inr c" "compress_sizes sz" "holds h' b f obj"
  shows "\<exists>b'. recover h' c = Inr b' \<and> holds h' b' f obj \<and> storage_of b' = storage_of b"
    "if bx_is_dynamic b then compressed_destroy h' c = Inr h'
     else \<exists>h'' cs. compressed_destroy h' c = Inr h'' \<and> bh_dyn h'' = bh_dyn h' \<and> bh_calls h'' = bh_calls h' @ cs \<and> called cs f obj"
  using compress_outcome [OF assms(3,2), of junk] assms(1) compress_heap [of junk sz h b h'] by auto

section \<open>Properties\<close>

text \<open>
  C15: the life of a box. The object lies inline exactly if its type can be moved as bytes and it fits;
  destroying the box calls the destructor, if there is one, exactly once with the object, and leaves no storage
  behind; taking the object out calls nothing and leaves no storage behind. When the allocator refuses the storage,
  making a box ends in a null dereference, since the half-made box is destroyed; making one with an explicit
  destructor throws as it should.
\<close>

theorem box_lifecycle:
  assumes "bh_dyn h (bh_next h) = None"
  shows "let inline = relocatable \<and> length obj \<le> (if f = None then 24 else 16) in
    if inline \<or> room (48 + length obj) then
      \<exists>b ha hb hc cs. unique_box_make room relocatable f obj h = Inr (Some b, ha) \<and> bx_is_dynamic b = (\<not> inline) \<and>
        box_destroy ha b = Inr hb \<and> bh_dyn hb = bh_dyn h \<and> bh_calls hb = bh_calls h @ cs \<and> called cs f obj \<and>
        box_take ha b (length obj) = Inr (obj, amongoc_nil, hc) \<and> bh_dyn hc = bh_dyn h \<and> bh_calls hc = bh_calls h
    else unique_box_make room relocatable f obj h = Inl Out_of_bounds \<and>
      (\<forall>g ret. f = Some g \<longrightarrow> unique_box_from room ret relocatable g obj h = Inr (None, h))"
proof (cases "relocatable \<and> length obj \<le> (if f = None then 24 else 16) \<or> room (48 + length obj)")
  case True
  with make_outcome [OF assms, of relocatable obj f room] obtain b ha where
    b: "unique_box_make room relocatable f obj h = Inr (Some b, ha)" "holds ha b f obj"
      "bx_is_dynamic b = (\<not> (relocatable \<and> length obj \<le> (if f = None then 24 else 16)))"
      "bh_calls ha = bh_calls h" "without_storage ha b = bh_dyn h"
    by (auto simp: Let_def split del: if_split)
  from holds_destroy [OF b(2)] holds_take [OF b(2)] b True show ?thesis by (auto simp: Let_def split del: if_split)
next
  case False
  with make_outcome [OF assms, of relocatable obj f room] show ?thesis by (cases f) (auto simp: Let_def)
qed

definition empty_heap :: "'d box_heap" where
  "empty_heap = \<lparr>bh_dyn = \<lambda>_. None, bh_next = 0, bh_calls = []\<rparr>"

theorem box_lifecycle_witness:
  "\<exists>b ha hb. unique_box_make (\<lambda>_. True) True (Some CHR ''f'') (replicate 17 7) empty_heap = Inr (Some b, ha) \<and>
     bx_is_dynamic b \<and> box_destroy ha b = Inr hb \<and> length (bh_calls hb) = 1"
proof -
  have "bh_dyn empty_heap (bh_next empty_heap) = None" by (simp add: empty_heap_def)
  from box_lifecycle [OF this, of True "replicate 17 7" "Some CHR ''f''" "\<lambda>_. True"]
  show ?thesis by (auto simp: called_def empty_heap_def)
qed

text \<open>
  C16: compressing a box and recovering it gives a box with the same object and destructor, for every list of sizes the code tries, although the box
  can have become larger. A compressed box that is destroyed without being recovered destroys the object, with one
  exception: the compressed form of a box in dynamic storage has no destructor, so the object is never destroyed and the storage leaks.
\<close>

theorem compress_recover_roundtrip:
  assumes "holds h b f obj" "compress_sizes sz"
  shows "\<exists>c b'. unique_box_compress junk sz h b = Inr c \<and> recover h c = Inr b' \<and> holds h b' f obj \<and>
    storage_of b' = storage_of b \<and>
    (if bx_is_dynamic b then compressed_destroy h c = Inr h
     else \<exists>h' cs. compressed_destroy h c = Inr h' \<and> bh_dyn h' = bh_dyn h \<and> bh_calls h' = bh_calls h @ cs \<and> called cs f obj)"
  using assms by (rule compress_outcome)

theorem compress_recover_roundtrip_witness:
  "\<exists>c b'. unique_box_compress (\<lambda>_. 7) [0, 8, 16] (empty_heap :: string box_heap)
      \<lparr>bx_u = Trivial_inline ([1, 2, 3] @ replicate 21 0), bx_is_dynamic = False, bx_has_dtor = False, bx_inline_size = 3\<rparr> = Inr c \<and>
    recover empty_heap c = Inr b' \<and> holds empty_heap b' None [1, 2, 3]"
proof -
  have "holds (empty_heap :: string box_heap) \<lparr>bx_u = Trivial_inline ([1, 2, 3] @ replicate 21 0), bx_is_dynamic = False,
      bx_has_dtor = False, bx_inline_size = 3\<rparr> None [1, 2, 3]" by (simp add: holds_def)
  from compress_recover_roundtrip [OF this compress_sizes_used(1), of "\<lambda>_. 7"] show ?thesis by blast
qed

end
