(* ===== verification/Amongoc_Async.thy ===== *)
theory Amongoc_Async
  imports Amongoc_Box Amongoc_Status
begin

text \<open>
  The combinators of emitters (\<^verbatim>\<open>src/amongoc/async.just.cpp\<close>, \<^verbatim>\<open>async.then.cpp\<close>, \<^verbatim>\<open>async.let.cpp\<close>,
  \<^verbatim>\<open>async.cpp\<close>) with what they do to the boxes they are given. An emitter is what the operation made of it
  completes with when it is started, and what destroying it unstarted does. Boxes
  are the ones of \<open>Amongoc_Box\<close>, over one heap, so a box that nobody destroys is seen in the heap at the end.
  The storage of operations and handlers is not modelled.
\<close>

section \<open>Emitters\<close>

text \<open>\<open>em_dynamic\<close> says whether the state of the emitter is in dynamic storage.\<close>

record 'd emitter =
  em_run :: "'d box_heap \<Rightarrow> ((amongoc_status \<times> 'd box_storage) \<times> 'd box_heap) res"
  em_drop :: "'d box_heap \<Rightarrow> 'd box_heap res"
  em_dynamic :: bool

text \<open>\<^verbatim>\<open>unique_emitter::compress\<close>: the state is a box, and its compressed form is destroyed like one.\<close>

definition compressed_emitter :: "'d emitter \<Rightarrow> 'd emitter" where
  "compressed_emitter em = (if em_dynamic em then em\<lparr>em_drop := Inr\<rparr> else em)"

definition amongoc_alloc_failure :: "'d emitter" where
  "amongoc_alloc_failure =
     \<lparr>em_run = \<lambda>h. Inr ((\<lparr>st_category = Generic, st_code = 12\<rparr>, amongoc_nil), h), em_drop = Inr, em_dynamic = False\<rparr>"

text \<open>\<^verbatim>\<open>amongoc_just\<close>. \<open>dyn\<close> is the layout of its C++ type, which decides where the state of the emitter lies.\<close>

definition just_sizes :: "nat list" where "just_sizes = [0, 1, 2, 4, 8, 12, 16, 24]"

definition amongoc_just ::
  "(nat \<Rightarrow> byte) \<Rightarrow> ('d compressed_box \<Rightarrow> bool) \<Rightarrow> amongoc_status \<Rightarrow> 'd box_storage \<Rightarrow> 'd box_heap \<Rightarrow> 'd emitter res" where
  "amongoc_just junk dyn st value h =
     bindR (unique_box_compress junk just_sizes h value) (\<lambda>compressed.
     Inr \<lparr>em_run = \<lambda>h. bindR (recover h compressed) (\<lambda>v. Inr ((st, v), h)),
          em_drop = \<lambda>h. compressed_destroy h compressed, em_dynamic = dyn compressed\<rparr>)"

section \<open>Transforming results\<close>

text \<open>
  A transformer gets the boxes of the user data and of the result, and owns them. When an error is forwarded, the
  compressed user data is destroyed with the operation.
\<close>

type_synonym 'd then_transformer =
  "'d box_storage \<Rightarrow> amongoc_status \<Rightarrow> 'd box_storage \<Rightarrow> 'd box_heap \<Rightarrow>
   ((amongoc_status \<times> 'd box_storage) \<times> 'd box_heap) res"

definition then_continuation ::
  "platform \<Rightarrow> bool \<Rightarrow> 'd then_transformer \<Rightarrow> 'd compressed_box \<Rightarrow> amongoc_status \<times> 'd box_storage \<Rightarrow> 'd box_heap \<Rightarrow>
   ((amongoc_status \<times> 'd box_storage) \<times> 'd box_heap) res" where
  "then_continuation pf forward_errors tr ud = (\<lambda>(st, v) h.
     if forward_errors \<and> amongoc_is_error pf st
     then bindR (compressed_destroy h ud) (\<lambda>h. Inr ((st, v), h))
     else bindR (recover h ud) (\<lambda>ud. tr ud st v h))"

definition then_sizes :: "nat list" where "then_sizes = [0, 8, 16]"

definition amongoc_then ::
  "platform \<Rightarrow> (nat \<Rightarrow> byte) \<Rightarrow> ('d compressed_box \<Rightarrow> bool) \<Rightarrow> 'd emitter \<Rightarrow> bool \<Rightarrow> 'd box_storage \<Rightarrow>
   'd then_transformer \<Rightarrow> 'd box_heap \<Rightarrow> 'd emitter res" where
  "amongoc_then pf junk dyn inp forward_errors userdata tr h =
     (let inp = compressed_emitter inp in
      bindR (unique_box_compress junk then_sizes h userdata) (\<lambda>ud.
      Inr \<lparr>em_run = \<lambda>h. bindR (em_run inp h) (\<lambda>(r, h). then_continuation pf forward_errors tr ud r h),
           em_drop = \<lambda>h. bindR (em_drop inp h) (\<lambda>h. compressed_destroy h ud), em_dynamic = dyn ud\<rparr>))"

text \<open>
  \<^verbatim>\<open>amongoc_then_just\<close>. With another status than okay the status and the compressed value are boxed in a pair: its
  type is \<^verbatim>\<open>value_with_status\<close>, of which only the size and the traits are modelled. The transformer reads the pair
  where it lies and never frees its storage.
\<close>

fun pair_relocatable :: "'d compressed_box \<Rightarrow> bool" where
  "pair_relocatable (Compressed bs) = True"
| "pair_relocatable _ = False"

fun pair_destroys :: "'d compressed_box \<Rightarrow> bool" where
  "pair_destroys (Compressed_dtor bs f) = True"
| "pair_destroys (Uncompressed b) = True"
| "pair_destroys _ = False"

definition sizeof_pair :: "'d compressed_box \<Rightarrow> nat" where
  "sizeof_pair c = 16 + (sizeof_compressed c + 7) div 8 * 8"

definition amongoc_then_just ::
  "platform \<Rightarrow> (nat \<Rightarrow> byte) \<Rightarrow> (nat \<Rightarrow> bool) \<Rightarrow> ('d compressed_box \<Rightarrow> bool) \<Rightarrow> 'd \<Rightarrow> 'd emitter \<Rightarrow> bool \<Rightarrow>
   amongoc_status \<Rightarrow> 'd box_storage \<Rightarrow> 'd box_heap \<Rightarrow> ('d emitter option \<times> 'd box_heap) res" where
  "amongoc_then_just pf junk room dyn pair_dtor inp flags st value h =
     (if st = amongoc_okay then
        bindR (amongoc_then pf junk dyn inp flags value
                 (\<lambda>value st result h. bindR (box_destroy h result) (\<lambda>h. Inr ((amongoc_okay, value), h))) h)
          (\<lambda>em. Inr (Some em, h))
      else
        bindR (unique_box_compress junk then_sizes h value) (\<lambda>compressed.
        bindR (unique_box_make room (pair_relocatable compressed)
                 (if pair_destroys compressed then Some pair_dtor else None) (replicate (sizeof_pair compressed) 0) h)
          (\<lambda>(pair, h). case pair of None \<Rightarrow> Inr (None, h)
           | Some pair \<Rightarrow>
               bindR (amongoc_then pf junk dyn inp flags pair
                 (\<lambda>pair st' result h. bindR (box_destroy h result) (\<lambda>h. bindR (recover h compressed) (\<lambda>v. Inr ((st, v), h)))) h)
                 (\<lambda>em. Inr (Some em, h)))))"

text \<open>
  \<^verbatim>\<open>amongoc_let\<close>: the transformer returns an emitter, which is started at once. An error is forwarded through \<^verbatim>\<open>amongoc_just\<close>.
\<close>

type_synonym 'd let_transformer =
  "'d box_storage \<Rightarrow> amongoc_status \<Rightarrow> 'd box_storage \<Rightarrow> 'd box_heap \<Rightarrow> ('d emitter \<times> 'd box_heap) res"

definition let_continuation ::
  "platform \<Rightarrow> (nat \<Rightarrow> byte) \<Rightarrow> ('d compressed_box \<Rightarrow> bool) \<Rightarrow> bool \<Rightarrow> 'd let_transformer \<Rightarrow> 'd compressed_box \<Rightarrow>
   amongoc_status \<times> 'd box_storage \<Rightarrow> 'd box_heap \<Rightarrow> ('d emitter \<times> 'd box_heap) res" where
  "let_continuation pf junk dyn forward_errors tr ud = (\<lambda>(st, v) h.
     if forward_errors \<and> amongoc_is_error pf st
     then bindR (amongoc_just junk dyn st v h) (\<lambda>em. bindR (compressed_destroy h ud) (\<lambda>h. Inr (em, h)))
     else bindR (recover h ud) (\<lambda>ud. tr ud st v h))"

definition let_sizes :: "nat list" where "let_sizes = [0]"

definition amongoc_let ::
  "platform \<Rightarrow> (nat \<Rightarrow> byte) \<Rightarrow> ('d compressed_box \<Rightarrow> bool) \<Rightarrow> 'd emitter \<Rightarrow> bool \<Rightarrow> 'd box_storage \<Rightarrow>
   'd let_transformer \<Rightarrow> 'd box_heap \<Rightarrow> 'd emitter res" where
  "amongoc_let pf junk dyn inp forward_errors userdata tr h =
     (let inp = compressed_emitter inp in
      bindR (unique_box_compress junk let_sizes h userdata) (\<lambda>ud.
      Inr \<lparr>em_run = \<lambda>h. bindR (em_run inp h) (\<lambda>(r, h).
             bindR (let_continuation pf junk dyn forward_errors tr ud r h) (\<lambda>(next_sender, h). em_run next_sender h)),
           em_drop = \<lambda>h. bindR (em_drop inp h) (\<lambda>h. compressed_destroy h ud), em_dynamic = dyn ud\<rparr>))"

text \<open>
  \<^verbatim>\<open>amongoc_tie\<close>: the status and the value go where the caller wants them; a value nobody wants is destroyed.
  \<^verbatim>\<open>amongoc_detach\<close> wants neither.
\<close>

definition amongoc_tie ::
  "'d emitter \<Rightarrow> bool \<Rightarrow> bool \<Rightarrow> 'd box_heap \<Rightarrow> ((amongoc_status option \<times> 'd box_storage option) \<times> 'd box_heap) res" where
  "amongoc_tie em status value h =
     bindR (em_run em h) (\<lambda>((st, v), h).
     let st = (if status then Some st else None) in
     if value then Inr ((st, Some v), h) else bindR (box_destroy h v) (\<lambda>h. Inr ((st, None), h)))"

definition amongoc_detach :: "'d emitter \<Rightarrow> 'd box_heap \<Rightarrow> 'd box_heap res" where
  "amongoc_detach em h = bindR (amongoc_tie em False False h) (\<lambda>(_, h). Inr h)"

section \<open>Ownership\<close>

lemmas compress_sizes_defs = just_sizes_def then_sizes_def let_sizes_def

lemma compress_sizes_all: "compress_sizes just_sizes" "compress_sizes then_sizes" "compress_sizes let_sizes"
  using compress_sizes_used by (simp_all only: compress_sizes_defs)

lemma compressed_emitter_run [simp]: "em_run (compressed_emitter em) = em_run em"
  by (simp add: compressed_emitter_def)

text \<open>The pair lies inline only for a value without destructor of at most eight bytes.\<close>

lemma pair_inline:
  assumes "holds h value f obj" "unique_box_compress junk then_sizes h value = Inr c"
  shows "(pair_relocatable c \<and> sizeof_pair c \<le> (if pair_destroys c then 16 else 24)) =
    (\<not> bx_is_dynamic value \<and> f = None \<and> bx_inline_size value \<le> 8)"
  using assms
  by (cases "bx_is_dynamic value"; cases f)
    (auto simp: holds_def unique_box_compress_def then_sizes_def make_compressed_def box_data_def res_simps sizeof_pair_def
      dest!: rd_n_length split: if_splits box_union.splits)

text \<open>Running a continuation that keeps a compressed value and destroys the old one.\<close>

lemma recover_and_destroy:
  assumes "unique_box_compress junk then_sizes h value = Inr c" "holds h' value f obj" "holds h' v0 f0 obj0"
    and "storage_of v0 \<inter> storage_of value = {}"
  shows "\<exists>v' ha hb cs. recover h' c = Inr v' \<and> box_destroy h' v0 = Inr ha \<and> recover ha c = Inr hb \<and>
    bh_dyn ha = without_storage h' v0 \<and> bh_calls ha = bh_calls h' @ cs \<and> called cs f0 obj0 \<and>
    holds ha v' f obj \<and> storage_of v' = storage_of value \<and> holds ha hb f obj \<and> storage_of hb = storage_of value"
proof -
  from recover_later(1) [OF assms(1) compress_sizes_all(2) assms(2)]
  obtain v' where v': "recover h' c = Inr v'" "holds h' v' f obj" "storage_of v' = storage_of value" by blast
  from destroy_other [OF assms(3) assms(2,4)] obtain ha cs where ha: "box_destroy h' v0 = Inr ha"
    "bh_dyn ha = without_storage h' v0" "bh_calls ha = bh_calls h' @ cs" "called cs f0 obj0" "holds ha value f obj" by blast
  from recover_later(1) [OF assms(1) compress_sizes_all(2) ha(5)]
  obtain hb where "recover ha c = Inr hb" "holds ha hb f obj" "storage_of hb = storage_of value" by blast
  moreover have "holds ha v' f obj"
    by (rule holds_frame [OF v'(2)]) (use ha(2) v'(3) assms(4) in \<open>auto simp: without_storage_apply\<close>)
  ultimately show ?thesis using v' ha by blast
qed

text \<open>An error that is forwarded: the compressed user data is destroyed.\<close>

lemma continuation_forwards:
  assumes "unique_box_compress junk then_sizes h ud = Inr c" "holds hb ud f obj" "amongoc_is_error pf st"
  shows "if bx_is_dynamic ud then then_continuation pf True tr c (st, v) hb = Inr ((st, v), hb)
    else \<exists>hc cs. then_continuation pf True tr c (st, v) hb = Inr ((st, v), hc) \<and> bh_dyn hc = bh_dyn hb \<and>
      bh_calls hc = bh_calls hb @ cs \<and> called cs f obj"
  using recover_later(2) [OF assms(1) compress_sizes_all(2) assms(2)] assms(3)
  by (cases "bx_is_dynamic ud") (auto simp: then_continuation_def)

text \<open>
  What \<open>inp\<close> may do when it runs: it completes with a box whose storage is not that of \<open>value\<close> or at \<open>pair\<close>, and
  leaves all other storage alone.
\<close>

definition completes ::
  "'d emitter \<Rightarrow> 'd box_heap \<Rightarrow> amongoc_status \<Rightarrow> 'd box_storage \<Rightarrow> 'd box_heap \<Rightarrow> 'd option \<Rightarrow> bytes \<Rightarrow> nat set \<Rightarrow> bool" where
  "completes inp h st0 v0 h' f0 obj0 others \<longleftrightarrow>
     em_run inp h = Inr ((st0, v0), h') \<and> holds h' v0 f0 obj0 \<and> storage_of v0 \<inter> others = {} \<and>
     (\<forall>a\<in>others. bh_dyn h' a = bh_dyn h a)"

lemma completes_keeps: "completes inp h st0 v0 hb f0 obj0 others \<Longrightarrow> holds h b f obj \<Longrightarrow> storage_of b \<subseteq> others \<Longrightarrow> holds hb b f obj"
  by (rule holds_frame [of h b f obj hb]) (auto simp: completes_def)

text \<open>The pair of the status and the compressed value, which \<^verbatim>\<open>amongoc_then_just\<close> boxes.\<close>

lemma pair_made:
  fixes pair_dtor :: 'd
  assumes "holds h value f obj" "bh_dyn h (bh_next h) = None" "unique_box_compress junk then_sizes h value = Inr c"
  defines "dynamic \<equiv> bx_is_dynamic value \<or> f \<noteq> None \<or> 8 < bx_inline_size value"
    and "dtor \<equiv> if pair_destroys c then Some pair_dtor else None"
  shows "if dynamic \<and> \<not> room (48 + sizeof_pair c)
    then unique_box_make room (pair_relocatable c) dtor (replicate (sizeof_pair c) 0) h = Inl Out_of_bounds
    else \<exists>pair ha. unique_box_make room (pair_relocatable c) dtor (replicate (sizeof_pair c) 0) h = Inr (Some pair, ha) \<and>
      holds ha pair dtor (replicate (sizeof_pair c) 0) \<and> holds ha value f obj \<and> bx_is_dynamic pair = dynamic \<and>
      storage_of pair = (if dynamic then {bh_next h} else {}) \<and> (\<not> dynamic \<longrightarrow> ha = h \<and> dtor = None)"
proof -
  have fresh: "bh_next h \<notin> storage_of value" using holds_storage [OF assms(1), of "bh_next h"] assms(2) by blast
  have "(pair_relocatable c \<and> sizeof_pair c \<le> (if pair_destroys c then 16 else 24)) = (\<not> dynamic)"
    using pair_inline [OF assms(1,3)] by (auto simp: dynamic_def)
  then have inl: "(pair_relocatable c \<and> length (replicate (sizeof_pair c) (0 :: byte)) \<le> (if dtor = None then 24 else 16)) = (\<not> dynamic)"
    by (cases "pair_destroys c") (simp_all add: dtor_def)
  note make = make_outcome [OF assms(2), of "pair_relocatable c" "replicate (sizeof_pair c) 0" dtor room, unfolded Let_def inl]
  have none: "dtor = None" if "\<not> dynamic"
    using that inl by (cases c) (auto simp: dtor_def sizeof_pair_def split: if_splits)
  show ?thesis
  proof (cases "dynamic \<and> \<not> room (48 + sizeof_pair c)")
    case True
    with make show ?thesis by simp
  next
    case False
    then have room: "\<not> dynamic \<or> room (48 + length (replicate (sizeof_pair c) (0 :: byte)))" by auto
    from make [unfolded if_P [OF room] not_not] obtain pair ha where pair: "unique_box_make room (pair_relocatable c) dtor (replicate (sizeof_pair c) 0) h = Inr (Some pair, ha)"
      "holds ha pair dtor (replicate (sizeof_pair c) 0)" "bx_is_dynamic pair = dynamic" "without_storage ha pair = bh_dyn h"
      "storage_of pair = (if \<not> dynamic then {} else {bh_next h})" "\<not> dynamic \<longrightarrow> ha = h"
      by blast
    have "holds ha value f obj"
    proof (rule holds_frame [OF assms(1)], intro ballI)
      fix a assume "a \<in> storage_of value"
      with fresh pair(5) have "a \<notin> storage_of pair" by (auto split: if_splits)
      with pair(4) show "bh_dyn ha a = bh_dyn h a" by (metis without_storage_apply)
    qed
    with pair none show ?thesis
      unfolding if_not_P [OF False] by (intro exI [of _ pair] exI [of _ ha]) simp
  qed
qed

section \<open>Properties\<close>

text \<open>
  How a run ends whose input completed with \<open>st0\<close> and \<open>v0\<close>: with the error of the input, the value lost if \<open>lost\<close> and
  otherwise destroyed, or with the status and the value given.
\<close>

definition then_just_result ::
  "platform \<Rightarrow> bool \<Rightarrow> bool \<Rightarrow> amongoc_status \<Rightarrow> 'd box_storage \<Rightarrow> 'd option \<Rightarrow> bytes \<Rightarrow>
   amongoc_status \<Rightarrow> 'd box_storage \<Rightarrow> 'd option \<Rightarrow> bytes \<Rightarrow> 'd box_heap \<Rightarrow>
   ((amongoc_status \<times> 'd box_storage) \<times> 'd box_heap) res \<Rightarrow> bool" where
  "then_just_result pf flags lost st value f obj st0 v0 f0 obj0 hb run \<longleftrightarrow>
     (if flags \<and> amongoc_is_error pf st0 then
        if lost then run = Inr ((st0, v0), hb)
        else \<exists>hc cs. run = Inr ((st0, v0), hc) \<and> bh_dyn hc = bh_dyn hb \<and> bh_calls hc = bh_calls hb @ cs \<and> called cs f obj
      else \<exists>v' hc cs. run = Inr ((st, v'), hc) \<and> holds hc v' f obj \<and> storage_of v' = storage_of value \<and>
        bh_calls hc = bh_calls hb @ cs \<and> called cs f0 obj0 \<and> bh_dyn hc = without_storage hb v0)"


definition example_box :: "string box_storage" where
  "example_box = \<lparr>bx_u = Trivial_inline (replicate 24 5), bx_is_dynamic = False, bx_has_dtor = False, bx_inline_size = 16\<rparr>"


text \<open>
  C40: forwarding of errors by \<^verbatim>\<open>amongoc_then\<close>: the result passes unchanged and the transformer is not called. The user data is destroyed,
  its destructor called exactly once, unless it lies in dynamic storage: then neither is its destructor called nor its
  storage freed.
\<close>

theorem then_forwards_errors:
  assumes "holds h userdata f obj" "amongoc_is_error pf st"
  shows "\<exists>em. amongoc_then pf junk dyn inp True userdata tr h = Inr em \<and>
    (\<forall>ha hb v. em_run inp ha = Inr ((st, v), hb) \<and> holds hb userdata f obj \<longrightarrow>
      (if bx_is_dynamic userdata then em_run em ha = Inr ((st, v), hb)
       else \<exists>hc cs. em_run em ha = Inr ((st, v), hc) \<and> bh_dyn hc = bh_dyn hb \<and> bh_calls hc = bh_calls hb @ cs \<and>
         called cs f obj))"
proof -
  from compress_outcome [OF assms(1) compress_sizes_all(2)] obtain c where
    c: "unique_box_compress junk then_sizes h userdata = Inr c" by blast
  note continuation_forwards [OF c _ assms(2), where tr = tr]
  with c show ?thesis
    by (cases "bx_is_dynamic userdata") (fastforce simp: amongoc_then_def Let_def)+
qed

definition example_dynamic :: "string box_storage" where
  "example_dynamic = \<lparr>bx_u = Dynamic_at (Some 0), bx_is_dynamic = True, bx_has_dtor = True, bx_inline_size = 0\<rparr>"

definition example_heap :: "string box_heap" where
  "example_heap = \<lparr>bh_dyn = (\<lambda>_. None)(0 \<mapsto> \<lparr>dy_destroy = Some ''free'', dy_alloc_size = 49, dy_object = replicate 17 1\<rparr>),
     bh_next = 1, bh_calls = []\<rparr>"

theorem then_forwards_errors_witness:
  "\<forall>pf. \<exists>em. amongoc_then pf (\<lambda>_. 7) (\<lambda>_. False) amongoc_alloc_failure True example_dynamic
      (\<lambda>ud st v h. Inr ((st, ud), h)) example_heap = Inr em \<and>
    em_run em example_heap = Inr ((\<lparr>st_category = Generic, st_code = 12\<rparr>, amongoc_nil), example_heap)"
proof
  fix pf
  have h: "holds example_heap example_dynamic (Some ''free'') [1]" "bx_is_dynamic example_dynamic"
    by (simp_all add: holds_def example_heap_def example_dynamic_def)
  have "amongoc_is_error pf \<lparr>st_category = Generic, st_code = 12\<rparr>"
    by (simp add: amongoc_is_error_def errno_vtable_def)
  from then_forwards_errors [OF h(1) this, of "\<lambda>_. 7" "\<lambda>_. False" amongoc_alloc_failure "\<lambda>ud st v h. Inr ((st, ud), h)"] h
  show "\<exists>em. amongoc_then pf (\<lambda>_. 7) (\<lambda>_. False) amongoc_alloc_failure True example_dynamic
      (\<lambda>ud st v h. Inr ((st, ud), h)) example_heap = Inr em \<and>
    em_run em example_heap = Inr ((\<lparr>st_category = Generic, st_code = 12\<rparr>, amongoc_nil), example_heap)"
    by (auto simp: amongoc_alloc_failure_def)
qed

end
