(* ===== verification/Amongoc_Loop.thy ===== *)
theory Amongoc_Loop
  imports Amongoc_Pool Amongoc_Status
begin

text \<open>
  The default event loop (\<^verbatim>\<open>src/amongoc/default_loop.cpp\<close>): the operations it starts, the adaptor that
  connects the stop functionality of a handler to a cancellation signal of Asio, and the pools of signals, timers and
  resolvers. Asio decides when an operation completes and with what; that, starting and stopping are the steps of
  \<open>loop_step\<close>. A handler is a number, which is used once since handlers are moved; an object of a pool is
  its address.
\<close>

section \<open>Operations\<close>

text \<open>
  \<^verbatim>\<open>adapt_handler\<close>: the handler, the transformer of the result, the ticket of the signal and the cookie of the
  stop registration, with the tickets of the timer or the resolver that are consigned with it. A posted completion has
  its status from the start and no tickets. \<open>lp_returning\<close> are the adaptors whose handler has been called and
  which are not destroyed yet.
\<close>

record ('r, 'b) loop_op =
  lo_handler :: nat
  lo_posted :: "amongoc_status option"
  lo_transform :: "'r \<Rightarrow> 'b"
  lo_signal :: "nat ticket"
  lo_timer :: "nat ticket"
  lo_resolver :: "nat ticket"
  lo_stop_cookie :: bool
  lo_cancelled :: bool

record ('r, 'b) default_loop =
  lp_ops :: "('r, 'b) loop_op list"
  lp_returning :: "('r, 'b) loop_op list"
  lp_cancel_signals :: "nat object_pool"
  lp_resolvers :: "nat object_pool"
  lp_timers :: "nat object_pool"
  lp_fresh :: nat
  lp_stops :: "(nat \<times> nat) list"
  lp_completed :: "(nat \<times> amongoc_status \<times> 'b) list"

definition new_default_loop :: "('r, 'b) default_loop" where
  "new_default_loop =
     \<lparr>lp_ops = [], lp_returning = [], lp_cancel_signals = default_object_pool, lp_resolvers = default_object_pool,
      lp_timers = default_object_pool, lp_fresh = 0, lp_stops = [], lp_completed = []\<rparr>"

text \<open>\<^verbatim>\<open>object_pool::checkout\<close> with a factory that makes an object at a fresh address.\<close>

definition checkout_object :: "nat object_pool \<Rightarrow> nat \<Rightarrow> nat \<times> nat object_pool \<times> nat" where
  "checkout_object p fresh =
     (case pool_take p of None \<Rightarrow> (fresh, p, Suc fresh) | Some (x, p) \<Rightarrow> (x, p, fresh))"

definition adapt_handler ::
  "nat \<Rightarrow> bool \<Rightarrow> ('r \<Rightarrow> 'b) \<Rightarrow> nat ticket \<Rightarrow> nat ticket \<Rightarrow> ('r, 'b) default_loop \<Rightarrow> ('r, 'b) default_loop" where
  "adapt_handler h stop_possible tr timer resolver lp =
     (let (sig, sigs, fresh) = checkout_object (lp_cancel_signals lp) (lp_fresh lp)
      in lp\<lparr>lp_cancel_signals := sigs, lp_fresh := fresh,
           lp_stops := lp_stops lp @ (if stop_possible then [(h, sig)] else []),
           lp_ops := lp_ops lp @ [\<lparr>lo_handler = h, lo_posted = None, lo_transform = tr, lo_signal = Some sig,
             lo_timer = timer, lo_resolver = resolver, lo_stop_cookie = stop_possible, lo_cancelled = False\<rparr>]\<rparr>)"

definition call_soon :: "amongoc_status \<Rightarrow> 'b \<Rightarrow> nat \<Rightarrow> ('r, 'b) default_loop \<Rightarrow> ('r, 'b) default_loop" where
  "call_soon st res h lp =
     lp\<lparr>lp_ops := lp_ops lp @ [\<lparr>lo_handler = h, lo_posted = Some st, lo_transform = (\<lambda>_. res), lo_signal = None,
       lo_timer = None, lo_resolver = None, lo_stop_cookie = False, lo_cancelled = False\<rparr>]\<rparr>"

text \<open>
  \<^verbatim>\<open>call_later\<close>; \<open>expires_after\<close> is what setting the timer throws. The handler has then been moved from, and
  \<^verbatim>\<open>call_soon\<close> reads its null table.
\<close>

definition call_later ::
  "('t \<Rightarrow> error_code option) \<Rightarrow> bool \<Rightarrow> 't \<Rightarrow> 'b \<Rightarrow> nat \<Rightarrow> ('r, 'b) default_loop \<Rightarrow> ('r, 'b) default_loop res" where
  "call_later expires_after stop_possible dur v h lp =
     (let (timer, timers, fresh) = checkout_object (lp_timers lp) (lp_fresh lp)
      in case expires_after dur of
           Some ec \<Rightarrow> Inl Out_of_bounds
         | None \<Rightarrow> Inr (adapt_handler h stop_possible (\<lambda>_. v) (Some timer) None
             (lp\<lparr>lp_timers := timers, lp_fresh := fresh\<rparr>)))"

text \<open>Resolving, connecting, reading and writing box what Asio gives them.\<close>

definition loop_getaddrinfo :: "('r \<Rightarrow> 'b) \<Rightarrow> bool \<Rightarrow> nat \<Rightarrow> ('r, 'b) default_loop \<Rightarrow> ('r, 'b) default_loop" where
  "loop_getaddrinfo as_box stop_possible h lp =
     (let (resolver, resolvers, fresh) = checkout_object (lp_resolvers lp) (lp_fresh lp)
      in adapt_handler h stop_possible as_box None (Some resolver) (lp\<lparr>lp_resolvers := resolvers, lp_fresh := fresh\<rparr>))"

definition loop_tcp_connect :: "('r \<Rightarrow> 'b) \<Rightarrow> bool \<Rightarrow> nat \<Rightarrow> ('r, 'b) default_loop \<Rightarrow> ('r, 'b) default_loop" where
  "loop_tcp_connect box_socket stop_possible h lp = adapt_handler h stop_possible box_socket None None lp"

text \<open>\<^verbatim>\<open>mlib::copy_to_capacity\<close> into a vector that holds sixteen buffers.\<close>

fun copy_to_capacity :: "nat \<Rightarrow> 'x list \<Rightarrow> 'x list \<Rightarrow> 'x list" where
  "copy_to_capacity capacity (x # inp) out =
     (if length out < capacity then copy_to_capacity capacity inp (out @ [x]) else out)"
| "copy_to_capacity capacity [] out = out"

definition loop_tcp_write_some ::
  "('x list \<Rightarrow> 'r \<Rightarrow> 'b) \<Rightarrow> bool \<Rightarrow> 'x list \<Rightarrow> nat \<Rightarrow> ('r, 'b) default_loop \<Rightarrow> ('r, 'b) default_loop" where
  "loop_tcp_write_some write_some stop_possible bufs h lp =
     adapt_handler h stop_possible (write_some (copy_to_capacity 16 bufs [])) None None lp"

definition loop_tcp_read_some ::
  "('x list \<Rightarrow> 'r \<Rightarrow> 'b) \<Rightarrow> bool \<Rightarrow> 'x list \<Rightarrow> nat \<Rightarrow> ('r, 'b) default_loop \<Rightarrow> ('r, 'b) default_loop" where
  "loop_tcp_read_some read_some stop_possible bufs h lp =
     adapt_handler h stop_possible (read_some (copy_to_capacity 16 bufs [])) None None lp"

text \<open>
  The call of the adaptor by Asio: the stop registration goes first, then the handler is completed.
\<close>

definition complete_op ::
  "platform \<Rightarrow> nat \<Rightarrow> error_code \<Rightarrow> 'r \<Rightarrow> ('r, 'b) default_loop \<Rightarrow> ('r, 'b) default_loop" where
  "complete_op pf i ec r lp =
     (let oper = lp_ops lp ! i;
          st = (case lo_posted oper of Some st \<Rightarrow> st | None \<Rightarrow> status_from pf ec)
      in lp\<lparr>lp_ops := take i (lp_ops lp) @ drop (Suc i) (lp_ops lp),
           lp_returning := oper\<lparr>lo_stop_cookie := False\<rparr> # lp_returning lp,
           lp_stops := (if lo_stop_cookie oper
             then filter (\<lambda>(h, s). \<not> (h = lo_handler oper \<and> lo_signal oper = Some s)) (lp_stops lp) else lp_stops lp),
           lp_completed := lp_completed lp @ [(lo_handler oper, st, lo_transform oper r)]\<rparr>)"

text \<open>Its destruction: the tickets give back what they hold.\<close>

definition destroy_adaptor :: "nat \<Rightarrow> ('r, 'b) default_loop \<Rightarrow> ('r, 'b) default_loop" where
  "destroy_adaptor i lp =
     (let oper = lp_returning lp ! i
      in lp\<lparr>lp_returning := take i (lp_returning lp) @ drop (Suc i) (lp_returning lp),
           lp_cancel_signals := ticket_destroy (lo_signal oper) (lp_cancel_signals lp),
           lp_timers := ticket_destroy (lo_timer oper) (lp_timers lp),
           lp_resolvers := ticket_destroy (lo_resolver oper) (lp_resolvers lp)\<rparr>)"

text \<open>
  A stop request of a handler calls what is registered for it: the signals are emitted, and Asio cancels the operation
  whose slot belongs to the signal.
\<close>

definition cancel_if_registered :: "(nat \<times> nat) list \<Rightarrow> nat \<Rightarrow> ('r, 'b) loop_op \<Rightarrow> ('r, 'b) loop_op" where
  "cancel_if_registered stops h oper =
     oper\<lparr>lo_cancelled := lo_cancelled oper \<or> (\<exists>(h', s)\<in>set stops. h' = h \<and> lo_signal oper = Some s)\<rparr>"

definition request_stop_handler :: "nat \<Rightarrow> ('r, 'b) default_loop \<Rightarrow> ('r, 'b) default_loop" where
  "request_stop_handler h lp =
     lp\<lparr>lp_ops := map (cancel_if_registered (lp_stops lp) h) (lp_ops lp),
        lp_returning := map (cancel_if_registered (lp_stops lp) h) (lp_returning lp)\<rparr>"

text \<open>
  \<^verbatim>\<open>amongoc_default_loop_destroy\<close>: the members are destroyed in the reverse order of their declaration, hence the
  pools before \<^verbatim>\<open>ioc\<close>, which destroys the operations that are still pending. A ticket of such an operation
  gives its object back to a pool that no longer exists.
\<close>

fun destroy_pending :: "('r, 'b) loop_op list \<Rightarrow> unit res" where
  "destroy_pending [] = Inr ()"
| "destroy_pending (oper # ops) =
     (if lo_signal oper = None \<and> lo_timer oper = None \<and> lo_resolver oper = None then destroy_pending ops
      else Inl Out_of_bounds)"

definition default_loop_destroy :: "('r, 'b) default_loop \<Rightarrow> unit res" where
  "default_loop_destroy lp = destroy_pending (lp_ops lp @ lp_returning lp)"

definition unused_handler :: "nat \<Rightarrow> ('r, 'b) default_loop \<Rightarrow> bool" where
  "unused_handler h lp \<longleftrightarrow> h \<notin> lo_handler ` set (lp_ops lp) \<and> h \<notin> fst ` set (lp_completed lp)"

inductive loop_step :: "platform \<Rightarrow> ('r, 'b) default_loop \<Rightarrow> ('r, 'b) default_loop \<Rightarrow> bool" for pf where
  soon: "unused_handler h lp \<Longrightarrow> loop_step pf lp (call_soon st res h lp)"
| later: "unused_handler h lp \<Longrightarrow> call_later (\<lambda>_::unit. None) sp () v h lp = Inr lp' \<Longrightarrow> loop_step pf lp lp'"
| getaddrinfo: "unused_handler h lp \<Longrightarrow> loop_step pf lp (loop_getaddrinfo as_box sp h lp)"
| tcp_connect: "unused_handler h lp \<Longrightarrow> loop_step pf lp (loop_tcp_connect box_socket sp h lp)"
| tcp_write: "unused_handler h lp \<Longrightarrow> loop_step pf lp (loop_tcp_write_some ws sp (bufs :: nat list) h lp)"
| tcp_read: "unused_handler h lp \<Longrightarrow> loop_step pf lp (loop_tcp_read_some rs sp (bufs :: nat list) h lp)"
| stop: "loop_step pf lp (request_stop_handler h lp)"
| complete: "i < length (lp_ops lp) \<Longrightarrow> loop_step pf lp (complete_op pf i ec r lp)"
| return_tickets: "i < length (lp_returning lp) \<Longrightarrow> loop_step pf lp (destroy_adaptor i lp)"

inductive loop_reachable :: "platform \<Rightarrow> ('r, 'b) default_loop \<Rightarrow> bool" for pf where
  new: "loop_reachable pf new_default_loop"
| step: "loop_reachable pf lp \<Longrightarrow> loop_step pf lp lp' \<Longrightarrow> loop_reachable pf lp'"

inductive_cases loop_stepE: "loop_step pf lp lp'"

lemma copy_to_capacity_take: "length out \<le> n \<Longrightarrow> copy_to_capacity n inp out = out @ take (n - length out) inp"
  by (induction n inp out rule: copy_to_capacity.induct) (auto simp: take_Cons')

section \<open>A pool and what is checked out of it\<close>

definition pool_ok :: "nat object_pool \<Rightarrow> nat \<Rightarrow> nat multiset \<Rightarrow> bool" where
  "pool_ok p fresh hs \<longleftrightarrow>
     object_pool_inv p \<and> (\<exists>xs. mset xs = hs \<and> distinct (xs @ op_objects p) \<and> (\<forall>x\<in>set (xs @ op_objects p). x < fresh))"

lemma pool_ok_new: "pool_ok default_object_pool n {#}"
  by (simp add: pool_ok_def default_object_pool_def new_object_pool_def object_pool_inv_def)

lemma pool_ok_mono: "pool_ok p n hs \<Longrightarrow> n \<le> m \<Longrightarrow> pool_ok p m hs"
  unfolding pool_ok_def using order_less_le_trans by blast

lemma pool_ok_list:
  assumes "pool_ok p n (mset xs)"
  shows "distinct (xs @ op_objects p)" "\<forall>x\<in>set (xs @ op_objects p). x < n"
proof -
  obtain ys where ys: "mset ys = mset xs" "distinct (ys @ op_objects p)" "\<forall>x\<in>set (ys @ op_objects p). x < n"
    using assms by (auto simp: pool_ok_def)
  from ys(1) have "set ys = set xs" "distinct ys = distinct xs" by (metis set_mset_mset, rule mset_eq_imp_distinct_iff)
  with ys show "distinct (xs @ op_objects p)" "\<forall>x\<in>set (xs @ op_objects p). x < n" by auto
qed

lemma pool_ok_checkout:
  assumes "pool_ok p n hs" "checkout_object p n = (x, p', n')"
  shows "pool_ok p' n' (add_mset x hs)" "n \<le> n'"
proof -
  obtain xs where xs: "mset xs = hs" "distinct (xs @ op_objects p)" "\<forall>y\<in>set (xs @ op_objects p). y < n"
    and p: "object_pool_inv p" using assms(1) by (auto simp: pool_ok_def)
  have "object_pool_inv p' \<and> distinct ((x # xs) @ op_objects p') \<and> (\<forall>y\<in>set ((x # xs) @ op_objects p'). y < n') \<and> n \<le> n'"
  proof (cases "pool_take p")
    case None
    with xs p assms(2) show ?thesis by (auto simp: checkout_object_def less_Suc_eq)
  next
    case (Some xp)
    then have t: "pool_take p = Some (x, p')" "n' = n" using assms(2) by (auto simp: checkout_object_def split: prod.splits)
    with op.checkout_some [OF p t(1)] xs show ?thesis by auto
  qed
  with xs(1) show "pool_ok p' n' (add_mset x hs)" "n \<le> n'" unfolding pool_ok_def
    by (metis mset.simps(2), blast)
qed

lemma pool_ok_destroy:
  assumes "pool_ok p n (mset_set (set_option t) + hs)"
  shows "pool_ok (ticket_destroy t p) n hs"
proof (cases t)
  case (Some x)
  obtain xs where xs: "mset xs = hs" by (metis ex_mset)
  have p: "object_pool_inv p" using assms by (simp add: pool_ok_def)
  have "mset (x # xs) = mset_set (set_option t) + hs" using xs Some by simp
  with pool_ok_list [of p n "x # xs"] assms have "distinct ((x # xs) @ op_objects p)" "\<forall>y\<in>set ((x # xs) @ op_objects p). y < n"
    by metis+
  with op.give_back_distinct [OF p, of x xs] op.give_back_subset [OF p, of x] op.give_back_inv [OF p, of x] xs Some
  show ?thesis unfolding pool_ok_def ticket_destroy_def by (intro conjI exI [of _ xs]) auto
qed (use assms in \<open>simp add: ticket_destroy_def\<close>)

section \<open>The invariant\<close>

text \<open>The objects that the tickets of operations hold, and the stop registrations of operations.\<close>

definition tickets :: "(('r, 'b) loop_op \<Rightarrow> nat ticket) \<Rightarrow> ('r, 'b) loop_op list \<Rightarrow> nat list" where
  "tickets sel ops = concat (map (\<lambda>oper. case sel oper of None \<Rightarrow> [] | Some x \<Rightarrow> [x]) ops)"

definition registered :: "('r, 'b) loop_op list \<Rightarrow> (nat \<times> nat) set" where
  "registered ops = {(lo_handler oper, s) | oper s. oper \<in> set ops \<and> lo_stop_cookie oper \<and> lo_signal oper = Some s}"

definition op_ok :: "('r, 'b) loop_op \<Rightarrow> bool" where
  "op_ok oper \<longleftrightarrow> (if lo_posted oper = None then lo_signal oper \<noteq> None
     else lo_signal oper = None \<and> lo_timer oper = None \<and> lo_resolver oper = None)"

definition loop_inv_with :: "nat ticket \<Rightarrow> nat ticket \<Rightarrow> ('r, 'b) default_loop \<Rightarrow> bool" where
  "loop_inv_with timer resolver lp \<longleftrightarrow>
     pool_ok (lp_cancel_signals lp) (lp_fresh lp) (mset (tickets lo_signal (lp_ops lp @ lp_returning lp))) \<and>
     pool_ok (lp_timers lp) (lp_fresh lp)
       (mset_set (set_option timer) + mset (tickets lo_timer (lp_ops lp @ lp_returning lp))) \<and>
     pool_ok (lp_resolvers lp) (lp_fresh lp)
       (mset_set (set_option resolver) + mset (tickets lo_resolver (lp_ops lp @ lp_returning lp))) \<and>
     set (lp_stops lp) = registered (lp_ops lp) \<and> list_all op_ok (lp_ops lp) \<and>
     distinct (map lo_handler (lp_ops lp) @ map fst (lp_completed lp))"

abbreviation loop_inv :: "('r, 'b) default_loop \<Rightarrow> bool" where
  "loop_inv \<equiv> loop_inv_with None None"

lemma tickets_simps [simp]:
  "tickets sel [] = []"
  "tickets sel (a @ b) = tickets sel a @ tickets sel b"
  "tickets sel (oper # ops) = (case sel oper of None \<Rightarrow> [] | Some x \<Rightarrow> [x]) @ tickets sel ops"
  by (simp_all add: tickets_def)

lemma registered_simps [simp]:
  "registered [] = {}"
  "registered (a @ b) = registered a \<union> registered b"
  "registered (oper # ops) = (if lo_stop_cookie oper then (\<lambda>s. (lo_handler oper, s)) ` set_option (lo_signal oper) else {}) \<union>
    registered ops"
  by (auto simp: registered_def)

lemma registered_handler: "(h, s) \<in> registered ops \<Longrightarrow> h \<in> lo_handler ` set ops"
  by (auto simp: registered_def)

lemma mset_ticket: "mset (case t of None \<Rightarrow> [] | Some x \<Rightarrow> [x]) = mset_set (set_option t)"
  by (cases t) auto

lemma adapt_handler_inv:
  assumes "loop_inv_with timer resolver lp" "unused_handler h lp"
  shows "loop_inv (adapt_handler h stop_possible tr timer resolver lp)"
proof -
  obtain sig sigs fresh where c: "checkout_object (lp_cancel_signals lp) (lp_fresh lp) = (sig, sigs, fresh)"
    by (cases "checkout_object (lp_cancel_signals lp) (lp_fresh lp)")
  note i = assms(1) [unfolded loop_inv_with_def]
  from i have s: "pool_ok (lp_cancel_signals lp) (lp_fresh lp) (mset (tickets lo_signal (lp_ops lp @ lp_returning lp)))"
    by blast
  note k = pool_ok_checkout [OF s c]
  define new where "new = \<lparr>lo_handler = h, lo_posted = None, lo_transform = tr, lo_signal = Some sig,
    lo_timer = timer, lo_resolver = resolver, lo_stop_cookie = stop_possible, lo_cancelled = False\<rparr>"
  let ?t = "\<lambda>sel. mset (tickets sel ((lp_ops lp @ [new]) @ lp_returning lp))"
  have t: "?t sel = mset_set (set_option (sel new)) + mset (tickets sel (lp_ops lp @ lp_returning lp))" for sel
    by (simp add: mset_ticket ac_simps)
  have "pool_ok sigs fresh (?t lo_signal)" using k(1) by (simp add: t new_def)
  moreover have "pool_ok (lp_timers lp) fresh (?t lo_timer)" "pool_ok (lp_resolvers lp) fresh (?t lo_resolver)"
    unfolding t using i pool_ok_mono [OF _ k(2)] by (simp_all add: new_def)
  moreover have "set (lp_stops lp @ (if stop_possible then [(h, sig)] else [])) = registered (lp_ops lp @ [new])"
    "list_all op_ok (lp_ops lp @ [new])" "distinct (map lo_handler (lp_ops lp @ [new]) @ map fst (lp_completed lp))"
    using i assms(2) by (auto simp: new_def op_ok_def unused_handler_def)
  moreover have "adapt_handler h stop_possible tr timer resolver lp = lp\<lparr>lp_cancel_signals := sigs, lp_fresh := fresh,
      lp_stops := lp_stops lp @ (if stop_possible then [(h, sig)] else []), lp_ops := lp_ops lp @ [new]\<rparr>"
    by (simp add: adapt_handler_def c new_def)
  ultimately show ?thesis by (simp add: loop_inv_with_def del: append_assoc tickets_simps(2) registered_simps)
qed

lemma call_soon_inv: "loop_inv lp \<Longrightarrow> unused_handler h lp \<Longrightarrow> loop_inv (call_soon st res h lp)"
  by (auto simp: call_soon_def loop_inv_with_def unused_handler_def op_ok_def)

lemma call_later_inv:
  assumes "loop_inv lp" "unused_handler h lp" "call_later ea sp d v h lp = Inr lp'"
  shows "loop_inv lp'"
proof -
  obtain x p n where c: "checkout_object (lp_timers lp) (lp_fresh lp) = (x, p, n)"
    by (cases "checkout_object (lp_timers lp) (lp_fresh lp)")
  note i = assms(1) [unfolded loop_inv_with_def]
  then have t: "pool_ok (lp_timers lp) (lp_fresh lp) (mset (tickets lo_timer (lp_ops lp @ lp_returning lp)))" by simp
  note k = pool_ok_checkout [OF t c]
  have "loop_inv_with (Some x) None (lp\<lparr>lp_timers := p, lp_fresh := n\<rparr>)"
    using i k pool_ok_mono [OF _ k(2)] by (auto simp: loop_inv_with_def)
  moreover have "unused_handler h (lp\<lparr>lp_timers := p, lp_fresh := n\<rparr>)" using assms(2) by (simp add: unused_handler_def)
  ultimately show ?thesis using assms(3) adapt_handler_inv by (auto simp: call_later_def c split: option.splits)
qed

lemma getaddrinfo_inv:
  assumes "loop_inv lp" "unused_handler h lp"
  shows "loop_inv (loop_getaddrinfo as_box sp h lp)"
proof -
  obtain x p n where c: "checkout_object (lp_resolvers lp) (lp_fresh lp) = (x, p, n)"
    by (cases "checkout_object (lp_resolvers lp) (lp_fresh lp)")
  note i = assms(1) [unfolded loop_inv_with_def]
  then have t: "pool_ok (lp_resolvers lp) (lp_fresh lp) (mset (tickets lo_resolver (lp_ops lp @ lp_returning lp)))" by simp
  note k = pool_ok_checkout [OF t c]
  have "loop_inv_with None (Some x) (lp\<lparr>lp_resolvers := p, lp_fresh := n\<rparr>)"
    using i k pool_ok_mono [OF _ k(2)] by (auto simp: loop_inv_with_def)
  moreover have "unused_handler h (lp\<lparr>lp_resolvers := p, lp_fresh := n\<rparr>)" using assms(2) by (simp add: unused_handler_def)
  ultimately show ?thesis using adapt_handler_inv by (auto simp: loop_getaddrinfo_def c)
qed

lemma complete_op_inv:
  assumes "loop_inv lp" "i < length (lp_ops lp)"
  shows "loop_inv (complete_op pf i ec r lp)"
proof -
  define oper where "oper = lp_ops lp ! i"
  define a b where "a = take i (lp_ops lp)" and "b = drop (Suc i) (lp_ops lp)"
  have ops: "lp_ops lp = a @ oper # b" unfolding a_def b_def oper_def using assms(2) by (rule id_take_nth_drop)
  note i = assms(1) [unfolded loop_inv_with_def ops]
  have "set (if lo_stop_cookie oper then filter (\<lambda>(h, s). \<not> (h = lo_handler oper \<and> lo_signal oper = Some s)) (lp_stops lp)
      else lp_stops lp) = registered (a @ b)"
    using i registered_handler [of "lo_handler oper" _ a] registered_handler [of "lo_handler oper" _ b]
    by (cases "lo_signal oper") (auto simp: image_iff)
  moreover have "complete_op pf i ec r lp = lp\<lparr>lp_ops := a @ b, lp_returning := oper\<lparr>lo_stop_cookie := False\<rparr> # lp_returning lp,
      lp_stops := (if lo_stop_cookie oper
        then filter (\<lambda>(h, s). \<not> (h = lo_handler oper \<and> lo_signal oper = Some s)) (lp_stops lp) else lp_stops lp),
      lp_completed := lp_completed lp @ [(lo_handler oper,
        (case lo_posted oper of Some st \<Rightarrow> st | None \<Rightarrow> status_from pf ec), lo_transform oper r)]\<rparr>"
    by (simp add: complete_op_def a_def b_def oper_def Let_def)
  ultimately show ?thesis using i by (auto simp: loop_inv_with_def mset_ticket ac_simps)
qed

lemma destroy_adaptor_inv:
  assumes "loop_inv lp" "i < length (lp_returning lp)"
  shows "loop_inv (destroy_adaptor i lp)"
proof -
  define oper where "oper = lp_returning lp ! i"
  define a b where "a = take i (lp_returning lp)" and "b = drop (Suc i) (lp_returning lp)"
  have ops: "lp_returning lp = a @ oper # b" unfolding a_def b_def oper_def using assms(2) by (rule id_take_nth_drop)
  note i = assms(1) [unfolded loop_inv_with_def ops]
  then have
    "pool_ok (lp_cancel_signals lp) (lp_fresh lp) (mset_set (set_option (lo_signal oper)) + mset (tickets lo_signal (lp_ops lp @ a @ b)))"
    "pool_ok (lp_timers lp) (lp_fresh lp) (mset_set (set_option (lo_timer oper)) + mset (tickets lo_timer (lp_ops lp @ a @ b)))"
    "pool_ok (lp_resolvers lp) (lp_fresh lp) (mset_set (set_option (lo_resolver oper)) + mset (tickets lo_resolver (lp_ops lp @ a @ b)))"
    by (simp_all add: mset_ticket ac_simps)
  from this [THEN pool_ok_destroy] i show ?thesis
    by (simp add: destroy_adaptor_def Let_def loop_inv_with_def a_def b_def oper_def)
qed

lemma tickets_map: "(\<And>x. sel (f x) = sel x) \<Longrightarrow> tickets sel (map f ops) = tickets sel ops"
  by (simp add: tickets_def comp_def)

lemma request_stop_inv:
  assumes "loop_inv lp"
  shows "loop_inv (request_stop_handler h lp)"
proof -
  define f where "f = (cancel_if_registered (lp_stops lp) h :: ('a, 'b) loop_op \<Rightarrow> ('a, 'b) loop_op)"
  have f: "lo_signal (f x) = lo_signal x" "lo_timer (f x) = lo_timer x" "lo_resolver (f x) = lo_resolver x"
    "lo_handler (f x) = lo_handler x" "lo_stop_cookie (f x) = lo_stop_cookie x" "op_ok (f x) = op_ok x" for x
    by (simp_all add: f_def cancel_if_registered_def op_ok_def)
  have "registered (map f ops) = registered ops" "list_all op_ok (map f ops) = list_all op_ok ops"
    "map lo_handler (map f ops) = map lo_handler ops" for ops
    by (induction ops) (simp_all add: f)
  then have m: "map (lo_handler \<circ> f) ops = map lo_handler ops" "registered (map f ops) = registered ops"
    "list_all op_ok (map f ops) = list_all op_ok ops" for ops by simp_all
  with assms show ?thesis
    by (simp add: loop_inv_with_def request_stop_handler_def f_def [symmetric] tickets_map m f del: map_eq_conv)
qed

lemma loop_inv_reachable: "loop_reachable pf lp \<Longrightarrow> loop_inv lp"
proof (induction rule: loop_reachable.induct)
  case new
  show ?case by (simp add: new_default_loop_def loop_inv_with_def pool_ok_new)
next
  case (step lp lp')
  from step.hyps(2) step.IH show ?case
    by (cases rule: loop_stepE)
      (auto intro: adapt_handler_inv complete_op_inv request_stop_inv destroy_adaptor_inv call_soon_inv call_later_inv
        getaddrinfo_inv simp: loop_tcp_connect_def loop_tcp_write_some_def loop_tcp_read_some_def)
qed

section \<open>Properties\<close>

lemma ticket_mem: "oper \<in> set ops \<Longrightarrow> sel oper = Some x \<Longrightarrow> x \<in> set (tickets sel ops)"
  by (induction ops) auto

lemma tickets_unique:
  "distinct (tickets sel ops) \<Longrightarrow> o1 \<in> set ops \<Longrightarrow> o2 \<in> set ops \<Longrightarrow> sel o1 = Some x \<Longrightarrow> sel o2 = Some x \<Longrightarrow> o1 = o2"
proof (induction ops)
  case (Cons oper ops)
  then show ?case using ticket_mem [of o1 ops sel x] ticket_mem [of o2 ops sel x] by auto
qed simp

lemma cancel_own:
  assumes "distinct (tickets lo_signal ops)" "set stops = registered ops'" "set ops' \<subseteq> set ops" "oper \<in> set ops'"
  shows "lo_cancelled (cancel_if_registered stops h oper) \<longleftrightarrow>
    lo_cancelled oper \<or> lo_handler oper = h \<and> lo_stop_cookie oper \<and> lo_signal oper \<noteq> None"
proof -
  have "(h, s) \<in> set stops \<and> lo_signal oper = Some s \<longleftrightarrow>
      lo_handler oper = h \<and> lo_stop_cookie oper \<and> lo_signal oper = Some s" for s
  proof
    assume a: "(h, s) \<in> set stops \<and> lo_signal oper = Some s"
    then obtain o' where o': "o' \<in> set ops'" "lo_handler o' = h" "lo_stop_cookie o'" "lo_signal o' = Some s"
      using assms(2) by (auto simp: registered_def)
    have "o' = oper" by (rule tickets_unique [OF assms(1)]) (use o' a assms(3,4) in blast)+
    with o' a show "lo_handler oper = h \<and> lo_stop_cookie oper \<and> lo_signal oper = Some s" by simp
  qed (use assms(2,4) in \<open>unfold registered_def, blast\<close>)
  then have "(\<exists>s. (h, s) \<in> set stops \<and> lo_signal oper = Some s) \<longleftrightarrow>
      lo_handler oper = h \<and> lo_stop_cookie oper \<and> lo_signal oper \<noteq> None" by blast
  moreover have "(\<exists>(h', s)\<in>set stops. h' = h \<and> lo_signal oper = Some s) \<longleftrightarrow> (\<exists>s. (h, s) \<in> set stops \<and> lo_signal oper = Some s)"
    by blast
  ultimately show ?thesis unfolding cancel_if_registered_def by simp
qed

lemma destroy_pending_ok: "destroy_pending ops = Inr () \<longleftrightarrow>
    (\<forall>oper\<in>set ops. lo_signal oper = None \<and> lo_timer oper = None \<and> lo_resolver oper = None)"
  by (induction ops) auto

lemma default_loop_destroy_ok:
  assumes "loop_reachable pf lp" "lp_returning lp = []"
  shows "default_loop_destroy lp = Inr () \<longleftrightarrow> (\<forall>oper\<in>set (lp_ops lp). lo_posted oper \<noteq> None)"
proof -
  have "list_all op_ok (lp_ops lp)" using loop_inv_reachable [OF assms(1)] by (simp add: loop_inv_with_def)
  then show ?thesis unfolding default_loop_destroy_def destroy_pending_ok op_ok_def list_all_iff
    using assms(2) by (metis append_Nil2)
qed

lemma stop_cancels_own:
  assumes "loop_reachable pf lp" "i < length (lp_ops lp)"
  shows "lo_cancelled (lp_ops (request_stop_handler h lp) ! i) \<longleftrightarrow> lo_cancelled (lp_ops lp ! i) \<or>
      lo_handler (lp_ops lp ! i) = h \<and> lo_stop_cookie (lp_ops lp ! i) \<and> lo_signal (lp_ops lp ! i) \<noteq> None"
proof -
  note i = loop_inv_reachable [OF assms(1), unfolded loop_inv_with_def]
  then have "distinct (tickets lo_signal (lp_ops lp @ lp_returning lp) @ op_objects (lp_cancel_signals lp))"
    by (intro pool_ok_list [where n = "lp_fresh lp"]) blast
  then have "distinct (tickets lo_signal (lp_ops lp))" by simp
  from cancel_own [OF this, of "lp_stops lp" "lp_ops lp" "lp_ops lp ! i" h] i assms(2) show ?thesis
    by (simp add: request_stop_handler_def list_all_iff)
qed

text \<open>
  C25: In every state that the event loop can reach, each handler has been completed at most once; no two operations
  hold the same cancellation signal, timer or resolver, and none that an operation holds is also in the pool. A stop
  request of a handler therefore cancels its own pending operation, if that operation registered for it, and no other,
  although signals are used again. Destroying the loop is safe exactly if only posted completions are pending: the ticket
  of any other operation gives its signal back to a pool that is destroyed already.
\<close>

theorem loop_stop_cancels_own:
  assumes "loop_reachable pf lp"
  shows "distinct (map fst (lp_completed lp)) \<and>
    distinct (tickets lo_signal (lp_ops lp @ lp_returning lp) @ op_objects (lp_cancel_signals lp)) \<and>
    distinct (tickets lo_timer (lp_ops lp @ lp_returning lp) @ op_objects (lp_timers lp)) \<and>
    distinct (tickets lo_resolver (lp_ops lp @ lp_returning lp) @ op_objects (lp_resolvers lp)) \<and>
    (\<forall>h. \<forall>i<length (lp_ops lp). lo_cancelled (lp_ops (request_stop_handler h lp) ! i) \<longleftrightarrow>
      lo_cancelled (lp_ops lp ! i) \<or>
      lo_handler (lp_ops lp ! i) = h \<and> lo_stop_cookie (lp_ops lp ! i) \<and> lo_signal (lp_ops lp ! i) \<noteq> None) \<and>
    (lp_returning lp = [] \<longrightarrow>
      (default_loop_destroy lp = Inr () \<longleftrightarrow> (\<forall>oper\<in>set (lp_ops lp). lo_posted oper \<noteq> None)))"
proof (intro conjI)
  note i = loop_inv_reachable [OF assms, unfolded loop_inv_with_def]
  show "distinct (map fst (lp_completed lp))" using i by simp
  show "distinct (tickets lo_signal (lp_ops lp @ lp_returning lp) @ op_objects (lp_cancel_signals lp))"
    "distinct (tickets lo_timer (lp_ops lp @ lp_returning lp) @ op_objects (lp_timers lp))"
    "distinct (tickets lo_resolver (lp_ops lp @ lp_returning lp) @ op_objects (lp_resolvers lp))"
    using i by (intro pool_ok_list [where n = "lp_fresh lp"]; simp)+
qed (use stop_cancels_own [OF assms] default_loop_destroy_ok [OF assms] in blast)+

text \<open>Two resolutions, of which the second can be stopped.\<close>

lemma loop_stop_cancels_own_witness:
  "\<forall>pf. let lp = loop_getaddrinfo id True 2 (loop_getaddrinfo id True 1 (new_default_loop :: (nat, nat) default_loop))
    in loop_reachable pf lp \<and> distinct (tickets lo_signal (lp_ops lp)) \<and>
      lo_cancelled (lp_ops (request_stop_handler 2 lp) ! 1) \<and> \<not> lo_cancelled (lp_ops (request_stop_handler 2 lp) ! 0)"
proof
  fix pf
  let ?a = "loop_getaddrinfo id True 1 (new_default_loop :: (nat, nat) default_loop)"
  let ?lp = "loop_getaddrinfo id True 2 ?a"
  note e = loop_getaddrinfo_def adapt_handler_def checkout_object_def new_default_loop_def default_object_pool_def
    new_object_pool_def pool_take_def unused_handler_def
  have "loop_step pf new_default_loop ?a" by (rule loop_step.getaddrinfo) (simp add: e)
  moreover have "loop_step pf ?a ?lp" by (rule loop_step.getaddrinfo) (simp add: e)
  ultimately have r: "loop_reachable pf ?lp" by (blast intro: loop_reachable.intros)
  have "length (lp_ops ?lp) = 2" "map (\<lambda>x. (lo_handler x, lo_cancelled x, lo_stop_cookie x, lo_signal x)) (lp_ops ?lp)
      = [(1, False, True, Some 1), (2, False, True, Some 3)]" by (simp_all add: e)
  then have "lo_handler (lp_ops ?lp ! 0) = 1" "\<not> lo_cancelled (lp_ops ?lp ! 0)" "lo_handler (lp_ops ?lp ! 1) = 2"
    "lo_stop_cookie (lp_ops ?lp ! 1)" "lo_signal (lp_ops ?lp ! 1) \<noteq> None" "length (lp_ops ?lp) = 2"
    by (simp_all add: e)
  with r loop_stop_cancels_own [OF r] show "let lp = ?lp in loop_reachable pf lp \<and> distinct (tickets lo_signal (lp_ops lp)) \<and>
      lo_cancelled (lp_ops (request_stop_handler 2 lp) ! 1) \<and> \<not> lo_cancelled (lp_ops (request_stop_handler 2 lp) ! 0)"
    by (simp add: Let_def)
qed

end
