(* ===== verification/Spec2Isabelle.thy ===== *)
theory Spec2Isabelle
  imports Bson_Mut_Correct Amongoc_Pool Amongoc_Uri Amongoc_Stop Amongoc_Race Mlib_Str Amongoc_Connect Bson_Owned Amongoc_Async Amongoc_Loop
begin

text \<open>
  A verification library for \<^emph>\<open>amongoc\<close>, an asynchronous MongoDB driver in C and C++.

  \<^bold>\<open>The program.\<close> The driver is layered. \<^verbatim>\<open>mlib\<close> (\<^verbatim>\<open>src/include/mlib\<close>, \<^verbatim>\<open>src/src/mlib\<close>)
  has checked integer arithmetic, allocators and strings. \<^verbatim>\<open>bson\<close> (\<^verbatim>\<open>src/include/bson\<close>,
  \<^verbatim>\<open>src/src/bson\<close>) reads and edits BSON documents in place, in a byte buffer whose first four bytes
  are its length and whose last byte is zero. \<^verbatim>\<open>amongoc\<close> (\<^verbatim>\<open>src/include/amongoc\<close>,
  \<^verbatim>\<open>src/src/amongoc\<close>) has status codes, connection strings, the wire protocol, a connection pool and
  the asynchronous operations.

  \<^bold>\<open>Memory.\<close> A block of memory is a list of bytes (\<open>8 word list\<close>), a pointer into it an \<open>int\<close>
  offset. An access outside the block is the fault \<open>Out_of_bounds\<close>, a failed \<^verbatim>\<open>BV_ASSERT\<close> the fault
  \<open>Assert_fail\<close>, a call of \<^verbatim>\<open>abort\<close> the fault \<open>Abort_called\<close>; an operation returns
  \<open>fault + result\<close>. So ``the code reads nothing outside the block'' and ``the code does not abort'' are
  statements about the values of the model. Machine integers are \<open>w word\<close> in memory and \<open>int\<close> with the
  wrap-around written out (\<open>to_i32\<close>, \<open>to_i64\<close>) in C arithmetic.

  \<^bold>\<open>The theories.\<close>
  \<^item> \<open>Amongoc_Prelude\<close>: faults and their monad, offsets, byte lists, shared lemmas.
  \<^item> \<open>Mlib_Integer\<close> (\<^verbatim>\<open>mlib/integer.h\<close>): the overflow predicates, the flagged integers of
    \<^verbatim>\<open>mlibMath\<close>, checked and saturating operations, casts and the \<^verbatim>\<open>mlib_math_try\<close> scope. They compute the
    mathematical result or carry a flag; the exception is the predicate for subtraction.
  \<^item> \<open>Bson_Mem\<close> (\<^verbatim>\<open>bson/detail/mem.h\<close>, \<^verbatim>\<open>bson/byte.h\<close>): little-endian access and the copying loops.
  \<^item> \<open>Bson_Types\<close> (\<^verbatim>\<open>bson/types.h\<close>, \<^verbatim>\<open>bson/value_ref.h\<close>): type tags, error codes, value references.
  \<^item> \<open>Bson_View\<close> (\<^verbatim>\<open>bson/view.h\<close>): validation of untrusted bytes, and views.
  \<^item> \<open>Bson_Valsize\<close> (\<^verbatim>\<open>bson/detail/iter.h\<close>): the size of an element from its tag and its bytes.
  \<^item> \<open>Bson_Iterator\<close> (\<^verbatim>\<open>bson/iterator.h\<close>): construction and advance of iterators, the
    foreach loops, lookup by key, and the reading of values. The loops are fuelled; the theorem on
    \<^verbatim>\<open>bson_foreach\<close> shows that as many rounds as the document has bytes are enough.
  \<^item> \<open>Bson_Elements\<close>: the abstract document, a list of elements (tag, key, value bytes), its encoding
    \<open>doc_bytes\<close>, and that iteration inverts it.
  \<^item> \<open>Bson_Values\<close>: the encoding of values and that reading inverts it, on any memory.
  \<^item> \<open>Mlib_Alloc\<close> (\<^verbatim>\<open>mlib/alloc.h\<close>): the allocator interface as the locales \<open>allocator\<close> and
    \<open>exact_allocator\<close>, interpreted on the default allocator, whose C heap (not under \<^verbatim>\<open>src/\<close>) is a parameter:
    it may refuse any request and hands out arbitrary bytes.
  \<^item> \<open>Bson_Doc\<close> (\<^verbatim>\<open>bson/doc.h\<close>): owned documents, with the capacity cookie in front of the bytes and
    the static empty document; reservation, creation and copy over any allocator of the locale.
  \<^item> \<open>Bson_Mut\<close> (\<^verbatim>\<open>bson/mut.h\<close>): mutators, splicing, insertion, keys, relabelling, erasing,
    child mutators.
  \<^item> \<open>Bson_Mut_Correct\<close>: insertion and erasing refine insertion into and removal from the list of
    elements of a well-formed owned document.
  \<^item> \<open>Bson_Lookup\<close>: lookup by key followed by reading the value is lookup in the association list
    that the document encodes.
  \<^item> \<open>Mlib_Str\<close> (\<^verbatim>\<open>mlib/str.h\<close>, \<^verbatim>\<open>mlib/cstring.h\<close>): string views, and owned strings with their length
    cookie; comparison, search, resizing and splicing.
  \<^item> \<open>Bson_Parse\<close> (\<^verbatim>\<open>bson/parse.hpp\<close>): the rules that decompose documents, their results and messages. A
    rule is a function of an element and of the variables it assigns.
  \<^item> \<open>Bson_Fields\<close>: documents of fields with different keys. The locales \<open>keyed_parts\<close> and \<open>field_rules\<close>
    show that parsing such a document is lookup of each key, whatever the order of the elements.
  \<^item> \<open>Bson_Child\<close>: insertion through a chain of child mutators changes the innermost document and the
    sizes of all documents around it.
  \<^item> \<open>Bson_Make\<close> (\<^verbatim>\<open>bson/make.hpp\<close>): the rules that build documents; building gives the bytes of the keys
    and values that the rules denote.
  \<^item> \<open>Wire_Buffer\<close> (\<^verbatim>\<open>wire/buffer.hpp\<close>, \<^verbatim>\<open>wire/integer.hpp\<close>, \<^verbatim>\<open>mlib/bytes.hpp\<close>): the results
    of coroutines that may throw, the integer codecs over byte ranges, the fixed dynamic buffer.
  \<^item> \<open>Wire_Message\<close> (\<^verbatim>\<open>wire/message.hpp\<close>, \<^verbatim>\<open>message.cpp\<close>): sections and OP_MSG messages, their
    buffers, and the reading of a section from untrusted bytes.
  \<^item> \<open>Wire_Proto\<close> (\<^verbatim>\<open>wire/proto.hpp\<close>, \<^verbatim>\<open>wire/error.cpp\<close>): sending and receiving over a stream, the
    check of replies. The stream is a parameter; the locale \<open>stream_fifo\<close> states what a reliable one
    does and is interpreted on the pair of operations over a list of bytes.
  \<^item> \<open>Wire_Client\<close> (\<^verbatim>\<open>wire/client.hpp\<close>): the numbering, retrying and checking clients.
  \<^item> \<open>Amongoc_Replies\<close>, \<open>Amongoc_Writes\<close> (\<^verbatim>\<open>collection.cpp\<close>, \<^verbatim>\<open>database.cpp\<close>): what the operations
    on collections read from replies, by interpretations of the locales of \<open>Bson_Fields\<close> on their rules.
  \<^item> \<open>Amongoc_Commands\<close> (the same files): the commands that the operations build, and the operations from
    the arguments over the checking client to the result. The client's request function is a parameter, and
    what it answers a hypothesis.
  \<^item> \<open>Amongoc_Pool\<close> (\<^verbatim>\<open>pool.hpp\<close>, \<^verbatim>\<open>connection_pool.hpp\<close>, \<^verbatim>\<open>connection_pool.cpp\<close>): the object pool
    and the connection pool, both instances of the locale \<open>free_list\<close>; the interleaving of clients at
    the pool's lock is the step relation \<open>pool_step\<close>, with its invariant by rule induction, and the
    sequential code of \<^verbatim>\<open>pool_client::request\<close> is shown to be made of its steps.
  \<^item> \<open>Amongoc_Status\<close> (\<^verbatim>\<open>amongoc/status.h\<close>, \<^verbatim>\<open>status.cpp\<close>): categories, server error codes and their
    texts, messages, conversion to and from \<^verbatim>\<open>std::error_code\<close>. What the operating system, Asio and
    OpenSSL say is the parameter \<open>platform\<close>.
  \<^item> \<open>Amongoc_Uri\<close> (\<^verbatim>\<open>uri.hpp\<close>, \<^verbatim>\<open>uri.cpp\<close>): connection strings, with Boost.URL and the tokenizer as
    the parameter \<open>url_lib\<close>.
  \<^item> \<open>Amongoc_Chain\<close>: intrusive lists whose nodes point back to the pointer that points to them, with
    what a chain of nodes represents; the contract of entering and leaving is the locale \<open>intrusive_list\<close>.
  \<^item> \<open>Amongoc_Events\<close> (\<^verbatim>\<open>event_emitter.hpp\<close>): listeners and firing. The fuel of the firing loop is the
    number of listeners; with that much it always ends.
  \<^item> \<open>Amongoc_Stop\<close> (\<^verbatim>\<open>nano/stop.hpp\<close>): stop sources and callbacks, with the threads that use them as
    the step relation \<open>stop_step\<close>; memory safety, exactly-once execution and the end of waiting are
    invariants by rule induction.
  \<^item> \<open>Amongoc_Race\<close> (\<^verbatim>\<open>nano/first.hpp\<close>, \<^verbatim>\<open>nano/all.hpp\<close>, \<^verbatim>\<open>nano/simultaneous.hpp\<close>, \<^verbatim>\<open>amongoc_timeout\<close>
    of \<^verbatim>\<open>async.cpp\<close>): the first accepted result, all results, timeouts, over operations that complete
    in any order.
  \<^item> \<open>Amongoc_Coroutine\<close> (\<^verbatim>\<open>nano/result.hpp\<close>, \<^verbatim>\<open>coroutine.hpp\<close>, \<^verbatim>\<open>coroutine.cpp\<close>): results, the promises of
    tasks and emitters, when the handler of an emitter is completed, and which exceptions it reports.
  \<^item> \<open>Amongoc_Client\<close> (\<^verbatim>\<open>handshake.hpp\<close>, \<^verbatim>\<open>handshake.cpp\<close>, \<^verbatim>\<open>client.cpp\<close>): the \<^verbatim>\<open>hello\<close> command,
    its response, and the commands on a client.
  \<^item> \<open>Amongoc_Connect\<close> (\<^verbatim>\<open>connection_pool.cpp\<close>, \<^verbatim>\<open>tcp_conn.hpp\<close>, \<^verbatim>\<open>client.cpp\<close>): the settings of TLS,
    connecting, and the creation of a client from its connection string. The network is a parameter.
  \<^item> \<open>Mlib_Vec\<close> (\<^verbatim>\<open>mlib/vec.t.h\<close>): the vector template over the bytes of its elements; resizing
    refines resizing of a list.
  \<^item> \<open>Bson_Owned\<close> (\<^verbatim>\<open>bson/value.h\<close>): owned values, their copies, deletion, and conversion to references.
  \<^item> \<open>Amongoc_Box\<close> (\<^verbatim>\<open>box.h\<close>, \<^verbatim>\<open>box.hpp\<close>, \<^verbatim>\<open>box.compress.hpp\<close>): boxes and compressed boxes over a
    heap that records the calls of destructors; \<open>holds\<close> says what object a box owns.
  \<^item> \<open>Amongoc_Async\<close> (\<^verbatim>\<open>async.just.cpp\<close>, \<^verbatim>\<open>async.then.cpp\<close>, \<^verbatim>\<open>async.let.cpp\<close>, \<^verbatim>\<open>async.cpp\<close>): the
    combinators of emitters and what they do with the boxes they own.
  \<^item> \<open>Amongoc_Loop\<close> (\<^verbatim>\<open>default_loop.cpp\<close>): the operations of the event loop, their pooled signals, timers
    and resolvers, and the connection of stop requests to cancellation, as the step relation \<open>loop_step\<close>.

  \<^bold>\<open>Refinement.\<close> \<open>doc_bytes es\<close> is the abstraction of a buffer: \<open>doc_inv\<close> says that an owned buffer
  holds a capacity cookie, the encoding of a list of elements, and spare bytes. The operations of
  \<^verbatim>\<open>mut.h\<close> are shown to act on the list, whatever the spare bytes and whatever the allocator returns.
  The wire protocol is shown to carry such documents from one end of a stream to the other, the builders to
  produce the encodings of lists of keys and values (\<open>kv_doc\<close>), and the parsers to look keys up in them; the
  operations on collections are composed of these three.

  \<^bold>\<open>Not modelled.\<close> Asio, OpenSSL and the operating system, which are not under \<^verbatim>\<open>src/\<close>; the frames of
  coroutines: a coroutine is the function it computes between its suspension points, and where the order of
  several coroutines matters (the pool) it is a step relation. C++ classes and macros that only forward
  to the modelled functions; floating-point conversion; tracing of messages.
\<close>

end
